(* ===== verification/Prelude.thy ===== *)
theory Prelude
  imports Complex_Main
begin

text \<open>
  The library every component shares.

  \<^item> \<open>http_error\<close>: the exceptions the services throw (\<open>src/src/utils/helpers/http-errors.ts\<close>
    and the NestJS exceptions they construct directly), the errors of the database driver and
    the plain \<open>Error\<close> of the value objects.  A fallible computation is a value of
    \<open>http_error + 'a\<close>; a service operation returns the new state next to such a value, so that
    the writes made before a throw stay visible.
  \<^item> rows and tables: a table is the list of its rows in the order of their serial ids.
  \<^item> \<open>partial_unique\<close>: the contract of the partial unique indexes of the schema (at most one
    active row for each key), stated once as a locale and interpreted for every table that has
    such an index.
  \<^item> paging: \<open>src/src/utils/helpers/pagination.ts\<close>.
\<close>

section \<open>Results\<close>

datatype http_error =
    Unprocessable string
  | Conflict string
  | ConflictPlain
  | Forbidden string
  | ForbiddenPlain
  | NotFound string int
  | NotFoundPlain
  | Unauthorized
  | TooManyRequests int
  | UniqueViolation
  | CheckViolation
  | NotNullViolation
  | NumericOverflow
  | ForeignKeyViolation
  | PlainError

definition unprocessable :: "string \<Rightarrow> http_error" where
  "unprocessable field = Unprocessable field"

definition conflict :: "string \<Rightarrow> http_error" where
  "conflict field = Conflict field"

definition forbidden :: "string \<Rightarrow> http_error" where
  "forbidden field = Forbidden field"

definition orNotFound :: "'a option \<Rightarrow> string \<Rightarrow> int \<Rightarrow> http_error + 'a" where
  "orNotFound v entity i = (case v of None \<Rightarrow> Inl (NotFound entity i) | Some x \<Rightarrow> Inr x)"

definition isUniqueViolation :: "http_error \<Rightarrow> bool" where
  "isUniqueViolation e \<longleftrightarrow> e = UniqueViolation"

definition bindR :: "'e + 'a \<Rightarrow> ('a \<Rightarrow> 'e + 'b) \<Rightarrow> 'e + 'b" where
  "bindR r f = (case r of Inl e \<Rightarrow> Inl e | Inr x \<Rightarrow> f x)"

text \<open>\<open>xs.map(f)\<close> for a mapper that may throw.\<close>

primrec mapR :: "('a \<Rightarrow> 'e + 'b) \<Rightarrow> 'a list \<Rightarrow> 'e + 'b list" where
  "mapR f [] = Inr []"
| "mapR f (x # xs) = bindR (f x) (\<lambda>y. bindR (mapR f xs) (\<lambda>ys. Inr (y # ys)))"

definition guardR :: "bool \<Rightarrow> 'e \<Rightarrow> 'e + unit" where
  "guardR ok e = (if ok then Inr () else Inl e)"

definition okR :: "'e + 'a \<Rightarrow> bool" where
  "okR r = (case r of Inl _ \<Rightarrow> False | Inr _ \<Rightarrow> True)"

named_theorems result_simps \<open>unfolding of results, guards and early returns\<close>
named_theorems table_simps \<open>queries and updates of tables\<close>

lemma bindR_simps [simp]:
  "bindR (Inl e) f = Inl e"
  "bindR (Inr x) f = f x"
  by (simp_all add: bindR_def)

lemma bindR_eq_Inr [result_simps]: "bindR r f = Inr y \<longleftrightarrow> (\<exists>x. r = Inr x \<and> f x = Inr y)"
  by (cases r) simp_all

lemma bindR_eq_Inl [result_simps]:
  "bindR r f = Inl e \<longleftrightarrow> r = Inl e \<or> (\<exists>x. r = Inr x \<and> f x = Inl e)"
  by (cases r) simp_all

lemma mapR_Inr: "mapR g xs = Inr ys \<Longrightarrow> list_all2 (\<lambda>x y. g x = Inr y) xs ys"
  by (induction xs arbitrary: ys) (auto simp: bindR_eq_Inr)

lemma mapR_Inr_map:
  assumes "mapR g xs = Inr ys"
  obtains f where "ys = map f xs" "\<forall>x \<in> set xs. g x = Inr (f x)"
proof
  show "ys = map (\<lambda>x. projr (g x)) xs"
    using assms by (induction xs arbitrary: ys) (auto simp: bindR_eq_Inr)
  show "\<forall>x \<in> set xs. g x = Inr (projr (g x))"
    using assms by (induction xs arbitrary: ys) (auto simp: bindR_eq_Inr)
qed

lemma guardR_eq_Inr [simp]: "guardR ok e = Inr u \<longleftrightarrow> ok"
  by (simp add: guardR_def)

lemma guardR_eq_Inl [simp]: "guardR ok e = Inl e' \<longleftrightarrow> \<not> ok \<and> e' = e"
  by (auto simp: guardR_def)

lemma okR_simps [simp]: "\<not> okR (Inl e)" "okR (Inr x)"
  by (simp_all add: okR_def)

lemma mapR_ok: "okR (mapR g xs) \<longleftrightarrow> (\<forall>x \<in> set xs. okR (g x))"
  by (induction xs) (auto simp: bindR_def okR_def split: sum.splits)

lemma orNotFound_simps [simp]:
  "orNotFound None ent i = Inl (NotFound ent i)" "orNotFound (Some x) ent i = Inr x"
  by (simp_all add: orNotFound_def)

lemma guardR_simps [simp]: "guardR True e = Inr ()" "guardR False e = Inl e"
  by (simp_all add: guardR_def)

lemma orNotFound_eq_Inr [simp]: "orNotFound v ent i = Inr x \<longleftrightarrow> v = Some x"
  by (cases v) (auto simp: orNotFound_def)

lemma orNotFound_eq_Inl [simp]:
  "orNotFound v ent i = Inl e \<longleftrightarrow> v = None \<and> e = NotFound ent i"
  by (cases v) (auto simp: orNotFound_def)

text \<open>A field of a PATCH body: absent, JSON \<open>null\<close>, or a value.\<close>

datatype 'a tri = Undefined | Null | Val 'a

definition tri_apply :: "'a tri \<Rightarrow> 'a option \<Rightarrow> 'a option" where
  "tri_apply t old = (case t of Undefined \<Rightarrow> old | Null \<Rightarrow> None | Val a \<Rightarrow> Some a)"

definition opt_apply :: "'a option \<Rightarrow> 'a \<Rightarrow> 'a" where
  "opt_apply t old = (case t of None \<Rightarrow> old | Some a \<Rightarrow> a)"

lemma tri_apply_simps [simp]:
  "tri_apply Undefined old = old" "tri_apply Null old = None" "tri_apply (Val a) old = Some a"
  by (simp_all add: tri_apply_def)

lemma opt_apply_simps [simp]: "opt_apply None old = old" "opt_apply (Some a) old = a"
  by (simp_all add: opt_apply_def)

section \<open>JavaScript strings and numbers\<close>

definition is_space :: "char \<Rightarrow> bool" where
  "is_space c \<longleftrightarrow> of_char c \<in> {9, 10, 11, 12, 13, 32, 160 :: nat}"

definition trim :: "string \<Rightarrow> string" where
  "trim s = rev (dropWhile is_space (rev (dropWhile is_space s)))"

definition lower_char :: "char \<Rightarrow> char" where
  "lower_char c = (if 65 \<le> (of_char c :: nat) \<and> (of_char c :: nat) \<le> 90 then char_of ((of_char c :: nat) + 32) else c)"

definition upper_char :: "char \<Rightarrow> char" where
  "upper_char c = (if 97 \<le> (of_char c :: nat) \<and> (of_char c :: nat) \<le> 122 then char_of ((of_char c :: nat) - 32) else c)"

definition toLowerCase :: "string \<Rightarrow> string" where
  "toLowerCase s = map lower_char s"

definition math_round :: "rat \<Rightarrow> int" where
  "math_round x = \<lfloor>x + 1 / 2\<rfloor>"

section \<open>Tables\<close>

definition update_where :: "('r \<Rightarrow> bool) \<Rightarrow> ('r \<Rightarrow> 'r) \<Rightarrow> 'r list \<Rightarrow> 'r list" where
  "update_where p f rows = map (\<lambda>r. if p r then f r else r) rows"

definition serial_ok :: "('r \<Rightarrow> int) \<Rightarrow> int \<Rightarrow> 'r list \<Rightarrow> bool" where
  "serial_ok ident nxt rows \<longleftrightarrow> distinct (map ident rows) \<and> list_all (\<lambda>r. ident r < nxt) rows"

definition unique_active :: "('r \<Rightarrow> bool) \<Rightarrow> ('r \<Rightarrow> 'k) \<Rightarrow> 'r list \<Rightarrow> bool" where
  "unique_active act key rows \<longleftrightarrow> distinct (map key (filter act rows))"

lemma update_where_simps [simp]:
  "update_where p f [] = []"
  "update_where p f (r # rows) = (if p r then f r else r) # update_where p f rows"
  "length (update_where p f rows) = length rows"
  by (simp_all add: update_where_def)

lemma update_where_append [simp]:
  "update_where p f (xs @ ys) = update_where p f xs @ update_where p f ys"
  by (simp add: update_where_def)

lemma in_set_update_where [table_simps]:
  "r \<in> set (update_where p f rows) \<longleftrightarrow> (\<exists>s \<in> set rows. r = (if p s then f s else s))"
  by (auto simp: update_where_def)

lemma update_where_mem: "r \<in> set rows \<Longrightarrow> (if p r then f r else r) \<in> set (update_where p f rows)"
  by (auto simp: update_where_def)

lemma map_ident_update_where [simp]:
  assumes "\<And>r. ident (f r) = ident r"
  shows "map ident (update_where p f rows) = map ident rows"
  using assms by (induction rows) simp_all

lemma find_Some_iff_mem: "find p xs = Some r \<Longrightarrow> r \<in> set xs \<and> p r"
  by (induction xs) (auto split: if_splits)

lemma find_None_conv: "find p xs = None \<longleftrightarrow> (\<forall>x \<in> set xs. \<not> p x)"
  by (induction xs) auto

lemma find_append_None: "find p xs = None \<Longrightarrow> find p (xs @ ys) = find p ys"
  by (induction xs) (auto split: if_splits)

lemma sort_key_Nil: "sort_key f xs = [] \<longleftrightarrow> xs = []"
proof -
  have "length (sort_key f xs) = length xs" by simp
  then show ?thesis by (metis length_0_conv)
qed

lemma find_Some_ex: "x \<in> set xs \<Longrightarrow> p x \<Longrightarrow> \<exists>y. find p xs = Some y"
  by (induction xs) auto

lemma find_unique:
  assumes "x \<in> set xs" "p x" "\<And>y. y \<in> set xs \<Longrightarrow> p y \<Longrightarrow> y = x"
  shows "find p xs = Some x"
proof -
  obtain y where y: "find p xs = Some y"
    using find_Some_ex[of x xs p] assms(1,2) by blast
  then have "y \<in> set xs" "p y"
    using find_Some_iff_mem by fastforce+
  then show ?thesis
    using y assms(3) by blast
qed

lemma serial_ok_Nil [simp]: "serial_ok ident n []"
  by (simp add: serial_ok_def)

lemma serial_ok_snoc:
  assumes "serial_ok ident n rows" "ident r = n"
  shows "serial_ok ident (n + 1) (rows @ [r])"
proof -
  have "\<forall>s \<in> set rows. ident s < n"
    using assms(1) by (simp add: serial_ok_def list_all_iff)
  then have "n \<notin> ident ` set rows" by auto
  then show ?thesis
    using assms \<open>\<forall>s \<in> set rows. ident s < n\<close>
    by (auto simp: serial_ok_def list_all_iff intro: less_imp_le)
qed

lemma serial_ok_update_where:
  assumes "serial_ok ident n rows" "\<And>r. ident (f r) = ident r"
  shows "serial_ok ident n (update_where p f rows)"
proof -
  have "list_all (\<lambda>r. ident r < n) (update_where p f rows)"
    using assms by (auto simp: serial_ok_def list_all_iff table_simps)
  then show ?thesis
    using assms by (simp add: serial_ok_def)
qed

lemma serial_ok_map:
  assumes "map ident rows' = map ident rows"
  shows "serial_ok ident n rows' \<longleftrightarrow> serial_ok ident n rows"
proof -
  have "serial_ok ident n xs \<longleftrightarrow> distinct (map ident xs) \<and> list_all (\<lambda>i. i < n) (map ident xs)" for xs
    by (simp add: serial_ok_def list.pred_map comp_def)
  then show ?thesis using assms by simp
qed

lemma serial_ok_inj:
  assumes "serial_ok ident n rows" "r \<in> set rows" "s \<in> set rows" "ident r = ident s"
  shows "r = s"
  using assms unfolding serial_ok_def by (meson distinct_map inj_onD)

lemma serial_ok_find:
  assumes "serial_ok ident n rows" "r \<in> set rows"
  shows "find (\<lambda>s. ident s = ident r) rows = Some r"
  using assms by (intro find_unique) (auto dest: serial_ok_inj)

lemma serial_ok_find_fresh:
  assumes "serial_ok ident n rows"
  shows "find (\<lambda>s. ident s = n) (rows @ [r]) = (if ident r = n then Some r else None)"
  using assms by (induction rows) (auto simp: serial_ok_def)

lemma unique_active_Nil [simp]: "unique_active act key []"
  by (simp add: unique_active_def)

lemma unique_active_snoc:
  "unique_active act key (rows @ [r]) \<longleftrightarrow>
     unique_active act key rows \<and> (act r \<longrightarrow> key r \<notin> key ` set (filter act rows))"
  by (auto simp: unique_active_def)

lemma unique_active_inj:
  assumes "unique_active act key rows" "r \<in> set rows" "s \<in> set rows"
    and "act r" "act s" "key r = key s"
  shows "r = s"
proof -
  have "inj_on key (set (filter act rows))"
    using assms(1) unfolding unique_active_def distinct_map by blast
  then show ?thesis
    using assms(2-) by (auto dest: inj_onD)
qed

lemma unique_active_update:
  assumes "unique_active act key rows"
    and "\<And>r. r \<in> set rows \<Longrightarrow> p r \<Longrightarrow> act (f r) \<Longrightarrow> act r \<and> key (f r) = key r"
  shows "unique_active act key (update_where p f rows)"
  using assms
proof (induction rows)
  case (Cons r rows)
  let ?r = "if p r then f r else r"
  have rest: "unique_active act key (update_where p f rows)"
    using Cons.IH Cons.prems by (simp add: unique_active_def split: if_splits)
  have sub: "key ` set (filter act (update_where p f rows)) \<subseteq> key ` set (filter act rows)"
    using Cons.prems(2) by (fastforce simp: table_simps split: if_splits)
  have "key ?r \<notin> key ` set (filter act (update_where p f rows))" if "act ?r"
  proof -
    have "act r" "key ?r = key r"
      using that Cons.prems(2)[of r] by (auto split: if_splits)
    moreover have "key r \<notin> key ` set (filter act rows)"
      using Cons.prems(1) \<open>act r\<close> by (auto simp: unique_active_def)
    ultimately show ?thesis
      using sub by auto
  qed
  then show ?case
    using rest by (auto simp: unique_active_def)
qed simp

lemma serial_ok_replace:
  assumes "serial_ok ident n rows" "ident s = i"
  shows "serial_ok ident n (update_where (\<lambda>q. ident q = i) (\<lambda>_. s) rows)"
proof -
  have "map ident (update_where (\<lambda>q. ident q = i) (\<lambda>_. s) rows) = map ident rows"
    using assms(2) by (induction rows) simp_all
  moreover have "list_all (\<lambda>r. ident r < n) (update_where (\<lambda>q. ident q = i) (\<lambda>_. s) rows)"
    using assms by (fastforce simp: serial_ok_def list_all_iff table_simps split: if_splits)
  ultimately show ?thesis
    using assms(1) by (simp add: serial_ok_def)
qed

lemma unique_active_replace:
  assumes "unique_active act key rows" "distinct (map ident rows)"
    and "act s \<Longrightarrow> \<forall>q \<in> set rows. ident q \<noteq> i \<longrightarrow> act q \<longrightarrow> key q \<noteq> key s"
  shows "unique_active act key (update_where (\<lambda>q. ident q = i) (\<lambda>_. s) rows)"
  using assms
proof (induction rows)
  case (Cons r rows)
  let ?rest = "update_where (\<lambda>q. ident q = i) (\<lambda>_. s) rows"
  have rest: "unique_active act key ?rest"
    using Cons.IH Cons.prems by (simp add: unique_active_def split: if_splits)
  show ?case
  proof (cases "ident r = i")
    case True
    then have none: "\<forall>q \<in> set rows. ident q \<noteq> i"
      using Cons.prems(2) by (metis distinct.simps(2) image_eqI list.set_map list.simps(9))
    then have "?rest = rows"
      by (simp add: update_where_def map_idI)
    then show ?thesis
      using True rest none Cons.prems(3) by (auto simp: unique_active_def)
  next
    case False
    have "key r \<notin> key ` set (filter act ?rest)" if "act r"
    proof
      assume "key r \<in> key ` set (filter act ?rest)"
      then obtain q where "q \<in> set ?rest" "act q" "key q = key r" by auto
      moreover then obtain t where "t \<in> set rows" "q = (if ident t = i then s else t)"
        by (auto simp: table_simps)
      ultimately show False
      proof (cases "ident t = i")
        case True
        then show False
          using \<open>act q\<close> \<open>key q = key r\<close> \<open>q = _\<close> that False Cons.prems(3) by auto
      next
        case other: False
        have "key t \<in> key ` set (filter act rows)"
          using \<open>act q\<close> \<open>q = _\<close> \<open>t \<in> set rows\<close> other by simp
        moreover have "key r \<notin> key ` set (filter act rows)"
          using that Cons.prems(1) by (simp add: unique_active_def)
        ultimately show False
          using \<open>key q = key r\<close> \<open>q = _\<close> other by simp
      qed
    qed
    then show ?thesis
      using False rest by (auto simp: unique_active_def)
  qed
qed simp

section \<open>Partial unique indexes\<close>

text \<open>
  A table with a partial unique index: \<open>act\<close> is the WHERE clause of the index, \<open>key\<close> its
  columns, \<open>retire\<close> the update by which the services take a row out of the index.
\<close>

locale partial_unique =
  fixes ident :: "'r \<Rightarrow> int"
    and act :: "'r \<Rightarrow> bool"
    and key :: "'r \<Rightarrow> 'k"
    and retire :: "'a \<Rightarrow> 'r \<Rightarrow> 'r"
  assumes retire_inactive: "\<not> act (retire a r)"
    and retire_ident: "ident (retire a r) = ident r"
begin

lemma retire_preserves:
  "unique_active act key rows \<Longrightarrow> unique_active act key (update_where p (retire a) rows)"
  by (rule unique_active_update) (simp_all add: retire_inactive)

lemma retire_serial:
  "serial_ok ident n rows \<Longrightarrow> serial_ok ident n (update_where p (retire a) rows)"
  by (rule serial_ok_update_where) (simp_all add: retire_ident)

lemma active_after_retire:
  "filter act (update_where p (retire a) rows) = filter (\<lambda>r. act r \<and> \<not> p r) rows"
  by (induction rows) (simp_all add: retire_inactive)

lemma retired_key_free:
  assumes "\<And>r. r \<in> set rows \<Longrightarrow> act r \<Longrightarrow> key r = k \<Longrightarrow> p r"
  shows "k \<notin> key ` set (filter act (update_where p (retire a) rows))"
  unfolding active_after_retire using assms by auto

lemma supersede:
  assumes "unique_active act key rows"
    and "\<And>s. s \<in> set rows \<Longrightarrow> act s \<Longrightarrow> key s = key r \<Longrightarrow> p s"
  shows "unique_active act key (update_where p (retire a) rows @ [r])"
proof -
  have "key r \<notin> key ` set (filter act (update_where p (retire a) rows))"
    by (rule retired_key_free) (rule assms(2))
  then show ?thesis
    unfolding unique_active_snoc using retire_preserves[OF assms(1)] by blast
qed

lemma lookup_active:
  assumes "unique_active act key rows" "r \<in> set rows" "act r"
  shows "find (\<lambda>s. act s \<and> key s = key r) rows = Some r"
proof (rule find_unique)
  show "r \<in> set rows" "act r \<and> key r = key r"
    using assms(2,3) by simp_all
  show "s = r" if "s \<in> set rows" "act s \<and> key s = key r" for s
    using unique_active_inj[OF assms(1), of s r] assms(2,3) that by blast
qed

lemma lookup_after_retire:
  assumes "\<And>r. r \<in> set rows \<Longrightarrow> act r \<Longrightarrow> key r = k \<Longrightarrow> p r"
  shows "find (\<lambda>s. act s \<and> key s = k) (update_where p (retire a) rows) = None"
proof -
  have "k \<notin> key ` set (filter act (update_where p (retire a) rows))"
    by (rule retired_key_free) (rule assms)
  then show ?thesis unfolding find_None_conv by auto
qed

end

section \<open>Paging\<close>

record paging =
  pg_page :: int
  pg_limit :: int
  pg_skip :: int

record 'a page_of =
  pg_data :: "'a list"
  pg_total :: int
  pg_no :: int
  pg_size :: int
  pg_has_more :: bool

definition default_page :: int where "default_page = 1"
definition default_limit :: int where "default_limit = 20"
definition max_limit :: int where "max_limit = 100"

definition resolvePaging :: "int option \<Rightarrow> int option \<Rightarrow> paging" where
  "resolvePaging page_q limit_q =
     (let p = (case page_q of None \<Rightarrow> default_page | Some x \<Rightarrow> x);
          l = min (case limit_q of None \<Rightarrow> default_limit | Some x \<Rightarrow> x) max_limit
      in \<lparr>pg_page = p, pg_limit = l, pg_skip = (p - 1) * l\<rparr>)"

definition paginate :: "'a list \<Rightarrow> int \<Rightarrow> paging \<Rightarrow> 'a page_of" where
  "paginate xs n pg =
     \<lparr>pg_data = xs, pg_total = n, pg_no = pg_page pg, pg_size = pg_limit pg,
      pg_has_more = pg_page pg * pg_limit pg < n\<rparr>"

definition slice :: "'a list \<Rightarrow> int \<Rightarrow> int \<Rightarrow> 'a list" where
  "slice xs from til = take (nat til - nat from) (drop (nat from) xs)"

definition find_page :: "'a list \<Rightarrow> int option \<Rightarrow> int option \<Rightarrow> 'a page_of" where
  "find_page rows page_q limit_q =
     (let p = resolvePaging page_q limit_q
      in paginate (slice rows (pg_skip p) (pg_skip p + pg_limit p)) (int (length rows)) p)"

lemma resolvePaging_limit_le: "pg_limit (resolvePaging p l) \<le> 100"
  by (simp add: resolvePaging_def Let_def max_limit_def)

lemma has_more_iff_rest:
  assumes "1 \<le> p" "1 \<le> l"
  shows "p * l < int (length xs) \<longleftrightarrow> drop (nat (p * l)) xs \<noteq> []"
proof -
  have "0 \<le> p * l" using assms by simp
  then show ?thesis by (simp add: not_le nat_less_iff)
qed

lemma slice_set: "set (slice xs a b) \<subseteq> set xs"
  unfolding slice_def by (meson in_set_dropD in_set_takeD subsetI)

end
