(* ===== verification/Access.thy ===== *)
theory Access
  imports Prelude
begin

text \<open>
  Users, roles, permissions and the authorization gate
  (\<open>src/src/users/domain/user.ts\<close>, \<open>src/src/roles/domain/role.ts\<close>,
  \<open>src/src/permissions/domain/permission.ts\<close>, \<open>src/src/permissions/permissions.guard.ts\<close>,
  \<open>src/src/users/domain/user-permissions.ts\<close>).  Audit columns that no rule reads are left out of
  the domain records.
\<close>

section \<open>Domain records\<close>

record permission =
  perm_id :: int
  perm_code :: string
  perm_resource :: string
  perm_action :: string

record role =
  role_id :: int
  role_name :: string
  role_permissions :: "permission list"

record user =
  usr_id :: int
  usr_email :: string
  usr_first_name :: string
  usr_last_name :: string
  usr_role :: role
  usr_system_admin :: bool
  usr_is_active :: bool

text \<open>
  The user table as the other modules see it: the port \<open>BaseUserRepository.findById\<close> (users that
  are not soft-deleted) and the rows a foreign key to \<open>users\<close> may name (soft-deleted ones
  included).
\<close>

record user_port =
  find_user :: "int \<Rightarrow> user option"
  user_row :: "int \<Rightarrow> bool"

definition users_ok :: "user_port \<Rightarrow> bool" where
  "users_ok up \<longleftrightarrow> (\<forall>i. find_user up i \<noteq> None \<longrightarrow> user_row up i)"

section \<open>The guard\<close>

text \<open>The argument of \<open>@Permissions({ RESOURCE: 'Action' })\<close>; a single action is a list of
  one.\<close>

type_synonym required_permissions = "(string \<times> string list) list"

definition code_of :: "string \<Rightarrow> string \<Rightarrow> string" where
  "code_of resource action = resource @ '':'' @ action"

definition expand :: "required_permissions \<Rightarrow> string list" where
  "expand required = concat (map (\<lambda>(resource, actions). map (code_of resource) actions) required)"

definition permission_codes :: "user \<Rightarrow> string list" where
  "permission_codes u = map perm_code (role_permissions (usr_role u))"

definition canActivate :: "required_permissions option \<Rightarrow> user option \<Rightarrow> bool" where
  "canActivate required usr =
     (case required of
        None \<Rightarrow> True
      | Some req \<Rightarrow>
          (case usr of
             None \<Rightarrow> False
           | Some u \<Rightarrow>
               usr_system_admin u \<or> list_all (\<lambda>c. c \<in> set (permission_codes u)) (expand req)))"

definition hasPermission :: "user \<Rightarrow> string \<Rightarrow> bool" where
  "hasPermission u code \<longleftrightarrow> code \<in> set (permission_codes u)"

lemma expand_set: "set (expand req) = {code_of r a |r as a. (r, as) \<in> set req \<and> a \<in> set as}"
  by (force simp: expand_def)

lemma canActivate_denied_iff:
  "\<not> canActivate required usr \<longleftrightarrow>
     (\<exists>req. required = Some req \<and>
        (usr = None \<or>
         (\<exists>u c. usr = Some u \<and> \<not> usr_system_admin u \<and> c \<in> set (expand req) \<and>
            c \<notin> set (permission_codes u))))"
  by (auto simp: canActivate_def list_all_iff split: option.splits)

lemma canActivate_mono:
  assumes "canActivate (Some req) (Some u)"
    and "set (permission_codes u) \<subseteq> set (permission_codes v)"
    and "usr_system_admin u \<Longrightarrow> usr_system_admin v"
  shows "canActivate (Some req) (Some v)"
  using assms by (auto simp: canActivate_def list_all_iff)

section \<open>A sample directory\<close>

text \<open>Users 1 to 9, all active except 8, with a role without permissions: the concrete directory at
  which the witnesses of the other theories are evaluated.\<close>

definition sample_role :: role where
  "sample_role = \<lparr>role_id = 1, role_name = ''EMPLOYEE'', role_permissions = []\<rparr>"

definition sample_user :: "int \<Rightarrow> user" where
  "sample_user i = \<lparr>usr_id = i, usr_email = ''u@asima.inc'', usr_first_name = ''U'',
     usr_last_name = ''V'', usr_role = sample_role, usr_system_admin = False, usr_is_active = (i \<noteq> 8)\<rparr>"

definition sample_users :: user_port where
  "sample_users = \<lparr>find_user = (\<lambda>i. if 1 \<le> i \<and> i \<le> 9 then Some (sample_user i) else None),
     user_row = (\<lambda>i. 1 \<le> i \<and> i \<le> 9)\<rparr>"

lemma sample_users_ok: "users_ok sample_users"
  by (simp add: users_ok_def sample_users_def)

end
