(* ===== verification/TwoStep.thy ===== *)
theory TwoStep
  imports Access
begin

text \<open>
  The two-step approval life cycle.  Leave requests and time-correction requests run the same state
  machine on separate aggregates; this theory holds what they share: the statuses, the decision
  paths, the distilled actor, and the locale \<open>two_step_approval\<close>, whose assumptions are the
  laws of an aggregate's transitions and whose lemmas are proved once and used through the
  interpretations in the theories of the two aggregates.
\<close>

section \<open>Statuses and actors\<close>

datatype request_status = Pending_l1 | Pending_l2 | Approved | Rejected | Cancelled

datatype decision_path = Chain | Override

record actor =
  act_user_id :: int
  act_system_admin :: bool
  act_can_approve :: bool
  act_can_approve_any :: bool
  act_can_delete :: bool

definition status_pending :: "request_status \<Rightarrow> bool" where
  "status_pending s \<longleftrightarrow> s = Pending_l1 \<or> s = Pending_l2"

definition status_active :: "request_status \<Rightarrow> bool" where
  "status_active s \<longleftrightarrow> status_pending s \<or> s = Approved"

definition status_rank :: "request_status \<Rightarrow> nat" where
  "status_rank s = (case s of Pending_l1 \<Rightarrow> 3 | Pending_l2 \<Rightarrow> 2 | Approved \<Rightarrow> 1 | _ \<Rightarrow> 0)"

text \<open>The holder of a bypass: system administrator or \<open>ApproveAny\<close>.\<close>

definition overrides :: "actor \<Rightarrow> bool" where
  "overrides a \<longleftrightarrow> act_system_admin a \<or> act_can_approve_any a"

section \<open>The abstract machine\<close>

text \<open>Who may decide a request at a step, and where an approval takes it.\<close>

definition may_decide :: "actor \<Rightarrow> request_status \<Rightarrow> int \<Rightarrow> int option \<Rightarrow> bool" where
  "may_decide a s l1 l2 \<longleftrightarrow>
     overrides a \<or>
     act_can_approve a \<and> (s = Pending_l1 \<and> act_user_id a = l1 \<or> s = Pending_l2 \<and> Some (act_user_id a) = l2)"

definition approved_status :: "bool \<Rightarrow> request_status \<Rightarrow> int option \<Rightarrow> request_status" where
  "approved_status override s l2 =
     (if \<not> override \<and> s = Pending_l1 \<and> l2 \<noteq> None then Pending_l2 else Approved)"

locale two_step_approval =
  fixes st :: "'r \<Rightarrow> request_status"
    and l1 :: "'r \<Rightarrow> int"
    and l2 :: "'r \<Rightarrow> int option"
    and approve :: "actor \<Rightarrow> 'r \<Rightarrow> 'r option"
    and reject :: "actor \<Rightarrow> string \<Rightarrow> 'r \<Rightarrow> 'r option"
    and cancel :: "'d \<Rightarrow> actor \<Rightarrow> 'r \<Rightarrow> 'r option"
  assumes approve_law: "approve a r = Some r' \<Longrightarrow>
      status_pending (st r) \<and> may_decide a (st r) (l1 r) (l2 r) \<and>
      st r' = approved_status (overrides a) (st r) (l2 r) \<and> l1 r' = l1 r \<and> l2 r' = l2 r"
    and reject_law: "reject a why r = Some r' \<Longrightarrow>
      status_pending (st r) \<and> may_decide a (st r) (l1 r) (l2 r) \<and>
      st r' = Rejected \<and> l1 r' = l1 r \<and> l2 r' = l2 r"
    and cancel_law: "cancel d a r = Some r' \<Longrightarrow>
      status_active (st r) \<and> st r' = Cancelled \<and> l1 r' = l1 r \<and> l2 r' = l2 r"
begin

lemma approve_rank: "approve a r = Some r' \<Longrightarrow> status_rank (st r') < status_rank (st r)"
  using approve_law[of a r r']
  by (auto simp: status_pending_def approved_status_def status_rank_def split: if_splits)

lemma reject_rank: "reject a why r = Some r' \<Longrightarrow> status_rank (st r') < status_rank (st r)"
  using reject_law[of a why r r'] by (auto simp: status_pending_def status_rank_def)

lemma cancel_rank: "cancel d a r = Some r' \<Longrightarrow> status_rank (st r') < status_rank (st r)"
  using cancel_law[of d a r r'] by (auto simp: status_active_def status_pending_def status_rank_def)

lemma terminal_stuck:
  assumes "st r = Rejected \<or> st r = Cancelled"
  shows "approve a r = None" "reject a why r = None" "cancel d a r = None"
proof -
  show "approve a r = None"
    using assms approve_law[of a r] by (cases "approve a r") (auto simp: status_pending_def)
  show "reject a why r = None"
    using assms reject_law[of a why r] by (cases "reject a why r") (auto simp: status_pending_def)
  show "cancel d a r = None"
    using assms cancel_law[of d a r] by (cases "cancel d a r") (auto simp: status_active_def status_pending_def)
qed

text \<open>Along the chain a request with two levels is approved only by the first approver and then the
  second.\<close>

lemma chain_first_step:
  assumes "approve a r = Some r'" "\<not> overrides a" "st r = Pending_l1" "l2 r = Some b"
  shows "act_user_id a = l1 r \<and> st r' = Pending_l2"
  using approve_law[OF assms(1)] assms(2-) by (auto simp: may_decide_def approved_status_def)

lemma chain_second_step:
  assumes "approve a r = Some r'" "\<not> overrides a" "st r = Pending_l2" "l2 r = Some b"
  shows "act_user_id a = b \<and> st r' = Approved"
  using approve_law[OF assms(1)] assms(2-) by (auto simp: may_decide_def approved_status_def)

lemma two_levels_two_approvals:
  assumes "st r = Pending_l1" "l2 r = Some b"
    and "approve a1 r = Some r1" "\<not> overrides a1"
  shows "st r1 = Pending_l2 \<and> act_user_id a1 = l1 r \<and>
    (\<forall>a2 r2. approve a2 r1 = Some r2 \<and> \<not> overrides a2 \<longrightarrow> act_user_id a2 = b \<and> st r2 = Approved)"
proof -
  have "st r1 = Pending_l2" "act_user_id a1 = l1 r" "l2 r1 = Some b"
    using chain_first_step[OF assms(3,4,1,2)] approve_law[OF assms(3)] assms(2) by simp_all
  then show ?thesis using chain_second_step by blast
qed

end

end
