(* ===== verification/Dates.thy ===== *)
theory Dates
  imports Prelude
begin

text \<open>
  Calendar dates and clock times (\<open>src/src/utils/helpers/dates.ts\<close>,
  \<open>src/src/utils/helpers/time-of-day.ts\<close>, \<open>src/src/utils/domain/value-objects/date-range.ts\<close>).

  A \<open>YYYY-MM-DD\<close> string is the datatype \<open>date\<close>, ordered lexicographically: on zero-padded
  strings that is the order of the strings.  A JavaScript \<open>Date\<close> at UTC midnight is its number
  of days since 1970-01-01: \<open>utc_day\<close> is \<open>new Date(`${s}T00:00:00Z`)\<close> and \<open>iso_date\<close> is
  \<open>toISOString().slice(0, 10)\<close>, both by the proleptic Gregorian calendar of ECMAScript.  The
  two are proved inverse on valid dates and order preserving, so the loops of the source, which
  compare \<open>Date\<close> values, and its checks, which compare strings, agree.

  An \<open>HH:MM[:SS]\<close> string is the datatype \<open>clock\<close>, ordered as the strings are: a string without
  seconds is a proper prefix, hence smaller.
\<close>

section \<open>Dates\<close>

datatype date = Date (yr: int) (mo: int) (dy: int)

instantiation date :: linorder
begin

definition less_eq_date :: "date \<Rightarrow> date \<Rightarrow> bool" where
  "less_eq_date a b \<longleftrightarrow>
     yr a < yr b \<or> yr a = yr b \<and> (mo a < mo b \<or> mo a = mo b \<and> dy a \<le> dy b)"

definition less_date :: "date \<Rightarrow> date \<Rightarrow> bool" where
  "less_date a b \<longleftrightarrow>
     yr a < yr b \<or> yr a = yr b \<and> (mo a < mo b \<or> mo a = mo b \<and> dy a < dy b)"

instance
  by standard (auto simp: less_eq_date_def less_date_def date.expand)

end

definition leap :: "int \<Rightarrow> bool" where
  "leap y \<longleftrightarrow> y mod 4 = 0 \<and> (y mod 100 \<noteq> 0 \<or> y mod 400 = 0)"

definition before_month :: "bool \<Rightarrow> int \<Rightarrow> int" where
  "before_month lp m =
     (if m \<le> 1 then 0 else if m = 2 then 31
      else (if lp then 1 else 0) +
        (if m = 3 then 59 else if m = 4 then 90 else if m = 5 then 120 else if m = 6 then 151
         else if m = 7 then 181 else if m = 8 then 212 else if m = 9 then 243
         else if m = 10 then 273 else if m = 11 then 304 else if m = 12 then 334 else 365))"

definition days_in_month :: "int \<Rightarrow> int \<Rightarrow> int" where
  "days_in_month y m = before_month (leap y) (m + 1) - before_month (leap y) m"

definition valid_date :: "date \<Rightarrow> bool" where
  "valid_date d \<longleftrightarrow> 1 \<le> mo d \<and> mo d \<le> 12 \<and> 1 \<le> dy d \<and> dy d \<le> days_in_month (yr d) (mo d)"

definition before_year :: "int \<Rightarrow> int" where
  "before_year y = 365 * (y - 1) + (y - 1) div 4 - (y - 1) div 100 + (y - 1) div 400"

definition epoch_offset :: int where
  "epoch_offset = 719162"

definition utc_day :: "date \<Rightarrow> int" where
  "utc_day d = before_year (yr d) + before_month (leap (yr d)) (mo d) + (dy d - 1) - epoch_offset"

definition year_of :: "int \<Rightarrow> int" where
  "year_of n = (let e = 400 * n div 146097 in if before_year (e + 2) \<le> n then e + 2 else e + 1)"

definition month_of :: "bool \<Rightarrow> int \<Rightarrow> int" where
  "month_of lp k =
     (if k < before_month lp 2 then 1 else if k < before_month lp 3 then 2
      else if k < before_month lp 4 then 3 else if k < before_month lp 5 then 4
      else if k < before_month lp 6 then 5 else if k < before_month lp 7 then 6
      else if k < before_month lp 8 then 7 else if k < before_month lp 9 then 8
      else if k < before_month lp 10 then 9 else if k < before_month lp 11 then 10
      else if k < before_month lp 12 then 11 else 12)"

definition iso_date :: "int \<Rightarrow> date" where
  "iso_date n =
     (let y = year_of (n + epoch_offset);
          k = n + epoch_offset - before_year y;
          m = month_of (leap y) k
      in Date y m (k - before_month (leap y) m + 1))"

text \<open>\<open>weekdayOf\<close>: 1970-01-01 was a Thursday (4).\<close>

definition weekdayOf :: "date \<Rightarrow> int" where
  "weekdayOf d = (utc_day d + 4) mod 7"

definition dayBefore :: "date \<Rightarrow> date" where
  "dayBefore d = iso_date (utc_day d - 1)"

function dates_loop :: "int \<Rightarrow> int \<Rightarrow> date list" where
  "dates_loop cur til = (if cur \<le> til then iso_date cur # dates_loop (cur + 1) til else [])"
  by pat_completeness auto
termination
  by (relation "measure (\<lambda>(cur, til). nat (til + 1 - cur))") auto

declare dates_loop.simps [simp del]

definition datesInRange :: "date \<Rightarrow> date \<Rightarrow> date list" where
  "datesInRange s e = dates_loop (utc_day s) (utc_day e)"

definition ms_per_day :: int where
  "ms_per_day = 86400000"

definition utcDateString :: "int \<Rightarrow> date" where
  "utcDateString ms = iso_date (ms div ms_per_day)"

text \<open>\<open>businessDateString\<close>: the time zone is an offset in milliseconds (Asia/Manila has no
  daylight saving time: a constant eight hours); the offset is a parameter, as
  \<open>APP_TIMEZONE\<close> is.\<close>

definition businessDateString :: "int \<Rightarrow> int \<Rightarrow> date" where
  "businessDateString tz_offset ms = iso_date ((ms + tz_offset) div ms_per_day)"

subsection \<open>The calendar is a bijection\<close>

lemma div_pred_step:
  fixes y k :: int
  assumes "0 < k"
  shows "y div k = (y - 1) div k + (if y mod k = 0 then 1 else 0)"
proof -
  let ?q = "(y - 1) div k" and ?r = "(y - 1) mod k"
  have y: "y = k * ?q + (?r + 1)" and r: "0 \<le> ?r" "?r < k"
    using assms mult_div_mod_eq[of k "y - 1"] by simp_all
  show ?thesis
  proof (cases "?r + 1 = k")
    case True
    then have "y = k * (?q + 1) + 0" using y by (simp add: algebra_simps)
    then have "y div k = ?q + 1" "y mod k = 0"
      using assms int_div_pos_eq[of y k "?q + 1" 0] int_mod_pos_eq[of y k "?q + 1" 0] by simp_all
    then show ?thesis by simp
  next
    case False
    then have "y div k = ?q" "y mod k = ?r + 1"
      using r int_div_pos_eq[OF y] int_mod_pos_eq[OF y] by simp_all
    then show ?thesis using r by simp
  qed
qed

lemma mod_multiple_dvd:
  fixes y :: int
  assumes "y mod (a * b) = 0"
  shows "y mod a = 0"
  using assms by (simp add: mod_eq_0_iff_dvd) (metis dvd_mult_left)

lemma leap_count:
  fixes y a b c :: int
  assumes "p400 \<Longrightarrow> p100" "p100 \<Longrightarrow> p4"
  shows "365 * y + (a + (if p4 then 1 else 0)) - (b + (if p100 then 1 else 0))
      + (c + (if p400 then 1 else 0))
    = 365 * (y - 1) + a - b + c + (if p4 \<and> (\<not> p100 \<or> p400) then 366 else 365)"
proof (cases p100)
  case True
  then show ?thesis using assms(2) by (cases p400) simp_all
next
  case False
  then show ?thesis using assms(1) by (cases p4; cases p400) simp_all
qed

lemma before_year_step: "before_year (y + 1) = before_year y + (if leap y then 366 else 365)"
proof -
  have leap1: "y mod 400 = 0 \<Longrightarrow> y mod 100 = 0"
    by (rule mod_multiple_dvd[of y 100 4]) (simp only: arith_simps)
  have leap2: "y mod 100 = 0 \<Longrightarrow> y mod 4 = 0"
    by (rule mod_multiple_dvd[of y 4 25]) (simp only: arith_simps)
  have d4: "y div 4 = (y - 1) div 4 + (if y mod 4 = 0 then 1 else 0)"
    and d100: "y div 100 = (y - 1) div 100 + (if y mod 100 = 0 then 1 else 0)"
    and d400: "y div 400 = (y - 1) div 400 + (if y mod 400 = 0 then 1 else 0)"
    by (rule div_pred_step, rule zero_less_numeral)+
  note count = leap_count[OF leap1 leap2, where y = y and a = "(y - 1) div 4"
      and b = "(y - 1) div 100" and c = "(y - 1) div 400"]
  have "before_year (y + 1) = 365 * y + y div 4 - y div 100 + y div 400"
    unfolding before_year_def by (simp only: add_diff_cancel_right')
  also have "\<dots> = before_year y + (if leap y then 366 else 365)"
    unfolding before_year_def leap_def d4 d100 d400 by (rule count)
  finally show ?thesis .
qed

lemma before_year_mono_step: "before_year y + 365 \<le> before_year (y + 1)"
  by (simp add: before_year_step)

lemma before_year_mono: "y \<le> z \<Longrightarrow> before_year y \<le> before_year z"
proof (induction z rule: int_ge_induct)
  case (step z)
  then show ?case using before_year_mono_step[of z] by simp
qed simp

lemma before_year_strict: "y < z \<Longrightarrow> before_year (y + 1) \<le> before_year z"
  by (rule before_year_mono) simp

lemma div_between:
  fixes e k :: int
  assumes "0 < k"
  shows "k * (e div k) \<le> e" "e \<le> k * (e div k) + (k - 1)"
proof -
  have "k * (e div k) + e mod k = e" by (rule mult_div_mod_eq)
  moreover have "0 \<le> e mod k" "e mod k < k"
    using assms by (rule pos_mod_sign, intro pos_mod_bound)
  ultimately show "k * (e div k) \<le> e" "e \<le> k * (e div k) + (k - 1)" by linarith+
qed

lemma gregorian_arith:
  fixes e n a b c :: int
  shows "146097 * e \<le> 400 * n \<Longrightarrow> 4 * a \<le> e \<Longrightarrow> e \<le> 100 * b + (100 - 1) \<Longrightarrow> 400 * c \<le> e
      \<Longrightarrow> 365 * e + a - b + c \<le> n"
    and "400 * n < 146097 * e \<Longrightarrow> e + 1 \<le> 4 * a + (4 - 1) \<Longrightarrow> 100 * b \<le> e + 1
      \<Longrightarrow> e + 1 \<le> 400 * c + (400 - 1) \<Longrightarrow> n < 365 * (e + 1) + a - b + c"
  by simp_all

lemma year_lower:
  assumes "146097 * e \<le> 400 * n"
  shows "before_year (e + 1) \<le> n"
  unfolding before_year_def add_diff_cancel_right'
  by (rule gregorian_arith(1)[OF assms]) (rule div_between, rule zero_less_numeral)+

lemma year_upper:
  assumes "400 * n < 146097 * e"
  shows "n < before_year (e + 2)"
proof -
  have "e + 2 - 1 = e + 1" by simp
  show ?thesis
    unfolding before_year_def \<open>e + 2 - 1 = e + 1\<close>
    by (rule gregorian_arith(2)[OF assms]) (rule div_between, rule zero_less_numeral)+
qed

lemma year_bounds:
  "before_year (year_of n) \<le> n" "n < before_year (year_of n + 1)"
proof -
  define e where "e = 400 * n div 146097"
  have lo: "146097 * e \<le> 400 * n" and up: "400 * n \<le> 146097 * e + (146097 - 1)"
    unfolding e_def by (rule div_between, rule zero_less_numeral)+
  then have "146097 * e \<le> 400 * n" "400 * n < 146097 * (e + 1)"
    by simp_all
  then have "before_year (e + 1) \<le> n" "n < before_year (e + 1 + 2)"
    using year_lower[of e n] year_upper[of n "e + 1"] by blast+
  moreover have "year_of n = (if before_year (e + 2) \<le> n then e + 2 else e + 1)"
    by (simp add: year_of_def e_def Let_def)
  moreover have "e + 1 + 2 = e + 2 + 1" "e + 1 + 1 = e + 2" by simp_all
  ultimately have "before_year (year_of n) \<le> n \<and> n < before_year (year_of n + 1)"
    by (cases "before_year (e + 2) \<le> n") (simp_all only: if_True if_False simp_thms not_le)
  then show "before_year (year_of n) \<le> n" "n < before_year (year_of n + 1)" by blast+
qed

lemma year_unique:
  assumes "before_year y \<le> n" "n < before_year (y + 1)"
  shows "year_of n = y"
proof (rule ccontr)
  assume "year_of n \<noteq> y"
  then consider "year_of n < y" | "y < year_of n" by linarith
  then show False
  proof cases
    case 1
    then show False
      using before_year_strict[OF 1] year_bounds(2)[of n] assms(1) by linarith
  next
    case 2
    then show False
      using before_year_strict[OF 2] year_bounds(1)[of n] assms(2) by linarith
  qed
qed

lemma before_month_13: "before_month lp 13 = (if lp then 366 else 365)"
  by (simp add: before_month_def)

lemma month_cases:
  assumes "1 \<le> (m::int)" "m \<le> 12"
  shows "m \<in> {1, 2, 3, 4, 5, 6, 7, 8, 9, 10, 11, 12}"
  using assms by (simp only: insert_iff empty_iff) presburger

lemma month_unique:
  assumes "1 \<le> m" "m \<le> 12" "before_month lp m \<le> k" "k < before_month lp (m + 1)"
  shows "month_of lp k = m"
  using month_cases[OF assms(1,2)] assms(3,4)
  by (cases lp; elim insertE) (simp_all add: month_of_def before_month_def)

lemma month_exists:
  assumes "0 \<le> k" "k < before_month lp 13"
  shows "\<exists>m. 1 \<le> m \<and> m \<le> 12 \<and> before_month lp m \<le> k \<and> k < before_month lp (m + 1)"
proof (rule ccontr)
  assume no: "\<not> ?thesis"
  have "m \<le> 13 \<longrightarrow> before_month lp m \<le> k" if "1 \<le> m" for m
    using that
  proof (induction m rule: int_ge_induct)
    case base
    then show ?case using assms(1) by (simp add: before_month_def)
  next
    case (step m)
    then show ?case using no by force
  qed
  from this[of 13] assms(2) show False by simp
qed

lemma month_bounds:
  assumes "0 \<le> k" "k < (if lp then 366 else 365)"
  shows "1 \<le> month_of lp k" "month_of lp k \<le> 12"
    and "before_month lp (month_of lp k) \<le> k" "k < before_month lp (month_of lp k + 1)"
proof -
  obtain m where m: "1 \<le> m" "m \<le> 12" "before_month lp m \<le> k" "k < before_month lp (m + 1)"
    using month_exists[of k lp] assms by (auto simp: before_month_13)
  then have "month_of lp k = m" by (rule month_unique)
  with m show "1 \<le> month_of lp k" "month_of lp k \<le> 12"
    and "before_month lp (month_of lp k) \<le> k" "k < before_month lp (month_of lp k + 1)"
    by simp_all
qed

lemma before_month_step: "before_month lp m \<le> before_month lp (m + 1)"
  by (simp add: before_month_def)

lemma before_month_mono: "m \<le> k \<Longrightarrow> before_month lp m \<le> before_month lp k"
proof (induction k rule: int_ge_induct)
  case (step k)
  then show ?case using before_month_step[of lp k] by simp
qed simp

lemma day_of_year_bounds:
  assumes "valid_date d"
  shows "0 \<le> before_month (leap (yr d)) (mo d) + (dy d - 1)"
    and "before_month (leap (yr d)) (mo d) + (dy d - 1) < (if leap (yr d) then 366 else 365)"
proof -
  have "before_month (leap (yr d)) (mo d + 1) \<le> before_month (leap (yr d)) 13"
    using assms by (intro before_month_mono) (simp add: valid_date_def)
  moreover have "0 \<le> before_month (leap (yr d)) (mo d)"
    by (simp add: before_month_def)
  ultimately show "0 \<le> before_month (leap (yr d)) (mo d) + (dy d - 1)"
    and "before_month (leap (yr d)) (mo d) + (dy d - 1) < (if leap (yr d) then 366 else 365)"
    using assms by (auto simp: valid_date_def days_in_month_def before_month_13 split: if_splits)
qed

lemma iso_date_utc_day [simp]:
  assumes "valid_date d"
  shows "iso_date (utc_day d) = d"
proof -
  let ?k = "before_month (leap (yr d)) (mo d) + (dy d - 1)"
  have "year_of (before_year (yr d) + ?k) = yr d"
    using day_of_year_bounds[OF assms] by (intro year_unique) (simp_all add: before_year_step)
  then have y: "year_of (utc_day d + epoch_offset) = yr d"
    by (simp add: utc_day_def algebra_simps)
  have m: "month_of (leap (yr d)) ?k = mo d"
    using assms by (intro month_unique) (simp_all add: valid_date_def days_in_month_def)
  have k: "utc_day d + epoch_offset - before_year (yr d) = ?k"
    by (simp add: utc_day_def)
  show ?thesis
    unfolding iso_date_def Let_def y k m by (simp add: date.expand)
qed

lemma valid_iso_date [simp]: "valid_date (iso_date n)"
  and utc_day_iso_date [simp]: "utc_day (iso_date n) = n"
proof -
  define y where "y = year_of (n + epoch_offset)"
  define k where "k = n + epoch_offset - before_year y"
  define m where "m = month_of (leap y) k"
  have d: "iso_date n = Date y m (k - before_month (leap y) m + 1)"
    by (simp add: iso_date_def y_def k_def m_def Let_def)
  have k: "0 \<le> k" "k < (if leap y then 366 else 365)"
    using year_bounds[of "n + epoch_offset"] before_year_step[of y]
    by (simp_all add: y_def[symmetric] k_def)
  show "valid_date (iso_date n)"
    using month_bounds[OF k] unfolding d m_def[symmetric]
    by (simp add: valid_date_def days_in_month_def)
  show "utc_day (iso_date n) = n"
    unfolding d by (simp add: utc_day_def k_def)
qed

lemma utc_day_mono:
  assumes "valid_date a" "valid_date b" "a < b"
  shows "utc_day a < utc_day b"
proof (cases "yr a = yr b")
  case True
  show ?thesis
  proof (cases "mo a = mo b")
    case False
    then have "mo a + 1 \<le> mo b" using assms(3) True by (simp add: less_date_def)
    then have "before_month (leap (yr b)) (mo a + 1) \<le> before_month (leap (yr b)) (mo b)"
      by (rule before_month_mono)
    then show ?thesis
      using assms(1,2) True by (simp add: valid_date_def days_in_month_def utc_day_def)
  qed (use assms(3) True in \<open>simp add: less_date_def utc_day_def\<close>)
next
  case False
  then have "yr a < yr b" using assms(3) by (simp add: less_date_def)
  then have "before_year (yr a + 1) \<le> before_year (yr b)" by (rule before_year_strict)
  then show ?thesis
    using day_of_year_bounds[OF assms(1)] day_of_year_bounds[OF assms(2)] before_year_step[of "yr a"]
    by (simp add: utc_day_def)
qed

lemma utc_day_less_iff [simp]:
  "valid_date a \<Longrightarrow> valid_date b \<Longrightarrow> utc_day a < utc_day b \<longleftrightarrow> a < b"
  using utc_day_mono[of a b] utc_day_mono[of b a] by (metis less_irrefl less_linear less_trans)

lemma utc_day_le_iff [simp]:
  "valid_date a \<Longrightarrow> valid_date b \<Longrightarrow> utc_day a \<le> utc_day b \<longleftrightarrow> a \<le> b"
  by (simp add: linorder_not_less[symmetric])

lemma utc_day_eq_iff: "valid_date a \<Longrightarrow> valid_date b \<Longrightarrow> utc_day a = utc_day b \<longleftrightarrow> a = b"
  by (metis iso_date_utc_day)

lemma iso_date_less_iff [simp]: "iso_date m < iso_date n \<longleftrightarrow> m < n"
  using utc_day_less_iff[of "iso_date m" "iso_date n"] by simp

lemma iso_date_eq_iff [simp]: "iso_date m = iso_date n \<longleftrightarrow> m = n"
  by (metis utc_day_iso_date)

lemma weekdayOf_range: "0 \<le> weekdayOf d" "weekdayOf d < 7"
  by (simp_all add: weekdayOf_def)

lemma valid_dayBefore [simp]: "valid_date (dayBefore d)"
  by (simp add: dayBefore_def)

lemma dayBefore_less: "valid_date d \<Longrightarrow> dayBefore d < d"
  using iso_date_less_iff[of "utc_day d - 1" "utc_day d"] by (simp add: dayBefore_def)

lemma less_iff_le_dayBefore:
  assumes "valid_date a" "valid_date d"
  shows "a < d \<longleftrightarrow> a \<le> dayBefore d"
proof -
  have "a \<le> dayBefore d \<longleftrightarrow> utc_day a \<le> utc_day (dayBefore d)"
    using assms(1) utc_day_le_iff[of a "dayBefore d"] by (simp only: valid_dayBefore)
  also have "\<dots> \<longleftrightarrow> utc_day a < utc_day d"
    by (simp add: dayBefore_def)
  finally show ?thesis using assms by simp
qed

lemma dates_loop_set: "set (dates_loop a b) = iso_date ` {a..b}"
proof (induction a b rule: dates_loop.induct)
  case (1 a b)
  show ?case
  proof (cases "a \<le> b")
    case True
    then have "{a..b} = insert a {a + 1..b}" by auto
    then show ?thesis
      using 1[OF True] True by (subst dates_loop.simps) (simp only: if_True list.set image_insert)
  qed (simp add: dates_loop.simps)
qed

lemma dates_loop_sorted: "sorted_wrt (<) (dates_loop a b)"
proof (induction a b rule: dates_loop.induct)
  case (1 a b)
  then show ?case
    by (subst dates_loop.simps) (auto simp: dates_loop_set)
qed

lemma dates_loop_length: "length (dates_loop a b) = nat (b + 1 - a)"
proof (induction a b rule: dates_loop.induct)
  case (1 a b)
  then show ?case by (subst dates_loop.simps) auto
qed

lemma datesInRange_set:
  assumes "valid_date s" "valid_date e"
  shows "set (datesInRange s e) = {d. valid_date d \<and> s \<le> d \<and> d \<le> e}"
proof (intro set_eqI iffI)
  fix d assume "d \<in> set (datesInRange s e)"
  then obtain n where "d = iso_date n" "utc_day s \<le> n" "n \<le> utc_day e"
    by (auto simp: datesInRange_def dates_loop_set)
  then show "d \<in> {d. valid_date d \<and> s \<le> d \<and> d \<le> e}"
    using assms utc_day_le_iff[of s d] utc_day_le_iff[of d e] by simp
next
  fix d assume "d \<in> {d. valid_date d \<and> s \<le> d \<and> d \<le> e}"
  then have "utc_day d \<in> {utc_day s..utc_day e}" "d = iso_date (utc_day d)"
    using assms by simp_all
  then show "d \<in> set (datesInRange s e)"
    by (simp only: datesInRange_def dates_loop_set image_iff) blast
qed

section \<open>Date ranges\<close>

text \<open>The value object \<open>DateRange\<close>: its constructor throws a plain \<open>Error\<close>.  The two format
  checks of the constructor hold by the type.\<close>

record date_range =
  dr_start :: date
  dr_end :: date

definition mkDateRange :: "date \<Rightarrow> date \<Rightarrow> http_error + date_range" where
  "mkDateRange s e = (if e < s then Inl PlainError else Inr \<lparr>dr_start = s, dr_end = e\<rparr>)"

definition isSingleDay :: "date_range \<Rightarrow> bool" where
  "isSingleDay r \<longleftrightarrow> dr_start r = dr_end r"

definition endsBefore :: "date_range \<Rightarrow> date \<Rightarrow> bool" where
  "endsBefore r d \<longleftrightarrow> dr_end r < d"

text \<open>Overlap as the queries state it: \<open>NOT (end < s OR start > e)\<close>.\<close>

definition overlaps :: "date \<Rightarrow> date \<Rightarrow> date \<Rightarrow> date \<Rightarrow> bool" where
  "overlaps s1 e1 s2 e2 \<longleftrightarrow> \<not> (e1 < s2 \<or> s1 > e2)"

lemma overlaps_iff_common_day:
  assumes "s1 \<le> e1" "s2 \<le> e2"
  shows "overlaps s1 e1 s2 e2 \<longleftrightarrow> (\<exists>d. s1 \<le> d \<and> d \<le> e1 \<and> s2 \<le> d \<and> d \<le> e2)"
proof
  assume "overlaps s1 e1 s2 e2"
  then have "s1 \<le> max s1 s2 \<and> max s1 s2 \<le> e1 \<and> s2 \<le> max s1 s2 \<and> max s1 s2 \<le> e2"
    using assms by (auto simp: overlaps_def)
  then show "\<exists>d. s1 \<le> d \<and> d \<le> e1 \<and> s2 \<le> d \<and> d \<le> e2" by blast
qed (auto simp: overlaps_def)

lemma overlaps_commute: "overlaps s1 e1 s2 e2 = overlaps s2 e2 s1 e1"
  by (auto simp: overlaps_def)

section \<open>Clock times\<close>

datatype clock = Clock (hh: int) (mi: int) (ss: "int option")

definition sec_key :: "clock \<Rightarrow> int" where
  "sec_key c = (case ss c of None \<Rightarrow> -1 | Some s \<Rightarrow> s)"

definition wf_clock :: "clock \<Rightarrow> bool" where
  "wf_clock c \<longleftrightarrow> 0 \<le> hh c \<and> hh c < 24 \<and> 0 \<le> mi c \<and> mi c < 60 \<and>
     (case ss c of None \<Rightarrow> True | Some s \<Rightarrow> 0 \<le> s \<and> s < 60)"

definition clock_less :: "clock \<Rightarrow> clock \<Rightarrow> bool" where
  "clock_less a b \<longleftrightarrow>
     hh a < hh b \<or> hh a = hh b \<and> (mi a < mi b \<or> mi a = mi b \<and> sec_key a < sec_key b)"

definition toSeconds :: "clock \<Rightarrow> int" where
  "toSeconds c = hh c * 3600 + mi c * 60 + (case ss c of None \<Rightarrow> 0 | Some s \<Rightarrow> s)"

definition toClock :: "rat \<Rightarrow> clock" where
  "toClock t = (let s = math_round t in Clock (s div 3600) ((s mod 3600) div 60) (Some (s mod 60)))"

lemma clock_less_irrefl [simp]: "\<not> clock_less c c"
  by (simp add: clock_less_def)

lemma clock_less_trans: "clock_less a b \<Longrightarrow> clock_less b c \<Longrightarrow> clock_less a c"
  by (auto simp: clock_less_def)

lemma wf_clock_seconds:
  assumes "wf_clock c"
  shows "hh c * 3600 + mi c * 60 \<le> toSeconds c" "toSeconds c < hh c * 3600 + mi c * 60 + 60"
    and "0 \<le> mi c" "mi c < 60" "0 \<le> hh c" "hh c < 24"
    and "toSeconds c - (hh c * 3600 + mi c * 60) = max 0 (sec_key c)"
  using assms by (auto simp: wf_clock_def toSeconds_def sec_key_def split: option.splits)

lemma clock_less_seconds:
  assumes "wf_clock a" "wf_clock b" "clock_less a b"
  shows "toSeconds a \<le> toSeconds b"
proof -
  note a = wf_clock_seconds[OF assms(1)] and b = wf_clock_seconds[OF assms(2)]
  consider "hh a + 1 \<le> hh b" | "hh a = hh b" "mi a + 1 \<le> mi b"
    | "hh a = hh b" "mi a = mi b" "sec_key a < sec_key b"
    using assms(3) by (auto simp: clock_less_def)
  then show ?thesis using a b by cases linarith+
qed

lemma seconds_clock_less:
  assumes "wf_clock a" "wf_clock b" "toSeconds a < toSeconds b"
  shows "clock_less a b"
proof (rule ccontr)
  note a = wf_clock_seconds[OF assms(1)] and b = wf_clock_seconds[OF assms(2)]
  assume "\<not> clock_less a b"
  then consider "hh b < hh a" | "hh a = hh b" "mi b < mi a"
    | "hh a = hh b" "mi a = mi b" "sec_key b \<le> sec_key a"
    unfolding clock_less_def by linarith
  then show False using a b assms(3) by cases linarith+
qed

lemma toClock_toSeconds:
  assumes "wf_clock c"
  shows "toClock (of_int (toSeconds c)) =
    Clock (hh c) (mi c) (Some (case ss c of None \<Rightarrow> 0 | Some s \<Rightarrow> s))"
proof -
  define s where "s = (case ss c of None \<Rightarrow> 0 | Some s \<Rightarrow> s)"
  have s: "0 \<le> s" "s < 60" and m: "0 \<le> mi c" "mi c < 60"
    using assms by (auto simp: s_def wf_clock_def split: option.splits)
  have t: "toSeconds c = hh c * 3600 + (mi c * 60 + s)"
    by (simp add: toSeconds_def s_def)
  have "math_round (of_int (toSeconds c)) = toSeconds c"
    by (simp add: math_round_def) linarith
  moreover have "toSeconds c div 3600 = hh c" "toSeconds c mod 3600 = mi c * 60 + s"
    unfolding t using s m by simp_all
  moreover have "(mi c * 60 + s) div 60 = mi c"
    using s by simp
  moreover have "toSeconds c mod 60 = s"
  proof -
    have "toSeconds c = 60 * (hh c * 60 + mi c) + s" by (simp add: t)
    then show ?thesis using int_mod_pos_eq[of "toSeconds c" 60 "hh c * 60 + mi c" s] s by blast
  qed
  ultimately show ?thesis
    by (simp add: toClock_def s_def[symmetric])
qed

section \<open>Dates and numbers as text\<close>

definition digit :: "int \<Rightarrow> char" where
  "digit n = char_of (48 + nat (n mod 10))"

definition padded :: "nat \<Rightarrow> int \<Rightarrow> string" where
  "padded w n = map (\<lambda>i. digit (n div 10 ^ i)) (rev [0..<w])"

definition date_text :: "date \<Rightarrow> string" where
  "date_text d = padded 4 (yr d) @ ''-'' @ padded 2 (mo d) @ ''-'' @ padded 2 (dy d)"

fun digits :: "nat \<Rightarrow> string" where
  "digits n = (if n < 10 then [] else digits (n div 10)) @ [digit (int n)]"

declare digits.simps [simp del]

definition int_text :: "int \<Rightarrow> string" where
  "int_text i = (if i < 0 then ''-'' @ digits (nat (- i)) else digits (nat i))"

end
