(* ===== verification/WorkSchedules.thy ===== *)
theory WorkSchedules
  imports Dates
begin

text \<open>
  Work schedules (\<open>src/src/work-schedules\<close>): the value objects \<open>WorkWindow\<close> and \<open>Break\<close>, the
  aggregate's cross rule, the repository under the constraints of the migration and the service.
  Clock strings are as submitted (\<open>HH:MM\<close> or \<open>HH:MM:SS\<close>); a stored \<open>time\<close> column always reads
  back with seconds (\<open>pg_time\<close>).
\<close>

section \<open>State\<close>

record schedule =
  ws_id :: int
  ws_employee :: int
  ws_dow :: int
  ws_in :: clock
  ws_out :: clock
  ws_break_minutes :: int
  ws_break_start :: "clock option"
  ws_from :: date
  ws_to :: "date option"
  ws_created_by :: "int option"
  ws_updated_by :: "int option"
  ws_deleted_by :: "int option"
  ws_deleted_at :: "int option"

datatype schedule_event =
    WorkScheduleCreated int int int date
  | WorkScheduleEnded int int date

record schedule_db =
  ws_rows :: "schedule list"
  ws_next :: int
  ws_events :: "schedule_event list"

definition ws_live :: "schedule \<Rightarrow> bool" where
  "ws_live r \<longleftrightarrow> ws_deleted_at r = None"

text \<open>The WHERE clause and the columns of the partial unique index.\<close>

definition ws_active :: "schedule \<Rightarrow> bool" where
  "ws_active r \<longleftrightarrow> ws_to r = None \<and> ws_live r"

definition ws_key :: "schedule \<Rightarrow> int \<times> int" where
  "ws_key r = (ws_employee r, ws_dow r)"

section \<open>Value objects and the aggregate\<close>

definition mkWorkWindow :: "clock \<Rightarrow> clock \<Rightarrow> http_error + (clock \<times> clock)" where
  "mkWorkWindow cin cout =
     (if \<not> clock_less cin cout then Inl (unprocessable ''expected_out'') else Inr (cin, cout))"

definition mkBreak :: "int \<Rightarrow> clock option \<Rightarrow> http_error + (int \<times> clock option)" where
  "mkBreak minutes start =
     (if minutes < 0 then Inl (unprocessable ''break_minutes'')
      else if 0 < minutes \<and> start = None then Inl (unprocessable ''break_start'')
      else Inr (minutes, start))"

definition assertBreakWithinWindow :: "clock \<times> clock \<Rightarrow> int \<times> clock option \<Rightarrow> http_error + unit" where
  "assertBreakWithinWindow window brk =
     (case snd brk of
        None \<Rightarrow> Inr ()
      | Some st \<Rightarrow>
          if toSeconds st < toSeconds (fst window) then Inl (unprocessable ''break_start'')
          else if toSeconds (snd window) < toSeconds st + fst brk * 60
          then Inl (unprocessable ''break_start'')
          else Inr ())"

definition assertSchedule :: "clock \<Rightarrow> clock \<Rightarrow> int \<Rightarrow> clock option \<Rightarrow> http_error + unit" where
  "assertSchedule cin cout minutes start =
     bindR (mkWorkWindow cin cout) (\<lambda>window.
     bindR (mkBreak minutes start) (\<lambda>brk. assertBreakWithinWindow window brk))"

section \<open>Repository\<close>

definition pg_time :: "clock \<Rightarrow> clock" where
  "pg_time c = Clock (hh c) (mi c) (Some (case ss c of None \<Rightarrow> 0 | Some s \<Rightarrow> s))"

definition ws_stored :: "schedule \<Rightarrow> schedule" where
  "ws_stored r = r\<lparr>ws_in := pg_time (ws_in r), ws_out := pg_time (ws_out r),
     ws_break_start := map_option pg_time (ws_break_start r)\<rparr>"

text \<open>The CHECK constraints; \<open>time + interval\<close> wraps at midnight.\<close>

definition ws_checks :: "schedule \<Rightarrow> bool" where
  "ws_checks r \<longleftrightarrow>
     0 \<le> ws_dow r \<and> ws_dow r \<le> 6 \<and>
     0 \<le> ws_break_minutes r \<and>
     (ws_break_minutes r = 0 \<or> ws_break_start r \<noteq> None) \<and>
     (case ws_break_start r of None \<Rightarrow> True | Some b \<Rightarrow>
        toSeconds (ws_in r) \<le> toSeconds b \<and>
        (toSeconds b + ws_break_minutes r * 60) mod 86400 \<le> toSeconds (ws_out r)) \<and>
     toSeconds (ws_in r) < toSeconds (ws_out r) \<and>
     (case ws_to r of None \<Rightarrow> True | Some t \<Rightarrow> ws_from r \<le> t)"

definition ws_save :: "schedule \<Rightarrow> schedule_db \<Rightarrow> http_error + schedule_db" where
  "ws_save r db =
     (if \<not> ws_checks r then Inl CheckViolation
      else if ws_active r \<and>
        list_ex (\<lambda>q. ws_id q \<noteq> ws_id r \<and> ws_active q \<and> ws_key q = ws_key r) (ws_rows db)
      then Inl UniqueViolation
      else Inr (db\<lparr>ws_rows := update_where (\<lambda>q. ws_id q = ws_id r) (\<lambda>_. ws_stored r) (ws_rows db)\<rparr>))"

definition ws_insert :: "schedule \<Rightarrow> schedule_db \<Rightarrow> http_error + (schedule_db \<times> schedule)" where
  "ws_insert r db =
     (if \<not> ws_checks r then Inl CheckViolation
      else if ws_active r \<and> list_ex (\<lambda>q. ws_active q \<and> ws_key q = ws_key r) (ws_rows db)
      then Inl UniqueViolation
      else (let stored = ws_stored (r\<lparr>ws_id := ws_next db\<rparr>)
            in Inr (db\<lparr>ws_rows := ws_rows db @ [stored], ws_next := ws_next db + 1\<rparr>, stored)))"

definition findScheduleById :: "schedule_db \<Rightarrow> int \<Rightarrow> schedule option" where
  "findScheduleById db i = find (\<lambda>r. ws_id r = i \<and> ws_live r) (ws_rows db)"

definition findActiveSchedules :: "schedule_db \<Rightarrow> int \<Rightarrow> schedule list" where
  "findActiveSchedules db e =
     sort_key ws_dow (filter (\<lambda>r. ws_employee r = e \<and> ws_to r = None \<and> ws_live r) (ws_rows db))"

definition findActiveForEmployeeDay :: "schedule_db \<Rightarrow> int \<Rightarrow> int \<Rightarrow> schedule option" where
  "findActiveForEmployeeDay db e d =
     find (\<lambda>r. ws_employee r = e \<and> ws_dow r = d \<and> ws_to r = None \<and> ws_live r) (ws_rows db)"

record schedule_criteria =
  sc_page :: "int option"
  sc_limit :: "int option"
  sc_employee :: "int option"
  sc_dow :: "int option"
  sc_active_only :: bool
  sc_deleted :: bool

text \<open>The query builder leaves out soft-deleted rows by itself; \<open>includeDeleted\<close> only drops the explicit
  condition, so it has no effect.\<close>

definition findAllSchedules :: "schedule_db \<Rightarrow> schedule_criteria \<Rightarrow> schedule page_of" where
  "findAllSchedules db c =
     find_page (sort_key ws_employee (sort_key ws_dow (filter (\<lambda>r. ws_live r \<and>
        (sc_deleted c \<or> ws_live r) \<and>
        (case sc_employee c of None \<Rightarrow> True | Some e \<Rightarrow> ws_employee r = e) \<and>
        (case sc_dow c of None \<Rightarrow> True | Some d \<Rightarrow> ws_dow r = d) \<and>
        (sc_active_only c \<longrightarrow> ws_to r = None)) (ws_rows db))))
       (sc_page c) (sc_limit c)"

record schedule_input =
  wi_employee :: int
  wi_dow :: int
  wi_in :: clock
  wi_out :: clock
  wi_break_minutes :: int
  wi_break_start :: "clock option"
  wi_from :: date
  wi_to :: "date option"
  wi_created_by :: "int option"

record schedule_patch =
  wp_in :: "clock option"
  wp_out :: "clock option"
  wp_break_minutes :: "int option"
  wp_break_start :: "clock tri"
  wp_from :: "date option"
  wp_to :: "date tri"
  wp_updated_by :: "int tri"

definition no_patch :: schedule_patch where
  "no_patch = \<lparr>wp_in = None, wp_out = None, wp_break_minutes = None, wp_break_start = Undefined,
     wp_from = None, wp_to = Undefined, wp_updated_by = Undefined\<rparr>"

definition ws_new :: "schedule_input \<Rightarrow> schedule" where
  "ws_new i =
     \<lparr>ws_id = 0, ws_employee = wi_employee i, ws_dow = wi_dow i, ws_in = wi_in i, ws_out = wi_out i,
      ws_break_minutes = wi_break_minutes i, ws_break_start = wi_break_start i, ws_from = wi_from i,
      ws_to = wi_to i, ws_created_by = wi_created_by i, ws_updated_by = wi_created_by i,
      ws_deleted_by = None, ws_deleted_at = None\<rparr>"

definition ws_create :: "schedule_input \<Rightarrow> schedule_db \<Rightarrow> http_error + (schedule_db \<times> schedule)" where
  "ws_create i db = ws_insert (ws_new i) db"

definition ws_patched :: "schedule_patch \<Rightarrow> schedule \<Rightarrow> schedule" where
  "ws_patched p r = r\<lparr>ws_in := opt_apply (wp_in p) (ws_in r), ws_out := opt_apply (wp_out p) (ws_out r),
     ws_break_minutes := opt_apply (wp_break_minutes p) (ws_break_minutes r),
     ws_break_start := tri_apply (wp_break_start p) (ws_break_start r),
     ws_from := opt_apply (wp_from p) (ws_from r),
     ws_to := tri_apply (wp_to p) (ws_to r),
     ws_updated_by := tri_apply (wp_updated_by p) (ws_updated_by r)\<rparr>"

text \<open>\<open>findOneOrFail\<close>, patch, save, read back.\<close>

definition ws_update :: "int \<Rightarrow> schedule_patch \<Rightarrow> schedule_db \<Rightarrow> http_error + (schedule_db \<times> schedule)" where
  "ws_update i p db =
     (case findScheduleById db i of
        None \<Rightarrow> Inl NotFoundPlain
      | Some r \<Rightarrow> bindR (ws_save (ws_patched p r) db) (\<lambda>db'. Inr (db', ws_stored (ws_patched p r))))"

definition ws_retire :: "int \<times> int option \<Rightarrow> schedule \<Rightarrow> schedule" where
  "ws_retire a r = r\<lparr>ws_deleted_at := Some (fst a), ws_deleted_by := snd a\<rparr>"

definition ws_softDelete :: "int \<Rightarrow> int \<Rightarrow> int option \<Rightarrow> schedule_db \<Rightarrow> schedule_db" where
  "ws_softDelete now i actor db =
     db\<lparr>ws_rows := update_where (\<lambda>r. ws_id r = i \<and> ws_live r) (ws_retire (now, actor)) (ws_rows db)\<rparr>"

section \<open>Service\<close>

definition publish_ws :: "schedule_event \<Rightarrow> schedule_db \<Rightarrow> schedule_db" where
  "publish_ws e db = db\<lparr>ws_events := ws_events db @ [e]\<rparr>"

definition createSchedule :: "schedule_input \<Rightarrow> schedule_db \<Rightarrow> schedule_db \<times> (http_error + schedule)" where
  "createSchedule i db =
     (case assertSchedule (wi_in i) (wi_out i) (wi_break_minutes i) (wi_break_start i) of
        Inl er \<Rightarrow> (db, Inl er)
      | Inr _ \<Rightarrow>
          if wi_to i = None \<and> findActiveForEmployeeDay db (wi_employee i) (wi_dow i) \<noteq> None
          then (db, Inl ConflictPlain)
          else (case ws_create i db of
                  Inl er \<Rightarrow> (db, Inl (if isUniqueViolation er then ConflictPlain else er))
                | Inr (db', r) \<Rightarrow>
                    (publish_ws (WorkScheduleCreated (ws_id r) (ws_employee r) (ws_dow r) (ws_from r)) db',
                     Inr r)))"

definition updateSchedule ::
  "int \<Rightarrow> schedule_patch \<Rightarrow> schedule_db \<Rightarrow> schedule_db \<times> (http_error + schedule)" where
  "updateSchedule i p db =
     (case bindR (orNotFound (findScheduleById db i) ''WorkSchedule'' i) (\<lambda>r.
           bindR (assertSchedule (opt_apply (wp_in p) (ws_in r)) (opt_apply (wp_out p) (ws_out r))
                   (opt_apply (wp_break_minutes p) (ws_break_minutes r))
                   (tri_apply (wp_break_start p) (ws_break_start r))) (\<lambda>_. ws_update i p db)) of
        Inl er \<Rightarrow> (db, Inl er)
      | Inr (db', r') \<Rightarrow> (db', Inr r'))"

text \<open>Rebuilding the aggregate from a row: \<open>endLogically\<close> does not map the domain error, so a
  corrupt row is an unhandled \<open>Error\<close>.\<close>

definition reconstitute_schedule :: "schedule \<Rightarrow> http_error + schedule" where
  "reconstitute_schedule r =
     (case assertSchedule (ws_in r) (ws_out r) (ws_break_minutes r) (ws_break_start r) of
        Inl _ \<Rightarrow> Inl PlainError | Inr _ \<Rightarrow> Inr r)"

definition end_patch :: "date \<Rightarrow> int option \<Rightarrow> schedule_patch" where
  "end_patch eff_to actor = no_patch\<lparr>wp_to := Val eff_to,
     wp_updated_by := (case actor of None \<Rightarrow> Null | Some a \<Rightarrow> Val a)\<rparr>"

definition endScheduleLogically ::
  "int \<Rightarrow> date \<Rightarrow> int option \<Rightarrow> schedule_db \<Rightarrow> schedule_db \<times> (http_error + schedule)" where
  "endScheduleLogically i eff_to actor db =
     (case bindR (orNotFound (findScheduleById db i) ''WorkSchedule'' i) (\<lambda>r.
           if ws_to r \<noteq> None then Inl ConflictPlain
           else bindR (reconstitute_schedule r) (\<lambda>r.
                bindR (ws_update i (end_patch eff_to actor) db)
                  (\<lambda>(db', r'). Inr (db', r', WorkScheduleEnded (ws_id r) (ws_employee r) eff_to)))) of
        Inl er \<Rightarrow> (db, Inl er)
      | Inr (db', r', ev) \<Rightarrow> (publish_ws ev db', Inr r'))"

definition softDeleteSchedule ::
  "int \<Rightarrow> int \<Rightarrow> int option \<Rightarrow> schedule_db \<Rightarrow> schedule_db \<times> (http_error + unit)" where
  "softDeleteSchedule now i actor db =
     (case orNotFound (findScheduleById db i) ''WorkSchedule'' i of
        Inl er \<Rightarrow> (db, Inl er)
      | Inr _ \<Rightarrow> (ws_softDelete now i actor db, Inr ()))"

section \<open>The contract\<close>

definition has_seconds :: "clock \<Rightarrow> bool" where
  "has_seconds c \<longleftrightarrow> wf_clock c \<and> ss c \<noteq> None"

definition schedule_ok :: "schedule \<Rightarrow> bool" where
  "schedule_ok r \<longleftrightarrow>
     has_seconds (ws_in r) \<and> has_seconds (ws_out r) \<and>
     0 \<le> ws_dow r \<and> ws_dow r \<le> 6 \<and> 0 \<le> ws_break_minutes r \<and>
     toSeconds (ws_in r) < toSeconds (ws_out r) \<and>
     (case ws_break_start r of None \<Rightarrow> ws_break_minutes r = 0
      | Some b \<Rightarrow> has_seconds b \<and> toSeconds (ws_in r) \<le> toSeconds b \<and>
          toSeconds b + ws_break_minutes r * 60 \<le> toSeconds (ws_out r)) \<and>
     (case ws_to r of None \<Rightarrow> True | Some t \<Rightarrow> ws_from r \<le> t)"

definition schedule_inv :: "schedule_db \<Rightarrow> bool" where
  "schedule_inv db \<longleftrightarrow>
     serial_ok ws_id (ws_next db) (ws_rows db) \<and>
     unique_active ws_active ws_key (ws_rows db) \<and>
     list_all schedule_ok (ws_rows db)"

interpretation schedule_index: partial_unique ws_id ws_active ws_key ws_retire
  by unfold_locales (simp_all add: ws_retire_def ws_active_def ws_live_def)

lemma schedule_ok_checks:
  assumes "schedule_ok r"
  shows "ws_checks r"
proof -
  have "(toSeconds b + ws_break_minutes r * 60) mod 86400 \<le> toSeconds (ws_out r)"
    if "ws_break_start r = Some b" for b
  proof -
    have "0 \<le> toSeconds (ws_in r)" "toSeconds (ws_out r) < 86400"
      using assms wf_clock_seconds[of "ws_in r"] wf_clock_seconds[of "ws_out r"]
      by (auto simp: schedule_ok_def has_seconds_def)
    then show ?thesis
      using assms that by (subst mod_pos_pos_trivial) (auto simp: schedule_ok_def)
  qed
  then show ?thesis
    using assms by (auto simp: schedule_ok_def ws_checks_def split: option.splits)
qed

lemma toSeconds_pg_time [simp]: "toSeconds (pg_time c) = toSeconds c"
  by (simp add: pg_time_def toSeconds_def)

lemma has_seconds_pg_time: "wf_clock c \<Longrightarrow> has_seconds (pg_time c)"
  by (auto simp: has_seconds_def wf_clock_def pg_time_def split: option.splits)

lemma pg_time_idem [simp]: "has_seconds c \<Longrightarrow> pg_time c = c"
  by (cases c) (auto simp: has_seconds_def pg_time_def)

lemma has_seconds_less:
  assumes "has_seconds a" "has_seconds b"
  shows "clock_less a b \<longleftrightarrow> toSeconds a < toSeconds b"
proof
  assume "clock_less a b"
  then consider "hh a < hh b" | "hh a = hh b" "mi a < mi b"
    | "hh a = hh b" "mi a = mi b" "sec_key a < sec_key b"
    by (auto simp: clock_less_def)
  then show "toSeconds a < toSeconds b"
    using assms wf_clock_seconds[of a] wf_clock_seconds[of b]
    by cases (auto simp: has_seconds_def sec_key_def toSeconds_def)
next
  assume "toSeconds a < toSeconds b"
  then show "clock_less a b"
    using assms by (intro seconds_clock_less) (simp_all add: has_seconds_def)
qed

lemma assertSchedule_iff:
  "assertSchedule cin cout minutes st = Inr () \<longleftrightarrow>
     clock_less cin cout \<and> 0 \<le> minutes \<and>
     (case st of None \<Rightarrow> minutes = 0
      | Some b \<Rightarrow> toSeconds cin \<le> toSeconds b \<and> toSeconds b + minutes * 60 \<le> toSeconds cout)"
  by (auto simp: assertSchedule_def mkWorkWindow_def mkBreak_def assertBreakWithinWindow_def
      split: option.splits)

lemma assertSchedule_errors:
  "assertSchedule cin cout minutes st = Inl er \<Longrightarrow>
     er \<in> {Unprocessable ''expected_out'', Unprocessable ''break_minutes'', Unprocessable ''break_start''}"
  by (auto simp: assertSchedule_def mkWorkWindow_def mkBreak_def assertBreakWithinWindow_def
      unprocessable_def split: option.splits if_splits)

definition schedule_clocks :: "schedule \<Rightarrow> bool" where
  "schedule_clocks r \<longleftrightarrow> wf_clock (ws_in r) \<and> wf_clock (ws_out r) \<and>
     (case ws_break_start r of None \<Rightarrow> True | Some b \<Rightarrow> wf_clock b)"

lemma ws_stored_simps [simp]:
  "ws_id (ws_stored r) = ws_id r" "ws_key (ws_stored r) = ws_key r"
  "ws_active (ws_stored r) = ws_active r"
  "ws_key (r\<lparr>ws_id := i\<rparr>) = ws_key r" "ws_active (r\<lparr>ws_id := i\<rparr>) = ws_active r"
  by (simp_all add: ws_stored_def ws_key_def ws_active_def ws_live_def)

lemma stored_schedule_ok:
  assumes "assertSchedule (ws_in r) (ws_out r) (ws_break_minutes r) (ws_break_start r) = Inr ()"
    and "schedule_clocks r" "ws_checks r"
  shows "schedule_ok (ws_stored r)"
  using assms
  by (auto simp: assertSchedule_iff schedule_clocks_def ws_checks_def schedule_ok_def ws_stored_def
      has_seconds_pg_time split: option.splits)

lemma ws_insert_inv:
  assumes "schedule_inv db" "ws_insert r db = Inr (db', s)"
    and "assertSchedule (ws_in r) (ws_out r) (ws_break_minutes r) (ws_break_start r) = Inr ()"
    and "schedule_clocks r"
  shows "schedule_inv db'"
proof -
  let ?s = "ws_stored (r\<lparr>ws_id := ws_next db\<rparr>)"
  have db': "db' = db\<lparr>ws_rows := ws_rows db @ [?s], ws_next := ws_next db + 1\<rparr>"
    and chk: "ws_checks r"
    and free: "ws_active r \<Longrightarrow> \<forall>q \<in> set (ws_rows db). ws_active q \<longrightarrow> ws_key q \<noteq> ws_key r"
    using assms(2) by (auto simp: ws_insert_def Let_def list_ex_iff split: if_splits)
  have s: "ws_id ?s = ws_next db" "ws_key ?s = ws_key r" "ws_active ?s = ws_active r"
    by (simp_all add: ws_key_def ws_active_def ws_live_def ws_stored_def)
  have "schedule_ok ?s"
    using assms(3,4) chk
    by (intro stored_schedule_ok) (auto simp: schedule_clocks_def ws_checks_def split: option.splits)
  moreover have "unique_active ws_active ws_key (ws_rows db @ [?s])"
    using assms(1) free by (auto simp: unique_active_snoc s schedule_inv_def)
  moreover have "serial_ok ws_id (ws_next db + 1) (ws_rows db @ [?s])"
    using assms(1) by (intro serial_ok_snoc) (simp_all add: schedule_inv_def s)
  ultimately show ?thesis
    using assms(1) by (simp add: db' schedule_inv_def)
qed

lemma ws_save_inv:
  assumes "schedule_inv db" "ws_save r db = Inr db'"
    and "assertSchedule (ws_in r) (ws_out r) (ws_break_minutes r) (ws_break_start r) = Inr ()"
    and "schedule_clocks r"
  shows "schedule_inv db'"
proof -
  have db': "db' = db\<lparr>ws_rows := update_where (\<lambda>q. ws_id q = ws_id r) (\<lambda>_. ws_stored r) (ws_rows db)\<rparr>"
    and chk: "ws_checks r"
    and free: "ws_active r \<Longrightarrow> \<forall>q \<in> set (ws_rows db). ws_id q \<noteq> ws_id r \<longrightarrow> ws_active q \<longrightarrow> ws_key q \<noteq> ws_key r"
    using assms(2) by (auto simp: ws_save_def list_ex_iff split: if_splits)
  have "schedule_ok (ws_stored r)"
    using assms(3,4) chk by (rule stored_schedule_ok)
  then have "list_all schedule_ok (ws_rows db')"
    using assms(1) by (auto simp: db' schedule_inv_def list_all_iff table_simps)
  moreover have "unique_active ws_active ws_key (ws_rows db')"
    unfolding db' using assms(1) free
    by (simp, intro unique_active_replace) (simp_all add: schedule_inv_def serial_ok_def)
  moreover have "serial_ok ws_id (ws_next db') (ws_rows db')"
    unfolding db' using assms(1) by (simp add: schedule_inv_def serial_ok_replace)
  ultimately show ?thesis by (simp add: schedule_inv_def)
qed

section \<open>The service keeps the contract\<close>

definition input_clocks :: "schedule_input \<Rightarrow> bool" where
  "input_clocks i \<longleftrightarrow> wf_clock (wi_in i) \<and> wf_clock (wi_out i) \<and>
     (case wi_break_start i of None \<Rightarrow> True | Some b \<Rightarrow> wf_clock b)"

definition patch_clocks :: "schedule_patch \<Rightarrow> bool" where
  "patch_clocks p \<longleftrightarrow>
     (case wp_in p of None \<Rightarrow> True | Some c \<Rightarrow> wf_clock c) \<and>
     (case wp_out p of None \<Rightarrow> True | Some c \<Rightarrow> wf_clock c) \<and>
     (case wp_break_start p of Val c \<Rightarrow> wf_clock c | _ \<Rightarrow> True)"

lemma schedule_inv_publish [simp]: "schedule_inv (publish_ws e db) = schedule_inv db"
  by (simp add: schedule_inv_def publish_ws_def)

lemma findScheduleById_Some:
  "findScheduleById db i = Some r \<Longrightarrow> r \<in> set (ws_rows db) \<and> ws_id r = i \<and> ws_live r"
  unfolding findScheduleById_def by (drule find_Some_iff_mem) simp

lemma createSchedule_preserves:
  assumes "schedule_inv db" "input_clocks i"
  shows "schedule_inv (fst (createSchedule i db))"
proof (cases "ws_create i db")
  case (Inr p)
  obtain db' s where p: "p = (db', s)" by fastforce
  show ?thesis
  proof (cases "assertSchedule (wi_in i) (wi_out i) (wi_break_minutes i) (wi_break_start i)")
    case ok: (Inr u)
    have "schedule_inv db'"
      using Inr[unfolded p ws_create_def] assms ok
      by (intro ws_insert_inv[of db "ws_new i" db' s])
        (auto simp: schedule_clocks_def input_clocks_def ws_new_def)
    then show ?thesis
      using assms(1) Inr p ok by (simp add: createSchedule_def)
  qed (simp add: createSchedule_def assms(1))
qed (use assms(1) in \<open>simp add: createSchedule_def split: sum.splits\<close>)

lemma ws_update_inv:
  assumes "schedule_inv db" "ws_update i p db = Inr (db', s)" "findScheduleById db i = Some r"
    and "assertSchedule (ws_in (ws_patched p r)) (ws_out (ws_patched p r))
      (ws_break_minutes (ws_patched p r)) (ws_break_start (ws_patched p r)) = Inr ()"
    and "patch_clocks p"
  shows "schedule_inv db'"
proof -
  have "schedule_ok r"
    using findScheduleById_Some[OF assms(3)] assms(1) by (simp add: schedule_inv_def list_all_iff)
  then have "schedule_clocks (ws_patched p r)"
    using assms(5)
    by (auto simp: schedule_clocks_def ws_patched_def patch_clocks_def schedule_ok_def has_seconds_def
        split: option.splits tri.splits)
  moreover have "ws_save (ws_patched p r) db = Inr db'"
    using assms(2,3) by (auto simp: ws_update_def bindR_eq_Inr)
  ultimately show ?thesis
    using ws_save_inv[OF assms(1) _ assms(4)] by blast
qed

lemma updateSchedule_preserves:
  assumes "schedule_inv db" "patch_clocks p"
  shows "schedule_inv (fst (updateSchedule i p db))"
proof (cases "snd (updateSchedule i p db)")
  case (Inl er)
  then show ?thesis
    using assms(1) by (auto simp: updateSchedule_def split: sum.splits)
next
  case (Inr s)
  then obtain db' r where "updateSchedule i p db = (db', Inr s)" "findScheduleById db i = Some r"
      "ws_update i p db = Inr (db', s)"
      "assertSchedule (opt_apply (wp_in p) (ws_in r)) (opt_apply (wp_out p) (ws_out r))
        (opt_apply (wp_break_minutes p) (ws_break_minutes r))
        (tri_apply (wp_break_start p) (ws_break_start r)) = Inr ()"
    by (auto simp: updateSchedule_def result_simps split: sum.splits prod.splits)
  moreover from this have "schedule_inv db'"
    by (intro ws_update_inv[OF assms(1) _ _ _ assms(2)]) (auto simp: ws_patched_def)
  ultimately show ?thesis by simp
qed

lemma schedule_ok_reconstitutes:
  assumes "schedule_ok r"
  shows "assertSchedule (ws_in r) (ws_out r) (ws_break_minutes r) (ws_break_start r) = Inr ()"
    and "reconstitute_schedule r = Inr r"
proof -
  show "assertSchedule (ws_in r) (ws_out r) (ws_break_minutes r) (ws_break_start r) = Inr ()"
    using assms by (auto simp: assertSchedule_iff schedule_ok_def has_seconds_less split: option.splits)
  then show "reconstitute_schedule r = Inr r" by (simp add: reconstitute_schedule_def)
qed

lemma endScheduleLogically_cases:
  obtains (error) er where "endScheduleLogically i t actor db = (db, Inl er)"
  | (ended) r db' s where "findScheduleById db i = Some r" "ws_to r = None"
      "ws_update i (end_patch t actor) db = Inr (db', s)"
      "endScheduleLogically i t actor db =
        (publish_ws (WorkScheduleEnded (ws_id r) (ws_employee r) t) db', Inr s)"
proof (cases "findScheduleById db i")
  case None
  then show ?thesis by (intro error) (simp add: endScheduleLogically_def)
next
  case (Some r)
  show ?thesis
  proof (cases "ws_to r \<noteq> None \<or> reconstitute_schedule r \<noteq> Inr r \<or>
      (\<exists>er. ws_update i (end_patch t actor) db = Inl er)")
    case True
    have "\<exists>er. endScheduleLogically i t actor db = (db, Inl er)"
      using True Some
      by (auto simp: endScheduleLogically_def reconstitute_schedule_def split: sum.splits)
    then show ?thesis using error by blast
  next
    case False
    then obtain p where "ws_update i (end_patch t actor) db = Inr p"
      by (cases "ws_update i (end_patch t actor) db") auto
    with False Some show ?thesis
      by (cases p) (auto intro!: ended[of r] simp: endScheduleLogically_def)
  qed
qed

lemma endScheduleLogically_preserves:
  assumes "schedule_inv db"
  shows "schedule_inv (fst (endScheduleLogically i t actor db))"
proof (cases rule: endScheduleLogically_cases[of i t actor db])
  case (ended r db' s)
  have "schedule_ok r"
    using findScheduleById_Some[OF ended(1)] assms by (simp add: schedule_inv_def list_all_iff)
  then have "schedule_inv db'"
    by (intro ws_update_inv[OF assms ended(3,1)])
      (simp_all add: ws_patched_def no_patch_def end_patch_def patch_clocks_def
        schedule_ok_reconstitutes)
  then show ?thesis using ended(4) by simp
qed (use assms in simp)

lemma schedule_ok_retire [simp]: "schedule_ok (ws_retire a r) = schedule_ok r"
  unfolding schedule_ok_def ws_retire_def
  by (cases "ws_break_start r"; cases "ws_to r") simp_all

lemma ws_softDelete_inv:
  assumes "schedule_inv db"
  shows "schedule_inv (ws_softDelete now i actor db)"
proof -
  have "list_all schedule_ok (ws_rows (ws_softDelete now i actor db))"
    using assms by (auto simp: ws_softDelete_def schedule_inv_def list_all_iff table_simps)
  then show ?thesis
    using assms schedule_index.retire_preserves schedule_index.retire_serial
    by (simp add: schedule_inv_def ws_softDelete_def)
qed

lemma softDeleteSchedule_preserves:
  "schedule_inv db \<Longrightarrow> schedule_inv (fst (softDeleteSchedule now i actor db))"
  by (cases "findScheduleById db i") (simp_all add: softDeleteSchedule_def ws_softDelete_inv)

definition empty_schedules :: schedule_db where
  "empty_schedules = \<lparr>ws_rows = [], ws_next = 1, ws_events = []\<rparr>"

text \<open>One call of the service.  The clock strings of a request match the DTO's
  \<open>HH:MM\<close>/\<open>HH:MM:SS\<close> pattern.\<close>

inductive schedule_step :: "schedule_db \<Rightarrow> schedule_db \<Rightarrow> bool" where
  create: "input_clocks i \<Longrightarrow> schedule_step db (fst (createSchedule i db))"
| update: "patch_clocks p \<Longrightarrow> schedule_step db (fst (updateSchedule i p db))"
| ends: "schedule_step db (fst (endScheduleLogically i t actor db))"
| delete: "schedule_step db (fst (softDeleteSchedule now i actor db))"

lemma schedule_step_preserves: "schedule_step db db' \<Longrightarrow> schedule_inv db \<Longrightarrow> schedule_inv db'"
  by (induction rule: schedule_step.induct)
    (simp_all add: createSchedule_preserves updateSchedule_preserves endScheduleLogically_preserves
      softDeleteSchedule_preserves)

lemma empty_schedules_inv: "schedule_inv empty_schedules"
  by (simp add: schedule_inv_def empty_schedules_def)

lemma findActiveForEmployeeDay_eq:
  "findActiveForEmployeeDay db e d = find (\<lambda>r. ws_active r \<and> ws_key r = (e, d)) (ws_rows db)"
proof -
  have "(\<lambda>r. ws_employee r = e \<and> ws_dow r = d \<and> ws_to r = None \<and> ws_live r) =
      (\<lambda>r. ws_active r \<and> ws_key r = (e, d))"
    by (auto simp: ws_active_def ws_key_def)
  then show ?thesis by (simp only: findActiveForEmployeeDay_def)
qed

lemma findActiveSchedules_set:
  "set (findActiveSchedules db e) = {r \<in> set (ws_rows db). ws_active r \<and> ws_employee r = e}"
  by (auto simp: findActiveSchedules_def ws_active_def)

section \<open>What the leave module relies on\<close>

text \<open>A source of schedules: whatever active row it returns for a weekday is a sound schedule of that
  employee and weekday.\<close>

locale schedule_source =
  fixes ok :: "'s \<Rightarrow> bool"
    and active_day :: "'s \<Rightarrow> int \<Rightarrow> int \<Rightarrow> schedule option"
  assumes sound: "ok s \<Longrightarrow> active_day s e d = Some r \<Longrightarrow> schedule_ok r \<and> ws_key r = (e, d)"
begin

lemma window_ordered:
  "ok s \<Longrightarrow> active_day s e d = Some r \<Longrightarrow> toSeconds (ws_in r) < toSeconds (ws_out r)"
  using sound by (simp add: schedule_ok_def)

lemma break_inside:
  assumes "ok s" "active_day s e d = Some r" "ws_break_start r = Some b"
  shows "toSeconds (ws_in r) \<le> toSeconds b"
    and "toSeconds b + ws_break_minutes r * 60 \<le> toSeconds (ws_out r)"
  using sound[OF assms(1,2)] assms(3) by (simp_all add: schedule_ok_def)

end

interpretation schedules: schedule_source schedule_inv findActiveForEmployeeDay
proof unfold_locales
  fix db :: schedule_db and e d :: int and r
  assume inv: "schedule_inv db" and "findActiveForEmployeeDay db e d = Some r"
  then have "find (\<lambda>r. ws_active r \<and> ws_key r = (e, d)) (ws_rows db) = Some r"
    by (simp only: findActiveForEmployeeDay_eq)
  from find_Some_iff_mem[OF this] have "r \<in> set (ws_rows db) \<and> ws_active r \<and> ws_key r = (e, d)" .
  then show "schedule_ok r \<and> ws_key r = (e, d)"
    using inv by (simp add: schedule_inv_def list_all_iff)
qed

section \<open>Properties\<close>

definition sample_schedule :: "int \<Rightarrow> int \<Rightarrow> date option \<Rightarrow> schedule" where
  "sample_schedule i d t =
     \<lparr>ws_id = i, ws_employee = 5, ws_dow = d, ws_in = Clock 9 0 (Some 0), ws_out = Clock 18 0 (Some 0),
      ws_break_minutes = 60, ws_break_start = Some (Clock 12 0 (Some 0)), ws_from = Date 2026 1 1,
      ws_to = t, ws_created_by = None, ws_updated_by = None, ws_deleted_by = None, ws_deleted_at = None\<rparr>"

definition sample_schedules :: schedule_db where
  "sample_schedules = \<lparr>ws_rows = [sample_schedule 1 1 (Some (Date 2026 6 30)), sample_schedule 2 1 None],
     ws_next = 3, ws_events = []\<rparr>"

lemma sample_schedules_inv: "schedule_inv sample_schedules"
  by (simp add: schedule_inv_def sample_schedules_def sample_schedule_def serial_ok_def
      unique_active_def ws_active_def ws_live_def schedule_ok_def has_seconds_def wf_clock_def
      toSeconds_def less_eq_date_def)

text \<open>C23: Every schedule table the service can produce from the empty one, with clock strings that
  match the DTO pattern, has at most one active row for each employee and weekday, and every row has
  its working window in order, its break inside the window and its effective range in order.\<close>

theorem schedules_reachable_contract:
  assumes "rtranclp schedule_step empty_schedules db"
  shows "schedule_inv db"
  using assms
  by (induction rule: rtranclp_induct) (auto intro: empty_schedules_inv schedule_step_preserves)

definition sample_input :: schedule_input where
  "sample_input = \<lparr>wi_employee = 5, wi_dow = 1, wi_in = Clock 9 0 None, wi_out = Clock 18 0 None,
     wi_break_minutes = 60, wi_break_start = Some (Clock 12 0 None), wi_from = Date 2026 1 1,
     wi_to = None, wi_created_by = Some 1\<rparr>"

theorem schedules_reachable_contract_witness:
  "schedule_inv (fst (createSchedule sample_input empty_schedules)) \<and>
   okR (snd (createSchedule sample_input empty_schedules))"
proof
  have "input_clocks sample_input"
    by (simp add: input_clocks_def sample_input_def wf_clock_def)
  then have "schedule_step empty_schedules (fst (createSchedule sample_input empty_schedules))"
    by (rule schedule_step.create)
  then show "schedule_inv (fst (createSchedule sample_input empty_schedules))"
    by (intro schedules_reachable_contract r_into_rtranclp)
  show "okR (snd (createSchedule sample_input empty_schedules))" by code_simp
qed

lemma ws_new_checks:
  assumes "assertSchedule (wi_in i) (wi_out i) (wi_break_minutes i) (wi_break_start i) = Inr ()"
    and "0 \<le> wi_dow i" "wi_dow i \<le> 6" "toSeconds (wi_in i) < toSeconds (wi_out i)"
    and "case wi_to i of None \<Rightarrow> True | Some t \<Rightarrow> wi_from i \<le> t" "input_clocks i"
  shows "ws_checks (ws_new i)"
proof -
  have clocks: "wf_clock (wi_in i)" "wf_clock (wi_out i)"
    using assms(6) by (simp_all add: input_clocks_def)
  have "(toSeconds b + wi_break_minutes i * 60) mod 86400 \<le> toSeconds (wi_out i)"
    if "wi_break_start i = Some b" for b
  proof -
    have "toSeconds (wi_in i) \<le> toSeconds b" "0 \<le> wi_break_minutes i"
      "toSeconds b + wi_break_minutes i * 60 \<le> toSeconds (wi_out i)"
      using assms(1) that by (simp_all add: assertSchedule_iff)
    then show ?thesis
      using wf_clock_seconds[OF clocks(1)] wf_clock_seconds[OF clocks(2)]
      by (subst mod_pos_pos_trivial) linarith+
  qed
  then show ?thesis
    using assms(1-5) by (auto simp: ws_checks_def ws_new_def assertSchedule_iff split: option.splits)
qed

text \<open>Creating a schedule has exactly three outcomes: the field error of the validation; a 409
  when the weekday already has an active row and the new one is open-ended; otherwise the row is
  stored and the creation published.  In particular the unique index is never what rejects it.\<close>

theorem createSchedule_outcomes:
  assumes "0 \<le> wi_dow i" "wi_dow i \<le> 6" "toSeconds (wi_in i) < toSeconds (wi_out i)"
    and "case wi_to i of None \<Rightarrow> True | Some t \<Rightarrow> wi_from i \<le> t"
    and "input_clocks i"
  shows "createSchedule i db =
    (case assertSchedule (wi_in i) (wi_out i) (wi_break_minutes i) (wi_break_start i) of
       Inl er \<Rightarrow> (db, Inl er)
     | Inr _ \<Rightarrow>
         if wi_to i = None \<and> findActiveForEmployeeDay db (wi_employee i) (wi_dow i) \<noteq> None
         then (db, Inl ConflictPlain)
         else (let r = ws_stored ((ws_new i)\<lparr>ws_id := ws_next db\<rparr>)
               in (publish_ws (WorkScheduleCreated (ws_id r) (ws_employee r) (ws_dow r) (ws_from r))
                     (db\<lparr>ws_rows := ws_rows db @ [r], ws_next := ws_next db + 1\<rparr>), Inr r)))"
proof (cases "assertSchedule (wi_in i) (wi_out i) (wi_break_minutes i) (wi_break_start i)")
  case (Inr u)
  then have a: "assertSchedule (wi_in i) (wi_out i) (wi_break_minutes i) (wi_break_start i) = Inr ()"
    by simp
  have "ws_checks (ws_new i)" using a assms by (intro ws_new_checks)
  moreover have "(wi_to i = None \<and> findActiveForEmployeeDay db (wi_employee i) (wi_dow i) \<noteq> None) \<longleftrightarrow>
      (ws_active (ws_new i) \<and> list_ex (\<lambda>q. ws_active q \<and> ws_key q = ws_key (ws_new i)) (ws_rows db))"
    unfolding findActiveForEmployeeDay_eq
    by (auto simp: find_None_conv list_ex_iff ws_new_def ws_active_def ws_live_def ws_key_def)
  ultimately show ?thesis
    using a by (auto simp: createSchedule_def ws_create_def ws_insert_def Let_def)
qed (simp add: createSchedule_def)

theorem createSchedule_outcomes_witness:
  "createSchedule (sample_input\<lparr>wi_dow := 2\<rparr>) sample_schedules =
     (publish_ws (WorkScheduleCreated 3 5 2 (Date 2026 1 1))
        (sample_schedules\<lparr>ws_rows := ws_rows sample_schedules @ [(sample_schedule 3 2 None)\<lparr>ws_created_by := Some 1,
           ws_updated_by := Some 1\<rparr>], ws_next := 4\<rparr>),
      Inr ((sample_schedule 3 2 None)\<lparr>ws_created_by := Some 1, ws_updated_by := Some 1\<rparr>))"
  by (subst createSchedule_outcomes)
    (simp_all add: sample_input_def sample_schedules_def sample_schedule_def toSeconds_def
      input_clocks_def wf_clock_def assertSchedule_def mkWorkWindow_def mkBreak_def
      assertBreakWithinWindow_def clock_less_def findActiveForEmployeeDay_def ws_new_def ws_stored_def
      pg_time_def Let_def)

text \<open>Reopening an ended schedule (\<open>PATCH\<close> with \<open>effective_to: null\<close>) while another row is
  active for the same employee and weekday is not answered by the 409 of the service: \<open>updateSchedule\<close>
  neither looks for the active row nor maps the violation of the unique index, which escapes.\<close>

theorem updateSchedule_reopen_unmapped:
  assumes "schedule_inv db" "findScheduleById db i = Some r" "ws_to r \<noteq> None"
    and "findActiveForEmployeeDay db (ws_employee r) (ws_dow r) \<noteq> None"
  shows "updateSchedule i (no_patch\<lparr>wp_to := Null\<rparr>) db = (db, Inl UniqueViolation)"
proof -
  let ?r = "ws_patched (no_patch\<lparr>wp_to := Null\<rparr>) r"
  have r: "r \<in> set (ws_rows db)" "ws_id r = i" "ws_live r" "schedule_ok r"
    using findScheduleById_Some[OF assms(2)] assms(1) by (simp_all add: schedule_inv_def list_all_iff)
  have "schedule_ok ?r"
    using r(4) by (cases "ws_break_start r") (simp_all add: schedule_ok_def ws_patched_def no_patch_def)
  then have "ws_checks ?r" by (rule schedule_ok_checks)
  obtain q where q: "q \<in> set (ws_rows db)" "ws_active q" "ws_key q = ws_key r"
    using assms(4) unfolding findActiveForEmployeeDay_eq by (auto simp: find_None_conv ws_key_def)
  have "ws_id q \<noteq> i"
    using q(1,2) r(1,2) assms(1,3) serial_ok_inj[of ws_id "ws_next db" "ws_rows db" q r]
    by (auto simp: schedule_inv_def ws_active_def)
  then have "ws_save ?r db = Inl UniqueViolation"
    using q r(2,3) \<open>ws_checks ?r\<close>
    by (auto simp: ws_save_def list_ex_iff ws_patched_def no_patch_def ws_active_def ws_live_def ws_key_def)
  then show ?thesis
    using assms(2) schedule_ok_reconstitutes(1)[OF r(4)]
    by (simp add: updateSchedule_def ws_update_def no_patch_def)
qed

theorem updateSchedule_reopen_unmapped_witness:
  "updateSchedule 1 (no_patch\<lparr>wp_to := Null\<rparr>) sample_schedules = (sample_schedules, Inl UniqueViolation)"
  by (rule updateSchedule_reopen_unmapped[OF sample_schedules_inv, of 1 "sample_schedule 1 1 (Some (Date 2026 6 30))"])
    (simp_all add: findScheduleById_def findActiveForEmployeeDay_def sample_schedules_def
      sample_schedule_def ws_live_def)

text \<open>String order is not clock order when precisions differ: a window from \<open>h:m\<close> to
  \<open>h:m:00\<close> passes the validation, since a prefix is the smaller string, and is rejected only by the
  CHECK of the table, whose error the service does not map to its 422.\<close>

theorem createSchedule_prefix_window:
  assumes "wi_in i = Clock h m None" "wi_out i = Clock h m (Some 0)"
    and "wi_break_minutes i = 0" "wi_break_start i = None"
    and "findActiveForEmployeeDay db (wi_employee i) (wi_dow i) = None"
  shows "createSchedule i db = (db, Inl CheckViolation)"
proof -
  have "assertSchedule (wi_in i) (wi_out i) (wi_break_minutes i) (wi_break_start i) = Inr ()"
    using assms by (simp add: assertSchedule_iff clock_less_def sec_key_def)
  moreover have "\<not> ws_checks (ws_new i)"
    using assms by (simp add: ws_checks_def ws_new_def toSeconds_def)
  ultimately show ?thesis
    using assms(5) by (simp add: createSchedule_def ws_create_def ws_insert_def isUniqueViolation_def)
qed

theorem createSchedule_prefix_window_witness:
  "createSchedule (sample_input\<lparr>wi_in := Clock 9 0 None, wi_out := Clock 9 0 (Some 0), wi_break_minutes := 0,
     wi_break_start := None\<rparr>) empty_schedules = (empty_schedules, Inl CheckViolation)"
  by (rule createSchedule_prefix_window)
    (simp_all add: empty_schedules_def findActiveForEmployeeDay_def)

end
