(* ===== verification/LeaveDayCount.thy ===== *)
theory LeaveDayCount
  imports WorkSchedules
begin

text \<open>
  Chargeable days of a leave request (\<open>src/src/leave-requests/leave-day-count.service.ts\<close>) and the
  leave enumerations (\<open>src/src/leave-requests/leave-requests.constants.ts\<close>).  Day counts and
  fractions of seconds are exact rationals; every number the service computes here is a multiple of
  one half, which a double represents exactly.  Today's business date is an argument.
\<close>

section \<open>Enumerations\<close>

datatype leave_type = Vacation | Sick | Bereavement | Birthday | Emergency

datatype day_portion = Full | First_half | Second_half

definition HALF_DAY_LEAVE_TYPES :: "leave_type list" where
  "HALF_DAY_LEAVE_TYPES = [Vacation, Sick, Bereavement, Emergency]"

definition ATTACHMENT_REQUIRED_LEAVE_TYPES :: "leave_type list" where
  "ATTACHMENT_REQUIRED_LEAVE_TYPES = [Sick, Bereavement]"

section \<open>Counting\<close>

record submittable_range =
  sr_working_days :: rat
  sr_start_time :: "clock option"
  sr_end_time :: "clock option"

definition activeWeekdays :: "schedule_db \<Rightarrow> int \<Rightarrow> int list" where
  "activeWeekdays db e = map ws_dow (findActiveSchedules db e)"

definition isWorkday :: "schedule_db \<Rightarrow> int \<Rightarrow> date \<Rightarrow> bool" where
  "isWorkday db e d \<longleftrightarrow> weekdayOf d \<in> set (activeWeekdays db e)"

text \<open>\<open>new Date(t).getUTCDay()\<close> and \<open>Date.parse\<close>, in milliseconds.\<close>

definition utc_weekday_ms :: "int \<Rightarrow> int" where
  "utc_weekday_ms t = (t div ms_per_day + 4) mod 7"

definition date_parse :: "date \<Rightarrow> int" where
  "date_parse d = utc_day d * ms_per_day"

function count_loop :: "int list \<Rightarrow> int \<Rightarrow> int \<Rightarrow> int \<Rightarrow> int" where
  "count_loop workdays til t count =
     (if t \<le> til
      then count_loop workdays til (t + ms_per_day)
             (if utc_weekday_ms t \<in> set workdays then count + 1 else count)
      else count)"
  by pat_completeness auto
termination
  by (relation "measure (\<lambda>(_, til, t, _). nat (til + 1 - t))") (auto simp: ms_per_day_def)

declare count_loop.simps [simp del]

definition countAgainst :: "int list \<Rightarrow> date \<Rightarrow> date \<Rightarrow> int" where
  "countAgainst workdays s e = count_loop workdays (date_parse e) (date_parse s) 0"

definition countWorkingDays :: "schedule_db \<Rightarrow> int \<Rightarrow> date \<Rightarrow> date \<Rightarrow> int" where
  "countWorkingDays db e sd ed = countAgainst (activeWeekdays db e) sd ed"

section \<open>The half-day window\<close>

text \<open>The split instant in seconds of the day; without a break the comparison with infinity holds.\<close>

definition halfDaySplit :: "schedule \<Rightarrow> rat" where
  "halfDaySplit r =
     (let inSec = toSeconds (ws_in r); outSec = toSeconds (ws_out r);
          breakSec = ws_break_minutes r * 60;
          halfWork = of_int (outSec - inSec - breakSec) / 2 :: rat
      in case ws_break_start r of
           None \<Rightarrow> of_int inSec + halfWork
         | Some b \<Rightarrow>
             if halfWork \<le> of_int (toSeconds b - inSec) then of_int inSec + halfWork
             else of_int inSec + halfWork + of_int breakSec)"

definition halfDayWindow :: "schedule \<Rightarrow> day_portion \<Rightarrow> clock \<times> clock" where
  "halfDayWindow r portion =
     (if portion = First_half
      then (toClock (of_int (toSeconds (ws_in r))), toClock (halfDaySplit r))
      else (toClock (halfDaySplit r), toClock (of_int (toSeconds (ws_out r)))))"

section \<open>The submit rules\<close>

definition assertSubmittableRange ::
  "date \<Rightarrow> schedule_db \<Rightarrow> int \<Rightarrow> date \<Rightarrow> date \<Rightarrow> day_portion \<Rightarrow> leave_type option
     \<Rightarrow> http_error + submittable_range" where
  "assertSubmittableRange today db e sd ed portion ltype =
     (if ed < sd then Inl (unprocessable ''end_date'')
      else if sd < today then Inl (unprocessable ''start_date'')
      else
        (let rows = findActiveSchedules db e; workdays = map ws_dow rows
         in if weekdayOf sd \<notin> set workdays then Inl (unprocessable ''start_date'')
            else if weekdayOf ed \<notin> set workdays then Inl (unprocessable ''end_date'')
            else if portion \<noteq> Full
            then (if sd \<noteq> ed then Inl (unprocessable ''day_portion'')
                  else if (case ltype of None \<Rightarrow> False | Some t \<Rightarrow> t \<notin> set HALF_DAY_LEAVE_TYPES)
                  then Inl (unprocessable ''day_portion'')
                  else (case find (\<lambda>r. ws_dow r = weekdayOf sd) rows of
                          None \<Rightarrow> Inl PlainError
                        | Some row \<Rightarrow>
                            (let w = halfDayWindow row portion
                             in Inr \<lparr>sr_working_days = 1 / 2, sr_start_time = Some (fst w),
                                     sr_end_time = Some (snd w)\<rparr>)))
            else Inr \<lparr>sr_working_days = of_int (countAgainst workdays sd ed),
                      sr_start_time = None, sr_end_time = None\<rparr>))"

section \<open>Counting is counting\<close>

lemma utc_weekday_ms_day [simp]: "utc_weekday_ms (n * ms_per_day) = weekdayOf (iso_date n)"
  by (simp add: utc_weekday_ms_def weekdayOf_def ms_per_day_def)

lemma count_loop_dates:
  "count_loop wd (b * ms_per_day) (a * ms_per_day) c =
     c + int (length (filter (\<lambda>d. weekdayOf d \<in> set wd) (dates_loop a b)))"
proof (induction a b arbitrary: c rule: dates_loop.induct)
  case (1 a b)
  have le: "a * ms_per_day \<le> b * ms_per_day \<longleftrightarrow> a \<le> b"
    by (simp add: ms_per_day_def)
  have nxt: "a * ms_per_day + ms_per_day = (a + 1) * ms_per_day"
    by (simp add: algebra_simps)
  show ?case
  proof (cases "a \<le> b")
    case True
    show ?thesis
      unfolding count_loop.simps[of wd "b * ms_per_day" "a * ms_per_day"] dates_loop.simps[of a b] nxt le
      using 1[OF True] True by simp
  next
    case False
    then show ?thesis
      by (simp add: count_loop.simps[of wd "b * ms_per_day" "a * ms_per_day"] dates_loop.simps[of a b] le)
  qed
qed

lemma countAgainst_eq:
  "countAgainst wd s e = int (length (filter (\<lambda>d. weekdayOf d \<in> set wd) (datesInRange s e)))"
  by (simp add: countAgainst_def date_parse_def count_loop_dates datesInRange_def)

lemma countAgainst_bounds:
  "0 \<le> countAgainst wd s e" "countAgainst wd s e \<le> int (length (datesInRange s e))"
  by (simp_all add: countAgainst_eq)

lemma countAgainst_pos:
  assumes "valid_date s" "valid_date e" "s \<le> e" "weekdayOf s \<in> set wd"
  shows "1 \<le> countAgainst wd s e"
proof -
  have "s \<in> set (filter (\<lambda>d. weekdayOf d \<in> set wd) (datesInRange s e))"
    using assms by (simp add: datesInRange_set)
  then have "filter (\<lambda>d. weekdayOf d \<in> set wd) (datesInRange s e) \<noteq> []" by force
  then have "0 < length (filter (\<lambda>d. weekdayOf d \<in> set wd) (datesInRange s e))"
    by (rule iffD2[OF length_greater_0_conv])
  then show ?thesis unfolding countAgainst_eq by linarith
qed

section \<open>The half-day window is fair\<close>

text \<open>Work time between two instants of the day: the time between them less the part of the break
  that lies between them.\<close>

definition worked :: "schedule \<Rightarrow> rat \<Rightarrow> rat \<Rightarrow> rat" where
  "worked r a b =
     (b - a) -
     (case ws_break_start r of
        None \<Rightarrow> 0
      | Some st \<Rightarrow>
          max 0 (min b (of_int (toSeconds st + ws_break_minutes r * 60)) - max a (of_int (toSeconds st))))"

definition work_total :: "schedule \<Rightarrow> rat" where
  "work_total r = of_int (toSeconds (ws_out r) - toSeconds (ws_in r) - ws_break_minutes r * 60)"

lemma half_day_fair:
  assumes "schedule_ok r"
  shows "of_int (toSeconds (ws_in r)) \<le> halfDaySplit r"
    and "halfDaySplit r \<le> of_int (toSeconds (ws_out r))"
    and "worked r (of_int (toSeconds (ws_in r))) (halfDaySplit r) = work_total r / 2"
    and "worked r (halfDaySplit r) (of_int (toSeconds (ws_out r))) = work_total r / 2"
proof -
  define i :: rat where "i = of_int (toSeconds (ws_in r))"
  define out :: rat where "out = of_int (toSeconds (ws_out r))"
  define m :: rat where "m = of_int (ws_break_minutes r)"
  have io: "i < out" "0 \<le> m"
    using assms by (simp_all add: schedule_ok_def i_def out_def m_def)
  define h where "h = (out - i - m * 60) / 2"
  have hh: "h + h = out - i - m * 60" by (simp add: h_def)
  have tot: "work_total r / 2 = h"
    by (simp add: work_total_def i_def out_def m_def h_def)
  have "i \<le> halfDaySplit r \<and> halfDaySplit r \<le> out \<and>
      worked r i (halfDaySplit r) = work_total r / 2 \<and>
      worked r (halfDaySplit r) out = work_total r / 2"
  proof (cases "ws_break_start r")
    case None
    then have "m = 0" using assms by (simp add: schedule_ok_def m_def)
    then have "halfDaySplit r = i + h"
      using None by (simp add: halfDaySplit_def Let_def i_def out_def m_def h_def)
    moreover have "worked r i (halfDaySplit r) = halfDaySplit r - i"
      "worked r (halfDaySplit r) out = out - halfDaySplit r"
      using None by (simp_all add: worked_def)
    ultimately show ?thesis
      using io hh \<open>m = 0\<close> unfolding tot by (intro conjI) linarith+
  next
    case (Some st)
    define b :: rat where "b = of_int (toSeconds st)"
    have b: "i \<le> b" "b + m * 60 \<le> out"
    proof -
      have "toSeconds (ws_in r) \<le> toSeconds st" "toSeconds st + ws_break_minutes r * 60 \<le> toSeconds (ws_out r)"
        using assms Some by (simp_all add: schedule_ok_def)
      then have "(of_int (toSeconds (ws_in r)) :: rat) \<le> of_int (toSeconds st)"
        "(of_int (toSeconds st + ws_break_minutes r * 60) :: rat) \<le> of_int (toSeconds (ws_out r))"
        by (simp_all only: of_int_le_iff)
      then show "i \<le> b" "b + m * 60 \<le> out" by (simp_all add: i_def b_def m_def out_def)
    qed
    have split: "halfDaySplit r =
        (if h \<le> b - i then i + h
         else i + h + m * 60)"
      using Some by (simp add: halfDaySplit_def Let_def i_def out_def m_def b_def h_def)
    have w: "worked r x y = (y - x) - max 0 (min y (b + m * 60) - max x b)" for x y
      using Some by (simp add: worked_def b_def m_def)
    show ?thesis
    proof (cases "h \<le> b - i")
      case True
      then have s: "halfDaySplit r = i + h" using split by simp
      have sb: "halfDaySplit r \<le> b" using True s by simp
      have "worked r i (halfDaySplit r) = halfDaySplit r - i"
        using sb io b by (simp add: w min_def max_def)
      moreover have "worked r (halfDaySplit r) out = out - halfDaySplit r - m * 60"
        using sb io b by (simp add: w min_def max_def)
      ultimately show ?thesis using s sb io b hh unfolding tot by (intro conjI) linarith+
    next
      case False
      then have s: "halfDaySplit r = i + h + m * 60" using split by simp
      have sb: "b + m * 60 \<le> halfDaySplit r" using False s by simp
      have "worked r i (halfDaySplit r) = halfDaySplit r - i - m * 60"
        using sb io b by (simp add: w min_def max_def)
      moreover have "worked r (halfDaySplit r) out = out - halfDaySplit r"
        using sb io b by (simp add: w min_def max_def)
      ultimately show ?thesis using s sb io b hh unfolding tot by (intro conjI) linarith+
    qed
  qed
  then show "of_int (toSeconds (ws_in r)) \<le> halfDaySplit r"
    and "halfDaySplit r \<le> of_int (toSeconds (ws_out r))"
    and "worked r (of_int (toSeconds (ws_in r))) (halfDaySplit r) = work_total r / 2"
    and "worked r (halfDaySplit r) (of_int (toSeconds (ws_out r))) = work_total r / 2"
    by (simp_all add: i_def out_def)
qed

section \<open>Outcome of the submit rules\<close>

lemma row_for_workday:
  assumes "weekdayOf d \<in> set (map ws_dow (findActiveSchedules db e))"
  shows "\<exists>r. find (\<lambda>r. ws_dow r = weekdayOf d) (findActiveSchedules db e) = Some r \<and>
    r \<in> set (ws_rows db) \<and> ws_employee r = e \<and> ws_active r \<and> ws_dow r = weekdayOf d"
proof -
  obtain q where "q \<in> set (findActiveSchedules db e)" "ws_dow q = weekdayOf d"
    using assms by auto
  then obtain r where r: "find (\<lambda>r. ws_dow r = weekdayOf d) (findActiveSchedules db e) = Some r"
    using find_Some_ex[of q _ "\<lambda>r. ws_dow r = weekdayOf d"] by blast
  then show ?thesis
    using find_Some_iff_mem[OF r] by (simp add: findActiveSchedules_set)
qed

lemma row_is_active_day:
  assumes "schedule_inv db"
    and "find (\<lambda>r. ws_dow r = w) (findActiveSchedules db e) = Some r"
  shows "findActiveForEmployeeDay db e w = Some r"
proof -
  have r: "r \<in> set (ws_rows db)" "ws_active r" "ws_key r = (e, w)"
    using find_Some_iff_mem[OF assms(2)] by (simp_all add: findActiveSchedules_set ws_key_def)
  then show ?thesis
    unfolding findActiveForEmployeeDay_eq r(3)[symmetric]
    using assms(1) by (intro schedule_index.lookup_active) (simp_all add: schedule_inv_def)
qed

lemma assertSubmittableRange_Inr:
  assumes "assertSubmittableRange today db e sd ed portion ltype = Inr sr"
  shows "sd \<le> ed" "today \<le> sd" "isWorkday db e sd" "isWorkday db e ed"
    and "portion = Full \<Longrightarrow> sr_working_days sr = of_int (countWorkingDays db e sd ed) \<and>
      sr_start_time sr = None \<and> sr_end_time sr = None"
    and "portion \<noteq> Full \<Longrightarrow> sd = ed \<and> sr_working_days sr = 1 / 2 \<and>
      (\<forall>t. ltype = Some t \<longrightarrow> t \<noteq> Birthday) \<and>
      (\<exists>r. find (\<lambda>r. ws_dow r = weekdayOf sd) (findActiveSchedules db e) = Some r \<and>
        sr_start_time sr = Some (fst (halfDayWindow r portion)) \<and>
        sr_end_time sr = Some (snd (halfDayWindow r portion)))"
proof -
  have c: "\<not> ed < sd" "\<not> sd < today" "weekdayOf sd \<in> set (activeWeekdays db e)"
    "weekdayOf ed \<in> set (activeWeekdays db e)"
    using assms by (auto simp: assertSubmittableRange_def Let_def activeWeekdays_def split: if_splits)
  then show "sd \<le> ed" "today \<le> sd" "isWorkday db e sd" "isWorkday db e ed"
    by (simp_all add: isWorkday_def not_less)
  show "portion = Full \<Longrightarrow> sr_working_days sr = of_int (countWorkingDays db e sd ed) \<and>
      sr_start_time sr = None \<and> sr_end_time sr = None"
    using assms c by (auto simp: assertSubmittableRange_def Let_def activeWeekdays_def countWorkingDays_def)
  assume p: "portion \<noteq> Full"
  obtain r where r: "find (\<lambda>r. ws_dow r = weekdayOf sd) (findActiveSchedules db e) = Some r"
    using row_for_workday[of sd db e] c(3) by (auto simp: activeWeekdays_def)
  show "sd = ed \<and> sr_working_days sr = 1 / 2 \<and> (\<forall>t. ltype = Some t \<longrightarrow> t \<noteq> Birthday) \<and>
      (\<exists>r. find (\<lambda>r. ws_dow r = weekdayOf sd) (findActiveSchedules db e) = Some r \<and>
        sr_start_time sr = Some (fst (halfDayWindow r portion)) \<and>
        sr_end_time sr = Some (snd (halfDayWindow r portion)))"
    using assms c p r
    by (auto simp: assertSubmittableRange_def Let_def activeWeekdays_def HALF_DAY_LEAVE_TYPES_def
        split: if_splits option.splits)
qed

text \<open>The case marked non-null in the source is indeed unreachable.\<close>

lemma assertSubmittableRange_no_crash:
  "assertSubmittableRange today db e sd ed portion ltype \<noteq> Inl PlainError"
proof
  assume "assertSubmittableRange today db e sd ed portion ltype = Inl PlainError"
  then have "weekdayOf sd \<in> set (map ws_dow (findActiveSchedules db e))"
      "find (\<lambda>r. ws_dow r = weekdayOf sd) (findActiveSchedules db e) = None"
    by (auto simp: assertSubmittableRange_def Let_def unprocessable_def split: if_splits option.splits)
  then show False using row_for_workday[of sd db e] by auto
qed

section \<open>Properties\<close>

text \<open>C31: The working days of a range are the number of its calendar dates whose weekday the employee
  is actively scheduled to work: the millisecond loop counts every date of the inclusive range once.\<close>

theorem countWorkingDays_counts_dates:
  "countWorkingDays db e sd ed =
     int (length (filter (isWorkday db e) (datesInRange sd ed)))"
  unfolding countWorkingDays_def countAgainst_eq isWorkday_def ..

text \<open>C32: A range the submit rules accept starts and ends on working days, not in the past and in
  order; a full request charges between one day and the length of the range, a partial one exactly half
  a day, covers a single day and is not of a whole-day-only type.\<close>

theorem submittable_range_sound:
  assumes "assertSubmittableRange today db e sd ed portion ltype = Inr sr"
    and "valid_date sd" "valid_date ed"
  shows "today \<le> sd \<and> sd \<le> ed \<and> isWorkday db e sd \<and> isWorkday db e ed \<and>
    (if portion = Full
     then 1 \<le> sr_working_days sr \<and> sr_working_days sr \<le> of_nat (length (datesInRange sd ed))
     else sd = ed \<and> sr_working_days sr = 1 / 2 \<and> ltype \<noteq> Some Birthday)"
proof (cases "portion = Full")
  case True
  note f = assertSubmittableRange_Inr[OF assms(1)]
  have "1 \<le> countWorkingDays db e sd ed"
    using f(1,3) assms(2,3) countAgainst_pos by (simp add: countWorkingDays_def isWorkday_def)
  moreover have "countWorkingDays db e sd ed \<le> int (length (datesInRange sd ed))"
    by (simp add: countWorkingDays_def countAgainst_bounds)
  ultimately have "1 \<le> sr_working_days sr" "sr_working_days sr \<le> of_int (int (length (datesInRange sd ed)))"
    using f(5)[OF True] by (simp_all only: of_int_le_iff of_int_1_le_iff)
  then show ?thesis using f(1-4) True by simp
next
  case False
  then show ?thesis using assertSubmittableRange_Inr[OF assms(1)] by auto
qed

theorem submittable_range_sound_witness:
  "\<exists>sr. assertSubmittableRange (Date 2026 7 1) sample_schedules 5 (Date 2026 7 6) (Date 2026 7 13) Full None = Inr sr
     \<and> 1 \<le> sr_working_days sr"
proof -
  let ?r = "assertSubmittableRange (Date 2026 7 1) sample_schedules 5 (Date 2026 7 6) (Date 2026 7 13) Full None"
  have "okR ?r" by code_simp
  then obtain sr where "?r = Inr sr" by (cases ?r) auto
  moreover from submittable_range_sound[OF this] have "1 \<le> sr_working_days sr"
    by (simp add: valid_date_def days_in_month_def before_month_def)
  ultimately show ?thesis by blast
qed

text \<open>The two half-day windows of a scheduled day meet at one instant inside the shift, cover the
  shift, and each contains exactly half of the day's work time, wherever the unpaid break lies.\<close>

theorem half_day_windows_fair:
  assumes "schedule_inv db" "findActiveForEmployeeDay db e d = Some r"
  shows "halfDayWindow r First_half = (ws_in r, toClock (halfDaySplit r)) \<and>
    halfDayWindow r Second_half = (toClock (halfDaySplit r), ws_out r) \<and>
    of_int (toSeconds (ws_in r)) \<le> halfDaySplit r \<and> halfDaySplit r \<le> of_int (toSeconds (ws_out r)) \<and>
    worked r (of_int (toSeconds (ws_in r))) (halfDaySplit r) = work_total r / 2 \<and>
    worked r (halfDaySplit r) (of_int (toSeconds (ws_out r))) = work_total r / 2"
proof -
  have ok: "schedule_ok r" using schedules.sound[OF assms] by blast
  have "toClock (of_int (toSeconds c)) = c" if "has_seconds c" for c
    using that toClock_toSeconds[of c] by (cases c) (auto simp: has_seconds_def)
  then show ?thesis
    using ok half_day_fair[OF ok] by (simp add: halfDayWindow_def schedule_ok_def)
qed

theorem half_day_windows_fair_witness:
  "halfDaySplit (sample_schedule 2 1 None) = of_int (14 * 3600) \<and>
   worked (sample_schedule 2 1 None) (of_int (14 * 3600)) (of_int (18 * 3600)) =
     work_total (sample_schedule 2 1 None) / 2"
proof -
  have "findActiveForEmployeeDay sample_schedules 5 1 = Some (sample_schedule 2 1 None)"
    by (simp add: findActiveForEmployeeDay_def sample_schedules_def sample_schedule_def ws_live_def)
  note p = half_day_windows_fair[OF sample_schedules_inv this]
  have "halfDaySplit (sample_schedule 2 1 None) = of_int (14 * 3600)"
    by (simp add: halfDaySplit_def sample_schedule_def toSeconds_def Let_def)
  with p show ?thesis by (simp add: sample_schedule_def toSeconds_def)
qed

text \<open>The schedule row that applies to a date.\<close>

definition in_effect :: "schedule_db \<Rightarrow> int \<Rightarrow> date \<Rightarrow> schedule \<Rightarrow> bool" where
  "in_effect db e d r \<longleftrightarrow>
     r \<in> set (ws_rows db) \<and> ws_live r \<and> ws_employee r = e \<and> ws_dow r = weekdayOf d \<and> ws_from r \<le> d \<and>
     (case ws_to r of None \<Rightarrow> True | Some t \<Rightarrow> d \<le> t)"

text \<open>The active weekday set is not the schedule in effect on future dates: once an admin ends a
  weekday's schedule at a later date, every leave request starting on that weekday before the end
  date is refused as not a working day, although the ended row is the one in effect on that date.\<close>

theorem ended_schedule_blocks_leave:
  assumes "schedule_inv db" "findScheduleById db i = Some r"
    and "endScheduleLogically i t actor db = (db', Inr s)"
    and "weekdayOf sd = ws_dow r" "ws_from r \<le> sd" "sd \<le> t" "today \<le> sd" "sd \<le> ed"
  shows "(\<exists>q. in_effect db' (ws_employee r) sd q) \<and>
    assertSubmittableRange today db' (ws_employee r) sd ed portion ltype = Inl (unprocessable ''start_date'')"
proof (cases rule: endScheduleLogically_cases[of i t actor db])
  case (ended r' d' s')
  then have r': "r' = r" and d': "db' = publish_ws (WorkScheduleEnded (ws_id r) (ws_employee r) t) d'"
    using assms(2,3) by simp_all
  have r: "r \<in> set (ws_rows db)" "ws_id r = i" "ws_live r"
    using findScheduleById_Some[OF assms(2)] by simp_all
  let ?s = "ws_stored (ws_patched (end_patch t actor) r)"
  have s: "ws_to ?s = Some t" "ws_live ?s" "ws_employee ?s = ws_employee r" "ws_dow ?s = ws_dow r"
    "ws_from ?s = ws_from r" "ws_id ?s = i"
    using r by (simp_all add: ws_stored_def ws_patched_def end_patch_def no_patch_def ws_live_def)
  have rows: "ws_rows db' = update_where (\<lambda>q. ws_id q = i) (\<lambda>_. ?s) (ws_rows db)"
    using ended(3) assms(2) r(2)
    by (auto simp: d' publish_ws_def ws_update_def bindR_eq_Inr ws_save_def ws_patched_def end_patch_def
        no_patch_def split: if_splits)
  have "?s \<in> set (ws_rows db')"
    using r by (auto simp: rows table_simps)
  then have "in_effect db' (ws_employee r) sd ?s"
    using s assms(4-6) by (simp add: in_effect_def)
  moreover have "weekdayOf sd \<notin> set (map ws_dow (findActiveSchedules db' (ws_employee r)))"
  proof
    assume "weekdayOf sd \<in> set (map ws_dow (findActiveSchedules db' (ws_employee r)))"
    then obtain q where "q \<in> set (ws_rows db')" "ws_active q" "ws_employee q = ws_employee r" "ws_dow q = ws_dow r"
      using assms(4) by (auto simp: findActiveSchedules_set)
    moreover from this have "q \<in> set (ws_rows db)" "ws_id q \<noteq> i"
      using s(1) by (auto simp: rows table_simps ws_active_def split: if_splits)
    moreover have "ws_active r" using ended(2) r r' by (simp add: ws_active_def)
    ultimately have "q = r"
      using assms(1) r(1) unique_active_inj[of ws_active ws_key "ws_rows db" q r]
      by (simp add: schedule_inv_def ws_key_def)
    then show False using \<open>ws_id q \<noteq> i\<close> r(2) by simp
  qed
  moreover have "\<not> ed < sd" "\<not> sd < today" using assms(7,8) by simp_all
  ultimately show ?thesis by (auto simp: assertSubmittableRange_def Let_def)
qed (use assms(3) in simp)

theorem ended_schedule_blocks_leave_witness:
  "assertSubmittableRange (Date 2026 7 1)
     (fst (endScheduleLogically 2 (Date 2026 12 31) None sample_schedules)) 5 (Date 2026 7 6) (Date 2026 7 6)
     Full (Some Vacation) = Inl (unprocessable ''start_date'')"
proof -
  let ?e = "endScheduleLogically 2 (Date 2026 12 31) None sample_schedules"
  have "okR (snd ?e)" by code_simp
  then obtain db' s where e: "?e = (db', Inr s)" by (cases ?e; cases "snd ?e") auto
  have f: "findScheduleById sample_schedules 2 = Some (sample_schedule 2 1 None)"
    by (simp add: findScheduleById_def sample_schedules_def sample_schedule_def ws_live_def)
  have "weekdayOf (Date 2026 7 6) = ws_dow (sample_schedule 2 1 None)" by code_simp
  from ended_schedule_blocks_leave[OF sample_schedules_inv f e this, of "Date 2026 7 1" "Date 2026 7 6" Full "Some Vacation"]
  show ?thesis by (simp add: e sample_schedule_def less_eq_date_def)
qed

end
