(* ===== verification/LeaveAggregate.thy ===== *)
theory LeaveAggregate
  imports TwoStep LeaveDayCount
begin

text \<open>
  The leave-request aggregate (\<open>src/src/leave-requests/domain/leave-request.aggregate.ts\<close>) with its
  value objects.  The record is the persisted row; the aggregate's behaviour methods are functions from
  a record to the changed record and the event it buffers, or to the domain error thrown.  The
  instant \<open>new Date()\<close> is an argument.
\<close>

section \<open>The record\<close>

record leave =
  lr_id :: int
  lr_employee :: int
  lr_type :: leave_type
  lr_start :: date
  lr_end :: date
  lr_days :: rat
  lr_portion :: day_portion
  lr_start_time :: "clock option"
  lr_end_time :: "clock option"
  lr_reason :: "string option"
  lr_status :: request_status
  lr_submitted_at :: int
  lr_decided_at :: "int option"
  lr_decided_by :: "int option"
  lr_decision_note :: "string option"
  lr_decision_path :: "decision_path option"
  lr_cancelled_at :: "int option"
  lr_cancelled_by :: "int option"
  lr_l1 :: int
  lr_l2 :: "int option"
  lr_attachment :: "int option"
  lr_created_by :: "int option"
  lr_updated_by :: "int option"
  lr_deleted_at :: "int option"

datatype leave_event =
    LeaveRequestSubmitted int int int
  | LeaveRequestApproved int int int decision_path
  | LeaveRequestAdvancedToL2 int int int
  | LeaveRequestRejected int int int
  | LeaveRequestCancelled int int int

datatype leave_error =
    LeaveStatusError
  | NotCurrentApproverError
  | RejectionNoteRequiredError
  | NotAllowedToCancelError
  | AttachmentContractError

section \<open>Value objects and reconstitution\<close>

definition mkLeaveDuration :: "rat \<Rightarrow> http_error + rat" where
  "mkLeaveDuration days =
     (if days < 0 then Inl PlainError
      else if of_int \<lfloor>days * 2\<rfloor> \<noteq> days * 2 then Inl PlainError
      else Inr days)"

definition mkHalfDayWindow :: "day_portion \<Rightarrow> clock option \<Rightarrow> clock option \<Rightarrow> http_error + unit" where
  "mkHalfDayWindow portion s e =
     (if portion = Full then (if s \<noteq> None \<or> e \<noteq> None then Inl PlainError else Inr ())
      else (case (s, e) of
              (Some a, Some b) \<Rightarrow> if \<not> clock_less a b then Inl PlainError else Inr ()
            | _ \<Rightarrow> Inl PlainError))"

definition reconstitute_leave :: "leave \<Rightarrow> http_error + leave" where
  "reconstitute_leave r =
     bindR (mkDateRange (lr_start r) (lr_end r)) (\<lambda>_.
     bindR (mkLeaveDuration (lr_days r)) (\<lambda>_.
     bindR (mkHalfDayWindow (lr_portion r) (lr_start_time r) (lr_end_time r)) (\<lambda>_. Inr r)))"

section \<open>Behaviour\<close>

definition currentStepApproverId :: "leave \<Rightarrow> int option" where
  "currentStepApproverId r =
     (if lr_status r = Pending_l1 then Some (lr_l1 r)
      else if lr_status r = Pending_l2 then lr_l2 r
      else None)"

definition isActionableBy :: "leave \<Rightarrow> actor \<Rightarrow> bool" where
  "isActionableBy r a =
     (if act_system_admin a then True
      else if act_can_approve_any a then True
      else if \<not> act_can_approve a then False
      else if lr_status r = Pending_l1 then act_user_id a = lr_l1 r
      else if lr_status r = Pending_l2 then Some (act_user_id a) = lr_l2 r
      else False)"

definition isOverride :: "actor \<Rightarrow> bool" where
  "isOverride a \<longleftrightarrow> act_system_admin a \<or> act_can_approve_any a"

definition nextStatusAfterApproval :: "leave \<Rightarrow> bool \<Rightarrow> request_status" where
  "nextStatusAfterApproval r override =
     (if override then Approved
      else if lr_status r = Pending_l1 \<and> lr_l2 r \<noteq> None then Pending_l2 else Approved)"

definition assertPending :: "leave \<Rightarrow> leave_error + unit" where
  "assertPending r = guardR (status_pending (lr_status r)) LeaveStatusError"

definition assertCurrentApprover :: "leave \<Rightarrow> actor \<Rightarrow> leave_error + unit" where
  "assertCurrentApprover r a = guardR (isActionableBy r a) NotCurrentApproverError"

definition assertApprovable :: "leave \<Rightarrow> actor \<Rightarrow> leave_error + unit" where
  "assertApprovable r a = bindR (assertPending r) (\<lambda>_. assertCurrentApprover r a)"

definition path_of :: "actor \<Rightarrow> decision_path" where
  "path_of a = (if isOverride a then Override else Chain)"

definition applyApproval :: "int \<Rightarrow> leave \<Rightarrow> actor \<Rightarrow> leave \<times> leave_event" where
  "applyApproval now r a =
     (let nxt = nextStatusAfterApproval r (isOverride a);
          r' = r\<lparr>lr_status := nxt, lr_decided_at := Some now, lr_decided_by := Some (act_user_id a),
                 lr_decision_path := Some (path_of a)\<rparr>
      in (r', if nxt = Pending_l2
              then LeaveRequestAdvancedToL2 (lr_id r) (lr_employee r) (the (lr_l2 r))
              else LeaveRequestApproved (lr_id r) (lr_employee r) (act_user_id a) (path_of a)))"

definition rejectLeave :: "int \<Rightarrow> leave \<Rightarrow> actor \<Rightarrow> string \<Rightarrow> leave_error + (leave \<times> leave_event)" where
  "rejectLeave now r a note =
     (if note = [] \<or> length (trim note) = 0 then Inl RejectionNoteRequiredError
      else bindR (assertPending r) (\<lambda>_.
           bindR (assertCurrentApprover r a) (\<lambda>_.
             Inr (r\<lparr>lr_status := Rejected, lr_decided_at := Some now,
                    lr_decided_by := Some (act_user_id a), lr_decision_note := Some note,
                    lr_decision_path := Some (path_of a)\<rparr>,
                  LeaveRequestRejected (lr_id r) (lr_employee r) (act_user_id a)))))"

definition cancelLeave :: "int \<Rightarrow> date \<Rightarrow> leave \<Rightarrow> actor \<Rightarrow> leave_error + (leave \<times> leave_event)" where
  "cancelLeave now today r a =
     (if \<not> status_active (lr_status r) then Inl LeaveStatusError
      else if endsBefore \<lparr>dr_start = lr_start r, dr_end = lr_end r\<rparr> today then Inl LeaveStatusError
      else if act_user_id a \<noteq> lr_employee r \<and> \<not> (act_system_admin a \<or> act_can_delete a)
      then Inl NotAllowedToCancelError
      else Inr (r\<lparr>lr_status := Cancelled, lr_cancelled_at := Some now,
                  lr_cancelled_by := Some (act_user_id a)\<rparr>,
                LeaveRequestCancelled (lr_id r) (lr_employee r) (act_user_id a)))"

definition normalizePortion :: "day_portion option \<Rightarrow> day_portion" where
  "normalizePortion p = (case p of None \<Rightarrow> Full | Some x \<Rightarrow> x)"

definition assertAttachmentContract :: "leave_type \<Rightarrow> bool \<Rightarrow> leave_error + unit" where
  "assertAttachmentContract t has =
     (let requires = t \<in> set ATTACHMENT_REQUIRED_LEAVE_TYPES
      in if requires \<and> \<not> has then Inl AttachmentContractError
         else if \<not> requires \<and> has then Inl AttachmentContractError
         else Inr ())"

text \<open>The translation of the aggregate's errors at the service boundary.\<close>

definition rethrowLeaveDomainError :: "leave_error \<Rightarrow> http_error" where
  "rethrowLeaveDomainError er =
     (case er of
        LeaveStatusError \<Rightarrow> conflict ''status''
      | NotCurrentApproverError \<Rightarrow> forbidden ''approver''
      | RejectionNoteRequiredError \<Rightarrow> unprocessable ''decision_note''
      | NotAllowedToCancelError \<Rightarrow> ForbiddenPlain
      | AttachmentContractError \<Rightarrow> unprocessable ''attachment'')"

definition domainR :: "leave_error + 'a \<Rightarrow> http_error + 'a" where
  "domainR r = (case r of Inl er \<Rightarrow> Inl (rethrowLeaveDomainError er) | Inr x \<Rightarrow> Inr x)"

section \<open>The state machine\<close>

definition approve_leave :: "int \<Rightarrow> actor \<Rightarrow> leave \<Rightarrow> leave option" where
  "approve_leave now a r =
     (case assertApprovable r a of Inl _ \<Rightarrow> None | Inr _ \<Rightarrow> Some (fst (applyApproval now r a)))"

definition reject_leave :: "int \<Rightarrow> actor \<Rightarrow> string \<Rightarrow> leave \<Rightarrow> leave option" where
  "reject_leave now a note r =
     (case rejectLeave now r a note of Inl _ \<Rightarrow> None | Inr (r', _) \<Rightarrow> Some r')"

definition cancel_leave :: "int \<Rightarrow> date \<Rightarrow> actor \<Rightarrow> leave \<Rightarrow> leave option" where
  "cancel_leave now today a r =
     (case cancelLeave now today r a of Inl _ \<Rightarrow> None | Inr (r', _) \<Rightarrow> Some r')"

lemma isActionableBy_may_decide:
  "isActionableBy r a \<longleftrightarrow> may_decide a (lr_status r) (lr_l1 r) (lr_l2 r)"
  by (auto simp: isActionableBy_def may_decide_def overrides_def)

lemma isOverride_overrides [simp]: "isOverride a = overrides a"
  by (simp add: isOverride_def overrides_def)

lemma nextStatus_approved_status:
  "nextStatusAfterApproval r o' = approved_status o' (lr_status r) (lr_l2 r)"
  by (simp add: nextStatusAfterApproval_def approved_status_def)

lemma assertApprovable_iff:
  "assertApprovable r a = Inr u \<longleftrightarrow> status_pending (lr_status r) \<and> isActionableBy r a"
  by (auto simp: assertApprovable_def assertPending_def assertCurrentApprover_def bindR_eq_Inr)

lemma applyApproval_fields [simp]:
  "lr_id (fst (applyApproval now r a)) = lr_id r"
  "lr_employee (fst (applyApproval now r a)) = lr_employee r"
  "lr_l1 (fst (applyApproval now r a)) = lr_l1 r" "lr_l2 (fst (applyApproval now r a)) = lr_l2 r"
  "lr_status (fst (applyApproval now r a)) = approved_status (overrides a) (lr_status r) (lr_l2 r)"
  by (simp_all add: applyApproval_def Let_def nextStatus_approved_status)

interpretation leave_machine: two_step_approval lr_status lr_l1 lr_l2
  "approve_leave now" "reject_leave now" "cancel_leave now" for now
proof unfold_locales
  fix a :: actor and r r' :: leave and why :: string and d :: date
  show "approve_leave now a r = Some r' \<Longrightarrow>
      status_pending (lr_status r) \<and> may_decide a (lr_status r) (lr_l1 r) (lr_l2 r) \<and>
      lr_status r' = approved_status (overrides a) (lr_status r) (lr_l2 r) \<and> lr_l1 r' = lr_l1 r \<and> lr_l2 r' = lr_l2 r"
    by (auto simp: approve_leave_def assertApprovable_iff isActionableBy_may_decide split: sum.splits)
  show "reject_leave now a why r = Some r' \<Longrightarrow>
      status_pending (lr_status r) \<and> may_decide a (lr_status r) (lr_l1 r) (lr_l2 r) \<and>
      lr_status r' = Rejected \<and> lr_l1 r' = lr_l1 r \<and> lr_l2 r' = lr_l2 r"
    by (auto simp: reject_leave_def rejectLeave_def assertPending_def assertCurrentApprover_def
        isActionableBy_may_decide bindR_eq_Inr split: sum.splits if_splits)
  show "cancel_leave now d a r = Some r' \<Longrightarrow>
      status_active (lr_status r) \<and> lr_status r' = Cancelled \<and> lr_l1 r' = lr_l1 r \<and> lr_l2 r' = lr_l2 r"
    by (auto simp: cancel_leave_def cancelLeave_def split: sum.splits if_splits)
qed

end
