(* ===== verification/Storage.thy ===== *)
theory Storage
  imports Prelude "HOL-Library.Word"
begin

unbundle bit_operations_syntax

text \<open>
  Uploads and the object store (\<open>src/src/storage\<close>, \<open>src/src/utils/helpers/content-disposition.ts\<close>).

  Bytes are 8-bit words.  The store is a partial map from object keys to bytes and content type.
  What lies outside the repository is a parameter (\<open>storage_env\<close>): whether S3 accepts a write or a
  delete of a key, and the renditions sharp derives from an image, \<open>None\<close> where it throws.  The
  fresh UUID of an upload is an argument.
\<close>

section \<open>Sniffing\<close>

type_synonym bytes = "8 word list"

datatype file_kind = Image | Pdf

record sniffed =
  sn_kind :: file_kind
  sn_mime :: string
  sn_ext :: string

definition byte_at :: "bytes \<Rightarrow> nat \<Rightarrow> 8 word" where
  "byte_at b i = (if i < length b then b ! i else 0)"

definition png_signature :: bytes where
  "png_signature = [0x89, 0x50, 0x4e, 0x47, 0x0d, 0x0a, 0x1a, 0x0a]"

text \<open>\<open>buffer.toString('ascii', a, b)\<close>: Node clears the highest bit of every byte.\<close>

definition ascii :: "bytes \<Rightarrow> nat \<Rightarrow> nat \<Rightarrow> string" where
  "ascii b from til = map (\<lambda>x. char_of (unat (x AND 0x7F))) (take (til - from) (drop from b))"

definition sniff :: "bytes \<Rightarrow> sniffed option" where
  "sniff b =
     (if 3 \<le> length b \<and> byte_at b 0 = 0xff \<and> byte_at b 1 = 0xd8 \<and> byte_at b 2 = 0xff
      then Some \<lparr>sn_kind = Image, sn_mime = ''image/jpeg'', sn_ext = ''jpg''\<rparr>
      else if 8 \<le> length b \<and> list_all (\<lambda>(i, x). byte_at b i = x) (zip [0..<8] png_signature)
      then Some \<lparr>sn_kind = Image, sn_mime = ''image/png'', sn_ext = ''png''\<rparr>
      else if 12 \<le> length b \<and> ascii b 0 4 = ''RIFF'' \<and> ascii b 8 12 = ''WEBP''
      then Some \<lparr>sn_kind = Image, sn_mime = ''image/webp'', sn_ext = ''webp''\<rparr>
      else if 5 \<le> length b \<and> ascii b 0 5 = ''%PDF-''
      then Some \<lparr>sn_kind = Pdf, sn_mime = ''application/pdf'', sn_ext = ''pdf''\<rparr>
      else None)"

definition validateUpload :: "bytes \<Rightarrow> nat \<Rightarrow> http_error + sniffed" where
  "validateUpload b maxFileMb =
     (if length b = 0 then Inl (unprocessable ''file'')
      else if maxFileMb * 1024 * 1024 < length b then Inl (unprocessable ''file'')
      else case sniff b of None \<Rightarrow> Inl (unprocessable ''file'') | Some s \<Rightarrow> Inr s)"

section \<open>The object store\<close>

type_synonym object_store = "string \<Rightarrow> (bytes \<times> string) option"

record storage_env =
  put_ok :: "string \<Rightarrow> bool"
  delete_ok :: "string \<Rightarrow> bool"
  derive :: "bytes \<Rightarrow> (bytes \<times> bytes) option"
  max_file_mb :: nat

definition store_put ::
  "storage_env \<Rightarrow> string \<Rightarrow> bytes \<Rightarrow> string \<Rightarrow> object_store \<Rightarrow> object_store \<times> (http_error + unit)" where
  "store_put env key body mime os =
     (if put_ok env key then (os(key \<mapsto> (body, mime)), Inr ()) else (os, Inl PlainError))"

definition store_delete :: "storage_env \<Rightarrow> string \<Rightarrow> object_store \<Rightarrow> object_store" where
  "store_delete env key os = (if delete_ok env key then os(key := None) else os)"

record prepared =
  pa_prefix :: string
  pa_filename :: string
  pa_mime :: string
  pa_size :: nat
  pa_kind :: file_kind
  pa_has_versions :: bool
  pa_owner :: int
  pa_created_by :: int
  pa_keys :: "string list"

definition LEAVE_ATTACHMENT_PREFIX :: string where
  "LEAVE_ATTACHMENT_PREFIX = ''leave-attachments''"

definition object_prefix :: "string \<Rightarrow> string" where
  "object_prefix uuid = LEAVE_ATTACHMENT_PREFIX @ ''/'' @ uuid"

text \<open>\<open>uploadForOwner\<close>: each failing write or rendition throws, leaving what was written before.\<close>

definition uploadForOwner ::
  "storage_env \<Rightarrow> string \<Rightarrow> bytes \<Rightarrow> string \<Rightarrow> int \<Rightarrow> int \<Rightarrow> object_store
     \<Rightarrow> object_store \<times> (http_error + prepared)" where
  "uploadForOwner env uuid buffer name owner actor os =
     (case validateUpload buffer (max_file_mb env) of
        Inl er \<Rightarrow> (os, Inl er)
      | Inr sn \<Rightarrow>
          (let prefix = object_prefix uuid;
               originalKey = prefix @ ''/original.'' @ sn_ext sn;
               result = \<lparr>pa_prefix = prefix, pa_filename = name, pa_mime = sn_mime sn,
                         pa_size = length buffer, pa_kind = sn_kind sn, pa_has_versions = False,
                         pa_owner = owner, pa_created_by = actor, pa_keys = [originalKey]\<rparr>
           in case store_put env originalKey buffer (sn_mime sn) os of
                (os1, Inl er) \<Rightarrow> (os1, Inl er)
              | (os1, Inr _) \<Rightarrow>
                  if sn_kind sn = Image
                  then (case derive env buffer of
                          None \<Rightarrow> (os1, Inl PlainError)
                        | Some (preview, thumbnail) \<Rightarrow>
                            (let previewKey = prefix @ ''/preview.webp'';
                                 thumbnailKey = prefix @ ''/thumbnail.webp''
                             in case store_put env previewKey preview ''image/webp'' os1 of
                                  (os2, Inl er) \<Rightarrow> (os2, Inl er)
                                | (os2, Inr _) \<Rightarrow>
                                    (case store_put env thumbnailKey thumbnail ''image/webp'' os2 of
                                       (os3, Inl er) \<Rightarrow> (os3, Inl er)
                                     | (os3, Inr _) \<Rightarrow>
                                         (os3, Inr (result\<lparr>pa_has_versions := True,
                                                  pa_keys := [originalKey, previewKey, thumbnailKey]\<rparr>)))))
                  else (os1, Inr result)))"

fun delete_all :: "storage_env \<Rightarrow> string list \<Rightarrow> object_store \<Rightarrow> object_store" where
  "delete_all env [] os = os"
| "delete_all env (k # ks) os = delete_all env ks (store_delete env k os)"

definition cleanup :: "storage_env \<Rightarrow> prepared \<Rightarrow> object_store \<Rightarrow> object_store" where
  "cleanup env p os = delete_all env (pa_keys p) os"

section \<open>Attachment rows\<close>

record attachment =
  at_id :: int
  at_prefix :: string
  at_filename :: string
  at_mime :: string
  at_size :: nat
  at_kind :: file_kind
  at_has_versions :: bool
  at_owner :: int
  at_created_by :: "int option"
  at_deleted_at :: "int option"

datatype file_version = Original | Preview | Thumbnail

definition version_name :: "file_version \<Rightarrow> string" where
  "version_name v = (case v of Original \<Rightarrow> ''original'' | Preview \<Rightarrow> ''preview'' | Thumbnail \<Rightarrow> ''thumbnail'')"

definition persist_attachment :: "int \<Rightarrow> prepared \<Rightarrow> attachment" where
  "persist_attachment i p =
     \<lparr>at_id = i, at_prefix = pa_prefix p, at_filename = pa_filename p, at_mime = pa_mime p,
      at_size = pa_size p, at_kind = pa_kind p, at_has_versions = pa_has_versions p,
      at_owner = pa_owner p, at_created_by = Some (pa_created_by p), at_deleted_at = None\<rparr>"

definition ext_by_mime :: "string \<Rightarrow> string" where
  "ext_by_mime m =
     (if m = ''image/jpeg'' then ''jpg'' else if m = ''image/png'' then ''png''
      else if m = ''image/webp'' then ''webp'' else if m = ''application/pdf'' then ''pdf''
      else ''bin'')"

definition objectKeyFor :: "attachment \<Rightarrow> file_version \<Rightarrow> string" where
  "objectKeyFor a v =
     (if v = Original then at_prefix a @ ''/original.'' @ ext_by_mime (at_mime a)
      else at_prefix a @ ''/'' @ version_name v @ ''.webp'')"

text \<open>\<open>storage.getStream\<close>: a missing object is a 404.\<close>

definition openVersion :: "object_store \<Rightarrow> attachment \<Rightarrow> file_version \<Rightarrow> http_error + bytes" where
  "openVersion os a v =
     (case os (objectKeyFor a v) of None \<Rightarrow> Inl NotFoundPlain | Some (body, _) \<Rightarrow> Inr body)"

section \<open>Content-Disposition\<close>

definition printable :: "char \<Rightarrow> bool" where
  "printable c \<longleftrightarrow> 32 \<le> (of_char c :: nat) \<and> (of_char c :: nat) \<le> 126"

definition header_unsafe :: "char \<Rightarrow> bool" where
  "header_unsafe c \<longleftrightarrow> (of_char c :: nat) \<in> {13, 10, 34, 92}"

text \<open>The quoted ASCII fallback of \<open>contentDisposition\<close>, on names of single-unit characters.\<close>

definition asciiFallback :: "string \<Rightarrow> string" where
  "asciiFallback name =
     (let kept = filter (\<lambda>c. \<not> header_unsafe c) name;
          clean = trim (map (\<lambda>c. if printable c then c else CHR ''_'') kept)
      in if clean = [] then ''download'' else clean)"

section \<open>Lemmas on the store\<close>

lemma store_put_cases:
  "store_put env k b m os = (os', r) \<Longrightarrow>
     (put_ok env k \<and> os' = os(k \<mapsto> (b, m)) \<and> r = Inr ()) \<or> (\<not> put_ok env k \<and> os' = os \<and> r = Inl PlainError)"
  by (auto simp: store_put_def split: if_splits)

lemma delete_all_eq:
  assumes "\<forall>k \<in> set ks. delete_ok env k"
  shows "delete_all env ks os = (\<lambda>k. if k \<in> set ks then None else os k)"
  using assms by (induction ks arbitrary: os) (auto simp: store_delete_def fun_eq_iff)

lemma delete_all_other: "k \<notin> set ks \<Longrightarrow> delete_all env ks os k = os k"
  by (induction ks arbitrary: os) (auto simp: store_delete_def)

lemma sniff_cases:
  assumes "sniff b = Some sn"
  shows "(sn_kind sn, sn_mime sn, sn_ext sn) \<in>
    {(Image, ''image/jpeg'', ''jpg''), (Image, ''image/png'', ''png''), (Image, ''image/webp'', ''webp''),
     (Pdf, ''application/pdf'', ''pdf'')}"
proof -
  have "sn \<in> {x, y, z, w}"
    if "(if p then Some x else if q then Some y else if r then Some z else if s then Some w else None) = Some sn"
    for p q r s x y z w
    using that by (auto split: if_splits)
  from this[OF assms[unfolded sniff_def]] show ?thesis by auto
qed

lemma sniff_ext: "sniff b = Some sn \<Longrightarrow> ext_by_mime (sn_mime sn) = sn_ext sn"
  using sniff_cases[of b sn] by (auto simp: ext_by_mime_def)

lemma sniff_kind_iff: "sniff b = Some sn \<Longrightarrow> sn_kind sn = Pdf \<longleftrightarrow> sn_mime sn = ''application/pdf''"
  using sniff_cases[of b sn] by auto

lemma validateUpload_iff:
  "validateUpload b m = Inr sn \<longleftrightarrow> b \<noteq> [] \<and> length b \<le> m * 1024 * 1024 \<and> sniff b = Some sn"
  by (auto simp: validateUpload_def split: option.splits)

text \<open>The versions an attachment row promises.\<close>

definition versions_of :: "attachment \<Rightarrow> file_version list" where
  "versions_of a = (if at_has_versions a then [Original, Preview, Thumbnail] else [Original])"

definition original_key :: "string \<Rightarrow> sniffed \<Rightarrow> string" where
  "original_key uuid sn = object_prefix uuid @ ''/original.'' @ sn_ext sn"

definition preview_key :: "string \<Rightarrow> string" where
  "preview_key uuid = object_prefix uuid @ ''/preview.webp''"

definition thumbnail_key :: "string \<Rightarrow> string" where
  "thumbnail_key uuid = object_prefix uuid @ ''/thumbnail.webp''"

text \<open>The store and the handle a successful upload leaves.\<close>

definition uploaded_store :: "string \<Rightarrow> sniffed \<Rightarrow> bytes \<Rightarrow> bytes \<Rightarrow> bytes \<Rightarrow> object_store \<Rightarrow> object_store" where
  "uploaded_store uuid sn b pre thu os =
     (if sn_kind sn = Image
      then os(original_key uuid sn \<mapsto> (b, sn_mime sn), preview_key uuid \<mapsto> (pre, ''image/webp''),
              thumbnail_key uuid \<mapsto> (thu, ''image/webp''))
      else os(original_key uuid sn \<mapsto> (b, sn_mime sn)))"

definition upload_keys :: "string \<Rightarrow> sniffed \<Rightarrow> string list" where
  "upload_keys uuid sn =
     (if sn_kind sn = Image then [original_key uuid sn, preview_key uuid, thumbnail_key uuid]
      else [original_key uuid sn])"

lemma upload_success:
  assumes "uploadForOwner env uuid b name owner actor os = (os', Inr p)"
  shows "\<exists>sn pre thu. validateUpload b (max_file_mb env) = Inr sn \<and>
    (sn_kind sn = Image \<longrightarrow> derive env b = Some (pre, thu)) \<and>
    os' = uploaded_store uuid sn b pre thu os \<and>
    p = \<lparr>pa_prefix = object_prefix uuid, pa_filename = name, pa_mime = sn_mime sn,
         pa_size = length b, pa_kind = sn_kind sn, pa_has_versions = (sn_kind sn = Image),
         pa_owner = owner, pa_created_by = actor, pa_keys = upload_keys uuid sn\<rparr>"
proof -
  obtain sn where sn: "validateUpload b (max_file_mb env) = Inr sn"
    using assms by (auto simp: uploadForOwner_def split: sum.splits)
  show ?thesis
  proof (cases "sn_kind sn = Image")
    case True
    note eqs = assms[unfolded uploadForOwner_def sn sum.case Let_def store_put_def]
    obtain pre thu where d: "derive env b = Some (pre, thu)"
      using eqs True by (auto split: if_splits option.splits)
    have "os' = uploaded_store uuid sn b pre thu os \<and>
      p = \<lparr>pa_prefix = object_prefix uuid, pa_filename = name, pa_mime = sn_mime sn,
         pa_size = length b, pa_kind = sn_kind sn, pa_has_versions = (sn_kind sn = Image),
         pa_owner = owner, pa_created_by = actor, pa_keys = upload_keys uuid sn\<rparr>"
      using eqs True d
      by (auto simp: uploaded_store_def upload_keys_def original_key_def preview_key_def thumbnail_key_def
          split: if_splits)
    then show ?thesis using sn d by blast
  next
    case False
    then show ?thesis
      using assms sn by (intro exI[of _ sn])
        (auto simp: uploadForOwner_def Let_def store_put_def uploaded_store_def upload_keys_def
          original_key_def split: if_splits)
  qed
qed

lemma keys_distinct:
  "original_key uuid sn \<noteq> preview_key uuid" "original_key uuid sn \<noteq> thumbnail_key uuid"
  "preview_key uuid \<noteq> thumbnail_key uuid"
  by (simp_all add: original_key_def preview_key_def thumbnail_key_def)

lemma upload_frame:
  assumes "uploadForOwner env uuid b name owner actor os = (os', Inr p)" "k \<notin> set (pa_keys p)"
  shows "os' k = os k"
  using upload_success[OF assms(1)] assms(2)
  by (auto simp: uploaded_store_def upload_keys_def split: if_splits)

lemma upload_keys_prefix:
  assumes "uploadForOwner env uuid b name owner actor os = (os', Inr p)" "k \<in> set (pa_keys p)"
  shows "\<exists>rest. k = object_prefix uuid @ ''/'' @ rest"
  using upload_success[OF assms(1)] assms(2)
  by (auto simp: upload_keys_def original_key_def preview_key_def thumbnail_key_def split: if_splits)

lemma upload_opens:
  assumes "uploadForOwner env uuid b name owner actor os = (os', Inr p)"
  shows "openVersion os' (persist_attachment i p) Original = Inr b"
proof -
  obtain sn pre thu where u: "validateUpload b (max_file_mb env) = Inr sn" "os' = uploaded_store uuid sn b pre thu os"
    "pa_prefix p = object_prefix uuid" "pa_mime p = sn_mime sn"
    using upload_success[OF assms] by auto
  have "ext_by_mime (sn_mime sn) = sn_ext sn"
    using u(1) unfolding validateUpload_iff by (blast intro: sniff_ext)
  then have "objectKeyFor (persist_attachment i p) Original = original_key uuid sn"
    using u(3,4) by (simp add: objectKeyFor_def persist_attachment_def original_key_def)
  then show ?thesis by (simp add: openVersion_def u(2) uploaded_store_def keys_distinct)
qed

section \<open>Properties\<close>

text \<open>Round trip of an upload.  After an upload that succeeds, the row persisted from its handle
  opens: the original is byte for byte the uploaded file, and where the row says it has versions (it
  does exactly for images) the preview and the thumbnail open to the two derived renditions.  The keys
  the row computes are exactly the keys written, and no object outside them has changed.\<close>

theorem upload_then_open:
  assumes "uploadForOwner env uuid b name owner actor os = (os', Inr p)"
  shows "openVersion os' (persist_attachment i p) Original = Inr b \<and>
    (pa_has_versions p \<longrightarrow> (\<exists>pre thu. derive env b = Some (pre, thu) \<and>
      openVersion os' (persist_attachment i p) Preview = Inr pre \<and>
      openVersion os' (persist_attachment i p) Thumbnail = Inr thu)) \<and>
    (pa_has_versions p \<longleftrightarrow> pa_kind p = Image) \<and>
    pa_keys p = map (objectKeyFor (persist_attachment i p)) (versions_of (persist_attachment i p)) \<and>
    (\<forall>k. k \<notin> set (pa_keys p) \<longrightarrow> os' k = os k)"
proof -
  obtain sn pre thu where u: "validateUpload b (max_file_mb env) = Inr sn"
    "sn_kind sn = Image \<longrightarrow> derive env b = Some (pre, thu)"
    "os' = uploaded_store uuid sn b pre thu os"
    "p = \<lparr>pa_prefix = object_prefix uuid, pa_filename = name, pa_mime = sn_mime sn,
         pa_size = length b, pa_kind = sn_kind sn, pa_has_versions = (sn_kind sn = Image),
         pa_owner = owner, pa_created_by = actor, pa_keys = upload_keys uuid sn\<rparr>"
    using upload_success[OF assms] by blast
  have ext: "ext_by_mime (sn_mime sn) = sn_ext sn"
    using u(1) unfolding validateUpload_iff by (blast intro: sniff_ext)
  have keys: "objectKeyFor (persist_attachment i p) Original = original_key uuid sn"
    "objectKeyFor (persist_attachment i p) Preview = preview_key uuid"
    "objectKeyFor (persist_attachment i p) Thumbnail = thumbnail_key uuid"
    using u(4) ext by (simp_all add: objectKeyFor_def persist_attachment_def version_name_def
        original_key_def preview_key_def thumbnail_key_def)
  have open_vs: "openVersion os' (persist_attachment i p) Original = Inr b"
    "sn_kind sn = Image \<Longrightarrow> openVersion os' (persist_attachment i p) Preview = Inr pre"
    "sn_kind sn = Image \<Longrightarrow> openVersion os' (persist_attachment i p) Thumbnail = Inr thu"
    unfolding openVersion_def keys u(3) by (simp_all add: uploaded_store_def keys_distinct)
  have vs: "versions_of (persist_attachment i p) =
      (if sn_kind sn = Image then [Original, Preview, Thumbnail] else [Original])"
    using u(4) by (simp add: versions_of_def persist_attachment_def)
  have flds: "pa_keys p = upload_keys uuid sn" "pa_has_versions p \<longleftrightarrow> sn_kind sn = Image" "pa_kind p = sn_kind sn"
    using u(4) by simp_all
  have "pa_keys p = map (objectKeyFor (persist_attachment i p)) (versions_of (persist_attachment i p))"
    by (simp add: vs keys flds(1) upload_keys_def)
  moreover have "\<forall>k. k \<notin> set (pa_keys p) \<longrightarrow> os' k = os k"
    using upload_frame[OF assms] by blast
  ultimately show ?thesis
    using open_vs u(2) unfolding flds(2,3) by blast
qed

definition sample_env :: storage_env where
  "sample_env = \<lparr>put_ok = (\<lambda>_. True), delete_ok = (\<lambda>_. True),
     derive = (\<lambda>b. Some (take 2 b, take 1 b)), max_file_mb = 5\<rparr>"

definition sample_jpeg :: bytes where
  "sample_jpeg = [0xff, 0xd8, 0xff, 0x00]"

definition sample_pdf :: bytes where
  "sample_pdf = [0x25, 0x50, 0x44, 0x46, 0x2d]"

lemma sample_jpeg_sniff:
  "sniff sample_jpeg = Some \<lparr>sn_kind = Image, sn_mime = ''image/jpeg'', sn_ext = ''jpg''\<rparr>"
  by (simp add: sniff_def sample_jpeg_def byte_at_def)

lemma sample_jpeg_upload:
  "uploadForOwner sample_env u sample_jpeg n owner actor os =
     (os(object_prefix u @ ''/original.jpg'' \<mapsto> (sample_jpeg, ''image/jpeg''),
         object_prefix u @ ''/preview.webp'' \<mapsto> (take 2 sample_jpeg, ''image/webp''),
         object_prefix u @ ''/thumbnail.webp'' \<mapsto> (take 1 sample_jpeg, ''image/webp'')),
      Inr \<lparr>pa_prefix = object_prefix u, pa_filename = n, pa_mime = ''image/jpeg'', pa_size = 4,
           pa_kind = Image, pa_has_versions = True, pa_owner = owner, pa_created_by = actor,
           pa_keys = [object_prefix u @ ''/original.jpg'', object_prefix u @ ''/preview.webp'',
                      object_prefix u @ ''/thumbnail.webp'']\<rparr>)"
proof -
  have "validateUpload sample_jpeg 5 = Inr \<lparr>sn_kind = Image, sn_mime = ''image/jpeg'', sn_ext = ''jpg''\<rparr>"
    by (simp add: validateUpload_iff sample_jpeg_sniff, simp add: sample_jpeg_def)
  then show ?thesis
    by (simp add: uploadForOwner_def sample_env_def Let_def store_put_def, simp add: sample_jpeg_def)
qed

theorem upload_then_open_witness:
  "\<exists>p os'. uploadForOwner sample_env ''u'' sample_jpeg ''scan.jpg'' 1 2 (\<lambda>_. None) = (os', Inr p) \<and>
     openVersion os' (persist_attachment 7 p) Original = Inr sample_jpeg"
  using upload_then_open[OF sample_jpeg_upload] sample_jpeg_upload by blast

lemma cleanup_restores:
  assumes "uploadForOwner env uuid b name owner actor os = (os', Inr p)"
    and "\<forall>k. os k \<noteq> None \<longrightarrow> (\<forall>rest. k \<noteq> object_prefix uuid @ ''/'' @ rest)"
    and "\<forall>k \<in> set (pa_keys p). delete_ok env k"
  shows "cleanup env p os' = os"
proof
  fix k
  show "cleanup env p os' k = os k"
  proof (cases "k \<in> set (pa_keys p)")
    case True
    then have "os k = None" using upload_keys_prefix[OF assms(1)] assms(2) by blast
    then show ?thesis using True by (simp add: cleanup_def delete_all_eq[OF assms(3)])
  next
    case False
    then show ?thesis
      using upload_frame[OF assms(1)] by (simp add: cleanup_def delete_all_other)
  qed
qed

text \<open>The compensating delete is complete.  When the deletes are accepted and the fresh prefix was
  unused before, cleaning up after a successful upload gives back the store as it was.\<close>

theorem cleanup_undoes_upload:
  assumes "uploadForOwner env uuid b name owner actor os = (os', Inr p)"
    and "\<forall>k. os k \<noteq> None \<longrightarrow> (\<forall>rest. k \<noteq> object_prefix uuid @ ''/'' @ rest)"
    and "\<forall>k \<in> set (pa_keys p). delete_ok env k"
  shows "cleanup env p os' = os"
  using cleanup_restores[OF assms] .

theorem cleanup_undoes_upload_witness:
  "cleanup sample_env (projr (snd (uploadForOwner sample_env ''u'' sample_jpeg ''a'' 1 2 (\<lambda>_. None))))
     (fst (uploadForOwner sample_env ''u'' sample_jpeg ''a'' 1 2 (\<lambda>_. None))) = (\<lambda>_. None)"
proof -
  have "snd (uploadForOwner sample_env ''u'' sample_jpeg ''a'' 1 2 (\<lambda>_. None)) =
    Inr (projr (snd (uploadForOwner sample_env ''u'' sample_jpeg ''a'' 1 2 (\<lambda>_. None))))"
    by (simp add: sample_jpeg_upload)
  then show ?thesis
    by (intro cleanup_undoes_upload[of sample_env "''u''" sample_jpeg "''a''" 1 2])
      (simp_all add: sample_env_def prod_eq_iff)
qed


lemma set_trim: "set (trim s) \<subseteq> set s"
  by (auto simp: trim_def dest!: set_dropWhileD)

text \<open>The name in the quoted fallback of a Content-Disposition header is safe: it is never empty
  and holds only printable ASCII characters, none of them a quote, a backslash, a carriage return or a
  line feed, whatever the uploaded file was called.\<close>

theorem asciiFallback_safe:
  "asciiFallback name \<noteq> [] \<and> list_all (\<lambda>c. printable c \<and> \<not> header_unsafe c) (asciiFallback name)"
proof -
  let ?kept = "filter (\<lambda>c. \<not> header_unsafe c) name"
  let ?m = "map (\<lambda>c. if printable c then c else CHR ''_'') ?kept"
  let ?Q = "\<lambda>c. printable c \<and> \<not> header_unsafe c"
  have dflt: "f \<noteq> [] \<and> list_all ?Q f"
    if "\<forall>c \<in> set t. ?Q c" "list_all ?Q d" "d \<noteq> []" "f = (if t = [] then d else t)" for f t d
    using that by (auto simp: list_all_iff)
  have "?Q c" if "c \<in> set ?m" for c
  proof -
    have "printable (CHR ''_'')" "\<not> header_unsafe (CHR ''_'')"
      by (simp_all add: printable_def header_unsafe_def)
    then show ?thesis using that by auto
  qed
  then have a: "\<forall>c \<in> set (trim ?m). ?Q c" using set_trim[of ?m] by blast
  have b: "list_all ?Q ''download''" by (simp add: printable_def header_unsafe_def)
  show ?thesis
    by (rule dflt[OF a b]) (simp_all only: asciiFallback_def Let_def list.distinct not_False_eq_True)
qed

definition pdf_magic :: bytes where
  "pdf_magic = [0x25, 0x50, 0x44, 0x46, 0x2d]"

lemma all_less_5: "(\<forall>i < 5. P i) \<longleftrightarrow> P 0 \<and> P 1 \<and> P 2 \<and> P 3 \<and> P (4 :: nat)"
  by (auto simp: eval_nat_numeral less_Suc_eq)

lemma ascii_bytes:
  assumes "til \<le> length b"
  shows "ascii b from til = map (\<lambda>i. char_of (unat (b ! i AND 0x7F))) [from..<til]"
  using assms by (intro nth_equalityI) (auto simp: ascii_def)

text \<open>The PDF magic bytes are compared without their top bit.  Node's \<open>ascii\<close> decoding clears
  it, so every upload of a positive size within the limit whose first five bytes agree with
  \<open>%PDF-\<close> in the low seven bits is accepted as a PDF, though only one of the 32 prefixes is the
  signature.\<close>

theorem pdf_signature_ignores_top_bits:
  assumes "5 \<le> length b" "length b \<le> m * 1024 * 1024"
    and "\<forall>i < 5. (b ! i) AND 0x7F = pdf_magic ! i"
  shows "validateUpload b m = Inr \<lparr>sn_kind = Pdf, sn_mime = ''application/pdf'', sn_ext = ''pdf''\<rparr>"
proof -
  have b0: "b ! 0 AND 0x7F = 0x25" "b ! 1 AND 0x7F = 0x50" "b ! 2 AND 0x7F = 0x44" "b ! 3 AND 0x7F = 0x46"
    "b ! 4 AND 0x7F = 0x2d"
    using assms(3) by (simp_all add: pdf_magic_def all_less_5)
  have n0: "b ! 0 \<noteq> 0xff" "b ! 0 \<noteq> 0x89" using b0(1) by auto
  have up5: "[0..<5] = [0, 1, 2, 3, 4 :: nat]" and up4: "[0..<4] = [0, 1, 2, 3 :: nat]"
    by (simp_all add: upt_rec)
  have pdf: "ascii b 0 5 = ''%PDF-''"
    using assms(1) b0 by (simp add: ascii_bytes up5 char_of_def bit_numeral_rec bit_Suc_0_iff)
  have riff: "ascii b 0 4 \<noteq> ''RIFF''"
    using assms(1) b0 by (simp add: ascii_bytes up4 char_of_def)
  have "sniff b = Some \<lparr>sn_kind = Pdf, sn_mime = ''application/pdf'', sn_ext = ''pdf''\<rparr>"
    using assms(1) n0 pdf riff by (simp add: sniff_def byte_at_def png_signature_def upt_rec)
  then show ?thesis using assms(1,2) by (auto simp: validateUpload_iff)
qed

theorem pdf_signature_ignores_top_bits_witness:
  "validateUpload [0xA5, 0xD0, 0xC4, 0xC6, 0xAD] 5 =
     Inr \<lparr>sn_kind = Pdf, sn_mime = ''application/pdf'', sn_ext = ''pdf''\<rparr>"
  by (rule pdf_signature_ignores_top_bits) (simp_all add: pdf_magic_def all_less_5)

end
