(* ===== verification/LeaveLedger.thy ===== *)
theory LeaveLedger
  imports LeaveAggregate Storage
begin

text \<open>
  The leave tables and the balances derived from them: the append-only allocation ledger
  (\<open>src/src/leave-allocations\<close>), the queries of the leave-request repository
  (\<open>src/src/leave-requests/persistence/repositories/leave-request.repository.ts\<close>) and the balance
  service.  Balances are not stored: allowance is the sum of the grants, consumption the sum of the
  working days of the active requests.  Rows are kept in the order of their ids; ids skipped by a
  transaction that rolled back are not modelled.
\<close>

section \<open>State\<close>

datatype allocation_source = Default_grant | Admin_grant

record allocation =
  al_id :: int
  al_employee :: int
  al_type :: leave_type
  al_amount :: int
  al_source :: allocation_source
  al_reason :: "string option"
  al_granted_by :: "int option"
  al_created_by :: "int option"
  al_created_at :: int
  al_deleted_at :: "int option"

datatype allocation_event = LeaveAllocationGranted int int leave_type int allocation_source "int option"

record leave_db =
  ld_requests :: "leave list"
  ld_next :: int
  ld_allocs :: "allocation list"
  ld_alloc_next :: int
  ld_files :: "attachment list"
  ld_file_next :: int
  ld_store :: object_store
  ld_events :: "leave_event list"
  ld_grants :: "allocation_event list"

definition LEAVE_TYPES :: "leave_type list" where
  "LEAVE_TYPES = [Vacation, Sick, Bereavement, Birthday, Emergency]"

definition DEFAULT_LEAVE_ALLOCATIONS :: "(leave_type \<times> int) list" where
  "DEFAULT_LEAVE_ALLOCATIONS = [(Vacation, 10), (Sick, 10)]"

definition lr_live :: "leave \<Rightarrow> bool" where
  "lr_live r \<longleftrightarrow> lr_deleted_at r = None"

definition al_live :: "allocation \<Rightarrow> bool" where
  "al_live a \<longleftrightarrow> al_deleted_at a = None"

section \<open>Queries\<close>

definition findLeave :: "leave_db \<Rightarrow> int \<Rightarrow> leave option" where
  "findLeave db i = find (\<lambda>r. lr_id r = i \<and> lr_live r) (ld_requests db)"

definition findOverlapping :: "leave_db \<Rightarrow> int \<Rightarrow> date \<Rightarrow> date \<Rightarrow> leave list" where
  "findOverlapping db e sd ed =
     filter (\<lambda>r. lr_employee r = e \<and> lr_live r \<and> status_active (lr_status r) \<and>
               \<not> (lr_end r < sd \<or> ed < lr_start r)) (ld_requests db)"

definition findPendingForApprover :: "leave_db \<Rightarrow> int \<Rightarrow> leave list" where
  "findPendingForApprover db u =
     sort_key lr_submitted_at
       (filter (\<lambda>r. lr_live r \<and>
          (lr_status r = Pending_l1 \<and> lr_l1 r = u \<or> lr_status r = Pending_l2 \<and> lr_l2 r = Some u))
          (ld_requests db))"

definition findAllPendingLeave :: "leave_db \<Rightarrow> leave list" where
  "findAllPendingLeave db =
     sort_key lr_submitted_at (filter (\<lambda>r. lr_live r \<and> status_pending (lr_status r)) (ld_requests db))"

definition findActiveCandidates :: "leave_db \<Rightarrow> int \<Rightarrow> date \<Rightarrow> leave list" where
  "findActiveCandidates db e from =
     filter (\<lambda>r. lr_employee r = e \<and> lr_live r \<and> status_active (lr_status r) \<and> from \<le> lr_end r)
       (ld_requests db)"

record leave_criteria =
  lc_page :: "int option"
  lc_limit :: "int option"
  lc_employee :: "int option"
  lc_status :: "request_status list"
  lc_type :: "leave_type option"
  lc_from :: "date option"
  lc_to :: "date option"
  lc_deleted :: bool

definition leave_matches :: "leave_criteria \<Rightarrow> leave \<Rightarrow> bool" where
  "leave_matches c r \<longleftrightarrow>
     (lc_deleted c \<or> lr_live r) \<and>
     (case lc_employee c of None \<Rightarrow> True | Some e \<Rightarrow> lr_employee r = e) \<and>
     (lc_status c = [] \<or> lr_status r \<in> set (lc_status c)) \<and>
     (case lc_type c of None \<Rightarrow> True | Some t \<Rightarrow> lr_type r = t) \<and>
     (case lc_from c of None \<Rightarrow> True | Some f \<Rightarrow> f \<le> lr_end r) \<and>
     (case lc_to c of None \<Rightarrow> True | Some t \<Rightarrow> lr_start r \<le> t)"

text \<open>The query builder filters soft-deleted rows by itself and \<open>withDeleted\<close> is not called, so the
  flag \<open>includeDeleted\<close> does not bring them back.\<close>

definition findAllLeave :: "leave_db \<Rightarrow> leave_criteria \<Rightarrow> leave page_of" where
  "findAllLeave db c =
     find_page (rev (sort_key lr_submitted_at (filter (\<lambda>r. lr_live r \<and> leave_matches c r) (ld_requests db))))
       (lc_page c) (lc_limit c)"

section \<open>Sums\<close>

definition allowance :: "leave_db \<Rightarrow> int \<Rightarrow> leave_type \<Rightarrow> int" where
  "allowance db e t =
     sum_list (map al_amount (filter (\<lambda>a. al_employee a = e \<and> al_type a = t \<and> al_live a) (ld_allocs db)))"

definition consumes :: "int \<Rightarrow> leave_type \<Rightarrow> leave \<Rightarrow> bool" where
  "consumes e t r \<longleftrightarrow> lr_employee r = e \<and> lr_type r = t \<and> lr_live r \<and> status_active (lr_status r)"

definition consumed :: "leave_db \<Rightarrow> int \<Rightarrow> leave_type \<Rightarrow> rat" where
  "consumed db e t = sum_list (map lr_days (filter (consumes e t) (ld_requests db)))"

definition group_sum :: "leave_db \<Rightarrow> int \<Rightarrow> leave_type \<Rightarrow> request_status \<Rightarrow> rat" where
  "group_sum db e t s =
     sum_list (map lr_days (filter (\<lambda>r. consumes e t r \<and> lr_status r = s) (ld_requests db)))"

text \<open>The rows of the grouped query: a row for each type and active status that occurs.\<close>

definition group_rows :: "leave_db \<Rightarrow> int \<Rightarrow> (leave_type \<times> request_status \<times> rat) list" where
  "group_rows db e =
     concat (map (\<lambda>t. map (\<lambda>s. (t, s, group_sum db e t s))
       (filter (\<lambda>s. list_ex (\<lambda>r. consumes e t r \<and> lr_status r = s) (ld_requests db))
         [Approved, Pending_l1, Pending_l2])) LEAVE_TYPES)"

fun bucket_rows ::
  "(leave_type \<times> request_status \<times> rat) list \<Rightarrow> (leave_type \<Rightarrow> (rat \<times> rat) option)
     \<Rightarrow> (leave_type \<Rightarrow> (rat \<times> rat) option)" where
  "bucket_rows [] out = out"
| "bucket_rows ((t, s, x) # rows) out =
     (let bucket = (case out t of None \<Rightarrow> (0, 0) | Some b \<Rightarrow> b);
          bucket' = (if s = Approved then (fst bucket + x, snd bucket) else (fst bucket, snd bucket + x))
      in bucket_rows rows (out(t \<mapsto> bucket')))"

definition workingDaySumsByEmployee :: "leave_db \<Rightarrow> int \<Rightarrow> leave_type \<Rightarrow> (rat \<times> rat) option" where
  "workingDaySumsByEmployee db e = bucket_rows (group_rows db e) (\<lambda>_. None)"

definition sumsByEmployee :: "leave_db \<Rightarrow> int \<Rightarrow> leave_type \<Rightarrow> int option" where
  "sumsByEmployee db e t =
     (if list_ex (\<lambda>a. al_employee a = e \<and> al_type a = t \<and> al_live a) (ld_allocs db)
      then Some (allowance db e t) else None)"

record balance =
  ba_type :: leave_type
  ba_allowance :: int
  ba_used :: rat
  ba_reserved :: rat
  ba_available :: rat

definition forEmployee :: "leave_db \<Rightarrow> int \<Rightarrow> balance list" where
  "forEmployee db e =
     (let allowances = sumsByEmployee db e; spent = workingDaySumsByEmployee db e
      in map (\<lambda>t.
           (let al = (case allowances t of None \<Rightarrow> 0 | Some x \<Rightarrow> x);
                used = (case spent t of None \<Rightarrow> 0 | Some b \<Rightarrow> fst b);
                reserved = (case spent t of None \<Rightarrow> 0 | Some b \<Rightarrow> snd b)
            in \<lparr>ba_type = t, ba_allowance = al, ba_used = used, ba_reserved = reserved,
                ba_available = max 0 (of_int al - used - reserved)\<rparr>)) LEAVE_TYPES)"

section \<open>Grants\<close>

definition assertGrantable :: "rat \<Rightarrow> http_error + int" where
  "assertGrantable amount =
     (if of_int \<lfloor>amount\<rfloor> \<noteq> amount then Inl (unprocessable ''amount'')
      else if amount \<le> 0 then Inl (unprocessable ''amount'')
      else Inr \<lfloor>amount\<rfloor>)"

definition al_create :: "int \<Rightarrow> allocation \<Rightarrow> leave_db \<Rightarrow> http_error + (leave_db \<times> allocation)" where
  "al_create now a db =
     (if al_amount a \<le> 0 then Inl CheckViolation
      else (let saved = a\<lparr>al_id := ld_alloc_next db, al_created_at := now\<rparr>
            in Inr (db\<lparr>ld_allocs := ld_allocs db @ [saved], ld_alloc_next := ld_alloc_next db + 1\<rparr>, saved)))"

definition new_allocation ::
  "int \<Rightarrow> leave_type \<Rightarrow> int \<Rightarrow> allocation_source \<Rightarrow> string option \<Rightarrow> int option \<Rightarrow> int option \<Rightarrow> allocation" where
  "new_allocation e t amount source reason granted created =
     \<lparr>al_id = 0, al_employee = e, al_type = t, al_amount = amount, al_source = source, al_reason = reason,
      al_granted_by = granted,
      al_created_by = (case created of Some c \<Rightarrow> Some c | None \<Rightarrow> granted),
      al_created_at = 0, al_deleted_at = None\<rparr>"

definition grant ::
  "user_port \<Rightarrow> int \<Rightarrow> int \<Rightarrow> leave_type \<Rightarrow> rat \<Rightarrow> string option \<Rightarrow> int \<Rightarrow> leave_db
     \<Rightarrow> leave_db \<times> (http_error + allocation)" where
  "grant up now e t amount reason actor db =
     (case orNotFound (find_user up e) ''User'' e of
        Inl er \<Rightarrow> (db, Inl er)
      | Inr _ \<Rightarrow>
          (case assertGrantable amount of
             Inl er \<Rightarrow> (db, Inl er)
           | Inr n \<Rightarrow>
               (case al_create now (new_allocation e t n Admin_grant reason (Some actor) (Some actor)) db of
                  Inl er \<Rightarrow> (db, Inl er)
                | Inr (db', a) \<Rightarrow>
                    (db'\<lparr>ld_grants := ld_grants db' @
                       [LeaveAllocationGranted (al_id a) e t n Admin_grant (Some actor)]\<rparr>, Inr a))))"

definition grant_history :: "leave_db \<Rightarrow> int \<Rightarrow> allocation list" where
  "grant_history db e =
     rev (sort_key al_created_at (filter (\<lambda>a. al_employee a = e \<and> al_live a) (ld_allocs db)))"

section \<open>Lemmas on the sums\<close>

lemma LEAVE_TYPES_all [simp]: "t \<in> set LEAVE_TYPES"
  by (cases t) (simp_all add: LEAVE_TYPES_def)

lemma findLeave_Some:
  "findLeave db i = Some r \<Longrightarrow> r \<in> set (ld_requests db) \<and> lr_id r = i \<and> lr_live r"
  unfolding findLeave_def using find_Some_iff_mem by fastforce

definition bucket_part :: "bool \<Rightarrow> (rat \<times> rat) option \<Rightarrow> rat" where
  "bucket_part used b = (case b of None \<Rightarrow> 0 | Some b \<Rightarrow> if used then fst b else snd b)"

lemma bucket_part_simps [simp]:
  "bucket_part u None = 0" "bucket_part True (Some b) = fst b" "bucket_part False (Some b) = snd b"
  by (simp_all add: bucket_part_def)

definition rows_part :: "bool \<Rightarrow> leave_type \<Rightarrow> (leave_type \<times> request_status \<times> rat) list \<Rightarrow> rat" where
  "rows_part used t rows =
     sum_list (map (snd \<circ> snd) (filter (\<lambda>row. fst row = t \<and> (fst (snd row) = Approved) = used) rows))"

lemma bucket_rows_part:
  "bucket_part used (bucket_rows rows out t) = bucket_part used (out t) + rows_part used t rows"
proof (induction rows arbitrary: out used)
  case (Cons row rows)
  obtain t' s x where row: "row = (t', s, x)" by (cases row)
  show ?case
    by (cases "t' = t"; cases "out t'"; cases "s = Approved"; cases used)
      (simp_all add: row Cons.IH rows_part_def Let_def)
qed (simp add: rows_part_def)

lemma group_sum_absent:
  assumes "\<not> list_ex (\<lambda>r. consumes e t r \<and> lr_status r = s) (ld_requests db)"
  shows "group_sum db e t s = 0"
proof -
  have "filter (\<lambda>r. consumes e t r \<and> lr_status r = s) (ld_requests db) = []"
    using assms by (auto simp: list_ex_iff filter_empty_conv)
  then show ?thesis by (simp add: group_sum_def)
qed

definition group_of :: "leave_db \<Rightarrow> int \<Rightarrow> leave_type \<Rightarrow> (leave_type \<times> request_status \<times> rat) list" where
  "group_of db e t =
     map (\<lambda>s. (t, s, group_sum db e t s))
       (filter (\<lambda>s. list_ex (\<lambda>r. consumes e t r \<and> lr_status r = s) (ld_requests db))
         [Approved, Pending_l1, Pending_l2])"

lemma rows_part_append [simp]: "rows_part u t (xs @ ys) = rows_part u t xs + rows_part u t ys"
  by (simp add: rows_part_def)

lemma rows_part_other: "t' \<noteq> t \<Longrightarrow> rows_part u t (group_of db e t') = 0"
  by (simp add: rows_part_def group_of_def filter_map comp_def)

lemma rows_part_own:
  "rows_part True t (group_of db e t) = group_sum db e t Approved"
  "rows_part False t (group_of db e t) = group_sum db e t Pending_l1 + group_sum db e t Pending_l2"
  using group_sum_absent[of e t Approved db] group_sum_absent[of e t Pending_l1 db]
    group_sum_absent[of e t Pending_l2 db]
  by (auto simp: rows_part_def group_of_def)

lemma rows_part_group_rows: "rows_part u t (group_rows db e) = rows_part u t (group_of db e t)"
proof -
  have "group_rows db e = group_of db e Vacation @ group_of db e Sick @ group_of db e Bereavement @
      group_of db e Birthday @ group_of db e Emergency"
    unfolding group_rows_def LEAVE_TYPES_def list.map concat.simps append_Nil2 group_of_def ..
  then show ?thesis by (cases t) (simp_all add: rows_part_other)
qed

lemma sums_parts:
  "bucket_part True (workingDaySumsByEmployee db e t) = group_sum db e t Approved"
  "bucket_part False (workingDaySumsByEmployee db e t) = group_sum db e t Pending_l1 + group_sum db e t Pending_l2"
  by (simp_all add: workingDaySumsByEmployee_def bucket_rows_part rows_part_group_rows rows_part_own)

lemma consumed_groups:
  "consumed db e t = group_sum db e t Approved + group_sum db e t Pending_l1 + group_sum db e t Pending_l2"
proof -
  have "sum_list (map lr_days (filter (consumes e t) rows)) =
      sum_list (map lr_days (filter (\<lambda>r. consumes e t r \<and> lr_status r = Approved) rows)) +
      sum_list (map lr_days (filter (\<lambda>r. consumes e t r \<and> lr_status r = Pending_l1) rows)) +
      sum_list (map lr_days (filter (\<lambda>r. consumes e t r \<and> lr_status r = Pending_l2) rows))" for rows
    by (induction rows) (auto simp: consumes_def status_active_def status_pending_def)
  then show ?thesis by (simp add: consumed_def group_sum_def)
qed

lemma allowance_absent:
  assumes "\<not> list_ex (\<lambda>a. al_employee a = e \<and> al_type a = t \<and> al_live a) (ld_allocs db)"
  shows "allowance db e t = 0"
proof -
  have "filter (\<lambda>a. al_employee a = e \<and> al_type a = t \<and> al_live a) (ld_allocs db) = []"
    using assms by (auto simp: list_ex_iff filter_empty_conv)
  then show ?thesis by (simp add: allowance_def)
qed

section \<open>Properties\<close>

text \<open>C40: The balance screen and the submit check count alike.  For every employee the balances hold
  one row for each leave type, in the order of the enumeration, and the row of a type shows the sum of
  the grants, and as used plus reserved exactly what the submit transaction counts as consumed; its
  available days are the difference, floored at zero.\<close>

theorem balances_match_ledger:
  "map ba_type (forEmployee db e) = LEAVE_TYPES \<and>
   list_all (\<lambda>b. ba_allowance b = allowance db e (ba_type b) \<and>
     ba_used b + ba_reserved b = consumed db e (ba_type b) \<and>
     ba_available b = max 0 (of_int (allowance db e (ba_type b)) - consumed db e (ba_type b))) (forEmployee db e)"
proof -
  have al: "(case sumsByEmployee db e t of None \<Rightarrow> 0 | Some x \<Rightarrow> x) = allowance db e t" for t
    using allowance_absent[of e t db] by (auto simp: sumsByEmployee_def)
  have parts: "(case workingDaySumsByEmployee db e t of None \<Rightarrow> 0 | Some b \<Rightarrow> fst b) = group_sum db e t Approved"
    "(case workingDaySumsByEmployee db e t of None \<Rightarrow> 0 | Some b \<Rightarrow> snd b) =
       group_sum db e t Pending_l1 + group_sum db e t Pending_l2" for t
    using sums_parts[where db = db and e = e and t = t]
    by (cases "workingDaySumsByEmployee db e t"; simp)+
  show ?thesis
    by (simp add: forEmployee_def Let_def al parts comp_def list_all_iff consumed_groups algebra_simps)
qed

text \<open>A grant only adds.  A grant of \<open>amount\<close> days succeeds exactly when the employee exists and
  the amount is a positive whole number; it raises the allowance of that employee and type by the
  amount and no other, touches no request, and publishes one event.  Otherwise nothing changes.\<close>

theorem grant_adds_exactly:
  assumes "grant up now e t amount reason actor db = (db', r)"
  shows "(okR r \<longleftrightarrow> find_user up e \<noteq> None \<and> 0 < amount \<and> of_int \<lfloor>amount\<rfloor> = amount) \<and>
    (okR r \<longrightarrow> (\<forall>e' t'. allowance db' e' t' =
        allowance db e' t' + (if e' = e \<and> t' = t then \<lfloor>amount\<rfloor> else 0)) \<and>
      length (ld_grants db') = length (ld_grants db) + 1 \<and> ld_requests db' = ld_requests db) \<and>
    (\<not> okR r \<longrightarrow> db' = db)"
proof (cases "find_user up e \<noteq> None \<and> 0 < amount \<and> of_int \<lfloor>amount\<rfloor> = amount")
  case True
  then have pos: "0 < \<lfloor>amount\<rfloor>" by (metis of_int_0_less_iff)
  have "assertGrantable amount = Inr \<lfloor>amount\<rfloor>" using True by (simp add: assertGrantable_def)
  then show ?thesis
    using assms True pos
    by (auto simp: grant_def al_create_def new_allocation_def Let_def allowance_def al_live_def)
next
  case False
  then have "db' = db \<and> \<not> okR r"
    using assms by (cases "find_user up e") (auto simp: grant_def assertGrantable_def split: if_splits)
  then show ?thesis using False by blast
qed

definition empty_leave_db :: leave_db where
  "empty_leave_db = \<lparr>ld_requests = [], ld_next = 1, ld_allocs = [], ld_alloc_next = 1, ld_files = [],
     ld_file_next = 1, ld_store = (\<lambda>_. None), ld_events = [], ld_grants = []\<rparr>"

theorem grant_adds_exactly_witness:
  "okR (snd (grant sample_users 0 2 Vacation 10 None 1 empty_leave_db))"
  using grant_adds_exactly[of sample_users 0 2 Vacation 10 None 1 empty_leave_db]
  by (simp add: prod_eq_iff sample_users_def)

end
