(* ===== verification/ApprovalChains.thy ===== *)
theory ApprovalChains
  imports Access
begin

text \<open>
  Who approves an employee's requests (\<open>src/src/approval-chains\<close>).

  The state is the table \<open>approval_chains\<close>; \<open>applyStepChanges\<close> is the repository transaction
  (ends first, then inserts, all or nothing) under the constraints of the migration; the services
  are \<open>setChain\<close>, \<open>endStep\<close>, \<open>bulkReassign\<close>, \<open>bulkAssign\<close> and the queries.  The invariant
  \<open>chain_inv\<close> is the contract of the module: one active approver for each (employee, step), nobody
  approves their own requests, and no second level without a first.
\<close>

section \<open>State\<close>

record chain =
  ch_id :: int
  ch_employee :: int
  ch_step :: int
  ch_approver :: int
  ch_effective_at :: int
  ch_ended_at :: "int option"
  ch_created_by :: "int option"
  ch_updated_by :: "int option"

record chain_db =
  ch_rows :: "chain list"
  ch_next :: int

record chain_insert =
  ci_employee :: int
  ci_step :: int
  ci_approver :: int
  ci_created_by :: "int option"

record active_chain =
  l1_approver_id :: "int option"
  l2_approver_id :: "int option"

record set_chain_input =
  set_l1 :: "int tri"
  set_l2 :: "int tri"

definition step_L1 :: int where "step_L1 = 1"
definition step_L2 :: int where "step_L2 = 2"

definition chain_active :: "chain \<Rightarrow> bool" where
  "chain_active r \<longleftrightarrow> ch_ended_at r = None"

definition chain_key :: "chain \<Rightarrow> int \<times> int" where
  "chain_key r = (ch_employee r, ch_step r)"

text \<open>The UPDATE of \<open>applyStepChanges\<close>; its argument is the instant and the actor.\<close>

definition end_chain :: "int \<times> int option \<Rightarrow> chain \<Rightarrow> chain" where
  "end_chain a r = r\<lparr>ch_ended_at := Some (fst a), ch_updated_by := snd a\<rparr>"

section \<open>Repository\<close>

definition findActiveForEmployee :: "chain_db \<Rightarrow> int \<Rightarrow> chain list" where
  "findActiveForEmployee db e =
     sort_key ch_step (filter (\<lambda>r. ch_employee r = e \<and> chain_active r) (ch_rows db))"

definition findActiveForEmployees :: "chain_db \<Rightarrow> int list \<Rightarrow> chain list" where
  "findActiveForEmployees db es =
     (if es = [] then []
      else sort_key ch_employee (sort_key ch_step
             (filter (\<lambda>r. ch_employee r \<in> set es \<and> chain_active r) (ch_rows db))))"

definition findActiveByApprover :: "chain_db \<Rightarrow> int \<Rightarrow> chain list" where
  "findActiveByApprover db a =
     sort_key ch_employee (sort_key ch_step
       (filter (\<lambda>r. ch_approver r = a \<and> chain_active r) (ch_rows db)))"

definition insert_chain :: "user_port \<Rightarrow> int \<Rightarrow> chain_insert \<Rightarrow> chain_db \<Rightarrow> http_error + chain_db" where
  "insert_chain up now i db =
     (if ci_step i < 1 \<or> ci_approver i = ci_employee i then Inl CheckViolation
      else if list_ex (\<lambda>r. chain_active r \<and> chain_key r = (ci_employee i, ci_step i)) (ch_rows db)
      then Inl UniqueViolation
      else if list_ex (\<lambda>r. chain_key r = (ci_employee i, ci_step i) \<and> ch_effective_at r = now)
                (ch_rows db)
      then Inl UniqueViolation
      else if \<not> user_row up (ci_employee i) \<or> \<not> user_row up (ci_approver i)
      then Inl ForeignKeyViolation
      else Inr (db\<lparr>
        ch_rows := ch_rows db @
          [\<lparr>ch_id = ch_next db, ch_employee = ci_employee i, ch_step = ci_step i,
            ch_approver = ci_approver i, ch_effective_at = now, ch_ended_at = None,
            ch_created_by = ci_created_by i, ch_updated_by = ci_created_by i\<rparr>],
        ch_next := ch_next db + 1\<rparr>))"

fun insert_chains :: "user_port \<Rightarrow> int \<Rightarrow> chain_insert list \<Rightarrow> chain_db \<Rightarrow> http_error + chain_db" where
  "insert_chains up now [] db = Inr db"
| "insert_chains up now (i # is) db = bindR (insert_chain up now i db) (insert_chains up now is)"

definition end_rows :: "int \<Rightarrow> int option \<Rightarrow> int list \<Rightarrow> chain_db \<Rightarrow> chain_db" where
  "end_rows now actor ends db =
     (if ends = [] then db
      else db\<lparr>ch_rows :=
        update_where (\<lambda>r. ch_id r \<in> set ends) (end_chain (now, actor)) (ch_rows db)\<rparr>)"

definition applyStepChanges ::
  "user_port \<Rightarrow> int \<Rightarrow> int list \<Rightarrow> chain_insert list \<Rightarrow> int option \<Rightarrow> chain_db \<Rightarrow> http_error + chain_db" where
  "applyStepChanges up now ends inserts actor db =
     insert_chains up now inserts (end_rows now actor ends db)"

section \<open>Service\<close>

text \<open>\<open>new Map(rows.map((r) => [r.step, r])).get(step)\<close>: a later row replaces an earlier one.\<close>

definition by_step :: "chain list \<Rightarrow> int \<Rightarrow> chain option" where
  "by_step rows s = find (\<lambda>r. ch_step r = s) (rev rows)"

definition getActive :: "chain_db \<Rightarrow> int \<Rightarrow> active_chain" where
  "getActive db e =
     (let active = findActiveForEmployee db e
      in \<lparr>l1_approver_id = map_option ch_approver (by_step active step_L1),
          l2_approver_id = map_option ch_approver (by_step active step_L2)\<rparr>)"

definition getActiveRows ::
  "user_port \<Rightarrow> chain_db \<Rightarrow> int \<Rightarrow> http_error + (int \<times> chain option \<times> chain option)" where
  "getActiveRows up db e =
     bindR (orNotFound (find_user up e) ''User'' e) (\<lambda>_.
       let active = findActiveForEmployee db e
       in Inr (e, by_step active step_L1, by_step active step_L2))"

definition assertUserActive :: "user_port \<Rightarrow> int \<Rightarrow> http_error + unit" where
  "assertUserActive up uid =
     (case find_user up uid of
        None \<Rightarrow> Inl (unprocessable ''approver_id'')
      | Some u \<Rightarrow> guardR (usr_is_active u) (unprocessable ''approver_id''))"

definition assertValidApprover :: "user_port \<Rightarrow> int \<Rightarrow> int \<Rightarrow> http_error + unit" where
  "assertValidApprover up approver e =
     (if approver = e then Inl (unprocessable ''approver_id'') else assertUserActive up approver)"

definition check_tri :: "('a \<Rightarrow> http_error + unit) \<Rightarrow> 'a tri \<Rightarrow> http_error + unit" where
  "check_tri chk t = (case t of Val a \<Rightarrow> chk a | _ \<Rightarrow> Inr ())"

definition step_change ::
  "int \<Rightarrow> int option \<Rightarrow> chain list \<Rightarrow> int \<Rightarrow> int tri \<Rightarrow> int list \<times> chain_insert list" where
  "step_change e actor rows s v =
     (case v of
        Undefined \<Rightarrow> ([], [])
      | Null \<Rightarrow> (case by_step rows s of Some r \<Rightarrow> ([ch_id r], []) | None \<Rightarrow> ([], []))
      | Val a \<Rightarrow>
          (let ins = \<lparr>ci_employee = e, ci_step = s, ci_approver = a, ci_created_by = actor\<rparr>
           in case by_step rows s of
                Some r \<Rightarrow> if ch_approver r = a then ([], []) else ([ch_id r], [ins])
              | None \<Rightarrow> ([], [ins])))"

definition computeStepChanges ::
  "int \<Rightarrow> chain list \<Rightarrow> set_chain_input \<Rightarrow> int option \<Rightarrow> http_error + (int list \<times> chain_insert list)" where
  "computeStepChanges e rows inp actor =
     (let resultingL1 = tri_apply (set_l1 inp) (map_option ch_approver (by_step rows step_L1));
          resultingL2 = tri_apply (set_l2 inp) (map_option ch_approver (by_step rows step_L2));
          c1 = step_change e actor rows step_L1 (set_l1 inp);
          c2 = step_change e actor rows step_L2 (set_l2 inp)
      in if resultingL2 \<noteq> None \<and> resultingL1 = None then Inl (unprocessable ''l1_approver_id'')
         else Inr (fst c1 @ fst c2, snd c1 @ snd c2))"

text \<open>A repository write inside a service: nothing to do is no transaction, a failed one leaves
  the table as it was.\<close>

definition commit ::
  "user_port \<Rightarrow> int \<Rightarrow> int option \<Rightarrow> int list \<Rightarrow> chain_insert list \<Rightarrow> (chain_db \<Rightarrow> 'a) \<Rightarrow> chain_db
     \<Rightarrow> chain_db \<times> (http_error + 'a)" where
  "commit up now actor ends inserts k db =
     (if ends \<noteq> [] \<or> inserts \<noteq> []
      then (case applyStepChanges up now ends inserts actor db of
              Inl er \<Rightarrow> (db, Inl er)
            | Inr db' \<Rightarrow> (db', Inr (k db')))
      else (db, Inr (k db)))"

definition setChain ::
  "user_port \<Rightarrow> int \<Rightarrow> int \<Rightarrow> set_chain_input \<Rightarrow> int option \<Rightarrow> chain_db
     \<Rightarrow> chain_db \<times> (http_error + active_chain)" where
  "setChain up now e inp actor db =
     (case bindR (orNotFound (find_user up e) ''User'' e) (\<lambda>_.
           bindR (check_tri (\<lambda>a. assertValidApprover up a e) (set_l1 inp)) (\<lambda>_.
           bindR (check_tri (\<lambda>a. assertValidApprover up a e) (set_l2 inp)) (\<lambda>_.
             computeStepChanges e (findActiveForEmployee db e) inp actor))) of
        Inl er \<Rightarrow> (db, Inl er)
      | Inr (ends, inserts) \<Rightarrow> commit up now actor ends inserts (\<lambda>d. getActive d e) db)"

definition endStep ::
  "user_port \<Rightarrow> int \<Rightarrow> int \<Rightarrow> int \<Rightarrow> int option \<Rightarrow> chain_db \<Rightarrow> chain_db \<times> (http_error + active_chain)" where
  "endStep up now e s actor db =
     (let active = findActiveForEmployee db e
      in case find (\<lambda>r. ch_step r = s) active of
           None \<Rightarrow> (db, Inl NotFoundPlain)
         | Some row \<Rightarrow>
             if s = step_L1 \<and> list_ex (\<lambda>r. ch_step r = step_L2) active
             then (db, Inl (unprocessable ''step''))
             else commit up now actor [ch_id row] [] (\<lambda>d. getActive d e) db)"

definition reassign_insert :: "int \<Rightarrow> int option \<Rightarrow> chain \<Rightarrow> chain_insert" where
  "reassign_insert to actor r =
     \<lparr>ci_employee = ch_employee r, ci_step = ch_step r, ci_approver = to, ci_created_by = actor\<rparr>"

definition bulkReassign ::
  "user_port \<Rightarrow> int \<Rightarrow> int \<Rightarrow> int \<Rightarrow> int option \<Rightarrow> chain_db
     \<Rightarrow> chain_db \<times> (http_error + (int \<times> int list))" where
  "bulkReassign up now from_id to_id actor db =
     (if from_id = to_id then (db, Inl (unprocessable ''to_approver_id''))
      else case assertUserActive up to_id of
        Inl er \<Rightarrow> (db, Inl er)
      | Inr _ \<Rightarrow>
          (let rows = findActiveByApprover db from_id;
               moved = filter (\<lambda>r. ch_employee r \<noteq> to_id) rows;
               skipped = map ch_employee (filter (\<lambda>r. ch_employee r = to_id) rows);
               inserts = map (reassign_insert to_id actor) moved
           in commit up now actor (map ch_id moved) inserts
                (\<lambda>_. (int (length inserts), skipped)) db))"

record bulk_assign_input =
  ba_l1 :: int
  ba_l2 :: "int tri"

text \<open>The loop of \<open>bulkAssign\<close>, accumulating the count, the ends, the inserts and the skipped.\<close>

fun assign_loop ::
  "bulk_assign_input \<Rightarrow> int option \<Rightarrow> chain list \<Rightarrow> int list
     \<Rightarrow> http_error + (int \<times> int list \<times> chain_insert list \<times> int list)" where
  "assign_loop inp actor rows [] = Inr (0, [], [], [])"
| "assign_loop inp actor rows (e # es) =
     (if e = ba_l1 inp \<or> Val e = ba_l2 inp
      then bindR (assign_loop inp actor rows es)
             (\<lambda>(n, ends, inserts, skipped). Inr (n, ends, inserts, e # skipped))
      else bindR (computeStepChanges e (filter (\<lambda>r. ch_employee r = e) rows)
                    \<lparr>set_l1 = Val (ba_l1 inp), set_l2 = ba_l2 inp\<rparr> actor)
             (\<lambda>(en, ins). bindR (assign_loop inp actor rows es)
                (\<lambda>(n, ends, inserts, skipped).
                   Inr ((if en \<noteq> [] \<or> ins \<noteq> [] then n + 1 else n), en @ ends, ins @ inserts, skipped))))"

text \<open>\<open>[...new Set(xs)]\<close> keeps the first occurrences.\<close>

definition dedup :: "'a list \<Rightarrow> 'a list" where
  "dedup xs = rev (remdups (rev xs))"

definition bulkAssign ::
  "user_port \<Rightarrow> int \<Rightarrow> int list \<Rightarrow> bulk_assign_input \<Rightarrow> int option \<Rightarrow> chain_db
     \<Rightarrow> chain_db \<times> (http_error + (int \<times> int list))" where
  "bulkAssign up now employee_ids inp actor db =
     (let ids = dedup employee_ids
      in if ids = [] then (db, Inl (unprocessable ''employee_ids''))
         else case bindR (assertUserActive up (ba_l1 inp)) (\<lambda>_.
                   bindR (check_tri (assertUserActive up) (ba_l2 inp)) (\<lambda>_.
                     assign_loop inp actor (findActiveForEmployees db ids) ids)) of
                Inl er \<Rightarrow> (db, Inl er)
              | Inr (assigned, ends, inserts, skipped) \<Rightarrow>
                  commit up now actor ends inserts (\<lambda>_. (assigned, skipped)) db)"

section \<open>The contract\<close>

definition l2_has_l1 :: "chain list \<Rightarrow> bool" where
  "l2_has_l1 rows \<longleftrightarrow>
     list_all (\<lambda>r. chain_active r \<and> ch_step r = step_L2 \<longrightarrow>
       list_ex (\<lambda>q. chain_active q \<and> chain_key q = (ch_employee r, step_L1)) rows) rows"

definition chain_inv :: "chain_db \<Rightarrow> bool" where
  "chain_inv db \<longleftrightarrow>
     serial_ok ch_id (ch_next db) (ch_rows db) \<and>
     unique_active chain_active chain_key (ch_rows db) \<and>
     list_all (\<lambda>r. 1 \<le> ch_step r \<and> ch_approver r \<noteq> ch_employee r) (ch_rows db) \<and>
     l2_has_l1 (ch_rows db)"

text \<open>The instant of a transaction is after the effective instants of all rows.\<close>

definition later :: "int \<Rightarrow> chain_db \<Rightarrow> bool" where
  "later now db \<longleftrightarrow> list_all (\<lambda>r. ch_effective_at r < now) (ch_rows db)"

definition active_row :: "chain list \<Rightarrow> int \<times> int \<Rightarrow> chain option" where
  "active_row rows k = find (\<lambda>r. chain_active r \<and> chain_key r = k) rows"

text \<open>The abstract state: a partial map from (employee, step) to the approver.\<close>

definition approver_at :: "chain list \<Rightarrow> int \<times> int \<Rightarrow> int option" where
  "approver_at rows k = map_option ch_approver (active_row rows k)"

definition ins_key :: "chain_insert \<Rightarrow> int \<times> int" where
  "ins_key i = (ci_employee i, ci_step i)"

definition put_insert :: "(int \<times> int \<Rightarrow> int option) \<Rightarrow> chain_insert \<Rightarrow> int \<times> int \<Rightarrow> int option" where
  "put_insert m i = m(ins_key i \<mapsto> ci_approver i)"

interpretation chain_index: partial_unique ch_id chain_active chain_key end_chain
  by unfold_locales (simp_all add: chain_active_def end_chain_def)

lemma step_consts [simp]: "step_L1 = 1" "step_L2 = 2"
  by (simp_all add: step_L1_def step_L2_def)

lemma active_row_Some:
  "active_row rows k = Some r \<Longrightarrow> r \<in> set rows \<and> chain_active r \<and> chain_key r = k"
  unfolding active_row_def by (drule find_Some_iff_mem) simp

lemma active_row_None:
  "active_row rows k = None \<longleftrightarrow> (\<forall>r \<in> set rows. chain_active r \<longrightarrow> chain_key r \<noteq> k)"
  unfolding active_row_def find_None_conv by blast

lemma active_row_eq:
  assumes "unique_active chain_active chain_key rows" "r \<in> set rows" "chain_active r"
  shows "active_row rows (chain_key r) = Some r"
  unfolding active_row_def using assms by (rule chain_index.lookup_active)

lemma active_row_snoc:
  "active_row (rows @ [r]) k =
     (case active_row rows k of Some q \<Rightarrow> Some q
      | None \<Rightarrow> if chain_active r \<and> chain_key r = k then Some r else None)"
  unfolding active_row_def by (induction rows) auto

lemma by_step_eq_active_row:
  assumes "unique_active chain_active chain_key rows"
    and "set xs = {r \<in> set rows. ch_employee r = e \<and> chain_active r}"
  shows "by_step xs s = active_row rows (e, s)"
proof (cases "active_row rows (e, s)")
  case None
  then have "\<forall>r \<in> set xs. ch_step r \<noteq> s"
    using assms(2) by (auto simp: active_row_None chain_key_def)
  then show ?thesis
    using None by (simp add: by_step_def find_None_conv)
next
  case (Some r)
  then have r: "r \<in> set rows" "chain_active r" "chain_key r = (e, s)"
    by (auto dest: active_row_Some)
  have "find (\<lambda>r. ch_step r = s) (rev xs) = Some r"
  proof (rule find_unique)
    show "r \<in> set (rev xs)" "ch_step r = s"
      using r assms(2) by (auto simp: chain_key_def)
    show "y = r" if "y \<in> set (rev xs)" "ch_step y = s" for y
      using unique_active_inj[OF assms(1), of y r] that r assms(2) by (auto simp: chain_key_def)
  qed
  then show ?thesis using Some by (simp add: by_step_def)
qed

lemma by_step_findActive:
  assumes "unique_active chain_active chain_key (ch_rows db)"
  shows "by_step (findActiveForEmployee db e) s = active_row (ch_rows db) (e, s)"
  using assms by (intro by_step_eq_active_row) (auto simp: findActiveForEmployee_def)

lemma getActive_eq:
  assumes "unique_active chain_active chain_key (ch_rows db)"
  shows "getActive db e = \<lparr>l1_approver_id = approver_at (ch_rows db) (e, 1),
                          l2_approver_id = approver_at (ch_rows db) (e, 2)\<rparr>"
  using assms by (simp add: getActive_def Let_def by_step_findActive approver_at_def)

lemma l2_has_l1_iff:
  assumes "unique_active chain_active chain_key rows"
  shows "l2_has_l1 rows \<longleftrightarrow>
    (\<forall>e. approver_at rows (e, 2) \<noteq> None \<longrightarrow> approver_at rows (e, 1) \<noteq> None)"
    (is "_ \<longleftrightarrow> ?R")
proof
  assume l: "l2_has_l1 rows"
  show ?R
  proof (intro allI impI)
    fix e assume "approver_at rows (e, 2) \<noteq> None"
    then obtain r where "active_row rows (e, 2) = Some r"
      by (auto simp: approver_at_def)
    then have "r \<in> set rows" "chain_active r" "ch_step r = 2" "ch_employee r = e"
      using active_row_Some[of rows "(e, 2)" r] by (simp_all add: chain_key_def)
    then have "list_ex (\<lambda>q. chain_active q \<and> chain_key q = (e, 1)) rows"
      using l by (auto simp: l2_has_l1_def list_all_iff)
    then show "approver_at rows (e, 1) \<noteq> None"
      by (auto simp: approver_at_def active_row_None list_ex_iff)
  qed
next
  assume R: ?R
  have "list_ex (\<lambda>q. chain_active q \<and> chain_key q = (ch_employee r, 1)) rows"
    if "r \<in> set rows" "chain_active r" "ch_step r = 2" for r
  proof -
    have "active_row rows (ch_employee r, 2) = Some r"
      using active_row_eq[OF assms that(1,2)] that(3) by (simp add: chain_key_def)
    then have "approver_at rows (ch_employee r, 1) \<noteq> None"
      using R by (simp add: approver_at_def)
    then obtain q where "active_row rows (ch_employee r, 1) = Some q"
      by (auto simp: approver_at_def)
    then show ?thesis
      using active_row_Some[of rows "(ch_employee r, 1)" q] by (auto simp: list_ex_iff)
  qed
  then show "l2_has_l1 rows"
    by (simp add: l2_has_l1_def list_all_iff)
qed

section \<open>The repository transaction\<close>

definition basic_inv :: "chain_db \<Rightarrow> bool" where
  "basic_inv db \<longleftrightarrow>
     serial_ok ch_id (ch_next db) (ch_rows db) \<and>
     unique_active chain_active chain_key (ch_rows db) \<and>
     list_all (\<lambda>r. 1 \<le> ch_step r \<and> ch_approver r \<noteq> ch_employee r) (ch_rows db)"

lemma chain_inv_basic: "chain_inv db \<longleftrightarrow> basic_inv db \<and> l2_has_l1 (ch_rows db)"
  by (auto simp: chain_inv_def basic_inv_def)

lemma chain_inv_iff:
  "chain_inv db \<longleftrightarrow> basic_inv db \<and>
     (\<forall>e. approver_at (ch_rows db) (e, 2) \<noteq> None \<longrightarrow> approver_at (ch_rows db) (e, 1) \<noteq> None)"
  unfolding chain_inv_basic using l2_has_l1_iff[of "ch_rows db"] by (auto simp: basic_inv_def)

lemma insert_chain_basic:
  assumes "insert_chain up now i db = Inr db'" "basic_inv db"
  shows "basic_inv db'"
    and "approver_at (ch_rows db') = put_insert (approver_at (ch_rows db)) i"
    and "\<exists>r. ch_rows db' = ch_rows db @ [r] \<and> chain_active r"
proof -
  let ?r = "\<lparr>ch_id = ch_next db, ch_employee = ci_employee i, ch_step = ci_step i,
            ch_approver = ci_approver i, ch_effective_at = now, ch_ended_at = None,
            ch_created_by = ci_created_by i, ch_updated_by = ci_created_by i\<rparr>"
  have r: "chain_active ?r" "chain_key ?r = ins_key i" "ch_id ?r = ch_next db"
    by (simp_all add: chain_active_def chain_key_def ins_key_def)
  have db': "db' = db\<lparr>ch_rows := ch_rows db @ [?r], ch_next := ch_next db + 1\<rparr>"
    and chk: "1 \<le> ci_step i" "ci_approver i \<noteq> ci_employee i"
    and free: "\<forall>q \<in> set (ch_rows db). chain_active q \<longrightarrow> chain_key q \<noteq> ins_key i"
    using assms(1) by (auto simp: insert_chain_def list_ex_iff ins_key_def split: if_splits)
  have none: "active_row (ch_rows db) (ins_key i) = None"
    using free by (simp add: active_row_None)
  have "unique_active chain_active chain_key (ch_rows db @ [?r])"
    using assms(2) free r by (auto simp: unique_active_snoc basic_inv_def)
  moreover have "serial_ok ch_id (ch_next db + 1) (ch_rows db @ [?r])"
    using assms(2) by (intro serial_ok_snoc) (simp_all add: basic_inv_def)
  ultimately show "basic_inv db'"
    using assms(2) chk by (simp add: db' basic_inv_def)
  show "approver_at (ch_rows db') = put_insert (approver_at (ch_rows db)) i"
    using none r by (auto simp: db' approver_at_def active_row_snoc put_insert_def fun_eq_iff
        split: option.splits)
  show "\<exists>r. ch_rows db' = ch_rows db @ [r] \<and> chain_active r"
    using r by (auto simp: db')
qed

lemma insert_chains_basic:
  assumes "insert_chains up now is db = Inr db'" "basic_inv db"
  shows "basic_inv db' \<and> approver_at (ch_rows db') = foldl put_insert (approver_at (ch_rows db)) is
    \<and> (\<exists>new. ch_rows db' = ch_rows db @ new \<and> list_all chain_active new)"
  using assms
proof (induction "is" arbitrary: db)
  case (Cons i "is")
  then obtain d where d: "insert_chain up now i db = Inr d" "insert_chains up now is d = Inr db'"
    by (auto simp: bindR_eq_Inr)
  note one = insert_chain_basic[OF d(1) Cons.prems(2)]
  from Cons.IH[OF d(2) one(1)] one(2,3) show ?case by auto
qed simp

lemma insert_chain_ok:
  assumes "1 \<le> ci_step i" "ci_approver i \<noteq> ci_employee i"
    and "user_row up (ci_employee i)" "user_row up (ci_approver i)"
    and "\<forall>r \<in> set (ch_rows db). chain_key r = ins_key i \<longrightarrow> \<not> chain_active r \<and> ch_effective_at r < now"
  shows "\<exists>r. insert_chain up now i db =
      Inr (db\<lparr>ch_rows := ch_rows db @ [r], ch_next := ch_next db + 1\<rparr>) \<and> chain_key r = ins_key i"
  using assms by (auto simp: insert_chain_def list_ex_iff ins_key_def chain_key_def)

lemma insert_chains_ok:
  assumes "list_all (\<lambda>i. 1 \<le> ci_step i \<and> ci_approver i \<noteq> ci_employee i \<and>
      user_row up (ci_employee i) \<and> user_row up (ci_approver i)) is"
    and "distinct (map ins_key is)"
    and "\<forall>i \<in> set is. \<forall>r \<in> set (ch_rows db).
      chain_key r = ins_key i \<longrightarrow> \<not> chain_active r \<and> ch_effective_at r < now"
  shows "\<exists>db'. insert_chains up now is db = Inr db'"
  using assms
proof (induction "is" arbitrary: db)
  case (Cons i "is")
  obtain r where r: "insert_chain up now i db =
      Inr (db\<lparr>ch_rows := ch_rows db @ [r], ch_next := ch_next db + 1\<rparr>)" "chain_key r = ins_key i"
    using insert_chain_ok[of i up db now] Cons.prems(1,3) by auto
  have "\<exists>db'. insert_chains up now is
      (db\<lparr>ch_rows := ch_rows db @ [r], ch_next := ch_next db + 1\<rparr>) = Inr db'"
    using Cons.prems r(2) by (intro Cons.IH) auto
  then show ?case using r(1) by simp
qed simp

definition ended_key :: "chain_db \<Rightarrow> int list \<Rightarrow> int \<times> int \<Rightarrow> bool" where
  "ended_key db ends k \<longleftrightarrow>
     (case active_row (ch_rows db) k of Some r \<Rightarrow> ch_id r \<in> set ends | None \<Rightarrow> False)"

lemma end_rows_rows:
  "ch_rows (end_rows now actor ends db) =
     update_where (\<lambda>r. ch_id r \<in> set ends) (end_chain (now, actor)) (ch_rows db)"
  by (simp add: end_rows_def update_where_def)

lemma end_chain_simps [simp]:
  "ch_id (end_chain a r) = ch_id r" "chain_key (end_chain a r) = chain_key r"
  "ch_step (end_chain a r) = ch_step r" "ch_employee (end_chain a r) = ch_employee r"
  "ch_approver (end_chain a r) = ch_approver r" "ch_effective_at (end_chain a r) = ch_effective_at r"
  "\<not> chain_active (end_chain a r)"
  by (simp_all add: end_chain_def chain_key_def chain_active_def)

lemma end_rows_member:
  "r \<in> set (ch_rows (end_rows now actor ends db)) \<longleftrightarrow>
     (\<exists>s \<in> set (ch_rows db). if ch_id s \<in> set ends then r = end_chain (now, actor) s else r = s)"
  by (auto simp: end_rows_rows table_simps)

lemma approver_at_None: "approver_at rows k = None \<longleftrightarrow> active_row rows k = None"
  by (simp add: approver_at_def)

lemma end_rows_basic:
  assumes "basic_inv db"
  shows "basic_inv (end_rows now actor ends db)"
proof -
  have "list_all (\<lambda>r. 1 \<le> ch_step r \<and> ch_approver r \<noteq> ch_employee r)
          (ch_rows (end_rows now actor ends db))"
    using assms by (auto simp: end_rows_member basic_inv_def list_all_iff split: if_splits)
  moreover have "ch_next (end_rows now actor ends db) = ch_next db"
    by (simp add: end_rows_def)
  ultimately show ?thesis
    using assms chain_index.retire_preserves chain_index.retire_serial
    by (simp add: basic_inv_def end_rows_rows)
qed

lemma end_rows_lookup:
  assumes "basic_inv db"
  shows "approver_at (ch_rows (end_rows now actor ends db)) k =
    (if ended_key db ends k then None else approver_at (ch_rows db) k)"
proof (cases "active_row (ch_rows db) k")
  case None
  then have "active_row (ch_rows (end_rows now actor ends db)) k = None"
    by (auto simp: active_row_None end_rows_member split: if_splits)
  then show ?thesis using None by (simp add: approver_at_def ended_key_def)
next
  case (Some r)
  let ?rows = "ch_rows (end_rows now actor ends db)"
  have r: "r \<in> set (ch_rows db)" "chain_active r" "chain_key r = k"
    using active_row_Some[OF Some] by simp_all
  have u: "unique_active chain_active chain_key (ch_rows db)" "unique_active chain_active chain_key ?rows"
    using assms end_rows_basic[OF assms] by (simp_all add: basic_inv_def)
  show ?thesis
  proof (cases "ch_id r \<in> set ends")
    case True
    have "chain_key q \<noteq> k" if "q \<in> set ?rows" "chain_active q" for q
    proof
      assume "chain_key q = k"
      then have "q \<in> set (ch_rows db)" "ch_id q \<notin> set ends"
        using that by (auto simp: end_rows_member split: if_splits) (metis end_chain_simps(7))+
      then have "q = r"
        using unique_active_inj[OF u(1) _ r(1) that(2) r(2)] \<open>chain_key q = k\<close> r(3) by simp
      then show False using True \<open>ch_id q \<notin> set ends\<close> by simp
    qed
    then have "active_row ?rows k = None" by (simp add: active_row_None)
    then show ?thesis using Some True by (simp add: approver_at_def ended_key_def)
  next
    case False
    then have "r \<in> set ?rows" using r(1) by (auto simp: end_rows_rows table_simps)
    then have "active_row ?rows k = Some r" using active_row_eq[OF u(2)] r by blast
    then show ?thesis using Some False by (simp add: approver_at_def ended_key_def)
  qed
qed

text \<open>A committed transaction: the constraints hold and the abstract map is updated.\<close>

lemma applyStepChanges_effect:
  assumes "applyStepChanges up now ends inserts actor db = Inr db'" "basic_inv db"
  shows "basic_inv db'"
    and "approver_at (ch_rows db') =
      foldl put_insert (\<lambda>k. if ended_key db ends k then None else approver_at (ch_rows db) k) inserts"
    and "\<exists>new. ch_rows db' =
      update_where (\<lambda>r. ch_id r \<in> set ends) (end_chain (now, actor)) (ch_rows db) @ new
      \<and> list_all chain_active new"
proof -
  note b = end_rows_basic[OF assms(2), of now actor ends]
  have "approver_at (ch_rows (end_rows now actor ends db)) =
      (\<lambda>k. if ended_key db ends k then None else approver_at (ch_rows db) k)"
    using end_rows_lookup[OF assms(2)] by (simp add: fun_eq_iff)
  with insert_chains_basic[OF assms(1)[unfolded applyStepChanges_def] b]
  show "basic_inv db'"
    and "approver_at (ch_rows db') =
      foldl put_insert (\<lambda>k. if ended_key db ends k then None else approver_at (ch_rows db) k) inserts"
    and "\<exists>new. ch_rows db' =
      update_where (\<lambda>r. ch_id r \<in> set ends) (end_chain (now, actor)) (ch_rows db) @ new
      \<and> list_all chain_active new"
    by (simp_all add: end_rows_rows)
qed

lemma applyStepChanges_ok:
  assumes "basic_inv db" "later now db"
    and "list_all (\<lambda>i. 1 \<le> ci_step i \<and> ci_approver i \<noteq> ci_employee i \<and>
      user_row up (ci_employee i) \<and> user_row up (ci_approver i)) inserts"
    and "distinct (map ins_key inserts)"
    and "\<And>i. i \<in> set inserts \<Longrightarrow>
      active_row (ch_rows db) (ins_key i) = None \<or> ended_key db ends (ins_key i)"
  shows "\<exists>db'. applyStepChanges up now ends inserts actor db = Inr db'"
  unfolding applyStepChanges_def
proof (rule insert_chains_ok[OF assms(3,4)], intro ballI impI)
  fix i r
  assume i: "i \<in> set inserts" and r: "r \<in> set (ch_rows (end_rows now actor ends db))"
    and k: "chain_key r = ins_key i"
  have "approver_at (ch_rows (end_rows now actor ends db)) (ins_key i) = None"
    using assms(5)[OF i] unfolding end_rows_lookup[OF assms(1)] by (auto simp: approver_at_None)
  then have "\<not> chain_active r"
    using r k by (auto simp: approver_at_None active_row_None)
  moreover have "ch_effective_at r < now"
    using r assms(2) by (auto simp: end_rows_member later_def list_all_iff split: if_splits)
  ultimately show "\<not> chain_active r \<and> ch_effective_at r < now" ..
qed

section \<open>The computed changes\<close>

definition ended_of :: "chain list \<Rightarrow> int \<Rightarrow> int tri \<Rightarrow> chain list" where
  "ended_of rows s v =
     (case by_step rows s of
        None \<Rightarrow> []
      | Some r \<Rightarrow> (case v of Undefined \<Rightarrow> [] | Null \<Rightarrow> [r]
          | Val a \<Rightarrow> if ch_approver r = a then [] else [r]))"

definition patched :: "int \<Rightarrow> set_chain_input \<Rightarrow> (int \<times> int \<Rightarrow> int option) \<Rightarrow> int \<times> int \<Rightarrow> int option" where
  "patched e inp m k =
     (if k = (e, 1) then tri_apply (set_l1 inp) (m k)
      else if k = (e, 2) then tri_apply (set_l2 inp) (m k) else m k)"

lemma step_change_ends: "fst (step_change e actor rows s v) = map ch_id (ended_of rows s v)"
  by (simp add: step_change_def ended_of_def Let_def split: tri.splits option.splits)

lemma step_change_inserts:
  "snd (step_change e actor rows s v) =
     (case v of Val a \<Rightarrow>
        (case by_step rows s of
           Some r \<Rightarrow> if ch_approver r = a then []
             else [\<lparr>ci_employee = e, ci_step = s, ci_approver = a, ci_created_by = actor\<rparr>]
         | None \<Rightarrow> [\<lparr>ci_employee = e, ci_step = s, ci_approver = a, ci_created_by = actor\<rparr>])
      | _ \<Rightarrow> [])"
  by (simp add: step_change_def Let_def split: tri.splits option.splits)

lemma ended_key_rows:
  assumes "basic_inv db" "\<forall>r \<in> set rs. active_row (ch_rows db) (chain_key r) = Some r"
  shows "ended_key db (map ch_id rs) k \<longleftrightarrow> k \<in> chain_key ` set rs"
proof
  assume "ended_key db (map ch_id rs) k"
  then obtain r q where r: "active_row (ch_rows db) k = Some r" "q \<in> set rs" "ch_id r = ch_id q"
    by (auto simp: ended_key_def split: option.splits)
  then have "r \<in> set (ch_rows db)" "q \<in> set (ch_rows db)" "chain_key r = k"
    using assms(2) active_row_Some by blast+
  then have "r = q"
    using serial_ok_inj[of ch_id "ch_next db" "ch_rows db" r q] assms(1) r(3)
    by (simp add: basic_inv_def)
  then show "k \<in> chain_key ` set rs"
    using r(2) \<open>chain_key r = k\<close> by blast
qed (use assms(2) in \<open>auto simp: ended_key_def\<close>)

lemma computeStepChanges_Inr:
  "computeStepChanges e rows inp actor = Inr (ends, inserts) \<longleftrightarrow>
     \<not> (tri_apply (set_l2 inp) (map_option ch_approver (by_step rows 2)) \<noteq> None \<and>
        tri_apply (set_l1 inp) (map_option ch_approver (by_step rows 1)) = None) \<and>
     ends = map ch_id (ended_of rows 1 (set_l1 inp) @ ended_of rows 2 (set_l2 inp)) \<and>
     inserts = snd (step_change e actor rows 1 (set_l1 inp)) @ snd (step_change e actor rows 2 (set_l2 inp))"
  by (auto simp: computeStepChanges_def Let_def step_change_ends)

lemma ended_of_key:
  assumes "by_step rows s = active_row all (e, s)" "r \<in> set (ended_of rows s v)"
  shows "active_row all (chain_key r) = Some r" "chain_key r = (e, s)"
proof -
  have "active_row all (e, s) = Some r"
    using assms by (cases v) (auto simp: ended_of_def split: option.splits if_splits)
  then show "active_row all (chain_key r) = Some r" "chain_key r = (e, s)"
    using active_row_Some by force+
qed

lemma compute_insert_cases:
  assumes "computeStepChanges e rows inp actor = Inr (ends, inserts)" "i \<in> set inserts"
  shows "ci_employee i = e" and "ci_step i = 1 \<and> set_l1 inp = Val (ci_approver i) \<or>
    ci_step i = 2 \<and> set_l2 inp = Val (ci_approver i)"
  using assms
  by (auto simp: computeStepChanges_Inr step_change_inserts split: tri.splits option.splits if_splits)

lemma step_change_puts:
  "foldl put_insert m (snd (step_change e actor rows s v)) k =
     (case v of Val a \<Rightarrow>
        if k = (e, s) \<and> map_option ch_approver (by_step rows s) \<noteq> Some a then Some a else m k
      | _ \<Rightarrow> m k)"
  by (auto simp: step_change_inserts put_insert_def ins_key_def split: tri.splits option.splits)

lemma ended_of_Nil:
  "ended_of rows s v = [] \<longleftrightarrow>
     (case v of Undefined \<Rightarrow> True | Null \<Rightarrow> by_step rows s = None
      | Val a \<Rightarrow> by_step rows s = None \<or> map_option ch_approver (by_step rows s) = Some a)"
  by (auto simp: ended_of_def split: tri.splits option.splits)

lemma compute_effect:
  assumes "basic_inv db"
    and "\<And>s. by_step rows s = active_row (ch_rows db) (e, s)"
    and "computeStepChanges e rows inp actor = Inr (ends, inserts)"
  shows "foldl put_insert (\<lambda>k. if ended_key db ends k then None else approver_at (ch_rows db) k) inserts
      = patched e inp (approver_at (ch_rows db))"
    and "distinct (map ins_key inserts)"
    and "\<And>i. i \<in> set inserts \<Longrightarrow>
      active_row (ch_rows db) (ins_key i) = None \<or> ended_key db ends (ins_key i)"
proof -
  let ?rs = "ended_of rows 1 (set_l1 inp) @ ended_of rows 2 (set_l2 inp)"
  have ends: "ends = map ch_id ?rs"
    and ins: "inserts = snd (step_change e actor rows 1 (set_l1 inp)) @
      snd (step_change e actor rows 2 (set_l2 inp))"
    using assms(3) by (simp_all add: computeStepChanges_Inr)
  have ek: "ended_key db ends k \<longleftrightarrow> k \<in> chain_key ` set ?rs" for k
    unfolding ends using ended_of_key(1)[OF assms(2)] by (intro ended_key_rows[OF assms(1)]) auto
  have k1: "chain_key ` set (ended_of rows s v) =
      (if ended_of rows s v = [] then {} else {(e, s)})" for s v
    using ended_of_key(2)[OF assms(2), of _ s v]
    by (auto simp: image_iff neq_Nil_conv)
  have ekk: "ended_key db ends k \<longleftrightarrow>
      k = (e, 1) \<and> ended_of rows 1 (set_l1 inp) \<noteq> [] \<or> k = (e, 2) \<and> ended_of rows 2 (set_l2 inp) \<noteq> []" for k
    unfolding ek set_append image_Un k1 by auto
  have cur: "map_option ch_approver (by_step rows s) = approver_at (ch_rows db) (e, s)" for s
    by (simp add: assms(2) approver_at_def)
  have nil: "by_step rows s = None \<longleftrightarrow> approver_at (ch_rows db) (e, s) = None" for s
    by (simp add: assms(2) approver_at_def)
  show "foldl put_insert (\<lambda>k. if ended_key db ends k then None else approver_at (ch_rows db) k) inserts
      = patched e inp (approver_at (ch_rows db))"
  proof
    fix k :: "int \<times> int"
    consider "k = (e, 1)" | "k = (e, 2)" | "k \<noteq> (e, 1)" "k \<noteq> (e, 2)" by blast
    then show "foldl put_insert (\<lambda>k. if ended_key db ends k then None else approver_at (ch_rows db) k)
        inserts k = patched e inp (approver_at (ch_rows db)) k"
    proof cases
      case 1
      then show ?thesis
        by (cases "set_l1 inp"; cases "set_l2 inp")
          (simp_all add: ins step_change_puts patched_def ekk ended_of_Nil cur nil)
    next
      case 2
      then show ?thesis
        by (cases "set_l1 inp"; cases "set_l2 inp")
          (simp_all add: ins step_change_puts patched_def ekk ended_of_Nil cur nil)
    next
      case 3
      then show ?thesis
        by (cases "set_l1 inp"; cases "set_l2 inp")
          (simp_all add: ins step_change_puts patched_def ekk)
    qed
  qed
  show "distinct (map ins_key inserts)"
    by (auto simp: ins step_change_inserts ins_key_def split: tri.splits option.splits if_splits)
  show "active_row (ch_rows db) (ins_key i) = None \<or> ended_key db ends (ins_key i)"
    if "i \<in> set inserts" for i
  proof -
    have "by_step rows (ci_step i) = None \<or> ended_key db ends (ins_key i)"
      using that
      by (auto simp: ins step_change_inserts ekk ended_of_Nil ins_key_def
          split: tri.splits option.splits if_splits)
    moreover have "ins_key i = (e, ci_step i)"
      using compute_insert_cases(1)[OF assms(3) that] by (simp add: ins_key_def)
    ultimately show ?thesis by (simp add: assms(2))
  qed
qed

section \<open>The services keep the contract\<close>

definition valid_approver :: "user_port \<Rightarrow> int \<Rightarrow> int tri \<Rightarrow> bool" where
  "valid_approver up e t =
     (case t of Val a \<Rightarrow> a \<noteq> e \<and> (case find_user up a of None \<Rightarrow> False | Some u \<Rightarrow> usr_is_active u)
      | _ \<Rightarrow> True)"

lemma assertUserActive_Inr:
  "assertUserActive up a = Inr u \<longleftrightarrow>
     (case find_user up a of None \<Rightarrow> False | Some u \<Rightarrow> usr_is_active u)"
  by (simp add: assertUserActive_def split: option.splits)

lemma check_valid_approver:
  "check_tri (\<lambda>a. assertValidApprover up a e) t = Inr u \<longleftrightarrow> valid_approver up e t"
  by (auto simp: check_tri_def valid_approver_def assertValidApprover_def assertUserActive_Inr
      split: tri.splits)

lemma commit_eq:
  "commit up now actor ends inserts k db =
     (case applyStepChanges up now ends inserts actor db of
        Inl er \<Rightarrow> (db, Inl er) | Inr db' \<Rightarrow> (db', Inr (k db')))"
  by (auto simp: commit_def applyStepChanges_def end_rows_def)

lemma commit_invariant:
  assumes "basic_inv db" "Q (approver_at (ch_rows db))"
    and "Q (foldl put_insert (\<lambda>k. if ended_key db ends k then None else approver_at (ch_rows db) k) inserts)"
  shows "basic_inv (fst (commit up now actor ends inserts f db)) \<and>
    Q (approver_at (ch_rows (fst (commit up now actor ends inserts f db))))"
proof (cases "applyStepChanges up now ends inserts actor db")
  case (Inr db')
  then show ?thesis
    using applyStepChanges_effect[OF Inr assms(1)] assms(3) by (simp add: commit_eq)
qed (use assms in \<open>simp add: commit_eq\<close>)

abbreviation levels_ok :: "(int \<times> int \<Rightarrow> int option) \<Rightarrow> bool" where
  "levels_ok m \<equiv> (\<forall>e. m (e, 2) \<noteq> None \<longrightarrow> m (e, 1) \<noteq> None)"

lemma setChain_cases:
  obtains (error) er where "setChain up now e inp actor db = (db, Inl er)"
  | (commit) ends inserts where
      "find_user up e \<noteq> None" "valid_approver up e (set_l1 inp)" "valid_approver up e (set_l2 inp)"
      "computeStepChanges e (findActiveForEmployee db e) inp actor = Inr (ends, inserts)"
      "setChain up now e inp actor db = commit up now actor ends inserts (\<lambda>d. getActive d e) db"
proof (cases "bindR (orNotFound (find_user up e) ''User'' e) (\<lambda>_.
           bindR (check_tri (\<lambda>a. assertValidApprover up a e) (set_l1 inp)) (\<lambda>_.
           bindR (check_tri (\<lambda>a. assertValidApprover up a e) (set_l2 inp)) (\<lambda>_.
             computeStepChanges e (findActiveForEmployee db e) inp actor)))")
  case (Inl er)
  then show ?thesis by (intro error[of er]) (simp add: setChain_def)
next
  case (Inr p)
  obtain ends inserts where p: "p = (ends, inserts)" by fastforce
  have "setChain up now e inp actor db = commit up now actor ends inserts (\<lambda>d. getActive d e) db"
    unfolding setChain_def Inr p by simp
  with Inr p show ?thesis
    by (intro commit[of ends inserts]) (auto simp: result_simps check_valid_approver)
qed

lemma compute_levels:
  assumes "basic_inv db"
    and "\<And>s. by_step rows s = active_row (ch_rows db) (e, s)"
    and "computeStepChanges e rows inp actor = Inr (ends, inserts)"
    and "levels_ok (approver_at (ch_rows db))"
  shows "levels_ok (patched e inp (approver_at (ch_rows db)))"
  using assms(3,4) by (auto simp: computeStepChanges_Inr patched_def assms(2) approver_at_def)

lemma setChain_commit:
  assumes "chain_inv db"
    and "computeStepChanges e (findActiveForEmployee db e) inp actor = Inr (ends, inserts)"
  shows "foldl put_insert (\<lambda>k. if ended_key db ends k then None else approver_at (ch_rows db) k) inserts
      = patched e inp (approver_at (ch_rows db))"
    and "levels_ok (patched e inp (approver_at (ch_rows db)))"
    and "distinct (map ins_key inserts)"
    and "\<And>i. i \<in> set inserts \<Longrightarrow>
      active_row (ch_rows db) (ins_key i) = None \<or> ended_key db ends (ins_key i)"
proof -
  have b: "basic_inv db" and l: "levels_ok (approver_at (ch_rows db))"
    using assms(1) by (simp_all add: chain_inv_iff)
  have s: "by_step (findActiveForEmployee db e) s = active_row (ch_rows db) (e, s)" for s
    using b by (intro by_step_findActive) (simp add: basic_inv_def)
  show "foldl put_insert (\<lambda>k. if ended_key db ends k then None else approver_at (ch_rows db) k) inserts
      = patched e inp (approver_at (ch_rows db))"
    "levels_ok (patched e inp (approver_at (ch_rows db)))" "distinct (map ins_key inserts)"
    using compute_effect[OF b s assms(2)] compute_levels[OF b s assms(2) l] by blast+
  show "active_row (ch_rows db) (ins_key i) = None \<or> ended_key db ends (ins_key i)"
    if "i \<in> set inserts" for i
    using compute_effect(3)[OF b s assms(2) that] .
qed

lemma setChain_preserves:
  assumes "chain_inv db"
  shows "chain_inv (fst (setChain up now e inp actor db))"
proof (cases rule: setChain_cases[of up now e inp actor db])
  case (commit ends inserts)
  have "basic_inv db" "levels_ok (approver_at (ch_rows db))"
    using assms by (simp_all add: chain_inv_iff)
  then show ?thesis
    using commit_invariant[of db levels_ok ends inserts] setChain_commit[OF assms commit(4)]
    unfolding commit(5) chain_inv_iff by simp
qed (simp add: assms)

lemma setChain_effect:
  assumes "chain_inv db" "setChain up now e inp actor db = (db', Inr c)"
  shows "approver_at (ch_rows db') = patched e inp (approver_at (ch_rows db))"
    and "c = \<lparr>l1_approver_id = approver_at (ch_rows db') (e, 1),
              l2_approver_id = approver_at (ch_rows db') (e, 2)\<rparr>"
proof -
  have b: "basic_inv db" using assms(1) by (simp add: chain_inv_iff)
  show "approver_at (ch_rows db') = patched e inp (approver_at (ch_rows db))"
  proof (cases rule: setChain_cases[of up now e inp actor db])
    case (commit ends inserts)
    then have "applyStepChanges up now ends inserts actor db = Inr db'"
      using assms(2) by (simp add: commit_eq split: sum.splits)
    then show ?thesis
      using applyStepChanges_effect(2)[OF _ b] setChain_commit(1)[OF assms(1) commit(4)] by simp
  qed (use assms(2) in simp)
  have "c = getActive db' e"
  proof (cases rule: setChain_cases[of up now e inp actor db])
    case (commit ends inserts)
    then show ?thesis using assms(2) by (simp add: commit_eq split: sum.splits)
  qed (use assms(2) in simp)
  moreover have "chain_inv db'"
    using setChain_preserves[OF assms(1), of up now e inp actor] assms(2) by simp
  ultimately show "c = \<lparr>l1_approver_id = approver_at (ch_rows db') (e, 1),
              l2_approver_id = approver_at (ch_rows db') (e, 2)\<rparr>"
    by (simp add: getActive_eq chain_inv_def)
qed

lemma setChain_error_unchanged:
  assumes "setChain up now e inp actor db = (db', Inl er)"
  shows "db' = db"
  using assms
  by (cases rule: setChain_cases[of up now e inp actor db]) (auto simp: commit_eq split: sum.splits)

lemma valid_approver_Val:
  assumes "valid_approver up e (Val a)" "users_ok up"
  shows "a \<noteq> e" "user_row up a"
  using assms by (auto simp: valid_approver_def users_ok_def split: option.splits)

lemma setChain_accepts:
  assumes "chain_inv db" "later now db" "users_ok up"
  shows "okR (snd (setChain up now e inp actor db)) \<longleftrightarrow>
    find_user up e \<noteq> None \<and> valid_approver up e (set_l1 inp) \<and> valid_approver up e (set_l2 inp) \<and>
    (patched e inp (approver_at (ch_rows db)) (e, 2) = None \<or>
     patched e inp (approver_at (ch_rows db)) (e, 1) \<noteq> None)"
    (is "_ \<longleftrightarrow> ?R")
proof
  assume ok: "okR (snd (setChain up now e inp actor db))"
  show ?R
  proof (cases rule: setChain_cases[of up now e inp actor db])
    case (commit ends inserts)
    then show ?thesis using setChain_commit(2)[OF assms(1) commit(4)] by blast
  qed (use ok in simp)
next
  assume R: ?R
  have b: "basic_inv db" using assms(1) by (simp add: chain_inv_iff)
  have s: "by_step (findActiveForEmployee db e) s = active_row (ch_rows db) (e, s)" for s
    using b by (intro by_step_findActive) (simp add: basic_inv_def)
  have levels: "\<not> (tri_apply (set_l2 inp) (approver_at (ch_rows db) (e, 2)) \<noteq> None \<and>
      tri_apply (set_l1 inp) (approver_at (ch_rows db) (e, 1)) = None)"
    using R by (auto simp: patched_def)
  then obtain ends inserts
    where c: "computeStepChanges e (findActiveForEmployee db e) inp actor = Inr (ends, inserts)"
    using computeStepChanges_Inr[of e "findActiveForEmployee db e" inp actor]
    by (auto simp: s approver_at_def)
  have "\<exists>db'. applyStepChanges up now ends inserts actor db = Inr db'"
  proof (rule applyStepChanges_ok[OF b assms(2)])
    show "list_all (\<lambda>i. 1 \<le> ci_step i \<and> ci_approver i \<noteq> ci_employee i \<and>
      user_row up (ci_employee i) \<and> user_row up (ci_approver i)) inserts"
      unfolding list_all_iff
    proof
      fix i assume i: "i \<in> set inserts"
      have "valid_approver up e (Val (ci_approver i))" "1 \<le> ci_step i"
        using compute_insert_cases(2)[OF c i] R by auto
      moreover have "user_row up e" using R assms(3) by (simp add: users_ok_def)
      ultimately show "1 \<le> ci_step i \<and> ci_approver i \<noteq> ci_employee i \<and>
          user_row up (ci_employee i) \<and> user_row up (ci_approver i)"
        using valid_approver_Val[of up e "ci_approver i"] compute_insert_cases(1)[OF c i] assms(3)
        by simp
    qed
  qed (use setChain_commit(3,4)[OF assms(1) c] in blast)+
  then obtain db' where "applyStepChanges up now ends inserts actor db = Inr db'" ..
  moreover obtain u where "find_user up e = Some u" using R by blast
  moreover have "check_tri (\<lambda>a. assertValidApprover up a e) (set_l1 inp) = Inr ()"
    "check_tri (\<lambda>a. assertValidApprover up a e) (set_l2 inp) = Inr ()"
    using R by (simp_all add: check_valid_approver)
  ultimately show "okR (snd (setChain up now e inp actor db))"
    by (simp add: setChain_def c commit_eq orNotFound_def)
qed

lemma findActive_find:
  assumes "basic_inv db"
  shows "find (\<lambda>r. ch_step r = s) (findActiveForEmployee db e) = active_row (ch_rows db) (e, s)"
proof -
  have "by_step (rev (findActiveForEmployee db e)) s = active_row (ch_rows db) (e, s)"
    using assms by (intro by_step_eq_active_row) (auto simp: basic_inv_def findActiveForEmployee_def)
  then show ?thesis by (simp add: by_step_def)
qed

lemma findActive_ex:
  "list_ex (\<lambda>r. ch_step r = s) (findActiveForEmployee db e) \<longleftrightarrow> active_row (ch_rows db) (e, s) \<noteq> None"
  by (auto simp: list_ex_iff findActiveForEmployee_def active_row_None chain_key_def)

lemma endStep_spec:
  assumes "chain_inv db"
  shows "endStep up now e s actor db =
    (if approver_at (ch_rows db) (e, s) = None then (db, Inl NotFoundPlain)
     else if s = 1 \<and> approver_at (ch_rows db) (e, 2) \<noteq> None then (db, Inl (unprocessable ''step''))
     else (let db' = end_rows now actor [ch_id (the (active_row (ch_rows db) (e, s)))] db
           in (db', Inr (getActive db' e))))"
  using assms
  by (auto simp: endStep_def findActive_find findActive_ex chain_inv_iff approver_at_None commit_eq
      applyStepChanges_def Let_def split: option.splits)

lemma endStep_lookup:
  assumes "basic_inv db" "active_row (ch_rows db) k = Some r"
  shows "approver_at (ch_rows (end_rows now actor [ch_id r] db)) = (approver_at (ch_rows db))(k := None)"
proof -
  have "\<forall>q \<in> set [r]. active_row (ch_rows db) (chain_key q) = Some q"
    using assms(2) active_row_Some[OF assms(2)] by simp
  from ended_key_rows[OF assms(1) this] have "ended_key db [ch_id r] j \<longleftrightarrow> j = k" for j
    using active_row_Some[OF assms(2)] by auto
  then show ?thesis by (simp add: end_rows_lookup[OF assms(1)] fun_eq_iff)
qed

lemma endStep_preserves:
  assumes "chain_inv db"
  shows "chain_inv (fst (endStep up now e s actor db))"
proof (cases "active_row (ch_rows db) (e, s)")
  case None
  then show ?thesis using assms by (simp add: endStep_spec approver_at_None)
next
  case (Some r)
  have b: "basic_inv db" and l: "levels_ok (approver_at (ch_rows db))"
    using assms by (simp_all add: chain_inv_iff)
  show ?thesis
  proof (cases "s = 1 \<and> approver_at (ch_rows db) (e, 2) \<noteq> None")
    case False
    let ?db = "end_rows now actor [ch_id r] db"
    have "levels_ok ((approver_at (ch_rows db))((e, s) := None))"
      using l False by auto
    then have "chain_inv ?db"
      unfolding chain_inv_iff endStep_lookup[OF b Some] using end_rows_basic[OF b] by blast
    moreover have "endStep up now e s actor db = (?db, Inr (getActive ?db e))"
      using Some False by (auto simp: endStep_spec[OF assms] approver_at_None Let_def)
    ultimately show ?thesis by simp
  qed (use assms in \<open>simp add: endStep_spec\<close>)
qed

section \<open>Bulk operations\<close>

lemma foldl_put_uniform:
  assumes "\<And>i. i \<in> set is \<Longrightarrow> ci_approver i = f (ins_key i)"
  shows "foldl put_insert m is k = (if k \<in> ins_key ` set is then Some (f k) else m k)"
  using assms
proof (induction "is" arbitrary: m)
  case (Cons i "is")
  then show ?case by (auto simp: put_insert_def)
qed simp

definition moved_rows :: "chain_db \<Rightarrow> int \<Rightarrow> int \<Rightarrow> chain list" where
  "moved_rows db from_id to_id = filter (\<lambda>r. ch_employee r \<noteq> to_id) (findActiveByApprover db from_id)"

lemma moved_rows_set:
  "set (moved_rows db from_id to_id) =
     {r \<in> set (ch_rows db). chain_active r \<and> ch_approver r = from_id \<and> ch_employee r \<noteq> to_id}"
  by (auto simp: moved_rows_def findActiveByApprover_def)

lemma moved_rows_keys:
  assumes "basic_inv db"
  shows "k \<in> chain_key ` set (moved_rows db from_id to_id) \<longleftrightarrow>
    approver_at (ch_rows db) k = Some from_id \<and> fst k \<noteq> to_id"
proof
  assume "k \<in> chain_key ` set (moved_rows db from_id to_id)"
  then obtain r where "r \<in> set (ch_rows db)" "chain_active r" "ch_approver r = from_id"
      "ch_employee r \<noteq> to_id" "chain_key r = k"
    by (auto simp: moved_rows_set)
  moreover from this have "active_row (ch_rows db) k = Some r"
    using active_row_eq[of "ch_rows db" r] assms by (simp add: basic_inv_def)
  ultimately show "approver_at (ch_rows db) k = Some from_id \<and> fst k \<noteq> to_id"
    by (auto simp: approver_at_def chain_key_def)
next
  assume "approver_at (ch_rows db) k = Some from_id \<and> fst k \<noteq> to_id"
  then show "k \<in> chain_key ` set (moved_rows db from_id to_id)"
    by (auto simp: approver_at_def moved_rows_set chain_key_def dest!: active_row_Some)
qed

lemma moved_rows_distinct:
  assumes "basic_inv db"
  shows "distinct (map chain_key (moved_rows db from_id to_id))"
  unfolding distinct_map
proof
  have "distinct (ch_rows db)"
    using assms by (auto simp: basic_inv_def serial_ok_def distinct_map)
  then show "distinct (moved_rows db from_id to_id)"
    by (simp add: moved_rows_def findActiveByApprover_def)
  show "inj_on chain_key (set (moved_rows db from_id to_id))"
    using assms by (auto simp: inj_on_def moved_rows_set basic_inv_def dest: unique_active_inj)
qed

lemma moved_rows_changes:
  fixes db :: chain_db and from_id to_id :: int and actor :: "int option"
  defines "ends \<equiv> map ch_id (moved_rows db from_id to_id)"
    and "inserts \<equiv> map (reassign_insert to_id actor) (moved_rows db from_id to_id)"
  assumes "basic_inv db"
  shows "ended_key db ends k \<longleftrightarrow> k \<in> chain_key ` set (moved_rows db from_id to_id)"
    and "map ins_key inserts = map chain_key (moved_rows db from_id to_id)"
    and "foldl put_insert (\<lambda>k. if ended_key db ends k then None else approver_at (ch_rows db) k) inserts
      = (\<lambda>k. if approver_at (ch_rows db) k = Some from_id \<and> fst k \<noteq> to_id then Some to_id
             else approver_at (ch_rows db) k)"
proof -
  have "\<forall>r \<in> set (moved_rows db from_id to_id). active_row (ch_rows db) (chain_key r) = Some r"
    using assms(3) active_row_eq by (auto simp: moved_rows_set basic_inv_def)
  then show e: "ended_key db ends k \<longleftrightarrow> k \<in> chain_key ` set (moved_rows db from_id to_id)" for k
    unfolding ends_def by (rule ended_key_rows[OF assms(3)])
  show m: "map ins_key inserts = map chain_key (moved_rows db from_id to_id)"
    by (simp add: inserts_def ins_key_def chain_key_def reassign_insert_def comp_def)
  have s: "ins_key ` set inserts = chain_key ` set (moved_rows db from_id to_id)"
    using m by (metis list.set_map)
  have "ci_approver i = to_id" if "i \<in> set inserts" for i
    using that by (auto simp: inserts_def reassign_insert_def)
  from foldl_put_uniform[of inserts "\<lambda>_. to_id", OF this]
  show "foldl put_insert (\<lambda>k. if ended_key db ends k then None else approver_at (ch_rows db) k) inserts
      = (\<lambda>k. if approver_at (ch_rows db) k = Some from_id \<and> fst k \<noteq> to_id then Some to_id
             else approver_at (ch_rows db) k)"
    by (simp add: fun_eq_iff s e moved_rows_keys[OF assms(3)])
qed

lemma bulkReassign_cases:
  obtains (error) er where "bulkReassign up now from_id to_id actor db = (db, Inl er)"
  | (commit) "from_id \<noteq> to_id" "assertUserActive up to_id = Inr ()"
      "bulkReassign up now from_id to_id actor db =
         commit up now actor (map ch_id (moved_rows db from_id to_id))
           (map (reassign_insert to_id actor) (moved_rows db from_id to_id))
           (\<lambda>_. (int (length (moved_rows db from_id to_id)),
             map ch_employee (filter (\<lambda>r. ch_employee r = to_id) (findActiveByApprover db from_id)))) db"
proof (cases "from_id = to_id \<or> assertUserActive up to_id \<noteq> Inr ()")
  case True
  then show ?thesis
    by (cases "assertUserActive up to_id"; cases "from_id = to_id")
      (auto simp: bulkReassign_def intro: error)
next
  case False
  then show ?thesis
    by (intro commit) (simp_all add: bulkReassign_def Let_def moved_rows_def)
qed

lemma bulkReassign_preserves:
  assumes "chain_inv db"
  shows "chain_inv (fst (bulkReassign up now from_id to_id actor db))"
proof (cases rule: bulkReassign_cases[of up now from_id to_id actor db])
  case commit
  have b: "basic_inv db" and l: "levels_ok (approver_at (ch_rows db))"
    using assms by (simp_all add: chain_inv_iff)
  have "levels_ok (\<lambda>k. if approver_at (ch_rows db) k = Some from_id \<and> fst k \<noteq> to_id then Some to_id
             else approver_at (ch_rows db) k)"
    using l by simp
  then show ?thesis
    unfolding commit(3) chain_inv_iff
    by (intro commit_invariant[of db levels_ok, OF b l]) (unfold moved_rows_changes(3)[OF b])
qed (use assms in simp)

lemma bulkReassign_effect:
  assumes "chain_inv db" "bulkReassign up now from_id to_id actor db = (db', Inr (n, skipped))"
  shows "approver_at (ch_rows db') k =
      (if approver_at (ch_rows db) k = Some from_id \<and> fst k \<noteq> to_id then Some to_id
       else approver_at (ch_rows db) k)"
    and "n = int (card {k. approver_at (ch_rows db) k = Some from_id \<and> fst k \<noteq> to_id})"
    and "set skipped = {e. \<exists>s. approver_at (ch_rows db) (e, s) = Some from_id \<and> e = to_id}"
proof -
  have b: "basic_inv db" using assms(1) by (simp add: chain_inv_iff)
  have u: "unique_active chain_active chain_key (ch_rows db)" using b by (simp add: basic_inv_def)
  have "applyStepChanges up now (map ch_id (moved_rows db from_id to_id))
      (map (reassign_insert to_id actor) (moved_rows db from_id to_id)) actor db = Inr db' \<and>
      n = int (length (moved_rows db from_id to_id)) \<and>
      skipped = map ch_employee (filter (\<lambda>r. ch_employee r = to_id) (findActiveByApprover db from_id))"
  proof (cases rule: bulkReassign_cases[of up now from_id to_id actor db])
    case commit
    then show ?thesis
      using assms(2) by (simp add: commit_eq split: sum.splits)
  qed (use assms(2) in simp)
  then have c1: "applyStepChanges up now (map ch_id (moved_rows db from_id to_id))
      (map (reassign_insert to_id actor) (moved_rows db from_id to_id)) actor db = Inr db'"
    and c2: "n = int (length (moved_rows db from_id to_id))"
    and c3: "skipped = map ch_employee (filter (\<lambda>r. ch_employee r = to_id) (findActiveByApprover db from_id))"
    by blast+
  show "approver_at (ch_rows db') k =
      (if approver_at (ch_rows db) k = Some from_id \<and> fst k \<noteq> to_id then Some to_id
       else approver_at (ch_rows db) k)"
    unfolding applyStepChanges_effect(2)[OF c1 b] moved_rows_changes(3)[OF b] ..
  have "length (moved_rows db from_id to_id) = card (chain_key ` set (moved_rows db from_id to_id))"
    using moved_rows_distinct[OF b] by (metis distinct_card length_map list.set_map)
  also have "chain_key ` set (moved_rows db from_id to_id) =
      {k. approver_at (ch_rows db) k = Some from_id \<and> fst k \<noteq> to_id}"
    using moved_rows_keys[OF b] by blast
  finally show "n = int (card {k. approver_at (ch_rows db) k = Some from_id \<and> fst k \<noteq> to_id})"
    using c2 by simp
  have "approver_at (ch_rows db) (ch_employee r, ch_step r) = Some (ch_approver r)"
    if "r \<in> set (ch_rows db)" "chain_active r" for r
    using active_row_eq[OF u that] by (simp add: approver_at_def chain_key_def)
  moreover have "\<exists>r \<in> set (ch_rows db). chain_active r \<and> ch_employee r = e \<and> ch_approver r = a"
    if "approver_at (ch_rows db) (e, s) = Some a" for e s a
    using that by (auto simp: approver_at_def chain_key_def dest!: active_row_Some)
  ultimately show "set skipped = {e. \<exists>s. approver_at (ch_rows db) (e, s) = Some from_id \<and> e = to_id}"
    unfolding c3 by (fastforce simp: findActiveByApprover_def)
qed

definition assign_skip :: "bulk_assign_input \<Rightarrow> int \<Rightarrow> bool" where
  "assign_skip inp e \<longleftrightarrow> e = ba_l1 inp \<or> Val e = ba_l2 inp"

definition assign_input :: "bulk_assign_input \<Rightarrow> set_chain_input" where
  "assign_input inp = \<lparr>set_l1 = Val (ba_l1 inp), set_l2 = ba_l2 inp\<rparr>"

definition assign_ended :: "bulk_assign_input \<Rightarrow> chain list \<Rightarrow> int \<Rightarrow> chain list" where
  "assign_ended inp rows e =
     (let own = filter (\<lambda>r. ch_employee r = e) rows
      in ended_of own 1 (Val (ba_l1 inp)) @ ended_of own 2 (ba_l2 inp))"

definition assign_inserts :: "bulk_assign_input \<Rightarrow> int option \<Rightarrow> chain list \<Rightarrow> int \<Rightarrow> chain_insert list" where
  "assign_inserts inp actor rows e =
     (let own = filter (\<lambda>r. ch_employee r = e) rows
      in snd (step_change e actor own 1 (Val (ba_l1 inp))) @ snd (step_change e actor own 2 (ba_l2 inp)))"

lemma assign_compute:
  "computeStepChanges e (filter (\<lambda>r. ch_employee r = e) rows) (assign_input inp) actor =
     Inr (map ch_id (assign_ended inp rows e), assign_inserts inp actor rows e)"
  by (simp add: computeStepChanges_Inr assign_ended_def assign_inserts_def assign_input_def Let_def)

lemma assign_loop_closed:
  "assign_loop inp actor rows es =
     (let es' = filter (\<lambda>e. \<not> assign_skip inp e) es
      in Inr (int (length (filter (\<lambda>e. assign_ended inp rows e \<noteq> [] \<or> assign_inserts inp actor rows e \<noteq> []) es')),
              map ch_id (concat (map (assign_ended inp rows) es')),
              concat (map (assign_inserts inp actor rows) es'),
              filter (assign_skip inp) es))"
proof (induction es)
  case (Cons e es)
  then show ?case
    using assign_compute[of e rows inp actor]
    by (auto simp: assign_skip_def assign_input_def Let_def)
qed simp

lemma foldl_put_local:
  "m k = m' k \<Longrightarrow> foldl put_insert m is k = foldl put_insert m' is k"
proof (induction "is" arbitrary: m m')
  case (Cons i "is")
  show ?case
    unfolding foldl_Cons by (rule Cons.IH) (simp add: put_insert_def Cons.prems)
qed simp

lemma foldl_put_other:
  "\<forall>i \<in> set is. ins_key i \<noteq> k \<Longrightarrow> foldl put_insert m is k = m k"
  by (induction "is" arbitrary: m) (auto simp: put_insert_def)

lemma distinct_concat_keys:
  assumes "\<And>e i. e \<in> set es \<Longrightarrow> i \<in> set (ins e) \<Longrightarrow> ci_employee i = e" "distinct es"
    and "\<And>e. e \<in> set es \<Longrightarrow> distinct (map ins_key (ins e))"
  shows "distinct (map ins_key (concat (map ins es)))"
  using assms
proof (induction es)
  case (Cons e es)
  have "distinct (map ins_key (concat (map ins es)))"
    using Cons.prems by (intro Cons.IH) auto
  moreover have "ins_key ` set (ins e) \<inter> ins_key ` set (concat (map ins es)) = {}"
  proof -
    have "fst k = e" if "k \<in> ins_key ` set (ins e)" for k
      using that Cons.prems(1)[of e] by (auto simp: ins_key_def)
    moreover have "fst k \<in> set es" if k: "k \<in> ins_key ` set (concat (map ins es))" for k
    proof -
      obtain a i where "a \<in> set es" "i \<in> set (ins a)" "k = ins_key i" using k by auto
      then show ?thesis using Cons.prems(1)[of a i] by (simp add: ins_key_def)
    qed
    ultimately have "fst k = e \<and> fst k \<in> set es"
      if "k \<in> ins_key ` set (ins e) \<inter> ins_key ` set (concat (map ins es))" for k
      using that by blast
    moreover have "e \<notin> set es" using Cons.prems(2) by simp
    ultimately show ?thesis by blast
  qed
  ultimately show ?case
    using Cons.prems(3)[of e] by simp
qed simp

lemma foldl_put_concat:
  assumes "\<And>e i. e \<in> set es \<Longrightarrow> i \<in> set (ins e) \<Longrightarrow> ci_employee i = e" "distinct es"
  shows "foldl put_insert m (concat (map ins es)) k =
    (if fst k \<in> set es then foldl put_insert m (ins (fst k)) k else m k)"
  using assms
proof (induction es arbitrary: m)
  case (Cons e es)
  have ih: "foldl put_insert m' (concat (map ins es)) k =
      (if fst k \<in> set es then foldl put_insert m' (ins (fst k)) k else m' k)" for m'
    using Cons.prems by (intro Cons.IH) auto
  show ?case
  proof (cases "fst k = e")
    case True
    then show ?thesis using Cons.prems(2) ih by simp
  next
    case False
    then have "foldl put_insert m (ins e) k = m k"
      using Cons.prems(1)[of e] by (intro foldl_put_other) (auto simp: ins_key_def)
    then show ?thesis
      using False ih foldl_put_local[of "foldl put_insert m (ins e)" k m] by simp
  qed
qed simp

lemma findActive_many_own:
  assumes "basic_inv db" "e \<in> set es"
  shows "by_step (filter (\<lambda>r. ch_employee r = e) (findActiveForEmployees db es)) s =
    active_row (ch_rows db) (e, s)"
  using assms by (intro by_step_eq_active_row) (auto simp: basic_inv_def findActiveForEmployees_def)

lemma assign_changes:
  fixes es actor inp db
  defines "rows \<equiv> findActiveForEmployees db es"
    and "es' \<equiv> filter (\<lambda>e. \<not> assign_skip inp e) es"
  defines "ends \<equiv> map ch_id (concat (map (assign_ended inp rows) es'))"
    and "inserts \<equiv> concat (map (assign_inserts inp actor rows) es')"
  assumes b: "basic_inv db" and d: "distinct es"
  shows "foldl put_insert (\<lambda>k. if ended_key db ends k then None else approver_at (ch_rows db) k) inserts k
      = (if fst k \<in> set es' then patched (fst k) (assign_input inp) (approver_at (ch_rows db)) k
         else approver_at (ch_rows db) k)"
    and "distinct (map ins_key inserts)"
    and "\<And>i. i \<in> set inserts \<Longrightarrow>
      active_row (ch_rows db) (ins_key i) = None \<or> ended_key db ends (ins_key i)"
    and "\<And>i. i \<in> set inserts \<Longrightarrow> ci_employee i \<in> set es' \<and>
      (ci_step i = 1 \<and> ci_approver i = ba_l1 inp \<or> ci_step i = 2 \<and> ba_l2 inp = Val (ci_approver i))"
proof -
  have s: "by_step (filter (\<lambda>r. ch_employee r = e) rows) s = active_row (ch_rows db) (e, s)"
    if "e \<in> set es'" for e s
    using that unfolding rows_def es'_def by (intro findActive_many_own[OF b]) simp
  note eff = compute_effect[OF b s assign_compute[of _ rows inp actor]]
  note ins = compute_insert_cases[OF assign_compute[of _ rows inp actor]]
  have key: "active_row (ch_rows db) (chain_key r) = Some r" "fst (chain_key r) = e"
    if "e \<in> set es'" "r \<in> set (assign_ended inp rows e)" for e r
    using that ended_of_key[OF s[OF that(1)], of r] by (auto simp: assign_ended_def Let_def)
  have ek: "ended_key db ends k \<longleftrightarrow>
      fst k \<in> set es' \<and> ended_key db (map ch_id (assign_ended inp rows (fst k))) k" for k
  proof -
    have "ended_key db ends k \<longleftrightarrow> k \<in> chain_key ` set (concat (map (assign_ended inp rows) es'))"
      unfolding ends_def using key(1) by (intro ended_key_rows[OF b]) auto
    also have "\<dots> \<longleftrightarrow> fst k \<in> set es' \<and> k \<in> chain_key ` set (assign_ended inp rows (fst k))"
    proof
      assume "k \<in> chain_key ` set (concat (map (assign_ended inp rows) es'))"
      then obtain e r where "e \<in> set es'" "r \<in> set (assign_ended inp rows e)" "k = chain_key r"
        by auto
      then show "fst k \<in> set es' \<and> k \<in> chain_key ` set (assign_ended inp rows (fst k))"
        using key(2) by blast
    qed auto
    also have "\<dots> \<longleftrightarrow> fst k \<in> set es' \<and> ended_key db (map ch_id (assign_ended inp rows (fst k))) k"
      using ended_key_rows[OF b, of "assign_ended inp rows (fst k)" k] key(1) by blast
    finally show ?thesis .
  qed
  have emp: "ci_employee i = e" if "e \<in> set es'" "i \<in> set (assign_inserts inp actor rows e)" for e i
    using ins(1)[OF that(2)] .
  have "distinct es'" using d by (simp add: es'_def)
  with emp have conc: "foldl put_insert m (concat (map (assign_inserts inp actor rows) es')) k =
      (if fst k \<in> set es' then foldl put_insert m (assign_inserts inp actor rows (fst k)) k else m k)" for m k
    by (rule foldl_put_concat)
  show "foldl put_insert (\<lambda>k. if ended_key db ends k then None else approver_at (ch_rows db) k) inserts k
      = (if fst k \<in> set es' then patched (fst k) (assign_input inp) (approver_at (ch_rows db)) k
         else approver_at (ch_rows db) k)"
  proof (cases "fst k \<in> set es'")
    case True
    have "foldl put_insert (\<lambda>k. if ended_key db ends k then None else approver_at (ch_rows db) k)
        (assign_inserts inp actor rows (fst k)) k =
      foldl put_insert (\<lambda>j. if ended_key db (map ch_id (assign_ended inp rows (fst k))) j then None
        else approver_at (ch_rows db) j) (assign_inserts inp actor rows (fst k)) k"
      by (rule foldl_put_local) (simp add: ek True)
    then show ?thesis
      unfolding inserts_def conc using True eff(1)[OF True] by simp
  next
    case False
    then show ?thesis unfolding inserts_def conc by (simp add: ek)
  qed
  show "distinct (map ins_key inserts)"
    unfolding inserts_def using emp \<open>distinct es'\<close> eff(2) by (rule distinct_concat_keys)
  show "active_row (ch_rows db) (ins_key i) = None \<or> ended_key db ends (ins_key i)"
    if i: "i \<in> set inserts" for i
  proof -
    obtain e where e: "e \<in> set es'" "i \<in> set (assign_inserts inp actor rows e)"
      using i by (auto simp: inserts_def)
    then show ?thesis using eff(3)[OF e] emp[OF e] by (simp add: ek ins_key_def)
  qed
  show "ci_employee i \<in> set es' \<and>
      (ci_step i = 1 \<and> ci_approver i = ba_l1 inp \<or> ci_step i = 2 \<and> ba_l2 inp = Val (ci_approver i))"
    if i: "i \<in> set inserts" for i
  proof -
    obtain e where e: "e \<in> set es'" "i \<in> set (assign_inserts inp actor rows e)"
      using i by (auto simp: inserts_def)
    then show ?thesis using ins[OF e(2)] by (auto simp: assign_input_def)
  qed
qed

lemma bulkAssign_cases:
  fixes ids actor inp db
  defines "ids' \<equiv> dedup ids"
  defines "rows \<equiv> findActiveForEmployees db ids'"
  defines "es \<equiv> filter (\<lambda>e. \<not> assign_skip inp e) ids'"
  obtains (error) er where "bulkAssign up now ids inp actor db = (db, Inl er)"
      "ids' = [] \<or> \<not> (\<exists>u. assertUserActive up (ba_l1 inp) = Inr u) \<or>
       \<not> (\<exists>u. check_tri (assertUserActive up) (ba_l2 inp) = Inr u)"
  | (commit) n skipped where
      "ids' \<noteq> []" "assertUserActive up (ba_l1 inp) = Inr ()"
      "check_tri (assertUserActive up) (ba_l2 inp) = Inr ()" "skipped = filter (assign_skip inp) ids'"
      "bulkAssign up now ids inp actor db =
         commit up now actor (map ch_id (concat (map (assign_ended inp rows) es)))
           (concat (map (assign_inserts inp actor rows) es)) (\<lambda>_. (n, skipped)) db"
proof (cases "ids' = [] \<or> \<not> (\<exists>u. assertUserActive up (ba_l1 inp) = Inr u) \<or>
       \<not> (\<exists>u. check_tri (assertUserActive up) (ba_l2 inp) = Inr u)")
  case True
  then show ?thesis
    by (cases "ids' = []"; cases "assertUserActive up (ba_l1 inp)";
        cases "check_tri (assertUserActive up) (ba_l2 inp)")
      (auto simp: bulkAssign_def ids'_def Let_def intro: error)
next
  case False
  then have a: "assertUserActive up (ba_l1 inp) = Inr ()"
    "check_tri (assertUserActive up) (ba_l2 inp) = Inr ()" "ids' \<noteq> []"
    by auto
  then show ?thesis
    by (intro commit[OF a(3,1,2) refl])
      (simp add: bulkAssign_def assign_loop_closed Let_def ids'_def rows_def es_def)
qed

definition assigned_map ::
  "bulk_assign_input \<Rightarrow> int list \<Rightarrow> (int \<times> int \<Rightarrow> int option) \<Rightarrow> int \<times> int \<Rightarrow> int option" where
  "assigned_map inp ids m k =
     (if fst k \<in> set ids \<and> \<not> assign_skip inp (fst k) then patched (fst k) (assign_input inp) m k else m k)"

lemma dedup_set [simp]: "set (dedup xs) = set xs" "distinct (dedup xs)" "dedup xs = [] \<longleftrightarrow> xs = []"
  by (simp_all add: dedup_def)

lemma assign_levels:
  "levels_ok m \<Longrightarrow> levels_ok (assigned_map inp ids m)"
  by (simp add: assigned_map_def patched_def assign_input_def)

lemma assign_foldl:
  fixes ids actor inp db
  defines "rows \<equiv> findActiveForEmployees db (dedup ids)"
    and "es \<equiv> filter (\<lambda>e. \<not> assign_skip inp e) (dedup ids)"
  assumes "basic_inv db"
  shows "foldl put_insert
      (\<lambda>k. if ended_key db (map ch_id (concat (map (assign_ended inp rows) es))) k then None
           else approver_at (ch_rows db) k) (concat (map (assign_inserts inp actor rows) es))
    = assigned_map inp ids (approver_at (ch_rows db))"
  unfolding rows_def es_def fun_eq_iff
  by (simp add: assign_changes(1)[OF assms(3) dedup_set(2)] assigned_map_def)

lemma bulkAssign_preserves:
  assumes "chain_inv db"
  shows "chain_inv (fst (bulkAssign up now ids inp actor db))"
proof (cases rule: bulkAssign_cases[of up now ids inp actor db])
  case (commit n skipped)
  have b: "basic_inv db" and l: "levels_ok (approver_at (ch_rows db))"
    using assms by (simp_all add: chain_inv_iff)
  show ?thesis
    unfolding commit(5) chain_inv_iff
    by (intro commit_invariant[of db levels_ok, OF b l])
      (unfold assign_foldl[OF b], rule assign_levels[OF l])
qed (use assms in simp)

lemma bulkAssign_effect:
  assumes "chain_inv db" "bulkAssign up now ids inp actor db = (db', Inr (n, skipped))"
  shows "approver_at (ch_rows db') = assigned_map inp ids (approver_at (ch_rows db))"
    and "skipped = filter (assign_skip inp) (dedup ids)"
proof -
  have b: "basic_inv db" using assms(1) by (simp add: chain_inv_iff)
  have "approver_at (ch_rows db') = assigned_map inp ids (approver_at (ch_rows db)) \<and>
      skipped = filter (assign_skip inp) (dedup ids)"
  proof (cases rule: bulkAssign_cases[of up now ids inp actor db])
    case (commit m sk)
    show ?thesis
    proof (cases "applyStepChanges up now
        (map ch_id (concat (map (assign_ended inp (findActiveForEmployees db (dedup ids)))
          (filter (\<lambda>e. \<not> assign_skip inp e) (dedup ids)))))
        (concat (map (assign_inserts inp actor (findActiveForEmployees db (dedup ids)))
          (filter (\<lambda>e. \<not> assign_skip inp e) (dedup ids)))) actor db")
      case (Inr d)
      have "d = db'" "sk = skipped"
        using assms(2) commit(5) Inr by (simp_all add: commit_eq)
      then show ?thesis
        using applyStepChanges_effect(2)[OF Inr b] assign_foldl[OF b] commit(4) by simp
    qed (use assms(2) commit(5) in \<open>simp add: commit_eq\<close>)
  qed (use assms(2) in simp)
  then show "approver_at (ch_rows db') = assigned_map inp ids (approver_at (ch_rows db))"
    and "skipped = filter (assign_skip inp) (dedup ids)" by blast+
qed

lemma bulkAssign_accepts:
  assumes "chain_inv db" "later now db" "users_ok up" "\<forall>e \<in> set ids. user_row up e"
  shows "okR (snd (bulkAssign up now ids inp actor db)) \<longleftrightarrow>
    ids \<noteq> [] \<and> okR (assertUserActive up (ba_l1 inp)) \<and>
    okR (check_tri (assertUserActive up) (ba_l2 inp))"
proof (cases rule: bulkAssign_cases[of up now ids inp actor db])
  case (error er)
  then show ?thesis
    by (cases "assertUserActive up (ba_l1 inp)"; cases "check_tri (assertUserActive up) (ba_l2 inp)") auto
next
  case (commit n skipped)
  define rows where "rows = findActiveForEmployees db (dedup ids)"
  define es where "es = filter (\<lambda>e. \<not> assign_skip inp e) (dedup ids)"
  have b: "basic_inv db" using assms(1) by (simp add: chain_inv_iff)
  note ch = assign_changes[OF b dedup_set(2)[of ids], where inp = inp and actor = actor,
      folded rows_def es_def]
  have "user_row up a" if "assertUserActive up a = Inr ()" for a
    using that assms(3) by (auto simp: assertUserActive_Inr users_ok_def split: option.splits)
  moreover have "assertUserActive up a = Inr ()" if "ba_l2 inp = Val a" for a
    using that commit(3) by (simp add: check_tri_def)
  ultimately have "1 \<le> ci_step i \<and> ci_approver i \<noteq> ci_employee i \<and>
      user_row up (ci_employee i) \<and> user_row up (ci_approver i)"
    if "i \<in> set (concat (map (assign_inserts inp actor rows) es))" for i
    using ch(4)[OF that] commit(2) assms(4) by (auto simp: es_def assign_skip_def)
  then have "\<exists>db'. applyStepChanges up now (map ch_id (concat (map (assign_ended inp rows) es)))
      (concat (map (assign_inserts inp actor rows) es)) actor db = Inr db'"
    by (intro applyStepChanges_ok[OF b assms(2)] ch(2,3)) (auto simp: list_all_iff)
  then have "okR (snd (bulkAssign up now ids inp actor db))"
    unfolding commit(5) commit_eq rows_def[symmetric] es_def[symmetric] by auto
  then show ?thesis using commit(1-3) by simp
qed

lemma insert_chains_history:
  assumes "insert_chains up now is db = Inr db'"
  shows "\<exists>new. ch_rows db' = ch_rows db @ new"
  using assms
proof (induction "is" arbitrary: db)
  case (Cons i "is")
  then obtain d where "insert_chain up now i db = Inr d" "insert_chains up now is d = Inr db'"
    by (auto simp: bindR_eq_Inr)
  moreover from this(1) have "\<exists>r. ch_rows d = ch_rows db @ [r]"
    by (auto simp: insert_chain_def split: if_splits)
  ultimately show ?case using Cons.IH[of d] by auto
qed simp

section \<open>Reachable tables\<close>

definition empty_chains :: chain_db where
  "empty_chains = \<lparr>ch_rows = [], ch_next = 1\<rparr>"

inductive chain_step :: "user_port \<Rightarrow> chain_db \<Rightarrow> chain_db \<Rightarrow> bool" for up where
  set: "chain_step up db (fst (setChain up now e inp actor db))"
| end_step: "chain_step up db (fst (endStep up now e s actor db))"
| reassign: "chain_step up db (fst (bulkReassign up now from_id to_id actor db))"
| assign: "chain_step up db (fst (bulkAssign up now ids b actor db))"

lemma chain_step_preserves: "chain_step up db db' \<Longrightarrow> chain_inv db \<Longrightarrow> chain_inv db'"
  by (induction rule: chain_step.induct)
    (simp_all add: setChain_preserves endStep_preserves bulkReassign_preserves bulkAssign_preserves)

lemma empty_chains_inv: "chain_inv empty_chains"
  by (simp add: chain_inv_def empty_chains_def l2_has_l1_def)

lemma approver_not_self:
  assumes "chain_inv db" "approver_at (ch_rows db) (e, s) = Some a"
  shows "a \<noteq> e"
proof -
  obtain r where r: "active_row (ch_rows db) (e, s) = Some r" "ch_approver r = a"
    using assms(2) by (auto simp: approver_at_def)
  then have "r \<in> set (ch_rows db)" "ch_employee r = e"
    using active_row_Some[OF r(1)] by (simp_all add: chain_key_def)
  then show ?thesis using assms(1) r(2) by (auto simp: chain_inv_def list_all_iff)
qed

section \<open>What the request modules rely on\<close>

text \<open>
  A source of approvers: under its invariant nobody is their own approver and a second level
  comes with a first.  The leave and correction services consult a source at submit time.
\<close>

locale approver_source =
  fixes ok :: "'s \<Rightarrow> bool"
    and chain_of :: "'s \<Rightarrow> int \<Rightarrow> active_chain"
  assumes no_self_l1: "ok s \<Longrightarrow> l1_approver_id (chain_of s e) = Some a \<Longrightarrow> a \<noteq> e"
    and no_self_l2: "ok s \<Longrightarrow> l2_approver_id (chain_of s e) = Some a \<Longrightarrow> a \<noteq> e"
    and l2_needs_l1: "ok s \<Longrightarrow> l2_approver_id (chain_of s e) \<noteq> None \<Longrightarrow> l1_approver_id (chain_of s e) \<noteq> None"
begin

lemma no_l1_no_chain:
  assumes "ok s" "l1_approver_id (chain_of s e) = None"
  shows "chain_of s e = \<lparr>l1_approver_id = None, l2_approver_id = None\<rparr>"
proof -
  have "l2_approver_id (chain_of s e) = None" using assms l2_needs_l1 by blast
  then show ?thesis using assms(2) by simp
qed

lemma never_self:
  assumes "ok s"
  shows "l1_approver_id (chain_of s e) \<noteq> Some e" "l2_approver_id (chain_of s e) \<noteq> Some e"
  using no_self_l1[OF assms, of e e] no_self_l2[OF assms, of e e] by auto

end

interpretation chains: approver_source chain_inv getActive
proof unfold_locales
  fix s :: chain_db and e a :: int
  assume inv: "chain_inv s"
  then have u: "unique_active chain_active chain_key (ch_rows s)" by (simp add: chain_inv_def)
  show "l1_approver_id (getActive s e) = Some a \<Longrightarrow> a \<noteq> e"
    "l2_approver_id (getActive s e) = Some a \<Longrightarrow> a \<noteq> e"
    using approver_not_self[OF inv] by (simp_all add: getActive_eq[OF u])
  show "l2_approver_id (getActive s e) \<noteq> None \<Longrightarrow> l1_approver_id (getActive s e) \<noteq> None"
    using inv by (simp add: getActive_eq[OF u] chain_inv_iff)
qed

section \<open>Properties\<close>

definition assignment :: "chain \<Rightarrow> int \<times> int \<times> int \<times> int \<times> int" where
  "assignment r = (ch_id r, ch_employee r, ch_step r, ch_approver r, ch_effective_at r)"

lemma assignment_end [simp]: "assignment (end_chain a r) = assignment r"
  by (simp add: assignment_def end_chain_def)

lemma commit_history:
  "take (length (ch_rows db)) (map assignment (ch_rows (fst (commit up now actor ends ins k db))))
     = map assignment (ch_rows db)"
proof (cases "applyStepChanges up now ends ins actor db")
  case (Inr db')
  then obtain new where "ch_rows db' =
      update_where (\<lambda>r. ch_id r \<in> set ends) (end_chain (now, actor)) (ch_rows db) @ new"
    unfolding applyStepChanges_def using insert_chains_history end_rows_rows by metis
  then show ?thesis using Inr by (simp add: commit_eq)
qed (simp add: commit_eq)

definition sample_chains :: chain_db where
  "sample_chains =
     \<lparr>ch_rows = [\<lparr>ch_id = 1, ch_employee = 5, ch_step = 1, ch_approver = 2, ch_effective_at = 10,
       ch_ended_at = None, ch_created_by = None, ch_updated_by = None\<rparr>], ch_next = 2\<rparr>"

lemma sample_chain: "chain_inv sample_chains" "later 20 sample_chains"
  by (simp_all add: sample_chains_def chain_inv_def serial_ok_def unique_active_def chain_active_def
      l2_has_l1_def later_def)

lemma sample_approver:
  "approver_at (ch_rows sample_chains) k = (if k = (5, 1) then Some 2 else None)"
  by (auto simp: sample_chains_def approver_at_def active_row_def chain_active_def chain_key_def)

text \<open>C18: Every table of approval chains the services can produce from the empty one, in any
  order of \<open>setChain\<close>, \<open>endStep\<close>, \<open>bulkReassign\<close> and \<open>bulkAssign\<close> calls, keeps the
  contract of the module: at most one active approver for each employee and step, nobody approves
  their own requests, and no second-level approver without a first-level one.\<close>

theorem chains_reachable_contract:
  assumes "rtranclp (chain_step up) empty_chains db"
  shows "chain_inv db"
  using assms by (induction rule: rtranclp_induct) (auto intro: empty_chains_inv chain_step_preserves)

theorem chains_reachable_contract_witness:
  "chain_inv (fst (setChain sample_users 100 5 \<lparr>set_l1 = Val 1, set_l2 = Val 2\<rparr> (Some 9) empty_chains))"
  by (rule chains_reachable_contract[of sample_users]) (rule r_into_rtranclp, rule chain_step.set)

text \<open>C19: A successful \<open>setChain\<close> changes the active approvers exactly as its tri-state patch
  says (absent keeps, null clears, a number sets), for this employee only, and returns the resulting
  pair; a failed one leaves the table as it was.\<close>

theorem setChain_refines_patch:
  assumes "chain_inv db"
  shows "case setChain up now e inp actor db of
      (db', Inl er) \<Rightarrow> db' = db
    | (db', Inr c) \<Rightarrow>
        approver_at (ch_rows db') = patched e inp (approver_at (ch_rows db)) \<and>
        c = \<lparr>l1_approver_id = approver_at (ch_rows db') (e, 1),
             l2_approver_id = approver_at (ch_rows db') (e, 2)\<rparr>"
proof (cases "setChain up now e inp actor db")
  case (Pair db' r)
  then show ?thesis
    using setChain_effect[OF assms, of up now e inp actor db'] setChain_error_unchanged[of up now e inp actor db db']
    by (cases r) auto
qed

theorem setChain_refines_patch_witness:
  "case setChain sample_users 20 5 \<lparr>set_l1 = Undefined, set_l2 = Val 3\<rparr> None
      sample_chains of
      (db', Inl er) \<Rightarrow> False
    | (db', Inr c) \<Rightarrow> c = \<lparr>l1_approver_id = Some 2, l2_approver_id = Some 3\<rparr>"
proof -
  let ?r = "setChain sample_users 20 5 \<lparr>set_l1 = Undefined, set_l2 = Val 3\<rparr> None sample_chains"
  have "case ?r of (db', Inl er) \<Rightarrow> db' = sample_chains
    | (db', Inr c) \<Rightarrow>
        approver_at (ch_rows db') = patched 5 \<lparr>set_l1 = Undefined, set_l2 = Val 3\<rparr> (approver_at (ch_rows sample_chains)) \<and>
        c = \<lparr>l1_approver_id = approver_at (ch_rows db') (5, 1),
             l2_approver_id = approver_at (ch_rows db') (5, 2)\<rparr>"
    by (rule setChain_refines_patch) (rule sample_chain)
  moreover have "okR (snd ?r)" by code_simp
  moreover have "patched 5 \<lparr>set_l1 = Undefined, set_l2 = Val 3\<rparr> (approver_at (ch_rows sample_chains)) (5, 1) = Some 2"
    "patched 5 \<lparr>set_l1 = Undefined, set_l2 = Val 3\<rparr> (approver_at (ch_rows sample_chains)) (5, 2) = Some 3"
    by (simp_all add: patched_def sample_approver)
  ultimately show ?thesis
    by (cases ?r; cases "snd ?r") auto
qed

text \<open>\<open>setChain\<close> succeeds exactly when the employee exists, every approver named is another,
  existing and active user, and the resulting chain has no second level without a first: under the
  contract no constraint of the database ever rejects what the service lets through.\<close>

theorem setChain_succeeds_iff:
  assumes "chain_inv db" "later now db" "users_ok up"
  shows "okR (snd (setChain up now e inp actor db)) \<longleftrightarrow>
    find_user up e \<noteq> None \<and> valid_approver up e (set_l1 inp) \<and> valid_approver up e (set_l2 inp) \<and>
    (patched e inp (approver_at (ch_rows db)) (e, 2) = None \<or>
     patched e inp (approver_at (ch_rows db)) (e, 1) \<noteq> None)"
  using assms by (rule setChain_accepts)

theorem setChain_succeeds_iff_witness:
  "okR (snd (setChain sample_users 20 5 \<lparr>set_l1 = Val 4, set_l2 = Undefined\<rparr> None
      sample_chains))"
  by (subst setChain_succeeds_iff[OF sample_chain sample_users_ok])
    (simp add: sample_users_def sample_user_def valid_approver_def patched_def sample_approver)

text \<open>\<open>bulkReassign\<close> moves every active assignment of the old approver to the new one, except
  those that would make an employee their own approver; it reports the number moved and the
  employees skipped, and touches nothing else.\<close>

theorem bulkReassign_moves_all_but_self:
  assumes "chain_inv db" "bulkReassign up now from_id to_id actor db = (db', Inr (n, skipped))"
  shows "approver_at (ch_rows db') =
      (\<lambda>k. if approver_at (ch_rows db) k = Some from_id \<and> fst k \<noteq> to_id then Some to_id
           else approver_at (ch_rows db) k) \<and>
    n = int (card {k. approver_at (ch_rows db) k = Some from_id \<and> fst k \<noteq> to_id}) \<and>
    set skipped = {e. \<exists>s. approver_at (ch_rows db) (e, s) = Some from_id \<and> e = to_id}"
  using bulkReassign_effect[OF assms] by (simp add: fun_eq_iff)

theorem bulkReassign_moves_all_but_self_witness:
  "\<exists>db'. bulkReassign sample_users 20 2 3 None
      sample_chains = (db', Inr (1, []))
    \<and> approver_at (ch_rows db') (5, 1) = Some 3"
proof -
  have "snd (bulkReassign sample_users 20 2 3 None sample_chains) = Inr (1, [])"
    by code_simp
  then obtain db' where r: "bulkReassign sample_users 20 2 3 None sample_chains = (db', Inr (1, []))"
    by (cases "bulkReassign sample_users 20 2 3 None sample_chains") simp
  from bulkReassign_moves_all_but_self[OF sample_chain(1) r]
  have "approver_at (ch_rows db') (5, 1) = Some 3"
    by (simp add: sample_approver)
  with r show ?thesis by blast
qed

text \<open>\<open>bulkAssign\<close> gives the approvers to every selected employee who is not one of them,
  reports the others as skipped, and leaves the chains of everybody else alone.\<close>

theorem bulkAssign_assigns_selected:
  assumes "chain_inv db" "bulkAssign up now ids inp actor db = (db', Inr (n, skipped))"
  shows "approver_at (ch_rows db') = assigned_map inp ids (approver_at (ch_rows db)) \<and>
    skipped = filter (assign_skip inp) (dedup ids)"
  using bulkAssign_effect[OF assms] by simp

theorem bulkAssign_assigns_selected_witness:
  "\<exists>db' n. bulkAssign sample_users 20 [5, 4, 5, 6] \<lparr>ba_l1 = 4, ba_l2 = Undefined\<rparr> None
      sample_chains = (db', Inr (n, [4]))
    \<and> approver_at (ch_rows db') (6, 1) = Some 4"
proof -
  let ?r = "bulkAssign sample_users 20 [5, 4, 5, 6] \<lparr>ba_l1 = 4, ba_l2 = Undefined\<rparr> None sample_chains"
  have "snd ?r = Inr (2, [4])"
    by code_simp
  then obtain db' where r: "?r = (db', Inr (2, [4]))"
    by (cases ?r) simp
  from bulkAssign_assigns_selected[OF sample_chain(1) r]
  have "approver_at (ch_rows db') (6, 1) = Some 4"
    by (simp add: assigned_map_def assign_skip_def patched_def assign_input_def)
  with r show ?thesis by blast
qed

text \<open>Assignments are never rewritten: whatever a service of the module does, every earlier row
  keeps its id, employee, step, approver and effective instant, so a request that took its approvers
  from the chain at submit time still resolves to the same people.\<close>

theorem chain_history_kept:
  assumes "chain_step up db db'"
  shows "take (length (ch_rows db)) (map assignment (ch_rows db')) = map assignment (ch_rows db)"
  using assms
proof (cases rule: chain_step.cases)
  case (set now e inp actor)
  then show ?thesis
    by (cases rule: setChain_cases[of up now e inp actor db]) (simp_all add: commit_history)
next
  case (end_step now e s actor)
  then show ?thesis
    by (auto simp: endStep_def Let_def commit_history split: option.splits)
next
  case (reassign now from_id to_id actor)
  then show ?thesis
    by (cases rule: bulkReassign_cases[of up now from_id to_id actor db]) (simp_all add: commit_history)
next
  case (assign now ids b actor)
  then show ?thesis
    by (cases rule: bulkAssign_cases[of up now ids b actor db]) (simp_all add: commit_history)
qed

theorem chain_history_kept_witness:
  "take 1 (map assignment (ch_rows (fst (setChain sample_users 20 5 \<lparr>set_l1 = Val 4, set_l2 = Undefined\<rparr> None
      sample_chains))))
    = [(1, 5, 1, 2, 10)]"
proof -
  have "chain_step sample_users sample_chains
      (fst (setChain sample_users 20 5 \<lparr>set_l1 = Val 4, set_l2 = Undefined\<rparr> None sample_chains))"
    by (rule chain_step.set)
  from chain_history_kept[OF this] show ?thesis
    by (simp add: assignment_def sample_chains_def)
qed

end
