(* ===== verification/LeaveService.thy ===== *)
theory LeaveService
  imports LeaveLedger ApprovalChains
begin

text \<open>
  The leave-request use cases (\<open>src/src/leave-requests/leave-requests.service.ts\<close>) over the tables of
  \<open>LeaveLedger\<close>, the approval chains, the work schedules and the object store.

  An operation returns the new state next to the thrown error or the result.  \<open>submit\<close> is the
  composition of its two phases: \<open>submit_prepare\<close>, everything up to the upload, which reads outside
  any transaction, and \<open>submit_commit\<close>, the transaction that holds the row locks of the employee's
  grants, with the compensating delete.  The phases of different calls may interleave
  (\<open>leave_step\<close>); the transaction itself is atomic.
\<close>

section \<open>The environment of a call\<close>

record leave_env =
  le_users :: user_port
  le_chains :: chain_db
  le_schedules :: schedule_db
  le_today :: date
  le_now :: int
  le_storage :: storage_env

definition toLeaveActor :: "user \<Rightarrow> actor" where
  "toLeaveActor caller =
     \<lparr>act_user_id = usr_id caller, act_system_admin = usr_system_admin caller,
      act_can_approve = hasPermission caller ''LEAVE:Approve'',
      act_can_approve_any = hasPermission caller ''LEAVE:ApproveAny'',
      act_can_delete = hasPermission caller ''LEAVE:Delete''\<rparr>"

section \<open>Writes of the repository\<close>

text \<open>The CHECK constraints of the table and the precision of \<open>numeric(4,1)\<close>.\<close>

definition lr_checks :: "leave \<Rightarrow> bool" where
  "lr_checks r \<longleftrightarrow>
     lr_start r \<le> lr_end r \<and> 1 / 2 \<le> lr_days r \<and> (lr_portion r = Full \<or> lr_start r = lr_end r) \<and>
     lr_days r < 1000"

definition lr_fks :: "user_port \<Rightarrow> leave \<Rightarrow> bool" where
  "lr_fks up r \<longleftrightarrow>
     user_row up (lr_employee r) \<and> user_row up (lr_l1 r) \<and>
     list_all (\<lambda>c. case c of None \<Rightarrow> True | Some u \<Rightarrow> user_row up u)
       [lr_l2 r, lr_decided_by r, lr_cancelled_by r]"

definition lr_stored :: "leave \<Rightarrow> leave" where
  "lr_stored r = r\<lparr>lr_start_time := map_option pg_time (lr_start_time r),
     lr_end_time := map_option pg_time (lr_end_time r)\<rparr>"

definition lr_insert :: "user_port \<Rightarrow> leave \<Rightarrow> leave_db \<Rightarrow> http_error + (leave_db \<times> leave)" where
  "lr_insert up r db =
     (if \<not> lr_checks r then Inl CheckViolation
      else if \<not> lr_fks up r then Inl ForeignKeyViolation
      else (let stored = lr_stored (r\<lparr>lr_id := ld_next db\<rparr>)
            in Inr (db\<lparr>ld_requests := ld_requests db @ [stored], ld_next := ld_next db + 1\<rparr>, stored)))"

text \<open>\<open>findOneOrFail\<close>, \<open>Object.assign(existing, patch)\<close>, \<open>save\<close> and the reload.\<close>

definition lr_update ::
  "user_port \<Rightarrow> int \<Rightarrow> (leave \<Rightarrow> leave) \<Rightarrow> leave_db \<Rightarrow> http_error + (leave_db \<times> leave)" where
  "lr_update up i patch db =
     (case findLeave db i of
        None \<Rightarrow> Inl PlainError
      | Some r \<Rightarrow>
          if \<not> lr_checks (patch r) then Inl CheckViolation
          else if \<not> lr_fks up (patch r) then Inl ForeignKeyViolation
          else (let stored = lr_stored (patch r)
                in Inr (db\<lparr>ld_requests := update_where (\<lambda>q. lr_id q = i) (\<lambda>_. stored) (ld_requests db)\<rparr>, stored)))"

definition at_insert :: "user_port \<Rightarrow> prepared \<Rightarrow> leave_db \<Rightarrow> http_error + (leave_db \<times> attachment)" where
  "at_insert up p db =
     (let row = persist_attachment (ld_file_next db) p
      in if at_size row = 0 then Inl CheckViolation
         else if list_ex (\<lambda>q. at_deleted_at q = None \<and> at_prefix q = at_prefix row) (ld_files db)
         then Inl UniqueViolation
         else if \<not> (user_row up (at_owner row) \<and> user_row up (pa_created_by p)) then Inl ForeignKeyViolation
         else Inr (db\<lparr>ld_files := ld_files db @ [row], ld_file_next := ld_file_next db + 1\<rparr>, row))"

section \<open>Submit\<close>

record upload =
  up_buffer :: bytes
  up_name :: string

record submit_input =
  si_employee :: int
  si_type :: leave_type
  si_start :: date
  si_end :: date
  si_portion :: "day_portion option"
  si_reason :: "string option"
  si_file :: "upload option"
  si_uuid :: string
  si_actor :: int

text \<open>What the first phase hands to the transaction.\<close>

record submission =
  sb_input :: submit_input
  sb_portion :: day_portion
  sb_range :: submittable_range
  sb_l1 :: int
  sb_l2 :: "int option"
  sb_prepared :: "prepared option"

definition upload_phase ::
  "leave_env \<Rightarrow> submit_input \<Rightarrow> object_store \<Rightarrow> object_store \<times> (http_error + prepared option)" where
  "upload_phase env i os =
     (case si_file i of
        None \<Rightarrow> (os, Inr None)
      | Some f \<Rightarrow>
          (case uploadForOwner (le_storage env) (si_uuid i) (up_buffer f) (up_name f) (si_employee i) (si_actor i) os of
             (os', Inl er) \<Rightarrow> (os', Inl er)
           | (os', Inr p) \<Rightarrow> (os', Inr (Some p))))"

definition submit_prepare ::
  "leave_env \<Rightarrow> submit_input \<Rightarrow> leave_db \<Rightarrow> leave_db \<times> (http_error + submission)" where
  "submit_prepare env i db =
     (case domainR (assertAttachmentContract (si_type i) (si_file i \<noteq> None)) of
        Inl er \<Rightarrow> (db, Inl er)
      | Inr _ \<Rightarrow>
          (let portion = normalizePortion (si_portion i)
           in case assertSubmittableRange (le_today env) (le_schedules env) (si_employee i) (si_start i) (si_end i)
                     portion (Some (si_type i)) of
                Inl er \<Rightarrow> (db, Inl er)
              | Inr sr \<Rightarrow>
                  (let chain = getActive (le_chains env) (si_employee i)
                   in case l1_approver_id chain of
                        None \<Rightarrow> (db, Inl (unprocessable ''approval_chain''))
                      | Some l1 \<Rightarrow>
                          if findOverlapping db (si_employee i) (si_start i) (si_end i) \<noteq> []
                          then (db, Inl (unprocessable ''dates''))
                          else (case upload_phase env i (ld_store db) of
                                  (os, Inl er) \<Rightarrow> (db\<lparr>ld_store := os\<rparr>, Inl er)
                                | (os, Inr p) \<Rightarrow>
                                    (db\<lparr>ld_store := os\<rparr>,
                                     Inr \<lparr>sb_input = i, sb_portion = portion, sb_range = sr, sb_l1 = l1,
                                          sb_l2 = l2_approver_id chain, sb_prepared = p\<rparr>)))))"

definition lr_new :: "int \<Rightarrow> submission \<Rightarrow> int option \<Rightarrow> leave" where
  "lr_new now s att =
     (let i = sb_input s
      in \<lparr>lr_id = 0, lr_employee = si_employee i, lr_type = si_type i, lr_start = si_start i, lr_end = si_end i,
          lr_days = sr_working_days (sb_range s), lr_portion = sb_portion s,
          lr_start_time = sr_start_time (sb_range s), lr_end_time = sr_end_time (sb_range s),
          lr_reason = si_reason i, lr_status = Pending_l1, lr_submitted_at = now, lr_decided_at = None,
          lr_decided_by = None, lr_decision_note = None, lr_decision_path = None, lr_cancelled_at = None,
          lr_cancelled_by = None, lr_l1 = sb_l1 s, lr_l2 = sb_l2 s, lr_attachment = att,
          lr_created_by = Some (si_actor i), lr_updated_by = Some (si_actor i), lr_deleted_at = None\<rparr>)"

text \<open>The transaction: an error discards every write made inside it.\<close>

definition submit_tx :: "leave_env \<Rightarrow> submission \<Rightarrow> leave_db \<Rightarrow> http_error + (leave_db \<times> leave)" where
  "submit_tx env s db =
     (let i = sb_input s;
          granted = allowance db (si_employee i) (si_type i);
          spent = consumed db (si_employee i) (si_type i);
          available = of_int granted - spent
      in if available < sr_working_days (sb_range s) then Inl (unprocessable ''balance'')
         else (case sb_prepared s of
                 None \<Rightarrow> lr_insert (le_users env) (lr_new (le_now env) s None) db
               | Some p \<Rightarrow>
                   bindR (at_insert (le_users env) p db) (\<lambda>(db1, a).
                     lr_insert (le_users env) (lr_new (le_now env) s (Some (at_id a))) db1)))"

definition submit_commit :: "leave_env \<Rightarrow> submission \<Rightarrow> leave_db \<Rightarrow> leave_db \<times> (http_error + leave)" where
  "submit_commit env s db =
     (case submit_tx env s db of
        Inl er \<Rightarrow>
          (case sb_prepared s of
             None \<Rightarrow> (db, Inl er)
           | Some p \<Rightarrow> (db\<lparr>ld_store := cleanup (le_storage env) p (ld_store db)\<rparr>, Inl er))
      | Inr (db', r) \<Rightarrow>
          (db'\<lparr>ld_events := ld_events db' @ [LeaveRequestSubmitted (lr_id r) (lr_employee r) (lr_l1 r)]\<rparr>, Inr r))"

definition submit :: "leave_env \<Rightarrow> submit_input \<Rightarrow> leave_db \<Rightarrow> leave_db \<times> (http_error + leave)" where
  "submit env i db =
     (case submit_prepare env i db of
        (db1, Inl er) \<Rightarrow> (db1, Inl er)
      | (db1, Inr s) \<Rightarrow> submit_commit env s db1)"

section \<open>Decisions\<close>

definition loadAggregate :: "leave_db \<Rightarrow> int \<Rightarrow> http_error + leave" where
  "loadAggregate db i =
     (case findLeave db i of
        None \<Rightarrow> Inl (NotFound ''LeaveRequest'' i)
      | Some r \<Rightarrow> reconstitute_leave r)"

definition persist_leave ::
  "user_port \<Rightarrow> int \<Rightarrow> (leave \<Rightarrow> leave) \<Rightarrow> leave_event \<Rightarrow> leave_db \<Rightarrow> leave_db \<times> (http_error + leave)" where
  "persist_leave up i patch ev db =
     (case lr_update up i patch db of
        Inl er \<Rightarrow> (db, Inl er)
      | Inr (db', saved) \<Rightarrow> (db'\<lparr>ld_events := ld_events db' @ [ev]\<rparr>, Inr saved))"

definition cancelRequest :: "leave_env \<Rightarrow> int \<Rightarrow> user \<Rightarrow> leave_db \<Rightarrow> leave_db \<times> (http_error + leave)" where
  "cancelRequest env i caller db =
     (case loadAggregate db i of
        Inl er \<Rightarrow> (db, Inl er)
      | Inr r \<Rightarrow>
          (case domainR (cancelLeave (le_now env) (le_today env) r (toLeaveActor caller)) of
             Inl er \<Rightarrow> (db, Inl er)
           | Inr (r', ev) \<Rightarrow>
               persist_leave (le_users env) i
                 (\<lambda>q. q\<lparr>lr_status := lr_status r', lr_cancelled_at := lr_cancelled_at r',
                        lr_cancelled_by := lr_cancelled_by r', lr_updated_by := Some (usr_id caller)\<rparr>) ev db))"

definition step_approver_ok :: "user_port \<Rightarrow> leave \<Rightarrow> bool" where
  "step_approver_ok up r =
     (case currentStepApproverId r of
        None \<Rightarrow> True
      | Some a \<Rightarrow> (case find_user up a of None \<Rightarrow> False | Some u \<Rightarrow> usr_is_active u))"

definition approveRequest :: "leave_env \<Rightarrow> int \<Rightarrow> user \<Rightarrow> leave_db \<Rightarrow> leave_db \<times> (http_error + leave)" where
  "approveRequest env i caller db =
     (case loadAggregate db i of
        Inl er \<Rightarrow> (db, Inl er)
      | Inr r \<Rightarrow>
          (let a = toLeaveActor caller
           in case domainR (assertApprovable r a) of
                Inl er \<Rightarrow> (db, Inl er)
              | Inr _ \<Rightarrow>
                  if \<not> (act_system_admin a \<or> act_can_approve_any a) \<and> \<not> step_approver_ok (le_users env) r
                  then (db, Inl (conflict ''approver''))
                  else (let (r', ev) = applyApproval (le_now env) r a
                        in persist_leave (le_users env) i
                             (\<lambda>q. q\<lparr>lr_status := lr_status r', lr_decided_at := lr_decided_at r',
                                    lr_decided_by := lr_decided_by r', lr_decision_path := lr_decision_path r',
                                    lr_updated_by := Some (usr_id caller)\<rparr>) ev db)))"

definition rejectRequest ::
  "leave_env \<Rightarrow> int \<Rightarrow> user \<Rightarrow> string \<Rightarrow> leave_db \<Rightarrow> leave_db \<times> (http_error + leave)" where
  "rejectRequest env i caller why db =
     (case loadAggregate db i of
        Inl er \<Rightarrow> (db, Inl er)
      | Inr r \<Rightarrow>
          (case domainR (rejectLeave (le_now env) r (toLeaveActor caller) why) of
             Inl er \<Rightarrow> (db, Inl er)
           | Inr (r', ev) \<Rightarrow>
               persist_leave (le_users env) i
                 (\<lambda>q. q\<lparr>lr_status := lr_status r', lr_decided_at := lr_decided_at r',
                        lr_decided_by := lr_decided_by r', lr_decision_note := lr_decision_note r',
                        lr_decision_path := lr_decision_path r', lr_updated_by := Some (usr_id caller)\<rparr>) ev db))"

section \<open>The HR edit\<close>

record leave_patch =
  lp_type :: "leave_type option"
  lp_start :: "date option"
  lp_end :: "date option"
  lp_portion :: "day_portion option"
  lp_reason :: "string tri"

definition apply_leave_patch :: "leave_patch \<Rightarrow> leave \<Rightarrow> leave" where
  "apply_leave_patch p r =
     r\<lparr>lr_type := opt_apply (lp_type p) (lr_type r), lr_start := opt_apply (lp_start p) (lr_start r),
       lr_end := opt_apply (lp_end p) (lr_end r), lr_portion := opt_apply (lp_portion p) (lr_portion r),
       lr_reason := tri_apply (lp_reason p) (lr_reason r)\<rparr>"

definition updateRequest ::
  "leave_env \<Rightarrow> int \<Rightarrow> leave_patch \<Rightarrow> user \<Rightarrow> leave_db \<Rightarrow> leave_db \<times> (http_error + leave)" where
  "updateRequest env i p caller db =
     (case orNotFound (findLeave db i) ''LeaveRequest'' i of
        Inl er \<Rightarrow> (db, Inl er)
      | Inr row \<Rightarrow>
          if \<not> status_pending (lr_status row) then (db, Inl (conflict ''status''))
          else if \<not> (lp_start p \<noteq> None \<or> lp_end p \<noteq> None \<or> lp_portion p \<noteq> None \<or> lp_type p \<noteq> None)
          then (case lr_update (le_users env) i
                       (\<lambda>q. (apply_leave_patch p q)\<lparr>lr_updated_by := Some (usr_id caller)\<rparr>) db of
                  Inl er \<Rightarrow> (db, Inl er)
                | Inr (db', saved) \<Rightarrow> (db', Inr saved))
          else (let portion = opt_apply (lp_portion p) (lr_portion row)
                in case assertSubmittableRange (le_today env) (le_schedules env) (lr_employee row)
                          (opt_apply (lp_start p) (lr_start row)) (opt_apply (lp_end p) (lr_end row))
                          portion (Some (opt_apply (lp_type p) (lr_type row))) of
                     Inl er \<Rightarrow> (db, Inl er)
                   | Inr sr \<Rightarrow>
                       (case lr_update (le_users env) i
                               (\<lambda>q. (apply_leave_patch p q)\<lparr>lr_portion := portion,
                                      lr_days := sr_working_days sr, lr_start_time := sr_start_time sr,
                                      lr_end_time := sr_end_time sr, lr_updated_by := Some (usr_id caller)\<rparr>) db of
                          Inl er \<Rightarrow> (db, Inl er)
                        | Inr (db', saved) \<Rightarrow> (db', Inr saved))))"

section \<open>Cascading cancellation\<close>

definition system_cancelled :: "int \<Rightarrow> int \<Rightarrow> string \<Rightarrow> leave \<Rightarrow> leave" where
  "system_cancelled now actor why r =
     r\<lparr>lr_status := Cancelled, lr_cancelled_at := Some now, lr_cancelled_by := Some actor,
       lr_decision_note := Some why, lr_updated_by := Some actor\<rparr>"

definition systemCancel :: "int \<Rightarrow> int list \<Rightarrow> int \<Rightarrow> string \<Rightarrow> leave_db \<Rightarrow> leave_db \<times> int" where
  "systemCancel now ids actor why db =
     (if ids = [] then (db, 0)
      else (let hit = (\<lambda>r. lr_id r \<in> set ids \<and> status_active (lr_status r) \<and> lr_live r)
            in (db\<lparr>ld_requests := update_where hit (system_cancelled now actor why) (ld_requests db)\<rparr>,
                int (length (filter hit (ld_requests db))))))"

section \<open>Views\<close>

definition findByIdForViewer :: "leave_db \<Rightarrow> int \<Rightarrow> user \<Rightarrow> http_error + leave" where
  "findByIdForViewer db i caller =
     bindR (orNotFound (findLeave db i) ''LeaveRequest'' i) (\<lambda>row.
       if usr_id caller = lr_employee row \<or> usr_id caller = lr_l1 row \<or> Some (usr_id caller) = lr_l2 row \<or>
          usr_system_admin caller \<or> hasPermission caller ''LEAVE:ViewAll''
       then Inr row else Inl ForbiddenPlain)"

text \<open>The text before the last dot, where a non-empty extension follows it.\<close>

definition strip_extension :: "string \<Rightarrow> string" where
  "strip_extension s =
     (let ext = takeWhile (\<lambda>c. c \<noteq> CHR ''.'') (rev s)
      in if ext \<noteq> [] \<and> length ext < length s then take (length s - length ext - 1) s else s)"

definition derivedFilename :: "string \<Rightarrow> file_version \<Rightarrow> string" where
  "derivedFilename original v =
     (let stem = strip_extension original
      in (if stem = [] then ''attachment'' else stem) @ ''-'' @ version_name v @ ''.webp'')"

record download =
  dl_body :: bytes
  dl_type :: string
  dl_name :: string

definition findAttachment :: "leave_db \<Rightarrow> int \<Rightarrow> attachment option" where
  "findAttachment db i = find (\<lambda>a. at_id a = i \<and> at_deleted_at a = None) (ld_files db)"

definition getAttachmentDownload :: "leave_db \<Rightarrow> int \<Rightarrow> user \<Rightarrow> file_version \<Rightarrow> http_error + download" where
  "getAttachmentDownload db i caller v =
     bindR (findByIdForViewer db i caller) (\<lambda>request.
       case lr_attachment request of
         None \<Rightarrow> Inl NotFoundPlain
       | Some aid \<Rightarrow>
           (case findAttachment db aid of
              None \<Rightarrow> Inl NotFoundPlain
            | Some a \<Rightarrow>
                if v \<noteq> Original \<and> \<not> at_has_versions a then Inl NotFoundPlain
                else bindR (openVersion (ld_store db) a v) (\<lambda>body.
                  Inr \<lparr>dl_body = body, dl_type = (if v = Original then at_mime a else ''image/webp''),
                       dl_name = (if v = Original then at_filename a else derivedFilename (at_filename a) v)\<rparr>)))"

section \<open>Lemmas on the writes\<close>

lemma lr_stored_simps [simp]:
  "lr_id (lr_stored r) = lr_id r" "lr_employee (lr_stored r) = lr_employee r" "lr_type (lr_stored r) = lr_type r"
  "lr_start (lr_stored r) = lr_start r" "lr_end (lr_stored r) = lr_end r" "lr_days (lr_stored r) = lr_days r"
  "lr_portion (lr_stored r) = lr_portion r" "lr_status (lr_stored r) = lr_status r"
  "lr_l1 (lr_stored r) = lr_l1 r" "lr_l2 (lr_stored r) = lr_l2 r" "lr_live (lr_stored r) = lr_live r"
  "lr_attachment (lr_stored r) = lr_attachment r" "lr_checks (lr_stored r) = lr_checks r"
  "lr_start_time (lr_stored r) = map_option pg_time (lr_start_time r)"
  "lr_end_time (lr_stored r) = map_option pg_time (lr_end_time r)"
  "consumes e t (lr_stored r) = consumes e t r"
  "lr_decided_at (lr_stored r) = lr_decided_at r" "lr_decided_by (lr_stored r) = lr_decided_by r"
  "lr_decision_note (lr_stored r) = lr_decision_note r" "lr_decision_path (lr_stored r) = lr_decision_path r"
  "lr_cancelled_at (lr_stored r) = lr_cancelled_at r" "lr_cancelled_by (lr_stored r) = lr_cancelled_by r"
  "lr_reason (lr_stored r) = lr_reason r" "lr_deleted_at (lr_stored r) = lr_deleted_at r"
  by (simp_all add: lr_stored_def lr_live_def lr_checks_def consumes_def)

text \<open>The outcome of the first phase: an early error without effect, or the result of the upload.\<close>

lemma submit_prepare_cases:
  obtains (refused) er where "submit_prepare env i db = (db, Inl er)"
  | (uploaded) sr l1 where
      "assertAttachmentContract (si_type i) (si_file i \<noteq> None) = Inr ()"
      "assertSubmittableRange (le_today env) (le_schedules env) (si_employee i) (si_start i) (si_end i)
         (normalizePortion (si_portion i)) (Some (si_type i)) = Inr sr"
      "l1_approver_id (getActive (le_chains env) (si_employee i)) = Some l1"
      "findOverlapping db (si_employee i) (si_start i) (si_end i) = []"
      "submit_prepare env i db = (case upload_phase env i (ld_store db) of
         (os, Inl er) \<Rightarrow> (db\<lparr>ld_store := os\<rparr>, Inl er)
       | (os, Inr p) \<Rightarrow> (db\<lparr>ld_store := os\<rparr>,
           Inr \<lparr>sb_input = i, sb_portion = normalizePortion (si_portion i), sb_range = sr, sb_l1 = l1,
                sb_l2 = l2_approver_id (getActive (le_chains env) (si_employee i)), sb_prepared = p\<rparr>))"
proof (cases "domainR (assertAttachmentContract (si_type i) (si_file i \<noteq> None))")
  case (Inl er)
  then show ?thesis by (intro refused) (simp add: submit_prepare_def)
next
  case att: (Inr u)
  then have att': "assertAttachmentContract (si_type i) (si_file i \<noteq> None) = Inr ()"
    by (auto simp: domainR_def split: sum.splits)
  show ?thesis
  proof (cases "assertSubmittableRange (le_today env) (le_schedules env) (si_employee i) (si_start i) (si_end i)
         (normalizePortion (si_portion i)) (Some (si_type i))")
    case (Inl er)
    then show ?thesis using att by (intro refused) (simp add: submit_prepare_def)
  next
    case sr: (Inr sr)
    show ?thesis
    proof (cases "l1_approver_id (getActive (le_chains env) (si_employee i))")
      case None
      then show ?thesis using att sr by (intro refused) (simp add: submit_prepare_def Let_def)
    next
      case l1: (Some l1)
      show ?thesis
      proof (cases "findOverlapping db (si_employee i) (si_start i) (si_end i) = []")
        case True
        then show ?thesis
          by (intro uploaded[OF att' sr l1 True])
            (simp only: submit_prepare_def Let_def att sr l1 True sum.case option.case if_False simp_thms)
      next
        case False
        then show ?thesis using att sr l1 by (intro refused) (simp add: submit_prepare_def Let_def)
      qed
    qed
  qed
qed

lemma submit_prepare_db: "\<exists>os. fst (submit_prepare env i db) = db\<lparr>ld_store := os\<rparr>"
proof (cases rule: submit_prepare_cases[of env i db])
  case (refused er)
  have "db = db\<lparr>ld_store := ld_store db\<rparr>" by simp
  then show ?thesis using refused by (metis fst_conv)
next
  case (uploaded sr l1)
  then show ?thesis by (auto split: prod.splits sum.splits)
qed

lemma ld_store_irrelevant [simp]:
  "consumed (db\<lparr>ld_store := os\<rparr>) e t = consumed db e t" "allowance (db\<lparr>ld_store := os\<rparr>) e t = allowance db e t"
  "findLeave (db\<lparr>ld_store := os\<rparr>) i = findLeave db i"
  "findOverlapping (db\<lparr>ld_store := os\<rparr>) e sd ed = findOverlapping db e sd ed"
  by (simp_all add: consumed_def allowance_def findLeave_def findOverlapping_def)

lemma ld_events_irrelevant [simp]:
  "consumed (db\<lparr>ld_events := os\<rparr>) e t = consumed db e t" "allowance (db\<lparr>ld_events := os\<rparr>) e t = allowance db e t"
  by (simp_all add: consumed_def allowance_def)

lemma lr_insert_Inr:
  "lr_insert up r db = Inr (db', r') \<longleftrightarrow>
     lr_checks r \<and> lr_fks up r \<and> r' = lr_stored (r\<lparr>lr_id := ld_next db\<rparr>) \<and>
     db' = db\<lparr>ld_requests := ld_requests db @ [r'], ld_next := ld_next db + 1\<rparr>"
  by (auto simp: lr_insert_def Let_def)

lemma at_insert_Inr:
  assumes "at_insert up p db = Inr (db', a)"
  shows "a = persist_attachment (ld_file_next db) p \<and>
    db' = db\<lparr>ld_files := ld_files db @ [a], ld_file_next := ld_file_next db + 1\<rparr>"
  using assms by (auto simp: at_insert_def Let_def split: if_splits)

lemma lr_update_Inr:
  assumes "lr_update up i f db = Inr (db', r')"
  shows "\<exists>r. findLeave db i = Some r \<and> lr_checks (f r) \<and> lr_fks up (f r) \<and> r' = lr_stored (f r) \<and>
    db' = db\<lparr>ld_requests := update_where (\<lambda>q. lr_id q = i) (\<lambda>_. r') (ld_requests db)\<rparr>"
  using assms by (auto simp: lr_update_def Let_def split: option.splits if_splits)

text \<open>What a committed submission leaves behind.\<close>

lemma submit_tx_Inr:
  assumes "submit_tx env s db = Inr (db', r)"
  shows "consumed db (lr_employee r) (lr_type r) + lr_days r \<le> of_int (allowance db (lr_employee r) (lr_type r))"
    and "\<exists>att. r = lr_stored ((lr_new (le_now env) s att)\<lparr>lr_id := ld_next db\<rparr>) \<and> lr_checks r \<and>
      (att = None \<longleftrightarrow> sb_prepared s = None)"
    and "ld_requests db' = ld_requests db @ [r]" "ld_next db' = ld_next db + 1" "ld_allocs db' = ld_allocs db"
      "ld_alloc_next db' = ld_alloc_next db" "ld_store db' = ld_store db" "ld_events db' = ld_events db"
      "ld_grants db' = ld_grants db"
    and "sb_prepared s = None \<Longrightarrow> ld_files db' = ld_files db"
    and "sb_prepared s = Some p \<Longrightarrow>
      ld_files db' = ld_files db @ [persist_attachment (ld_file_next db) p] \<and> lr_attachment r = Some (ld_file_next db)"
proof -
  let ?i = "sb_input s"
  have bal: "\<not> of_int (allowance db (si_employee ?i) (si_type ?i)) - consumed db (si_employee ?i) (si_type ?i)
      < sr_working_days (sb_range s)"
    using assms by (auto simp: submit_tx_def Let_def split: if_splits)
  obtain att db1 where d: "lr_insert (le_users env) (lr_new (le_now env) s att) db1 = Inr (db', r)"
    "ld_requests db1 = ld_requests db" "ld_next db1 = ld_next db" "ld_allocs db1 = ld_allocs db"
    "ld_alloc_next db1 = ld_alloc_next db" "ld_store db1 = ld_store db" "ld_events db1 = ld_events db"
    "ld_grants db1 = ld_grants db" "att = None \<longleftrightarrow> sb_prepared s = None"
    "sb_prepared s = None \<Longrightarrow> ld_files db1 = ld_files db"
    "\<And>p. sb_prepared s = Some p \<Longrightarrow>
      ld_files db1 = ld_files db @ [persist_attachment (ld_file_next db) p] \<and> att = Some (ld_file_next db)"
  proof (cases "sb_prepared s")
    case None
    then show ?thesis using assms that[of None db] by (auto simp: submit_tx_def Let_def split: if_splits)
  next
    case (Some p)
    then obtain db1 a where "at_insert (le_users env) p db = Inr (db1, a)"
      "lr_insert (le_users env) (lr_new (le_now env) s (Some (at_id a))) db1 = Inr (db', r)"
      using assms by (auto simp: submit_tx_def Let_def bindR_eq_Inr split: if_splits)
    then show ?thesis
      using Some at_insert_Inr[of "le_users env" p db db1 a] that[of "Some (at_id a)" db1]
      by (auto simp: persist_attachment_def)
  qed
  have r: "r = lr_stored ((lr_new (le_now env) s att)\<lparr>lr_id := ld_next db\<rparr>)" "lr_checks r"
    "db' = db1\<lparr>ld_requests := ld_requests db1 @ [r], ld_next := ld_next db1 + 1\<rparr>"
    using d(1,3) unfolding lr_insert_Inr by (simp_all add: lr_checks_def)
  show "consumed db (lr_employee r) (lr_type r) + lr_days r \<le> of_int (allowance db (lr_employee r) (lr_type r))"
  proof -
    have "lr_employee r = si_employee ?i" "lr_type r = si_type ?i" "lr_days r = sr_working_days (sb_range s)"
      by (simp_all add: r(1) lr_new_def Let_def)
    then show ?thesis using bal by simp
  qed
  show "\<exists>att. r = lr_stored ((lr_new (le_now env) s att)\<lparr>lr_id := ld_next db\<rparr>) \<and> lr_checks r \<and>
      (att = None \<longleftrightarrow> sb_prepared s = None)"
    by (intro exI[of _ att] conjI) (fact r(1), fact r(2), fact d(9))
  show "ld_requests db' = ld_requests db @ [r]" "ld_next db' = ld_next db + 1" "ld_allocs db' = ld_allocs db"
      "ld_alloc_next db' = ld_alloc_next db" "ld_store db' = ld_store db" "ld_events db' = ld_events db"
      "ld_grants db' = ld_grants db"
    using r(3) d by simp_all
  show "sb_prepared s = None \<Longrightarrow> ld_files db' = ld_files db" using r(3) d(10) by simp
  show "sb_prepared s = Some p \<Longrightarrow>
      ld_files db' = ld_files db @ [persist_attachment (ld_file_next db) p] \<and> lr_attachment r = Some (ld_file_next db)"
  proof -
    assume p: "sb_prepared s = Some p"
    have "lr_attachment r = att" using r(1) by (simp add: lr_new_def Let_def)
    moreover have "ld_files db' = ld_files db1" using r(3) by simp
    ultimately show ?thesis using d(11)[OF p] by simp
  qed
qed

text \<open>A decision either fails and changes nothing, or replaces the row it loaded.\<close>

lemma loadAggregate_Inr:
  "loadAggregate db i = Inr r \<longleftrightarrow> findLeave db i = Some r \<and> reconstitute_leave r = Inr r"
  by (auto simp: loadAggregate_def reconstitute_leave_def bindR_eq_Inr split: option.splits)

lemma persist_leave_cases:
  assumes "persist_leave up i f ev db = (db', res)" "findLeave db i = Some r"
  shows "(\<exists>er. res = Inl er \<and> db' = db) \<or>
    (res = Inr (lr_stored (f r)) \<and> lr_checks (f r) \<and> lr_fks up (f r) \<and>
     db' = db\<lparr>ld_requests := update_where (\<lambda>q. lr_id q = i) (\<lambda>_. lr_stored (f r)) (ld_requests db),
              ld_events := ld_events db @ [ev]\<rparr>)"
  using assms by (auto simp: persist_leave_def lr_update_def Let_def split: if_splits)

end
