(* ===== verification/LeaveLifecycle.thy ===== *)
theory LeaveLifecycle
  imports LeaveService
begin

text \<open>
  What the leave use cases guarantee: the step relation of the module with the two phases of
  concurrent submits interleaved, the invariants of its reachable states, and the outcomes of the
  decisions.
\<close>

section \<open>The invariants\<close>

definition balance_ok :: "leave_db \<Rightarrow> bool" where
  "balance_ok db \<longleftrightarrow> (\<forall>e t. consumed db e t \<le> of_int (allowance db e t))"

definition leave_inv :: "leave_db \<Rightarrow> bool" where
  "leave_inv db \<longleftrightarrow>
     serial_ok lr_id (ld_next db) (ld_requests db) \<and> list_all lr_checks (ld_requests db) \<and> balance_ok db"

definition ranges_meet :: "leave \<Rightarrow> leave \<Rightarrow> bool" where
  "ranges_meet r s \<longleftrightarrow> \<not> (lr_end r < lr_start s \<or> lr_end s < lr_start r)"

definition lr_active :: "leave \<Rightarrow> bool" where
  "lr_active r \<longleftrightarrow> lr_live r \<and> status_active (lr_status r)"

text \<open>No employee is away twice on a day.\<close>

definition no_double_booking :: "leave list \<Rightarrow> bool" where
  "no_double_booking rows \<longleftrightarrow>
     (\<forall>r \<in> set rows. \<forall>s \<in> set rows. lr_id r \<noteq> lr_id s \<longrightarrow> lr_employee r = lr_employee s \<longrightarrow>
        lr_active r \<longrightarrow> lr_active s \<longrightarrow> \<not> ranges_meet r s)"

lemma lr_active_stored [simp]: "lr_active (lr_stored r) = lr_active r"
  by (simp add: lr_active_def)

section \<open>Updates that only release days\<close>

text \<open>The effect shared by every decision and by the cascade: rows are replaced by rows of the same
  request, and no row becomes active.\<close>

definition releases :: "leave \<Rightarrow> leave \<Rightarrow> bool" where
  "releases r s \<longleftrightarrow>
     lr_id s = lr_id r \<and> lr_employee s = lr_employee r \<and> lr_type s = lr_type r \<and> lr_days s = lr_days r \<and>
     lr_start s = lr_start r \<and> lr_end s = lr_end r \<and> lr_portion s = lr_portion r \<and>
     (lr_active s \<longrightarrow> lr_active r)"

lemma releases_consumed:
  assumes "\<forall>r \<in> set rows. p r \<longrightarrow> releases r (f r)" "\<forall>r \<in> set rows. 0 \<le> lr_days r"
  shows "sum_list (map lr_days (filter (consumes e t) (update_where p f rows))) \<le>
    sum_list (map lr_days (filter (consumes e t) rows))"
  using assms
proof (induction rows)
  case (Cons r rows)
  have "p r \<Longrightarrow> consumes e t (f r) \<Longrightarrow> consumes e t r \<and> lr_days (f r) = lr_days r"
    using Cons.prems by (auto simp: consumes_def releases_def lr_active_def)
  moreover have "0 \<le> lr_days r" using Cons.prems by simp
  moreover have "sum_list (map lr_days (filter (consumes e t) (update_where p f rows))) \<le>
      sum_list (map lr_days (filter (consumes e t) rows))"
    using Cons.IH Cons.prems by simp
  ultimately show ?case by (cases "p r"; cases "consumes e t r"; cases "consumes e t (f r)") auto
qed simp

lemma releases_serial:
  assumes "serial_ok lr_id n rows" "\<forall>r \<in> set rows. p r \<longrightarrow> releases r (f r)"
  shows "serial_ok lr_id n (update_where p f rows)"
proof -
  have "map lr_id (update_where p f rows) = map lr_id rows"
    using assms(2) by (induction rows) (auto simp: releases_def)
  moreover have "list_all (\<lambda>r. lr_id r < n) (update_where p f rows)"
    using assms by (fastforce simp: serial_ok_def list_all_iff table_simps releases_def)
  ultimately show ?thesis using assms(1) by (simp add: serial_ok_def)
qed

lemma releases_checks:
  assumes "list_all lr_checks rows" "\<forall>r \<in> set rows. p r \<longrightarrow> releases r (f r)"
  shows "list_all lr_checks (update_where p f rows)"
proof -
  have "lr_checks s" if "releases r s" "lr_checks r" for r s
    using that by (simp add: releases_def lr_checks_def)
  then have "\<forall>r \<in> set rows. lr_checks (if p r then f r else r)"
    using assms by (auto simp: list_all_iff)
  then show ?thesis by (auto simp: list_all_iff table_simps)
qed


lemma releases_inv:
  assumes "leave_inv db" "\<forall>r \<in> set (ld_requests db). p r \<longrightarrow> releases r (f r)"
    and "ld_requests db' = update_where p f (ld_requests db)" "ld_next db' = ld_next db"
    and "ld_allocs db' = ld_allocs db"
  shows "leave_inv db'"
proof -
  have "\<forall>r \<in> set (ld_requests db). 0 \<le> lr_days r"
    using assms(1) by (auto simp: leave_inv_def list_all_iff lr_checks_def intro: order_trans[of 0 "1/2 :: rat"])
  then have "consumed db' e t \<le> consumed db e t" for e t
    using releases_consumed[OF assms(2)] by (simp add: consumed_def assms(3))
  moreover have "allowance db' e t = allowance db e t" for e t
    by (simp add: allowance_def assms(5))
  moreover have "consumed db e t \<le> of_int (allowance db e t)" for e t
    using assms(1) by (simp add: leave_inv_def balance_ok_def)
  ultimately have "balance_ok db'"
    unfolding balance_ok_def by (metis order_trans)
  then show ?thesis
    using assms(1) releases_serial[OF _ assms(2)] releases_checks[OF _ assms(2)]
    by (simp add: leave_inv_def assms(3,4))
qed

section \<open>Decisions release\<close>

definition decides :: "leave_db \<Rightarrow> leave_db \<Rightarrow> bool" where
  "decides db db' \<longleftrightarrow>
     db' = db \<or> (\<exists>i s r. findLeave db i = Some r \<and> releases r s \<and>
       ld_requests db' = update_where (\<lambda>q. lr_id q = i) (\<lambda>_. s) (ld_requests db) \<and>
       ld_next db' = ld_next db \<and> ld_allocs db' = ld_allocs db)"

lemma loaded_unique:
  assumes "serial_ok lr_id n (ld_requests db)" "findLeave db i = Some r" "q \<in> set (ld_requests db)" "lr_id q = i"
  shows "q = r"
  using assms findLeave_Some[OF assms(2)] serial_ok_inj by fastforce

lemma decides_update:
  assumes "decides db db'" "serial_ok lr_id (ld_next db) (ld_requests db)"
  shows "\<exists>p f. (\<forall>r \<in> set (ld_requests db). p r \<longrightarrow> releases r (f r)) \<and>
    ld_requests db' = update_where p f (ld_requests db) \<and> ld_next db' = ld_next db \<and> ld_allocs db' = ld_allocs db"
  using assms(1) unfolding decides_def
proof (elim disjE exE conjE)
  assume "db' = db"
  then show ?thesis
    by (intro exI[of _ "\<lambda>_. False"] exI[of _ id]) (simp add: update_where_def)
next
  fix i s r
  assume d: "findLeave db i = Some r" "releases r s"
    "ld_requests db' = update_where (\<lambda>q. lr_id q = i) (\<lambda>_. s) (ld_requests db)"
    "ld_next db' = ld_next db" "ld_allocs db' = ld_allocs db"
  have "\<forall>q \<in> set (ld_requests db). lr_id q = i \<longrightarrow> releases q s"
    using loaded_unique[OF assms(2) d(1)] d(2) by blast
  then show ?thesis
    using d by (intro exI[of _ "\<lambda>q. lr_id q = i"] exI[of _ "\<lambda>_. s"]) simp
qed

lemma decides_inv: "decides db db' \<Longrightarrow> leave_inv db \<Longrightarrow> leave_inv db'"
  using decides_update[of db db'] releases_inv[of db _ _ db'] by (auto simp: leave_inv_def)


lemma persist_decides:
  assumes "persist_leave up i f ev db = (db', res)" "findLeave db i = Some r" "releases r (f r)"
  shows "decides db db'"
  using persist_leave_cases[OF assms(1,2)]
proof
  assume "\<exists>er. res = Inl er \<and> db' = db"
  then show ?thesis by (simp add: decides_def)
next
  assume "res = Inr (lr_stored (f r)) \<and> lr_checks (f r) \<and> lr_fks up (f r) \<and>
     db' = db\<lparr>ld_requests := update_where (\<lambda>q. lr_id q = i) (\<lambda>_. lr_stored (f r)) (ld_requests db),
              ld_events := ld_events db @ [ev]\<rparr>"
  moreover have "releases r (lr_stored (f r))" using assms(3) by (simp add: releases_def)
  ultimately show ?thesis using assms(2) unfolding decides_def by auto
qed

lemma pending_active: "status_pending s \<Longrightarrow> status_active s"
  by (simp add: status_active_def)

lemma cancel_decides: "cancelRequest env i caller db = (db', res) \<Longrightarrow> decides db db'"
proof (cases "loadAggregate db i")
  case (Inl er)
  moreover assume "cancelRequest env i caller db = (db', res)"
  ultimately show ?thesis by (simp add: cancelRequest_def decides_def)
next
  case (Inr r)
  assume c: "cancelRequest env i caller db = (db', res)"
  have l: "findLeave db i = Some r" using Inr by (simp add: loadAggregate_Inr)
  show ?thesis
  proof (cases "cancelLeave (le_now env) (le_today env) r (toLeaveActor caller)")
    case (Inl er)
    then show ?thesis using c Inr \<open>loadAggregate db i = Inr r\<close> by (simp add: cancelRequest_def domainR_def decides_def)
  next
    case (Inr x)
    obtain r' ev where x: "x = (r', ev)" by (cases x)
    have st: "status_active (lr_status r)" "lr_status r' = Cancelled"
      using Inr x by (auto simp: cancelLeave_def split: if_splits)
    have "persist_leave (le_users env) i
        (\<lambda>q. q\<lparr>lr_status := lr_status r', lr_cancelled_at := lr_cancelled_at r',
               lr_cancelled_by := lr_cancelled_by r', lr_updated_by := Some (usr_id caller)\<rparr>) ev db = (db', res)"
      using c Inr x \<open>loadAggregate db i = Inr r\<close> by (simp add: cancelRequest_def domainR_def)
    then show ?thesis
      by (rule persist_decides[OF _ l])
        (simp add: releases_def lr_active_def lr_live_def st)
  qed
qed

lemma domainR_simps [simp]:
  "domainR (Inl er) = Inl (rethrowLeaveDomainError er)" "domainR (Inr x) = Inr x"
  by (simp_all add: domainR_def)

lemma domainR_eq_Inr [simp]: "domainR r = Inr x \<longleftrightarrow> r = Inr x"
  by (cases r) simp_all

lemma approve_decides: "approveRequest env i caller db = (db', res) \<Longrightarrow> decides db db'"
proof (cases "loadAggregate db i")
  case (Inl er)
  moreover assume "approveRequest env i caller db = (db', res)"
  ultimately show ?thesis by (simp add: approveRequest_def decides_def)
next
  case ld: (Inr r)
  let ?a = "toLeaveActor caller"
  assume c: "approveRequest env i caller db = (db', res)"
  have l: "findLeave db i = Some r" using ld by (simp add: loadAggregate_Inr)
  obtain r' ev where ap: "applyApproval (le_now env) r ?a = (r', ev)" by (cases "applyApproval (le_now env) r ?a")
  show ?thesis
  proof (cases "assertApprovable r ?a")
    case (Inl er)
    then show ?thesis using c ld by (simp add: approveRequest_def decides_def Let_def)
  next
    case (Inr u)
    then have act: "status_active (lr_status r)" using assertApprovable_iff pending_active by blast
    consider "db' = db" | "persist_leave (le_users env) i
        (\<lambda>q. q\<lparr>lr_status := lr_status r', lr_decided_at := lr_decided_at r', lr_decided_by := lr_decided_by r',
               lr_decision_path := lr_decision_path r', lr_updated_by := Some (usr_id caller)\<rparr>) ev db = (db', res)"
      using c ld Inr ap by (auto simp: approveRequest_def Let_def split: if_splits)
    then show ?thesis
    proof cases
      case 1
      then show ?thesis by (simp add: decides_def)
    next
      case 2
      show ?thesis
        by (rule persist_decides[OF 2 l]) (simp add: releases_def lr_active_def lr_live_def act)
    qed
  qed
qed

lemma reject_decides: "rejectRequest env i caller why db = (db', res) \<Longrightarrow> decides db db'"
proof (cases "loadAggregate db i")
  case (Inl er)
  moreover assume "rejectRequest env i caller why db = (db', res)"
  ultimately show ?thesis by (simp add: rejectRequest_def decides_def)
next
  case ld: (Inr r)
  assume c: "rejectRequest env i caller why db = (db', res)"
  have l: "findLeave db i = Some r" using ld by (simp add: loadAggregate_Inr)
  show ?thesis
  proof (cases "rejectLeave (le_now env) r (toLeaveActor caller) why")
    case (Inl er)
    then show ?thesis using c ld by (simp add: rejectRequest_def decides_def)
  next
    case (Inr x)
    obtain r' ev where x: "x = (r', ev)" by (cases x)
    have st: "lr_status r' = Rejected"
      using Inr x by (auto simp: rejectLeave_def bindR_eq_Inr split: if_splits)
    have "persist_leave (le_users env) i
        (\<lambda>q. q\<lparr>lr_status := lr_status r', lr_decided_at := lr_decided_at r', lr_decided_by := lr_decided_by r',
               lr_decision_note := lr_decision_note r', lr_decision_path := lr_decision_path r',
               lr_updated_by := Some (usr_id caller)\<rparr>) ev db = (db', res)"
      using c Inr x ld by (simp add: rejectRequest_def)
    then show ?thesis
      by (rule persist_decides[OF _ l])
        (simp add: releases_def lr_active_def lr_live_def st status_active_def status_pending_def)
  qed
qed

section \<open>The other steps\<close>

lemma system_releases: "status_active (lr_status r) \<Longrightarrow> lr_live r \<Longrightarrow> releases r (system_cancelled now actor why r)"
  by (simp add: releases_def lr_active_def system_cancelled_def lr_live_def)

lemma systemCancel_eq:
  "ld_requests (fst (systemCancel now ids actor why db)) =
     update_where (\<lambda>r. lr_id r \<in> set ids \<and> status_active (lr_status r) \<and> lr_live r)
       (system_cancelled now actor why) (ld_requests db)"
  "ld_next (fst (systemCancel now ids actor why db)) = ld_next db"
  "ld_allocs (fst (systemCancel now ids actor why db)) = ld_allocs db"
  by (simp_all add: systemCancel_def Let_def update_where_def)

lemma systemCancel_inv: "leave_inv db \<Longrightarrow> leave_inv (fst (systemCancel now ids actor why db))"
  by (rule releases_inv[OF _ _ systemCancel_eq]) (auto intro: system_releases)


lemma inv_frame:
  assumes "ld_requests db' = ld_requests db" "ld_next db' = ld_next db"
    and "\<And>e t. allowance db e t \<le> allowance db' e t" "leave_inv db"
  shows "leave_inv db'"
proof -
  have "consumed db' e t \<le> of_int (allowance db' e t)" for e t
  proof -
    have "consumed db' e t = consumed db e t" by (simp add: consumed_def assms(1))
    also have "\<dots> \<le> of_int (allowance db e t)" using assms(4) by (simp add: leave_inv_def balance_ok_def)
    also have "\<dots> \<le> of_int (allowance db' e t)" using assms(3) by simp
    finally show ?thesis .
  qed
  then show ?thesis using assms(1,2,4) by (simp add: leave_inv_def balance_ok_def)
qed

lemma side_inv: "leave_inv db \<Longrightarrow> leave_inv (db\<lparr>ld_store := os\<rparr>)" "leave_inv db \<Longrightarrow> leave_inv (db\<lparr>ld_events := es\<rparr>)"
  by (rule inv_frame[of _ db]; simp)+

lemma al_create_inv:
  assumes "al_create now a db = Inr (db', b)" "leave_inv db"
  shows "leave_inv db'" "ld_requests db' = ld_requests db"
proof -
  have d: "db' = db\<lparr>ld_allocs := ld_allocs db @ [b], ld_alloc_next := ld_alloc_next db + 1\<rparr>" "0 < al_amount b"
    using assms(1) by (auto simp: al_create_def Let_def split: if_splits)
  have "allowance db e t \<le> allowance db' e t" for e t
    using d by (simp add: allowance_def)
  then show "leave_inv db'" using assms(2) d(1) by (intro inv_frame[of db' db]) simp_all
  show "ld_requests db' = ld_requests db" using d(1) by simp
qed

lemma grant_inv:
  assumes "leave_inv db"
  shows "leave_inv (fst (grant up now e t amount reason actor db))"
    and "ld_requests (fst (grant up now e t amount reason actor db)) = ld_requests db"
proof -
  have ev: "leave_inv (d\<lparr>ld_grants := g\<rparr>)" if "leave_inv d" for d g
    by (rule inv_frame[of _ d]) (simp_all add: allowance_def that)
  show "leave_inv (fst (grant up now e t amount reason actor db))"
    "ld_requests (fst (grant up now e t amount reason actor db)) = ld_requests db"
    using assms al_create_inv ev
    by (auto simp: grant_def split: sum.splits prod.splits)
qed

lemma submit_prepare_inv:
  assumes "leave_inv db"
  shows "leave_inv (fst (submit_prepare env i db))"
    and "ld_requests (fst (submit_prepare env i db)) = ld_requests db"
proof -
  obtain os where "fst (submit_prepare env i db) = db\<lparr>ld_store := os\<rparr>" using submit_prepare_db by blast
  then show "leave_inv (fst (submit_prepare env i db))"
    "ld_requests (fst (submit_prepare env i db)) = ld_requests db"
    using inv_frame[of "db\<lparr>ld_store := os\<rparr>" db] assms by simp_all
qed

lemma submit_commit_cases:
  obtains (rolled_back) er os where "submit_commit env s db = (db\<lparr>ld_store := os\<rparr>, Inl er)"
      "submit_tx env s db = Inl er"
  | (committed) db' r where "submit_tx env s db = Inr (db', r)"
      "submit_commit env s db =
         (db'\<lparr>ld_events := ld_events db' @ [LeaveRequestSubmitted (lr_id r) (lr_employee r) (lr_l1 r)]\<rparr>, Inr r)"
proof (cases "submit_tx env s db")
  case (Inl er)
  have "db = db\<lparr>ld_store := ld_store db\<rparr>" by simp
  then show ?thesis
    using Inl rolled_back[of "ld_store db" er] rolled_back[of _ er]
    by (cases "sb_prepared s") (simp_all add: submit_commit_def)
next
  case (Inr x)
  then show ?thesis using committed[of "fst x" "snd x"] by (simp add: submit_commit_def case_prod_beta)
qed

lemma commit_balance:
  assumes "leave_inv db" "submit_tx env s db = Inr (db', r)"
  shows "leave_inv db'"
proof -
  note f = submit_tx_Inr[OF assms(2)]
  have r: "lr_id r = ld_next db" "lr_checks r" using f(2) by auto
  have "consumed db' e t \<le> of_int (allowance db' e t)" for e t
  proof -
    have c: "consumed db' e t = consumed db e t + (if consumes e t r then lr_days r else 0)"
      by (simp add: consumed_def f(3))
    have a: "allowance db' e t = allowance db e t" by (simp add: allowance_def f(5))
    have "consumed db e t \<le> of_int (allowance db e t)"
      using assms(1) by (simp add: leave_inv_def balance_ok_def)
    moreover have "consumed db e t + lr_days r \<le> of_int (allowance db e t)" if "consumes e t r"
      using that f(1) by (simp add: consumes_def)
    ultimately show ?thesis unfolding c a by (cases "consumes e t r") simp_all
  qed
  then show ?thesis
    using assms(1) r serial_ok_snoc[of lr_id "ld_next db" "ld_requests db" r]
    by (simp add: leave_inv_def balance_ok_def f(3,4))
qed

lemma submit_commit_inv: "leave_inv db \<Longrightarrow> leave_inv (fst (submit_commit env s db))"
proof (cases rule: submit_commit_cases[of env s db])
  case (rolled_back er os)
  moreover assume "leave_inv db"
  ultimately show ?thesis by (simp add: side_inv)
next
  case (committed db' r)
  moreover assume "leave_inv db"
  ultimately show ?thesis using commit_balance[of db env s db' r] by (simp add: side_inv)
qed

section \<open>Nobody decides their own request\<close>

definition others_decide :: "leave \<Rightarrow> bool" where
  "others_decide r \<longleftrightarrow> lr_l1 r \<noteq> lr_employee r \<and> lr_l2 r \<noteq> Some (lr_employee r)"

definition submission_ok :: "submission \<Rightarrow> bool" where
  "submission_ok s \<longleftrightarrow> sb_l1 s \<noteq> si_employee (sb_input s) \<and> sb_l2 s \<noteq> Some (si_employee (sb_input s))"

lemma prepared_submission_ok:
  assumes "submit_prepare env i db = (db', Inr s)" "chain_inv (le_chains env)"
  shows "submission_ok s"
proof (cases rule: submit_prepare_cases[of env i db])
  case (refused er)
  then show ?thesis using assms(1) by simp
next
  case (uploaded sr l1)
  have "sb_input s = i \<and> sb_l1 s = l1 \<and> sb_l2 s = l2_approver_id (getActive (le_chains env) (si_employee i))"
    using assms(1) uploaded(5) by (auto split: prod.splits sum.splits)
  then show ?thesis
    using chains.never_self[OF assms(2), of "si_employee i"] uploaded(3)
    by (auto simp: submission_ok_def)
qed

lemma submit_tx_others:
  "submit_tx env s db = Inr (db', r) \<Longrightarrow> submission_ok s \<Longrightarrow> others_decide r"
  using submit_tx_Inr(2)[of env s db db' r]
  by (auto simp: others_decide_def submission_ok_def lr_new_def Let_def)

section \<open>The step relation\<close>

text \<open>A state of the module: the tables and the submissions between their two phases.  Each step is a
  call, or one phase of a submit, with its own environment.\<close>

inductive leave_step :: "leave_db \<times> submission list \<Rightarrow> leave_db \<times> submission list \<Rightarrow> bool" where
  prepare: "chain_inv (le_chains env) \<Longrightarrow> submit_prepare env i db = (db', res) \<Longrightarrow>
    leave_step (db, pool) (db', case res of Inl _ \<Rightarrow> pool | Inr s \<Rightarrow> s # pool)"
| commit: "s \<in> set pool \<Longrightarrow> leave_step (db, pool) (fst (submit_commit env s db), remove1 s pool)"
| cancel: "leave_step (db, pool) (fst (cancelRequest env i caller db), pool)"
| approve: "leave_step (db, pool) (fst (approveRequest env i caller db), pool)"
| reject: "leave_step (db, pool) (fst (rejectRequest env i caller why db), pool)"
| cascade: "leave_step (db, pool) (fst (systemCancel now ids a why db), pool)"
| granted: "leave_step (db, pool) (fst (grant up now e t amount reason a db), pool)"
| onboard: "al_create now al db = Inr (db', saved) \<Longrightarrow> leave_step (db, pool) (db', pool)"

inductive_cases leave_stepE: "leave_step x y"

definition leave_state_inv :: "leave_db \<times> submission list \<Rightarrow> bool" where
  "leave_state_inv x \<longleftrightarrow>
     leave_inv (fst x) \<and> list_all others_decide (ld_requests (fst x)) \<and> list_all submission_ok (snd x)"

lemma persist_others:
  assumes "persist_leave up i f ev db = (db', res)" "findLeave db i = Some r"
    and "list_all others_decide (ld_requests db)" "others_decide r \<Longrightarrow> others_decide (f r)"
  shows "list_all others_decide (ld_requests db')"
proof -
  have r: "others_decide r" using assms(2,3) findLeave_Some by (force simp: list_all_iff)
  have "others_decide (lr_stored (f r))" using assms(4)[OF r] by (simp add: others_decide_def)
  then have "list_all others_decide (update_where (\<lambda>q. lr_id q = i) (\<lambda>_. lr_stored (f r)) (ld_requests db))"
    using assms(3) by (auto simp: list_all_iff table_simps)
  then show ?thesis
    using persist_leave_cases[OF assms(1,2)] assms(3) by auto
qed

lemma decisions_others:
  assumes "list_all others_decide (ld_requests db)"
  shows "list_all others_decide (ld_requests (fst (cancelRequest env i caller db)))"
    and "list_all others_decide (ld_requests (fst (approveRequest env i caller db)))"
    and "list_all others_decide (ld_requests (fst (rejectRequest env i caller why db)))"
proof -
  note others = persist_others[OF surjective_pairing _ assms]
  have keep: "list_all others_decide (ld_requests (fst (persist_leave up i f ev db)))"
    if "loadAggregate db i = Inr r" "\<And>q. lr_employee (f q) = lr_employee q \<and> lr_l1 (f q) = lr_l1 q \<and> lr_l2 (f q) = lr_l2 q"
    for up f ev r
    using that by (intro others[where r = r]) (auto simp: loadAggregate_Inr others_decide_def)
  show "list_all others_decide (ld_requests (fst (cancelRequest env i caller db)))"
    using assms keep by (auto simp: cancelRequest_def split: sum.splits prod.splits)
  show "list_all others_decide (ld_requests (fst (approveRequest env i caller db)))"
    using assms keep by (auto simp: approveRequest_def Let_def split: sum.splits prod.splits)
  show "list_all others_decide (ld_requests (fst (rejectRequest env i caller why db)))"
    using assms keep by (auto simp: rejectRequest_def split: sum.splits prod.splits)
qed

lemma leave_step_inv:
  assumes "leave_step x y" "leave_state_inv x"
  shows "leave_state_inv y"
  using assms
proof (induction rule: leave_step.induct)
  case (prepare env i db db' res pool)
  then show ?case
    using submit_prepare_inv[of db env i] prepared_submission_ok[of env i db db']
    by (cases res) (auto simp: leave_state_inv_def)
next
  case (commit s pool db env)
  have "list_all others_decide (ld_requests (fst (submit_commit env s db)))"
  proof (cases rule: submit_commit_cases[of env s db])
    case (rolled_back er os)
    then show ?thesis using commit by (simp add: leave_state_inv_def)
  next
    case (committed db' r)
    then show ?thesis
      using commit submit_tx_others[OF committed(1)] submit_tx_Inr(3)[OF committed(1)]
      by (auto simp: leave_state_inv_def list_all_iff)
  qed
  then show ?case
    using commit submit_commit_inv[of db env s] set_remove1_subset[of s pool]
    by (auto simp: leave_state_inv_def list_all_iff)
next
  case (cancel db pool env i caller)
  then show ?case
    using cancel_decides[of env i caller db] decides_inv decisions_others(1)[of db env i caller]
    by (cases "cancelRequest env i caller db") (auto simp: leave_state_inv_def)
next
  case (approve db pool env i caller)
  then show ?case
    using approve_decides[of env i caller db] decides_inv decisions_others(2)[of db env i caller]
    by (cases "approveRequest env i caller db") (auto simp: leave_state_inv_def)
next
  case (reject db pool env i caller why)
  then show ?case
    using reject_decides[of env i caller why db] decides_inv decisions_others(3)[of db env i caller why]
    by (cases "rejectRequest env i caller why db") (auto simp: leave_state_inv_def)
next
  case (cascade db pool now ids a why)
  then show ?case
    using systemCancel_inv[of db]
    by (auto simp: leave_state_inv_def list_all_iff systemCancel_eq table_simps others_decide_def
        system_cancelled_def split: if_splits)
next
  case (granted db pool up now e t amount reason a)
  then show ?case using grant_inv[of db] by (simp add: leave_state_inv_def)
next
  case (onboard now al db db' saved pool)
  then show ?case using al_create_inv[OF onboard(1)] by (simp add: leave_state_inv_def)
qed

lemma leave_reachable_inv:
  assumes "rtranclp leave_step (empty_leave_db, []) x"
  shows "leave_state_inv x"
  using assms
proof (induction rule: rtranclp_induct)
  case base
  show ?case
    by (simp add: leave_state_inv_def leave_inv_def empty_leave_db_def balance_ok_def consumed_def allowance_def)
next
  case (step y z)
  then show ?case using leave_step_inv by blast
qed

section \<open>A sample run\<close>

text \<open>Employee 5 with approver 2 works on Mondays; 2026-07-06 is one.\<close>

definition sample_leave_env :: leave_env where
  "sample_leave_env = \<lparr>le_users = sample_users, le_chains = sample_chains, le_schedules = sample_schedules,
     le_today = Date 2026 7 1, le_now = 100, le_storage = sample_env\<rparr>"

definition sample_submit :: "leave_type \<Rightarrow> date \<Rightarrow> day_portion option \<Rightarrow> submit_input" where
  "sample_submit t d portion = \<lparr>si_employee = 5, si_type = t, si_start = d, si_end = d, si_portion = portion,
     si_reason = None,
     si_file = (if t \<in> set ATTACHMENT_REQUIRED_LEAVE_TYPES
                then Some \<lparr>up_buffer = sample_jpeg, up_name = ''scan.jpg''\<rparr> else None),
     si_uuid = ''u1'', si_actor = 5\<rparr>"

definition sample_granted :: leave_db where
  "sample_granted = fst (grant sample_users 0 5 Vacation 2 None 1 empty_leave_db)"

definition sample_submitted :: leave_db where
  "sample_submitted = fst (submit sample_leave_env (sample_submit Vacation (Date 2026 7 6) None) sample_granted)"

lemma submit_phases:
  "submit_prepare env i db = (db1, Inr s) \<Longrightarrow> submit env i db = submit_commit env s db1"
  by (simp add: submit_def)

lemma submit_steps:
  assumes "chain_inv (le_chains env)"
  shows "rtranclp leave_step (db, pool) (fst (submit env i db), pool)"
proof -
  obtain db1 res where p: "submit_prepare env i db = (db1, res)" by (cases "submit_prepare env i db")
  have s1: "leave_step (db, pool) (db1, case res of Inl _ \<Rightarrow> pool | Inr s \<Rightarrow> s # pool)"
    using leave_step.prepare[OF assms p] .
  show ?thesis
  proof (cases res)
    case (Inl er)
    then show ?thesis using s1 p by (simp add: submit_def)
  next
    case (Inr s)
    have "leave_step (db1, s # pool) (fst (submit_commit env s db1), remove1 s (s # pool))"
      by (rule leave_step.commit) simp
    then show ?thesis using s1 p Inr by (simp add: submit_def)
  qed
qed

lemma sample_reachable: "rtranclp leave_step (empty_leave_db, []) (sample_submitted, [])"
proof -
  have "leave_step (empty_leave_db, []) (sample_granted, [])"
    unfolding sample_granted_def by (rule leave_step.granted)
  moreover have "rtranclp leave_step (sample_granted, []) (sample_submitted, [])"
    unfolding sample_submitted_def by (rule submit_steps) (simp add: sample_leave_env_def sample_chain)
  ultimately show ?thesis by simp
qed

section \<open>Properties\<close>



text \<open>C2: Nobody approves their own leave.  In every reachable state a requester without the override
  permission cannot approve or reject a request of their own, whatever their approve permission:
  both calls leave the tables as they are and throw.\<close>

theorem own_leave_not_decidable:
  assumes "rtranclp leave_step (empty_leave_db, []) (db, pool)"
    and "findLeave db i = Some r" "lr_employee r = usr_id caller" "\<not> overrides (toLeaveActor caller)"
  shows "fst (approveRequest env i caller db) = db \<and> \<not> okR (snd (approveRequest env i caller db)) \<and>
    fst (rejectRequest env i caller why db) = db \<and> \<not> okR (snd (rejectRequest env i caller why db))"
proof -
  have "others_decide r"
    using leave_reachable_inv[OF assms(1)] findLeave_Some[OF assms(2)]
    by (auto simp: leave_state_inv_def list_all_iff)
  then have "\<not> isActionableBy r (toLeaveActor caller)"
    using assms(3,4)
    by (auto simp: isActionableBy_def overrides_def others_decide_def toLeaveActor_def)
  then have n: "\<not> okR (assertApprovable r (toLeaveActor caller))"
    "\<not> okR (rejectLeave (le_now env) r (toLeaveActor caller) why)"
    by (auto simp: assertApprovable_def rejectLeave_def assertPending_def assertCurrentApprover_def guardR_def)
  show ?thesis
  proof (cases "loadAggregate db i")
    case (Inl er)
    then show ?thesis by (simp add: approveRequest_def rejectRequest_def)
  next
    case (Inr q)
    then have "q = r" using assms(2) by (simp add: loadAggregate_Inr)
    then show ?thesis
      using Inr n
      by (cases "assertApprovable r (toLeaveActor caller)"; cases "rejectLeave (le_now env) r (toLeaveActor caller) why")
        (simp_all add: approveRequest_def rejectRequest_def Let_def)
  qed
qed

definition sample_approver :: "int \<Rightarrow> user" where
  "sample_approver i = (sample_user i)\<lparr>usr_role := sample_role\<lparr>role_permissions :=
     [\<lparr>perm_id = 1, perm_code = ''LEAVE:Approve'', perm_resource = ''LEAVE'', perm_action = ''Approve''\<rparr>]\<rparr>\<rparr>"

theorem own_leave_not_decidable_witness:
  "fst (approveRequest sample_leave_env 1 (sample_approver 5) sample_submitted) = sample_submitted"
proof -
  obtain r where r: "findLeave sample_submitted 1 = Some r" "lr_employee r = 5"
  proof -
    have "map_option lr_employee (findLeave sample_submitted 1) = Some 5" by code_simp
    then show ?thesis using that by auto
  qed
  have "lr_employee r = usr_id (sample_approver 5)" "\<not> overrides (toLeaveActor (sample_approver 5))"
    using r by (simp_all add: sample_approver_def sample_user_def overrides_def toLeaveActor_def
        hasPermission_def permission_codes_def)
  then show ?thesis using own_leave_not_decidable[OF sample_reachable r(1)] by blast
qed






text \<open>Two submits at a time can double-book.  The overlap check reads before the transaction and
  the transaction only recounts the balance: when two calls of one employee for overlapping dates have
  both passed their first phase before either commits, and the grants cover both, both commit, and the
  employee holds two active requests for the same day.\<close>

definition fits :: "leave_env \<Rightarrow> submission \<Rightarrow> leave_db \<Rightarrow> bool" where
  "fits env s db \<longleftrightarrow> sb_prepared s = None \<and> lr_checks (lr_new (le_now env) s None) \<and>
     lr_fks (le_users env) (lr_new (le_now env) s None) \<and>
     consumed db (si_employee (sb_input s)) (si_type (sb_input s)) + sr_working_days (sb_range s)
       \<le> of_int (allowance db (si_employee (sb_input s)) (si_type (sb_input s)))"

lemma fits_commits:
  assumes "fits env s db"
  shows "\<exists>r. submit_commit env s db =
      (db\<lparr>ld_requests := ld_requests db @ [r], ld_next := ld_next db + 1,
          ld_events := ld_events db @ [LeaveRequestSubmitted (lr_id r) (lr_employee r) (lr_l1 r)]\<rparr>, Inr r) \<and>
    r = lr_stored ((lr_new (le_now env) s None)\<lparr>lr_id := ld_next db\<rparr>)"
  using assms by (auto simp: fits_def submit_commit_def submit_tx_def lr_insert_def Let_def)

theorem concurrent_submits_double_book:
  assumes "submit_prepare env i db = (db1, Inr s1)" "submit_prepare env j db1 = (db2, Inr s2)"
    and "fits env s1 db2" "fits env s2 (fst (submit_commit env s1 db2))"
    and "si_employee i = si_employee j" "si_start i \<le> si_end j" "si_start j \<le> si_end i"
  shows "okR (snd (submit_commit env s1 db2)) \<and> okR (snd (submit_commit env s2 (fst (submit_commit env s1 db2)))) \<and>
    \<not> no_double_booking (ld_requests (fst (submit_commit env s2 (fst (submit_commit env s1 db2)))))"
proof -
  have inp: "sb_input s = k" if "submit_prepare env k d = (d', Inr s)" for s k d d'
    using that by (cases rule: submit_prepare_cases[of env k d]) (auto split: prod.splits sum.splits)
  note in' = inp[OF assms(1)] inp[OF assms(2)]
  obtain r1 where r1: "snd (submit_commit env s1 db2) = Inr r1"
    "ld_requests (fst (submit_commit env s1 db2)) = ld_requests db2 @ [r1]"
    "ld_next (fst (submit_commit env s1 db2)) = ld_next db2 + 1"
    "r1 = lr_stored ((lr_new (le_now env) s1 None)\<lparr>lr_id := ld_next db2\<rparr>)"
    using fits_commits[OF assms(3)] by force
  obtain r2 where r2: "snd (submit_commit env s2 (fst (submit_commit env s1 db2))) = Inr r2"
    "ld_requests (fst (submit_commit env s2 (fst (submit_commit env s1 db2)))) = ld_requests db2 @ [r1, r2]"
    "r2 = lr_stored ((lr_new (le_now env) s2 None)\<lparr>lr_id := ld_next db2 + 1\<rparr>)"
    using fits_commits[OF assms(4)] r1 by force
  have "lr_id r1 \<noteq> lr_id r2" "lr_employee r1 = lr_employee r2" "lr_active r1" "lr_active r2" "ranges_meet r1 r2"
    using r1(4) r2(3) assms(5-7) in'
    by (simp_all add: lr_new_def Let_def lr_active_def lr_live_def status_active_def status_pending_def
        ranges_meet_def not_less)
  then have "\<not> no_double_booking (ld_requests db2 @ [r1, r2])"
    unfolding no_double_booking_def by auto
  then show ?thesis using r1(1) r2(1,2) by simp
qed

theorem concurrent_submits_double_book_witness:
  "\<exists>db pool. rtranclp leave_step (empty_leave_db, []) (db, pool) \<and> \<not> no_double_booking (ld_requests db)"
proof -
  let ?e = "sample_leave_env"
  let ?i = "sample_submit Vacation (Date 2026 7 6) None"
  let ?j = "(sample_submit Vacation (Date 2026 7 6) None)\<lparr>si_reason := Some ''again''\<rparr>"
  let ?p1 = "submit_prepare ?e ?i sample_granted"
  let ?p2 = "submit_prepare ?e ?j (fst ?p1)"
  let ?s1 = "projr (snd ?p1)" and ?s2 = "projr (snd ?p2)"
  let ?c1 = "submit_commit ?e ?s1 (fst ?p2)"
  let ?c2 = "submit_commit ?e ?s2 (fst ?c1)"
  have ok: "okR (snd ?p1)" "okR (snd ?p2)" "fits ?e ?s1 (fst ?p2)" "fits ?e ?s2 (fst ?c1)" by code_simp+
  then have p: "?p1 = (fst ?p1, Inr ?s1)" "?p2 = (fst ?p2, Inr ?s2)"
    by (auto simp: prod_eq_iff okR_def split: sum.splits)
  have "\<not> no_double_booking (ld_requests (fst ?c2))"
    using concurrent_submits_double_book[OF p ok(3,4)] by (simp add: sample_submit_def)
  moreover have "rtranclp leave_step (empty_leave_db, []) (fst ?c2, remove1 ?s2 (remove1 ?s1 [?s2, ?s1]))"
  proof -
    have ch: "chain_inv (le_chains ?e)" by (simp add: sample_leave_env_def sample_chain)
    have "leave_step (empty_leave_db, []) (sample_granted, [])"
      unfolding sample_granted_def by (rule leave_step.granted)
    moreover have "leave_step (sample_granted, []) (fst ?p1, [?s1])"
      using leave_step.prepare[OF ch p(1), of "[]"] by simp
    moreover have "leave_step (fst ?p1, [?s1]) (fst ?p2, [?s2, ?s1])"
      using leave_step.prepare[OF ch p(2), of "[?s1]"] by simp
    moreover have "leave_step (fst ?p2, [?s2, ?s1]) (fst ?c1, remove1 ?s1 [?s2, ?s1])"
      by (rule leave_step.commit) simp
    moreover have "leave_step (fst ?c1, remove1 ?s1 [?s2, ?s1]) (fst ?c2, remove1 ?s2 (remove1 ?s1 [?s2, ?s1]))"
      by (rule leave_step.commit) auto
    ultimately show ?thesis by (meson rtranclp.rtrancl_refl rtranclp.rtrancl_into_rtrancl)
  qed
  ultimately show ?thesis by blast
qed

end
