(* ===== verification/LeaveOutcomes.thy ===== *)
theory LeaveOutcomes
  imports LeaveLifecycle
begin

text \<open>
  The outcome of each leave use case: what a successful call leaves behind, what a failed one does
  not, and which requests no call can move any more.
\<close>

section \<open>Submit\<close>

lemma submit_Inr:
  assumes "submit env i db = (db', Inr r)"
  obtains sr l1 os p db2 where
    "assertAttachmentContract (si_type i) (si_file i \<noteq> None) = Inr ()"
    "assertSubmittableRange (le_today env) (le_schedules env) (si_employee i) (si_start i) (si_end i)
       (normalizePortion (si_portion i)) (Some (si_type i)) = Inr sr"
    "l1_approver_id (getActive (le_chains env) (si_employee i)) = Some l1"
    "findOverlapping db (si_employee i) (si_start i) (si_end i) = []"
    "upload_phase env i (ld_store db) = (os, Inr p)"
    "submit_tx env \<lparr>sb_input = i, sb_portion = normalizePortion (si_portion i), sb_range = sr, sb_l1 = l1,
       sb_l2 = l2_approver_id (getActive (le_chains env) (si_employee i)), sb_prepared = p\<rparr>
       (db\<lparr>ld_store := os\<rparr>) = Inr (db2, r)"
    "db' = db2\<lparr>ld_events := ld_events db2 @ [LeaveRequestSubmitted (lr_id r) (lr_employee r) (lr_l1 r)]\<rparr>"
proof (cases rule: submit_prepare_cases[of env i db])
  case (refused er)
  then show ?thesis using assms by (simp add: submit_def)
next
  case (uploaded sr l1)
  obtain os res where up: "upload_phase env i (ld_store db) = (os, res)" by (cases "upload_phase env i (ld_store db)")
  show ?thesis
  proof (cases res)
    case (Inl er)
    then show ?thesis using assms uploaded(5) up by (simp add: submit_def)
  next
    case (Inr p)
    let ?s = "\<lparr>sb_input = i, sb_portion = normalizePortion (si_portion i), sb_range = sr, sb_l1 = l1,
       sb_l2 = l2_approver_id (getActive (le_chains env) (si_employee i)), sb_prepared = p\<rparr>"
    have c: "submit_commit env ?s (db\<lparr>ld_store := os\<rparr>) = (db', Inr r)"
      using assms uploaded(5) up Inr by (simp add: submit_def)
    show ?thesis
    proof (cases rule: submit_commit_cases[of env ?s "db\<lparr>ld_store := os\<rparr>"])
      case (rolled_back er os')
      then show ?thesis using c by simp
    next
      case (committed db2 r')
      then show ?thesis using c that[OF uploaded(1-4), of os p db2] up Inr by simp
    qed
  qed
qed

text \<open>C7: What a successful submit means.  The request is the one asked for, pending at the first
  level, with the employee's active chain snapshotted; it falls on no date of another active request;
  it is charged for the working days the day count gives and the grants cover them; it carries an
  attachment exactly when its type demands one; it is appended to the table and one event is published.\<close>

theorem submit_success_means:
  assumes "submit env i db = (db', Inr r)"
  shows "ld_requests db' = ld_requests db @ [r] \<and>
    lr_id r = ld_next db \<and> lr_employee r = si_employee i \<and> lr_type r = si_type i \<and> lr_start r = si_start i \<and>
    lr_end r = si_end i \<and> lr_status r = Pending_l1 \<and>
    getActive (le_chains env) (si_employee i) = \<lparr>l1_approver_id = Some (lr_l1 r), l2_approver_id = lr_l2 r\<rparr> \<and>
    findOverlapping db (si_employee i) (si_start i) (si_end i) = [] \<and>
    (normalizePortion (si_portion i) = Full \<longrightarrow>
       lr_days r = of_int (countWorkingDays (le_schedules env) (si_employee i) (si_start i) (si_end i))) \<and>
    consumed db (si_employee i) (si_type i) + lr_days r \<le> of_int (allowance db (si_employee i) (si_type i)) \<and>
    (lr_attachment r \<noteq> None \<longleftrightarrow> si_type i \<in> {Sick, Bereavement}) \<and>
    ld_events db' = ld_events db @ [LeaveRequestSubmitted (lr_id r) (si_employee i) (lr_l1 r)]"
proof (cases rule: submit_Inr[OF assms])
  case (1 sr l1 os p db2)
  note f = submit_tx_Inr[OF 1(6)]
  obtain att where r: "r = lr_stored ((lr_new (le_now env)
      \<lparr>sb_input = i, sb_portion = normalizePortion (si_portion i), sb_range = sr, sb_l1 = l1,
       sb_l2 = l2_approver_id (getActive (le_chains env) (si_employee i)), sb_prepared = p\<rparr> att)
        \<lparr>lr_id := ld_next (db\<lparr>ld_store := os\<rparr>)\<rparr>)" and att: "att = None \<longleftrightarrow> p = None"
    using f(2) by auto
  have flds: "lr_id r = ld_next db" "lr_employee r = si_employee i" "lr_type r = si_type i"
    "lr_start r = si_start i" "lr_end r = si_end i" "lr_status r = Pending_l1" "lr_l1 r = l1"
    "lr_l2 r = l2_approver_id (getActive (le_chains env) (si_employee i))" "lr_attachment r = att"
    "lr_days r = sr_working_days sr"
    unfolding r by (simp_all add: lr_new_def Let_def)
  have "p = None \<longleftrightarrow> si_file i = None"
    using 1(5) by (auto simp: upload_phase_def split: option.splits prod.splits sum.splits)
  moreover have "si_file i \<noteq> None \<longleftrightarrow> si_type i \<in> {Sick, Bereavement}"
    using 1(1) by (cases "si_type i")
      (auto simp: assertAttachmentContract_def ATTACHMENT_REQUIRED_LEAVE_TYPES_def Let_def split: if_splits)
  moreover have "getActive (le_chains env) (si_employee i) = \<lparr>l1_approver_id = Some (lr_l1 r), l2_approver_id = lr_l2 r\<rparr>"
    using 1(3) flds by simp
  moreover have "normalizePortion (si_portion i) = Full \<Longrightarrow>
      sr_working_days sr = of_int (countWorkingDays (le_schedules env) (si_employee i) (si_start i) (si_end i))"
    using assertSubmittableRange_Inr(5)[OF 1(2)] by blast
  moreover have "consumed db (si_employee i) (si_type i) + lr_days r \<le> of_int (allowance db (si_employee i) (si_type i))"
    using f(1) flds by simp
  ultimately show ?thesis
    using flds att f(3,8) 1(4,7) by simp
qed

definition sample_sick_db :: leave_db where
  "sample_sick_db = fst (grant sample_users 0 5 Sick 3 None 1 empty_leave_db)"

lemma sample_range:
  "assertSubmittableRange (Date 2026 7 1) sample_schedules 5 (Date 2026 7 6) (Date 2026 7 6) Full (Some Sick) =
     Inr \<lparr>sr_working_days = 1, sr_start_time = None, sr_end_time = None\<rparr>"
  by code_simp

lemma sample_chain_of_5: "getActive sample_chains 5 = \<lparr>l1_approver_id = Some 2, l2_approver_id = None\<rparr>"
  by code_simp

lemma sample_sick_submit:
  assumes "ld_requests db = []"
  shows "\<exists>p. submit sample_leave_env (sample_submit Sick (Date 2026 7 6) None) db =
    submit_commit sample_leave_env
      \<lparr>sb_input = sample_submit Sick (Date 2026 7 6) None, sb_portion = Full,
       sb_range = \<lparr>sr_working_days = 1, sr_start_time = None, sr_end_time = None\<rparr>, sb_l1 = 2, sb_l2 = None,
       sb_prepared = Some p\<rparr>
      (db\<lparr>ld_store := fst (uploadForOwner sample_env ''u1'' sample_jpeg ''scan.jpg'' 5 5 (ld_store db))\<rparr>) \<and>
    uploadForOwner sample_env ''u1'' sample_jpeg ''scan.jpg'' 5 5 (ld_store db) =
      (fst (uploadForOwner sample_env ''u1'' sample_jpeg ''scan.jpg'' 5 5 (ld_store db)), Inr p) \<and>
    pa_size p = 4 \<and> pa_owner p = 5 \<and> pa_created_by p = 5"
proof -
  have "findOverlapping db 5 sd ed = []" for sd ed using assms by (simp add: findOverlapping_def)
  then show ?thesis
    by (simp add: submit_def submit_prepare_def sample_leave_env_def sample_submit_def sample_range sample_chain_of_5
        upload_phase_def sample_jpeg_upload normalizePortion_def assertAttachmentContract_def
        ATTACHMENT_REQUIRED_LEAVE_TYPES_def Let_def del: fun_upd_apply)
qed

lemma sample_sick_submitted:
  "\<exists>db' r. submit sample_leave_env (sample_submit Sick (Date 2026 7 6) None) sample_sick_db = (db', Inr r) \<and>
     lr_employee r = 5 \<and> lr_l1 r = 2 \<and> lr_l2 r = None"
proof -
  have "ld_requests sample_sick_db = []" "ld_files sample_sick_db = []" "allowance sample_sick_db 5 Sick = 3"
    "consumed sample_sick_db 5 Sick = 0"
    by code_simp+
  then show ?thesis
    using sample_sick_submit[of sample_sick_db]
    by (auto simp: submit_commit_def submit_tx_def sample_submit_def at_insert_def persist_attachment_def lr_insert_Inr
        lr_insert_def lr_checks_def lr_fks_def lr_new_def sample_leave_env_def sample_users_def Let_def)
qed

theorem submit_success_means_witness:
  "\<exists>db' r. submit sample_leave_env (sample_submit Sick (Date 2026 7 6) None)
     sample_sick_db = (db', Inr r) \<and> lr_attachment r \<noteq> None \<and> lr_l1 r = 2"
proof -
  let ?i = "sample_submit Sick (Date 2026 7 6) None"
  obtain db' r where r: "submit sample_leave_env ?i sample_sick_db = (db', Inr r)"
    using sample_sick_submitted by blast
  note m = submit_success_means[OF r]
  have "lr_attachment r \<noteq> None" using m by (simp add: sample_submit_def)
  moreover have "getActive (le_chains sample_leave_env) 5 = \<lparr>l1_approver_id = Some 2, l2_approver_id = None\<rparr>"
    by code_simp
  then have "lr_l1 r = 2" using m by (simp add: sample_submit_def)
  ultimately show ?thesis using r by blast
qed

text \<open>C11: A failed submit leaves nothing.  No table and no event changes; and unless the upload itself
  broke off, the object store is as before, since the compensating delete removes every object written
  (deletes accepted, fresh prefix unused).\<close>

theorem submit_failure_leaves_nothing:
  assumes "submit env i db = (db', Inl er)"
  shows "(\<exists>os. db' = db\<lparr>ld_store := os\<rparr>) \<and>
    ((\<forall>f. si_file i = Some f \<longrightarrow> okR (snd (uploadForOwner (le_storage env) (si_uuid i) (up_buffer f) (up_name f)
         (si_employee i) (si_actor i) (ld_store db)))) \<and>
     (\<forall>k. delete_ok (le_storage env) k) \<and>
     (\<forall>k. ld_store db k \<noteq> None \<longrightarrow> (\<forall>rest. k \<noteq> object_prefix (si_uuid i) @ ''/'' @ rest)) \<longrightarrow> db' = db)"
proof (cases rule: submit_prepare_cases[of env i db])
  case (refused er')
  then have "db' = db\<lparr>ld_store := ld_store db\<rparr>" "db' = db" using assms by (simp_all add: submit_def)
  then show ?thesis by blast
next
  case (uploaded sr l1)
  obtain os res where up: "upload_phase env i (ld_store db) = (os, res)" by (cases "upload_phase env i (ld_store db)")
  show ?thesis
  proof (cases res)
    case (Inl er')
    then have "db' = db\<lparr>ld_store := os\<rparr>" using assms uploaded(5) up by (simp add: submit_def)
    moreover have "\<exists>f. si_file i = Some f \<and> \<not> okR (snd (uploadForOwner (le_storage env) (si_uuid i) (up_buffer f)
        (up_name f) (si_employee i) (si_actor i) (ld_store db)))"
      using up Inl by (auto simp: upload_phase_def split: option.splits prod.splits sum.splits)
    ultimately show ?thesis by blast
  next
    case (Inr p)
    let ?s = "\<lparr>sb_input = i, sb_portion = normalizePortion (si_portion i), sb_range = sr, sb_l1 = l1,
       sb_l2 = l2_approver_id (getActive (le_chains env) (si_employee i)), sb_prepared = p\<rparr>"
    have "submit_commit env ?s (db\<lparr>ld_store := os\<rparr>) = (db', Inl er)"
      using assms uploaded(5) up Inr by (simp add: submit_def)
    then have d: "db' = (case p of None \<Rightarrow> db\<lparr>ld_store := os\<rparr>
        | Some q \<Rightarrow> db\<lparr>ld_store := cleanup (le_storage env) q os\<rparr>)"
      by (auto simp: submit_commit_def split: sum.splits option.splits)
    have "db' = db" if fresh: "\<forall>k. delete_ok (le_storage env) k"
      "\<forall>k. ld_store db k \<noteq> None \<longrightarrow> (\<forall>rest. k \<noteq> object_prefix (si_uuid i) @ ''/'' @ rest)"
    proof (cases p)
      case None
      then have "os = ld_store db"
        using up Inr by (auto simp: upload_phase_def split: option.splits prod.splits sum.splits)
      then show ?thesis using d None by simp
    next
      case (Some q)
      then have "\<exists>f :: upload. uploadForOwner (le_storage env) (si_uuid i) (up_buffer f) (up_name f) (si_employee i)
          (si_actor i) (ld_store db) = (os, Inr q)"
        using up Inr by (auto simp: upload_phase_def split: option.splits prod.splits sum.splits)
      then obtain f :: upload where "uploadForOwner (le_storage env) (si_uuid i) (up_buffer f) (up_name f) (si_employee i)
          (si_actor i) (ld_store db) = (os, Inr q)" ..
      then have "cleanup (le_storage env) q os = ld_store db"
        using fresh by (intro cleanup_restores) auto
      then show ?thesis using d Some by simp
    qed
    moreover have "\<exists>os'. db' = db\<lparr>ld_store := os'\<rparr>" using d by (cases p) auto
    ultimately show ?thesis by blast
  qed
qed

theorem submit_failure_leaves_nothing_witness:
  "fst (submit sample_leave_env (sample_submit Sick (Date 2026 7 6) None) empty_leave_db) = empty_leave_db"
proof -
  let ?i = "sample_submit Sick (Date 2026 7 6) None"
  let ?r = "submit sample_leave_env ?i empty_leave_db"
  have "allowance empty_leave_db 5 Sick = 0" "consumed empty_leave_db 5 Sick = 0" "ld_requests empty_leave_db = []"
    by code_simp+
  then have "\<not> okR (snd ?r)"
    using sample_sick_submit[of empty_leave_db]
    by (auto simp: submit_commit_def submit_tx_def sample_submit_def Let_def)
  then obtain db' er where r: "?r = (db', Inl er)" by (cases ?r; cases "snd ?r") auto
  have "okR (snd (uploadForOwner sample_env ''u1'' sample_jpeg ''scan.jpg'' 5 5 os))" for os
    by (simp add: sample_jpeg_upload)
  then have "db' = empty_leave_db"
    using submit_failure_leaves_nothing[OF r]
    by (simp add: sample_leave_env_def sample_submit_def sample_env_def empty_leave_db_def ATTACHMENT_REQUIRED_LEAVE_TYPES_def)
  then show ?thesis using r by simp
qed

text \<open>An upload that breaks off is never cleaned up.  When the renditions of an image cannot be
  derived after its original was written, the submit fails before it holds a handle to clean up with,
  and the original stays in the store.\<close>

theorem failed_rendition_leaves_orphan:
  assumes "si_file i = Some f" "assertAttachmentContract (si_type i) True = Inr ()"
    and "assertSubmittableRange (le_today env) (le_schedules env) (si_employee i) (si_start i) (si_end i)
       (normalizePortion (si_portion i)) (Some (si_type i)) = Inr sr"
    and "l1_approver_id (getActive (le_chains env) (si_employee i)) = Some l1"
    and "findOverlapping db (si_employee i) (si_start i) (si_end i) = []"
    and "validateUpload (up_buffer f) (max_file_mb (le_storage env)) = Inr sn" "sn_kind sn = Image"
    and "put_ok (le_storage env) (original_key (si_uuid i) sn)" "derive (le_storage env) (up_buffer f) = None"
  shows "submit env i db =
    (db\<lparr>ld_store := (ld_store db)(original_key (si_uuid i) sn \<mapsto> (up_buffer f, sn_mime sn))\<rparr>, Inl PlainError)"
proof -
  let ?os = "(ld_store db)(original_key (si_uuid i) sn \<mapsto> (up_buffer f, sn_mime sn))"
  have "uploadForOwner (le_storage env) (si_uuid i) (up_buffer f) (up_name f) (si_employee i) (si_actor i) (ld_store db) =
      (?os, Inl PlainError)"
    using assms(6-9) by (simp add: uploadForOwner_def store_put_def original_key_def Let_def)
  then have "submit_prepare env i db = (db\<lparr>ld_store := ?os\<rparr>, Inl PlainError)"
    using assms(1-5) by (simp add: submit_prepare_def upload_phase_def Let_def)
  then show ?thesis by (simp add: submit_def)
qed

theorem failed_rendition_leaves_orphan_witness:
  "\<exists>k. ld_store (fst (submit (sample_leave_env\<lparr>le_storage := sample_env\<lparr>derive := (\<lambda>_. None)\<rparr>\<rparr>)
     (sample_submit Sick (Date 2026 7 6) None) empty_leave_db)) k = Some (sample_jpeg, ''image/jpeg'')"
proof -
  let ?sn = "\<lparr>sn_kind = Image, sn_mime = ''image/jpeg'', sn_ext = ''jpg''\<rparr>"
  let ?env = "sample_leave_env\<lparr>le_storage := sample_env\<lparr>derive := (\<lambda>_. None)\<rparr>\<rparr>"
  have v: "validateUpload sample_jpeg 5 = Inr ?sn"
    by (simp add: validateUpload_iff sample_jpeg_sniff, simp add: sample_jpeg_def)
  have "submit ?env (sample_submit Sick (Date 2026 7 6) None) empty_leave_db =
      (empty_leave_db\<lparr>ld_store := (ld_store empty_leave_db)(original_key ''u1'' ?sn \<mapsto> (sample_jpeg, ''image/jpeg''))\<rparr>,
       Inl PlainError)"
    using failed_rendition_leaves_orphan[of "sample_submit Sick (Date 2026 7 6) None"
        "\<lparr>up_buffer = sample_jpeg, up_name = ''scan.jpg''\<rparr>" ?env
        "\<lparr>sr_working_days = 1, sr_start_time = None, sr_end_time = None\<rparr>" 2 empty_leave_db ?sn]
    by (simp add: v sample_leave_env_def sample_submit_def sample_env_def sample_range sample_chain_of_5
        normalizePortion_def assertAttachmentContract_def ATTACHMENT_REQUIRED_LEAVE_TYPES_def
        findOverlapping_def empty_leave_db_def)
  then show ?thesis by (intro exI[of _ "original_key ''u1'' ?sn"]) simp
qed

section \<open>Decisions\<close>

lemma findLeave_replaced:
  assumes "findLeave db i = Some r" "lr_id s = i" "lr_live s"
  shows "find (\<lambda>q. lr_id q = i \<and> lr_live q) (update_where (\<lambda>q. lr_id q = i) (\<lambda>_. s) (ld_requests db)) = Some s"
proof -
  have "find (\<lambda>q. lr_id q = i \<and> lr_live q) rows = Some r \<Longrightarrow>
      find (\<lambda>q. lr_id q = i \<and> lr_live q) (update_where (\<lambda>q. lr_id q = i) (\<lambda>_. s) rows) = Some s" for rows
    using assms(2,3) by (induction rows) (auto split: if_splits)
  then show ?thesis using assms(1) by (simp add: findLeave_def)
qed

text \<open>A successful approval, seen as a step of the aggregate's state machine.\<close>

lemma approve_Inr:
  assumes "approveRequest env i caller db = (db', Inr s)"
  shows "\<exists>r r'. findLeave db i = Some r \<and> approve_leave (le_now env) (toLeaveActor caller) r = Some r' \<and>
    findLeave db' i = Some s \<and> lr_status s = lr_status r' \<and> lr_l1 s = lr_l1 r' \<and> lr_l2 s = lr_l2 r' \<and>
    lr_decided_by s = Some (usr_id caller) \<and>
    (overrides (toLeaveActor caller) \<or> step_approver_ok (le_users env) r)"
proof (cases "loadAggregate db i")
  case (Inl er)
  then show ?thesis using assms by (simp add: approveRequest_def)
next
  case ld: (Inr r)
  let ?a = "toLeaveActor caller"
  obtain r' ev where ap: "applyApproval (le_now env) r ?a = (r', ev)" by (cases "applyApproval (le_now env) r ?a")
  have l: "findLeave db i = Some r" using ld by (simp add: loadAggregate_Inr)
  obtain u where u: "assertApprovable r ?a = Inr u"
    using assms ld by (cases "assertApprovable r ?a") (simp_all add: approveRequest_def Let_def)
  let ?f = "\<lambda>q. q\<lparr>lr_status := lr_status r', lr_decided_at := lr_decided_at r', lr_decided_by := lr_decided_by r',
       lr_decision_path := lr_decision_path r', lr_updated_by := Some (usr_id caller)\<rparr>"
  have p: "persist_leave (le_users env) i ?f ev db = (db', Inr s)" "overrides ?a \<or> step_approver_ok (le_users env) r"
    using assms ld u ap by (auto simp: approveRequest_def Let_def overrides_def split: if_splits)
  have s: "s = lr_stored (?f r)" "ld_requests db' = update_where (\<lambda>q. lr_id q = i) (\<lambda>_. s) (ld_requests db)"
    using persist_leave_cases[OF p(1) l] by auto
  have live: "lr_live s" "lr_id s = i"
    using s(1) findLeave_Some[OF l] by (simp_all add: lr_live_def)
  have "findLeave db' i = Some s"
    unfolding findLeave_def s(2) by (rule findLeave_replaced[OF l live(2,1)])
  moreover have "approve_leave (le_now env) ?a r = Some r'" using u ap by (simp add: approve_leave_def)
  moreover have "lr_l1 r' = lr_l1 r" "lr_l2 r' = lr_l2 r" "lr_decided_by r' = Some (usr_id caller)"
    using ap by (auto simp: applyApproval_def Let_def toLeaveActor_def)
  ultimately show ?thesis using l s(1) p(2) by - (rule exI[of _ r], rule exI[of _ r'], simp)
qed

text \<open>C4: Two levels mean two approvers.  Without an override, a request with a second level is first
  approved by its snapshotted first approver, which only advances it, and then by its second approver;
  at each step the approver assigned to it was an active user.\<close>

theorem two_levels_two_approvers:
  assumes "findLeave db i = Some r" "lr_status r = Pending_l1" "lr_l2 r = Some b"
    and "approveRequest env i c1 db = (db1, Inr r1)" "\<not> overrides (toLeaveActor c1)"
    and "approveRequest env' i c2 db1 = (db2, Inr r2)" "\<not> overrides (toLeaveActor c2)"
  shows "usr_id c1 = lr_l1 r \<and> lr_status r1 = Pending_l2 \<and> usr_id c2 = b \<and> lr_status r2 = Approved \<and>
    (\<exists>u. find_user (le_users env) (lr_l1 r) = Some u \<and> usr_is_active u) \<and>
    (\<exists>u. find_user (le_users env') b = Some u \<and> usr_is_active u)"
proof -
  obtain r1' where a1: "approve_leave (le_now env) (toLeaveActor c1) r = Some r1'"
    "findLeave db1 i = Some r1" "lr_status r1 = lr_status r1'" "lr_l2 r1 = lr_l2 r1'"
    "step_approver_ok (le_users env) r"
    using approve_Inr[OF assms(4)] assms(1,5) by auto
  obtain r2' where a2: "approve_leave (le_now env') (toLeaveActor c2) r1 = Some r2'" "lr_status r2 = lr_status r2'"
    "step_approver_ok (le_users env') r1"
    using approve_Inr[OF assms(6)] a1(2) assms(7) by auto
  have first: "act_user_id (toLeaveActor c1) = lr_l1 r" "lr_status r1' = Pending_l2"
    using leave_machine.chain_first_step[OF a1(1) assms(5) assms(2,3)] by simp_all
  have l2: "lr_l2 r1 = Some b" using leave_machine.approve_law[OF a1(1)] a1(4) assms(3) by simp
  have second: "act_user_id (toLeaveActor c2) = b" "lr_status r2' = Approved"
    using leave_machine.chain_second_step[OF a2(1) assms(7) _ l2] first(2) a1(3) by simp_all
  show ?thesis
    using first second a1 a2 assms(2) l2
    by (auto simp: toLeaveActor_def step_approver_ok_def currentStepApproverId_def split: option.splits)
qed

text \<open>C34: Decided requests stay decided.  A rejected or cancelled request is moved by no call: approve,
  reject, cancel and the HR edit all throw and leave the tables alone, and the cascade skips it.\<close>

theorem closed_requests_never_move:
  assumes "findLeave db i = Some r" "lr_status r = Rejected \<or> lr_status r = Cancelled"
    and "serial_ok lr_id (ld_next db) (ld_requests db)"
  shows "fst (approveRequest env i caller db) = db \<and> \<not> okR (snd (approveRequest env i caller db)) \<and>
    fst (rejectRequest env i caller why db) = db \<and> \<not> okR (snd (rejectRequest env i caller why db)) \<and>
    fst (cancelRequest env i caller db) = db \<and> \<not> okR (snd (cancelRequest env i caller db)) \<and>
    updateRequest env i p caller db = (db, Inl (conflict ''status'')) \<and>
    findLeave (fst (systemCancel now ids a why db)) i = Some r"
proof -
  have np: "\<not> status_pending (lr_status r)" "\<not> status_active (lr_status r)"
    using assms(2) by (auto simp: status_pending_def status_active_def)
  have ap: "\<not> okR (assertApprovable r a)" for a
    using np by (simp add: assertApprovable_def assertPending_def guardR_def)
  have rj: "\<not> okR (rejectLeave n r a why)" for n a
    using np by (simp add: rejectLeave_def assertPending_def guardR_def)
  have ca: "cancelLeave n t r a = Inl LeaveStatusError" for n t a
    using np by (simp add: cancelLeave_def)
  have "fst (approveRequest env i caller db) = db \<and> \<not> okR (snd (approveRequest env i caller db)) \<and>
    fst (rejectRequest env i caller why db) = db \<and> \<not> okR (snd (rejectRequest env i caller why db)) \<and>
    fst (cancelRequest env i caller db) = db \<and> \<not> okR (snd (cancelRequest env i caller db))"
  proof (cases "loadAggregate db i")
    case (Inl er)
    then show ?thesis by (simp add: approveRequest_def rejectRequest_def cancelRequest_def)
  next
    case (Inr q)
    then have "q = r" using assms(1) by (simp add: loadAggregate_Inr)
    then show ?thesis
      using Inr ap[of "toLeaveActor caller"] rj[of "le_now env" "toLeaveActor caller"] ca
      by (cases "assertApprovable r (toLeaveActor caller)"; cases "rejectLeave (le_now env) r (toLeaveActor caller) why")
        (simp_all add: approveRequest_def rejectRequest_def cancelRequest_def Let_def)
  qed
  moreover have "updateRequest env i p caller db = (db, Inl (conflict ''status''))"
    using assms(1) np by (simp add: updateRequest_def)
  moreover have "findLeave (fst (systemCancel now ids a why db)) i = Some r"
  proof -
    have r: "r \<in> set (ld_requests db)" "lr_id r = i" "lr_live r" using findLeave_Some[OF assms(1)] by simp_all
    let ?hit = "\<lambda>r. lr_id r \<in> set ids \<and> status_active (lr_status r) \<and> lr_live r"
    have "r \<in> set (update_where ?hit (system_cancelled now a why) (ld_requests db))"
      using r(1) np(2) by (auto simp: table_simps intro!: bexI[of _ r])
    moreover have "serial_ok lr_id (ld_next db) (update_where ?hit (system_cancelled now a why) (ld_requests db))"
      by (rule serial_ok_update_where[OF assms(3)]) (simp add: system_cancelled_def)
    ultimately show ?thesis
      unfolding findLeave_def systemCancel_eq
      using r(2,3) serial_ok_inj by (intro find_unique) fastforce+
  qed
  ultimately show ?thesis by blast
qed

theorem closed_requests_never_move_witness:
  "fst (rejectRequest sample_leave_env 1 (sample_approver 2) ''no''
     (fst (cancelRequest sample_leave_env 1 (sample_approver 5) sample_submitted))) =
   fst (cancelRequest sample_leave_env 1 (sample_approver 5) sample_submitted)"
proof -
  let ?db = "fst (cancelRequest sample_leave_env 1 (sample_approver 5) sample_submitted)"
  have "map_option lr_status (findLeave ?db 1) = Some Cancelled" by code_simp
  then obtain r where "findLeave ?db 1 = Some r" "lr_status r = Cancelled" by auto
  moreover have "serial_ok lr_id (ld_next ?db) (ld_requests ?db)" by code_simp
  ultimately show ?thesis using closed_requests_never_move by blast
qed

theorem two_levels_two_approvers_witness:
  "\<exists>db r1 r2 db1 db2. approveRequest sample_leave_env 1 (sample_approver 2) db = (db1, Inr r1) \<and>
     approveRequest sample_leave_env 1 (sample_approver 3) db1 = (db2, Inr r2) \<and> lr_status r2 = Approved"
proof -
  let ?db = "sample_submitted\<lparr>ld_requests := map (lr_l2_update (\<lambda>_. Some 3)) (ld_requests sample_submitted)\<rparr>"
  let ?x1 = "approveRequest sample_leave_env 1 (sample_approver 2) ?db"
  let ?x2 = "approveRequest sample_leave_env 1 (sample_approver 3) (fst ?x1)"
  have "map_option (\<lambda>r. (lr_status r, lr_l2 r)) (findLeave ?db 1) = Some (Pending_l1, Some 3)" by code_simp
  then obtain r where r: "findLeave ?db 1 = Some r" "lr_status r = Pending_l1" "lr_l2 r = Some 3" by auto
  have "okR (snd ?x1)" "okR (snd ?x2)" by code_simp+
  then obtain r1 r2 where x: "?x1 = (fst ?x1, Inr r1)" "?x2 = (fst ?x2, Inr r2)"
    by (cases "snd ?x1"; cases "snd ?x2") (auto simp: prod_eq_iff)
  have n: "\<not> overrides (toLeaveActor (sample_approver i))" for i
    by (simp add: sample_approver_def sample_user_def overrides_def toLeaveActor_def hasPermission_def permission_codes_def)
  show ?thesis
    using two_levels_two_approvers[OF r x(1) n x(2) n] x by blast
qed

section \<open>The file of a request\<close>

lemma submitted_found:
  assumes "submit env i db = (db', Inr r)" "serial_ok lr_id (ld_next db) (ld_requests db)"
  shows "findLeave db' (lr_id r) = Some r"
proof (cases rule: submit_Inr[OF assms(1)])
  case (1 sr l1 os p db2)
  note f = submit_tx_Inr[OF 1(6)]
  have rows: "ld_requests db' = ld_requests db @ [r]" using f(3) 1(7) by simp
  have "lr_id r = ld_next db" "lr_live r" using f(2) by (auto simp: lr_live_def lr_new_def Let_def)
  moreover have "\<forall>q \<in> set (ld_requests db). lr_id q \<noteq> ld_next db"
    using assms(2) by (auto simp: serial_ok_def list_all_iff)
  ultimately show ?thesis unfolding findLeave_def rows by (intro find_unique) auto
qed

text \<open>C17: What was uploaded comes back.  After a submit with a file, the requester and the snapshotted
  approvers download it byte for byte, under its name and sniffed content type; anybody else without
  the view permission is refused.\<close>

theorem submitted_file_downloads:
  assumes "submit env i db = (db', Inr r)" "si_file i = Some f"
    and "serial_ok lr_id (ld_next db) (ld_requests db)" "serial_ok at_id (ld_file_next db) (ld_files db)"
  shows "if usr_id caller = lr_employee r \<or> usr_id caller = lr_l1 r \<or> Some (usr_id caller) = lr_l2 r \<or>
       usr_system_admin caller \<or> hasPermission caller ''LEAVE:ViewAll''
    then \<exists>sn. sniff (up_buffer f) = Some sn \<and> getAttachmentDownload db' (lr_id r) caller Original =
      Inr \<lparr>dl_body = up_buffer f, dl_type = sn_mime sn, dl_name = up_name f\<rparr>
    else getAttachmentDownload db' (lr_id r) caller Original = Inl ForbiddenPlain"
proof (cases rule: submit_Inr[OF assms(1)])
  case (1 sr l1 os p db2)
  note t = submit_tx_Inr[OF 1(6)]
  have found: "findLeave db' (lr_id r) = Some r" by (rule submitted_found[OF assms(1,3)])
  obtain q where q: "p = Some q" "uploadForOwner (le_storage env) (si_uuid i) (up_buffer f) (up_name f)
      (si_employee i) (si_actor i) (ld_store db) = (os, Inr q)"
    using 1(5) assms(2) by (auto simp: upload_phase_def split: prod.splits sum.splits)
  let ?a = "persist_attachment (ld_file_next db) q"
  have files: "ld_files db' = ld_files db @ [?a]" "lr_attachment r = Some (ld_file_next db)" "ld_store db' = os"
    using t(7) t(11)[of q] q(1) 1(7) by simp_all
  have a: "at_id ?a = ld_file_next db" "at_deleted_at ?a = None" "\<not> at_id ?a < ld_file_next db"
    by (simp_all add: persist_attachment_def)
  have att: "findAttachment db' (ld_file_next db) = Some ?a"
    unfolding findAttachment_def files(1) using assms(4) a
    by (intro find_unique) (auto simp: serial_ok_def list_all_iff)
  obtain sn where sn: "validateUpload (up_buffer f) (max_file_mb (le_storage env)) = Inr sn"
    "q = \<lparr>pa_prefix = object_prefix (si_uuid i), pa_filename = up_name f, pa_mime = sn_mime sn,
         pa_size = length (up_buffer f), pa_kind = sn_kind sn, pa_has_versions = (sn_kind sn = Image),
         pa_owner = si_employee i, pa_created_by = si_actor i, pa_keys = upload_keys (si_uuid i) sn\<rparr>"
    using upload_success[OF q(2)] by blast
  have "openVersion os ?a Original = Inr (up_buffer f)" by (rule upload_opens[OF q(2)])
  moreover have "at_mime ?a = sn_mime sn" "at_filename ?a = up_name f"
    using sn(2) by (simp_all add: persist_attachment_def)
  ultimately show ?thesis
    using sn(1) found att files
    by (auto simp: getAttachmentDownload_def findByIdForViewer_def validateUpload_iff)
qed

theorem submitted_file_downloads_witness:
  "\<exists>db' r. submit sample_leave_env (sample_submit Sick (Date 2026 7 6) None) sample_sick_db = (db', Inr r) \<and>
     (\<exists>d. getAttachmentDownload db' (lr_id r) (sample_user 5) Original = Inr d \<and> dl_body d = sample_jpeg) \<and>
     getAttachmentDownload db' (lr_id r) (sample_user 7) Original = Inl ForbiddenPlain"
proof -
  let ?i = "sample_submit Sick (Date 2026 7 6) None"
  obtain db' r where r: "submit sample_leave_env ?i sample_sick_db = (db', Inr r)" "lr_employee r = 5"
    "lr_l1 r = 2" "lr_l2 r = None"
    using sample_sick_submitted by blast
  have s: "si_file ?i = Some \<lparr>up_buffer = sample_jpeg, up_name = ''scan.jpg''\<rparr>"
    by (simp add: sample_submit_def ATTACHMENT_REQUIRED_LEAVE_TYPES_def)
  have ser: "serial_ok lr_id (ld_next sample_sick_db) (ld_requests sample_sick_db)"
    "serial_ok at_id (ld_file_next sample_sick_db) (ld_files sample_sick_db)"
    by code_simp+
  note dl = submitted_file_downloads[OF r(1) s ser]
  have "\<exists>d. getAttachmentDownload db' (lr_id r) (sample_user 5) Original = Inr d \<and> dl_body d = sample_jpeg"
    using dl[of "sample_user 5"] r(2) by (auto simp: sample_user_def)
  moreover have "getAttachmentDownload db' (lr_id r) (sample_user 7) Original = Inl ForbiddenPlain"
    using dl[of "sample_user 7"] r(2-4)
    by (simp add: sample_user_def sample_role_def hasPermission_def permission_codes_def)
  ultimately show ?thesis using r(1) by blast
qed

section \<open>Where the contract has holes\<close>

text \<open>A half day on a day without work can never be decided.  The schedule rules accept a break
  that fills the whole window; a first-half request on such a day is accepted with a window that starts
  and ends at the same instant, and every later approve, reject and cancel of it throws while loading
  the row, whoever calls.\<close>

theorem workless_half_day_stuck:
  assumes "submit env i db = (db', Inr r)" "serial_ok lr_id (ld_next db) (ld_requests db)"
    and "si_portion i = Some First_half"
    and "find (\<lambda>w. ws_dow w = weekdayOf (si_start i)) (findActiveSchedules (le_schedules env) (si_employee i)) = Some w"
    and "ws_break_start w = Some (ws_in w)" "toSeconds (ws_out w) = toSeconds (ws_in w) + ws_break_minutes w * 60"
  shows "approveRequest env' (lr_id r) caller db' = (db', Inl PlainError) \<and>
    rejectRequest env' (lr_id r) caller why db' = (db', Inl PlainError) \<and>
    cancelRequest env' (lr_id r) caller db' = (db', Inl PlainError)"
proof (cases rule: submit_Inr[OF assms(1)])
  case (1 sr l1 os p db2)
  have portion: "normalizePortion (si_portion i) = First_half" using assms(3) by (simp add: normalizePortion_def)
  have split: "halfDaySplit w = of_int (toSeconds (ws_in w))"
    using assms(5,6) by (simp add: halfDaySplit_def Let_def)
  have "sr_start_time sr = Some (fst (halfDayWindow w First_half))"
    "sr_end_time sr = Some (snd (halfDayWindow w First_half))"
    using assertSubmittableRange_Inr(6)[OF 1(2)] assms(4) unfolding portion by auto
  then have same: "sr_start_time sr = sr_end_time sr" "sr_start_time sr \<noteq> None"
    by (simp_all add: halfDayWindow_def split)
  have "lr_start_time r = map_option pg_time (sr_start_time sr) \<and> lr_end_time r = map_option pg_time (sr_end_time sr) \<and>
      lr_portion r = First_half"
    using submit_tx_Inr(2)[OF 1(6)] by (auto simp: lr_new_def Let_def portion)
  then have w: "mkHalfDayWindow (lr_portion r) (lr_start_time r) (lr_end_time r) = Inl PlainError"
    using same by (auto simp: mkHalfDayWindow_def)
  have "reconstitute_leave r = Inl PlainError"
    using w by (auto simp: reconstitute_leave_def mkDateRange_def mkLeaveDuration_def)
  moreover have "findLeave db' (lr_id r) = Some r" by (rule submitted_found[OF assms(1,2)])
  ultimately have "loadAggregate db' (lr_id r) = Inl PlainError" by (simp add: loadAggregate_def)
  then show ?thesis by (simp add: approveRequest_def rejectRequest_def cancelRequest_def)
qed

definition workless_schedules :: schedule_db where
  "workless_schedules = fst (createSchedule
     (sample_input\<lparr>wi_break_start := Some (Clock 9 0 None), wi_break_minutes := 540\<rparr>) empty_schedules)"

theorem workless_half_day_stuck_witness:
  "\<exists>db' r. submit (sample_leave_env\<lparr>le_schedules := workless_schedules\<rparr>)
     (sample_submit Vacation (Date 2026 7 6) (Some First_half)) sample_granted = (db', Inr r) \<and>
     cancelRequest sample_leave_env (lr_id r) (sample_user 5) db' = (db', Inl PlainError)"
proof -
  let ?env = "sample_leave_env\<lparr>le_schedules := workless_schedules\<rparr>"
  let ?i = "sample_submit Vacation (Date 2026 7 6) (Some First_half)"
  have "okR (snd (submit ?env ?i sample_granted))" by code_simp
  then obtain db' r where r: "submit ?env ?i sample_granted = (db', Inr r)"
    by (cases "submit ?env ?i sample_granted"; cases "snd (submit ?env ?i sample_granted)") auto
  have ser: "serial_ok lr_id (ld_next sample_granted) (ld_requests sample_granted)" by code_simp
  have "map_option (\<lambda>w. (ws_break_start w = Some (ws_in w), toSeconds (ws_out w) = toSeconds (ws_in w) + ws_break_minutes w * 60))
      (find (\<lambda>w. ws_dow w = weekdayOf (si_start ?i)) (findActiveSchedules (le_schedules ?env) (si_employee ?i))) =
      Some (True, True)"
    by code_simp
  then obtain w where w: "find (\<lambda>w. ws_dow w = weekdayOf (si_start ?i))
      (findActiveSchedules (le_schedules ?env) (si_employee ?i)) = Some w"
    "ws_break_start w = Some (ws_in w)" "toSeconds (ws_out w) = toSeconds (ws_in w) + ws_break_minutes w * 60"
    by auto
  have p: "si_portion ?i = Some First_half" by (simp add: sample_submit_def)
  show ?thesis
    using workless_half_day_stuck[OF r ser p w] r by blast
qed

text \<open>The HR edit escapes the submit contract.  From a state the submit rules produced, one edit
  (a later end date, or another leave type) leaves a request that the grants do not cover, and one that
  turns it into sick leave leaves a request of that type without the attachment it demands.\<close>

theorem hr_edit_escapes_submit_rules:
  "\<exists>db pool env i caller p p'.
     rtranclp leave_step (empty_leave_db, []) (db, pool) \<and>
     okR (snd (updateRequest env i p caller db)) \<and>
     of_int (allowance (fst (updateRequest env i p caller db)) 5 Vacation)
       < consumed (fst (updateRequest env i p caller db)) 5 Vacation \<and>
     okR (snd (updateRequest env i p' caller db)) \<and>
     map_option (\<lambda>r. (lr_type r, lr_attachment r)) (findLeave (fst (updateRequest env i p' caller db)) i) =
       Some (Sick, None)"
proof -
  let ?p = "\<lparr>lp_type = None, lp_start = None, lp_end = Some (Date 2026 7 27), lp_portion = None, lp_reason = Undefined\<rparr>"
  let ?p' = "\<lparr>lp_type = Some Sick, lp_start = None, lp_end = None, lp_portion = None, lp_reason = Undefined\<rparr>"
  have "okR (snd (updateRequest sample_leave_env 1 ?p (sample_user 9) sample_submitted))"
    "of_int (allowance (fst (updateRequest sample_leave_env 1 ?p (sample_user 9) sample_submitted)) 5 Vacation)
       < consumed (fst (updateRequest sample_leave_env 1 ?p (sample_user 9) sample_submitted)) 5 Vacation"
    "okR (snd (updateRequest sample_leave_env 1 ?p' (sample_user 9) sample_submitted))"
    "map_option (\<lambda>r. (lr_type r, lr_attachment r))
       (findLeave (fst (updateRequest sample_leave_env 1 ?p' (sample_user 9) sample_submitted)) 1) = Some (Sick, None)"
    by code_simp+
  then show ?thesis using sample_reachable by blast
qed

text \<open>The aggregate's transitions, as one relation between a row and its successor.\<close>

inductive decision :: "leave \<Rightarrow> leave \<Rightarrow> bool" where
  approve: "approve_leave now a r = Some r' \<Longrightarrow> decision r r'"
| reject: "reject_leave now a why r = Some r' \<Longrightarrow> decision r r'"
| cancel: "cancel_leave now today a r = Some r' \<Longrightarrow> decision r r'"

lemma decision_rank: "decision r r' \<Longrightarrow> status_rank (lr_status r') < status_rank (lr_status r)"
  by (induction rule: decision.induct)
    (auto dest: leave_machine.approve_rank leave_machine.reject_rank leave_machine.cancel_rank)

text \<open>Every request is closed after a bounded number of decisions: from the pending state at most
  three transitions (two approvals and a cancellation) can happen to it, whoever acts in which order.\<close>

theorem decisions_terminate:
  assumes "(decision ^^ n) r r'"
  shows "n \<le> status_rank (lr_status r) \<and> n \<le> 3"
proof -
  have "n + status_rank (lr_status r') \<le> status_rank (lr_status r)"
    using assms
  proof (induction n arbitrary: r')
    case (Suc n)
    then obtain q where "(decision ^^ n) r q" "decision q r'" by auto
    then show ?case using Suc.IH[of q] decision_rank[of q r'] by simp
  qed simp
  moreover have "status_rank s \<le> 3" for s by (cases s) (simp_all add: status_rank_def)
  ultimately show ?thesis using order_trans[of n "status_rank (lr_status r)" 3] by simp
qed

definition sample_leave :: leave where
  "sample_leave = lr_new 0 \<lparr>sb_input = sample_submit Vacation (Date 2026 7 6) None, sb_portion = Full,
     sb_range = \<lparr>sr_working_days = 1, sr_start_time = None, sr_end_time = None\<rparr>, sb_l1 = 2, sb_l2 = Some 3,
     sb_prepared = None\<rparr> None"

definition sample_actor :: "int \<Rightarrow> actor" where
  "sample_actor i = \<lparr>act_user_id = i, act_system_admin = False, act_can_approve = True,
     act_can_approve_any = False, act_can_delete = False\<rparr>"

theorem decisions_terminate_witness:
  "\<exists>r. (decision ^^ 3) sample_leave r \<and> status_rank (lr_status sample_leave) = 3"
proof -
  let ?r1 = "the (approve_leave 0 (sample_actor 2) sample_leave)"
  let ?r2 = "the (approve_leave 0 (sample_actor 3) ?r1)"
  let ?r3 = "the (cancel_leave 0 (Date 2026 7 1) (sample_actor 5) ?r2)"
  have some: "approve_leave 0 (sample_actor 2) sample_leave \<noteq> None" "approve_leave 0 (sample_actor 3) ?r1 \<noteq> None"
    "cancel_leave 0 (Date 2026 7 1) (sample_actor 5) ?r2 \<noteq> None"
    by code_simp+
  then have "decision sample_leave ?r1" "decision ?r1 ?r2" "decision ?r2 ?r3"
    by (auto intro: decision.approve decision.cancel)
  then have p: "(decision ^^ 3) sample_leave ?r3" by (auto simp: numeral_3_eq_3)
  have "lr_status sample_leave = Pending_l1" by code_simp
  then have "status_rank (lr_status sample_leave) = 3" by (simp add: status_rank_def)
  then show ?thesis using p decisions_terminate[OF p] by blast
qed

end
