(* ===== verification/TimeEntries.thy ===== *)
theory TimeEntries
  imports Dates
begin

text \<open>
  Time entries (\<open>src/src/time-entries\<close>): the value object \<open>TimeWindow\<close>, the aggregate, the
  repository under the constraints of the migration and the service.  Instants are milliseconds since
  the epoch.  The transient index violation of a lost race is \<open>UniqueViolation\<close>; the service maps it.
\<close>

section \<open>State\<close>

datatype entry_source = Manual | Biometric | Admin | Correction

datatype entry_status = Open | Confirmed

record entry =
  te_id :: int
  te_employee :: int
  te_date :: date
  te_in :: int
  te_out :: "int option"
  te_source :: entry_source
  te_status :: entry_status
  te_notes :: "string option"
  te_created_by :: "int option"
  te_updated_by :: "int option"
  te_deleted_by :: "int option"
  te_deleted_at :: "int option"

datatype entry_event =
    TimeEntryOpened int int date
  | TimeEntryClosed int int
  | TimeEntryCorrected int int

record entry_db =
  te_rows :: "entry list"
  te_next :: int
  te_events :: "entry_event list"

definition PUNCH_COOLDOWN_MINUTES :: int where
  "PUNCH_COOLDOWN_MINUTES = 5"

definition te_live :: "entry \<Rightarrow> bool" where
  "te_live r \<longleftrightarrow> te_deleted_at r = None"

text \<open>The WHERE clause of the partial unique index on the employee.\<close>

definition te_open :: "entry \<Rightarrow> bool" where
  "te_open r \<longleftrightarrow> te_status r = Open \<and> te_live r"

section \<open>Value object and aggregate\<close>

definition mkTimeWindow :: "int \<Rightarrow> int option \<Rightarrow> http_error + (int \<times> int option)" where
  "mkTimeWindow tin tout =
     (case tout of
        None \<Rightarrow> Inr (tin, None)
      | Some t \<Rightarrow> if t \<le> tin then Inl (unprocessable ''time_out'') else Inr (tin, Some t))"

text \<open>\<open>assertWindow\<close> re-throws with the caller's field; \<open>validateWindow\<close> maps the error to its 422.\<close>

definition assertWindow :: "int \<Rightarrow> int option \<Rightarrow> string \<Rightarrow> http_error + (int \<times> int option)" where
  "assertWindow tin tout field =
     (case mkTimeWindow tin tout of Inl _ \<Rightarrow> Inl (unprocessable field) | Inr w \<Rightarrow> Inr w)"

definition deriveStatus :: "int \<times> int option \<Rightarrow> entry_status" where
  "deriveStatus w = (if snd w = None then Open else Confirmed)"

definition reconstitute_entry :: "entry \<Rightarrow> http_error + entry" where
  "reconstitute_entry r = (case mkTimeWindow (te_in r) (te_out r) of Inl _ \<Rightarrow> Inl PlainError | Inr _ \<Rightarrow> Inr r)"

definition closeEntry :: "int \<Rightarrow> entry \<Rightarrow> http_error + (entry \<times> entry_event)" where
  "closeEntry now r =
     bindR (mkTimeWindow (te_in r) (Some now)) (\<lambda>w.
       Inr (r\<lparr>te_out := snd w, te_status := deriveStatus w\<rparr>, TimeEntryClosed (te_id r) (te_employee r)))"

definition correctEntry :: "int \<times> int option \<Rightarrow> entry \<Rightarrow> entry \<times> entry_event" where
  "correctEntry w r =
     (r\<lparr>te_in := fst w, te_out := snd w, te_source := Correction, te_status := deriveStatus w\<rparr>,
      TimeEntryCorrected (te_id r) (te_employee r))"

section \<open>Repository\<close>

definition te_checks :: "entry \<Rightarrow> bool" where
  "te_checks r \<longleftrightarrow> (case te_out r of None \<Rightarrow> True | Some t \<Rightarrow> te_in r < t)"

definition findEntry :: "entry_db \<Rightarrow> int \<Rightarrow> entry option" where
  "findEntry db i = find (\<lambda>r. te_id r = i \<and> te_live r) (te_rows db)"

definition findOpenForEmployee :: "entry_db \<Rightarrow> int \<Rightarrow> entry option" where
  "findOpenForEmployee db e = find (\<lambda>r. te_employee r = e \<and> te_status r = Open \<and> te_live r) (te_rows db)"

definition event_time :: "entry \<Rightarrow> int" where
  "event_time r = (case te_out r of Some t \<Rightarrow> t | None \<Rightarrow> te_in r)"

definition findLatestForEmployee :: "entry_db \<Rightarrow> int \<Rightarrow> entry option" where
  "findLatestForEmployee db e =
     (case rev (sort_key event_time (filter (\<lambda>r. te_employee r = e \<and> te_live r) (te_rows db))) of
        [] \<Rightarrow> None | r # _ \<Rightarrow> Some r)"

definition existsForEmployeeDate :: "entry_db \<Rightarrow> int \<Rightarrow> date \<Rightarrow> bool" where
  "existsForEmployeeDate db e d \<longleftrightarrow> list_ex (\<lambda>r. te_employee r = e \<and> te_date r = d \<and> te_live r) (te_rows db)"

definition te_insert :: "entry \<Rightarrow> entry_db \<Rightarrow> http_error + (entry_db \<times> entry)" where
  "te_insert r db =
     (if \<not> te_checks r then Inl CheckViolation
      else if te_open r \<and> list_ex (\<lambda>q. te_open q \<and> te_employee q = te_employee r) (te_rows db)
      then Inl UniqueViolation
      else (let stored = r\<lparr>te_id := te_next db\<rparr>
            in Inr (db\<lparr>te_rows := te_rows db @ [stored], te_next := te_next db + 1\<rparr>, stored)))"

definition te_save :: "entry \<Rightarrow> entry_db \<Rightarrow> http_error + entry_db" where
  "te_save r db =
     (if \<not> te_checks r then Inl CheckViolation
      else if te_open r \<and> list_ex (\<lambda>q. te_id q \<noteq> te_id r \<and> te_open q \<and> te_employee q = te_employee r) (te_rows db)
      then Inl UniqueViolation
      else Inr (db\<lparr>te_rows := update_where (\<lambda>q. te_id q = te_id r) (\<lambda>_. r) (te_rows db)\<rparr>))"

record entry_patch =
  ep_date :: "date option"
  ep_in :: "int option"
  ep_out :: "int tri"
  ep_source :: "entry_source option"
  ep_status :: "entry_status option"
  ep_notes :: "string tri"
  ep_updated_by :: "int tri"

definition te_patched :: "entry_patch \<Rightarrow> entry \<Rightarrow> entry" where
  "te_patched p r =
     r\<lparr>te_date := opt_apply (ep_date p) (te_date r), te_in := opt_apply (ep_in p) (te_in r),
       te_out := tri_apply (ep_out p) (te_out r), te_source := opt_apply (ep_source p) (te_source r),
       te_status := opt_apply (ep_status p) (te_status r), te_notes := tri_apply (ep_notes p) (te_notes r),
       te_updated_by := tri_apply (ep_updated_by p) (te_updated_by r)\<rparr>"

definition te_update :: "int \<Rightarrow> entry_patch \<Rightarrow> entry_db \<Rightarrow> http_error + (entry_db \<times> entry)" where
  "te_update i p db =
     (case findEntry db i of
        None \<Rightarrow> Inl PlainError
      | Some r \<Rightarrow> bindR (te_save (te_patched p r) db) (\<lambda>db'. Inr (db', te_patched p r)))"

definition te_retire :: "int \<times> int option \<Rightarrow> entry \<Rightarrow> entry" where
  "te_retire a r = r\<lparr>te_deleted_by := snd a, te_deleted_at := Some (fst a)\<rparr>"

definition te_softDelete :: "int \<Rightarrow> int \<Rightarrow> int option \<Rightarrow> entry_db \<Rightarrow> entry_db" where
  "te_softDelete now i actor db =
     db\<lparr>te_rows := update_where (\<lambda>r. te_id r = i \<and> te_live r) (te_retire (now, actor)) (te_rows db)\<rparr>"

record entry_criteria =
  ec_employee :: "int option"
  ec_from :: "date option"
  ec_to :: "date option"
  ec_status :: "entry_status option"
  ec_page :: "int option"
  ec_limit :: "int option"

definition entry_matches :: "entry_criteria \<Rightarrow> entry \<Rightarrow> bool" where
  "entry_matches c r \<longleftrightarrow>
     te_live r \<and>
     (case ec_employee c of None \<Rightarrow> True | Some e \<Rightarrow> te_employee r = e) \<and>
     (case ec_from c of None \<Rightarrow> True | Some f \<Rightarrow> f \<le> te_date r) \<and>
     (case ec_to c of None \<Rightarrow> True | Some t \<Rightarrow> te_date r \<le> t) \<and>
     (case ec_status c of None \<Rightarrow> True | Some s \<Rightarrow> te_status r = s)"

text \<open>Newest work date first, within a date the latest punch first.\<close>

definition findAllEntries :: "entry_db \<Rightarrow> entry_criteria \<Rightarrow> entry page_of" where
  "findAllEntries db c =
     find_page (rev (sort_key te_date (sort_key te_in (filter (entry_matches c) (te_rows db)))))
       (ec_page c) (ec_limit c)"

section \<open>Service\<close>

definition publish_te :: "entry_event \<Rightarrow> entry_db \<Rightarrow> entry_db" where
  "publish_te ev db = db\<lparr>te_events := te_events db @ [ev]\<rparr>"

definition te_new ::
  "int \<Rightarrow> date \<Rightarrow> int \<Rightarrow> int option \<Rightarrow> entry_source \<Rightarrow> entry_status \<Rightarrow> string option \<Rightarrow> int option \<Rightarrow> entry" where
  "te_new e d tin tout source st notes by =
     \<lparr>te_id = 0, te_employee = e, te_date = d, te_in = tin, te_out = tout, te_source = source,
      te_status = st, te_notes = notes, te_created_by = by, te_updated_by = by,
      te_deleted_by = None, te_deleted_at = None\<rparr>"

text \<open>\<open>Math.ceil(ms / 1000)\<close>.\<close>

definition ceil_seconds :: "int \<Rightarrow> int" where
  "ceil_seconds ms = - ((- ms) div 1000)"

definition assertNotInCooldown :: "int \<Rightarrow> int \<Rightarrow> entry_db \<Rightarrow> http_error + unit" where
  "assertNotInCooldown now e db =
     (case findLatestForEmployee db e of
        None \<Rightarrow> Inr ()
      | Some latest \<Rightarrow>
          (let elapsed = now - event_time latest; window = PUNCH_COOLDOWN_MINUTES * 60000
           in if elapsed < window then Inl (TooManyRequests (ceil_seconds (window - elapsed))) else Inr ()))"

text \<open>The cooldown reads the clock before the lookups and the punch instant after them.\<close>

definition punch :: "int \<Rightarrow> int \<Rightarrow> int \<Rightarrow> entry_db \<Rightarrow> entry_db \<times> (http_error + entry)" where
  "punch t0 now e db =
     (case assertNotInCooldown t0 e db of
        Inl er \<Rightarrow> (db, Inl er)
      | Inr _ \<Rightarrow>
          (case findOpenForEmployee db e of
             Some r \<Rightarrow>
               (case bindR (reconstitute_entry r) (closeEntry now) of
                  Inl er \<Rightarrow> (db, Inl er)
                | Inr (r', ev) \<Rightarrow>
                    (case te_update (te_id r) \<lparr>ep_date = None, ep_in = None,
                            ep_out = (case te_out r' of None \<Rightarrow> Null | Some t \<Rightarrow> Val t), ep_source = None,
                            ep_status = Some (te_status r'), ep_notes = Undefined, ep_updated_by = Val e\<rparr> db of
                       Inl er \<Rightarrow> (db, Inl er)
                     | Inr (db', saved) \<Rightarrow> (publish_te ev db', Inr saved)))
           | None \<Rightarrow>
               (case te_insert (te_new e (utcDateString now) now None Manual Open None (Some e)) db of
                  Inl er \<Rightarrow> (db, Inl (if isUniqueViolation er then ConflictPlain else er))
                | Inr (db', r) \<Rightarrow>
                    (publish_te (TimeEntryOpened (te_id r) (te_employee r) (te_date r)) db', Inr r))))"

record entry_input =
  ei_employee :: int
  ei_date :: date
  ei_in :: int
  ei_out :: "int option"
  ei_source :: "entry_source option"
  ei_notes :: "string option"
  ei_created_by :: "int option"

definition createEntry :: "entry_input \<Rightarrow> entry_db \<Rightarrow> entry_db \<times> (http_error + entry)" where
  "createEntry i db =
     (if ei_out i = None \<and> findOpenForEmployee db (ei_employee i) \<noteq> None
      then (db, Inl (unprocessable ''employee_id''))
      else case assertWindow (ei_in i) (ei_out i) ''time_out'' of
             Inl er \<Rightarrow> (db, Inl er)
           | Inr w \<Rightarrow>
               (case te_insert (te_new (ei_employee i) (ei_date i) (ei_in i) (ei_out i) (opt_apply (ei_source i) Admin)
                       (deriveStatus w) (ei_notes i) (ei_created_by i)) db of
                  Inl er \<Rightarrow> (db, Inl (if isUniqueViolation er then ConflictPlain else er))
                | Inr (db', r) \<Rightarrow>
                    (publish_te (TimeEntryOpened (te_id r) (te_employee r) (te_date r)) db', Inr r)))"

definition updateEntry :: "int \<Rightarrow> entry_patch \<Rightarrow> entry_db \<Rightarrow> entry_db \<times> (http_error + entry)" where
  "updateEntry i p db =
     (case orNotFound (findEntry db i) ''TimeEntry'' i of
        Inl er \<Rightarrow> (db, Inl er)
      | Inr r \<Rightarrow>
          (case assertWindow (opt_apply (ep_in p) (te_in r)) (tri_apply (ep_out p) (te_out r)) ''time_out'' of
             Inl er \<Rightarrow> (db, Inl er)
           | Inr w \<Rightarrow>
               (case te_update i (p\<lparr>ep_status := Some (deriveStatus w)\<rparr>) db of
                  Inl er \<Rightarrow> (db, Inl er)
                | Inr (db', saved) \<Rightarrow> (db', Inr saved))))"

definition softDeleteEntry :: "int \<Rightarrow> int \<Rightarrow> int option \<Rightarrow> entry_db \<Rightarrow> entry_db \<times> (http_error + unit)" where
  "softDeleteEntry now i actor db =
     (case orNotFound (findEntry db i) ''TimeEntry'' i of
        Inl er \<Rightarrow> (db, Inl er)
      | Inr _ \<Rightarrow> (te_softDelete now i actor db, Inr ()))"

definition assertNoOtherOpenEntry :: "int \<Rightarrow> int option \<Rightarrow> entry_db \<Rightarrow> http_error + unit" where
  "assertNoOtherOpenEntry e except db =
     (case findOpenForEmployee db e of
        None \<Rightarrow> Inr ()
      | Some r \<Rightarrow> if Some (te_id r) \<noteq> except then Inl (conflict ''conflict'') else Inr ())"

record correction_input =
  co_employee :: int
  co_target :: "int option"
  co_date :: date
  co_in :: int
  co_out :: "int option"
  co_decided_by :: "int option"

definition tri_of :: "'a option \<Rightarrow> 'a tri" where
  "tri_of x = (case x of None \<Rightarrow> Null | Some a \<Rightarrow> Val a)"

definition applyCorrection :: "correction_input \<Rightarrow> entry_db \<Rightarrow> entry_db \<times> (http_error + entry)" where
  "applyCorrection i db =
     (case assertWindow (co_in i) (co_out i) ''proposed_time_out'' of
        Inl er \<Rightarrow> (db, Inl er)
      | Inr w \<Rightarrow>
          (case co_target i of
             Some t \<Rightarrow>
               (case findEntry db t of
                  None \<Rightarrow> (db, Inl NotFoundPlain)
                | Some r \<Rightarrow>
                    (case if snd w = None then assertNoOtherOpenEntry (co_employee i) (Some t) db else Inr () of
                       Inl er \<Rightarrow> (db, Inl er)
                     | Inr _ \<Rightarrow>
                         (case reconstitute_entry r of
                            Inl er \<Rightarrow> (db, Inl er)
                          | Inr _ \<Rightarrow>
                              (let (r', ev) = correctEntry w r
                               in case te_update t \<lparr>ep_date = Some (co_date i), ep_in = Some (te_in r'),
                                         ep_out = tri_of (te_out r'), ep_source = Some (te_source r'),
                                         ep_status = Some (te_status r'), ep_notes = Undefined,
                                         ep_updated_by = tri_of (co_decided_by i)\<rparr> db of
                                    Inl er \<Rightarrow> (db, Inl er)
                                  | Inr (db', saved) \<Rightarrow> (publish_te ev db', Inr saved)))))
           | None \<Rightarrow>
               if existsForEmployeeDate db (co_employee i) (co_date i) then (db, Inl (conflict ''work_date''))
               else (case if snd w = None then assertNoOtherOpenEntry (co_employee i) None db else Inr () of
                       Inl er \<Rightarrow> (db, Inl er)
                     | Inr _ \<Rightarrow>
                         (case te_insert (te_new (co_employee i) (co_date i) (co_in i) (co_out i) Correction
                                 (deriveStatus w) None (co_decided_by i)) db of
                            Inl er \<Rightarrow> (db, Inl (if isUniqueViolation er then conflict ''conflict'' else er))
                          | Inr (db', r) \<Rightarrow>
                              (publish_te (TimeEntryOpened (te_id r) (te_employee r) (te_date r)) db', Inr r)))))"

section \<open>The contract\<close>

definition entry_ok :: "entry \<Rightarrow> bool" where
  "entry_ok r \<longleftrightarrow> te_checks r \<and> (te_status r = Open \<longleftrightarrow> te_out r = None)"

definition entry_inv :: "entry_db \<Rightarrow> bool" where
  "entry_inv db \<longleftrightarrow>
     serial_ok te_id (te_next db) (te_rows db) \<and> unique_active te_open te_employee (te_rows db) \<and>
     list_all entry_ok (te_rows db)"

interpretation open_index: partial_unique te_id te_open te_employee te_retire
  by unfold_locales (simp_all add: te_retire_def te_open_def te_live_def)

lemma findEntry_Some: "findEntry db i = Some r \<Longrightarrow> r \<in> set (te_rows db) \<and> te_id r = i \<and> te_live r"
  unfolding findEntry_def using find_Some_iff_mem by fastforce

lemma findOpen_eq: "findOpenForEmployee db e = find (\<lambda>r. te_open r \<and> te_employee r = e) (te_rows db)"
  unfolding findOpenForEmployee_def te_open_def by (rule arg_cong2[of _ _ _ _ find]) auto

lemma mkTimeWindow_Inr: "mkTimeWindow a b = Inr w \<longleftrightarrow> w = (a, b) \<and> (case b of None \<Rightarrow> True | Some t \<Rightarrow> a < t)"
  by (auto simp: mkTimeWindow_def split: option.splits)

lemma assertWindow_Inr: "assertWindow a b f = Inr w \<longleftrightarrow> w = (a, b) \<and> (case b of None \<Rightarrow> True | Some t \<Rightarrow> a < t)"
  unfolding mkTimeWindow_Inr[symmetric] by (auto simp: assertWindow_def split: sum.splits)

lemma window_ok:
  assumes "assertWindow (te_in r) (te_out r) f = Inr w" "te_status r = deriveStatus w"
  shows "entry_ok r"
  using assms by (auto simp: entry_ok_def te_checks_def assertWindow_Inr deriveStatus_def split: option.splits)

text \<open>The four things an operation can do to the table.\<close>

inductive entry_effect :: "entry_db \<Rightarrow> entry_db \<Rightarrow> bool" where
  same: "te_rows db' = te_rows db \<Longrightarrow> te_next db' = te_next db \<Longrightarrow> entry_effect db db'"
| insert: "te_insert r db = Inr (d, stored) \<Longrightarrow> entry_ok r \<Longrightarrow> te_rows db' = te_rows d \<Longrightarrow>
    te_next db' = te_next d \<Longrightarrow> entry_effect db db'"
| save: "findEntry db i = Some r \<Longrightarrow> te_update i p db = Inr (d, s) \<Longrightarrow> entry_ok s \<Longrightarrow>
    te_rows db' = te_rows d \<Longrightarrow> te_next db' = te_next d \<Longrightarrow> entry_effect db db'"
| delete: "db' = te_softDelete now i actor db \<Longrightarrow> entry_effect db db'"

lemma te_patched_ids [simp]: "te_id (te_patched p r) = te_id r" "te_employee (te_patched p r) = te_employee r"
  by (simp_all add: te_patched_def)

lemma te_update_Inr:
  assumes "te_update i p db = Inr (d, s)"
  shows "\<exists>r. findEntry db i = Some r \<and> s = te_patched p r \<and> te_checks s \<and>
    (te_open s \<longrightarrow> \<not> list_ex (\<lambda>q. te_id q \<noteq> te_id s \<and> te_open q \<and> te_employee q = te_employee s) (te_rows db)) \<and>
    d = db\<lparr>te_rows := update_where (\<lambda>q. te_id q = te_id s) (\<lambda>_. s) (te_rows db)\<rparr>"
  using assms by (auto simp: te_update_def te_save_def bindR_eq_Inr split: option.splits if_splits)

lemma te_insert_Inr:
  "te_insert r db = Inr (d, s) \<longleftrightarrow> te_checks r \<and>
     (te_open r \<longrightarrow> \<not> list_ex (\<lambda>q. te_open q \<and> te_employee q = te_employee r) (te_rows db)) \<and>
     s = r\<lparr>te_id := te_next db\<rparr> \<and> d = db\<lparr>te_rows := te_rows db @ [s], te_next := te_next db + 1\<rparr>"
  by (auto simp: te_insert_def Let_def)

lemma te_id_simps [simp]:
  "te_open (r\<lparr>te_id := i\<rparr>) = te_open r" "entry_ok (r\<lparr>te_id := i\<rparr>) = entry_ok r" "te_live (r\<lparr>te_id := i\<rparr>) = te_live r"
  by (simp_all add: te_open_def te_live_def entry_ok_def te_checks_def split: option.splits)

lemma te_retire_simps [simp]:
  "te_id (te_retire a r) = te_id r" "te_employee (te_retire a r) = te_employee r"
  "entry_ok (te_retire a r) = entry_ok r" "te_live (te_retire a r) = False"
  by (simp_all add: te_retire_def te_live_def entry_ok_def te_checks_def split: option.splits)

lemma entry_effect_inv:
  assumes "entry_effect db db'" "entry_inv db"
  shows "entry_inv db'"
  using assms
proof (induction rule: entry_effect.induct)
  case (same db' db)
  then show ?case by (simp add: entry_inv_def)
next
  case (insert r db d s db')
  have s: "s = r\<lparr>te_id := te_next db\<rparr>" "te_rows db' = te_rows db @ [s]" "te_next db' = te_next db + 1"
    "te_open r \<Longrightarrow> te_employee r \<notin> te_employee ` set (filter te_open (te_rows db))"
    using insert by (auto simp: te_insert_Inr list_ex_iff)
  then show ?case
    using insert serial_ok_snoc[of te_id "te_next db" "te_rows db" s]
    by (simp add: entry_inv_def unique_active_snoc)
next
  case (save db i r p d s db')
  have s: "te_id s = te_id r" "te_employee s = te_employee r"
    "te_open s \<Longrightarrow> \<forall>q \<in> set (te_rows db). te_id q \<noteq> te_id s \<longrightarrow> te_open q \<longrightarrow> te_employee q \<noteq> te_employee s"
    "te_rows db' = update_where (\<lambda>q. te_id q = te_id s) (\<lambda>_. s) (te_rows db)" "te_next db' = te_next db"
    using te_update_Inr[OF save(2)] save(1,4,5) by (auto simp: list_ex_iff)
  have inv: "serial_ok te_id (te_next db) (te_rows db)" "unique_active te_open te_employee (te_rows db)"
    "list_all entry_ok (te_rows db)"
    using save.prems by (simp_all add: entry_inv_def)
  have "list_all entry_ok (te_rows db')"
    unfolding s(4) using inv(3) save(3) by (auto simp: list_all_iff table_simps)
  moreover have "serial_ok te_id (te_next db') (te_rows db')"
    unfolding s(4,5) by (rule serial_ok_replace[OF inv(1)]) simp
  moreover have "unique_active te_open te_employee (te_rows db')"
    unfolding s(4) using inv(1) s(3)
    by (intro unique_active_replace[OF inv(2)]) (auto simp: serial_ok_def)
  ultimately show ?case by (simp add: entry_inv_def)
next
  case (delete db' now i actor db)
  have "list_all entry_ok (te_rows db')"
    using delete by (auto simp: entry_inv_def list_all_iff table_simps te_softDelete_def)
  then show ?case
    using delete open_index.retire_preserves open_index.retire_serial by (simp add: entry_inv_def te_softDelete_def)
qed

text \<open>No operation moves an entry to another employee or forgets its row.\<close>

definition owners_kept :: "entry_db \<Rightarrow> entry_db \<Rightarrow> bool" where
  "owners_kept db db' \<longleftrightarrow>
     (\<forall>r \<in> set (te_rows db). \<exists>s \<in> set (te_rows db'). te_id s = te_id r \<and> te_employee s = te_employee r)"

lemma entry_effect_owners:
  assumes "entry_effect db db'" "entry_inv db"
  shows "owners_kept db db'"
  using assms
proof (induction rule: entry_effect.induct)
  case (save db i r p d s db')
  have s: "te_id s = te_id r" "te_employee s = te_employee r" "r \<in> set (te_rows db)"
    "te_rows db' = update_where (\<lambda>q. te_id q = te_id s) (\<lambda>_. s) (te_rows db)"
    using te_update_Inr[OF save(2)] save(1,4) findEntry_Some by auto
  have same: "te_employee q = te_employee s" if "q \<in> set (te_rows db)" "te_id q = te_id s" for q
    using serial_ok_inj[of te_id "te_next db" "te_rows db" q r] save.prems that s(1-3) by (simp add: entry_inv_def)
  show ?case
    unfolding owners_kept_def s(4)
  proof
    fix q
    assume q: "q \<in> set (te_rows db)"
    then have "(if te_id q = te_id s then s else q) \<in> set (update_where (\<lambda>q. te_id q = te_id s) (\<lambda>_. s) (te_rows db))"
      by (rule update_where_mem)
    then show "\<exists>t \<in> set (update_where (\<lambda>q. te_id q = te_id s) (\<lambda>_. s) (te_rows db)).
        te_id t = te_id q \<and> te_employee t = te_employee q"
      using same[OF q] by (metis (full_types))
  qed
next
  case (delete db' now i actor db)
  then show ?case
    by (auto simp: owners_kept_def te_softDelete_def intro!: bexI[OF _ update_where_mem])
qed (auto simp: owners_kept_def te_insert_Inr)

section \<open>The operations have these effects\<close>

lemma publish_te_simps [simp]: "te_rows (publish_te ev db) = te_rows db" "te_next (publish_te ev db) = te_next db"
  by (simp_all add: publish_te_def)

lemma effect_refl [intro]: "entry_effect db db"
  by (rule entry_effect.same) simp_all

lemma closeEntry_Inr:
  "closeEntry now r = Inr (r', ev) \<longleftrightarrow> te_in r < now \<and>
     r' = r\<lparr>te_out := Some now, te_status := Confirmed\<rparr> \<and> ev = TimeEntryClosed (te_id r) (te_employee r)"
  by (auto simp: closeEntry_def bindR_eq_Inr mkTimeWindow_Inr deriveStatus_def)

lemma punch_effect: "entry_effect db (fst (punch t0 now e db))"
proof (cases "assertNotInCooldown t0 e db")
  case (Inl er)
  then show ?thesis by (auto simp: punch_def)
next
  case cool: (Inr u)
  show ?thesis
  proof (cases "findOpenForEmployee db e")
    case None
    show ?thesis
    proof (cases "te_insert (te_new e (utcDateString now) now None Manual Open None (Some e)) db")
      case (Inl er)
      then show ?thesis using cool None by (auto simp: punch_def)
    next
      case (Inr x)
      obtain d r where x: "x = (d, r)" by (cases x)
      then show ?thesis
        using cool None Inr
        by (auto simp: punch_def te_new_def entry_ok_def te_checks_def intro: entry_effect.insert)
    qed
  next
    case (Some r)
    show ?thesis
    proof (cases "bindR (reconstitute_entry r) (closeEntry now)")
      case (Inl er)
      then show ?thesis using cool Some by (auto simp: punch_def)
    next
      case (Inr x)
      obtain r' ev where x: "x = (r', ev)" by (cases x)
      have r': "te_in r < now" "te_out r' = Some now" "te_status r' = Confirmed"
        using Inr x by (auto simp: bindR_eq_Inr closeEntry_Inr reconstitute_entry_def split: sum.splits)
      let ?p = "\<lparr>ep_date = None, ep_in = None, ep_out = Val now, ep_source = None, ep_status = Some Confirmed,
        ep_notes = Undefined, ep_updated_by = Val e\<rparr>"
      show ?thesis
      proof (cases "te_update (te_id r) ?p db")
        case (Inl er)
        then show ?thesis using cool Some \<open>bindR _ _ = Inr x\<close> x r' by (auto simp: punch_def)
      next
        case up: (Inr y)
        obtain d s where y: "y = (d, s)" by (cases y)
        obtain q where q: "findEntry db (te_id r) = Some q" "s = te_patched ?p q" "te_checks s"
          using te_update_Inr up y by blast
        have "entry_ok s" using q(2,3) by (simp add: entry_ok_def te_patched_def)
        then show ?thesis
          using entry_effect.save[OF q(1)] up y cool Some \<open>bindR _ _ = Inr x\<close> x r'
          by (auto simp: punch_def)
      qed
    qed
  qed
qed

lemma createEntry_Inl: "createEntry i db = (d, Inl er) \<Longrightarrow> d = db"
  by (auto simp: createEntry_def split: if_splits sum.splits prod.splits)

lemma createEntry_Inr:
  assumes "createEntry i db = (d, Inr r)"
  shows "\<exists>w d'. assertWindow (ei_in i) (ei_out i) ''time_out'' = Inr w \<and>
    te_insert (te_new (ei_employee i) (ei_date i) (ei_in i) (ei_out i) (opt_apply (ei_source i) Admin)
       (deriveStatus w) (ei_notes i) (ei_created_by i)) db = Inr (d', r) \<and>
    d = publish_te (TimeEntryOpened (te_id r) (te_employee r) (te_date r)) d'"
  using assms by (auto simp: createEntry_def split: if_splits sum.splits prod.splits)

lemma create_effect:
  assumes "createEntry i db = (d, res)"
  shows "entry_effect db d"
proof (cases res)
  case (Inl er)
  then show ?thesis using assms createEntry_Inl by blast
next
  case (Inr r)
  obtain w d' where w: "assertWindow (ei_in i) (ei_out i) ''time_out'' = Inr w"
    "te_insert (te_new (ei_employee i) (ei_date i) (ei_in i) (ei_out i) (opt_apply (ei_source i) Admin)
       (deriveStatus w) (ei_notes i) (ei_created_by i)) db = Inr (d', r)"
    "d = publish_te (TimeEntryOpened (te_id r) (te_employee r) (te_date r)) d'"
    using createEntry_Inr assms Inr by blast
  have "entry_ok (te_new (ei_employee i) (ei_date i) (ei_in i) (ei_out i) (opt_apply (ei_source i) Admin)
       (deriveStatus w) (ei_notes i) (ei_created_by i))"
    by (rule window_ok[of _ "''time_out''" w]) (simp_all add: te_new_def w(1))
  then show ?thesis using w by (auto intro: entry_effect.insert)
qed

lemma updateEntry_Inl: "updateEntry i p db = (d, Inl er) \<Longrightarrow> d = db"
  by (auto simp: updateEntry_def split: sum.splits prod.splits)

lemma updateEntry_Inr:
  assumes "updateEntry i p db = (d, Inr s)"
  shows "\<exists>r w. findEntry db i = Some r \<and>
    assertWindow (opt_apply (ep_in p) (te_in r)) (tri_apply (ep_out p) (te_out r)) ''time_out'' = Inr w \<and>
    te_update i (p\<lparr>ep_status := Some (deriveStatus w)\<rparr>) db = Inr (d, s)"
  using assms by (auto simp: updateEntry_def orNotFound_def split: sum.splits prod.splits option.splits)

lemma update_effect:
  assumes "updateEntry i p db = (d, res)"
  shows "entry_effect db d"
proof (cases res)
  case (Inl er)
  then show ?thesis using assms updateEntry_Inl by blast
next
  case (Inr s)
  obtain r w where w: "findEntry db i = Some r"
    "assertWindow (opt_apply (ep_in p) (te_in r)) (tri_apply (ep_out p) (te_out r)) ''time_out'' = Inr w"
    "te_update i (p\<lparr>ep_status := Some (deriveStatus w)\<rparr>) db = Inr (d, s)"
    using updateEntry_Inr assms Inr by blast
  have "s = te_patched (p\<lparr>ep_status := Some (deriveStatus w)\<rparr>) r" using te_update_Inr[OF w(3)] w(1) by auto
  then have "entry_ok s" using w(2) by (intro window_ok[of s "''time_out''" w]) (simp_all add: te_patched_def)
  then show ?thesis using w(1,3) by (auto intro: entry_effect.save)
qed

lemma softDelete_effect: "softDeleteEntry now i actor db = (d, res) \<Longrightarrow> entry_effect db d"
  by (auto simp: softDeleteEntry_def orNotFound_def split: option.splits intro: entry_effect.delete)

text \<open>Applying a correction: a targeted one saves the corrected row, a new one inserts it.\<close>

definition corrected_row :: "correction_input \<Rightarrow> entry \<Rightarrow> entry" where
  "corrected_row i r =
     r\<lparr>te_date := co_date i, te_in := co_in i, te_out := co_out i, te_source := Correction,
       te_status := (if co_out i = None then Open else Confirmed), te_updated_by := co_decided_by i\<rparr>"

lemma tri_apply_tri_of [simp]: "tri_apply (tri_of x) y = x"
  by (simp add: tri_of_def split: option.splits)

lemma applyCorrection_Inl: "applyCorrection i db = (d, Inl er) \<Longrightarrow> d = db"
  by (auto simp: applyCorrection_def Let_def split: if_splits sum.splits prod.splits option.splits)

lemma assertNoOtherOpenEntry_Inr:
  "assertNoOtherOpenEntry e x db = Inr u \<longleftrightarrow> (\<forall>r. findOpenForEmployee db e = Some r \<longrightarrow> Some (te_id r) = x)"
  by (auto simp: assertNoOtherOpenEntry_def split: option.splits)

lemma applyCorrection_target:
  assumes "applyCorrection i db = (d, Inr s)" "co_target i = Some t"
  shows "\<exists>r p d'. findEntry db t = Some r \<and> s = corrected_row i r \<and> te_update t p db = Inr (d', s) \<and>
    entry_ok s \<and> te_rows d = te_rows d' \<and> te_next d = te_next d'"
proof -
  obtain w r where w: "assertWindow (co_in i) (co_out i) ''proposed_time_out'' = Inr w" "findEntry db t = Some r"
    using assms by (auto simp: applyCorrection_def split: sum.splits option.splits)
  have w': "w = (co_in i, co_out i)" "case co_out i of None \<Rightarrow> True | Some x \<Rightarrow> co_in i < x"
    using w(1) by (simp_all add: assertWindow_Inr)
  let ?p = "\<lparr>ep_date = Some (co_date i), ep_in = Some (co_in i), ep_out = tri_of (co_out i),
    ep_source = Some Correction, ep_status = Some (if co_out i = None then Open else Confirmed),
    ep_notes = Undefined, ep_updated_by = tri_of (co_decided_by i)\<rparr>"
  obtain d' where d': "te_update t ?p db = Inr (d', s)" "te_rows d = te_rows d'" "te_next d = te_next d'"
    using assms w w'(1)
    by (auto simp: applyCorrection_def correctEntry_def deriveStatus_def Let_def
        split: sum.splits prod.splits)
  have "s = corrected_row i r"
    using te_update_Inr[OF d'(1)] w(2) by (auto simp: te_patched_def corrected_row_def)
  moreover have "entry_ok (corrected_row i r)"
    using w'(2) by (auto simp: entry_ok_def te_checks_def corrected_row_def split: option.splits)
  ultimately show ?thesis using w(2) d' by blast
qed

definition new_log :: "correction_input \<Rightarrow> entry" where
  "new_log i =
     te_new (co_employee i) (co_date i) (co_in i) (co_out i) Correction
       (if co_out i = None then Open else Confirmed) None (co_decided_by i)"

lemma applyCorrection_new:
  assumes "applyCorrection i db = (d, Inr s)" "co_target i = None"
  shows "\<not> existsForEmployeeDate db (co_employee i) (co_date i) \<and>
    (\<exists>d'. te_insert (new_log i) db = Inr (d', s) \<and> entry_ok (new_log i) \<and>
       te_rows d = te_rows d' \<and> te_next d = te_next d')"
proof -
  obtain w where w: "assertWindow (co_in i) (co_out i) ''proposed_time_out'' = Inr w"
    using assms by (auto simp: applyCorrection_def split: sum.splits)
  have w': "w = (co_in i, co_out i)" "case co_out i of None \<Rightarrow> True | Some x \<Rightarrow> co_in i < x"
    using w by (simp_all add: assertWindow_Inr)
  have "entry_ok (new_log i)"
    using w'(2) by (auto simp: entry_ok_def te_checks_def new_log_def te_new_def split: option.splits)
  then show ?thesis
    using assms w w'(1)
    by (auto simp: applyCorrection_def deriveStatus_def new_log_def Let_def
        split: sum.splits prod.splits if_splits)
qed

lemma correction_effect:
  assumes "applyCorrection i db = (d, res)"
  shows "entry_effect db d"
proof (cases res)
  case (Inl er)
  then show ?thesis using assms applyCorrection_Inl by blast
next
  case (Inr s)
  show ?thesis
  proof (cases "co_target i")
    case None
    then show ?thesis
      using applyCorrection_new assms Inr by (meson entry_effect.insert)
  next
    case (Some t)
    then show ?thesis
      using applyCorrection_target assms Inr by (meson entry_effect.save)
  qed
qed

section \<open>Reachable timesheets\<close>

inductive entry_step :: "entry_db \<Rightarrow> entry_db \<Rightarrow> bool" where
  punch: "entry_step db (fst (punch t0 now e db))"
| create: "entry_step db (fst (createEntry i db))"
| update: "entry_step db (fst (updateEntry i p db))"
| delete: "entry_step db (fst (softDeleteEntry now i actor db))"
| correct: "entry_step db (fst (applyCorrection c db))"

definition empty_entry_db :: entry_db where
  "empty_entry_db = \<lparr>te_rows = [], te_next = 1, te_events = []\<rparr>"

lemma entry_step_effect: "entry_step db db' \<Longrightarrow> entry_effect db db'"
  by (induction rule: entry_step.induct)
    (metis punch_effect create_effect update_effect softDelete_effect correction_effect prod.collapse)+

lemma entry_steps_inv:
  assumes "entry_step\<^sup>*\<^sup>* empty_entry_db db"
  shows "entry_inv db"
  using assms
proof (induction rule: rtranclp_induct)
  case base
  show ?case by (simp add: entry_inv_def empty_entry_db_def)
next
  case (step db db')
  then show ?case using entry_effect_inv entry_step_effect by blast
qed

section \<open>Lookups under the contract\<close>

lemma entry_inv_one_open:
  assumes "entry_inv db" "q \<in> set (te_rows db)" "r \<in> set (te_rows db)" "te_open q" "te_open r"
    "te_employee q = te_employee r"
  shows "q = r"
  using assms unique_active_inj[of te_open te_employee "te_rows db" q r] by (simp add: entry_inv_def)

lemma entry_inv_ids:
  assumes "entry_inv db" "q \<in> set (te_rows db)" "r \<in> set (te_rows db)" "te_id q = te_id r"
  shows "q = r"
  using assms serial_ok_inj[of te_id "te_next db" "te_rows db" q r] by (simp add: entry_inv_def)

lemma findEntry_eq:
  assumes "entry_inv db" "r \<in> set (te_rows db)" "te_live r"
  shows "findEntry db (te_id r) = Some r"
  unfolding findEntry_def by (rule find_unique) (use assms entry_inv_ids in auto)

lemma findOpen_Some:
  "findOpenForEmployee db e = Some r \<Longrightarrow> r \<in> set (te_rows db) \<and> te_open r \<and> te_employee r = e"
  unfolding findOpen_eq using find_Some_iff_mem by fastforce

lemma findOpen_None:
  "findOpenForEmployee db e = None \<longleftrightarrow> (\<forall>r \<in> set (te_rows db). te_open r \<longrightarrow> te_employee r \<noteq> e)"
  by (auto simp: findOpen_eq find_None_conv)

lemma open_row:
  assumes "entry_inv db" "findOpenForEmployee db e = Some r"
  shows "te_out r = None" "te_live r" "findEntry db (te_id r) = Some r" "reconstitute_entry r = Inr r"
    "event_time r = te_in r"
proof -
  have r: "r \<in> set (te_rows db)" "te_open r" using findOpen_Some[OF assms(2)] by auto
  show out: "te_out r = None" using assms(1) r by (auto simp: entry_inv_def list_all_iff entry_ok_def te_open_def)
  show live: "te_live r" using r by (simp add: te_open_def)
  show "findEntry db (te_id r) = Some r" by (rule findEntry_eq[OF assms(1) r(1) live])
  show "reconstitute_entry r = Inr r" "event_time r = te_in r"
    using out by (simp_all add: reconstitute_entry_def mkTimeWindow_def event_time_def)
qed

text \<open>The latest row is a live one with the greatest event time.\<close>

lemma findLatest_None:
  "findLatestForEmployee db e = None \<longleftrightarrow> (\<forall>r \<in> set (te_rows db). te_live r \<longrightarrow> te_employee r \<noteq> e)"
proof -
  let ?xs = "sort_key event_time (filter (\<lambda>r. te_employee r = e \<and> te_live r) (te_rows db))"
  have "findLatestForEmployee db e = None \<longleftrightarrow> ?xs = []"
    by (auto simp: findLatestForEmployee_def split: list.splits)
  also have "\<dots> \<longleftrightarrow> filter (\<lambda>r. te_employee r = e \<and> te_live r) (te_rows db) = []"
    by (rule sort_key_Nil)
  finally show ?thesis by (auto simp: filter_empty_conv)
qed

lemma findLatest_Some:
  assumes "findLatestForEmployee db e = Some l"
  shows "l \<in> set (te_rows db) \<and> te_live l \<and> te_employee l = e \<and>
    (\<forall>r \<in> set (te_rows db). te_live r \<longrightarrow> te_employee r = e \<longrightarrow> event_time r \<le> event_time l)"
proof -
  let ?xs = "sort_key event_time (filter (\<lambda>r. te_employee r = e \<and> te_live r) (te_rows db))"
  obtain ys where ys: "rev ?xs = l # ys"
    using assms by (auto simp: findLatestForEmployee_def split: list.splits)
  then have eq: "?xs = rev ys @ [l]" by (simp add: rev_eq_Cons_iff)
  have "sorted (map event_time (rev ys @ [l]))" by (metis eq sorted_sort_key)
  then have le: "event_time r \<le> event_time l" if "r \<in> set ?xs" for r
    using that unfolding eq by (auto simp: sorted_append)
  have "l \<in> set ?xs" unfolding eq by simp
  then show ?thesis using le by auto
qed

lemma cooldown_Inr:
  "assertNotInCooldown t e db = Inr u \<longleftrightarrow>
     (\<forall>r \<in> set (te_rows db). te_live r \<longrightarrow> te_employee r = e \<longrightarrow> event_time r + 300000 \<le> t)"
proof (cases "findLatestForEmployee db e")
  case None
  then show ?thesis using findLatest_None[of db e] by (simp add: assertNotInCooldown_def)
next
  case (Some l)
  then show ?thesis
    using findLatest_Some[OF Some]
    by (auto simp: assertNotInCooldown_def Let_def PUNCH_COOLDOWN_MINUTES_def)
qed

lemma cooldown_Inl:
  assumes "assertNotInCooldown t e db = Inl er"
  obtains l where "findLatestForEmployee db e = Some l" "t - event_time l < 300000"
    "er = TooManyRequests (ceil_seconds (300000 - (t - event_time l)))"
  using assms by (auto simp: assertNotInCooldown_def Let_def PUNCH_COOLDOWN_MINUTES_def split: option.splits if_splits)

section \<open>Punching\<close>

lemma punch_Inl: "punch t0 now e db = (d, Inl er) \<Longrightarrow> d = db"
  by (auto simp: punch_def split: sum.splits prod.splits option.splits)

lemma punch_opens:
  assumes "assertNotInCooldown t0 e db = Inr u" "findOpenForEmployee db e = None"
  shows "\<exists>s db'. punch t0 now e db = (db', Inr s) \<and>
    s = (te_new e (utcDateString now) now None Manual Open None (Some e))\<lparr>te_id := te_next db\<rparr> \<and>
    te_rows db' = te_rows db @ [s] \<and> te_next db' = te_next db + 1"
proof -
  have "\<not> list_ex (\<lambda>q. te_open q \<and> te_employee q = e) (te_rows db)"
    using assms(2) by (auto simp: findOpen_None list_ex_iff)
  then show ?thesis
    using assms by (simp add: punch_def te_insert_def te_new_def te_checks_def Let_def)
qed

lemma punch_closes:
  assumes "entry_inv db" "assertNotInCooldown t0 e db = Inr u" "findOpenForEmployee db e = Some r"
  shows "(if te_in r < now
          then \<exists>s db'. punch t0 now e db = (db', Inr s) \<and>
            s = r\<lparr>te_out := Some now, te_status := Confirmed, te_updated_by := Some e\<rparr> \<and>
            te_rows db' = update_where (\<lambda>q. te_id q = te_id r) (\<lambda>_. s) (te_rows db) \<and> te_next db' = te_next db
          else punch t0 now e db = (db, Inl (unprocessable ''time_out'')))"
  using assms(2,3) open_row[OF assms(1,3)]
  by (simp add: punch_def bindR_def closeEntry_def mkTimeWindow_def deriveStatus_def te_update_def te_save_def
      te_patched_def te_checks_def te_open_def)

text \<open>C28: In every reachable timesheet a punch made on a clock that does not run backwards fails only in the
  cooldown: it succeeds exactly when every live entry of the employee has its last event at least
  five minutes back, otherwise it answers 429 and changes nothing.  The window check and the index
  violation the code handles need a second call in between.\<close>

theorem punch_fails_only_in_cooldown:
  assumes "entry_step\<^sup>*\<^sup>* empty_entry_db db" "t0 \<le> now"
  shows "if \<forall>r \<in> set (te_rows db). te_live r \<and> te_employee r = e \<longrightarrow> event_time r + 300000 \<le> t0
    then \<exists>db' s. punch t0 now e db = (db', Inr s)
    else \<exists>n. punch t0 now e db = (db, Inl (TooManyRequests n))"
proof (cases "assertNotInCooldown t0 e db")
  case (Inl er)
  obtain l where "er = TooManyRequests (ceil_seconds (300000 - (t0 - event_time l)))"
    using cooldown_Inl[OF Inl] by metis
  moreover have "\<not> (\<forall>r \<in> set (te_rows db). te_live r \<and> te_employee r = e \<longrightarrow> event_time r + 300000 \<le> t0)"
    using cooldown_Inr[of t0 e db "()"] Inl by auto
  ultimately show ?thesis using Inl by (simp add: punch_def)
next
  case (Inr u)
  have all: "\<forall>r \<in> set (te_rows db). te_live r \<and> te_employee r = e \<longrightarrow> event_time r + 300000 \<le> t0"
    using cooldown_Inr Inr by blast
  have inv: "entry_inv db" by (rule entry_steps_inv[OF assms(1)])
  show ?thesis
  proof (cases "findOpenForEmployee db e")
    case None
    then show ?thesis using punch_opens[OF Inr None, of now] all by metis
  next
    case (Some r)
    have "te_in r < now"
      using all findOpen_Some[OF Some] open_row[OF inv Some] assms(2) by fastforce
    then show ?thesis using punch_closes[OF inv Inr Some, of now] all by auto
  qed
qed

text \<open>A successful punch toggles the employee: with no open entry it adds one, opened now on today's
  date; with an open entry it closes that row now, strictly after its start.  The other rows keep
  their content.\<close>

theorem punch_toggles:
  assumes "entry_step\<^sup>*\<^sup>* empty_entry_db db" "punch t0 now e db = (db', Inr s)"
  shows "case findOpenForEmployee db e of
    None \<Rightarrow> findOpenForEmployee db' e = Some s \<and> te_in s = now \<and> te_date s = utcDateString now \<and>
      te_rows db' = te_rows db @ [s]
  | Some r \<Rightarrow> findOpenForEmployee db' e = None \<and> te_in r < now \<and> te_out s = Some now \<and>
      te_id s = te_id r \<and> te_in s = te_in r \<and>
      te_rows db' = map (\<lambda>q. if te_id q = te_id r then s else q) (te_rows db)"
proof -
  have inv: "entry_inv db" by (rule entry_steps_inv[OF assms(1)])
  obtain u where cool: "assertNotInCooldown t0 e db = Inr u"
    using assms(2) by (auto simp: punch_def split: sum.splits)
  show ?thesis
  proof (cases "findOpenForEmployee db e")
    case None
    have s: "s = (te_new e (utcDateString now) now None Manual Open None (Some e))\<lparr>te_id := te_next db\<rparr>"
      "te_rows db' = te_rows db @ [s]"
      using punch_opens[OF cool None, of now] assms(2) by auto
    have "findOpenForEmployee db' e = Some s"
      using None s by (simp add: findOpen_eq find_append_None te_open_def te_live_def te_new_def)
    then show ?thesis using None s by (simp add: te_new_def)
  next
    case (Some r)
    have s: "te_in r < now" "s = r\<lparr>te_out := Some now, te_status := Confirmed, te_updated_by := Some e\<rparr>"
      "te_rows db' = update_where (\<lambda>q. te_id q = te_id r) (\<lambda>_. s) (te_rows db)"
      using punch_closes[OF inv cool Some, of now] assms(2) by (auto split: if_splits)
    have "findOpenForEmployee db' e = None"
      unfolding findOpen_None s(3)
    proof (intro ballI impI)
      fix q
      assume q: "q \<in> set (update_where (\<lambda>q. te_id q = te_id r) (\<lambda>_. s) (te_rows db))" "te_open q"
      have "\<not> te_open s" by (simp add: s(2) te_open_def)
      then have "q \<in> set (te_rows db)" "te_id q \<noteq> te_id r"
        using q by (auto simp: table_simps split: if_splits)
      then show "te_employee q \<noteq> e"
        using entry_inv_one_open[OF inv, of q r] findOpen_Some[OF Some] q(2) by auto
    qed
    then show ?thesis using Some s by (simp add: update_where_def)
  qed
qed

definition sample_punched :: entry_db where
  "sample_punched = fst (punch 1000 1000 7 empty_entry_db)"

lemma sample_punched_reachable: "entry_step\<^sup>*\<^sup>* empty_entry_db sample_punched"
  unfolding sample_punched_def by (rule r_into_rtranclp, rule entry_step.punch)

theorem punch_fails_only_in_cooldown_witness:
  "(\<exists>n. punch 200000 200001 7 sample_punched = (sample_punched, Inl (TooManyRequests n))) \<and>
   (\<exists>db' s. punch 301000 301002 7 sample_punched = (db', Inr s))"
proof -
  have all: "(\<forall>r \<in> set (te_rows sample_punched). te_live r \<and> te_employee r = 7 \<longrightarrow> event_time r + 300000 \<le> t0) \<longleftrightarrow>
      301000 \<le> t0" for t0
    by (simp add: sample_punched_def punch_def assertNotInCooldown_def findLatestForEmployee_def empty_entry_db_def
        findOpenForEmployee_def te_insert_def te_new_def te_checks_def Let_def publish_te_def te_live_def event_time_def)
  show ?thesis
    using punch_fails_only_in_cooldown[OF sample_punched_reachable, of 200000 200001 7]
      punch_fails_only_in_cooldown[OF sample_punched_reachable, of 301000 301002 7]
    unfolding all by simp
qed

theorem punch_toggles_witness:
  "findOpenForEmployee sample_punched 7 \<noteq> None \<and>
   findOpenForEmployee (fst (punch 400000 400000 7 sample_punched)) 7 = None"
proof -
  have "\<not> Option.is_none (findOpenForEmployee sample_punched 7)" by code_simp
  then obtain r where r: "findOpenForEmployee sample_punched 7 = Some r"
    by (cases "findOpenForEmployee sample_punched 7") simp_all
  have "isl (snd (punch 400000 400000 7 sample_punched)) = False" by code_simp
  then have "\<exists>s. snd (punch 400000 400000 7 sample_punched) = Inr s"
    by (cases "snd (punch 400000 400000 7 sample_punched)") simp_all
  then obtain s where "punch 400000 400000 7 sample_punched = (fst (punch 400000 400000 7 sample_punched), Inr s)"
    by (metis prod.collapse)
  from punch_toggles[OF sample_punched_reachable this] show ?thesis using r by simp
qed

text \<open>The \<open>retry_after_seconds\<close> of a refused punch is exact: the cooldown still refuses one second
  before it and passes once it has gone by; when no entry of the employee lies in the future it is
  between 1 and 300.\<close>

theorem retry_after_exact:
  assumes "assertNotInCooldown t e db = Inl (TooManyRequests n)"
  shows "0 < n \<and> assertNotInCooldown (t + n * 1000) e db = Inr () \<and>
    (\<exists>er. assertNotInCooldown (t + (n - 1) * 1000) e db = Inl er) \<and>
    ((\<forall>r \<in> set (te_rows db). event_time r \<le> t) \<longrightarrow> n \<le> 300)"
proof -
  obtain l where l: "findLatestForEmployee db e = Some l" "t - event_time l < 300000"
    "TooManyRequests n = TooManyRequests (ceil_seconds (300000 - (t - event_time l)))"
    using cooldown_Inl[OF assms] by metis
  define ms where "ms = 300000 - (t - event_time l)"
  have n: "n = - ((- ms) div 1000)" "0 < ms" using l(2,3) by (simp_all add: ceil_seconds_def ms_def)
  have "(n - 1) * 1000 < ms" "ms \<le> n * 1000"
    if "- ms = 1000 * q + m" "0 \<le> m" "m < 1000" "n = - q" for q m
    using that by simp_all
  from this[of "(- ms) div 1000" "(- ms) mod 1000"] have bounds: "(n - 1) * 1000 < ms" "ms \<le> n * 1000"
    using n(1) by simp_all
  then have "0 < n" using n(2) by linarith
  moreover have "n \<le> 300" if "\<forall>r \<in> set (te_rows db). event_time r \<le> t"
  proof -
    have "event_time l \<le> t" using that findLatest_Some[OF l(1)] by blast
    then have "ms \<le> 300000" by (simp add: ms_def)
    then have "(n - 1) * 1000 < 300 * 1000" using bounds(1) by simp
    then show ?thesis unfolding mult_less_cancel_right by simp
  qed
  moreover have cool: "assertNotInCooldown (t + k * 1000) e db = Inr () \<longleftrightarrow> ms \<le> k * 1000" for k
    using l(1) by (simp add: assertNotInCooldown_def Let_def PUNCH_COOLDOWN_MINUTES_def ms_def)
  moreover have "\<exists>er. assertNotInCooldown (t + (n - 1) * 1000) e db = Inl er"
    using cool[of "n - 1"] bounds(1) by (cases "assertNotInCooldown (t + (n - 1) * 1000) e db") simp_all
  ultimately show ?thesis using bounds(2) by blast
qed

theorem retry_after_exact_witness:
  "assertNotInCooldown 200001 7 sample_punched = Inl (TooManyRequests 101) \<and>
   assertNotInCooldown 301001 7 sample_punched = Inr ()"
proof -
  have h: "assertNotInCooldown 200001 7 sample_punched = Inl (TooManyRequests 101)"
    by code_simp
  then show ?thesis using retry_after_exact[OF h] by simp
qed

text \<open>C27: Every reachable timesheet satisfies the contract of the table: ids are distinct, an employee has at
  most one live open entry, an entry is open exactly when it has no end, and an end lies strictly
  after its start.\<close>

theorem entries_reachable_contract:
  assumes "entry_step\<^sup>*\<^sup>* empty_entry_db db"
  shows "distinct (map te_id (te_rows db)) \<and>
    (\<forall>q \<in> set (te_rows db). \<forall>r \<in> set (te_rows db).
       te_open q \<longrightarrow> te_open r \<longrightarrow> te_employee q = te_employee r \<longrightarrow> q = r) \<and>
    (\<forall>r \<in> set (te_rows db). (te_status r = Open \<longleftrightarrow> te_out r = None) \<and>
       (\<forall>t. te_out r = Some t \<longrightarrow> te_in r < t))"
proof -
  have inv: "entry_inv db" by (rule entry_steps_inv[OF assms])
  have "\<forall>r \<in> set (te_rows db). entry_ok r" using inv by (simp add: entry_inv_def list_all_iff)
  moreover have "distinct (map te_id (te_rows db))" using inv by (simp add: entry_inv_def serial_ok_def)
  ultimately show ?thesis
    using entry_inv_one_open[OF inv] by (auto simp: entry_ok_def te_checks_def)
qed

theorem entries_reachable_contract_witness:
  "te_rows sample_punched \<noteq> [] \<and> list_all (\<lambda>r. te_status r = Open \<longleftrightarrow> te_out r = None) (te_rows sample_punched)"
proof
  have "length (te_rows sample_punched) = 1" by code_simp
  then show "te_rows sample_punched \<noteq> []" by auto
  show "list_all (\<lambda>r. te_status r = Open \<longleftrightarrow> te_out r = None) (te_rows sample_punched)"
    using entries_reachable_contract[OF sample_punched_reachable] unfolding list_all_iff by blast
qed

section \<open>Corrections and edits\<close>

lemma te_rows_frame_save:
  assumes "te_update i p db = Inr (d, s)"
  shows "te_rows d = map (\<lambda>q. if te_id q = te_id s then s else q) (te_rows db)"
  using te_update_Inr[OF assms] by (auto simp: update_where_def)

text \<open>Applying an approved correction either fails and changes nothing, or makes the timesheet say exactly
  what was asked: the targeted row, or a new row of the employee, carries the proposed date and window
  with source \<open>Correction\<close>, its status derived from the window; every other row is untouched.\<close>

theorem applyCorrection_writes_proposal:
  assumes "applyCorrection i db = (db', res)"
  shows "case res of
    Inl _ \<Rightarrow> db' = db
  | Inr s \<Rightarrow> (te_date s, te_in s, te_out s) = (co_date i, co_in i, co_out i) \<and> te_source s = Correction \<and>
      (te_status s = Open \<longleftrightarrow> co_out i = None) \<and> (\<forall>t. co_out i = Some t \<longrightarrow> co_in i < t) \<and>
      (case co_target i of
         None \<Rightarrow> te_employee s = co_employee i \<and> \<not> existsForEmployeeDate db (co_employee i) (co_date i) \<and>
           te_rows db' = te_rows db @ [s]
       | Some t \<Rightarrow> te_id s = t \<and> (\<exists>r. findEntry db t = Some r \<and> te_employee s = te_employee r) \<and>
           te_rows db' = map (\<lambda>q. if te_id q = t then s else q) (te_rows db))"
proof (cases res)
  case (Inl er)
  then show ?thesis using assms applyCorrection_Inl by auto
next
  case (Inr s)
  show ?thesis
  proof (cases "co_target i")
    case None
    obtain d' where d': "te_insert (new_log i) db = Inr (d', s)" "entry_ok (new_log i)" "te_rows db' = te_rows d'"
      and free: "\<not> existsForEmployeeDate db (co_employee i) (co_date i)"
      using applyCorrection_new assms Inr None by blast
    then show ?thesis
      using None Inr by (auto simp: te_insert_Inr new_log_def te_new_def entry_ok_def te_checks_def)
  next
    case (Some t)
    obtain r p d' where d': "findEntry db t = Some r" "s = corrected_row i r" "te_update t p db = Inr (d', s)"
      "entry_ok s" "te_rows db' = te_rows d'"
      using applyCorrection_target assms Inr Some by blast
    have "te_id s = t" using d'(2) findEntry_Some[OF d'(1)] by (simp add: corrected_row_def)
    then show ?thesis
      using d'(1,2,4,5) te_rows_frame_save[OF d'(3)] Some Inr
      by (auto simp: corrected_row_def entry_ok_def te_checks_def)
  qed
qed

definition sample_correction :: correction_input where
  "sample_correction =
     \<lparr>co_employee = 7, co_target = Some 1, co_date = Date 1970 1 1, co_in = 2000, co_out = Some 9000,
      co_decided_by = Some 3\<rparr>"

theorem applyCorrection_writes_proposal_witness:
  "\<exists>s. snd (applyCorrection sample_correction sample_punched) = Inr s \<and> te_in s = 2000 \<and> te_out s = Some 9000"
proof -
  have "isl (snd (applyCorrection sample_correction sample_punched)) = False" by code_simp
  then obtain s where s: "applyCorrection sample_correction sample_punched =
      (fst (applyCorrection sample_correction sample_punched), Inr s)"
    by (cases "snd (applyCorrection sample_correction sample_punched)") (simp_all add: prod_eq_iff)
  have "snd (applyCorrection sample_correction sample_punched) = Inr s" by (subst s) simp
  then show ?thesis using applyCorrection_writes_proposal[OF s] by (simp add: sample_correction_def)
qed

text \<open>The admin edit has no one-open guard and no mapping of the index violation: clearing the end of a
  closed entry while its employee has an open one answers with the raw database error, not with
  the 409 or 422 of the create path.\<close>

theorem updateEntry_reopen_unmapped:
  assumes "entry_step\<^sup>*\<^sup>* empty_entry_db db"
    and "findEntry db i = Some r" "te_out r \<noteq> None" "findOpenForEmployee db (te_employee r) \<noteq> None"
    and "ep_out p = Null"
  shows "updateEntry i p db = (db, Inl UniqueViolation) \<and>
    (\<forall>c. ei_employee c = te_employee r \<and> ei_out c = None \<longrightarrow>
       createEntry c db = (db, Inl (unprocessable ''employee_id'')))"
proof -
  have inv: "entry_inv db" by (rule entry_steps_inv[OF assms(1)])
  obtain q where q: "findOpenForEmployee db (te_employee r) = Some q" using assms(4) by auto
  have r: "te_id r = i" "te_live r" using findEntry_Some[OF assms(2)] by auto
  have "q \<in> set (te_rows db)" "te_open q" "te_employee q = te_employee r" using findOpen_Some[OF q] by auto
  moreover have "te_id q \<noteq> te_id r"
  proof
    assume "te_id q = te_id r"
    then have "findEntry db i = Some q" using open_row(3)[OF inv q] r(1) by simp
    then have "q = r" using assms(2) by simp
    then show False using open_row(1)[OF inv q] assms(3) by simp
  qed
  ultimately have other: "list_ex (\<lambda>q. te_id q \<noteq> te_id r \<and> te_open q \<and> te_employee q = te_employee r) (te_rows db)"
    by (auto simp: list_ex_iff)
  define new where "new = te_patched (p\<lparr>ep_status := Some Open\<rparr>) r"
  have "te_out new = None" "te_open new" "te_id new = te_id r" "te_employee new = te_employee r"
    using assms(5) r(2) by (simp_all add: new_def te_patched_def te_open_def te_live_def)
  then have "te_save new db = Inl UniqueViolation"
    using other by (simp add: te_save_def te_checks_def)
  then have "te_update i (p\<lparr>ep_status := Some Open\<rparr>) db = Inl UniqueViolation"
    using assms(2) by (simp add: te_update_def new_def bindR_def)
  moreover have "assertWindow a (tri_apply (ep_out p) (te_out r)) f = Inr (a, None)" for a f
    using assms(5) by (simp add: assertWindow_def mkTimeWindow_def)
  ultimately have "updateEntry i p db = (db, Inl UniqueViolation)"
    using assms(2) by (simp add: updateEntry_def orNotFound_def deriveStatus_def)
  then show ?thesis using q by (simp add: createEntry_def)
qed

definition sample_closed :: entry_db where
  "sample_closed = fst (punch 900000 900000 7 (fst (punch 400000 400000 7 sample_punched)))"

definition reopen_patch :: entry_patch where
  "reopen_patch = \<lparr>ep_date = None, ep_in = None, ep_out = Null, ep_source = None, ep_status = None,
     ep_notes = Undefined, ep_updated_by = Val 2\<rparr>"

theorem updateEntry_reopen_unmapped_witness:
  "updateEntry 1 reopen_patch sample_closed = (sample_closed, Inl UniqueViolation)"
proof -
  have reach: "entry_step\<^sup>*\<^sup>* empty_entry_db sample_closed"
    unfolding sample_closed_def
    by (rule rtranclp.rtrancl_into_rtrancl[OF rtranclp.rtrancl_into_rtrancl[OF sample_punched_reachable]])
      (rule entry_step.punch)+
  have "map_option te_out (findEntry sample_closed 1) = Some (Some 400000)"
    "map_option te_employee (findEntry sample_closed 1) = Some 7"
    by code_simp+
  then obtain r where r: "findEntry sample_closed 1 = Some r" "te_out r = Some 400000" "te_employee r = 7" by auto
  have "\<not> Option.is_none (findOpenForEmployee sample_closed 7)" by code_simp
  then have "findOpenForEmployee sample_closed (te_employee r) \<noteq> None"
    using r(3) by (simp add: Option.is_none_def)
  with updateEntry_reopen_unmapped[OF reach r(1)] r(2) show ?thesis by (simp add: reopen_patch_def)
qed

end
