(* ===== verification/TimeCorrections.thy ===== *)
theory TimeCorrections
  imports TwoStep TimeEntries ApprovalChains
begin

text \<open>
  Time-correction requests (\<open>src/src/time-correction-requests\<close>): the aggregate with its value
  objects, the repository and the service.  The state holds the table of requests and the timesheet,
  which only \<open>TimeEntriesService.applyCorrection\<close> writes.  An approval is split where the code
  yields: \<open>approve_load\<close> reads the aggregate and checks the actor, \<open>approve_finish\<close> writes the
  timesheet and then the request, without reading the status again.
\<close>

section \<open>The record\<close>

record correction =
  tc_id :: int
  tc_employee :: int
  tc_target :: "int option"
  tc_date :: date
  tc_in :: int
  tc_out :: "int option"
  tc_reason :: string
  tc_status :: request_status
  tc_submitted_at :: int
  tc_decided_at :: "int option"
  tc_decided_by :: "int option"
  tc_decision_note :: "string option"
  tc_decision_path :: "decision_path option"
  tc_cancelled_at :: "int option"
  tc_cancelled_by :: "int option"
  tc_l1 :: int
  tc_l2 :: "int option"
  tc_created_by :: "int option"
  tc_updated_by :: "int option"
  tc_deleted_at :: "int option"

datatype correction_event =
    TimeCorrectionSubmitted int int int
  | TimeCorrectionApproved int int int decision_path
  | TimeCorrectionAdvancedToL2 int int int
  | TimeCorrectionRejected int int int
  | TimeCorrectionCancelled int int int

datatype correction_error =
    CorrectionStatusError
  | NotCurrentCorrectionApprover
  | CorrectionNoteRequired
  | NotAllowedToCancelCorrection
  | InvalidProposedWindowError
  | NewLogContractError string

section \<open>The aggregate\<close>

definition proposedPunch :: "int \<Rightarrow> int option \<Rightarrow> correction_error + (int \<times> int option)" where
  "proposedPunch tin tout =
     (case tout of
        None \<Rightarrow> Inr (tin, None)
      | Some t \<Rightarrow> if t \<le> tin then Inl InvalidProposedWindowError else Inr (tin, Some t))"

text \<open>An invalid stored window throws on load, outside the service's translation of errors.\<close>

definition reconstitute_tc :: "correction \<Rightarrow> http_error + correction" where
  "reconstitute_tc r =
     (case proposedPunch (tc_in r) (tc_out r) of Inl _ \<Rightarrow> Inl PlainError | Inr _ \<Rightarrow> Inr r)"

definition currentStepApproverId_tc :: "correction \<Rightarrow> int option" where
  "currentStepApproverId_tc r =
     (if tc_status r = Pending_l1 then Some (tc_l1 r)
      else if tc_status r = Pending_l2 then tc_l2 r
      else None)"

definition isActionableBy_tc :: "correction \<Rightarrow> actor \<Rightarrow> bool" where
  "isActionableBy_tc r a =
     (if act_system_admin a then True
      else if act_can_approve_any a then True
      else if \<not> act_can_approve a then False
      else if tc_status r = Pending_l1 then act_user_id a = tc_l1 r
      else if tc_status r = Pending_l2 then Some (act_user_id a) = tc_l2 r
      else False)"

definition isOverride_tc :: "actor \<Rightarrow> bool" where
  "isOverride_tc a \<longleftrightarrow> act_system_admin a \<or> act_can_approve_any a"

definition nextStatusAfterApproval_tc :: "correction \<Rightarrow> bool \<Rightarrow> request_status" where
  "nextStatusAfterApproval_tc r override =
     (if override then Approved
      else if tc_status r = Pending_l1 \<and> tc_l2 r \<noteq> None then Pending_l2 else Approved)"

definition assertPending_tc :: "correction \<Rightarrow> correction_error + unit" where
  "assertPending_tc r = guardR (status_pending (tc_status r)) CorrectionStatusError"

definition assertCurrentApprover_tc :: "correction \<Rightarrow> actor \<Rightarrow> correction_error + unit" where
  "assertCurrentApprover_tc r a = guardR (isActionableBy_tc r a) NotCurrentCorrectionApprover"

definition assertApprovable_tc :: "correction \<Rightarrow> actor \<Rightarrow> correction_error + unit" where
  "assertApprovable_tc r a = bindR (assertPending_tc r) (\<lambda>_. assertCurrentApprover_tc r a)"

definition path_tc :: "actor \<Rightarrow> decision_path" where
  "path_tc a = (if isOverride_tc a then Override else Chain)"

definition applyApproval_tc :: "int \<Rightarrow> correction \<Rightarrow> actor \<Rightarrow> correction \<times> correction_event" where
  "applyApproval_tc now r a =
     (let nxt = nextStatusAfterApproval_tc r (isOverride_tc a);
          r' = r\<lparr>tc_status := nxt, tc_decided_at := Some now, tc_decided_by := Some (act_user_id a),
                 tc_decision_path := Some (path_tc a)\<rparr>
      in (r', if nxt = Pending_l2
              then TimeCorrectionAdvancedToL2 (tc_id r) (tc_employee r) (the (tc_l2 r))
              else TimeCorrectionApproved (tc_id r) (tc_employee r) (act_user_id a) (path_tc a)))"

definition reject_tc :: "int \<Rightarrow> correction \<Rightarrow> actor \<Rightarrow> string \<Rightarrow> correction_error + (correction \<times> correction_event)" where
  "reject_tc now r a why =
     (if why = [] \<or> length (trim why) = 0 then Inl CorrectionNoteRequired
      else bindR (assertPending_tc r) (\<lambda>_.
           bindR (assertCurrentApprover_tc r a) (\<lambda>_.
             Inr (r\<lparr>tc_status := Rejected, tc_decided_at := Some now,
                    tc_decided_by := Some (act_user_id a), tc_decision_note := Some why,
                    tc_decision_path := Some (path_tc a)\<rparr>,
                  TimeCorrectionRejected (tc_id r) (tc_employee r) (act_user_id a)))))"

definition cancel_tc :: "int \<Rightarrow> correction \<Rightarrow> actor \<Rightarrow> correction_error + (correction \<times> correction_event)" where
  "cancel_tc now r a =
     (if \<not> status_pending (tc_status r) then Inl CorrectionStatusError
      else if act_user_id a \<noteq> tc_employee r \<and> \<not> (act_system_admin a \<or> act_can_delete a)
      then Inl NotAllowedToCancelCorrection
      else Inr (r\<lparr>tc_status := Cancelled, tc_cancelled_at := Some now,
                  tc_cancelled_by := Some (act_user_id a)\<rparr>,
                TimeCorrectionCancelled (tc_id r) (tc_employee r) (act_user_id a)))"

definition assertProposedWindow :: "int \<Rightarrow> int option \<Rightarrow> correction_error + unit" where
  "assertProposedWindow tin tout = bindR (proposedPunch tin tout) (\<lambda>_. Inr ())"

definition assertNewLogContract :: "int option \<Rightarrow> int option \<Rightarrow> date \<Rightarrow> date \<Rightarrow> correction_error + unit" where
  "assertNewLogContract target tout d today =
     (if target \<noteq> None then Inr ()
      else if tout = None then Inl (NewLogContractError ''proposed_time_out'')
      else if today < d then Inl (NewLogContractError ''work_date'')
      else Inr ())"

definition rethrowCorrectionDomainError :: "correction_error \<Rightarrow> http_error" where
  "rethrowCorrectionDomainError er =
     (case er of
        CorrectionStatusError \<Rightarrow> conflict ''status''
      | NotCurrentCorrectionApprover \<Rightarrow> forbidden ''approver''
      | CorrectionNoteRequired \<Rightarrow> unprocessable ''decision_note''
      | NotAllowedToCancelCorrection \<Rightarrow> ForbiddenPlain
      | InvalidProposedWindowError \<Rightarrow> unprocessable ''proposed_time_out''
      | NewLogContractError field \<Rightarrow> unprocessable field)"

definition domainTC :: "correction_error + 'a \<Rightarrow> http_error + 'a" where
  "domainTC r = (case r of Inl er \<Rightarrow> Inl (rethrowCorrectionDomainError er) | Inr x \<Rightarrow> Inr x)"

section \<open>Repository\<close>

record correction_db =
  tc_rows :: "correction list"
  tc_next :: int
  tc_events :: "correction_event list"
  tc_entries :: entry_db

definition tc_live :: "correction \<Rightarrow> bool" where
  "tc_live r \<longleftrightarrow> tc_deleted_at r = None"

definition tc_checks :: "correction \<Rightarrow> bool" where
  "tc_checks r \<longleftrightarrow> (case tc_out r of None \<Rightarrow> True | Some t \<Rightarrow> tc_in r < t)"

definition findCorrection :: "correction_db \<Rightarrow> int \<Rightarrow> correction option" where
  "findCorrection db i = find (\<lambda>r. tc_id r = i \<and> tc_live r) (tc_rows db)"

definition findActiveForEmployeeDate :: "correction_db \<Rightarrow> int \<Rightarrow> date \<Rightarrow> correction list" where
  "findActiveForEmployeeDate db e d =
     filter (\<lambda>r. tc_employee r = e \<and> tc_date r = d \<and> tc_live r \<and> status_active (tc_status r)) (tc_rows db)"

definition findActiveForEntry :: "correction_db \<Rightarrow> int \<Rightarrow> correction list" where
  "findActiveForEntry db t =
     filter (\<lambda>r. tc_target r = Some t \<and> tc_live r \<and> status_active (tc_status r)) (tc_rows db)"

definition findPendingCorrections :: "correction_db \<Rightarrow> int \<Rightarrow> correction list" where
  "findPendingCorrections db uid =
     sort_key tc_submitted_at
       (filter (\<lambda>r. tc_live r \<and> (tc_status r = Pending_l1 \<and> tc_l1 r = uid \<or>
                                tc_status r = Pending_l2 \<and> tc_l2 r = Some uid)) (tc_rows db))"

definition findAllPendingCorrections :: "correction_db \<Rightarrow> correction list" where
  "findAllPendingCorrections db =
     sort_key tc_submitted_at (filter (\<lambda>r. tc_live r \<and> status_pending (tc_status r)) (tc_rows db))"

definition correctionCandidates :: "correction_db \<Rightarrow> int \<Rightarrow> date \<Rightarrow> correction list" where
  "correctionCandidates db e d =
     filter (\<lambda>r. tc_employee r = e \<and> tc_live r \<and> status_active (tc_status r) \<and> d \<le> tc_date r) (tc_rows db)"

record correction_criteria =
  cc_employee :: "int option"
  cc_status :: "request_status list"
  cc_from :: "date option"
  cc_to :: "date option"
  cc_page :: "int option"
  cc_limit :: "int option"

definition correction_matches :: "correction_criteria \<Rightarrow> correction \<Rightarrow> bool" where
  "correction_matches c r \<longleftrightarrow>
     tc_live r \<and>
     (case cc_employee c of None \<Rightarrow> True | Some e \<Rightarrow> tc_employee r = e) \<and>
     (cc_status c \<noteq> [] \<longrightarrow> tc_status r \<in> set (cc_status c)) \<and>
     (case cc_from c of None \<Rightarrow> True | Some f \<Rightarrow> f \<le> tc_date r) \<and>
     (case cc_to c of None \<Rightarrow> True | Some t \<Rightarrow> tc_date r \<le> t)"

definition findAllCorrections :: "correction_db \<Rightarrow> correction_criteria \<Rightarrow> correction page_of" where
  "findAllCorrections db c =
     find_page (rev (sort_key tc_submitted_at (filter (correction_matches c) (tc_rows db)))) (cc_page c) (cc_limit c)"

definition tc_insert :: "user_port \<Rightarrow> correction \<Rightarrow> correction_db \<Rightarrow> http_error + (correction_db \<times> correction)" where
  "tc_insert up r db =
     (if \<not> tc_checks r then Inl CheckViolation
      else if \<not> (user_row up (tc_employee r) \<and> user_row up (tc_l1 r) \<and>
                 (case tc_l2 r of None \<Rightarrow> True | Some u \<Rightarrow> user_row up u) \<and>
                 (case tc_target r of None \<Rightarrow> True
                  | Some t \<Rightarrow> list_ex (\<lambda>e. te_id e = t) (te_rows (tc_entries db))))
      then Inl ForeignKeyViolation
      else (let stored = r\<lparr>tc_id := tc_next db\<rparr>
            in Inr (db\<lparr>tc_rows := tc_rows db @ [stored], tc_next := tc_next db + 1\<rparr>, stored)))"

text \<open>An update re-checks the foreign keys it may change: those of the decider and the canceller.\<close>

definition tc_update ::
  "user_port \<Rightarrow> int \<Rightarrow> (correction \<Rightarrow> correction) \<Rightarrow> correction_db \<Rightarrow> http_error + (correction_db \<times> correction)" where
  "tc_update up i patch db =
     (case findCorrection db i of
        None \<Rightarrow> Inl PlainError
      | Some r \<Rightarrow>
          (let r' = patch r
           in if \<not> tc_checks r' then Inl CheckViolation
              else if (tc_decided_by r' \<noteq> tc_decided_by r \<and>
                         (case tc_decided_by r' of None \<Rightarrow> False | Some u \<Rightarrow> \<not> user_row up u)) \<or>
                      (tc_cancelled_by r' \<noteq> tc_cancelled_by r \<and>
                         (case tc_cancelled_by r' of None \<Rightarrow> False | Some u \<Rightarrow> \<not> user_row up u))
              then Inl ForeignKeyViolation
              else Inr (db\<lparr>tc_rows := update_where (\<lambda>q. tc_id q = i) (\<lambda>_. r') (tc_rows db)\<rparr>, r')))"

definition tc_system_cancelled :: "int \<Rightarrow> int \<Rightarrow> string \<Rightarrow> correction \<Rightarrow> correction" where
  "tc_system_cancelled now actor why r =
     r\<lparr>tc_status := Cancelled, tc_cancelled_at := Some now, tc_cancelled_by := Some actor,
       tc_decision_note := Some why, tc_updated_by := Some actor\<rparr>"

definition systemCancel_tc :: "int \<Rightarrow> int list \<Rightarrow> int \<Rightarrow> string \<Rightarrow> correction_db \<Rightarrow> correction_db \<times> int" where
  "systemCancel_tc now ids actor why db =
     (if ids = [] then (db, 0)
      else (let hit = (\<lambda>r. tc_id r \<in> set ids \<and> status_active (tc_status r) \<and> tc_live r)
            in (db\<lparr>tc_rows := update_where hit (tc_system_cancelled now actor why) (tc_rows db)\<rparr>,
                int (length (filter hit (tc_rows db))))))"

section \<open>Service\<close>

record correction_env =
  ce_users :: user_port
  ce_chains :: chain_db
  ce_today :: date
  ce_now :: int

definition toCorrectionActor :: "user \<Rightarrow> actor" where
  "toCorrectionActor caller =
     \<lparr>act_user_id = usr_id caller, act_system_admin = usr_system_admin caller,
      act_can_approve = hasPermission caller ''TIME_CORRECTION:Approve'',
      act_can_approve_any = hasPermission caller ''TIME_CORRECTION:ApproveAny'',
      act_can_delete = hasPermission caller ''TIME_CORRECTION:Delete''\<rparr>"

definition findCorrectionForViewer :: "correction_db \<Rightarrow> int \<Rightarrow> user \<Rightarrow> http_error + correction" where
  "findCorrectionForViewer db i caller =
     bindR (orNotFound (findCorrection db i) ''TimeCorrectionRequest'' i) (\<lambda>row.
       if usr_id caller = tc_employee row \<or> usr_id caller = tc_l1 row \<or> Some (usr_id caller) = tc_l2 row \<or>
          usr_system_admin caller \<or> hasPermission caller ''TIME_CORRECTION:ViewAll''
       then Inr row else Inl ForbiddenPlain)"

record correction_submit =
  cs_employee :: int
  cs_target :: "int option"
  cs_date :: date
  cs_in :: int
  cs_out :: "int option"
  cs_reason :: string

text \<open>Ownership and one active request per entry; for a new log, one active new log per date.\<close>

definition assertTarget :: "correction_submit \<Rightarrow> correction_db \<Rightarrow> http_error + unit" where
  "assertTarget i db =
     (case cs_target i of
        Some t \<Rightarrow>
          bindR (orNotFound (findEntry (tc_entries db) t) ''TimeEntry'' t) (\<lambda>target.
            if te_employee target \<noteq> cs_employee i then Inl ForbiddenPlain
            else guardR (findActiveForEntry db t = []) (unprocessable ''target_entry_id''))
      | None \<Rightarrow>
          guardR (filter (\<lambda>r. tc_target r = None) (findActiveForEmployeeDate db (cs_employee i) (cs_date i)) = [])
            (unprocessable ''work_date''))"

definition tc_new :: "int \<Rightarrow> correction_submit \<Rightarrow> int \<Rightarrow> int option \<Rightarrow> int \<Rightarrow> correction" where
  "tc_new now i a1 a2 by =
     \<lparr>tc_id = 0, tc_employee = cs_employee i, tc_target = cs_target i, tc_date = cs_date i, tc_in = cs_in i,
      tc_out = cs_out i, tc_reason = cs_reason i, tc_status = Pending_l1, tc_submitted_at = now,
      tc_decided_at = None, tc_decided_by = None, tc_decision_note = None, tc_decision_path = None,
      tc_cancelled_at = None, tc_cancelled_by = None, tc_l1 = a1, tc_l2 = a2, tc_created_by = Some by,
      tc_updated_by = Some by, tc_deleted_at = None\<rparr>"

definition submit_checks :: "correction_env \<Rightarrow> correction_submit \<Rightarrow> correction_db \<Rightarrow> http_error + (int \<times> int option)" where
  "submit_checks env i db =
     bindR (domainTC (assertProposedWindow (cs_in i) (cs_out i))) (\<lambda>_.
       (let chain = getActive (ce_chains env) (cs_employee i)
        in case l1_approver_id chain of
             None \<Rightarrow> Inl (unprocessable ''approval_chain'')
           | Some a1 \<Rightarrow>
               bindR (assertTarget i db) (\<lambda>_.
               bindR (domainTC (assertNewLogContract (cs_target i) (cs_out i) (cs_date i) (ce_today env))) (\<lambda>_.
                 if cs_target i = None \<and> existsForEmployeeDate (tc_entries db) (cs_employee i) (cs_date i)
                 then Inl (unprocessable ''work_date'')
                 else Inr (a1, l2_approver_id chain)))))"

definition submitCorrection ::
  "correction_env \<Rightarrow> correction_submit \<Rightarrow> int \<Rightarrow> correction_db \<Rightarrow> correction_db \<times> (http_error + correction)" where
  "submitCorrection env i actor db =
     (case submit_checks env i db of
        Inl er \<Rightarrow> (db, Inl er)
      | Inr (a1, a2) \<Rightarrow>
          (case tc_insert (ce_users env) (tc_new (ce_now env) i a1 a2 actor) db of
             Inl er \<Rightarrow> (db, Inl er)
           | Inr (db', r) \<Rightarrow>
               (db'\<lparr>tc_events := tc_events db' @ [TimeCorrectionSubmitted (tc_id r) (tc_employee r) (tc_l1 r)]\<rparr>, Inr r)))"

definition loadCorrection :: "correction_db \<Rightarrow> int \<Rightarrow> http_error + correction" where
  "loadCorrection db i =
     bindR (orNotFound (findCorrection db i) ''TimeCorrectionRequest'' i) reconstitute_tc"

definition persist_tc ::
  "user_port \<Rightarrow> int \<Rightarrow> (correction \<Rightarrow> correction) \<Rightarrow> correction_event \<Rightarrow> correction_db
     \<Rightarrow> correction_db \<times> (http_error + correction)" where
  "persist_tc up i patch ev db =
     (case tc_update up i patch db of
        Inl er \<Rightarrow> (db, Inl er)
      | Inr (db', saved) \<Rightarrow> (db'\<lparr>tc_events := tc_events db' @ [ev]\<rparr>, Inr saved))"

definition cancelCorrection ::
  "correction_env \<Rightarrow> int \<Rightarrow> user \<Rightarrow> correction_db \<Rightarrow> correction_db \<times> (http_error + correction)" where
  "cancelCorrection env i caller db =
     (case loadCorrection db i of
        Inl er \<Rightarrow> (db, Inl er)
      | Inr r \<Rightarrow>
          (case domainTC (cancel_tc (ce_now env) r (toCorrectionActor caller)) of
             Inl er \<Rightarrow> (db, Inl er)
           | Inr (r', ev) \<Rightarrow>
               persist_tc (ce_users env) i
                 (\<lambda>q. q\<lparr>tc_status := tc_status r', tc_cancelled_at := tc_cancelled_at r',
                        tc_cancelled_by := tc_cancelled_by r', tc_updated_by := Some (usr_id caller)\<rparr>) ev db))"

record correction_patch =
  cp_date :: "date option"
  cp_in :: "int option"
  cp_out :: "int tri"
  cp_reason :: "string option"

definition apply_correction_patch :: "correction_patch \<Rightarrow> correction \<Rightarrow> correction" where
  "apply_correction_patch p r =
     r\<lparr>tc_date := opt_apply (cp_date p) (tc_date r), tc_in := opt_apply (cp_in p) (tc_in r),
       tc_out := tri_apply (cp_out p) (tc_out r), tc_reason := opt_apply (cp_reason p) (tc_reason r)\<rparr>"

definition updateCorrection ::
  "correction_env \<Rightarrow> int \<Rightarrow> correction_patch \<Rightarrow> user \<Rightarrow> correction_db \<Rightarrow> correction_db \<times> (http_error + correction)" where
  "updateCorrection env i p caller db =
     (case orNotFound (findCorrection db i) ''TimeCorrectionRequest'' i of
        Inl er \<Rightarrow> (db, Inl er)
      | Inr row \<Rightarrow>
          if \<not> status_pending (tc_status row) then (db, Inl (conflict ''status''))
          else (case domainTC (assertProposedWindow (opt_apply (cp_in p) (tc_in row)) (tri_apply (cp_out p) (tc_out row))) of
                  Inl er \<Rightarrow> (db, Inl er)
                | Inr _ \<Rightarrow>
                    (case tc_update (ce_users env) i
                            (\<lambda>q. (apply_correction_patch p q)\<lparr>tc_updated_by := Some (usr_id caller)\<rparr>) db of
                       Inl er \<Rightarrow> (db, Inl er)
                     | Inr (db', saved) \<Rightarrow> (db', Inr saved))))"

definition step_approver_ok_tc :: "user_port \<Rightarrow> correction \<Rightarrow> bool" where
  "step_approver_ok_tc up r =
     (case currentStepApproverId_tc r of
        None \<Rightarrow> True
      | Some a \<Rightarrow> (case find_user up a of None \<Rightarrow> False | Some u \<Rightarrow> usr_is_active u))"

definition approve_load :: "correction_env \<Rightarrow> int \<Rightarrow> user \<Rightarrow> correction_db \<Rightarrow> http_error + correction" where
  "approve_load env i caller db =
     bindR (loadCorrection db i) (\<lambda>r.
       (let a = toCorrectionActor caller
        in bindR (domainTC (assertApprovable_tc r a)) (\<lambda>_.
             if \<not> (act_system_admin a \<or> act_can_approve_any a) \<and> \<not> step_approver_ok_tc (ce_users env) r
             then Inl (conflict ''approver'') else Inr r)))"

definition correction_of :: "correction \<Rightarrow> int \<Rightarrow> correction_input" where
  "correction_of r by =
     \<lparr>co_employee = tc_employee r, co_target = tc_target r, co_date = tc_date r, co_in = tc_in r,
      co_out = tc_out r, co_decided_by = Some by\<rparr>"

definition approve_finish ::
  "correction_env \<Rightarrow> correction \<Rightarrow> user \<Rightarrow> correction_db \<Rightarrow> correction_db \<times> (http_error + correction)" where
  "approve_finish env r caller db =
     (let (r', ev) = applyApproval_tc (ce_now env) r (toCorrectionActor caller);
          persist = persist_tc (ce_users env) (tc_id r)
            (\<lambda>q. q\<lparr>tc_status := tc_status r', tc_decided_at := tc_decided_at r', tc_decided_by := tc_decided_by r',
                   tc_decision_path := tc_decision_path r', tc_updated_by := Some (usr_id caller)\<rparr>) ev
      in if tc_status r' = Approved
         then (case applyCorrection (correction_of r' (usr_id caller)) (tc_entries db) of
                 (es, Inl er) \<Rightarrow> (db\<lparr>tc_entries := es\<rparr>, Inl er)
               | (es, Inr _) \<Rightarrow> persist (db\<lparr>tc_entries := es\<rparr>))
         else persist db)"

definition approveCorrection ::
  "correction_env \<Rightarrow> int \<Rightarrow> user \<Rightarrow> correction_db \<Rightarrow> correction_db \<times> (http_error + correction)" where
  "approveCorrection env i caller db =
     (case approve_load env i caller db of
        Inl er \<Rightarrow> (db, Inl er)
      | Inr r \<Rightarrow> approve_finish env r caller db)"

definition rejectCorrection ::
  "correction_env \<Rightarrow> int \<Rightarrow> user \<Rightarrow> string \<Rightarrow> correction_db \<Rightarrow> correction_db \<times> (http_error + correction)" where
  "rejectCorrection env i caller why db =
     (case loadCorrection db i of
        Inl er \<Rightarrow> (db, Inl er)
      | Inr r \<Rightarrow>
          (case domainTC (reject_tc (ce_now env) r (toCorrectionActor caller) why) of
             Inl er \<Rightarrow> (db, Inl er)
           | Inr (r', ev) \<Rightarrow>
               persist_tc (ce_users env) i
                 (\<lambda>q. q\<lparr>tc_status := tc_status r', tc_decided_at := tc_decided_at r', tc_decided_by := tc_decided_by r',
                        tc_decision_note := tc_decision_note r', tc_decision_path := tc_decision_path r',
                        tc_updated_by := Some (usr_id caller)\<rparr>) ev db))"

section \<open>The state machine\<close>

definition approve_correction :: "int \<Rightarrow> actor \<Rightarrow> correction \<Rightarrow> correction option" where
  "approve_correction now a r =
     (case assertApprovable_tc r a of Inl _ \<Rightarrow> None | Inr _ \<Rightarrow> Some (fst (applyApproval_tc now r a)))"

definition reject_correction :: "int \<Rightarrow> actor \<Rightarrow> string \<Rightarrow> correction \<Rightarrow> correction option" where
  "reject_correction now a why r = (case reject_tc now r a why of Inl _ \<Rightarrow> None | Inr (r', _) \<Rightarrow> Some r')"

definition cancel_correction :: "int \<Rightarrow> unit \<Rightarrow> actor \<Rightarrow> correction \<Rightarrow> correction option" where
  "cancel_correction now d a r = (case cancel_tc now r a of Inl _ \<Rightarrow> None | Inr (r', _) \<Rightarrow> Some r')"

lemma isActionableBy_tc_may_decide:
  "isActionableBy_tc r a \<longleftrightarrow> may_decide a (tc_status r) (tc_l1 r) (tc_l2 r)"
  by (auto simp: isActionableBy_tc_def may_decide_def overrides_def)

lemma isOverride_tc_overrides [simp]: "isOverride_tc a = overrides a"
  by (simp add: isOverride_tc_def overrides_def)

lemma nextStatus_tc_approved_status:
  "nextStatusAfterApproval_tc r x = approved_status x (tc_status r) (tc_l2 r)"
  by (simp add: nextStatusAfterApproval_tc_def approved_status_def)

lemma assertApprovable_tc_iff:
  "assertApprovable_tc r a = Inr u \<longleftrightarrow> status_pending (tc_status r) \<and> isActionableBy_tc r a"
  by (auto simp: assertApprovable_tc_def assertPending_tc_def assertCurrentApprover_tc_def bindR_eq_Inr)

interpretation correction_machine: two_step_approval tc_status tc_l1 tc_l2
  "approve_correction now" "reject_correction now" "cancel_correction now" for now
proof unfold_locales
  fix a :: actor and r r' :: correction and why :: string and d :: unit
  show "approve_correction now a r = Some r' \<Longrightarrow>
      status_pending (tc_status r) \<and> may_decide a (tc_status r) (tc_l1 r) (tc_l2 r) \<and>
      tc_status r' = approved_status (overrides a) (tc_status r) (tc_l2 r) \<and> tc_l1 r' = tc_l1 r \<and> tc_l2 r' = tc_l2 r"
    by (auto simp: approve_correction_def assertApprovable_tc_iff isActionableBy_tc_may_decide applyApproval_tc_def
        nextStatus_tc_approved_status Let_def split: sum.splits)
  show "reject_correction now a why r = Some r' \<Longrightarrow>
      status_pending (tc_status r) \<and> may_decide a (tc_status r) (tc_l1 r) (tc_l2 r) \<and>
      tc_status r' = Rejected \<and> tc_l1 r' = tc_l1 r \<and> tc_l2 r' = tc_l2 r"
    by (auto simp: reject_correction_def reject_tc_def assertPending_tc_def assertCurrentApprover_tc_def
        isActionableBy_tc_may_decide bindR_eq_Inr split: sum.splits if_splits)
  show "cancel_correction now d a r = Some r' \<Longrightarrow>
      status_active (tc_status r) \<and> tc_status r' = Cancelled \<and> tc_l1 r' = tc_l1 r \<and> tc_l2 r' = tc_l2 r"
    by (auto simp: cancel_correction_def cancel_tc_def status_active_def split: sum.splits if_splits)
qed

end
