(* ===== verification/CorrectionOutcomes.thy ===== *)
theory CorrectionOutcomes
  imports TimeCorrections
begin

text \<open>
  What the time-correction service guarantees: the step relation with approvals split at their
  timesheet write, the invariant of its reachable states, and the outcomes of the calls.
\<close>

section \<open>The invariant\<close>

definition others_decide_tc :: "correction \<Rightarrow> bool" where
  "others_decide_tc r \<longleftrightarrow> tc_l1 r \<noteq> tc_employee r \<and> tc_l2 r \<noteq> Some (tc_employee r)"

text \<open>The target of a request is an entry of the requester.\<close>

definition target_owned :: "entry_db \<Rightarrow> correction \<Rightarrow> bool" where
  "target_owned es r \<longleftrightarrow>
     (case tc_target r of None \<Rightarrow> True
      | Some t \<Rightarrow> \<exists>e \<in> set (te_rows es). te_id e = t \<and> te_employee e = tc_employee r)"

definition request_ok :: "entry_db \<Rightarrow> correction \<Rightarrow> bool" where
  "request_ok es r \<longleftrightarrow> tc_checks r \<and> others_decide_tc r \<and> target_owned es r"

definition correction_inv :: "correction_db \<Rightarrow> bool" where
  "correction_inv db \<longleftrightarrow>
     serial_ok tc_id (tc_next db) (tc_rows db) \<and> entry_inv (tc_entries db) \<and>
     (\<forall>r \<in> set (tc_rows db). request_ok (tc_entries db) r)"

definition same_request :: "correction \<Rightarrow> correction \<Rightarrow> bool" where
  "same_request r s \<longleftrightarrow>
     tc_id s = tc_id r \<and> tc_employee s = tc_employee r \<and> tc_target s = tc_target r \<and>
     tc_l1 s = tc_l1 r \<and> tc_l2 s = tc_l2 r"

inductive request_effect :: "correction_db \<Rightarrow> correction_db \<Rightarrow> bool" where
  same: "tc_rows db' = tc_rows db \<Longrightarrow> tc_next db' = tc_next db \<Longrightarrow> request_effect db db'"
| insert: "tc_rows db' = tc_rows db @ [s] \<Longrightarrow> tc_id s = tc_next db \<Longrightarrow> tc_next db' = tc_next db + 1 \<Longrightarrow>
    request_ok (tc_entries db) s \<Longrightarrow> request_effect db db'"
| change: "tc_rows db' = update_where p f (tc_rows db) \<Longrightarrow> tc_next db' = tc_next db \<Longrightarrow>
    (\<And>r. r \<in> set (tc_rows db) \<Longrightarrow> p r \<Longrightarrow> same_request r (f r) \<and> tc_checks (f r)) \<Longrightarrow> request_effect db db'"

lemma request_ok_same: "request_ok es r \<Longrightarrow> same_request r s \<Longrightarrow> tc_checks s \<Longrightarrow> request_ok es s"
  by (cases "tc_target r") (simp_all add: request_ok_def same_request_def others_decide_tc_def target_owned_def)

lemma request_ok_owners: "owners_kept es es' \<Longrightarrow> request_ok es r \<Longrightarrow> request_ok es' r"
  by (fastforce simp: request_ok_def target_owned_def owners_kept_def split: option.splits)

lemma request_effect_inv:
  assumes "request_effect db db'" "entry_effect (tc_entries db) (tc_entries db')" "correction_inv db"
  shows "correction_inv db'"
proof -
  have own: "owners_kept (tc_entries db) (tc_entries db')" "entry_inv (tc_entries db')"
    using entry_effect_owners[OF assms(2)] entry_effect_inv[OF assms(2)] assms(3) by (simp_all add: correction_inv_def)
  have ok: "\<forall>r \<in> set (tc_rows db). request_ok (tc_entries db) r" "serial_ok tc_id (tc_next db) (tc_rows db)"
    using assms(3) by (simp_all add: correction_inv_def)
  have "serial_ok tc_id (tc_next db') (tc_rows db') \<and> (\<forall>r \<in> set (tc_rows db'). request_ok (tc_entries db) r)"
    using assms(1)
  proof cases
    case same
    then show ?thesis using ok by simp
  next
    case (insert s)
    then show ?thesis using ok serial_ok_snoc[OF ok(2), of s] by simp
  next
    case (change p f)
    have ids: "map tc_id (update_where p f (tc_rows db)) = map tc_id (tc_rows db)"
      using change(3) by (simp add: update_where_def same_request_def)
    have "request_ok (tc_entries db) s" if s: "s \<in> set (update_where p f (tc_rows db))" for s
    proof -
      obtain r where "r \<in> set (tc_rows db)" "s = (if p r then f r else r)" using s by (auto simp: table_simps)
      then show ?thesis using change(3)[of r] ok(1) request_ok_same by (cases "p r") auto
    qed
    then show ?thesis
      using ok(2) change(1,2) serial_ok_map[OF ids, of "tc_next db"] by simp
  qed
  then show ?thesis using own request_ok_owners by (auto simp: correction_inv_def)
qed

section \<open>The operations have these effects\<close>

lemma findCorrection_Some:
  "findCorrection db i = Some r \<Longrightarrow> r \<in> set (tc_rows db) \<and> tc_id r = i \<and> tc_live r"
  unfolding findCorrection_def using find_Some_iff_mem by fastforce

lemma correction_ids:
  assumes "correction_inv db" "findCorrection db i = Some r" "q \<in> set (tc_rows db)" "tc_id q = i"
  shows "q = r"
  using assms findCorrection_Some[OF assms(2)] serial_ok_inj[of tc_id "tc_next db" "tc_rows db" q r]
  by (simp add: correction_inv_def)

lemma tc_update_Inr:
  assumes "tc_update up i patch db = Inr (d, s)"
  shows "\<exists>r. findCorrection db i = Some r \<and> s = patch r \<and> tc_checks s \<and>
    d = db\<lparr>tc_rows := update_where (\<lambda>q. tc_id q = i) (\<lambda>_. s) (tc_rows db)\<rparr>"
  using assms by (auto simp: tc_update_def Let_def split: option.splits if_splits)

definition tc_active :: "correction \<Rightarrow> bool" where
  "tc_active r \<longleftrightarrow> tc_live r \<and> status_active (tc_status r)"

text \<open>The effect of every write but the insert; with \<open>b\<close> only active requests change.\<close>

definition alters :: "bool \<Rightarrow> correction_db \<Rightarrow> correction_db \<Rightarrow> bool" where
  "alters b db d \<longleftrightarrow>
     tc_next d = tc_next db \<and>
     (\<exists>p f. tc_rows d = update_where p f (tc_rows db) \<and>
        (\<forall>r \<in> set (tc_rows db). p r \<longrightarrow> same_request r (f r) \<and> tc_checks (f r) \<and> (b \<longrightarrow> tc_active r)))"

lemma alters_same: "tc_rows d = tc_rows db \<Longrightarrow> tc_next d = tc_next db \<Longrightarrow> alters b db d"
  unfolding alters_def by (intro conjI exI[of _ "\<lambda>_. False"] exI[of _ id]) (simp_all add: update_where_def)

lemma alters_weaken: "alters b db d \<Longrightarrow> alters False db d"
  unfolding alters_def by blast

lemma alters_effect: "alters b db d \<Longrightarrow> request_effect db d"
  unfolding alters_def by (elim conjE exE) (rule request_effect.change, assumption+, blast)

lemma update_alters:
  assumes "tc_update up i patch db = Inr (d, s)" "correction_inv db" "\<And>q. same_request q (patch q)"
    and "b \<Longrightarrow> findCorrection db i = Some r \<and> status_active (tc_status r)"
  shows "alters b db d \<and> tc_entries d = tc_entries db"
proof -
  obtain q where q: "findCorrection db i = Some q" "s = patch q" "tc_checks s"
    "d = db\<lparr>tc_rows := update_where (\<lambda>q. tc_id q = i) (\<lambda>_. s) (tc_rows db)\<rparr>"
    using tc_update_Inr[OF assms(1)] by blast
  have "b \<Longrightarrow> tc_active q" using assms(4) q(1) findCorrection_Some[OF q(1)] by (simp add: tc_active_def)
  then have "\<forall>x \<in> set (tc_rows db). tc_id x = i \<longrightarrow> same_request x s \<and> tc_checks s \<and> (b \<longrightarrow> tc_active x)"
    using correction_ids[OF assms(2) q(1)] q(2,3) assms(3) by blast
  then show ?thesis unfolding alters_def using q(4) by auto
qed

lemma persist_alters:
  assumes "persist_tc up i patch ev db = (d, res)" "correction_inv db" "\<And>q. same_request q (patch q)"
    and "b \<Longrightarrow> findCorrection db i = Some r \<and> status_active (tc_status r)"
  shows "alters b db d \<and> tc_entries d = tc_entries db"
proof (cases "tc_update up i patch db")
  case (Inl er)
  then show ?thesis using assms(1) by (auto simp: persist_tc_def intro: alters_same)
next
  case (Inr x)
  obtain d' s where x: "x = (d', s)" by (cases x)
  have "alters b db d' \<and> tc_entries d' = tc_entries db"
    by (rule update_alters[OF Inr[unfolded x] assms(2,3,4)])
  moreover have "tc_rows d = tc_rows d'" "tc_next d = tc_next d'" "tc_entries d = tc_entries d'"
    using assms(1) Inr x by (auto simp: persist_tc_def)
  ultimately show ?thesis by (simp add: alters_def)
qed

lemma loadCorrection_Inr: "loadCorrection db i = Inr r \<longleftrightarrow> findCorrection db i = Some r \<and> tc_checks r"
  by (auto simp: loadCorrection_def orNotFound_def bindR_eq_Inr reconstitute_tc_def proposedPunch_def tc_checks_def
      split: option.splits sum.splits if_splits)

lemma pending_tc_active: "status_pending s \<Longrightarrow> status_active s"
  by (simp add: status_active_def)

lemma domainTC_simps [simp]:
  "domainTC (Inl er) = Inl (rethrowCorrectionDomainError er)" "domainTC (Inr x) = Inr x"
  by (simp_all add: domainTC_def)

lemma cancel_alters:
  assumes "correction_inv db" "cancelCorrection env i caller db = (d, res)"
  shows "alters True db d \<and> tc_entries d = tc_entries db"
proof (cases "loadCorrection db i")
  case (Inl er)
  then show ?thesis using assms(2) by (auto simp: cancelCorrection_def intro: alters_same)
next
  case (Inr r)
  have r: "findCorrection db i = Some r" using Inr by (simp add: loadCorrection_Inr)
  show ?thesis
  proof (cases "cancel_tc (ce_now env) r (toCorrectionActor caller)")
    case (Inl er)
    then show ?thesis using assms(2) \<open>loadCorrection db i = Inr r\<close> by (auto simp: cancelCorrection_def intro: alters_same)
  next
    case (Inr x)
    obtain r' ev where x: "x = (r', ev)" by (cases x)
    have "status_active (tc_status r)" using Inr pending_tc_active by (auto simp: cancel_tc_def split: if_splits)
    moreover have "persist_tc (ce_users env) i
        (\<lambda>q. q\<lparr>tc_status := tc_status r', tc_cancelled_at := tc_cancelled_at r',
               tc_cancelled_by := tc_cancelled_by r', tc_updated_by := Some (usr_id caller)\<rparr>) ev db = (d, res)"
      using assms(2) \<open>loadCorrection db i = Inr r\<close> Inr x by (simp add: cancelCorrection_def)
    ultimately show ?thesis using persist_alters[OF _ assms(1)] r by (simp add: same_request_def)
  qed
qed

lemma reject_alters:
  assumes "correction_inv db" "rejectCorrection env i caller why db = (d, res)"
  shows "alters True db d \<and> tc_entries d = tc_entries db"
proof (cases "loadCorrection db i")
  case (Inl er)
  then show ?thesis using assms(2) by (auto simp: rejectCorrection_def intro: alters_same)
next
  case (Inr r)
  have r: "findCorrection db i = Some r" using Inr by (simp add: loadCorrection_Inr)
  show ?thesis
  proof (cases "reject_tc (ce_now env) r (toCorrectionActor caller) why")
    case (Inl er)
    then show ?thesis using assms(2) \<open>loadCorrection db i = Inr r\<close> by (auto simp: rejectCorrection_def intro: alters_same)
  next
    case (Inr x)
    obtain r' ev where x: "x = (r', ev)" by (cases x)
    have "status_active (tc_status r)"
      using Inr pending_tc_active by (auto simp: reject_tc_def bindR_eq_Inr assertPending_tc_def split: if_splits)
    moreover have "persist_tc (ce_users env) i
        (\<lambda>q. q\<lparr>tc_status := tc_status r', tc_decided_at := tc_decided_at r', tc_decided_by := tc_decided_by r',
               tc_decision_note := tc_decision_note r', tc_decision_path := tc_decision_path r',
               tc_updated_by := Some (usr_id caller)\<rparr>) ev db = (d, res)"
      using assms(2) \<open>loadCorrection db i = Inr r\<close> Inr x by (simp add: rejectCorrection_def)
    ultimately show ?thesis using persist_alters[OF _ assms(1)] r by (simp add: same_request_def)
  qed
qed

lemma edit_alters:
  assumes "correction_inv db" "updateCorrection env i p caller db = (d, res)"
  shows "alters True db d \<and> tc_entries d = tc_entries db"
proof (cases res)
  case (Inl er)
  then show ?thesis
    using assms(2) by (auto simp: updateCorrection_def split: sum.splits prod.splits if_splits intro: alters_same)
next
  case (Inr s)
  obtain r where r: "findCorrection db i = Some r" "status_active (tc_status r)"
    "tc_update (ce_users env) i (\<lambda>q. (apply_correction_patch p q)\<lparr>tc_updated_by := Some (usr_id caller)\<rparr>) db = Inr (d, s)"
    using assms(2) Inr pending_tc_active
    by (auto simp: updateCorrection_def orNotFound_def split: sum.splits prod.splits if_splits option.splits)
  show ?thesis
    by (rule update_alters[OF r(3) assms(1), where r = r]) (simp_all add: same_request_def apply_correction_patch_def r(1,2))
qed

lemma cascade_alters:
  assumes "correction_inv db"
  shows "alters True db (fst (systemCancel_tc now ids a why db)) \<and>
    tc_entries (fst (systemCancel_tc now ids a why db)) = tc_entries db"
proof (cases "ids = []")
  case True
  then show ?thesis by (auto simp: systemCancel_tc_def intro: alters_same)
next
  case False
  have "\<forall>r \<in> set (tc_rows db). same_request r (tc_system_cancelled now a why r) \<and>
      tc_checks (tc_system_cancelled now a why r)"
    using assms by (auto simp: correction_inv_def request_ok_def same_request_def tc_system_cancelled_def tc_checks_def
        split: option.splits)
  then show ?thesis using False unfolding alters_def systemCancel_tc_def by (auto simp: Let_def tc_active_def)
qed

lemma alters_entries: "alters b (db\<lparr>tc_entries := es\<rparr>) d \<longleftrightarrow> alters b db d"
  by (simp add: alters_def)

lemma finish_effect:
  assumes "correction_inv db" "approve_finish env r caller db = (d, res)"
    and "b \<Longrightarrow> findCorrection db (tc_id r) = Some r \<and> status_active (tc_status r)"
  shows "alters b db d \<and> (tc_entries d = tc_entries db \<or>
    tc_entries d = fst (applyCorrection (correction_of r (usr_id caller)) (tc_entries db)))"
proof -
  obtain r' ev where ap: "applyApproval_tc (ce_now env) r (toCorrectionActor caller) = (r', ev)"
    by (cases "applyApproval_tc (ce_now env) r (toCorrectionActor caller)")
  have co: "correction_of r' (usr_id caller) = correction_of r (usr_id caller)"
    using ap by (auto simp: applyApproval_tc_def Let_def correction_of_def)
  let ?patch = "\<lambda>q. q\<lparr>tc_status := tc_status r', tc_decided_at := tc_decided_at r', tc_decided_by := tc_decided_by r',
    tc_decision_path := tc_decision_path r', tc_updated_by := Some (usr_id caller)\<rparr>"
  have same: "same_request q (?patch q)" for q by (simp add: same_request_def)
  let ?app = "applyCorrection (correction_of r (usr_id caller)) (tc_entries db)"
  show ?thesis
  proof (cases "tc_status r' = Approved")
    case False
    then have "persist_tc (ce_users env) (tc_id r) ?patch ev db = (d, res)"
      using assms(2) ap by (simp add: approve_finish_def)
    then show ?thesis using persist_alters[OF _ assms(1) same, where b = b and r = r] assms(3) by blast
  next
    case True
    show ?thesis
    proof (cases "snd ?app")
      case (Inl er)
      then have "d = db\<lparr>tc_entries := fst ?app\<rparr>"
        using assms(2) ap co True by (auto simp: approve_finish_def split: prod.splits)
      then show ?thesis by (auto intro: alters_same)
    next
      case (Inr x)
      have "correction_inv (db\<lparr>tc_entries := fst ?app\<rparr>)"
        by (rule request_effect_inv[OF request_effect.same _ assms(1)])
          (simp_all add: correction_effect[OF prod.collapse[symmetric]])
      moreover have "persist_tc (ce_users env) (tc_id r) ?patch ev (db\<lparr>tc_entries := fst ?app\<rparr>) = (d, res)"
        using assms(2) ap co True Inr by (auto simp: approve_finish_def split: prod.splits)
      moreover have "b \<Longrightarrow> findCorrection (db\<lparr>tc_entries := fst ?app\<rparr>) (tc_id r) = Some r \<and> status_active (tc_status r)"
        using assms(3) by (simp add: findCorrection_def)
      ultimately have "alters b (db\<lparr>tc_entries := fst ?app\<rparr>) d \<and> tc_entries d = fst ?app"
        using persist_alters[OF _ _ same] by fastforce
      then show ?thesis by (simp add: alters_entries)
    qed
  qed
qed

lemma tc_insert_Inr:
  "tc_insert up r db = Inr (d, s) \<Longrightarrow> tc_checks r \<and> s = r\<lparr>tc_id := tc_next db\<rparr> \<and>
     d = db\<lparr>tc_rows := tc_rows db @ [s], tc_next := tc_next db + 1\<rparr>"
  by (auto simp: tc_insert_def Let_def split: if_splits)

lemma submit_checks_Inr:
  assumes "submit_checks env i db = Inr (a1, a2)"
  shows "l1_approver_id (getActive (ce_chains env) (cs_employee i)) = Some a1 \<and>
    a2 = l2_approver_id (getActive (ce_chains env) (cs_employee i)) \<and> assertTarget i db = Inr () \<and>
    assertNewLogContract (cs_target i) (cs_out i) (cs_date i) (ce_today env) = Inr () \<and>
    (cs_target i = None \<longrightarrow> \<not> existsForEmployeeDate (tc_entries db) (cs_employee i) (cs_date i))"
  using assms
  by (auto simp: submit_checks_def bindR_eq_Inr domainTC_def Let_def split: option.splits if_splits sum.splits)

lemma submitCorrection_cases:
  assumes "submitCorrection env i actor db = (d, res)"
  obtains er where "res = Inl er" "d = db"
  | a1 a2 r ev where "submit_checks env i db = Inr (a1, a2)" "res = Inr r" "tc_checks r"
    "r = (tc_new (ce_now env) i a1 a2 actor)\<lparr>tc_id := tc_next db\<rparr>"
    "d = db\<lparr>tc_rows := tc_rows db @ [r], tc_next := tc_next db + 1, tc_events := tc_events db @ [ev]\<rparr>"
proof (cases "submit_checks env i db")
  case (Inl er)
  then show thesis using assms that(1) by (auto simp: submitCorrection_def)
next
  case (Inr x)
  obtain a1 a2 where x: "x = (a1, a2)" by (cases x)
  show thesis
  proof (cases "tc_insert (ce_users env) (tc_new (ce_now env) i a1 a2 actor) db")
    case (Inl er)
    then show thesis using assms that(1) Inr x by (auto simp: submitCorrection_def)
  next
    case ins: (Inr y)
    obtain d' r where y: "y = (d', r)" by (cases y)
    have "tc_checks r"
      using tc_insert_Inr[OF ins[unfolded y]] by (auto simp: tc_checks_def split: option.splits)
    then show thesis
      using that(2)[of a1 a2 r "TimeCorrectionSubmitted (tc_id r) (tc_employee r) (tc_l1 r)"]
        assms Inr x ins y tc_insert_Inr[OF ins[unfolded y]]
      by (auto simp: submitCorrection_def)
  qed
qed

lemma assertTarget_owned:
  assumes "assertTarget i db = Inr ()" "cs_target i = Some t"
  shows "\<exists>e \<in> set (te_rows (tc_entries db)). te_id e = t \<and> te_employee e = cs_employee i"
  using assms findEntry_Some by (fastforce simp: assertTarget_def bindR_eq_Inr orNotFound_def split: option.splits if_splits)

lemma submit_effect:
  assumes "submitCorrection env i actor db = (d, res)" "chain_inv (ce_chains env)"
  shows "request_effect db d \<and> tc_entries d = tc_entries db"
proof (cases rule: submitCorrection_cases[OF assms(1)])
  case (1 er)
  then show ?thesis by (auto intro: request_effect.same)
next
  case (2 a1 a2 r ev)
  have c: "l1_approver_id (getActive (ce_chains env) (cs_employee i)) = Some a1"
    "a2 = l2_approver_id (getActive (ce_chains env) (cs_employee i))" "assertTarget i db = Inr ()"
    using submit_checks_Inr[OF 2(1)] by auto
  have "others_decide_tc r"
    using chains.never_self[OF assms(2), of "cs_employee i"] c(1,2) 2(4) by (auto simp: others_decide_tc_def tc_new_def)
  moreover have "target_owned (tc_entries db) r"
    using assertTarget_owned[OF c(3)] 2(4) by (auto simp: target_owned_def tc_new_def split: option.splits)
  ultimately have "request_ok (tc_entries db) r" using 2(3) by (simp add: request_ok_def)
  then show ?thesis using 2(4,5) by (auto intro!: request_effect.insert)
qed

section \<open>Reachable states\<close>

text \<open>A state is the tables next to the approvals in flight: the loaded request with its caller.  The
  timesheet takes part with all the steps of its own module.\<close>

inductive correction_step ::
  "correction_db \<times> (correction \<times> user) list \<Rightarrow> correction_db \<times> (correction \<times> user) list \<Rightarrow> bool" where
  submit: "chain_inv (ce_chains env) \<Longrightarrow>
    correction_step (db, pool) (fst (submitCorrection env i actor db), pool)"
| cancel: "correction_step (db, pool) (fst (cancelCorrection env i caller db), pool)"
| reject: "correction_step (db, pool) (fst (rejectCorrection env i caller why db), pool)"
| edit: "correction_step (db, pool) (fst (updateCorrection env i p caller db), pool)"
| cascade: "correction_step (db, pool) (fst (systemCancel_tc now ids a why db), pool)"
| load: "approve_load env i caller db = Inr r \<Longrightarrow> correction_step (db, pool) (db, (r, caller) # pool)"
| finish: "(r, caller) \<in> set pool \<Longrightarrow>
    correction_step (db, pool) (fst (approve_finish env r caller db), remove1 (r, caller) pool)"
| timesheet: "entry_step (tc_entries db) es \<Longrightarrow> correction_step (db, pool) (db\<lparr>tc_entries := es\<rparr>, pool)"

definition empty_correction_db :: correction_db where
  "empty_correction_db = \<lparr>tc_rows = [], tc_next = 1, tc_events = [], tc_entries = empty_entry_db\<rparr>"

definition correction_state_inv :: "correction_db \<times> (correction \<times> user) list \<Rightarrow> bool" where
  "correction_state_inv x \<longleftrightarrow>
     correction_inv (fst x) \<and> (\<forall>(r, caller) \<in> set (snd x). target_owned (tc_entries (fst x)) r)"

lemma approve_load_Inr:
  assumes "approve_load env i caller db = Inr r"
  shows "findCorrection db i = Some r \<and> status_pending (tc_status r) \<and>
    isActionableBy_tc r (toCorrectionActor caller) \<and>
    (\<not> overrides (toCorrectionActor caller) \<longrightarrow> step_approver_ok_tc (ce_users env) r)"
  using assms
  by (auto simp: approve_load_def loadCorrection_def reconstitute_tc_def bindR_eq_Inr orNotFound_def Let_def
      domainTC_def overrides_def assertApprovable_tc_iff split: option.splits sum.splits if_splits)

lemma entry_effect_step:
  assumes "entry_effect (tc_entries db) (tc_entries d)" "request_effect db d" "correction_state_inv (db, pool)"
    and "set pool' \<subseteq> set pool"
  shows "correction_state_inv (d, pool')"
proof -
  have inv: "correction_inv db" "entry_inv (tc_entries db)"
    using assms(3) by (simp_all add: correction_state_inv_def correction_inv_def)
  have "owners_kept (tc_entries db) (tc_entries d)" by (rule entry_effect_owners[OF assms(1) inv(2)])
  then have "target_owned (tc_entries db) r \<Longrightarrow> target_owned (tc_entries d) r" for r
    by (fastforce simp: target_owned_def owners_kept_def split: option.splits)
  then show ?thesis
    using request_effect_inv[OF assms(2,1) inv(1)] assms(3,4) by (fastforce simp: correction_state_inv_def)
qed

lemma frame_step:
  assumes "request_effect db d \<and> tc_entries d = tc_entries db" "correction_state_inv (db, pool)"
  shows "correction_state_inv (d, pool)"
  by (rule entry_effect_step[OF _ _ assms(2)]) (use assms(1) in auto)

lemma alter_step:
  assumes "alters b db d \<and> tc_entries d = tc_entries db" "correction_state_inv (db, pool)"
  shows "correction_state_inv (d, pool)"
  by (rule frame_step[OF _ assms(2)]) (use assms(1) alters_effect in blast)

lemma correction_step_inv:
  assumes "correction_step x y" "correction_state_inv x"
  shows "correction_state_inv y"
  using assms
proof (induction rule: correction_step.induct)
  case (submit env db pool i actor)
  show ?case by (rule frame_step[OF submit_effect[OF prod.collapse[symmetric] submit(1)] submit(2)])
next
  case (cancel db pool env i caller)
  then have "correction_inv db" by (simp add: correction_state_inv_def)
  then show ?case by (rule alter_step[OF cancel_alters[OF _ prod.collapse[symmetric]] cancel])
next
  case (reject db pool env i caller why)
  then have "correction_inv db" by (simp add: correction_state_inv_def)
  then show ?case by (rule alter_step[OF reject_alters[OF _ prod.collapse[symmetric]] reject])
next
  case (edit db pool env i p caller)
  then have "correction_inv db" by (simp add: correction_state_inv_def)
  then show ?case by (rule alter_step[OF edit_alters[OF _ prod.collapse[symmetric]] edit])
next
  case (cascade db pool now ids a why)
  then have "correction_inv db" by (simp add: correction_state_inv_def)
  then show ?case by (rule alter_step[OF cascade_alters cascade])
next
  case (load env i caller db r pool)
  have "r \<in> set (tc_rows db)" using approve_load_Inr[OF load(1)] findCorrection_Some by blast
  then have "target_owned (tc_entries db) r"
    using load(2) by (auto simp: correction_state_inv_def correction_inv_def request_ok_def)
  then show ?case using load(2) by (auto simp: correction_state_inv_def)
next
  case (finish r caller pool db env)
  then have "correction_inv db" by (simp add: correction_state_inv_def)
  from finish_effect[OF this prod.collapse[symmetric], where b = False and env = env and r = r and caller = caller]
  have f: "alters False db (fst (approve_finish env r caller db))"
    "entry_effect (tc_entries db) (tc_entries (fst (approve_finish env r caller db)))"
    using correction_effect[OF prod.collapse[symmetric], of "tc_entries db" "correction_of r (usr_id caller)"]
      effect_refl[of "tc_entries db"] by (simp, metis)
  show ?case
    by (rule entry_effect_step[OF f(2) alters_effect[OF f(1)] finish(2)]) (rule set_remove1_subset)
next
  case (timesheet db es pool)
  show ?case
    by (rule entry_effect_step[OF _ _ timesheet(2)])
      (use entry_step_effect[OF timesheet(1)] in \<open>auto intro: request_effect.same\<close>)
qed

lemma correction_reachable_inv:
  assumes "correction_step\<^sup>*\<^sup>* (empty_correction_db, []) x"
  shows "correction_state_inv x"
  using assms
proof (induction rule: rtranclp_induct)
  case base
  show ?case
    by (simp add: correction_state_inv_def correction_inv_def empty_correction_db_def entry_inv_def empty_entry_db_def)
next
  case (step y z)
  then show ?case using correction_step_inv by blast
qed

section \<open>Whose timesheet an approval may change\<close>

lemma filter_replace_other:
  assumes "\<And>q. q \<in> set rows \<Longrightarrow> te_id q = te_id s \<Longrightarrow> te_employee q \<noteq> e" "te_employee s \<noteq> e"
  shows "filter (\<lambda>q. te_employee q = e) (map (\<lambda>q. if te_id q = te_id s then s else q) rows) =
    filter (\<lambda>q. te_employee q = e) rows"
  using assms by (induction rows) auto

lemma applyCorrection_others:
  assumes "entry_inv db" "applyCorrection i db = (d, res)" "e \<noteq> co_employee i"
    and "case co_target i of None \<Rightarrow> True | Some t \<Rightarrow> \<exists>x \<in> set (te_rows db). te_id x = t \<and> te_employee x = co_employee i"
  shows "filter (\<lambda>q. te_employee q = e) (te_rows d) = filter (\<lambda>q. te_employee q = e) (te_rows db)"
proof (cases res)
  case (Inl er)
  then show ?thesis using assms(2) applyCorrection_Inl by blast
next
  case (Inr s)
  show ?thesis
  proof (cases "co_target i")
    case None
    obtain d' where "te_insert (new_log i) db = Inr (d', s)" "te_rows d = te_rows d'"
      using applyCorrection_new assms(2) Inr None by blast
    then have "te_rows d = te_rows db @ [s]" "te_employee s = co_employee i"
      by (auto simp: te_insert_Inr new_log_def te_new_def)
    then show ?thesis using assms(3) by simp
  next
    case (Some t)
    obtain r p d' where d': "findEntry db t = Some r" "s = corrected_row i r" "te_update t p db = Inr (d', s)"
      "te_rows d = te_rows d'"
      using applyCorrection_target assms(2) Inr Some by blast
    obtain x where x: "x \<in> set (te_rows db)" "te_id x = t" "te_employee x = co_employee i"
      using assms(4) Some by auto
    have "te_id s = t" using d'(1,2) findEntry_Some by (auto simp: corrected_row_def)
    have own: "te_employee q = co_employee i" if "q \<in> set (te_rows db)" "te_id q = t" for q
      using entry_inv_ids[OF assms(1) that(1) x(1)] that(2) x(2,3) by simp
    have "te_employee s = co_employee i"
      using own[of r] d'(1,2) findEntry_Some by (auto simp: corrected_row_def)
    moreover have "te_employee q \<noteq> e" if "q \<in> set (te_rows db)" "te_id q = te_id s" for q
      using own[OF that(1)] that(2) \<open>te_id s = t\<close> assms(3) by simp
    ultimately show ?thesis
      unfolding d'(4) te_rows_frame_save[OF d'(3)]
      using filter_replace_other[of "te_rows db" s e] assms(3) by auto
  qed
qed

text \<open>C9: An approval changes nobody's timesheet but the requester's.  In every reachable state, with any
  other calls in between the load and the write of an approval, the entries of every other employee
  are the same before and after.\<close>

theorem approval_writes_only_requesters_timesheet:
  assumes "correction_step\<^sup>*\<^sup>* (empty_correction_db, []) (db, pool)" "(r, caller) \<in> set pool"
    and "e \<noteq> tc_employee r"
  shows "filter (\<lambda>q. te_employee q = e) (te_rows (tc_entries (fst (approve_finish env r caller db)))) =
    filter (\<lambda>q. te_employee q = e) (te_rows (tc_entries db))"
proof -
  have inv: "correction_inv db" "target_owned (tc_entries db) r"
    using correction_reachable_inv[OF assms(1)] assms(2) by (auto simp: correction_state_inv_def)
  then have es: "entry_inv (tc_entries db)" by (simp add: correction_inv_def)
  have "filter (\<lambda>q. te_employee q = e) (te_rows (fst (applyCorrection (correction_of r (usr_id caller)) (tc_entries db)))) =
      filter (\<lambda>q. te_employee q = e) (te_rows (tc_entries db))"
    by (rule applyCorrection_others[OF es prod.collapse[symmetric]])
      (use assms(3) inv(2) in \<open>auto simp: correction_of_def target_owned_def split: option.splits\<close>)
  moreover have "tc_entries (fst (approve_finish env r caller db)) = tc_entries db \<or>
    tc_entries (fst (approve_finish env r caller db)) =
      fst (applyCorrection (correction_of r (usr_id caller)) (tc_entries db))"
    using finish_effect[OF inv(1) prod.collapse[symmetric], where b = False and env = env and r = r and caller = caller] by simp
  ultimately show ?thesis by auto
qed

text \<open>Nobody decides their own correction: in every reachable state a requester without the override
  can neither pass the approval's checks nor reject, and both calls change nothing.\<close>

theorem own_correction_not_decidable:
  assumes "correction_step\<^sup>*\<^sup>* (empty_correction_db, []) (db, pool)"
    and "findCorrection db i = Some r" "tc_employee r = usr_id caller" "\<not> overrides (toCorrectionActor caller)"
  shows "\<not> okR (approve_load env i caller db) \<and> fst (approveCorrection env i caller db) = db \<and>
    \<not> okR (snd (rejectCorrection env i caller why db)) \<and> fst (rejectCorrection env i caller why db) = db"
proof -
  have "others_decide_tc r"
    using correction_reachable_inv[OF assms(1)] findCorrection_Some[OF assms(2)]
    by (auto simp: correction_state_inv_def correction_inv_def request_ok_def)
  then have no: "\<not> isActionableBy_tc r (toCorrectionActor caller)"
    using assms(3,4)
    by (auto simp: isActionableBy_tc_def overrides_def others_decide_tc_def toCorrectionActor_def)
  have load: "\<exists>er. approve_load env i caller db = Inl er"
    using approve_load_Inr[of env i caller db] no assms(2) by (cases "approve_load env i caller db") auto
  have rej: "\<exists>er. reject_tc (ce_now env) r (toCorrectionActor caller) why = Inl er"
    using no by (auto simp: reject_tc_def assertPending_tc_def assertCurrentApprover_tc_def guardR_def bindR_def)
  have "loadCorrection db i = Inr q \<Longrightarrow> q = r" for q
    using assms(2) by (auto simp: loadCorrection_def orNotFound_def bindR_eq_Inr reconstitute_tc_def split: sum.splits)
  then have "\<exists>er. rejectCorrection env i caller why db = (db, Inl er)"
    using rej by (cases "loadCorrection db i") (auto simp: rejectCorrection_def domainTC_def)
  then show ?thesis using load by (auto simp: approveCorrection_def)
qed

text \<open>The row a correction returns is live, on the table, and the requester's.\<close>

lemma correction_result:
  assumes "entry_inv es" "applyCorrection i es = (d, Inr s)"
  shows "s \<in> set (te_rows d) \<and> te_live s \<and> te_source s = Correction \<and>
    (te_date s, te_in s, te_out s) = (co_date i, co_in i, co_out i) \<and>
    ((case co_target i of None \<Rightarrow> True | Some t \<Rightarrow> \<exists>x \<in> set (te_rows es). te_id x = t \<and> te_employee x = co_employee i) \<longrightarrow>
     te_employee s = co_employee i)"
proof (cases "co_target i")
  case None
  obtain d' where "te_insert (new_log i) es = Inr (d', s)" "te_rows d = te_rows d'"
    using applyCorrection_new assms(2) None by blast
  then show ?thesis by (auto simp: te_insert_Inr new_log_def te_new_def te_live_def)
next
  case (Some t)
  obtain r p d' where d': "findEntry es t = Some r" "s = corrected_row i r" "te_update t p es = Inr (d', s)"
    "te_rows d = te_rows d'"
    using applyCorrection_target assms(2) Some by blast
  have r: "r \<in> set (te_rows es)" "te_id r = t" "te_live r" using findEntry_Some[OF d'(1)] by auto
  have "te_id s = te_id r" "te_employee s = te_employee r" "te_live s"
    using d'(2) r(3) by (simp_all add: corrected_row_def te_live_def)
  moreover have "s \<in> set (te_rows d)"
    unfolding d'(4) te_rows_frame_save[OF d'(3)] using r(1) \<open>te_id s = te_id r\<close> by (auto simp: image_iff)
  moreover have "te_employee r = co_employee i" if "x \<in> set (te_rows es)" "te_id x = t" "te_employee x = co_employee i" for x
    using entry_inv_ids[OF assms(1) that(1) r(1)] that r(2) by simp
  ultimately show ?thesis using Some d'(2) by (auto simp: corrected_row_def)
qed

section \<open>What an approval leaves behind\<close>

lemma tc_update_decided:
  assumes "findCorrection db i = Some q" "tc_checks (patch q)" "user_row up u"
    and "tc_decided_by (patch q) = Some u" "tc_cancelled_by (patch q) = tc_cancelled_by q"
  shows "tc_update up i patch db = Inr (db\<lparr>tc_rows := update_where (\<lambda>x. tc_id x = i) (\<lambda>_. patch q) (tc_rows db)\<rparr>, patch q)"
  using assms by (simp add: tc_update_def Let_def)

lemma approve_finish_cases:
  assumes "findCorrection db (tc_id r) = Some q" "tc_checks q" "user_row (ce_users env) (usr_id caller)"
    and "approve_finish env r caller db = (d, res)"
    and "applyApproval_tc (ce_now env) r (toCorrectionActor caller) = (r', ev)"
  shows "if tc_status r' = Approved
    then (case applyCorrection (correction_of r (usr_id caller)) (tc_entries db) of
            (es, Inl er) \<Rightarrow> d = db \<and> res = Inl er
          | (es, Inr x) \<Rightarrow> tc_entries d = es \<and> (\<exists>s. res = Inr s \<and> tc_status s = Approved \<and> same_request q s))
    else tc_entries d = tc_entries db \<and> (\<exists>s. res = Inr s \<and> tc_status s = tc_status r' \<and> same_request q s)"
proof -
  let ?patch = "\<lambda>q. q\<lparr>tc_status := tc_status r', tc_decided_at := tc_decided_at r', tc_decided_by := tc_decided_by r',
    tc_decision_path := tc_decision_path r', tc_updated_by := Some (usr_id caller)\<rparr>"
  have dec: "tc_decided_by r' = Some (usr_id caller)" "correction_of r' (usr_id caller) = correction_of r (usr_id caller)"
    using assms(5) by (auto simp: applyApproval_tc_def Let_def correction_of_def toCorrectionActor_def)
  have ok: "tc_checks (?patch q)" using assms(2) by (simp add: tc_checks_def split: option.splits)
  have up: "tc_update (ce_users env) (tc_id r) ?patch (db\<lparr>tc_entries := es\<rparr>) =
      Inr ((db\<lparr>tc_entries := es\<rparr>)\<lparr>tc_rows := update_where (\<lambda>x. tc_id x = tc_id r) (\<lambda>_. ?patch q) (tc_rows db)\<rparr>, ?patch q)"
    for es
    using tc_update_decided[of "db\<lparr>tc_entries := es\<rparr>" "tc_id r" q ?patch "ce_users env" "usr_id caller"]
      assms(1,3) ok dec(1) by (simp add: findCorrection_def)
  have same: "same_request q (?patch q)" by (simp add: same_request_def)
  have noop: "d = db" if "applyCorrection (correction_of r (usr_id caller)) (tc_entries db) = (es, Inl er)"
    "d = db\<lparr>tc_entries := es\<rparr>" for es er
    using applyCorrection_Inl[OF that(1)] that(2) by simp
  show ?thesis
  proof (cases "tc_status r' = Approved")
    case True
    then show ?thesis
      using assms(4,5) dec(2) up same noop
      by (auto simp: approve_finish_def persist_tc_def split: prod.splits sum.splits)
  next
    case False
    then show ?thesis
      using assms(4,5) up[of "tc_entries db"] same by (auto simp: approve_finish_def persist_tc_def)
  qed
qed

text \<open>C12: An approved correction is on the timesheet.  In every reachable state an approval call either
  throws and changes nothing, or closes the request as approved and leaves a live entry of the
  requester with the proposed date and window and source \<open>Correction\<close>, or only advances the request to
  the second level and leaves the timesheet alone.\<close>

theorem approved_correction_is_on_timesheet:
  assumes "correction_step\<^sup>*\<^sup>* (empty_correction_db, []) (db, pool)"
    and "user_row (ce_users env) (usr_id caller)"
    and "findCorrection db i = Some r" "approveCorrection env i caller db = (d, res)"
  shows "case res of
    Inl _ \<Rightarrow> d = db
  | Inr s \<Rightarrow> tc_id s = tc_id r \<and>
     (if tc_status s = Approved
      then \<exists>x \<in> set (te_rows (tc_entries d)). te_live x \<and> te_employee x = tc_employee r \<and> te_source x = Correction \<and>
          (te_date x, te_in x, te_out x) = (tc_date r, tc_in r, tc_out r)
      else tc_status s = Pending_l2 \<and> tc_entries d = tc_entries db)"
proof (cases "approve_load env i caller db")
  case (Inl er)
  then have "res = Inl er" "d = db" using assms(4) by (simp_all add: approveCorrection_def)
  then show ?thesis by simp
next
  case (Inr q)
  have q: "q = r" "tc_id r = i" "status_pending (tc_status r)"
    using approve_load_Inr[OF Inr] assms(3) findCorrection_Some[OF assms(3)] by auto
  have inv: "correction_inv db" using correction_reachable_inv[OF assms(1)] by (simp add: correction_state_inv_def)
  then have ok: "tc_checks r" "target_owned (tc_entries db) r" "entry_inv (tc_entries db)"
    using findCorrection_Some[OF assms(3)] by (auto simp: correction_inv_def request_ok_def)
  obtain r' ev where ap: "applyApproval_tc (ce_now env) r (toCorrectionActor caller) = (r', ev)"
    by (cases "applyApproval_tc (ce_now env) r (toCorrectionActor caller)")
  have st: "tc_status r' \<noteq> Approved \<Longrightarrow> tc_status r' = Pending_l2"
    using ap by (auto simp: applyApproval_tc_def Let_def nextStatusAfterApproval_tc_def split: if_splits)
  have fin: "approve_finish env r caller db = (d, res)" using assms(4) Inr q(1) by (simp add: approveCorrection_def)
  have "findCorrection db (tc_id r) = Some r" using assms(3) q(2) by simp
  note c = approve_finish_cases[OF this ok(1) assms(2) fin ap]
  show ?thesis
  proof (cases "tc_status r' = Approved")
    case False
    then show ?thesis using c st by (auto simp: same_request_def)
  next
    case True
    obtain es x where app: "applyCorrection (correction_of r (usr_id caller)) (tc_entries db) = (es, x)" by fastforce
    show ?thesis
    proof (cases x)
      case (Inl er)
      then show ?thesis using c True app by simp
    next
      case (Inr e)
      obtain s where s: "res = Inr s" "tc_status s = Approved" "same_request r s" "tc_entries d = es"
        using c True app Inr by auto
      have "e \<in> set (te_rows es) \<and> te_live e \<and> te_employee e = tc_employee r \<and> te_source e = Correction \<and>
          (te_date e, te_in e, te_out e) = (tc_date r, tc_in r, tc_out r)"
        using correction_result[OF ok(3) app[unfolded Inr]] ok(2)
        by (auto simp: correction_of_def target_owned_def split: option.splits)
      then show ?thesis using s by (auto simp: same_request_def)
    qed
  qed
qed

section \<open>Calls one at a time\<close>

inductive correction_call :: "correction_db \<Rightarrow> correction_db \<Rightarrow> bool" where
  submit: "chain_inv (ce_chains env) \<Longrightarrow> correction_call db (fst (submitCorrection env i actor db))"
| cancel: "correction_call db (fst (cancelCorrection env i caller db))"
| reject: "correction_call db (fst (rejectCorrection env i caller why db))"
| edit: "correction_call db (fst (updateCorrection env i p caller db))"
| cascade: "correction_call db (fst (systemCancel_tc now ids a why db))"
| approve: "correction_call db (fst (approveCorrection env i caller db))"
| timesheet: "entry_step (tc_entries db) es \<Longrightarrow> correction_call db (db\<lparr>tc_entries := es\<rparr>)"

lemma correction_call_steps:
  "correction_call db d \<Longrightarrow> correction_step\<^sup>*\<^sup>* (db, []) (d, [])"
proof (induction rule: correction_call.induct)
  case (approve db env i caller)
  show ?case
  proof (cases "approve_load env i caller db")
    case (Inl er)
    then show ?thesis by (simp add: approveCorrection_def)
  next
    case (Inr r)
    have "correction_step (db, []) (db, [(r, caller)])" using correction_step.load[OF Inr] by simp
    moreover have "correction_step (db, [(r, caller)]) (fst (approve_finish env r caller db), [])"
      using correction_step.finish[of r caller "[(r, caller)]" db env] by simp
    ultimately show ?thesis using Inr by (simp add: approveCorrection_def)
  qed
qed (auto intro: correction_step.intros)

lemma correction_calls_steps:
  "correction_call\<^sup>*\<^sup>* db d \<Longrightarrow> correction_step\<^sup>*\<^sup>* (db, []) (d, [])"
  by (induction rule: rtranclp_induct) (auto dest: correction_call_steps)

lemma correction_calls_inv:
  "correction_call\<^sup>*\<^sup>* empty_correction_db db \<Longrightarrow> correction_inv db"
  using correction_reachable_inv[OF correction_calls_steps] by (fastforce simp: correction_state_inv_def)

definition one_per_entry :: "correction list \<Rightarrow> bool" where
  "one_per_entry rows \<longleftrightarrow>
     (\<forall>r \<in> set rows. \<forall>s \<in> set rows. tc_active r \<longrightarrow> tc_active s \<longrightarrow>
        tc_target r \<noteq> None \<longrightarrow> tc_target r = tc_target s \<longrightarrow> r = s)"

lemma alters_one_per_entry:
  assumes "alters True db d" "correction_inv db" "one_per_entry (tc_rows db)"
  shows "one_per_entry (tc_rows d)"
  unfolding one_per_entry_def
proof (intro ballI impI)
  fix r s
  obtain p f where pf: "tc_rows d = update_where p f (tc_rows db)"
    "\<forall>r \<in> set (tc_rows db). p r \<longrightarrow> same_request r (f r) \<and> tc_checks (f r) \<and> tc_active r"
    using assms(1) by (auto simp: alters_def)
  have orig: "\<exists>q \<in> set (tc_rows db). x = (if p q then f q else q) \<and> same_request q x \<and> tc_active q"
    if x: "x \<in> set (tc_rows d)" "tc_active x" for x
  proof -
    obtain q where "q \<in> set (tc_rows db)" "x = (if p q then f q else q)"
      using x(1) unfolding pf(1) in_set_update_where by blast
    then show ?thesis using pf(2) x(2) by (cases "p q") (auto simp: same_request_def)
  qed
  assume a: "r \<in> set (tc_rows d)" "s \<in> set (tc_rows d)" "tc_active r" "tc_active s" "tc_target r \<noteq> None"
    "tc_target r = tc_target s"
  obtain q where q: "q \<in> set (tc_rows db)" "r = (if p q then f q else q)" "same_request q r" "tc_active q"
    using orig[OF a(1,3)] by blast
  obtain t where t: "t \<in> set (tc_rows db)" "s = (if p t then f t else t)" "same_request t s" "tc_active t"
    using orig[OF a(2,4)] by blast
  have "q = t"
    using assms(3) q(1,3,4) t(1,3,4) a(5,6) unfolding one_per_entry_def same_request_def by metis
  then show "r = s" using q(2) t(2) by simp
qed

lemma finish_alters:
  assumes "correction_inv db" "approveCorrection env i caller db = (d, res)"
  shows "alters True db d"
proof (cases "approve_load env i caller db")
  case (Inl er)
  then show ?thesis using assms(2) by (auto simp: approveCorrection_def intro: alters_same)
next
  case (Inr r)
  have r: "findCorrection db (tc_id r) = Some r" "status_active (tc_status r)"
    using approve_load_Inr[OF Inr] findCorrection_Some pending_tc_active by auto
  have "approve_finish env r caller db = (d, res)" using assms(2) Inr by (simp add: approveCorrection_def)
  from finish_effect[OF assms(1) this, of True] r show ?thesis by simp
qed

lemma submit_one_per_entry:
  assumes "submitCorrection env i actor db = (d, res)" "one_per_entry (tc_rows db)"
  shows "one_per_entry (tc_rows d)"
proof (cases rule: submitCorrection_cases[OF assms(1)])
  case (1 er)
  then show ?thesis using assms(2) by simp
next
  case (2 a1 a2 r ev)
  have "assertTarget i db = Inr ()" using submit_checks_Inr[OF 2(1)] by simp
  then have "\<forall>t. tc_target r = Some t \<longrightarrow> (\<forall>q \<in> set (tc_rows db). tc_active q \<longrightarrow> tc_target q \<noteq> Some t)"
    using 2(4)
    by (auto simp: assertTarget_def tc_new_def bindR_eq_Inr findActiveForEntry_def filter_empty_conv tc_active_def
        split: option.splits if_splits)
  then show ?thesis using assms(2) 2(5) unfolding one_per_entry_def by fastforce
qed

text \<open>With calls one at a time, an entry never has two active correction requests.\<close>

theorem one_active_correction_per_entry:
  assumes "correction_call\<^sup>*\<^sup>* empty_correction_db db"
    and "r \<in> set (tc_rows db)" "s \<in> set (tc_rows db)" "tc_live r" "tc_live s"
    and "status_active (tc_status r)" "status_active (tc_status s)" "tc_target r = Some t" "tc_target s = Some t"
  shows "r = s"
proof -
  have "one_per_entry (tc_rows db)"
    using assms(1)
  proof (induction rule: rtranclp_induct)
    case base
    show ?case by (simp add: one_per_entry_def empty_correction_db_def)
  next
    case (step x y)
    have inv: "correction_inv x" by (rule correction_calls_inv[OF step(1)])
    show ?case
      using step(2,3)
    proof (cases rule: correction_call.cases)
      case (submit env i actor)
      then show ?thesis using submit_one_per_entry[OF prod.collapse[symmetric] step(3)] by simp
    next
      case (timesheet es)
      then show ?thesis using step(3) by simp
    next
      case (cancel env i caller)
      then show ?thesis using cancel_alters[OF inv prod.collapse[symmetric]] alters_one_per_entry[OF _ inv step(3)] by blast
    next
      case (reject env i caller why)
      then show ?thesis using reject_alters[OF inv prod.collapse[symmetric]] alters_one_per_entry[OF _ inv step(3)] by blast
    next
      case (edit env i p caller)
      then show ?thesis using edit_alters[OF inv prod.collapse[symmetric]] alters_one_per_entry[OF _ inv step(3)] by blast
    next
      case (cascade now ids a why)
      then show ?thesis using cascade_alters[OF inv] alters_one_per_entry[OF _ inv step(3)] by blast
    next
      case (approve env i caller)
      then show ?thesis using finish_alters[OF inv prod.collapse[symmetric]] alters_one_per_entry[OF _ inv step(3)] by blast
    qed
  qed
  then show ?thesis using assms(2-) by (auto simp: one_per_entry_def tc_active_def)
qed

text \<open>A correction that was applied has published an event.\<close>

lemma applyCorrection_events:
  assumes "applyCorrection i es = (d, Inr s)"
  shows "te_events d \<noteq> te_events es"
proof -
  have up: "te_events d' = te_events es" if "te_update t p es = Inr (d', x)" for t p d' x
    using te_update_Inr[OF that] by auto
  have ins: "te_events d' = te_events es" if "te_insert r es = Inr (d', x)" for r d' x
    using that by (simp add: te_insert_Inr)
  show ?thesis
    using assms up ins
    by (auto simp: applyCorrection_def publish_te_def correctEntry_def Let_def
        split: if_splits sum.splits prod.splits option.splits)
qed

section \<open>The two-phase approval\<close>

text \<open>The status is read before the timesheet is written and not again.  When a request is cancelled
  between the load and the write of an approval, the approval still goes through: the request ends
  approved and the timesheet carries the cancelled proposal.\<close>

theorem stale_approval_overrides_cancel:
  assumes "correction_step\<^sup>*\<^sup>* (empty_correction_db, []) (db, pool)"
    and "approve_load env i caller db = Inr r" "tc_l2 r = None"
    and "cancelCorrection env' i owner db = (db1, Inr c)"
    and "user_row (ce_users env) (usr_id caller)"
    and "okR (snd (applyCorrection (correction_of r (usr_id caller)) (tc_entries db)))"
  shows "tc_status c = Cancelled \<and>
    (\<exists>d s. approve_finish env r caller db1 = (d, Inr s) \<and> tc_id s = i \<and> tc_status s = Approved \<and>
       tc_entries d = fst (applyCorrection (correction_of r (usr_id caller)) (tc_entries db)) \<and>
       tc_entries d \<noteq> tc_entries db)"
proof -
  have inv: "correction_inv db" using correction_reachable_inv[OF assms(1)] by (simp add: correction_state_inv_def)
  have r: "findCorrection db i = Some r" "tc_id r = i" "tc_live r"
    using approve_load_Inr[OF assms(2)] findCorrection_Some by auto
  have ld: "loadCorrection db i = Inr q \<Longrightarrow> q = r" for q using r(1) by (simp add: loadCorrection_Inr)
  obtain q ev where q: "persist_tc (ce_users env') i q ev db = (db1, Inr c)" "q r = c" "tc_status (q r) = Cancelled"
    "\<And>x. same_request x (q x)" "tc_deleted_at (q r) = tc_deleted_at r"
  proof -
    obtain x where x: "cancel_tc (ce_now env') r (toCorrectionActor owner) = Inr x"
      using assms(4) ld
      by (cases "cancel_tc (ce_now env') r (toCorrectionActor owner)")
        (auto simp: cancelCorrection_def split: sum.splits)
    obtain r' e where re: "x = (r', e)" by (cases x)
    have "tc_status r' = Cancelled" using x re by (auto simp: cancel_tc_def split: if_splits)
    moreover have "persist_tc (ce_users env') i
        (\<lambda>q. q\<lparr>tc_status := tc_status r', tc_cancelled_at := tc_cancelled_at r',
               tc_cancelled_by := tc_cancelled_by r', tc_updated_by := Some (usr_id owner)\<rparr>) e db = (db1, Inr c)"
      using assms(4) ld x re by (auto simp: cancelCorrection_def split: sum.splits)
    moreover from this r(1) have c: "c = r\<lparr>tc_status := tc_status r', tc_cancelled_at := tc_cancelled_at r',
               tc_cancelled_by := tc_cancelled_by r', tc_updated_by := Some (usr_id owner)\<rparr>"
      by (auto simp: persist_tc_def tc_update_def Let_def split: if_splits)
    ultimately show thesis
      by (intro that[of "\<lambda>q. q\<lparr>tc_status := tc_status r', tc_cancelled_at := tc_cancelled_at r',
               tc_cancelled_by := tc_cancelled_by r', tc_updated_by := Some (usr_id owner)\<rparr>" e])
        (simp_all add: same_request_def c)
  qed
  obtain d' where d': "tc_update (ce_users env') i q db = Inr (d', c)" "tc_rows db1 = tc_rows d'"
    "tc_entries db1 = tc_entries d'"
    using q(1) by (auto simp: persist_tc_def split: sum.splits prod.splits)
  have c: "tc_checks c" "tc_rows db1 = update_where (\<lambda>q. tc_id q = i) (\<lambda>_. c) (tc_rows db)" "tc_entries db1 = tc_entries db"
    using tc_update_Inr[OF d'(1)] d'(2,3) by auto
  have "tc_id c = i" "tc_live c" using q(2) q(4)[of r] q(5) r(2,3) by (auto simp: same_request_def tc_live_def)
  have f1: "findCorrection db1 i = Some c"
    unfolding findCorrection_def c(2)
    by (rule find_unique)
      (use \<open>tc_id c = i\<close> \<open>tc_live c\<close> r findCorrection_Some[OF r(1)] in
        \<open>auto simp: in_set_update_where intro!: bexI[of _ r] split: if_splits\<close>)
  obtain r' e where ap: "applyApproval_tc (ce_now env) r (toCorrectionActor caller) = (r', e)"
    by (cases "applyApproval_tc (ce_now env) r (toCorrectionActor caller)")
  have "tc_status r' = Approved"
    using ap assms(3) by (auto simp: applyApproval_tc_def Let_def nextStatusAfterApproval_tc_def)
  moreover obtain d res where fin: "approve_finish env r caller db1 = (d, res)" by fastforce
  obtain es x where app: "applyCorrection (correction_of r (usr_id caller)) (tc_entries db) = (es, Inr x)"
    using assms(6) by (cases "applyCorrection (correction_of r (usr_id caller)) (tc_entries db)"; case_tac b) auto
  have "findCorrection db1 (tc_id r) = Some c" using f1 r(2) by simp
  from approve_finish_cases[OF this c(1) assms(5) fin ap]
  have "tc_entries d = es \<and> (\<exists>s. res = Inr s \<and> tc_status s = Approved \<and> same_request c s)"
    using \<open>tc_status r' = Approved\<close> app c(3) by simp
  moreover have "es \<noteq> tc_entries db"
    using applyCorrection_events[OF app] by auto
  ultimately show ?thesis
    using fin q(2,3) \<open>tc_id c = i\<close> app by (auto simp: same_request_def)
qed

section \<open>The HR edit\<close>

text \<open>The HR edit of a pending new log is not held to the rules of the submit: whatever the date and
  the existing entries and requests, moving it to a future date and clearing its end succeeds, while
  the same new log is refused on submit.\<close>

theorem hr_edit_escapes_new_log_rules:
  assumes "findCorrection db i = Some r" "status_pending (tc_status r)" "tc_target r = None"
  shows "(\<exists>d s. updateCorrection env i \<lparr>cp_date = Some day, cp_in = None, cp_out = Null, cp_reason = None\<rparr> caller db = (d, Inr s) \<and>
      tc_id s = tc_id r \<and> tc_target s = None \<and> tc_date s = day \<and> tc_out s = None) \<and>
    (\<forall>env' j actor. cs_target j = None \<and> (cs_out j = None \<or> ce_today env' < cs_date j) \<longrightarrow>
       \<not> okR (snd (submitCorrection env' j actor db)))"
proof
  let ?p = "\<lparr>cp_date = Some day, cp_in = None, cp_out = Null, cp_reason = None\<rparr>"
  have "domainTC (assertProposedWindow (tc_in r) None) = Inr ()"
    by (simp add: assertProposedWindow_def proposedPunch_def bindR_def)
  then show "\<exists>d s. updateCorrection env i ?p caller db = (d, Inr s) \<and>
      tc_id s = tc_id r \<and> tc_target s = None \<and> tc_date s = day \<and> tc_out s = None"
    using assms
    by (simp add: updateCorrection_def orNotFound_def tc_update_def apply_correction_patch_def tc_checks_def Let_def)
  show "\<forall>env' j actor. cs_target j = None \<and> (cs_out j = None \<or> ce_today env' < cs_date j) \<longrightarrow>
       \<not> okR (snd (submitCorrection env' j actor db))"
  proof (intro allI impI notI)
    fix env' j actor
    assume a: "cs_target j = None \<and> (cs_out j = None \<or> ce_today env' < cs_date j)"
      "okR (snd (submitCorrection env' j actor db))"
    obtain a1 a2 where "submit_checks env' j db = Inr (a1, a2)"
      using a(2) by (cases "submit_checks env' j db") (auto simp: submitCorrection_def)
    then have "assertNewLogContract (cs_target j) (cs_out j) (cs_date j) (ce_today env') = Inr ()"
      using submit_checks_Inr by blast
    then show False using a(1) by (auto simp: assertNewLogContract_def split: if_splits)
  qed
qed

section \<open>Progress\<close>

text \<open>No pending correction is stuck: in every reachable state a system administrator's rejection with a
  note that is not blank closes it, whoever its approvers are and whatever its target has become.\<close>

theorem pending_correction_can_be_closed:
  assumes "correction_step\<^sup>*\<^sup>* (empty_correction_db, []) (db, pool)"
    and "findCorrection db i = Some r" "status_pending (tc_status r)"
    and "usr_system_admin admin" "user_row (ce_users env) (usr_id admin)" "trim why \<noteq> []"
  shows "\<exists>d s. rejectCorrection env i admin why db = (d, Inr s) \<and> tc_id s = i \<and> tc_status s = Rejected \<and>
    findCorrection d i = Some s \<and> tc_entries d = tc_entries db"
proof -
  have inv: "correction_inv db" using correction_reachable_inv[OF assms(1)] by (simp add: correction_state_inv_def)
  have r: "r \<in> set (tc_rows db)" "tc_id r = i" "tc_live r" using findCorrection_Some[OF assms(2)] by auto
  have ok: "tc_checks r" using inv r(1) by (auto simp: correction_inv_def request_ok_def)
  then have ld: "loadCorrection db i = Inr r" using assms(2) by (simp add: loadCorrection_Inr)
  have why: "why \<noteq> []" "length (trim why) \<noteq> 0" using assms(6) by (auto simp: trim_def)
  have act: "isActionableBy_tc r (toCorrectionActor admin)"
    using assms(4) by (simp add: isActionableBy_tc_def toCorrectionActor_def)
  define s where "s = r\<lparr>tc_status := Rejected, tc_decided_at := Some (ce_now env), tc_decided_by := Some (usr_id admin),
    tc_decision_note := Some why, tc_decision_path := Some (path_tc (toCorrectionActor admin)),
    tc_updated_by := Some (usr_id admin)\<rparr>"
  define d0 where "d0 = db\<lparr>tc_rows := update_where (\<lambda>x. tc_id x = i) (\<lambda>_. s) (tc_rows db)\<rparr>"
  have chk: "tc_checks s" using ok by (simp add: tc_checks_def s_def split: option.splits)
  let ?patch = "\<lambda>q. q\<lparr>tc_status := Rejected, tc_decided_at := Some (ce_now env), tc_decided_by := Some (usr_id admin),
    tc_decision_note := Some why, tc_decision_path := Some (path_tc (toCorrectionActor admin)),
    tc_updated_by := Some (usr_id admin)\<rparr>"
  have "tc_update (ce_users env) i ?patch db = Inr (d0, s)"
    using tc_update_decided[OF assms(2), of ?patch "ce_users env" "usr_id admin"] chk assms(5)
    by (simp add: s_def d0_def)
  moreover have "act_user_id (toCorrectionActor admin) = usr_id admin" by (simp add: toCorrectionActor_def)
  ultimately obtain ev where rej: "rejectCorrection env i admin why db = (d0\<lparr>tc_events := tc_events d0 @ [ev]\<rparr>, Inr s)"
    using ld why act assms(3)
    by (simp add: rejectCorrection_def reject_tc_def assertPending_tc_def assertCurrentApprover_tc_def guardR_def
        bindR_def persist_tc_def)
  have "find (\<lambda>x. tc_id x = i \<and> tc_live x) (tc_rows d0) = Some s"
    by (rule find_unique)
      (use r in \<open>auto simp: d0_def s_def tc_live_def in_set_update_where intro!: bexI[of _ r] split: if_splits\<close>)
  then show ?thesis using rej r(2) by (simp add: findCorrection_def s_def d0_def)
qed

section \<open>A sample run\<close>

text \<open>Employee 5, whose approver is user 2, clocks in and asks for a correction of that entry.\<close>

definition sample_tc_env :: correction_env where
  "sample_tc_env = \<lparr>ce_users = sample_users, ce_chains = sample_chains, ce_today = Date 1970 1 2, ce_now = 20000\<rparr>"

definition sample_tc_submit :: "int option \<Rightarrow> correction_submit" where
  "sample_tc_submit t = \<lparr>cs_employee = 5, cs_target = t, cs_date = Date 1970 1 1, cs_in = 2000, cs_out = Some 9000,
     cs_reason = ''late''\<rparr>"

definition sample_tc0 :: correction_db where
  "sample_tc0 = empty_correction_db\<lparr>tc_entries := fst (punch 1000 1000 5 empty_entry_db)\<rparr>"

definition sample_tc1 :: correction_db where
  "sample_tc1 = fst (submitCorrection sample_tc_env (sample_tc_submit (Some 1)) 5 sample_tc0)"

definition sample_tc_approver :: "int \<Rightarrow> user" where
  "sample_tc_approver i = (sample_user i)\<lparr>usr_role := sample_role\<lparr>role_permissions :=
     [\<lparr>perm_id = 1, perm_code = ''TIME_CORRECTION:Approve'', perm_resource = ''TIME_CORRECTION'',
       perm_action = ''Approve''\<rparr>]\<rparr>\<rparr>"

lemma sample_tc_call: "correction_call\<^sup>*\<^sup>* empty_correction_db sample_tc1"
proof -
  have "chain_inv (ce_chains sample_tc_env)" by (simp add: sample_tc_env_def sample_chain)
  then have "correction_call sample_tc0 sample_tc1" unfolding sample_tc1_def by (rule correction_call.submit)
  moreover have "correction_call empty_correction_db sample_tc0"
    unfolding sample_tc0_def
    by (rule correction_call.timesheet) (simp add: empty_correction_db_def entry_step.punch)
  ultimately show ?thesis by simp
qed

lemma sample_tc_reachable: "correction_step\<^sup>*\<^sup>* (empty_correction_db, []) (sample_tc1, [])"
  by (rule correction_calls_steps[OF sample_tc_call])

lemma sample_tc_load:
  obtains r where "approve_load sample_tc_env 1 (sample_tc_approver 2) sample_tc1 = Inr r"
    "findCorrection sample_tc1 1 = Some r" "tc_employee r = 5" "tc_l2 r = None" "status_pending (tc_status r)"
    "tc_target r = Some 1" "(tc_date r, tc_in r, tc_out r) = (Date 1970 1 1, 2000, Some 9000)"
proof -
  have "isl (approve_load sample_tc_env 1 (sample_tc_approver 2) sample_tc1) = False" by code_simp
  then obtain r where r: "approve_load sample_tc_env 1 (sample_tc_approver 2) sample_tc1 = Inr r"
    by (cases "approve_load sample_tc_env 1 (sample_tc_approver 2) sample_tc1") auto
  then have f: "findCorrection sample_tc1 1 = Some r" "status_pending (tc_status r)"
    using approve_load_Inr by blast+
  have "map_option (\<lambda>r. (tc_employee r, tc_l2 r, tc_target r, tc_date r, tc_in r, tc_out r)) (findCorrection sample_tc1 1) =
      Some (5, None, Some 1, Date 1970 1 1, 2000, Some 9000)" by code_simp
  then show thesis using that[OF r f(1)] f by simp
qed

theorem approval_writes_only_requesters_timesheet_witness:
  "filter (\<lambda>q. te_employee q = 6) (te_rows (tc_entries (fst (approve_finish sample_tc_env
     (projr (approve_load sample_tc_env 1 (sample_tc_approver 2) sample_tc1)) (sample_tc_approver 2) sample_tc1)))) =
   filter (\<lambda>q. te_employee q = 6) (te_rows (tc_entries sample_tc1))"
proof -
  obtain r where r: "approve_load sample_tc_env 1 (sample_tc_approver 2) sample_tc1 = Inr r" "tc_employee r = 5"
    using sample_tc_load by metis
  have "correction_step\<^sup>*\<^sup>* (empty_correction_db, []) (sample_tc1, [(r, sample_tc_approver 2)])"
    by (rule rtranclp.rtrancl_into_rtrancl[OF sample_tc_reachable correction_step.load[OF r(1)]])
  from approval_writes_only_requesters_timesheet[OF this, of r "sample_tc_approver 2" 6 sample_tc_env] r
  show ?thesis by simp
qed

theorem own_correction_not_decidable_witness:
  "fst (approveCorrection sample_tc_env 1 (sample_tc_approver 5) sample_tc1) = sample_tc1"
proof -
  obtain r where r: "findCorrection sample_tc1 1 = Some r" "tc_employee r = 5"
    using sample_tc_load by metis
  have "tc_employee r = usr_id (sample_tc_approver 5)" "\<not> overrides (toCorrectionActor (sample_tc_approver 5))"
    using r(2) by (simp_all add: sample_tc_approver_def sample_user_def overrides_def toCorrectionActor_def
        hasPermission_def permission_codes_def)
  then show ?thesis using own_correction_not_decidable[OF sample_tc_reachable r(1)] by blast
qed

theorem approved_correction_is_on_timesheet_witness:
  "list_ex (\<lambda>x. te_employee x = 5 \<and> te_in x = 2000 \<and> te_out x = Some 9000)
     (te_rows (tc_entries (fst (approveCorrection sample_tc_env 1 (sample_tc_approver 2) sample_tc1))))"
proof -
  obtain r where r: "findCorrection sample_tc1 1 = Some r" "tc_employee r = 5"
    "(tc_date r, tc_in r, tc_out r) = (Date 1970 1 1, 2000, Some 9000)"
    using sample_tc_load by metis
  let ?a = "approveCorrection sample_tc_env 1 (sample_tc_approver 2) sample_tc1"
  have "map_sum (\<lambda>_. ()) tc_status (snd ?a) = Inr Approved" by code_simp
  then obtain s where s: "snd ?a = Inr s" "tc_status s = Approved" by (cases "snd ?a") auto
  have "user_row (ce_users sample_tc_env) (usr_id (sample_tc_approver 2))" by code_simp
  from approved_correction_is_on_timesheet[OF sample_tc_reachable this r(1) prod.collapse[symmetric]] s r(2,3)
  show ?thesis by (auto simp: list_ex_iff)
qed

theorem one_active_correction_per_entry_witness:
  "\<exists>r. filter (\<lambda>s. tc_live s \<and> status_active (tc_status s) \<and> tc_target s = Some 1 \<and> s \<noteq> r) (tc_rows sample_tc1) = []"
proof -
  obtain r where r: "findCorrection sample_tc1 1 = Some r" "status_pending (tc_status r)" "tc_target r = Some 1"
    using sample_tc_load by metis
  then have "r \<in> set (tc_rows sample_tc1)" "tc_live r" "status_active (tc_status r)"
    using findCorrection_Some pending_tc_active by auto
  then show ?thesis
    using one_active_correction_per_entry[OF sample_tc_call, of _ r 1] r(3) unfolding filter_empty_conv by metis
qed

theorem stale_approval_overrides_cancel_witness:
  "\<exists>r. approve_load sample_tc_env 1 (sample_tc_approver 2) sample_tc1 = Inr r \<and>
     (\<exists>d s. approve_finish sample_tc_env r (sample_tc_approver 2)
        (fst (cancelCorrection sample_tc_env 1 (sample_user 5) sample_tc1)) = (d, Inr s) \<and> tc_status s = Approved)"
proof -
  obtain r where r: "approve_load sample_tc_env 1 (sample_tc_approver 2) sample_tc1 = Inr r" "tc_l2 r = None"
    "tc_employee r = 5" "tc_target r = Some 1" "(tc_date r, tc_in r, tc_out r) = (Date 1970 1 1, 2000, Some 9000)"
    using sample_tc_load by metis
  have "isl (snd (cancelCorrection sample_tc_env 1 (sample_user 5) sample_tc1)) = False" by code_simp
  then obtain c where c: "cancelCorrection sample_tc_env 1 (sample_user 5) sample_tc1 =
      (fst (cancelCorrection sample_tc_env 1 (sample_user 5) sample_tc1), Inr c)"
    by (cases "snd (cancelCorrection sample_tc_env 1 (sample_user 5) sample_tc1)") (auto simp: prod_eq_iff)
  have "user_row (ce_users sample_tc_env) (usr_id (sample_tc_approver 2))" by code_simp
  moreover have "correction_of r (usr_id (sample_tc_approver 2)) =
      \<lparr>co_employee = 5, co_target = Some 1, co_date = Date 1970 1 1, co_in = 2000, co_out = Some 9000,
       co_decided_by = Some 2\<rparr>"
    using r by (simp add: correction_of_def sample_tc_approver_def sample_user_def)
  moreover have "okR (snd (applyCorrection \<lparr>co_employee = 5, co_target = Some 1, co_date = Date 1970 1 1, co_in = 2000,
      co_out = Some 9000, co_decided_by = Some 2\<rparr> (tc_entries sample_tc1)))" by code_simp
  ultimately show ?thesis
    using stale_approval_overrides_cancel[OF sample_tc_reachable r(1,2) c] r(1) by auto
qed

definition sample_new_log :: correction_db where
  "sample_new_log = fst (submitCorrection sample_tc_env (sample_tc_submit None) 5 empty_correction_db)"

theorem hr_edit_escapes_new_log_rules_witness:
  "\<exists>d s. updateCorrection sample_tc_env 1 \<lparr>cp_date = Some (Date 2099 1 1), cp_in = None, cp_out = Null, cp_reason = None\<rparr>
      (sample_user 9) sample_new_log = (d, Inr s) \<and> tc_date s = Date 2099 1 1 \<and> tc_out s = None"
proof -
  have "map_option (\<lambda>r. (tc_status r, tc_target r)) (findCorrection sample_new_log 1) = Some (Pending_l1, None)"
    by code_simp
  then obtain r where r: "findCorrection sample_new_log 1 = Some r" "tc_status r = Pending_l1" "tc_target r = None" by auto
  then have "status_pending (tc_status r)" by (simp add: status_pending_def)
  from hr_edit_escapes_new_log_rules[OF r(1) this r(3), where env = sample_tc_env and day = "Date 2099 1 1" and
      caller = "sample_user 9"]
  show ?thesis by auto
qed

theorem pending_correction_can_be_closed_witness:
  "\<exists>d s. rejectCorrection sample_tc_env 1 ((sample_user 9)\<lparr>usr_system_admin := True\<rparr>) ''no'' sample_tc1 = (d, Inr s) \<and>
     tc_status s = Rejected"
proof -
  obtain r where r: "findCorrection sample_tc1 1 = Some r" "status_pending (tc_status r)"
    using sample_tc_load by metis
  have "user_row (ce_users sample_tc_env) (usr_id ((sample_user 9)\<lparr>usr_system_admin := True\<rparr>))"
    "usr_system_admin ((sample_user 9)\<lparr>usr_system_admin := True\<rparr>)" "trim ''no'' \<noteq> []"
    by code_simp+
  from pending_correction_can_be_closed[OF sample_tc_reachable r this(2,1,3)] show ?thesis by auto
qed

end
