(* ===== verification/ScheduleChange.thy ===== *)
theory ScheduleChange
  imports LeaveLifecycle CorrectionOutcomes
begin

text \<open>
  The schedule-change cascade (\<open>src/src/work-schedules/schedule-change.service.ts\<close> and
  \<open>domain/cascade-policy.ts\<close>): the policy, the impact of a change, the transaction that versions the
  schedule and cancels the requests it invalidates.  The state is the schedule table next to the leave
  and the time-correction tables.  The transaction is split where other calls can commit in between:
  \<open>apply_load\<close> reads (validation, impact, drift guard), \<open>apply_finish\<close> writes; \<open>applyChange\<close> is one
  after the other.
\<close>

section \<open>The intent and the impact\<close>

datatype change_mode = Modify | Remove

record change_intent =
  xi_employee :: int
  xi_dow :: int
  xi_from :: date
  xi_mode :: change_mode
  xi_in :: "clock option"
  xi_out :: "clock option"
  xi_break_minutes :: "int option"
  xi_break_start :: "clock option"

datatype versioning_action = Create | End_and_create | Replace | End_only | Delete_only | Noop

datatype affected_kind = Leave_kind | Correction_kind

datatype temporal_class = Past | Present | Future

datatype cascade_decision = Cancel | Keep

record affected =
  af_kind :: affected_kind
  af_id :: int
  af_employee :: int
  af_status :: request_status
  af_dates :: "date list"
  af_triggers :: "date list"
  af_temporal :: temporal_class
  af_decision :: cascade_decision
  af_leave_type :: "leave_type option"
  af_working_days :: "rat option"

record change_impact =
  im_versioning :: versioning_action
  im_live :: "int option"
  im_leaves :: "affected list"
  im_corrections :: "affected list"
  im_freed :: rat

record change_result =
  cr_impact :: change_impact
  cr_created :: "schedule option"

text \<open>The statuses of the wire format, and the row a client echoes back; its status is any string.\<close>

definition status_name :: "request_status \<Rightarrow> string" where
  "status_name s = (case s of Pending_l1 \<Rightarrow> ''pending_l1'' | Pending_l2 \<Rightarrow> ''pending_l2''
     | Approved \<Rightarrow> ''approved'' | Rejected \<Rightarrow> ''rejected'' | Cancelled \<Rightarrow> ''cancelled'')"

record previewed_cancel =
  pc_kind :: affected_kind
  pc_id :: int
  pc_status :: string

section \<open>The policy\<close>

definition planVersioning :: "schedule option \<Rightarrow> change_intent \<Rightarrow> versioning_action" where
  "planVersioning live intent =
     (let unstarted = (case live of None \<Rightarrow> False | Some r \<Rightarrow> xi_from intent \<le> ws_from r)
      in if xi_mode intent = Remove
         then (if live = None then Noop else if unstarted then Delete_only else End_only)
         else (if live = None then Create else if unstarted then Replace else End_and_create))"

text \<open>Both compare the strings as they are: \<open>09:00\<close> is not \<open>09:00:00\<close>.\<close>

definition windowChanged :: "schedule \<Rightarrow> change_intent \<Rightarrow> bool" where
  "windowChanged live intent \<longleftrightarrow>
     xi_mode intent = Remove \<or> xi_in intent \<noteq> Some (ws_in live) \<or> xi_out intent \<noteq> Some (ws_out live)"

definition breakChanged :: "schedule \<Rightarrow> change_intent \<Rightarrow> bool" where
  "breakChanged live intent \<longleftrightarrow>
     xi_mode intent = Remove \<or> xi_break_minutes intent \<noteq> Some (ws_break_minutes live) \<or>
     xi_break_start intent \<noteq> ws_break_start live"

definition governedDates :: "date list \<Rightarrow> change_intent \<Rightarrow> date list" where
  "governedDates ds intent = filter (\<lambda>d. xi_from intent \<le> d \<and> weekdayOf d = xi_dow intent) ds"

text \<open>\<open>reduce\<close> without an initial value throws on the empty array.\<close>

fun reduceR :: "('a \<Rightarrow> 'a \<Rightarrow> 'a) \<Rightarrow> 'a list \<Rightarrow> http_error + 'a" where
  "reduceR f [] = Inl PlainError"
| "reduceR f (x # xs) = Inr (foldl f x xs)"

definition temporalClass :: "date list \<Rightarrow> date \<Rightarrow> http_error + temporal_class" where
  "temporalClass ds today =
     bindR (reduceR (\<lambda>a b. if a < b then a else b) ds) (\<lambda>mn.
     bindR (reduceR (\<lambda>a b. if b < a then a else b) ds) (\<lambda>mx.
       Inr (if mx < today then Past else if today < mn then Future else Present)))"

definition classify :: "temporal_class \<Rightarrow> request_status \<Rightarrow> cascade_decision" where
  "classify t s =
     (if t = Past then Keep else if status_pending s then Cancel
      else if t = Future then Cancel else Keep)"

definition evaluateLeave ::
  "leave \<Rightarrow> schedule option \<Rightarrow> change_intent \<Rightarrow> date \<Rightarrow> http_error + affected option" where
  "evaluateLeave l live intent today =
     (let ds = datesInRange (lr_start l) (lr_end l);
          triggers = governedDates ds intent
      in if triggers = [] then Inr None
         else (let hit = (if xi_mode intent = Remove then True
                          else if lr_portion l \<noteq> Full
                          then (case live of None \<Rightarrow> False
                                | Some r \<Rightarrow> windowChanged r intent \<or> breakChanged r intent)
                          else False)
               in if \<not> hit then Inr None
                  else bindR (temporalClass ds today) (\<lambda>t.
                    Inr (Some \<lparr>af_kind = Leave_kind, af_id = lr_id l, af_employee = lr_employee l,
                      af_status = lr_status l, af_dates = ds, af_triggers = triggers, af_temporal = t,
                      af_decision = classify t (lr_status l), af_leave_type = Some (lr_type l),
                      af_working_days = Some (lr_days l)\<rparr>))))"

definition evaluateCorrection ::
  "correction \<Rightarrow> schedule option \<Rightarrow> change_intent \<Rightarrow> date \<Rightarrow> http_error + affected option" where
  "evaluateCorrection c live intent today =
     (let triggers = governedDates [tc_date c] intent
      in if triggers = [] then Inr None
         else if \<not> (xi_mode intent = Remove \<or>
                     (case live of None \<Rightarrow> False | Some r \<Rightarrow> windowChanged r intent)) then Inr None
         else bindR (temporalClass [tc_date c] today) (\<lambda>t.
           Inr (Some \<lparr>af_kind = Correction_kind, af_id = tc_id c, af_employee = tc_employee c,
             af_status = tc_status c, af_dates = [tc_date c], af_triggers = triggers, af_temporal = t,
             af_decision = classify t (tc_status c), af_leave_type = None, af_working_days = None\<rparr>)))"

section \<open>The service\<close>

record hr_db =
  hr_schedules :: schedule_db
  hr_leaves :: leave_db
  hr_corrections :: correction_db

record change_env =
  xe_users :: user_port
  xe_now :: int
  xe_tz :: int

definition change_today :: "change_env \<Rightarrow> date" where
  "change_today env = businessDateString (xe_tz env) (xe_now env)"

definition validateChange :: "change_env \<Rightarrow> change_intent \<Rightarrow> user \<Rightarrow> http_error + unit" where
  "validateChange env intent caller =
     (if xi_from intent < change_today env then Inl (unprocessable ''effective_from'')
      else bindR
        (if xi_mode intent = Modify
         then (case (xi_in intent, xi_out intent, xi_break_minutes intent) of
                 (Some cin, Some cout, Some minutes) \<Rightarrow>
                   assertSchedule cin cout minutes (xi_break_start intent)
               | _ \<Rightarrow> Inl (unprocessable ''expected_in''))
         else Inr ())
        (\<lambda>_. if xi_mode intent = Remove
             then (if usr_system_admin caller \<or> hasPermission caller ''SCHEDULE:Delete'' then Inr ()
                   else Inl ForbiddenPlain)
             else Inr ()))"

text \<open>The loop over the candidates: evaluate, keep what will be cancelled.\<close>

fun cancel_loop :: "('a \<Rightarrow> http_error + affected option) \<Rightarrow> 'a list \<Rightarrow> http_error + affected list" where
  "cancel_loop f [] = Inr []"
| "cancel_loop f (x # xs) =
     bindR (f x) (\<lambda>a. bindR (cancel_loop f xs) (\<lambda>rest.
       Inr (case a of None \<Rightarrow> rest
            | Some b \<Rightarrow> if af_decision b = Cancel then b # rest else rest)))"

definition freed_days :: "affected list \<Rightarrow> rat" where
  "freed_days as =
     foldl (\<lambda>sum a. sum + (case af_working_days a of None \<Rightarrow> 0 | Some d \<Rightarrow> d)) 0 as"

definition computeImpact :: "change_intent \<Rightarrow> date \<Rightarrow> hr_db \<Rightarrow> http_error + change_impact" where
  "computeImpact intent today db =
     (let live = findActiveForEmployeeDay (hr_schedules db) (xi_employee intent) (xi_dow intent);
          v = planVersioning live intent
      in if v = Noop then Inl NotFoundPlain
         else if live = None
         then Inr \<lparr>im_versioning = v, im_live = None, im_leaves = [], im_corrections = [], im_freed = 0\<rparr>
         else
           bindR (cancel_loop (\<lambda>l. evaluateLeave l live intent today)
               (findActiveCandidates (hr_leaves db) (xi_employee intent) (xi_from intent))) (\<lambda>ls.
           bindR (cancel_loop (\<lambda>c. evaluateCorrection c live intent today)
               (correctionCandidates (hr_corrections db) (xi_employee intent) (xi_from intent))) (\<lambda>cs.
             Inr \<lparr>im_versioning = v, im_live = map_option ws_id live, im_leaves = ls,
               im_corrections = cs, im_freed = freed_days ls\<rparr>)))"

definition previewChange ::
  "change_env \<Rightarrow> change_intent \<Rightarrow> user \<Rightarrow> hr_db \<Rightarrow> http_error + change_impact" where
  "previewChange env intent caller db =
     bindR (validateChange env intent caller) (\<lambda>_. computeImpact intent (change_today env) db)"

text \<open>The key \<open>kind:id:status\<close> is injective (neither a kind nor an id holds a colon), so it is the
  triple itself.\<close>

definition affected_key :: "affected \<Rightarrow> affected_kind \<times> int \<times> string" where
  "affected_key a = (af_kind a, af_id a, status_name (af_status a))"

definition previewed_key :: "previewed_cancel \<Rightarrow> affected_kind \<times> int \<times> string" where
  "previewed_key p = (pc_kind p, pc_id p, pc_status p)"

definition assertNoDrift :: "change_impact \<Rightarrow> previewed_cancel list \<Rightarrow> http_error + unit" where
  "assertNoDrift impact previewed =
     (let now = remdups (map affected_key (im_leaves impact @ im_corrections impact));
          past = remdups (map previewed_key previewed)
      in if length now = length past \<and> list_all (\<lambda>k. k \<in> set past) now then Inr ()
         else Inl ConflictPlain)"

definition new_schedule_row ::
  "change_env \<Rightarrow> change_intent \<Rightarrow> int \<Rightarrow> schedule_db \<Rightarrow> http_error + (schedule_db \<times> schedule)" where
  "new_schedule_row env intent actor db =
     (case (xi_in intent, xi_out intent, xi_break_minutes intent) of
        (Some cin, Some cout, Some minutes) \<Rightarrow>
          bindR (ws_create \<lparr>wi_employee = xi_employee intent, wi_dow = xi_dow intent, wi_in = cin,
                   wi_out = cout, wi_break_minutes = minutes, wi_break_start = xi_break_start intent,
                   wi_from = xi_from intent, wi_to = None, wi_created_by = Some actor\<rparr> db) (\<lambda>(db', r).
            if user_row (xe_users env) (xi_employee intent) then Inr (db', r)
            else Inl ForeignKeyViolation)
      | _ \<Rightarrow> Inl NotNullViolation)"

definition end_live :: "change_intent \<Rightarrow> int \<Rightarrow> schedule \<Rightarrow> schedule_db \<Rightarrow> http_error + schedule_db" where
  "end_live intent actor live db =
     bindR (ws_update (ws_id live) (end_patch (dayBefore (xi_from intent)) (Some actor)) db)
       (\<lambda>(db', _). Inr db')"

text \<open>\<open>live!.id\<close> on a row that is gone is a \<open>TypeError\<close>.\<close>

definition applyVersioning ::
  "change_env \<Rightarrow> change_impact \<Rightarrow> change_intent \<Rightarrow> schedule option \<Rightarrow> int \<Rightarrow> schedule_db \<Rightarrow>
   http_error + (schedule_db \<times> schedule option)" where
  "applyVersioning env impact intent live actor db =
     (let newRow = (\<lambda>d. bindR (new_schedule_row env intent actor d) (\<lambda>(d', r). Inr (d', Some r)))
      in case im_versioning impact of
           Create \<Rightarrow> newRow db
         | End_and_create \<Rightarrow>
             (case live of None \<Rightarrow> Inl PlainError
              | Some r \<Rightarrow> bindR (end_live intent actor r db) newRow)
         | Replace \<Rightarrow>
             (case live of None \<Rightarrow> Inl PlainError
              | Some r \<Rightarrow> newRow (ws_softDelete (xe_now env) (ws_id r) (Some actor) db))
         | End_only \<Rightarrow>
             (case live of None \<Rightarrow> Inl PlainError
              | Some r \<Rightarrow> bindR (end_live intent actor r db) (\<lambda>d. Inr (d, None)))
         | Delete_only \<Rightarrow>
             (case live of None \<Rightarrow> Inl PlainError
              | Some r \<Rightarrow> Inr (ws_softDelete (xe_now env) (ws_id r) (Some actor) db, None))
         | Noop \<Rightarrow> Inr (db, None))"

text \<open>The note on the requests the cascade cancels.\<close>

definition scheduleChangeCancelNote :: "int \<Rightarrow> date \<Rightarrow> string" where
  "scheduleChangeCancelNote dow d =
     ''auto-cancelled: schedule changed (weekday '' @ padded 1 dow @ '', effective '' @ date_text d @ '')''"

definition apply_load ::
  "change_env \<Rightarrow> change_intent \<Rightarrow> user \<Rightarrow> previewed_cancel list \<Rightarrow> hr_db \<Rightarrow> http_error + change_impact" where
  "apply_load env intent caller previewed db =
     bindR (validateChange env intent caller) (\<lambda>_.
     bindR (computeImpact intent (change_today env) db) (\<lambda>impact.
     bindR (assertNoDrift impact previewed) (\<lambda>_. Inr impact)))"

definition cascade_cancel :: "change_env \<Rightarrow> change_intent \<Rightarrow> change_impact \<Rightarrow> int \<Rightarrow> hr_db \<Rightarrow> hr_db" where
  "cascade_cancel env intent impact actor db =
     (let why = scheduleChangeCancelNote (xi_dow intent) (xi_from intent)
      in db\<lparr>hr_leaves := fst (systemCancel (xe_now env) (map af_id (im_leaves impact)) actor why (hr_leaves db)),
            hr_corrections := fst (systemCancel_tc (xe_now env) (map af_id (im_corrections impact)) actor why
              (hr_corrections db))\<rparr>)"

definition apply_finish ::
  "change_env \<Rightarrow> change_intent \<Rightarrow> int \<Rightarrow> change_impact \<Rightarrow> hr_db \<Rightarrow> http_error + (hr_db \<times> change_result)" where
  "apply_finish env intent actor impact db =
     (let live = (case im_live impact of None \<Rightarrow> None
                  | Some _ \<Rightarrow> findActiveForEmployeeDay (hr_schedules db) (xi_employee intent) (xi_dow intent))
      in bindR (applyVersioning env impact intent live actor (hr_schedules db)) (\<lambda>(sdb, created).
           Inr (cascade_cancel env intent impact actor (db\<lparr>hr_schedules := sdb\<rparr>),
                \<lparr>cr_impact = impact, cr_created = created\<rparr>)))"

text \<open>An exception rolls the transaction back.\<close>

definition finish_tx ::
  "change_env \<Rightarrow> change_intent \<Rightarrow> int \<Rightarrow> change_impact \<Rightarrow> hr_db \<Rightarrow> hr_db \<times> (http_error + change_result)" where
  "finish_tx env intent actor impact db =
     (case apply_finish env intent actor impact db of
        Inl er \<Rightarrow> (db, Inl er) | Inr (db', r) \<Rightarrow> (db', Inr r))"

definition applyChange ::
  "change_env \<Rightarrow> change_intent \<Rightarrow> user \<Rightarrow> previewed_cancel list \<Rightarrow> hr_db \<Rightarrow> hr_db \<times> (http_error + change_result)" where
  "applyChange env intent caller previewed db =
     (case apply_load env intent caller previewed db of
        Inl er \<Rightarrow> (db, Inl er)
      | Inr impact \<Rightarrow> finish_tx env intent (usr_id caller) impact db)"

section \<open>The policy never throws\<close>

lemma foldl_least:
  fixes x :: "'a :: linorder"
  shows "foldl (\<lambda>a b. if a < b then a else b) x xs \<in> set (x # xs) \<and>
    (\<forall>y \<in> set (x # xs). foldl (\<lambda>a b. if a < b then a else b) x xs \<le> y)"
proof (induction xs arbitrary: x)
  case (Cons z xs)
  show ?case
  proof (cases "x < z")
    case True
    with Cons.IH[of x] show ?thesis by auto
  next
    case False
    with Cons.IH[of z] show ?thesis by auto
  qed
qed simp

lemma foldl_greatest:
  fixes x :: "'a :: linorder"
  shows "foldl (\<lambda>a b. if b < a then a else b) x xs \<in> set (x # xs) \<and>
    (\<forall>y \<in> set (x # xs). y \<le> foldl (\<lambda>a b. if b < a then a else b) x xs)"
proof (induction xs arbitrary: x)
  case (Cons z xs)
  show ?case
  proof (cases "z < x")
    case True
    with Cons.IH[of x] show ?thesis by auto
  next
    case False
    with Cons.IH[of z] show ?thesis by auto
  qed
qed simp

lemma temporalClass_total: "ds \<noteq> [] \<Longrightarrow> temporalClass ds today = Inr (projr (temporalClass ds today))"
  by (cases ds) (simp_all add: temporalClass_def)

text \<open>The class of a set of dates is decided by its first and its last date.\<close>

lemma temporalClass_range:
  assumes "s \<in> set ds" "e \<in> set ds" "\<And>d. d \<in> set ds \<Longrightarrow> s \<le> d \<and> d \<le> e"
  shows "temporalClass ds today = Inr (if e < today then Past else if today < s then Future else Present)"
proof -
  obtain x xs where ds: "ds = x # xs" using assms(1) by (cases ds) auto
  have "foldl (\<lambda>a b. if a < b then a else b) x xs = s"
    using foldl_least[where x = x and xs = xs] assms unfolding ds by (meson order_antisym list.set_intros)
  moreover have "foldl (\<lambda>a b. if b < a then a else b) x xs = e"
    using foldl_greatest[where x = x and xs = xs] assms unfolding ds by (meson order_antisym)
  ultimately show ?thesis by (simp add: temporalClass_def ds)
qed

section \<open>What a change invalidates\<close>

text \<open>The executable reading of the policy for a live row: which requests are touched, and which of them are
  cancelled.\<close>

definition leave_dates :: "leave \<Rightarrow> date list" where
  "leave_dates l = datesInRange (lr_start l) (lr_end l)"

definition leave_hit :: "schedule \<Rightarrow> change_intent \<Rightarrow> leave \<Rightarrow> bool" where
  "leave_hit r intent l \<longleftrightarrow> governedDates (leave_dates l) intent \<noteq> [] \<and>
     (xi_mode intent = Remove \<or> lr_portion l \<noteq> Full \<and> (windowChanged r intent \<or> breakChanged r intent))"

definition leave_entry :: "change_intent \<Rightarrow> date \<Rightarrow> leave \<Rightarrow> affected" where
  "leave_entry intent today l =
     (let t = projr (temporalClass (leave_dates l) today)
      in \<lparr>af_kind = Leave_kind, af_id = lr_id l, af_employee = lr_employee l, af_status = lr_status l,
          af_dates = leave_dates l, af_triggers = governedDates (leave_dates l) intent, af_temporal = t,
          af_decision = classify t (lr_status l), af_leave_type = Some (lr_type l),
          af_working_days = Some (lr_days l)\<rparr>)"

definition leave_cancelled :: "schedule \<Rightarrow> change_intent \<Rightarrow> date \<Rightarrow> leave \<Rightarrow> bool" where
  "leave_cancelled r intent today l \<longleftrightarrow>
     leave_hit r intent l \<and> af_decision (leave_entry intent today l) = Cancel"

definition correction_hit :: "schedule \<Rightarrow> change_intent \<Rightarrow> correction \<Rightarrow> bool" where
  "correction_hit r intent c \<longleftrightarrow> governedDates [tc_date c] intent \<noteq> [] \<and> windowChanged r intent"

definition correction_entry :: "change_intent \<Rightarrow> date \<Rightarrow> correction \<Rightarrow> affected" where
  "correction_entry intent today c =
     (let t = projr (temporalClass [tc_date c] today)
      in \<lparr>af_kind = Correction_kind, af_id = tc_id c, af_employee = tc_employee c, af_status = tc_status c,
          af_dates = [tc_date c], af_triggers = governedDates [tc_date c] intent, af_temporal = t,
          af_decision = classify t (tc_status c), af_leave_type = None, af_working_days = None\<rparr>)"

definition correction_cancelled :: "schedule \<Rightarrow> change_intent \<Rightarrow> date \<Rightarrow> correction \<Rightarrow> bool" where
  "correction_cancelled r intent today c \<longleftrightarrow>
     correction_hit r intent c \<and> af_decision (correction_entry intent today c) = Cancel"

lemma evaluateLeave_eq:
  "evaluateLeave l (Some r) intent today =
     Inr (if leave_hit r intent l then Some (leave_entry intent today l) else None)"
proof (cases "governedDates (leave_dates l) intent = []")
  case False
  then have "leave_dates l \<noteq> []" by (auto simp: governedDates_def)
  from temporalClass_total[OF this, of today] obtain t where t: "temporalClass (leave_dates l) today = Inr t" ..
  show ?thesis
    using False t by (simp add: evaluateLeave_def leave_hit_def leave_entry_def Let_def flip: leave_dates_def)
qed (simp add: evaluateLeave_def leave_hit_def flip: leave_dates_def)

lemma evaluateCorrection_eq:
  "evaluateCorrection c (Some r) intent today =
     Inr (if correction_hit r intent c then Some (correction_entry intent today c) else None)"
proof -
  obtain t where t: "temporalClass [tc_date c] today = Inr t"
    using temporalClass_total[of "[tc_date c]" today] by auto
  then show ?thesis
    by (auto simp: evaluateCorrection_def correction_hit_def correction_entry_def windowChanged_def Let_def)
qed

lemma cancel_loop_eq:
  assumes "\<And>x. f x = Inr (if p x then Some (h x) else None)"
  shows "cancel_loop f xs = Inr (map h (filter (\<lambda>x. p x \<and> af_decision (h x) = Cancel) xs))"
  by (induction xs) (simp_all add: assms)

lemma freed_days_sum: "freed_days as = sum_list (map (\<lambda>a. case af_working_days a of None \<Rightarrow> 0 | Some d \<Rightarrow> d) as)"
proof -
  have "foldl (\<lambda>sum a. sum + (case af_working_days a of None \<Rightarrow> 0 | Some d \<Rightarrow> d)) x as =
      x + sum_list (map (\<lambda>a. case af_working_days a of None \<Rightarrow> 0 | Some d \<Rightarrow> d) as)" for x :: rat
    by (induction as arbitrary: x) (simp_all add: add.assoc)
  then show ?thesis by (simp add: freed_days_def)
qed

text \<open>The leave requests and corrections a change cancels, over the whole tables.\<close>

definition leave_struck :: "hr_db \<Rightarrow> change_intent \<Rightarrow> date \<Rightarrow> leave \<Rightarrow> bool" where
  "leave_struck db intent today l \<longleftrightarrow>
     lr_employee l = xi_employee intent \<and> lr_active l \<and> xi_from intent \<le> lr_end l \<and>
     (case findActiveForEmployeeDay (hr_schedules db) (xi_employee intent) (xi_dow intent) of
        None \<Rightarrow> False | Some r \<Rightarrow> leave_cancelled r intent today l)"

definition correction_struck :: "hr_db \<Rightarrow> change_intent \<Rightarrow> date \<Rightarrow> correction \<Rightarrow> bool" where
  "correction_struck db intent today c \<longleftrightarrow>
     tc_employee c = xi_employee intent \<and> tc_active c \<and> xi_from intent \<le> tc_date c \<and>
     (case findActiveForEmployeeDay (hr_schedules db) (xi_employee intent) (xi_dow intent) of
        None \<Rightarrow> False | Some r \<Rightarrow> correction_cancelled r intent today c)"

lemma computeImpact_eq:
  "computeImpact intent today db =
    (let live = findActiveForEmployeeDay (hr_schedules db) (xi_employee intent) (xi_dow intent);
         ls = filter (leave_struck db intent today) (ld_requests (hr_leaves db));
         cs = filter (correction_struck db intent today) (tc_rows (hr_corrections db))
     in if live = None \<and> xi_mode intent = Remove then Inl NotFoundPlain
        else Inr \<lparr>im_versioning = planVersioning live intent, im_live = map_option ws_id live,
          im_leaves = map (leave_entry intent today) ls,
          im_corrections = map (correction_entry intent today) cs, im_freed = sum_list (map lr_days ls)\<rparr>)"
proof (cases "findActiveForEmployeeDay (hr_schedules db) (xi_employee intent) (xi_dow intent)")
  case None
  then show ?thesis
    by (cases "xi_mode intent")
      (simp_all add: computeImpact_def planVersioning_def leave_struck_def correction_struck_def Let_def)
next
  case (Some r)
  have noop: "planVersioning (Some r) intent \<noteq> Noop" by (auto simp: planVersioning_def Let_def)
  have days: "(\<lambda>a. case af_working_days a of None \<Rightarrow> 0 | Some d \<Rightarrow> d) \<circ> leave_entry intent today = lr_days"
    by (rule ext) (simp add: leave_entry_def Let_def)
  have ls: "filter (leave_cancelled r intent today) (findActiveCandidates (hr_leaves db) (xi_employee intent) (xi_from intent)) =
      filter (leave_struck db intent today) (ld_requests (hr_leaves db))"
    unfolding findActiveCandidates_def filter_filter
    by (rule filter_cong) (auto simp: leave_struck_def Some lr_active_def)
  have cs: "filter (correction_cancelled r intent today)
        (correctionCandidates (hr_corrections db) (xi_employee intent) (xi_from intent)) =
      filter (correction_struck db intent today) (tc_rows (hr_corrections db))"
    unfolding correctionCandidates_def filter_filter
    by (rule filter_cong) (auto simp: correction_struck_def Some tc_active_def)
  show ?thesis
    unfolding computeImpact_def Some
    by (simp add: Let_def noop cancel_loop_eq[OF evaluateLeave_eq] cancel_loop_eq[OF evaluateCorrection_eq] freed_days_sum days
        flip: leave_cancelled_def correction_cancelled_def ls cs)
qed

text \<open>The cancelled leave, in terms of its dates: it has a day on the changed weekday from the effective date
  on; the schedule is removed, or it is a half day and window or break change; and it is still pending or
  lies entirely in the future.\<close>

lemma leave_cancelled_iff:
  assumes "valid_date (lr_start l)" "valid_date (lr_end l)" "today \<le> xi_from intent"
  shows "leave_cancelled r intent today l \<longleftrightarrow>
    (\<exists>d. valid_date d \<and> lr_start l \<le> d \<and> d \<le> lr_end l \<and> xi_from intent \<le> d \<and> weekdayOf d = xi_dow intent) \<and>
    (xi_mode intent = Remove \<or> lr_portion l \<noteq> Full \<and> (windowChanged r intent \<or> breakChanged r intent)) \<and>
    (status_pending (lr_status l) \<or> today < lr_start l)"
proof -
  have ds: "set (leave_dates l) = {d. valid_date d \<and> lr_start l \<le> d \<and> d \<le> lr_end l}"
    unfolding leave_dates_def using assms(1,2) by (rule datesInRange_set)
  have gov: "governedDates (leave_dates l) intent \<noteq> [] \<longleftrightarrow>
      (\<exists>d \<in> set (leave_dates l). xi_from intent \<le> d \<and> weekdayOf d = xi_dow intent)"
    by (auto simp: governedDates_def filter_empty_conv)
  have "af_decision (leave_entry intent today l) = Cancel \<longleftrightarrow> status_pending (lr_status l) \<or> today < lr_start l"
    if "d \<in> set (leave_dates l)" "xi_from intent \<le> d" for d
  proof -
    have d: "lr_start l \<le> d" "d \<le> lr_end l" "\<not> lr_end l < today"
      using that assms(3) ds by auto
    have "temporalClass (leave_dates l) today =
        Inr (if lr_end l < today then Past else if today < lr_start l then Future else Present)"
      using assms(1,2) d(1,2) by (intro temporalClass_range) (auto simp: ds)
    then show ?thesis using d(3) by (simp add: leave_entry_def Let_def classify_def)
  qed
  then show ?thesis unfolding leave_cancelled_def leave_hit_def gov by (auto simp: ds)
qed

lemma correction_cancelled_iff:
  assumes "today \<le> xi_from intent"
  shows "correction_cancelled r intent today c \<longleftrightarrow>
    xi_from intent \<le> tc_date c \<and> weekdayOf (tc_date c) = xi_dow intent \<and> windowChanged r intent \<and>
    (status_pending (tc_status c) \<or> today < tc_date c)"
  using assms
  by (auto simp: correction_cancelled_def correction_hit_def correction_entry_def governedDates_def
      temporalClass_def classify_def Let_def)

section \<open>The outcome of an application\<close>

lemma length_remdups_set:
  "length (remdups xs) = length (remdups ys) \<and> list_all (\<lambda>k. k \<in> set ys) (remdups xs) \<longleftrightarrow> set xs = set ys"
proof
  assume "length (remdups xs) = length (remdups ys) \<and> list_all (\<lambda>k. k \<in> set ys) (remdups xs)"
  then have "card (set xs) = card (set ys)" "set xs \<subseteq> set ys"
    by (auto simp: length_remdups_card_conv list_all_iff)
  then show "set xs = set ys" by (metis List.finite_set card_subset_eq)
qed (simp add: length_remdups_card_conv list_all_iff)

lemma assertNoDrift_iff:
  "assertNoDrift impact previewed = Inr () \<longleftrightarrow>
     affected_key ` set (im_leaves impact @ im_corrections impact) = previewed_key ` set previewed"
  using length_remdups_set[of "map affected_key (im_leaves impact @ im_corrections impact)" "map previewed_key previewed"]
  by (simp add: assertNoDrift_def Let_def image_Un)

lemma apply_load_Inr:
  "apply_load env intent caller previewed db = Inr impact \<longleftrightarrow>
     validateChange env intent caller = Inr () \<and> computeImpact intent (change_today env) db = Inr impact \<and>
     assertNoDrift impact previewed = Inr ()"
  by (auto simp: apply_load_def bindR_eq_Inr)

lemma applyChange_Inr:
  assumes "applyChange env intent caller previewed db = (db', Inr res)"
  shows "apply_load env intent caller previewed db = Inr (cr_impact res) \<and>
    apply_finish env intent (usr_id caller) (cr_impact res) db = Inr (db', res)"
proof -
  obtain impact where l: "apply_load env intent caller previewed db = Inr impact"
    using assms by (auto simp: applyChange_def split: sum.splits)
  then have "apply_finish env intent (usr_id caller) impact db = Inr (db', res)"
    using assms by (auto simp: applyChange_def finish_tx_def split: sum.splits prod.splits)
  moreover from this have "cr_impact res = impact"
    by (auto simp: apply_finish_def Let_def bindR_eq_Inr split: prod.splits)
  ultimately show ?thesis using l by simp
qed

lemma apply_finish_Inr:
  assumes "apply_finish env intent actor impact db = Inr (db', res)"
  obtains live sdb where
    "live = (if im_live impact = None then None
             else findActiveForEmployeeDay (hr_schedules db) (xi_employee intent) (xi_dow intent))"
    "applyVersioning env impact intent live actor (hr_schedules db) = Inr (sdb, cr_created res)"
    "db' = cascade_cancel env intent impact actor (db\<lparr>hr_schedules := sdb\<rparr>)"
  using assms that
  by (auto simp: apply_finish_def Let_def bindR_eq_Inr split: prod.splits option.splits if_splits)

lemma cascade_cancel_simps [simp]:
  "hr_schedules (cascade_cancel env intent impact actor db) = hr_schedules db"
  "hr_leaves (cascade_cancel env intent impact actor db) =
     fst (systemCancel (xe_now env) (map af_id (im_leaves impact)) actor
       (scheduleChangeCancelNote (xi_dow intent) (xi_from intent)) (hr_leaves db))"
  "hr_corrections (cascade_cancel env intent impact actor db) =
     fst (systemCancel_tc (xe_now env) (map af_id (im_corrections impact)) actor
       (scheduleChangeCancelNote (xi_dow intent) (xi_from intent)) (hr_corrections db))"
  by (simp_all add: cascade_cancel_def Let_def)

lemma update_where_cong:
  "(\<And>r. r \<in> set rows \<Longrightarrow> p r = q r) \<Longrightarrow> update_where p f rows = update_where q f rows"
  by (simp add: update_where_def)

lemma systemCancel_filter:
  assumes "serial_ok lr_id n (ld_requests db)" "\<And>l. p l \<Longrightarrow> lr_active l"
  shows "ld_requests (fst (systemCancel now (map lr_id (filter p (ld_requests db))) actor why db)) =
    update_where p (system_cancelled now actor why) (ld_requests db)"
  unfolding systemCancel_eq
  by (rule update_where_cong) (use assms serial_ok_inj in \<open>fastforce simp: lr_active_def\<close>)

lemma systemCancel_tc_rows:
  "tc_rows (fst (systemCancel_tc now ids actor why db)) =
     update_where (\<lambda>r. tc_id r \<in> set ids \<and> status_active (tc_status r) \<and> tc_live r)
       (tc_system_cancelled now actor why) (tc_rows db)"
  "tc_entries (fst (systemCancel_tc now ids actor why db)) = tc_entries db"
  by (simp_all add: systemCancel_tc_def Let_def update_where_def)

lemma systemCancel_tc_filter:
  assumes "serial_ok tc_id n (tc_rows db)" "\<And>c. p c \<Longrightarrow> tc_active c"
  shows "tc_rows (fst (systemCancel_tc now (map tc_id (filter p (tc_rows db))) actor why db)) =
    update_where p (tc_system_cancelled now actor why) (tc_rows db)"
  unfolding systemCancel_tc_rows
  by (rule update_where_cong) (use assms serial_ok_inj in \<open>fastforce simp: tc_active_def\<close>)

lemma impact_ids:
  assumes "computeImpact intent today db = Inr impact"
  shows "map af_id (im_leaves impact) = map lr_id (filter (leave_struck db intent today) (ld_requests (hr_leaves db)))"
    and "map af_id (im_corrections impact) =
      map tc_id (filter (correction_struck db intent today) (tc_rows (hr_corrections db)))"
    and "im_live impact = map_option ws_id
      (findActiveForEmployeeDay (hr_schedules db) (xi_employee intent) (xi_dow intent))"
    and "im_versioning impact = planVersioning
      (findActiveForEmployeeDay (hr_schedules db) (xi_employee intent) (xi_dow intent)) intent"
  using assms
  by (auto simp: computeImpact_eq Let_def leave_entry_def correction_entry_def comp_def split: if_splits)

section \<open>Every application keeps the contracts\<close>

text \<open>Clock strings match the pattern of the DTO.\<close>

definition intent_clocks :: "change_intent \<Rightarrow> bool" where
  "intent_clocks intent \<longleftrightarrow>
     (case xi_in intent of None \<Rightarrow> True | Some c \<Rightarrow> wf_clock c) \<and>
     (case xi_out intent of None \<Rightarrow> True | Some c \<Rightarrow> wf_clock c) \<and>
     (case xi_break_start intent of None \<Rightarrow> True | Some c \<Rightarrow> wf_clock c)"

definition fields_valid :: "change_intent \<Rightarrow> bool" where
  "fields_valid intent \<longleftrightarrow>
     (case (xi_in intent, xi_out intent, xi_break_minutes intent) of
        (Some cin, Some cout, Some minutes) \<Rightarrow> assertSchedule cin cout minutes (xi_break_start intent) = Inr ()
      | _ \<Rightarrow> False)"

text \<open>What a loaded change carries to its writes, whatever happens in between.\<close>

definition change_loaded :: "change_intent \<Rightarrow> change_impact \<Rightarrow> bool" where
  "change_loaded intent impact \<longleftrightarrow>
     intent_clocks intent \<and>
     (im_versioning impact \<in> {Create, End_and_create, Replace} \<longrightarrow> fields_valid intent)"

lemma validateChange_fields:
  "validateChange env intent caller = Inr () \<Longrightarrow> xi_mode intent = Modify \<Longrightarrow> fields_valid intent"
  by (auto simp: validateChange_def fields_valid_def bindR_eq_Inr split: option.splits if_splits)

lemma apply_load_loaded:
  assumes "apply_load env intent caller previewed db = Inr impact" "intent_clocks intent"
  shows "change_loaded intent impact"
proof -
  have "im_versioning impact \<in> {Create, End_and_create, Replace} \<Longrightarrow> xi_mode intent = Modify"
    using assms(1) impact_ids(4)[of intent "change_today env" db impact]
    by (cases "xi_mode intent") (auto simp: apply_load_Inr planVersioning_def Let_def split: if_splits)
  then show ?thesis
    using assms validateChange_fields by (auto simp: change_loaded_def apply_load_Inr)
qed

lemma new_schedule_row_inv:
  assumes "new_schedule_row env intent actor db = Inr (db', r)" "schedule_inv db"
    and "fields_valid intent" "intent_clocks intent"
  shows "schedule_inv db'"
proof -
  obtain cin cout minutes where f: "xi_in intent = Some cin" "xi_out intent = Some cout"
      "xi_break_minutes intent = Some minutes" "assertSchedule cin cout minutes (xi_break_start intent) = Inr ()"
    using assms(3) by (auto simp: fields_valid_def split: option.splits)
  obtain i where i: "ws_create i db = Inr (db', r)" "wi_in i = cin" "wi_out i = cout"
      "wi_break_minutes i = minutes" "wi_break_start i = xi_break_start intent"
    using assms(1) f by (auto simp: new_schedule_row_def bindR_eq_Inr split: if_splits prod.splits)
  show ?thesis
    by (rule ws_insert_inv[OF assms(2) i(1)[unfolded ws_create_def]])
      (use f i assms(4) in \<open>auto simp: schedule_clocks_def ws_new_def intent_clocks_def\<close>)
qed

lemma end_live_inv:
  assumes "end_live intent actor live db = Inr db'" "schedule_inv db"
  shows "schedule_inv db'"
proof -
  obtain s where u: "ws_update (ws_id live) (end_patch (dayBefore (xi_from intent)) (Some actor)) db = Inr (db', s)"
    using assms(1) by (auto simp: end_live_def bindR_eq_Inr)
  then obtain r where r: "findScheduleById db (ws_id live) = Some r"
    by (auto simp: ws_update_def split: option.splits)
  then have "schedule_ok r"
    using findScheduleById_Some assms(2) by (fastforce simp: schedule_inv_def list_all_iff)
  then show ?thesis
    by (intro ws_update_inv[OF assms(2) u r])
      (simp_all add: ws_patched_def no_patch_def end_patch_def patch_clocks_def schedule_ok_reconstitutes)
qed

lemma applyVersioning_inv:
  assumes "applyVersioning env impact intent live actor db = Inr (db', created)" "schedule_inv db"
    and "change_loaded intent impact"
  shows "schedule_inv db'"
proof (cases "im_versioning impact")
  case Create
  then show ?thesis
    using assms new_schedule_row_inv[of env intent actor db]
    by (auto simp: applyVersioning_def change_loaded_def bindR_eq_Inr)
next
  case End_and_create
  then obtain r d n where "end_live intent actor r db = Inr d" "new_schedule_row env intent actor d = Inr (db', n)"
    using assms(1) by (auto simp: applyVersioning_def bindR_eq_Inr split: option.splits)
  then show ?thesis
    using assms(2,3) End_and_create end_live_inv new_schedule_row_inv by (auto simp: change_loaded_def)
next
  case Replace
  then have "\<exists>(r :: schedule) n. new_schedule_row env intent actor (ws_softDelete (xe_now env) (ws_id r) (Some actor) db) = Inr (db', n)"
    using assms(1) by (cases live) (auto simp: applyVersioning_def bindR_eq_Inr)
  then show ?thesis
    using assms(2,3) Replace ws_softDelete_inv new_schedule_row_inv by (auto simp: change_loaded_def)
next
  case End_only
  then show ?thesis
    using assms(1,2) end_live_inv by (auto simp: applyVersioning_def bindR_eq_Inr split: option.splits)
qed (use assms(1,2) ws_softDelete_inv in \<open>auto simp: applyVersioning_def split: option.splits\<close>)

section \<open>The three modules together\<close>

text \<open>The tables and everything in flight: submissions between their phases, approvals between load and
  write, schedule changes between load and write.\<close>

record hr_state =
  hs_db :: hr_db
  hs_submissions :: "submission list"
  hs_approvals :: "(correction \<times> user) list"
  hs_changes :: "(change_intent \<times> change_impact \<times> int) list"

inductive hr_step :: "hr_state \<Rightarrow> hr_state \<Rightarrow> bool" where
  schedules: "schedule_step (hr_schedules (hs_db s)) d \<Longrightarrow>
    hr_step s (s\<lparr>hs_db := (hs_db s)\<lparr>hr_schedules := d\<rparr>\<rparr>)"
| leaves: "leave_step (hr_leaves (hs_db s), hs_submissions s) (d, pool) \<Longrightarrow>
    hr_step s (s\<lparr>hs_db := (hs_db s)\<lparr>hr_leaves := d\<rparr>, hs_submissions := pool\<rparr>)"
| corrections: "correction_step (hr_corrections (hs_db s), hs_approvals s) (d, pool) \<Longrightarrow>
    hr_step s (s\<lparr>hs_db := (hs_db s)\<lparr>hr_corrections := d\<rparr>, hs_approvals := pool\<rparr>)"
| load: "intent_clocks intent \<Longrightarrow> apply_load env intent caller previewed (hs_db s) = Inr impact \<Longrightarrow>
    hr_step s (s\<lparr>hs_changes := (intent, impact, usr_id caller) # hs_changes s\<rparr>)"
| finish: "(intent, impact, actor) \<in> set (hs_changes s) \<Longrightarrow>
    hr_step s (s\<lparr>hs_db := fst (finish_tx env intent actor impact (hs_db s)),
                hs_changes := remove1 (intent, impact, actor) (hs_changes s)\<rparr>)"

definition empty_hr_state :: hr_state where
  "empty_hr_state = \<lparr>hs_db = \<lparr>hr_schedules = empty_schedules, hr_leaves = empty_leave_db,
     hr_corrections = empty_correction_db\<rparr>, hs_submissions = [], hs_approvals = [], hs_changes = []\<rparr>"

definition hr_inv :: "hr_state \<Rightarrow> bool" where
  "hr_inv s \<longleftrightarrow>
     schedule_inv (hr_schedules (hs_db s)) \<and>
     leave_state_inv (hr_leaves (hs_db s), hs_submissions s) \<and>
     correction_state_inv (hr_corrections (hs_db s), hs_approvals s) \<and>
     (\<forall>(intent, impact, actor) \<in> set (hs_changes s). change_loaded intent impact)"

lemma finish_tx_inv:
  assumes "schedule_inv (hr_schedules db)" "leave_state_inv (hr_leaves db, subs)"
    and "correction_state_inv (hr_corrections db, apps)" "change_loaded intent impact"
  shows "schedule_inv (hr_schedules (fst (finish_tx env intent actor impact db))) \<and>
    leave_state_inv (hr_leaves (fst (finish_tx env intent actor impact db)), subs) \<and>
    correction_state_inv (hr_corrections (fst (finish_tx env intent actor impact db)), apps)"
proof (cases "apply_finish env intent actor impact db")
  case (Inl er)
  then show ?thesis using assms by (simp add: finish_tx_def)
next
  case (Inr p)
  obtain db' res where p: "p = (db', res)" by fastforce
  obtain live sdb where v: "applyVersioning env impact intent live actor (hr_schedules db) = Inr (sdb, cr_created res)"
    and db': "db' = cascade_cancel env intent impact actor (db\<lparr>hr_schedules := sdb\<rparr>)"
    using Inr p by (auto elim: apply_finish_Inr)
  have "schedule_inv sdb" by (rule applyVersioning_inv[OF v assms(1,4)])
  moreover have "leave_state_inv (fst (systemCancel now ids a why (hr_leaves db)), subs)" for now ids a why
    by (rule leave_step_inv[OF leave_step.cascade assms(2)])
  moreover have "correction_state_inv (fst (systemCancel_tc now ids a why (hr_corrections db)), apps)" for now ids a why
    by (rule correction_step_inv[OF correction_step.cascade assms(3)])
  ultimately show ?thesis
    using Inr by (simp add: finish_tx_def p db')
qed

lemma hr_step_inv: "hr_step s s' \<Longrightarrow> hr_inv s \<Longrightarrow> hr_inv s'"
proof (induction rule: hr_step.induct)
  case (finish intent impact actor s env)
  then have "change_loaded intent impact" by (auto simp: hr_inv_def)
  then show ?case
    using finish finish_tx_inv[of "hs_db s" "hs_submissions s" "hs_approvals s" intent impact env actor]
      set_remove1_subset[of "(intent, impact, actor)" "hs_changes s"]
    by (auto simp: hr_inv_def)
qed (use schedule_step_preserves leave_step_inv correction_step_inv apply_load_loaded in
    \<open>auto simp: hr_inv_def\<close>)

lemma hr_reachable_inv: "rtranclp hr_step empty_hr_state s \<Longrightarrow> hr_inv s"
proof (induction rule: rtranclp_induct)
  case base
  have "leave_state_inv (empty_leave_db, [])" "correction_state_inv (empty_correction_db, [])"
    using leave_reachable_inv[OF rtranclp.rtrancl_refl] correction_reachable_inv[OF rtranclp.rtrancl_refl]
    by simp_all
  then show ?case by (simp add: hr_inv_def empty_hr_state_def empty_schedules_inv)
qed (use hr_step_inv in blast)

end
