(* ===== verification/CascadeOutcomes.thy ===== *)
theory CascadeOutcomes
  imports ScheduleChange
begin

text \<open>
  What an applied schedule change guarantees: which requests it cancels and which it leaves alone, what the
  schedule reads afterwards on every date, how many leave days come back, that a previewed change applies,
  and the places where the cascade does not do what its comments say.
\<close>

section \<open>Samples\<close>

text \<open>Employee 5 works on Mondays from 9 to 18 since 2026-01-01; today is Wednesday, 2026-07-01.  A pending
  full-day leave on Monday 2026-07-06, an approved one on 2026-07-13, and a pending correction of
  2026-07-06.\<close>

definition sample_leave :: "int \<Rightarrow> date \<Rightarrow> request_status \<Rightarrow> leave" where
  "sample_leave i d s =
     \<lparr>lr_id = i, lr_employee = 5, lr_type = Vacation, lr_start = d, lr_end = d, lr_days = 1, lr_portion = Full,
      lr_start_time = None, lr_end_time = None, lr_reason = None, lr_status = s, lr_submitted_at = 0,
      lr_decided_at = None, lr_decided_by = None, lr_decision_note = None, lr_decision_path = None,
      lr_cancelled_at = None, lr_cancelled_by = None, lr_l1 = 2, lr_l2 = None, lr_attachment = None,
      lr_created_by = None, lr_updated_by = None, lr_deleted_at = None\<rparr>"

definition sample_tc_request :: "int \<Rightarrow> date \<Rightarrow> request_status \<Rightarrow> correction" where
  "sample_tc_request i d s =
     \<lparr>tc_id = i, tc_employee = 5, tc_target = None, tc_date = d, tc_in = 0, tc_out = Some 1, tc_reason = [],
      tc_status = s, tc_submitted_at = 0, tc_decided_at = None, tc_decided_by = None, tc_decision_note = None,
      tc_decision_path = None, tc_cancelled_at = None, tc_cancelled_by = None, tc_l1 = 2, tc_l2 = None,
      tc_created_by = None, tc_updated_by = None, tc_deleted_at = None\<rparr>"

definition sample_hr :: hr_db where
  "sample_hr =
     \<lparr>hr_schedules = \<lparr>ws_rows = [sample_schedule 1 1 None], ws_next = 2, ws_events = []\<rparr>,
      hr_leaves = empty_leave_db\<lparr>ld_requests := [sample_leave 1 (Date 2026 7 6) Pending_l1,
        sample_leave 2 (Date 2026 7 13) Approved], ld_next := 3,
        ld_allocs := [\<lparr>al_id = 1, al_employee = 5, al_type = Vacation, al_amount = 10, al_source = Default_grant,
          al_reason = None, al_granted_by = None, al_created_by = None, al_created_at = 0, al_deleted_at = None\<rparr>], ld_alloc_next := 2\<rparr>,
      hr_corrections = empty_correction_db\<lparr>tc_rows := [sample_tc_request 1 (Date 2026 7 6) Pending_l1],
        tc_next := 2\<rparr>\<rparr>"

definition sample_change_env :: change_env where
  "sample_change_env = \<lparr>xe_users = sample_users, xe_now = utc_day (Date 2026 7 1) * ms_per_day, xe_tz = 0\<rparr>"

definition sample_intent :: "change_mode \<Rightarrow> date \<Rightarrow> change_intent" where
  "sample_intent m d =
     \<lparr>xi_employee = 5, xi_dow = 1, xi_from = d, xi_mode = m, xi_in = Some (Clock 10 0 None),
      xi_out = Some (Clock 19 0 None), xi_break_minutes = Some 60, xi_break_start = Some (Clock 13 0 None)\<rparr>"

definition sample_admin :: user where
  "sample_admin = (sample_user 1)\<lparr>usr_system_admin := True\<rparr>"

text \<open>The snapshot a client echoes back.\<close>

definition snapshot :: "change_impact \<Rightarrow> previewed_cancel list" where
  "snapshot impact = map (\<lambda>a. \<lparr>pc_kind = af_kind a, pc_id = af_id a, pc_status = status_name (af_status a)\<rparr>)
     (im_leaves impact @ im_corrections impact)"

definition preview_snapshot :: "change_env \<Rightarrow> change_intent \<Rightarrow> user \<Rightarrow> hr_db \<Rightarrow> previewed_cancel list" where
  "preview_snapshot env intent caller db =
     (case previewChange env intent caller db of Inl _ \<Rightarrow> [] | Inr impact \<Rightarrow> snapshot impact)"

definition apply_previewed :: "change_env \<Rightarrow> change_intent \<Rightarrow> user \<Rightarrow> hr_db \<Rightarrow> hr_db \<times> (http_error + change_result)" where
  "apply_previewed env intent caller db =
     applyChange env intent caller (preview_snapshot env intent caller db) db"

lemma sample_hr_inv:
  "schedule_inv (hr_schedules sample_hr)" "leave_inv (hr_leaves sample_hr)" "correction_inv (hr_corrections sample_hr)"
proof -
  show "schedule_inv (hr_schedules sample_hr)"
    by (simp add: schedule_inv_def sample_hr_def sample_schedule_def serial_ok_def unique_active_def
        ws_active_def ws_live_def schedule_ok_def has_seconds_def wf_clock_def toSeconds_def)
  show "leave_inv (hr_leaves sample_hr)"
    by (auto simp: leave_inv_def sample_hr_def empty_leave_db_def sample_leave_def serial_ok_def lr_checks_def
        balance_ok_def consumed_def allowance_def consumes_def al_live_def less_eq_date_def)
  show "correction_inv (hr_corrections sample_hr)"
    by (simp add: correction_inv_def sample_hr_def empty_correction_db_def sample_tc_request_def serial_ok_def
        request_ok_def tc_checks_def others_decide_tc_def target_owned_def entry_inv_def empty_entry_db_def)
qed

lemma sample_requests:
  "ld_requests (hr_leaves sample_hr) = [sample_leave 1 (Date 2026 7 6) Pending_l1, sample_leave 2 (Date 2026 7 13) Approved]"
  by (simp add: sample_hr_def)

lemma sample_intent_simps [simp]:
  "xi_employee (sample_intent m d) = 5" "xi_dow (sample_intent m d) = 1" "xi_from (sample_intent m d) = d"
  "xi_mode (sample_intent m d) = m" "usr_id sample_admin = 1"
  by (simp_all add: sample_intent_def sample_admin_def sample_user_def)

section \<open>Which requests are cancelled\<close>

lemma impact_lists:
  assumes "computeImpact intent today db = Inr impact"
  shows "im_leaves impact = map (leave_entry intent today)
      (filter (leave_struck db intent today) (ld_requests (hr_leaves db)))"
    and "im_corrections impact = map (correction_entry intent today)
      (filter (correction_struck db intent today) (tc_rows (hr_corrections db)))"
    and "im_freed impact = sum_list (map lr_days (filter (leave_struck db intent today) (ld_requests (hr_leaves db))))"
  using assms by (auto simp: computeImpact_eq Let_def split: if_splits)

lemma entry_keys:
  "affected_key (leave_entry intent today l) = (Leave_kind, lr_id l, status_name (lr_status l))"
  "affected_key (correction_entry intent today c) = (Correction_kind, tc_id c, status_name (tc_status c))"
  by (simp_all add: affected_key_def leave_entry_def correction_entry_def Let_def)

text \<open>C10: A successful application cancels, with the note of the change, exactly the leave requests and
  corrections the policy strikes in the state it reads; every other request, the grants and the timesheet
  are untouched, also for a cancelled correction that was already approved; and the set it cancels is the
  set the caller previewed.\<close>

theorem apply_cancels_exactly:
  assumes "applyChange env intent caller previewed db = (db', Inr res)"
    and "leave_inv (hr_leaves db)" "correction_inv (hr_corrections db)"
  shows "ld_requests (hr_leaves db') =
      update_where (leave_struck db intent (change_today env))
        (system_cancelled (xe_now env) (usr_id caller) (scheduleChangeCancelNote (xi_dow intent) (xi_from intent)))
        (ld_requests (hr_leaves db)) \<and>
    ld_allocs (hr_leaves db') = ld_allocs (hr_leaves db) \<and>
    tc_rows (hr_corrections db') =
      update_where (correction_struck db intent (change_today env))
        (tc_system_cancelled (xe_now env) (usr_id caller) (scheduleChangeCancelNote (xi_dow intent) (xi_from intent)))
        (tc_rows (hr_corrections db)) \<and>
    tc_entries (hr_corrections db') = tc_entries (hr_corrections db) \<and>
    previewed_key ` set previewed =
      (\<lambda>l. (Leave_kind, lr_id l, status_name (lr_status l))) `
        {l \<in> set (ld_requests (hr_leaves db)). leave_struck db intent (change_today env) l} \<union>
      (\<lambda>c. (Correction_kind, tc_id c, status_name (tc_status c))) `
        {c \<in> set (tc_rows (hr_corrections db)). correction_struck db intent (change_today env) c}"
proof -
  let ?L = "leave_struck db intent (change_today env)" and ?C = "correction_struck db intent (change_today env)"
  note ok = applyChange_Inr[OF assms(1)]
  then have im: "computeImpact intent (change_today env) db = Inr (cr_impact res)"
    and drift: "assertNoDrift (cr_impact res) previewed = Inr ()"
    by (simp_all add: apply_load_Inr)
  obtain sdb where db': "db' = cascade_cancel env intent (cr_impact res) (usr_id caller) (db\<lparr>hr_schedules := sdb\<rparr>)"
    using ok by (auto elim: apply_finish_Inr)
  have L: "?L l \<Longrightarrow> lr_active l" and C: "?C c \<Longrightarrow> tc_active c" for l c
    by (simp_all add: leave_struck_def correction_struck_def)
  have ser: "serial_ok lr_id (ld_next (hr_leaves db)) (ld_requests (hr_leaves db))"
    "serial_ok tc_id (tc_next (hr_corrections db)) (tc_rows (hr_corrections db))"
    using assms(2,3) by (simp_all add: leave_inv_def correction_inv_def)
  have "previewed_key ` set previewed =
      affected_key ` set (im_leaves (cr_impact res)) \<union> affected_key ` set (im_corrections (cr_impact res))"
    using drift by (simp add: assertNoDrift_iff image_Un)
  also have "\<dots> = (\<lambda>l. (Leave_kind, lr_id l, status_name (lr_status l))) ` {l \<in> set (ld_requests (hr_leaves db)). ?L l} \<union>
      (\<lambda>c. (Correction_kind, tc_id c, status_name (tc_status c))) ` {c \<in> set (tc_rows (hr_corrections db)). ?C c}"
    by (simp add: impact_lists[OF im] image_image entry_keys)
  finally show ?thesis
    using systemCancel_filter[OF ser(1) L] systemCancel_tc_filter[OF ser(2) C]
    by (simp add: db' impact_ids[OF im] systemCancel_eq(3) systemCancel_tc_rows(2))
qed

theorem apply_cancels_exactly_witness:
  "map lr_status (ld_requests (hr_leaves (fst (apply_previewed sample_change_env
      (sample_intent Remove (Date 2026 7 6)) sample_admin sample_hr)))) = [Cancelled, Cancelled] \<and>
   map tc_status (tc_rows (hr_corrections (fst (apply_previewed sample_change_env
      (sample_intent Remove (Date 2026 7 6)) sample_admin sample_hr)))) = [Cancelled]"
proof -
  let ?i = "sample_intent Remove (Date 2026 7 6)"
  let ?run = "apply_previewed sample_change_env ?i sample_admin sample_hr"
  have "okR (snd ?run)" by code_simp
  then obtain db' res where run: "?run = (db', Inr res)"
    by (cases ?run; cases "snd ?run") auto
  have struck: "map (leave_struck sample_hr ?i (change_today sample_change_env)) (ld_requests (hr_leaves sample_hr)) = [True, True]"
    "map (correction_struck sample_hr ?i (change_today sample_change_env)) (tc_rows (hr_corrections sample_hr)) = [True]"
    by code_simp+
  show ?thesis
    using apply_cancels_exactly[OF run[unfolded apply_previewed_def] sample_hr_inv(2,3)] struck
    by (simp add: run) (simp add: sample_hr_def system_cancelled_def tc_system_cancelled_def)
qed



section \<open>Freed leave days\<close>

lemma sum_list_partition:
  fixes f :: "'a \<Rightarrow> rat"
  assumes "\<And>x. x \<in> set xs \<Longrightarrow> p x \<Longrightarrow> \<not> c (g x)"
  shows "sum_list (map f (filter c xs)) =
    sum_list (map f (filter c (update_where p g xs))) + sum_list (map f (filter (\<lambda>x. c x \<and> p x) xs))"
  using assms by (induction xs) simp_all

lemma sum_by_leave_type:
  "sum_list (map lr_days (filter p xs)) =
     (\<Sum>u \<leftarrow> LEAVE_TYPES. sum_list (map lr_days (filter (\<lambda>l. p l \<and> lr_type l = u) xs)))"
proof (induction xs)
  case (Cons l ls)
  then show ?case by (cases "lr_type l") (simp_all add: LEAVE_TYPES_def)
qed (simp add: LEAVE_TYPES_def)

text \<open>C33: \<open>freed_leave_days\<close> is what the balances get back: an application lowers the consumption of the
  employee, summed over the leave types, by exactly that number, type by type by the days of the cancelled
  requests of the type, and the consumption of nobody else.\<close>

theorem freed_days_return_to_balance:
  assumes "applyChange env intent caller previewed db = (db', Inr res)"
    and "leave_inv (hr_leaves db)" "correction_inv (hr_corrections db)"
  shows "consumed (hr_leaves db) e t - consumed (hr_leaves db') e t =
      (if e = xi_employee intent
       then sum_list (map lr_days (filter (\<lambda>l. leave_struck db intent (change_today env) l \<and> lr_type l = t)
         (ld_requests (hr_leaves db)))) else 0) \<and>
    im_freed (cr_impact res) =
      (\<Sum>u \<leftarrow> LEAVE_TYPES. consumed (hr_leaves db) (xi_employee intent) u - consumed (hr_leaves db') (xi_employee intent) u)"
proof -
  let ?S = "leave_struck db intent (change_today env)" and ?rows = "ld_requests (hr_leaves db)"
  let ?why = "scheduleChangeCancelNote (xi_dow intent) (xi_from intent)"
  let ?f = "system_cancelled (xe_now env) (usr_id caller) ?why"
  have rows: "ld_requests (hr_leaves db') = update_where ?S ?f ?rows"
    using apply_cancels_exactly[OF assms] by blast
  have gone: "\<not> consumes e t (?f l)" for e t l
    by (simp add: consumes_def system_cancelled_def status_active_def status_pending_def)
  have drop: "consumed (hr_leaves db) e t - consumed (hr_leaves db') e t =
      sum_list (map lr_days (filter (\<lambda>l. consumes e t l \<and> ?S l) ?rows))" for e t
    using sum_list_partition[of ?rows ?S "consumes e t" ?f lr_days] gone by (simp add: consumed_def rows)
  have sel: "consumes e t l \<and> ?S l \<longleftrightarrow> e = xi_employee intent \<and> ?S l \<and> lr_type l = t" for e t l
    by (auto simp: consumes_def leave_struck_def lr_active_def)
  have "computeImpact intent (change_today env) db = Inr (cr_impact res)"
    using applyChange_Inr[OF assms(1)] by (simp add: apply_load_Inr)
  then have "im_freed (cr_impact res) = sum_list (map lr_days (filter ?S ?rows))"
    by (rule impact_lists(3))
  also have "\<dots> = (\<Sum>u \<leftarrow> LEAVE_TYPES. sum_list (map lr_days (filter (\<lambda>l. ?S l \<and> lr_type l = u) ?rows)))"
    by (rule sum_by_leave_type)
  finally show ?thesis by (simp add: drop sel)
qed

theorem freed_days_return_to_balance_witness:
  "map_sum id (\<lambda>r. im_freed (cr_impact r)) (snd (apply_previewed sample_change_env
      (sample_intent Remove (Date 2026 7 6)) sample_admin sample_hr)) = (Inr 2 :: http_error + rat) \<and>
   consumed (hr_leaves (fst (apply_previewed sample_change_env
      (sample_intent Remove (Date 2026 7 6)) sample_admin sample_hr))) 5 Vacation = 0"
proof -
  let ?i = "sample_intent Remove (Date 2026 7 6)"
  let ?run = "apply_previewed sample_change_env ?i sample_admin sample_hr"
  have "map_sum id (\<lambda>r. im_freed (cr_impact r)) (snd ?run) = (Inr 2 :: http_error + rat)" by code_simp
  moreover from this obtain db' res where run: "?run = (db', Inr res)"
    by (cases ?run; cases "snd ?run") auto
  have "map (leave_struck sample_hr ?i (change_today sample_change_env)) (ld_requests (hr_leaves sample_hr)) = [True, True]"
    "consumed (hr_leaves sample_hr) 5 Vacation = 2"
    by code_simp+
  then have "consumed (hr_leaves db') 5 Vacation = 0"
    using freed_days_return_to_balance[OF run[unfolded apply_previewed_def] sample_hr_inv(2,3), of 5 Vacation]
    by (simp add: sample_requests) (simp add: sample_leave_def)
  ultimately show ?thesis by (simp add: run)
qed

section \<open>The schedule over time\<close>

text \<open>The terms in force for an employee on a date, one entry for each live row whose effective range covers
  it: the timeline that the effective dates describe.\<close>

definition row_covers :: "int \<Rightarrow> date \<Rightarrow> schedule \<Rightarrow> bool" where
  "row_covers e d r \<longleftrightarrow>
     ws_live r \<and> ws_key r = (e, weekdayOf d) \<and> ws_from r \<le> d \<and>
     (case ws_to r of None \<Rightarrow> True | Some t \<Rightarrow> d \<le> t)"

definition row_terms :: "schedule \<Rightarrow> clock \<times> clock \<times> int \<times> clock option" where
  "row_terms r = (ws_in r, ws_out r, ws_break_minutes r, ws_break_start r)"

definition terms_of :: "int \<Rightarrow> date \<Rightarrow> schedule list \<Rightarrow> (clock \<times> clock \<times> int \<times> clock option) list" where
  "terms_of e d rows = map row_terms (filter (row_covers e d) rows)"

definition timeline :: "schedule_db \<Rightarrow> int \<Rightarrow> date \<Rightarrow> (clock \<times> clock \<times> int \<times> clock option) list" where
  "timeline db e d = terms_of e d (ws_rows db)"

definition intent_terms :: "change_intent \<Rightarrow> clock \<times> clock \<times> int \<times> clock option" where
  "intent_terms intent = (pg_time (the (xi_in intent)), pg_time (the (xi_out intent)),
     the (xi_break_minutes intent), map_option pg_time (xi_break_start intent))"

lemma terms_of_append [simp]: "terms_of e d (xs @ ys) = terms_of e d xs @ terms_of e d ys"
  by (simp add: terms_of_def)

lemma terms_of_empty: "(\<And>r. r \<in> set rows \<Longrightarrow> \<not> row_covers e d r) \<Longrightarrow> terms_of e d rows = []"
  by (simp add: terms_of_def filter_empty_conv)

lemma terms_of_update:
  assumes "\<And>q. q \<in> set rows \<Longrightarrow> p q \<Longrightarrow>
    (row_covers e d (f q) \<longleftrightarrow> row_covers e d q) \<and> (row_covers e d q \<longrightarrow> row_terms (f q) = row_terms q)"
  shows "terms_of e d (update_where p f rows) = terms_of e d rows"
  using assms by (induction rows) (auto simp: terms_of_def)

lemma retired_not_covering: "\<not> row_covers e d (ws_retire a r)"
  by (simp add: row_covers_def ws_retire_def ws_live_def)

lemma ended_covers:
  assumes "schedule_ok r" "valid_date d" "valid_date x" "ws_to r = None"
  shows "row_covers e d (ws_stored (ws_patched (end_patch (dayBefore x) a) r)) \<longleftrightarrow> row_covers e d r \<and> d < x"
    and "row_terms (ws_stored (ws_patched (end_patch (dayBefore x) a) r)) = row_terms r"
  using assms less_iff_le_dayBefore[OF assms(2,3)]
  by (auto simp: row_covers_def row_terms_def ws_stored_def ws_patched_def end_patch_def no_patch_def
      ws_live_def ws_key_def schedule_ok_def split: option.splits)

lemma new_row_Inr:
  assumes "new_schedule_row env intent actor db = Inr (db', n)"
  shows "ws_rows db' = ws_rows db @ [n] \<and>
    (row_covers e d n \<longleftrightarrow> e = xi_employee intent \<and> weekdayOf d = xi_dow intent \<and> xi_from intent \<le> d) \<and>
    row_terms n = intent_terms intent"
  using assms
  by (auto simp: new_schedule_row_def bindR_eq_Inr ws_create_def ws_insert_def Let_def ws_new_def ws_stored_def
      row_covers_def row_terms_def intent_terms_def ws_live_def ws_key_def split: option.splits if_splits)

lemma end_live_Inr:
  assumes "end_live intent actor r db = Inr db'" "findScheduleById db (ws_id r) = Some r"
  shows "ws_rows db' = update_where (\<lambda>q. ws_id q = ws_id r)
    (\<lambda>_. ws_stored (ws_patched (end_patch (dayBefore (xi_from intent)) (Some actor)) r)) (ws_rows db)"
  using assms
  by (auto simp: end_live_def bindR_eq_Inr ws_update_def ws_save_def ws_patched_def split: if_splits)

text \<open>The rows without the live one from the effective date on.\<close>

definition cut_rows :: "change_env \<Rightarrow> change_intent \<Rightarrow> int \<Rightarrow> schedule option \<Rightarrow> schedule list \<Rightarrow> schedule list" where
  "cut_rows env intent actor live rows =
     (case live of
        None \<Rightarrow> rows
      | Some r \<Rightarrow>
          if xi_from intent \<le> ws_from r
          then update_where (\<lambda>q. ws_id q = ws_id r \<and> ws_live q) (ws_retire (xe_now env, Some actor)) rows
          else update_where (\<lambda>q. ws_id q = ws_id r)
            (\<lambda>_. ws_stored (ws_patched (end_patch (dayBefore (xi_from intent)) (Some actor)) r)) rows)"

lemma applyVersioning_rows:
  assumes "applyVersioning env impact intent live actor db = Inr (db', created)"
    and "im_versioning impact = planVersioning live intent" "im_versioning impact \<noteq> Noop"
    and "\<And>r. live = Some r \<Longrightarrow> findScheduleById db (ws_id r) = Some r"
  shows "\<exists>new. ws_rows db' = cut_rows env intent actor live (ws_rows db) @ new \<and>
    terms_of e d new =
      (if xi_mode intent = Modify \<and> e = xi_employee intent \<and> weekdayOf d = xi_dow intent \<and> xi_from intent \<le> d
       then [intent_terms intent] else [])"
proof (cases live)
  case None
  then show ?thesis
    using assms(1-3) new_row_Inr[of env intent actor db db' _ e d]
    by (cases "xi_mode intent")
      (auto simp: applyVersioning_def planVersioning_def Let_def bindR_eq_Inr cut_rows_def terms_of_def)
next
  case (Some r)
  show ?thesis
  proof (cases "xi_from intent \<le> ws_from r")
    case True
    let ?d = "ws_softDelete (xe_now env) (ws_id r) (Some actor) db"
    have rows: "ws_rows ?d = cut_rows env intent actor live (ws_rows db)"
      by (simp add: ws_softDelete_def cut_rows_def Some True)
    show ?thesis
    proof (cases "xi_mode intent")
      case Modify
      then obtain n where "new_schedule_row env intent actor ?d = Inr (db', n)"
        using assms(1,2) Some True by (auto simp: applyVersioning_def planVersioning_def Let_def bindR_eq_Inr)
      from new_row_Inr[OF this, of e d] show ?thesis
        using rows Modify by (intro exI[of _ "[n]"]) (auto simp: terms_of_def)
    next
      case Remove
      then show ?thesis
        using assms(1,2) Some True rows
        by (intro exI[of _ "[]"]) (simp add: applyVersioning_def planVersioning_def Let_def terms_of_def)
    qed
  next
    case False
    have "\<exists>d1. end_live intent actor r db = Inr d1 \<and>
        (if xi_mode intent = Modify then \<exists>n. new_schedule_row env intent actor d1 = Inr (db', n) else db' = d1)"
      using assms(1,2) Some False
      by (cases "xi_mode intent") (auto simp: applyVersioning_def planVersioning_def Let_def bindR_eq_Inr)
    then obtain d1 where d1: "end_live intent actor r db = Inr d1"
        "if xi_mode intent = Modify then \<exists>n. new_schedule_row env intent actor d1 = Inr (db', n) else db' = d1"
      by blast
    have rows: "ws_rows d1 = cut_rows env intent actor live (ws_rows db)"
      using end_live_Inr[OF d1(1) assms(4)[OF Some]] Some False by (simp add: cut_rows_def)
    show ?thesis
    proof (cases "xi_mode intent")
      case Modify
      then obtain n where "new_schedule_row env intent actor d1 = Inr (db', n)" using d1(2) by auto
      from new_row_Inr[OF this, of e d] show ?thesis
        using rows Modify by (intro exI[of _ "[n]"]) (auto simp: terms_of_def)
    next
      case Remove
      then show ?thesis using d1(2) rows by (intro exI[of _ "[]"]) (simp add: terms_of_def)
    qed
  qed
qed

lemma live_row:
  assumes "schedule_inv db" "findActiveForEmployeeDay db e d = Some r"
  shows "r \<in> set (ws_rows db)" "ws_active r" "ws_key r = (e, d)" "schedule_ok r" "findScheduleById db (ws_id r) = Some r"
proof -
  have "find (\<lambda>r. ws_active r \<and> ws_key r = (e, d)) (ws_rows db) = Some r"
    using assms(2) by (simp only: findActiveForEmployeeDay_eq)
  from find_Some_iff_mem[OF this] show r: "r \<in> set (ws_rows db)" "ws_active r" "ws_key r = (e, d)" by auto
  show "schedule_ok r" using r(1) assms(1) by (simp add: schedule_inv_def list_all_iff)
  show "findScheduleById db (ws_id r) = Some r"
    unfolding findScheduleById_def
    using r(1,2) assms(1) serial_ok_inj[of ws_id "ws_next db" "ws_rows db"]
    by (intro find_unique) (auto simp: ws_active_def schedule_inv_def)
qed

lemma same_id:
  "schedule_inv db \<Longrightarrow> q \<in> set (ws_rows db) \<Longrightarrow> r \<in> set (ws_rows db) \<Longrightarrow> ws_id q = ws_id r \<Longrightarrow> q = r"
  using serial_ok_inj[of ws_id "ws_next db" "ws_rows db" q r] by (simp add: schedule_inv_def)

text \<open>Away from the weekday of the change, and before its date, cutting the live row changes nothing.\<close>

lemma cut_rows_keeps:
  assumes "schedule_inv db" "valid_date (xi_from intent)" "valid_date d"
    and "live = findActiveForEmployeeDay db (xi_employee intent) (xi_dow intent)"
    and "\<not> (e = xi_employee intent \<and> weekdayOf d = xi_dow intent \<and> xi_from intent \<le> d)"
  shows "terms_of e d (cut_rows env intent actor live (ws_rows db)) = terms_of e d (ws_rows db)"
proof (cases live)
  case (Some r)
  note r = live_row[OF assms(1) assms(4)[unfolded Some, symmetric]]
  show ?thesis
  proof (cases "xi_from intent \<le> ws_from r")
    case True
    have "\<not> row_covers e d r" using assms(5) True r(3) by (auto simp: row_covers_def)
    then show ?thesis
      using same_id[OF assms(1) _ r(1)] True Some
      by (auto simp: cut_rows_def retired_not_covering intro!: terms_of_update)
  next
    case False
    let ?s = "ws_stored (ws_patched (end_patch (dayBefore (xi_from intent)) (Some actor)) r)"
    have "row_covers e d r \<Longrightarrow> d < xi_from intent" using assms(5) r(3) by (auto simp: row_covers_def)
    then have "row_covers e d ?s \<longleftrightarrow> row_covers e d r" "row_terms ?s = row_terms r"
      using ended_covers[OF r(4) assms(3,2)] r(2) by (auto simp: ws_active_def)
    then show ?thesis
      using same_id[OF assms(1) _ r(1)] False Some by (auto simp: cut_rows_def intro!: terms_of_update)
  qed
qed (simp add: cut_rows_def)

lemma cut_rows_cases:
  assumes "q \<in> set (cut_rows env intent actor (Some r) rows)"
  obtains (retired) s where "q = ws_retire (xe_now env, Some actor) s"
  | (ended) "q = ws_stored (ws_patched (end_patch (dayBefore (xi_from intent)) (Some actor)) r)"
  | (kept) "q \<in> set rows" "ws_id q \<noteq> ws_id r \<or> \<not> ws_live q"
  using assms by (auto simp: cut_rows_def table_simps split: if_splits)

text \<open>From its date on, nothing of the weekday is left, if no ended row reaches that far.\<close>

lemma cut_rows_clears:
  assumes "schedule_inv db" "valid_date (xi_from intent)" "valid_date d" "xi_from intent \<le> d"
    and "live = findActiveForEmployeeDay db (xi_employee intent) (weekdayOf d)"
    and "\<forall>q \<in> set (ws_rows db). ws_live q \<longrightarrow> ws_key q = (xi_employee intent, weekdayOf d) \<longrightarrow>
      (case ws_to q of None \<Rightarrow> True | Some t \<Rightarrow> t < xi_from intent)"
  shows "terms_of (xi_employee intent) d (cut_rows env intent actor live (ws_rows db)) = []"
proof (rule terms_of_empty)
  fix q assume q: "q \<in> set (cut_rows env intent actor live (ws_rows db))"
  have other: "\<exists>r :: schedule. live = Some r \<and> ws_id q = ws_id r \<and> ws_live q"
    if mem: "q \<in> set (ws_rows db)" and cov: "row_covers (xi_employee intent) d q" for q
  proof -
    have "ws_active q \<and> ws_key q = (xi_employee intent, weekdayOf d)"
      using mem cov assms(4,6) by (auto simp: row_covers_def ws_active_def split: option.splits)
    then obtain r where r: "live = Some r"
      using find_Some_ex[of q "ws_rows db" "\<lambda>r. ws_active r \<and> ws_key r = (xi_employee intent, weekdayOf d)"] mem assms(5)
      unfolding findActiveForEmployeeDay_eq by auto
    note l = live_row[OF assms(1) assms(5)[unfolded r, symmetric]]
    have "q = r"
      using unique_active_inj[of ws_active ws_key "ws_rows db" q r] mem l
        \<open>ws_active q \<and> ws_key q = (xi_employee intent, weekdayOf d)\<close> assms(1)
      by (simp add: schedule_inv_def)
    then show ?thesis using r l(2) by (simp add: ws_active_def)
  qed
  show "\<not> row_covers (xi_employee intent) d q"
  proof (cases live)
    case None
    then show ?thesis using q other by (auto simp: cut_rows_def)
  next
    case (Some r)
    note l = live_row[OF assms(1) assms(5)[unfolded Some, symmetric]]
    have "\<not> d < xi_from intent" using assms(4) by simp
    then have ended: "\<not> row_covers (xi_employee intent) d (ws_stored (ws_patched (end_patch (dayBefore (xi_from intent)) a) r))" for a
      using ended_covers(1)[OF l(4) assms(3,2)] l(2) by (simp add: ws_active_def)
    show ?thesis
      using q[unfolded Some] by (cases rule: cut_rows_cases) (use ended retired_not_covering other Some in auto)
  qed
qed

lemma applyChange_timeline:
  assumes "applyChange env intent caller previewed db = (db', Inr res)" "schedule_inv (hr_schedules db)"
  shows "timeline (hr_schedules db') e d =
    terms_of e d (cut_rows env intent (usr_id caller)
      (findActiveForEmployeeDay (hr_schedules db) (xi_employee intent) (xi_dow intent)) (ws_rows (hr_schedules db))) @
    (if xi_mode intent = Modify \<and> e = xi_employee intent \<and> weekdayOf d = xi_dow intent \<and> xi_from intent \<le> d
     then [intent_terms intent] else [])"
proof -
  let ?live = "findActiveForEmployeeDay (hr_schedules db) (xi_employee intent) (xi_dow intent)"
  note ok = applyChange_Inr[OF assms(1)]
  then have im: "computeImpact intent (change_today env) db = Inr (cr_impact res)" by (simp add: apply_load_Inr)
  note ids = impact_ids(3,4)[OF im]
  obtain live sdb where v: "live = (if im_live (cr_impact res) = None then None else ?live)"
      "applyVersioning env (cr_impact res) intent live (usr_id caller) (hr_schedules db) = Inr (sdb, cr_created res)"
      "db' = cascade_cancel env intent (cr_impact res) (usr_id caller) (db\<lparr>hr_schedules := sdb\<rparr>)"
    using apply_finish_Inr[OF conjunct2[OF ok]] by blast
  have live: "live = ?live" using v(1) ids(1) by (cases ?live) simp_all
  have "im_versioning (cr_impact res) \<noteq> Noop"
    using im ids(2) by (auto simp: computeImpact_eq planVersioning_def Let_def split: if_splits)
  then obtain new where "ws_rows sdb = cut_rows env intent (usr_id caller) ?live (ws_rows (hr_schedules db)) @ new"
      "terms_of e d new = (if xi_mode intent = Modify \<and> e = xi_employee intent \<and> weekdayOf d = xi_dow intent \<and>
        xi_from intent \<le> d then [intent_terms intent] else [])"
    using applyVersioning_rows[OF v(2), of e d] ids(2) live live_row(5)[OF assms(2)] by metis
  then show ?thesis by (simp add: timeline_def v(3))
qed

text \<open>C15: Forward only: after a change from day X on, the terms of every employee on every date are what they
  were, except on the changed weekday from X on, where exactly the new terms are in force, or none after a
  removal.  It holds whether the live row is ended the day before or, not yet started, replaced, as long as
  no ended row of the weekday reaches X.\<close>

theorem change_splits_timeline:
  assumes "applyChange env intent caller previewed db = (db', Inr res)" "schedule_inv (hr_schedules db)"
    and "valid_date (xi_from intent)" "valid_date d"
    and "\<forall>q \<in> set (ws_rows (hr_schedules db)). ws_live q \<longrightarrow> ws_key q = (xi_employee intent, xi_dow intent) \<longrightarrow>
      (case ws_to q of None \<Rightarrow> True | Some t \<Rightarrow> t < xi_from intent)"
  shows "timeline (hr_schedules db') e d =
    (if e = xi_employee intent \<and> weekdayOf d = xi_dow intent \<and> xi_from intent \<le> d
     then (if xi_mode intent = Modify then [intent_terms intent] else [])
     else timeline (hr_schedules db) e d)"
proof (cases "e = xi_employee intent \<and> weekdayOf d = xi_dow intent \<and> xi_from intent \<le> d")
  case True
  then show ?thesis
    using cut_rows_clears[OF assms(2-4) _ refl, of env "usr_id caller"] assms(5)
    by (simp add: applyChange_timeline[OF assms(1,2)])
next
  case False
  have new: "\<not> (xi_mode intent = Modify \<and> e = xi_employee intent \<and> weekdayOf d = xi_dow intent \<and> xi_from intent \<le> d)"
    using False by blast
  show ?thesis
    unfolding applyChange_timeline[OF assms(1,2)] if_not_P[OF False] if_not_P[OF new]
    using cut_rows_keeps[OF assms(2-4) refl False, of env "usr_id caller"] by (simp add: timeline_def)
qed

text \<open>The exception: when an ended row does reach beyond X, the change leaves it alone, so an earlier
  effective date than that of a change already planned puts two rows in force on the days in between, and a
  removal from X on removes nothing there.\<close>

theorem earlier_change_leaves_ended_row:
  assumes "applyChange env intent caller previewed db = (db', Inr res)" "schedule_inv (hr_schedules db)"
    and "q \<in> set (ws_rows (hr_schedules db))" "ws_to q = Some t" "row_covers (xi_employee intent) d q"
    and "weekdayOf d = xi_dow intent" "xi_from intent \<le> d"
  shows "row_terms q \<in> set (timeline (hr_schedules db') (xi_employee intent) d) \<and>
    (xi_mode intent = Modify \<longrightarrow> 2 \<le> length (timeline (hr_schedules db') (xi_employee intent) d))"
proof -
  let ?live = "findActiveForEmployeeDay (hr_schedules db) (xi_employee intent) (xi_dow intent)"
  let ?cut = "cut_rows env intent (usr_id caller) ?live (ws_rows (hr_schedules db))"
  have "q \<in> set ?cut"
  proof (cases ?live)
    case (Some r)
    then have "ws_to r = None" using live_row(2)[OF assms(2) Some] by (simp add: ws_active_def)
    then have "ws_id q \<noteq> ws_id r"
      using same_id[OF assms(2,3) live_row(1)[OF assms(2) Some]] assms(4) by auto
    then show ?thesis
      using assms(3) by (auto simp: cut_rows_def Some update_where_def intro!: image_eqI[of _ _ q])
  qed (use assms(3) in \<open>simp add: cut_rows_def\<close>)
  then have mem: "row_terms q \<in> set (terms_of (xi_employee intent) d ?cut)"
    using assms(5) by (auto simp: terms_of_def)
  then have "1 \<le> length (terms_of (xi_employee intent) d ?cut)"
    by (cases "terms_of (xi_employee intent) d ?cut") simp_all
  then show ?thesis
    using mem assms(6,7) by (simp add: applyChange_timeline[OF assms(1,2)])
qed

section \<open>A previewed change applies\<close>

lemma cut_rows_inactive:
  assumes "schedule_inv db" "live = findActiveForEmployeeDay db (xi_employee intent) (xi_dow intent)"
    and "q \<in> set (cut_rows env intent actor live (ws_rows db))" "ws_active q"
  shows "ws_key q \<noteq> (xi_employee intent, xi_dow intent)"
proof (cases live)
  case None
  then have "find (\<lambda>r. ws_active r \<and> ws_key r = (xi_employee intent, xi_dow intent)) (ws_rows db) = None"
    using assms(2) by (simp only: findActiveForEmployeeDay_eq)
  then show ?thesis using assms(3,4) None by (auto simp: cut_rows_def find_None_conv)
next
  case (Some r)
  note l = live_row[OF assms(1) assms(2)[unfolded Some, symmetric]]
  let ?s = "ws_stored (ws_patched (end_patch (dayBefore (xi_from intent)) (Some actor)) r)"
  have s: "\<not> ws_active ?s" "\<not> ws_active (ws_retire a s)" for a s
    by (simp_all add: ws_active_def ws_stored_def ws_patched_def end_patch_def no_patch_def ws_retire_def ws_live_def)
  have "q \<in> set (ws_rows db) \<and> ws_id q \<noteq> ws_id r"
  proof -
    have "ws_live q" using assms(4) by (simp add: ws_active_def)
    with assms(3)[unfolded Some] assms(4) s show ?thesis by (elim cut_rows_cases) simp_all
  qed
  then show ?thesis
    using unique_active_inj[of ws_active ws_key "ws_rows db" q r] assms(1,4) l by (auto simp: schedule_inv_def)
qed

lemma end_live_ok:
  assumes "schedule_inv db" "findActiveForEmployeeDay db e d = Some r" "ws_from r < xi_from intent"
    and "valid_date (ws_from r)" "valid_date (xi_from intent)"
  shows "\<exists>db'. end_live intent actor r db = Inr db'"
proof -
  note l = live_row[OF assms(1,2)]
  let ?p = "ws_patched (end_patch (dayBefore (xi_from intent)) (Some actor)) r"
  have "ws_from r \<le> dayBefore (xi_from intent)"
    using assms(3) less_iff_le_dayBefore[OF assms(4,5)] by simp
  then have "schedule_ok ?p"
    using l(4) by (simp add: schedule_ok_def ws_patched_def end_patch_def no_patch_def split: option.splits)
  then have "ws_checks ?p" by (rule schedule_ok_checks)
  moreover have "\<not> ws_active ?p" by (simp add: ws_active_def ws_patched_def end_patch_def no_patch_def)
  ultimately show ?thesis using l(5) by (simp add: end_live_def ws_update_def ws_save_def)
qed

lemma new_row_ok:
  assumes "fields_valid intent" "intent_clocks intent" "0 \<le> xi_dow intent" "xi_dow intent \<le> 6"
    and "toSeconds (the (xi_in intent)) < toSeconds (the (xi_out intent))" "user_row (xe_users env) (xi_employee intent)"
    and free: "\<And>q. q \<in> set (ws_rows db) \<Longrightarrow> ws_active q \<Longrightarrow> ws_key q \<noteq> (xi_employee intent, xi_dow intent)"
  shows "\<exists>db' n. new_schedule_row env intent actor db = Inr (db', n) \<and> ws_rows db' = ws_rows db @ [n] \<and>
    ws_active n \<and> ws_key n = (xi_employee intent, xi_dow intent)"
proof -
  obtain cin cout minutes where f: "xi_in intent = Some cin" "xi_out intent = Some cout"
      "xi_break_minutes intent = Some minutes" "assertSchedule cin cout minutes (xi_break_start intent) = Inr ()"
    using assms(1) by (auto simp: fields_valid_def split: option.splits)
  let ?i = "\<lparr>wi_employee = xi_employee intent, wi_dow = xi_dow intent, wi_in = cin, wi_out = cout,
    wi_break_minutes = minutes, wi_break_start = xi_break_start intent, wi_from = xi_from intent,
    wi_to = None, wi_created_by = Some actor\<rparr>"
  have "ws_checks (ws_new ?i)"
    using f assms(2-5) by (intro ws_new_checks) (auto simp: input_clocks_def intent_clocks_def)
  moreover have "\<not> list_ex (\<lambda>q. ws_active q \<and> ws_key q = ws_key (ws_new ?i)) (ws_rows db)"
    using free by (auto simp: list_ex_iff ws_new_def ws_key_def)
  ultimately show ?thesis
    using f(1-3) assms(6)
    by (simp add: new_schedule_row_def ws_create_def ws_insert_def Let_def ws_new_def ws_active_def ws_live_def
        ws_key_def ws_stored_def)
qed

lemma snapshot_no_drift: "assertNoDrift impact (snapshot impact) = Inr ()"
  by (simp add: assertNoDrift_iff snapshot_def image_Un image_image previewed_key_def affected_key_def)

lemma previewChange_Inr:
  "previewChange env intent caller db = Inr impact \<longleftrightarrow>
     validateChange env intent caller = Inr () \<and> computeImpact intent (change_today env) db = Inr impact"
  by (auto simp: previewChange_def bindR_eq_Inr)

lemma find_snoc: "(\<And>q. q \<in> set rows \<Longrightarrow> \<not> p q) \<Longrightarrow> p n \<Longrightarrow> find p (rows @ [n]) = Some n"
  by (induction rows) auto

text \<open>The writes of a loaded change succeed, and leave the new row, or none, as the active one.\<close>

lemma applyVersioning_ok:
  assumes "schedule_inv db" "live = findActiveForEmployeeDay db (xi_employee intent) (xi_dow intent)"
    and "im_versioning impact = planVersioning live intent" "live \<noteq> None \<or> xi_mode intent = Modify"
    and "valid_date (xi_from intent)" "\<And>r. live = Some r \<Longrightarrow> valid_date (ws_from r)"
    and "xi_mode intent = Modify \<Longrightarrow> fields_valid intent \<and> toSeconds (the (xi_in intent)) < toSeconds (the (xi_out intent))"
    and "intent_clocks intent" "0 \<le> xi_dow intent" "xi_dow intent \<le> 6" "user_row (xe_users env) (xi_employee intent)"
  shows "\<exists>db' created. applyVersioning env impact intent live actor db = Inr (db', created) \<and>
    (created = None \<longleftrightarrow> xi_mode intent = Remove) \<and>
    findActiveForEmployeeDay db' (xi_employee intent) (xi_dow intent) = created"
proof -
  have base: "\<exists>d. ws_rows d = cut_rows env intent actor live (ws_rows db) \<and>
      (applyVersioning env impact intent live actor db =
        (if xi_mode intent = Modify then bindR (new_schedule_row env intent actor d) (\<lambda>(d', r). Inr (d', Some r))
         else Inr (d, None)))"
  proof (cases live)
    case None
    then show ?thesis
      using assms(3,4) by (intro exI[of _ db]) (simp add: cut_rows_def applyVersioning_def planVersioning_def Let_def)
  next
    case (Some r)
    note l = live_row[OF assms(1) assms(2)[unfolded Some, symmetric]]
    show ?thesis
    proof (cases "xi_from intent \<le> ws_from r")
      case True
      then show ?thesis
        using assms(3) Some
        by (intro exI[of _ "ws_softDelete (xe_now env) (ws_id r) (Some actor) db"], cases "xi_mode intent")
          (simp_all add: cut_rows_def ws_softDelete_def applyVersioning_def planVersioning_def Let_def)
    next
      case False
      obtain d where d: "end_live intent actor r db = Inr d"
        using end_live_ok[OF assms(1) assms(2)[unfolded Some, symmetric] _ assms(6)[OF Some] assms(5), of actor] False
        by (auto simp: not_le)
      then show ?thesis
        using assms(3) Some False end_live_Inr[OF d l(5)]
        by (intro exI[of _ d], cases "xi_mode intent")
          (simp_all add: cut_rows_def applyVersioning_def planVersioning_def Let_def)
    qed
  qed
  then obtain d where d: "ws_rows d = cut_rows env intent actor live (ws_rows db)"
      "applyVersioning env impact intent live actor db =
        (if xi_mode intent = Modify then bindR (new_schedule_row env intent actor d) (\<lambda>(d', r). Inr (d', Some r))
         else Inr (d, None))" by blast
  have free: "\<And>q. q \<in> set (ws_rows d) \<Longrightarrow> ws_active q \<Longrightarrow> ws_key q \<noteq> (xi_employee intent, xi_dow intent)"
    using cut_rows_inactive[OF assms(1,2)] d(1) by simp
  show ?thesis
  proof (cases "xi_mode intent")
    case Modify
    obtain db' n where n: "new_schedule_row env intent actor d = Inr (db', n)" "ws_rows db' = ws_rows d @ [n]"
        "ws_active n" "ws_key n = (xi_employee intent, xi_dow intent)"
      using new_row_ok[of intent env d actor] free assms(7)[OF Modify] assms(8-11) by blast
    have "findActiveForEmployeeDay db' (xi_employee intent) (xi_dow intent) = Some n"
      unfolding findActiveForEmployeeDay_eq n(2) using free n(3,4) by (intro find_snoc) auto
    then show ?thesis using d(2) n(1) Modify by simp
  next
    case Remove
    have "findActiveForEmployeeDay d (xi_employee intent) (xi_dow intent) = None"
      unfolding findActiveForEmployeeDay_eq find_None_conv using free by blast
    then show ?thesis using d(2) Remove by simp
  qed
qed

text \<open>C29: A change whose preview succeeds applies with the snapshot of the preview, when nothing happened in
  between: no constraint of the table rejects it, the response repeats the impact, and afterwards the
  created row is the active one of the weekday, or none is after a removal.  The window must be in order as
  times, which the string comparison of the validation does not quite ensure.\<close>

theorem previewed_change_applies:
  assumes "previewChange env intent caller db = Inr impact" "schedule_inv (hr_schedules db)"
    and "list_all (\<lambda>r. valid_date (ws_from r)) (ws_rows (hr_schedules db))"
    and "valid_date (xi_from intent)" "intent_clocks intent" "0 \<le> xi_dow intent" "xi_dow intent \<le> 6"
    and "xi_mode intent = Modify \<Longrightarrow> toSeconds (the (xi_in intent)) < toSeconds (the (xi_out intent))"
    and "user_row (xe_users env) (xi_employee intent)"
  shows "\<exists>db' created. applyChange env intent caller (snapshot impact) db =
      (db', Inr \<lparr>cr_impact = impact, cr_created = created\<rparr>) \<and>
    (created = None \<longleftrightarrow> xi_mode intent = Remove) \<and>
    findActiveForEmployeeDay (hr_schedules db') (xi_employee intent) (xi_dow intent) = created"
proof -
  let ?live = "findActiveForEmployeeDay (hr_schedules db) (xi_employee intent) (xi_dow intent)"
  have p: "validateChange env intent caller = Inr ()" "computeImpact intent (change_today env) db = Inr impact"
    using assms(1) by (simp_all add: previewChange_Inr)
  have load: "apply_load env intent caller (snapshot impact) db = Inr impact"
    using p snapshot_no_drift by (simp add: apply_load_Inr)
  have mode: "?live \<noteq> None \<or> xi_mode intent = Modify"
    using p(2) by (cases "xi_mode intent") (auto simp: computeImpact_eq Let_def split: if_splits)
  have from_ok: "valid_date (ws_from r)" if "?live = Some r" for r
    using live_row(1)[OF assms(2) that] assms(3) by (simp add: list_all_iff)
  have live: "(case im_live impact of None \<Rightarrow> None | Some _ \<Rightarrow> ?live) = ?live"
    using impact_ids(3)[OF p(2)] by (cases ?live) simp_all
  obtain sdb created where v:
      "applyVersioning env impact intent ?live (usr_id caller) (hr_schedules db) = Inr (sdb, created)"
      "created = None \<longleftrightarrow> xi_mode intent = Remove"
      "findActiveForEmployeeDay sdb (xi_employee intent) (xi_dow intent) = created"
    using applyVersioning_ok[OF assms(2) refl impact_ids(4)[OF p(2)] mode assms(4) from_ok _ assms(5,6,7,9)]
      validateChange_fields[OF p(1)] assms(8) by blast
  then show ?thesis
    by (simp add: applyChange_def load finish_tx_def apply_finish_def live)
qed

theorem previewed_change_applies_witness:
  "\<exists>db' created. applyChange sample_change_env (sample_intent Modify (Date 2026 7 6)) sample_admin
      (preview_snapshot sample_change_env (sample_intent Modify (Date 2026 7 6)) sample_admin sample_hr) sample_hr =
      (db', Inr \<lparr>cr_impact = projr (previewChange sample_change_env (sample_intent Modify (Date 2026 7 6)) sample_admin sample_hr),
        cr_created = created\<rparr>) \<and>
    created \<noteq> None \<and> findActiveForEmployeeDay (hr_schedules db') 5 1 = created"
proof -
  let ?i = "sample_intent Modify (Date 2026 7 6)"
  have "okR (previewChange sample_change_env ?i sample_admin sample_hr)" by code_simp
  then obtain im where im: "previewChange sample_change_env ?i sample_admin sample_hr = Inr im"
    by (cases "previewChange sample_change_env ?i sample_admin sample_hr") auto
  have "list_all (\<lambda>r. valid_date (ws_from r)) (ws_rows (hr_schedules sample_hr))" "valid_date (Date 2026 7 6)"
    by code_simp+
  moreover have "intent_clocks ?i" "toSeconds (the (xi_in ?i)) < toSeconds (the (xi_out ?i))"
    "user_row (xe_users sample_change_env) 5"
    by code_simp+
  ultimately show ?thesis
    using previewed_change_applies[OF im sample_hr_inv(1)] by (simp add: im preview_snapshot_def)
qed

section \<open>Witnesses on the timeline\<close>

lemma applyChange_schedule_inv:
  assumes "schedule_inv (hr_schedules db)" "intent_clocks intent"
  shows "schedule_inv (hr_schedules (fst (applyChange env intent caller previewed db)))"
proof (cases "snd (applyChange env intent caller previewed db)")
  case (Inl er)
  then show ?thesis using assms(1) by (auto simp: applyChange_def finish_tx_def split: sum.splits prod.splits)
next
  case (Inr res)
  then have run: "applyChange env intent caller previewed db = (fst (applyChange env intent caller previewed db), Inr res)"
    by (metis prod.collapse)
  note ok = applyChange_Inr[OF run]
  obtain live sdb where v:
      "applyVersioning env (cr_impact res) intent live (usr_id caller) (hr_schedules db) = Inr (sdb, cr_created res)"
      "fst (applyChange env intent caller previewed db) =
        cascade_cancel env intent (cr_impact res) (usr_id caller) (db\<lparr>hr_schedules := sdb\<rparr>)"
    using apply_finish_Inr[OF conjunct2[OF ok]] by metis
  show ?thesis
    using applyVersioning_inv[OF v(1) assms(1) apply_load_loaded[OF conjunct1[OF ok] assms(2)]] by (simp add: v(2))
qed

theorem change_splits_timeline_witness:
  "timeline (hr_schedules (fst (apply_previewed sample_change_env (sample_intent Modify (Date 2026 7 6)) sample_admin sample_hr)))
     5 (Date 2026 7 13) = [(Clock 10 0 (Some 0), Clock 19 0 (Some 0), 60, Some (Clock 13 0 (Some 0)))] \<and>
   timeline (hr_schedules (fst (apply_previewed sample_change_env (sample_intent Modify (Date 2026 7 6)) sample_admin sample_hr)))
     5 (Date 2026 6 29) = [(Clock 9 0 (Some 0), Clock 18 0 (Some 0), 60, Some (Clock 12 0 (Some 0)))]"
proof -
  let ?i = "sample_intent Modify (Date 2026 7 6)"
  let ?run = "apply_previewed sample_change_env ?i sample_admin sample_hr"
  have "okR (snd ?run)" by code_simp
  then obtain db' res where run: "?run = (db', Inr res)"
    by (cases ?run; cases "snd ?run") auto
  have d: "valid_date (Date 2026 7 6)" "valid_date (Date 2026 7 13)" "valid_date (Date 2026 6 29)"
      "weekdayOf (Date 2026 7 13) = 1" "Date 2026 7 6 \<le> Date 2026 7 13" "\<not> Date 2026 7 6 \<le> Date 2026 6 29"
      "timeline (hr_schedules sample_hr) 5 (Date 2026 6 29) =
         [(Clock 9 0 (Some 0), Clock 18 0 (Some 0), 60, Some (Clock 12 0 (Some 0)))]"
      "intent_terms ?i = (Clock 10 0 (Some 0), Clock 19 0 (Some 0), 60, Some (Clock 13 0 (Some 0)))"
    by code_simp+
  have ended: "\<forall>q \<in> set (ws_rows (hr_schedules sample_hr)). ws_live q \<longrightarrow> ws_key q = (xi_employee ?i, xi_dow ?i) \<longrightarrow>
      (case ws_to q of None \<Rightarrow> True | Some t \<Rightarrow> t < xi_from ?i)"
    by (simp add: sample_hr_def sample_schedule_def)
  note split = change_splits_timeline[OF run[unfolded apply_previewed_def] sample_hr_inv(1) _ _ ended]
  show ?thesis
    using split[of "Date 2026 7 13" 5] split[of "Date 2026 6 29" 5] d by (simp add: run)
qed

definition sample_hr_august :: hr_db where
  "sample_hr_august = fst (apply_previewed sample_change_env (sample_intent Modify (Date 2026 8 3)) sample_admin sample_hr)"

theorem earlier_change_leaves_ended_row_witness:
  "timeline (hr_schedules (fst (apply_previewed sample_change_env (sample_intent Remove (Date 2026 7 6)) sample_admin
      sample_hr_august))) 5 (Date 2026 7 13) \<noteq> []"
proof -
  let ?i = "sample_intent Remove (Date 2026 7 6)"
  let ?run = "apply_previewed sample_change_env ?i sample_admin sample_hr_august"
  let ?q = "hd (ws_rows (hr_schedules sample_hr_august))"
  have "okR (snd ?run)" by code_simp
  then obtain db' res where run: "?run = (db', Inr res)"
    by (cases ?run; cases "snd ?run") auto
  have inv: "schedule_inv (hr_schedules sample_hr_august)"
    unfolding sample_hr_august_def apply_previewed_def
    by (rule applyChange_schedule_inv[OF sample_hr_inv(1)]) code_simp
  have q: "length (ws_rows (hr_schedules sample_hr_august)) = 2" "ws_to ?q = Some (Date 2026 8 2)"
      "row_covers 5 (Date 2026 7 13) ?q" "weekdayOf (Date 2026 7 13) = 1" "Date 2026 7 6 \<le> Date 2026 7 13"
    by code_simp+
  then have "?q \<in> set (ws_rows (hr_schedules sample_hr_august))"
    by (intro hd_in_set) auto
  from earlier_change_leaves_ended_row[OF run[unfolded apply_previewed_def] inv this q(2), of "Date 2026 7 13"] q(3-)
  show ?thesis by (auto simp: run)
qed

section \<open>The three modules together\<close>





section \<open>Where the cascade strikes too much\<close>

text \<open>The window is compared as text: a stored \<open>time\<close> always reads \<open>HH:MM:SS\<close>, so a change that sends the very
  same times as \<open>HH:MM\<close>, which the DTO accepts, counts as a new window and strikes every governed pending
  correction, whereas the same change with seconds strikes none.\<close>

theorem same_window_without_seconds_strikes:
  assumes "findActiveForEmployeeDay (hr_schedules db) (xi_employee intent) (xi_dow intent) = Some r"
    and "xi_mode intent = Modify" "today \<le> xi_from intent"
    and "xi_in intent = Some (Clock (hh (ws_in r)) (mi (ws_in r)) None)" "ss (ws_in r) = Some 0"
    and "tc_employee c = xi_employee intent" "tc_live c" "status_pending (tc_status c)"
    and "xi_from intent \<le> tc_date c" "weekdayOf (tc_date c) = xi_dow intent"
  shows "toSeconds (the (xi_in intent)) = toSeconds (ws_in r) \<and>
    correction_struck db intent today c \<and>
    \<not> correction_struck db (intent\<lparr>xi_in := Some (ws_in r), xi_out := Some (ws_out r)\<rparr>) today c"
proof (intro conjI)
  show "toSeconds (the (xi_in intent)) = toSeconds (ws_in r)"
    using assms(4,5) by (simp add: toSeconds_def)
  have "xi_in intent \<noteq> Some (ws_in r)" using assms(4,5) by (metis clock.sel(3) option.distinct(1) option.inject)
  then show "correction_struck db intent today c"
    using assms correction_cancelled_iff[OF assms(3), of r c]
    by (simp add: correction_struck_def windowChanged_def tc_active_def status_active_def)
  show "\<not> correction_struck db (intent\<lparr>xi_in := Some (ws_in r), xi_out := Some (ws_out r)\<rparr>) today c"
    using assms(1,2) by (simp add: correction_struck_def correction_cancelled_def correction_hit_def windowChanged_def)
qed

theorem same_window_without_seconds_strikes_witness:
  "correction_struck sample_hr ((sample_intent Modify (Date 2026 7 6))\<lparr>xi_in := Some (Clock 9 0 None), xi_out := Some (Clock 18 0 None)\<rparr>)
     (Date 2026 7 1) (sample_tc_request 1 (Date 2026 7 6) Pending_l1)"
proof -
  let ?i = "(sample_intent Modify (Date 2026 7 6))\<lparr>xi_in := Some (Clock 9 0 None), xi_out := Some (Clock 18 0 None)\<rparr>"
  have live: "findActiveForEmployeeDay (hr_schedules sample_hr) (xi_employee ?i) (xi_dow ?i) = Some (sample_schedule 1 1 None)"
    by (simp add: findActiveForEmployeeDay_def sample_hr_def sample_schedule_def ws_live_def)
  have "weekdayOf (Date 2026 7 6) = 1" "Date 2026 7 1 \<le> Date 2026 7 6" by code_simp+
  then show ?thesis
    using same_window_without_seconds_strikes[OF live, of "Date 2026 7 1" "sample_tc_request 1 (Date 2026 7 6) Pending_l1"]
    by (simp add: sample_schedule_def sample_tc_request_def tc_live_def status_pending_def)
qed

text \<open>The drift guard compares the statuses it reads, but the cancelling update only asks that a request is
  still active: a correction of today that is approved after the guard, its punch already written to the
  timesheet, is cancelled all the same, though the policy keeps an approved request under way, and the
  timesheet keeps the punch.\<close>

theorem approval_after_guard_cancelled:
  assumes "apply_load env intent caller previewed db0 = Inr impact"
    and "tc_id c \<in> set (map af_id (im_corrections impact))"
    and "c \<in> set (tc_rows (hr_corrections db))" "tc_live c" "tc_status c = Approved" "tc_date c = change_today env"
    and "finish_tx env' intent actor impact db = (db', Inr res)"
  shows "\<not> correction_struck db intent (change_today env) c \<and>
    (\<exists>c' \<in> set (tc_rows (hr_corrections db')). tc_id c' = tc_id c \<and> tc_status c' = Cancelled) \<and>
    tc_entries (hr_corrections db') = tc_entries (hr_corrections db)"
proof -
  have "\<not> ci < change_today env" if "ci = xi_from intent" for ci
    using assms(1) that by (auto simp: apply_load_Inr validateChange_def split: if_splits)
  then have today: "change_today env \<le> xi_from intent" by (simp add: not_less)
  have keep: "\<not> correction_struck db intent (change_today env) c"
    using assms(5,6) correction_cancelled_iff[OF today, of _ c]
    by (auto simp: correction_struck_def status_pending_def split: option.splits)
  have "apply_finish env' intent actor impact db = Inr (db', res)"
    using assms(7) by (auto simp: finish_tx_def split: sum.splits prod.splits)
  then obtain sdb where db': "db' = cascade_cancel env' intent impact actor (db\<lparr>hr_schedules := sdb\<rparr>)"
    by (auto elim: apply_finish_Inr)
  let ?f = "tc_system_cancelled (xe_now env') actor (scheduleChangeCancelNote (xi_dow intent) (xi_from intent))"
  have "?f c \<in> set (tc_rows (hr_corrections db'))"
    using assms(2-5) by (auto simp: db' systemCancel_tc_rows update_where_def status_active_def intro!: image_eqI[of _ _ c])
  then show ?thesis
    using keep by (auto simp: db' systemCancel_tc_rows tc_system_cancelled_def intro!: bexI[of _ "?f c"])
qed

definition thursday_hr :: "correction_db \<Rightarrow> hr_db" where
  "thursday_hr cdb = \<lparr>hr_schedules = \<lparr>ws_rows = [sample_schedule 1 4 None], ws_next = 2, ws_events = []\<rparr>,
     hr_leaves = empty_leave_db, hr_corrections = cdb\<rparr>"

definition thursday_env :: change_env where
  "thursday_env = \<lparr>xe_users = sample_users, xe_now = 0, xe_tz = 0\<rparr>"

definition thursday_removal :: change_intent where
  "thursday_removal = (sample_intent Remove (Date 1970 1 1))\<lparr>xi_dow := 4\<rparr>"

theorem approval_after_guard_cancelled_witness:
  "let approved = fst (approveCorrection sample_tc_env 1 (sample_tc_approver 2) sample_tc1);
       impact = projr (computeImpact thursday_removal (Date 1970 1 1) (thursday_hr sample_tc1));
       after = hr_corrections (fst (finish_tx thursday_env thursday_removal 1 impact (thursday_hr approved)))
   in map tc_status (tc_rows approved) = [Approved] \<and> list_ex (\<lambda>c. tc_status c = Cancelled) (tc_rows after) \<and>
      map te_in (te_rows (tc_entries after)) = [2000]"
proof -
  let ?approved = "fst (approveCorrection sample_tc_env 1 (sample_tc_approver 2) sample_tc1)"
  let ?impact = "projr (computeImpact thursday_removal (Date 1970 1 1) (thursday_hr sample_tc1))"
  let ?previewed = "preview_snapshot thursday_env thursday_removal sample_admin (thursday_hr sample_tc1)"
  let ?c = "hd (tc_rows ?approved)"
  let ?fin = "finish_tx thursday_env thursday_removal 1 ?impact (thursday_hr ?approved)"
  have "okR (apply_load thursday_env thursday_removal sample_admin ?previewed (thursday_hr sample_tc1))" by code_simp
  moreover have today: "change_today thursday_env = Date 1970 1 1" by code_simp
  ultimately have load: "apply_load thursday_env thursday_removal sample_admin ?previewed (thursday_hr sample_tc1) = Inr ?impact"
    by (cases "apply_load thursday_env thursday_removal sample_admin ?previewed (thursday_hr sample_tc1)")
      (auto simp: apply_load_Inr)
  have "okR (snd ?fin)" by code_simp
  then obtain db' res where fin: "?fin = (db', Inr res)"
    by (cases ?fin; cases "snd ?fin") auto
  have c: "length (tc_rows ?approved) = 1" "tc_id ?c \<in> set (map af_id (im_corrections ?impact))" "tc_live ?c"
      "tc_status ?c = Approved" "tc_date ?c = Date 1970 1 1" "map tc_status (tc_rows ?approved) = [Approved]"
      "map te_in (te_rows (tc_entries ?approved)) = [2000]"
    by code_simp+
  then have "?c \<in> set (tc_rows (hr_corrections (thursday_hr ?approved)))"
    by (cases "tc_rows ?approved") (simp_all add: thursday_hr_def)
  from approval_after_guard_cancelled[OF load c(2) this c(3,4) _ fin]
  have "list_ex (\<lambda>c. tc_status c = Cancelled) (tc_rows (hr_corrections db'))"
      "tc_entries (hr_corrections db') = tc_entries ?approved"
    using c(5) today by (auto simp: list_ex_iff thursday_hr_def)
  then show ?thesis using c(6,7) by (simp add: Let_def fin)
qed

end
