(* ===== verification/Directory.thy ===== *)
theory Directory
  imports LeaveLedger
begin

text \<open>
  Users and roles (\<open>src/src/users\<close>, \<open>src/src/roles\<close>): the tables with the constraints of their
  migrations, the repositories, and the two services.  A row becomes a domain user only with its
  role, which the join finds only while the role is not soft-deleted; \<open>toDomain\<close> throws otherwise, as
  \<open>UserMapper\<close> does.  Password hashing is the parameter \<open>hasher\<close>.
\<close>

section \<open>Tables\<close>

record role_row =
  rr_id :: int
  rr_name :: string
  rr_description :: "string option"
  rr_permissions :: "int list"
  rr_created_by :: "int option"
  rr_updated_by :: "int option"
  rr_deleted_by :: "int option"
  rr_deleted_at :: "int option"

record user_entity =
  ue_id :: int
  ue_email :: string
  ue_hash :: string
  ue_first :: string
  ue_last :: string
  ue_title :: "string option"
  ue_role_id :: int
  ue_admin :: bool
  ue_active :: bool
  ue_last_login :: "int option"
  ue_created_by :: "int option"
  ue_updated_by :: "int option"
  ue_deleted_by :: "int option"
  ue_created_at :: int
  ue_deleted_at :: "int option"

record directory =
  dr_users :: "user_entity list"
  dr_next :: int
  dr_roles :: "role_row list"
  dr_role_next :: int
  dr_permissions :: "permission list"

definition rr_live :: "role_row \<Rightarrow> bool" where
  "rr_live r \<longleftrightarrow> rr_deleted_at r = None"

definition ue_live :: "user_entity \<Rightarrow> bool" where
  "ue_live u \<longleftrightarrow> ue_deleted_at u = None"

definition ue_key :: "user_entity \<Rightarrow> string" where
  "ue_key u = toLowerCase (ue_email u)"

definition ROLE_NAMES :: "string list" where
  "ROLE_NAMES = [''SUPER_ADMIN'', ''HR_ADMIN'', ''OPERATIONS_MANAGER'', ''PROJECT_MANAGER'',
     ''TECHNICAL_DIRECTOR'', ''EMPLOYEE'']"

definition PROTECTED_ROLES :: "string list" where
  "PROTECTED_ROLES = ROLE_NAMES"

definition capitalizeFirstLetter :: "string \<Rightarrow> string" where
  "capitalizeFirstLetter s =
     (let t = trim s in if length t = 0 then t else upper_char (hd t) # tl t)"

section \<open>Role repository\<close>

definition load_permissions :: "directory \<Rightarrow> int list \<Rightarrow> permission list" where
  "load_permissions d ids = filter (\<lambda>p. perm_id p \<in> set ids) (dr_permissions d)"

definition roleToDomain :: "directory \<Rightarrow> role_row \<Rightarrow> role" where
  "roleToDomain d r =
     \<lparr>role_id = rr_id r, role_name = rr_name r, role_permissions = load_permissions d (rr_permissions r)\<rparr>"

definition findRole :: "directory \<Rightarrow> int \<Rightarrow> role_row option" where
  "findRole d i = find (\<lambda>r. rr_id r = i \<and> rr_live r) (dr_roles d)"

definition findRoleByName :: "directory \<Rightarrow> string \<Rightarrow> role_row option" where
  "findRoleByName d n = find (\<lambda>r. rr_name r = n \<and> rr_live r) (dr_roles d)"

text \<open>The repository refuses a list that is longer than the permissions it finds.\<close>

definition loadPermissions :: "directory \<Rightarrow> int list \<Rightarrow> http_error + int list" where
  "loadPermissions d ids =
     (if ids = [] then Inr []
      else let found = load_permissions d ids
           in if length found \<noteq> length ids then Inl PlainError else Inr (map perm_id found))"

text \<open>The unique constraint on the name counts soft-deleted roles.\<close>

definition role_name_taken :: "directory \<Rightarrow> int \<Rightarrow> string \<Rightarrow> bool" where
  "role_name_taken d i n \<longleftrightarrow> list_ex (\<lambda>r. rr_id r \<noteq> i \<and> rr_name r = n) (dr_roles d)"

definition insertRole ::
  "directory \<Rightarrow> string \<Rightarrow> string option \<Rightarrow> int list \<Rightarrow> int option \<Rightarrow> http_error + (directory \<times> role_row)" where
  "insertRole d n description ids by =
     bindR (loadPermissions d ids) (\<lambda>perms.
       if role_name_taken d (dr_role_next d) n then Inl UniqueViolation
       else let r = \<lparr>rr_id = dr_role_next d, rr_name = n, rr_description = description, rr_permissions = perms,
                     rr_created_by = by, rr_updated_by = by, rr_deleted_by = None, rr_deleted_at = None\<rparr>
            in Inr (d\<lparr>dr_roles := dr_roles d @ [r], dr_role_next := dr_role_next d + 1\<rparr>, r))"

definition saveRole :: "role_row \<Rightarrow> directory \<Rightarrow> http_error + (directory \<times> role_row)" where
  "saveRole r d =
     (if role_name_taken d (rr_id r) (rr_name r) then Inl UniqueViolation
      else Inr (d\<lparr>dr_roles := update_where (\<lambda>q. rr_id q = rr_id r) (\<lambda>_. r) (dr_roles d)\<rparr>, r))"

section \<open>Roles service\<close>

definition assertPermissionsExist :: "directory \<Rightarrow> int list \<Rightarrow> http_error + unit" where
  "assertPermissionsExist d ids =
     (if ids = [] then Inr ()
      else let dedup = remdups ids;
               found_ids = map perm_id (load_permissions d dedup);
               missing = filter (\<lambda>i. i \<notin> set found_ids) dedup
           in guardR (missing = []) (unprocessable ''permission_ids''))"

definition createRole ::
  "string \<Rightarrow> string option \<Rightarrow> int list \<Rightarrow> int option \<Rightarrow> directory \<Rightarrow> directory \<times> (http_error + role_row)" where
  "createRole n description ids by d =
     (if findRoleByName d n \<noteq> None then (d, Inl ConflictPlain)
      else case bindR (assertPermissionsExist d ids) (\<lambda>_. insertRole d n description ids by) of
             Inl er \<Rightarrow> (d, Inl er)
           | Inr (d', r) \<Rightarrow> (d', Inr r))"

record role_patch =
  rp_name :: "string option"
  rp_description :: "string tri"
  rp_updated_by :: "int tri"

definition updateRole :: "int \<Rightarrow> role_patch \<Rightarrow> directory \<Rightarrow> directory \<times> (http_error + role_row)" where
  "updateRole i p d =
     (case orNotFound (findRole d i) ''Role'' i of
        Inl er \<Rightarrow> (d, Inl er)
      | Inr existing \<Rightarrow>
          if (case rp_name p of
                None \<Rightarrow> False
              | Some n \<Rightarrow> n \<noteq> [] \<and> n \<noteq> rr_name existing \<and>
                  (case findRoleByName d n of None \<Rightarrow> False | Some q \<Rightarrow> rr_id q \<noteq> i))
          then (d, Inl ConflictPlain)
          else case saveRole (existing\<lparr>rr_name := opt_apply (rp_name p) (rr_name existing),
                      rr_description := tri_apply (rp_description p) (rr_description existing),
                      rr_updated_by := tri_apply (rp_updated_by p) (rr_updated_by existing)\<rparr>) d of
                 Inl er \<Rightarrow> (d, Inl er)
               | Inr (d', r) \<Rightarrow> (d', Inr r))"

definition assignPermissions :: "int \<Rightarrow> int list \<Rightarrow> directory \<Rightarrow> directory \<times> (http_error + role_row)" where
  "assignPermissions i ids d =
     (case bindR (orNotFound (findRole d i) ''Role'' i) (\<lambda>r.
             bindR (assertPermissionsExist d ids) (\<lambda>_.
             bindR (loadPermissions d ids) (\<lambda>perms. saveRole (r\<lparr>rr_permissions := perms\<rparr>) d))) of
        Inl er \<Rightarrow> (d, Inl er)
      | Inr (d', r) \<Rightarrow> (d', Inr r))"

definition retire_role :: "int \<times> int option \<Rightarrow> role_row \<Rightarrow> role_row" where
  "retire_role a r = r\<lparr>rr_deleted_by := snd a, rr_deleted_at := Some (fst a)\<rparr>"

definition softDeleteRole :: "int \<Rightarrow> int \<Rightarrow> int option \<Rightarrow> directory \<Rightarrow> directory \<times> (http_error + unit)" where
  "softDeleteRole now i actor d =
     (case orNotFound (findRole d i) ''Role'' i of
        Inl er \<Rightarrow> (d, Inl er)
      | Inr r \<Rightarrow>
          if rr_name r \<in> set PROTECTED_ROLES then (d, Inl ForbiddenPlain)
          else (d\<lparr>dr_roles := update_where (\<lambda>q. rr_id q = i \<and> rr_live q) (retire_role (now, actor)) (dr_roles d)\<rparr>, Inr ()))"

section \<open>User repository\<close>

text \<open>A joined role is found only while it is live; without it the mapper throws.\<close>

definition toDomain :: "directory \<Rightarrow> user_entity \<Rightarrow> http_error + user" where
  "toDomain d u =
     (case findRole d (ue_role_id u) of
        None \<Rightarrow> Inl PlainError
      | Some r \<Rightarrow> Inr \<lparr>usr_id = ue_id u, usr_email = ue_email u, usr_first_name = ue_first u, usr_last_name = ue_last u,
                       usr_role = roleToDomain d r, usr_system_admin = ue_admin u, usr_is_active = ue_active u\<rparr>)"

definition toDomainOpt :: "directory \<Rightarrow> user_entity option \<Rightarrow> http_error + user option" where
  "toDomainOpt d u = (case u of None \<Rightarrow> Inr None | Some x \<Rightarrow> bindR (toDomain d x) (\<lambda>v. Inr (Some v)))"

definition findUserRow :: "directory \<Rightarrow> int \<Rightarrow> user_entity option" where
  "findUserRow d i = find (\<lambda>u. ue_id u = i \<and> ue_live u) (dr_users d)"

definition findRowByEmail :: "directory \<Rightarrow> string \<Rightarrow> user_entity option" where
  "findRowByEmail d e = find (\<lambda>u. ue_key u = toLowerCase e \<and> ue_live u) (dr_users d)"

definition findByEmail :: "directory \<Rightarrow> string \<Rightarrow> http_error + user option" where
  "findByEmail d e = toDomainOpt d (findRowByEmail d e)"

definition findByIds :: "directory \<Rightarrow> int list \<Rightarrow> http_error + user list" where
  "findByIds d ids =
     (if ids = [] then Inr []
      else mapR (toDomain d) (filter (\<lambda>u. ue_id u \<in> set ids \<and> ue_live u) (dr_users d)))"

definition withCredentials :: "directory \<Rightarrow> user_entity option \<Rightarrow> http_error + (user \<times> string) option" where
  "withCredentials d u =
     (case u of None \<Rightarrow> Inr None | Some x \<Rightarrow> bindR (toDomain d x) (\<lambda>v. Inr (Some (v, ue_hash x))))"

definition existsByEmail :: "directory \<Rightarrow> string \<Rightarrow> bool" where
  "existsByEmail d e \<longleftrightarrow> list_ex (\<lambda>u. ue_key u = toLowerCase e \<and> ue_live u) (dr_users d)"

definition insertUser :: "user_entity \<Rightarrow> directory \<Rightarrow> http_error + (directory \<times> user_entity)" where
  "insertUser u d =
     (if list_ex (\<lambda>q. ue_live q \<and> ue_key q = ue_key u) (dr_users d) then Inl UniqueViolation
      else if \<not> list_ex (\<lambda>r. rr_id r = ue_role_id u) (dr_roles d) then Inl ForeignKeyViolation
      else let stored = u\<lparr>ue_id := dr_next d\<rparr>
           in Inr (d\<lparr>dr_users := dr_users d @ [stored], dr_next := dr_next d + 1\<rparr>, stored))"

definition saveUser :: "user_entity \<Rightarrow> directory \<Rightarrow> http_error + directory" where
  "saveUser u d =
     (if ue_live u \<and> list_ex (\<lambda>q. ue_id q \<noteq> ue_id u \<and> ue_live q \<and> ue_key q = ue_key u) (dr_users d) then Inl UniqueViolation
      else if \<not> list_ex (\<lambda>r. rr_id r = ue_role_id u) (dr_roles d) then Inl ForeignKeyViolation
      else Inr (d\<lparr>dr_users := update_where (\<lambda>q. ue_id q = ue_id u) (\<lambda>_. u) (dr_users d)\<rparr>))"

definition updatePasswordHash :: "int \<Rightarrow> string \<Rightarrow> int option \<Rightarrow> directory \<Rightarrow> directory" where
  "updatePasswordHash i h by d =
     d\<lparr>dr_users := update_where (\<lambda>u. ue_id u = i) (\<lambda>u. u\<lparr>ue_hash := h, ue_updated_by := by\<rparr>) (dr_users d)\<rparr>"

definition recordLogin :: "int \<Rightarrow> int \<Rightarrow> directory \<Rightarrow> directory" where
  "recordLogin i now d =
     d\<lparr>dr_users := update_where (\<lambda>u. ue_id u = i) (\<lambda>u. u\<lparr>ue_last_login := Some now\<rparr>) (dr_users d)\<rparr>"

definition retire_user :: "int \<times> int option \<Rightarrow> user_entity \<Rightarrow> user_entity" where
  "retire_user a u = u\<lparr>ue_deleted_by := snd a, ue_deleted_at := Some (fst a)\<rparr>"

text \<open>\<open>ILIKE\<close> without its escape character: \<open>%\<close> stands for any text, \<open>_\<close> for one character.\<close>

fun like :: "string \<Rightarrow> string \<Rightarrow> bool" where
  "like [] s = (s = [])"
| "like (p # ps) [] = (p = CHR ''%'' \<and> like ps [])"
| "like (p # ps) (c # s) =
     (if p = CHR ''%'' then like ps (c # s) \<or> like (p # ps) s
      else (p = CHR ''_'' \<or> p = c) \<and> like ps s)"

definition ilike :: "string \<Rightarrow> string \<Rightarrow> bool" where
  "ilike s pat \<longleftrightarrow> like (toLowerCase pat) (toLowerCase s)"

record user_criteria =
  uc_search :: string
  uc_email :: string
  uc_role :: "int option"
  uc_active :: "bool option"
  uc_page :: "int option"
  uc_limit :: "int option"

definition user_matches :: "user_criteria \<Rightarrow> user_entity \<Rightarrow> bool" where
  "user_matches c u \<longleftrightarrow>
     ue_live u \<and>
     (uc_search c \<noteq> [] \<longrightarrow>
        (let pat = ''%'' @ uc_search c @ ''%''
         in ilike (ue_email u) pat \<or> ilike (ue_first u) pat \<or> ilike (ue_last u) pat \<or>
            (case ue_title u of None \<Rightarrow> False | Some t \<Rightarrow> ilike t pat))) \<and>
     (uc_email c \<noteq> [] \<longrightarrow> ue_key u = toLowerCase (uc_email c)) \<and>
     (case uc_role c of None \<Rightarrow> True | Some r \<Rightarrow> ue_role_id u = r) \<and>
     (case uc_active c of None \<Rightarrow> True | Some a \<Rightarrow> ue_active u = a)"

text \<open>Newest first; mapping the page throws when one of its users has no live role.\<close>

definition user_page :: "directory \<Rightarrow> user_criteria \<Rightarrow> user_entity list" where
  "user_page d c =
     (let p = resolvePaging (uc_page c) (uc_limit c)
      in Prelude.slice (rev (sort_key ue_created_at (filter (user_matches c) (dr_users d))))
           (pg_skip p) (pg_skip p + pg_limit p))"

definition findAllUsers :: "directory \<Rightarrow> user_criteria \<Rightarrow> http_error + user page_of" where
  "findAllUsers d c =
     bindR (mapR (toDomain d) (user_page d c)) (\<lambda>xs.
       Inr (paginate xs (int (length (filter (user_matches c) (dr_users d)))) (resolvePaging (uc_page c) (uc_limit c))))"

section \<open>Users service\<close>

record hasher =
  hash_of :: "string \<Rightarrow> string"
  compare_hash :: "string \<Rightarrow> string \<Rightarrow> bool"

text \<open>The documented law of \<open>bcrypt\<close>: a password compares equal to its own hash.\<close>

definition hasher_ok :: "hasher \<Rightarrow> bool" where
  "hasher_ok h \<longleftrightarrow> (\<forall>p. compare_hash h p (hash_of h p))"

definition findUserById :: "directory \<Rightarrow> int \<Rightarrow> http_error + user" where
  "findUserById d i = bindR (toDomainOpt d (findUserRow d i)) (\<lambda>u. orNotFound u ''User'' i)"

record user_input =
  ui_email :: string
  ui_password :: string
  ui_first :: string
  ui_last :: string
  ui_title :: "string option"
  ui_role :: int
  ui_admin :: "bool option"
  ui_active :: "bool option"
  ui_created_by :: "int option"

definition default_allocations :: "int \<Rightarrow> int \<Rightarrow> int option \<Rightarrow> leave_db \<Rightarrow> leave_db \<times> (http_error + unit)" where
  "default_allocations now e by ld =
     foldl (\<lambda>(ld, r) (t, amount).
         case r of
           Inl er \<Rightarrow> (ld, Inl er)
         | Inr _ \<Rightarrow>
             (case al_create now (new_allocation e t amount Default_grant None None by) ld of
                Inl er \<Rightarrow> (ld, Inl er)
              | Inr (ld', _) \<Rightarrow> (ld', Inr ())))
       (ld, Inr ()) DEFAULT_LEAVE_ALLOCATIONS"

definition new_user :: "hasher \<Rightarrow> int \<Rightarrow> user_input \<Rightarrow> string \<Rightarrow> user_entity" where
  "new_user h now i email =
     \<lparr>ue_id = 0, ue_email = toLowerCase email, ue_hash = hash_of h (ui_password i),
      ue_first = capitalizeFirstLetter (ui_first i), ue_last = capitalizeFirstLetter (ui_last i),
      ue_title = ui_title i, ue_role_id = ui_role i, ue_admin = opt_apply (ui_admin i) False,
      ue_active = opt_apply (ui_active i) True, ue_last_login = None, ue_created_by = ui_created_by i,
      ue_updated_by = ui_created_by i, ue_deleted_by = None, ue_created_at = now, ue_deleted_at = None\<rparr>"

definition createUser ::
  "hasher \<Rightarrow> int \<Rightarrow> user_input \<Rightarrow> directory \<Rightarrow> leave_db \<Rightarrow> directory \<times> leave_db \<times> (http_error + user)" where
  "createUser h now i d ld =
     (let email = toLowerCase (trim (ui_email i))
      in if existsByEmail d email then (d, ld, Inl (unprocessable ''email''))
         else if findRole d (ui_role i) = None then (d, ld, Inl (unprocessable ''role_id''))
         else (case insertUser (new_user h now i email) d of
                 Inl er \<Rightarrow> (d, ld, Inl er)
               | Inr (d', row) \<Rightarrow>
                   (case toDomain d' row of
                      Inl er \<Rightarrow> (d', ld, Inl er)
                    | Inr u \<Rightarrow>
                        (case default_allocations now (ue_id row) (ui_created_by i) ld of
                           (ld', Inl er) \<Rightarrow> (d', ld', Inl er)
                         | (ld', Inr _) \<Rightarrow> (d', ld', Inr u)))))"

record user_patch =
  pu_first :: "string option"
  pu_last :: "string option"
  pu_title :: "string tri"
  pu_role :: "int option"
  pu_admin :: "bool option"
  pu_active :: "bool option"
  pu_updated_by :: "int tri"

definition patched_user :: "user_patch \<Rightarrow> user_entity \<Rightarrow> user_entity" where
  "patched_user p u =
     u\<lparr>ue_first := opt_apply (map_option capitalizeFirstLetter (pu_first p)) (ue_first u),
       ue_last := opt_apply (map_option capitalizeFirstLetter (pu_last p)) (ue_last u),
       ue_title := tri_apply (pu_title p) (ue_title u), ue_role_id := opt_apply (pu_role p) (ue_role_id u),
       ue_admin := opt_apply (pu_admin p) (ue_admin u), ue_active := opt_apply (pu_active p) (ue_active u),
       ue_updated_by := tri_apply (pu_updated_by p) (ue_updated_by u)\<rparr>"

definition updateUser :: "int \<Rightarrow> user_patch \<Rightarrow> directory \<Rightarrow> directory \<times> (http_error + user)" where
  "updateUser i p d =
     (case findUserById d i of
        Inl er \<Rightarrow> (d, Inl er)
      | Inr _ \<Rightarrow>
          if (case pu_role p of None \<Rightarrow> False | Some r \<Rightarrow> findRole d r = None)
          then (d, Inl (unprocessable ''role_id''))
          else (case findUserRow d i of
                  None \<Rightarrow> (d, Inl PlainError)
                | Some u \<Rightarrow>
                    (case saveUser (patched_user p u) d of
                       Inl er \<Rightarrow> (d, Inl er)
                     | Inr d' \<Rightarrow> (d', toDomain d' (patched_user p u)))))"

definition changePassword :: "hasher \<Rightarrow> int \<Rightarrow> string \<Rightarrow> int option \<Rightarrow> directory \<Rightarrow> directory \<times> (http_error + unit)" where
  "changePassword h i pw by d =
     (case findUserById d i of
        Inl er \<Rightarrow> (d, Inl er)
      | Inr _ \<Rightarrow> (updatePasswordHash i (hash_of h pw) by d, Inr ()))"

definition changeMyPassword ::
  "hasher \<Rightarrow> int \<Rightarrow> string \<Rightarrow> string \<Rightarrow> directory \<Rightarrow> directory \<times> (http_error + unit)" where
  "changeMyPassword h i old pw d =
     (case bindR (withCredentials d (findUserRow d i)) (\<lambda>c. orNotFound c ''User'' i) of
        Inl er \<Rightarrow> (d, Inl er)
      | Inr (_, current) \<Rightarrow>
          if \<not> compare_hash h old current then (d, Inl Unauthorized)
          else (updatePasswordHash i (hash_of h pw) (Some i) d, Inr ()))"

definition softDeleteUser :: "int \<Rightarrow> int \<Rightarrow> int option \<Rightarrow> directory \<Rightarrow> directory \<times> (http_error + unit)" where
  "softDeleteUser now i actor d =
     (case findUserById d i of
        Inl er \<Rightarrow> (d, Inl er)
      | Inr _ \<Rightarrow> (d\<lparr>dr_users := update_where (\<lambda>u. ue_id u = i) (retire_user (now, actor)) (dr_users d)\<rparr>, Inr ()))"

text \<open>The port through which the other modules read users.\<close>

definition directory_port :: "directory \<Rightarrow> user_port" where
  "directory_port d =
     \<lparr>find_user = (\<lambda>i. case toDomainOpt d (findUserRow d i) of Inl _ \<Rightarrow> None | Inr u \<Rightarrow> u),
      user_row = (\<lambda>i. list_ex (\<lambda>u. ue_id u = i) (dr_users d))\<rparr>"

section \<open>The contract\<close>

text \<open>User ids and role ids are serial, live emails are unique without regard to case, role names are unique
  with the deleted roles included, and the role of every user has a row.\<close>

definition directory_inv :: "directory \<Rightarrow> bool" where
  "directory_inv d \<longleftrightarrow>
     serial_ok ue_id (dr_next d) (dr_users d) \<and> unique_active ue_live ue_key (dr_users d) \<and>
     serial_ok rr_id (dr_role_next d) (dr_roles d) \<and> unique_active (\<lambda>_. True) rr_name (dr_roles d) \<and>
     (\<forall>u \<in> set (dr_users d). ue_role_id u \<in> rr_id ` set (dr_roles d))"

interpretation email_index: partial_unique ue_id ue_live ue_key retire_user
  by unfold_locales (simp_all add: retire_user_def ue_live_def)

lemma findRole_Some: "findRole d i = Some r \<Longrightarrow> r \<in> set (dr_roles d) \<and> rr_id r = i \<and> rr_live r"
  unfolding findRole_def using find_Some_iff_mem by fastforce

lemma findUserRow_Some: "findUserRow d i = Some u \<Longrightarrow> u \<in> set (dr_users d) \<and> ue_id u = i \<and> ue_live u"
  unfolding findUserRow_def using find_Some_iff_mem by fastforce

lemma role_row_iff: "list_ex (\<lambda>r. rr_id r = i) rows \<longleftrightarrow> i \<in> rr_id ` set rows"
  unfolding list_ex_iff by blast

lemma insertUser_inv:
  assumes "insertUser u d = Inr (d', s)" "directory_inv d"
  shows "directory_inv d' \<and> s = u\<lparr>ue_id := dr_next d\<rparr> \<and> d' = d\<lparr>dr_users := dr_users d @ [s], dr_next := dr_next d + 1\<rparr>"
proof -
  have s: "s = u\<lparr>ue_id := dr_next d\<rparr>" "d' = d\<lparr>dr_users := dr_users d @ [s], dr_next := dr_next d + 1\<rparr>"
    "\<forall>q \<in> set (dr_users d). ue_live q \<longrightarrow> ue_key q \<noteq> ue_key u" "ue_role_id u \<in> rr_id ` set (dr_roles d)"
    using assms(1) by (auto simp: insertUser_def Let_def role_row_iff split: if_splits) (auto simp: list_ex_iff)
  have "ue_key s = ue_key u" "ue_id s = dr_next d" "ue_role_id s = ue_role_id u"
    by (simp_all add: s(1) ue_key_def)
  then have "directory_inv d'"
    using assms(2) s(2-4) serial_ok_snoc[of ue_id "dr_next d" "dr_users d" s]
    by (auto simp: directory_inv_def unique_active_snoc)
  then show ?thesis using s(1,2) by simp
qed

lemma saveUser_inv:
  assumes "saveUser u d = Inr d'" "directory_inv d"
  shows "directory_inv d' \<and> d' = d\<lparr>dr_users := update_where (\<lambda>q. ue_id q = ue_id u) (\<lambda>_. u) (dr_users d)\<rparr>"
proof -
  have s: "d' = d\<lparr>dr_users := update_where (\<lambda>q. ue_id q = ue_id u) (\<lambda>_. u) (dr_users d)\<rparr>"
    "ue_live u \<Longrightarrow> \<forall>q \<in> set (dr_users d). ue_id q \<noteq> ue_id u \<longrightarrow> ue_live q \<longrightarrow> ue_key q \<noteq> ue_key u"
    "ue_role_id u \<in> rr_id ` set (dr_roles d)"
    using assms(1) by (auto simp: saveUser_def role_row_iff split: if_splits) (auto simp: list_ex_iff)
  have inv: "serial_ok ue_id (dr_next d) (dr_users d)" "unique_active ue_live ue_key (dr_users d)"
    using assms(2) by (simp_all add: directory_inv_def)
  have "serial_ok ue_id (dr_next d) (update_where (\<lambda>q. ue_id q = ue_id u) (\<lambda>_. u) (dr_users d))"
    by (rule serial_ok_replace[OF inv(1)]) simp
  moreover have "unique_active ue_live ue_key (update_where (\<lambda>q. ue_id q = ue_id u) (\<lambda>_. u) (dr_users d))"
    using inv(1) s(2) by (intro unique_active_replace[OF inv(2)]) (auto simp: serial_ok_def)
  ultimately have "directory_inv d'"
    using assms(2) s(1,3) by (auto simp: directory_inv_def table_simps)
  then show ?thesis using s(1) by simp
qed

text \<open>The updates without a uniqueness check keep ids, emails and roles.\<close>

lemma touch_user_inv:
  assumes "directory_inv d" "\<And>u. ue_id (f u) = ue_id u" "\<And>u. ue_role_id (f u) = ue_role_id u"
    and "\<And>u. ue_live (f u) \<Longrightarrow> ue_live u \<and> ue_key (f u) = ue_key u"
  shows "directory_inv (d\<lparr>dr_users := update_where p f (dr_users d)\<rparr>)"
proof -
  have "unique_active ue_live ue_key (update_where p f (dr_users d))"
    by (rule unique_active_update) (use assms in \<open>auto simp: directory_inv_def\<close>)
  moreover have "\<forall>u \<in> set (update_where p f (dr_users d)). ue_role_id u \<in> rr_id ` set (dr_roles d)"
    using assms(1,3) by (auto simp: directory_inv_def table_simps)
  ultimately show ?thesis
    using assms(1) serial_ok_update_where[of ue_id "dr_next d" "dr_users d" f, OF _ assms(2)]
    by (simp add: directory_inv_def)
qed

lemma insertRole_inv:
  assumes "insertRole d n description ids by' = Inr (d', r)" "directory_inv d"
  shows "directory_inv d'"
proof -
  have r: "rr_name r = n" "rr_id r = dr_role_next d" "d' = d\<lparr>dr_roles := dr_roles d @ [r], dr_role_next := dr_role_next d + 1\<rparr>"
    "\<not> role_name_taken d (dr_role_next d) n"
    using assms(1) by (auto simp: insertRole_def bindR_eq_Inr Let_def split: if_splits)
  have "\<forall>q \<in> set (dr_roles d). rr_id q \<noteq> dr_role_next d"
    using assms(2) by (auto simp: directory_inv_def serial_ok_def list_all_iff)
  then have "n \<notin> rr_name ` set (dr_roles d)" using r(4) by (auto simp: role_name_taken_def list_ex_iff)
  then show ?thesis
    using assms(2) r(1-3) serial_ok_snoc[of rr_id "dr_role_next d" "dr_roles d" r]
    by (auto simp: directory_inv_def unique_active_snoc)
qed

lemma saveRole_inv:
  assumes "saveRole r d = Inr (d', s)" "directory_inv d" "rr_id r \<in> rr_id ` set (dr_roles d)"
  shows "directory_inv d'"
proof -
  have s: "d' = d\<lparr>dr_roles := update_where (\<lambda>q. rr_id q = rr_id r) (\<lambda>_. r) (dr_roles d)\<rparr>"
    "\<not> role_name_taken d (rr_id r) (rr_name r)"
    using assms(1) by (auto simp: saveRole_def split: if_splits)
  let ?rows = "update_where (\<lambda>q. rr_id q = rr_id r) (\<lambda>_. r) (dr_roles d)"
  have inv: "serial_ok rr_id (dr_role_next d) (dr_roles d)" "unique_active (\<lambda>_. True) rr_name (dr_roles d)"
    using assms(2) by (simp_all add: directory_inv_def)
  have "serial_ok rr_id (dr_role_next d) ?rows" by (rule serial_ok_replace[OF inv(1)]) simp
  moreover have "unique_active (\<lambda>_. True) rr_name ?rows"
    using inv(1) s(2) by (intro unique_active_replace[OF inv(2)]) (auto simp: serial_ok_def role_name_taken_def list_ex_iff)
  moreover have "map rr_id ?rows = map rr_id (dr_roles d)" by (induction "dr_roles d") (auto simp: update_where_def)
  then have "rr_id ` set ?rows = rr_id ` set (dr_roles d)" by (metis list.set_map)
  ultimately show ?thesis using assms(2) s(1) by (simp add: directory_inv_def)
qed

lemma delete_role_inv:
  assumes "directory_inv d"
  shows "directory_inv (d\<lparr>dr_roles := update_where p (retire_role a) (dr_roles d)\<rparr>)"
proof -
  have "map rr_id (update_where p (retire_role a) (dr_roles d)) = map rr_id (dr_roles d)"
    "map rr_name (update_where p (retire_role a) (dr_roles d)) = map rr_name (dr_roles d)"
    by (simp_all add: update_where_def retire_role_def)
  then have "rr_id ` set (update_where p (retire_role a) (dr_roles d)) = rr_id ` set (dr_roles d)"
    "unique_active (\<lambda>_. True) rr_name (update_where p (retire_role a) (dr_roles d)) =
       unique_active (\<lambda>_. True) rr_name (dr_roles d)"
    "serial_ok rr_id (dr_role_next d) (update_where p (retire_role a) (dr_roles d)) =
       serial_ok rr_id (dr_role_next d) (dr_roles d)"
    by (metis list.set_map, simp add: unique_active_def, metis serial_ok_map)
  then show ?thesis using assms by (simp add: directory_inv_def)
qed

section \<open>Reachable directories\<close>

inductive directory_step :: "directory \<Rightarrow> directory \<Rightarrow> bool" where
  create_user: "directory_step d (fst (createUser h now i d ld))"
| update_user: "directory_step d (fst (updateUser i p d))"
| reset_password: "directory_step d (fst (changePassword h i pw by' d))"
| my_password: "directory_step d (fst (changeMyPassword h i old pw d))"
| delete_user: "directory_step d (fst (softDeleteUser now i actor d))"
| login: "directory_step d (recordLogin i now d)"
| create_role: "directory_step d (fst (createRole n description ids by' d))"
| update_role: "directory_step d (fst (updateRole i rp d))"
| permissions: "directory_step d (fst (assignPermissions i ids d))"
| delete_role: "directory_step d (fst (softDeleteRole now i actor d))"

lemma updatePasswordHash_inv: "directory_inv d \<Longrightarrow> directory_inv (updatePasswordHash i h by' d)"
  unfolding updatePasswordHash_def by (rule touch_user_inv) (auto simp: ue_live_def ue_key_def)

lemma createUser_directory:
  assumes "createUser h now i d ld = (d', ld', res)"
  shows "d' = d \<or> (\<exists>s. insertUser (new_user h now i (toLowerCase (trim (ui_email i)))) d = Inr (d', s))"
  using assms by (auto simp: createUser_def Let_def split: if_splits sum.splits prod.splits)

lemma updateUser_directory:
  assumes "updateUser i p d = (d', res)"
  shows "d' = d \<or> (\<exists>u. saveUser u d = Inr d')"
  using assms by (auto simp: updateUser_def split: if_splits sum.splits prod.splits option.splits)

lemma updateRole_directory:
  assumes "updateRole i p d = (d', res)"
  shows "d' = d \<or> (\<exists>r s. saveRole r d = Inr (d', s) \<and> rr_id r \<in> rr_id ` set (dr_roles d))"
proof (cases "findRole d i")
  case None
  then show ?thesis using assms by (simp add: updateRole_def)
next
  case (Some r)
  then show ?thesis
    using assms findRole_Some[OF Some]
    by (auto simp: updateRole_def split: if_splits sum.splits prod.splits)
qed

lemma assignPermissions_directory:
  assumes "assignPermissions i ids d = (d', res)"
  shows "d' = d \<or> (\<exists>r s. saveRole r d = Inr (d', s) \<and> rr_id r \<in> rr_id ` set (dr_roles d))"
proof (cases "findRole d i")
  case None
  then show ?thesis using assms by (simp add: assignPermissions_def bindR_def)
next
  case (Some r)
  then show ?thesis
    using assms findRole_Some[OF Some]
    by (auto simp: assignPermissions_def bindR_def split: sum.splits prod.splits)
qed

lemma directory_step_inv: "directory_step d d' \<Longrightarrow> directory_inv d \<Longrightarrow> directory_inv d'"
proof (induction rule: directory_step.induct)
  case (create_user d h now i ld)
  obtain d' ld' res where "createUser h now i d ld = (d', ld', res)" by (metis prod.exhaust)
  then show ?case using createUser_directory insertUser_inv create_user by fastforce
next
  case (update_user d i p)
  then show ?case using updateUser_directory[OF prod.collapse[symmetric]] saveUser_inv by metis
next
  case (reset_password d h i pw by')
  then show ?case by (auto simp: changePassword_def updatePasswordHash_inv split: sum.splits)
next
  case (my_password d h i old pw)
  then show ?case by (auto simp: changeMyPassword_def updatePasswordHash_inv split: sum.splits prod.splits)
next
  case (delete_user d now i actor)
  then show ?case
    by (auto simp: softDeleteUser_def retire_user_def ue_live_def split: sum.splits intro!: touch_user_inv)
next
  case (login d i now)
  then show ?case unfolding recordLogin_def by (rule touch_user_inv) (auto simp: ue_live_def ue_key_def)
next
  case (create_role d n description ids by')
  then show ?case
    by (auto simp: createRole_def bindR_def split: sum.splits prod.splits dest: insertRole_inv)
next
  case (update_role d i rp)
  then show ?case using updateRole_directory[OF prod.collapse[symmetric]] saveRole_inv by metis
next
  case (permissions d i ids)
  then show ?case using assignPermissions_directory[OF prod.collapse[symmetric]] saveRole_inv by metis
next
  case (delete_role d now i actor)
  then show ?case by (auto simp: softDeleteRole_def split: sum.splits intro: delete_role_inv)
qed

definition empty_directory :: "role_row list \<Rightarrow> permission list \<Rightarrow> directory" where
  "empty_directory roles perms =
     \<lparr>dr_users = [], dr_next = 1, dr_roles = roles, dr_role_next = int (length roles) + 1, dr_permissions = perms\<rparr>"

text \<open>The role seeder starts from numbered roles with distinct names.\<close>

definition seed_roles :: "role_row list" where
  "seed_roles =
     map (\<lambda>(n, i). \<lparr>rr_id = int i + 1, rr_name = n, rr_description = None, rr_permissions = [], rr_created_by = None,
                     rr_updated_by = None, rr_deleted_by = None, rr_deleted_at = None\<rparr>)
       (zip ROLE_NAMES [0..<length ROLE_NAMES])"

lemma directory_seed_inv: "directory_inv (empty_directory seed_roles perms)"
  by (simp add: directory_inv_def empty_directory_def seed_roles_def ROLE_NAMES_def serial_ok_def unique_active_def
      upt_rec)

lemma directory_reachable_inv:
  assumes "directory_step\<^sup>*\<^sup>* (empty_directory seed_roles perms) d"
  shows "directory_inv d"
  using assms by (induction rule: rtranclp_induct) (auto intro: directory_seed_inv directory_step_inv)

text \<open>C39: In every directory reachable from the seeded roles two live users never share an email up to case,
  two roles never share a name, deleted ones included, and every user's role has a row.\<close>

theorem directory_reachable_contract:
  assumes "directory_step\<^sup>*\<^sup>* (empty_directory seed_roles perms) d"
  shows "(\<forall>u \<in> set (dr_users d). \<forall>v \<in> set (dr_users d). ue_live u \<longrightarrow> ue_live v \<longrightarrow>
      toLowerCase (ue_email u) = toLowerCase (ue_email v) \<longrightarrow> u = v) \<and>
    (\<forall>q \<in> set (dr_roles d). \<forall>r \<in> set (dr_roles d). rr_name q = rr_name r \<longrightarrow> q = r) \<and>
    (\<forall>u \<in> set (dr_users d). \<exists>r \<in> set (dr_roles d). rr_id r = ue_role_id u)"
proof -
  have inv: "directory_inv d" by (rule directory_reachable_inv[OF assms])
  then have "unique_active ue_live ue_key (dr_users d)" "unique_active (\<lambda>_. True) rr_name (dr_roles d)"
    by (simp_all add: directory_inv_def)
  moreover have "\<forall>u \<in> set (dr_users d). \<exists>r \<in> set (dr_roles d). rr_id r = ue_role_id u"
    using inv unfolding directory_inv_def image_iff by metis
  ultimately show ?thesis
    using unique_active_inj[of ue_live ue_key "dr_users d"] unique_active_inj[of "\<lambda>_. True" rr_name "dr_roles d"]
    unfolding ue_key_def by (intro conjI) blast+
qed

section \<open>Deleting and renaming roles\<close>

lemma findRole_deleted:
  assumes "softDeleteRole now i actor d = (d', Inr ())"
  shows "findRole d' i = None \<and> dr_users d' = dr_users d"
proof -
  have d': "d' = d\<lparr>dr_roles := update_where (\<lambda>q. rr_id q = i \<and> rr_live q) (retire_role (now, actor)) (dr_roles d)\<rparr>"
    using assms by (simp add: softDeleteRole_def split: sum.splits if_splits)
  have "\<not> (rr_id r = i \<and> rr_live r)" if mem: "r \<in> set (dr_roles d')" for r
  proof -
    have "r \<in> set (update_where (\<lambda>q. rr_id q = i \<and> rr_live q) (retire_role (now, actor)) (dr_roles d))"
      using mem by (simp add: d')
    then obtain q where "r = (if rr_id q = i \<and> rr_live q then retire_role (now, actor) q else q)"
      unfolding in_set_update_where by blast
    then show ?thesis by (auto simp: rr_live_def retire_role_def)
  qed
  then show ?thesis by (simp add: findRole_def find_None_conv d')
qed

text \<open>Deleting a role checks its name but not its holders.  After the deletion every user who still has
  the role can no longer be loaded: the lookup by id and by email throws, the other modules see no such
  user, and a page of the user list on which the user falls throws for everybody.\<close>

theorem role_delete_locks_out_holders:
  assumes "directory_step\<^sup>*\<^sup>* (empty_directory seed_roles perms) d"
    and "softDeleteRole now i actor d = (d', Inr ())"
    and "u \<in> set (dr_users d)" "ue_live u" "ue_role_id u = i"
  shows "findUserById d' (ue_id u) = Inl PlainError \<and> findByEmail d' (ue_email u) = Inl PlainError \<and>
    find_user (directory_port d') (ue_id u) = None \<and>
    (\<forall>c. u \<in> set (user_page d' c) \<longrightarrow> findAllUsers d' c = Inl PlainError)"
proof -
  have del: "findRole d' i = None" "dr_users d' = dr_users d" using findRole_deleted[OF assms(2)] by auto
  have inv: "directory_inv d" by (rule directory_reachable_inv[OF assms(1)])
  have no: "toDomain d' u = Inl PlainError" using del(1) assms(5) by (simp add: toDomain_def)
  have "findUserRow d' (ue_id u) = Some u"
    unfolding findUserRow_def del(2)
    by (rule find_unique)
      (use assms(3,4) inv serial_ok_inj[of ue_id "dr_next d" "dr_users d"] in \<open>auto simp: directory_inv_def\<close>)
  then have 1: "findUserById d' (ue_id u) = Inl PlainError" "find_user (directory_port d') (ue_id u) = None"
    using no by (simp_all add: findUserById_def toDomainOpt_def bindR_def directory_port_def)
  have same: "v = u" if "v \<in> set (dr_users d)" "ue_live v" "ue_key v = toLowerCase (ue_email u)" for v
    using unique_active_inj[of ue_live ue_key "dr_users d" v u] inv that assms(3,4)
    by (simp add: directory_inv_def ue_key_def)
  have "findRowByEmail d' (ue_email u) = Some u"
    unfolding findRowByEmail_def del(2)
    by (rule find_unique) (use assms(3,4) same in \<open>auto simp: ue_key_def\<close>)
  then have 2: "findByEmail d' (ue_email u) = Inl PlainError"
    using no by (simp add: findByEmail_def toDomainOpt_def bindR_def)
  have "toDomain d' x = Inl er \<Longrightarrow> er = PlainError" for x er by (auto simp: toDomain_def split: option.splits)
  then have "u \<in> set xs \<Longrightarrow> mapR (toDomain d') xs = Inl PlainError" for xs
  proof (induction xs)
    case (Cons x xs)
    then show ?case using no by (cases "toDomain d' x") (auto simp: bindR_def)
  qed simp
  then show ?thesis using 1 2 by (simp add: findAllUsers_def bindR_def)
qed

text \<open>The guard on the built-in roles looks at the current name only: renaming a role, built-in or not, to a
  free name that is not built-in succeeds, and then the role can be deleted.\<close>

theorem protected_role_deletable_after_rename:
  assumes "directory_step\<^sup>*\<^sup>* (empty_directory seed_roles perms) d"
    and "findRole d i = Some r" "n \<noteq> []" "n \<notin> set PROTECTED_ROLES" "\<forall>q \<in> set (dr_roles d). rr_name q \<noteq> n"
    and "rp_name p = Some n"
  shows "\<exists>d1 d2. updateRole i p d = (d1, Inr (r\<lparr>rr_name := n,
        rr_description := tri_apply (rp_description p) (rr_description r),
        rr_updated_by := tri_apply (rp_updated_by p) (rr_updated_by r)\<rparr>)) \<and>
    softDeleteRole now i actor d1 = (d2, Inr ()) \<and> findRole d2 i = None"
proof -
  let ?r = "r\<lparr>rr_name := n, rr_description := tri_apply (rp_description p) (rr_description r),
    rr_updated_by := tri_apply (rp_updated_by p) (rr_updated_by r)\<rparr>"
  have inv: "directory_inv d" by (rule directory_reachable_inv[OF assms(1)])
  have r: "r \<in> set (dr_roles d)" "rr_id r = i" "rr_live r" using findRole_Some[OF assms(2)] by auto
  let ?d1 = "d\<lparr>dr_roles := update_where (\<lambda>q. rr_id q = i) (\<lambda>_. ?r) (dr_roles d)\<rparr>"
  have "findRoleByName d n = None" using assms(5) by (auto simp: findRoleByName_def find_None_conv)
  moreover have "\<not> role_name_taken d i n" using assms(5) by (auto simp: role_name_taken_def list_ex_iff)
  ultimately have up: "updateRole i p d = (?d1, Inr ?r)"
    using assms(2,6) r(2) by (simp add: updateRole_def saveRole_def)
  have "findRole ?d1 i = Some ?r"
    unfolding findRole_def
    by (rule find_unique) (use r in \<open>auto simp: in_set_update_where rr_live_def intro!: bexI[of _ r] split: if_splits\<close>)
  then have "snd (softDeleteRole now i actor ?d1) = Inr ()"
    using assms(4) by (simp add: softDeleteRole_def)
  then obtain d2 where "softDeleteRole now i actor ?d1 = (d2, Inr ())"
    by (cases "softDeleteRole now i actor ?d1") simp
  then show ?thesis using up findRole_deleted by blast
qed

text \<open>The service looks for a name among the live roles, the unique constraint among all: creating a role
  with the name of a deleted one passes the check and ends in the raw database error.\<close>

theorem deleted_role_name_unmapped:
  assumes "directory_step\<^sup>*\<^sup>* (empty_directory seed_roles perms) d"
    and "r \<in> set (dr_roles d)" "\<not> rr_live r"
  shows "createRole (rr_name r) description [] actor d = (d, Inl UniqueViolation)"
proof -
  have inv: "directory_inv d" by (rule directory_reachable_inv[OF assms(1)])
  then have uniq: "q = r" if "q \<in> set (dr_roles d)" "rr_name q = rr_name r" for q
    using that unique_active_inj[of "\<lambda>_. True" rr_name "dr_roles d" q r] assms(2) by (simp add: directory_inv_def)
  then have "findRoleByName d (rr_name r) = None"
    using assms(3) by (auto simp: findRoleByName_def find_None_conv)
  moreover have "rr_id r \<noteq> dr_role_next d"
    using inv assms(2) by (auto simp: directory_inv_def serial_ok_def list_all_iff)
  then have "role_name_taken d (dr_role_next d) (rr_name r)"
    using assms(2) by (auto simp: role_name_taken_def list_ex_iff)
  ultimately show ?thesis
    by (simp add: createRole_def assertPermissionsExist_def insertRole_def loadPermissions_def bindR_def)
qed

section \<open>Creating a user\<close>

lemma toLowerCase_idem: "toLowerCase (toLowerCase s) = toLowerCase s"
proof -
  have "lower_char (lower_char c) = lower_char c" for c
    by (simp add: lower_char_def)
  then show ?thesis by (simp add: toLowerCase_def)
qed

lemma default_allocations_eq:
  "\<exists>ld'. default_allocations now e by' ld = (ld', Inr ()) \<and>
     (\<forall>x t. allowance ld' x t = allowance ld x t + (if x = e \<and> (t = Vacation \<or> t = Sick) then 10 else 0))"
proof -
  have amounts: "DEFAULT_LEAVE_ALLOCATIONS = [(Vacation, 10), (Sick, 10)]"
    by (simp add: DEFAULT_LEAVE_ALLOCATIONS_def)
  show ?thesis
    by (auto simp: default_allocations_def amounts al_create_def new_allocation_def Let_def allowance_def al_live_def)
qed

text \<open>Creating a user with a free email and a live role succeeds: the row carries the trimmed lower-case
  email and a hash of the password, the returned user is active unless asked otherwise, the employee's
  allowance grows by ten days of vacation and of sick leave, and nothing of anybody else changes.
  Otherwise the call is refused with the field at fault and changes nothing.\<close>

theorem createUser_outcomes:
  assumes "directory_step\<^sup>*\<^sup>* (empty_directory seed_roles perms) d"
    and "createUser h now i d ld = (d', ld', res)" "email = toLowerCase (trim (ui_email i))"
  shows "if existsByEmail d email then d' = d \<and> ld' = ld \<and> res = Inl (unprocessable ''email'')
    else if findRole d (ui_role i) = None then d' = d \<and> ld' = ld \<and> res = Inl (unprocessable ''role_id'')
    else \<exists>u row. res = Inr u \<and> usr_id u = dr_next d \<and> usr_email u = email \<and>
       usr_is_active u = (ui_active i \<noteq> Some False) \<and>
       dr_users d' = dr_users d @ [row] \<and> ue_id row = usr_id u \<and> ue_email row = email \<and>
       ue_hash row = hash_of h (ui_password i) \<and> findUserById d' (usr_id u) = Inr u \<and>
       (\<forall>x t. allowance ld' x t = allowance ld x t + (if x = usr_id u \<and> (t = Vacation \<or> t = Sick) then 10 else 0))"
proof -
  have inv: "directory_inv d" by (rule directory_reachable_inv[OF assms(1)])
  show ?thesis
  proof (cases "existsByEmail d email \<or> findRole d (ui_role i) = None")
    case True
    then show ?thesis using assms(2,3) by (auto simp: createUser_def Let_def)
  next
    case False
    then obtain r where r: "findRole d (ui_role i) = Some r" by auto
    define row where "row = (new_user h now i email)\<lparr>ue_id := dr_next d\<rparr>"
    have low: "toLowerCase email = email" unfolding assms(3) by (simp add: toLowerCase_idem)
    have key: "ue_key (new_user h now i email) = email" "ue_email row = email"
      by (simp_all add: new_user_def ue_key_def low row_def)
    have "\<not> list_ex (\<lambda>q. ue_live q \<and> ue_key q = email) (dr_users d)"
      using False low by (auto simp: existsByEmail_def list_ex_iff)
    moreover have "list_ex (\<lambda>q. rr_id q = ue_role_id (new_user h now i email)) (dr_roles d)"
      using findRole_Some[OF r] by (auto simp: list_ex_iff new_user_def)
    ultimately have ins: "insertUser (new_user h now i email) d =
        Inr (d\<lparr>dr_users := dr_users d @ [row], dr_next := dr_next d + 1\<rparr>, row)"
      by (simp add: insertUser_def key row_def Let_def)
    let ?d = "d\<lparr>dr_users := dr_users d @ [row], dr_next := dr_next d + 1\<rparr>"
    obtain u where u: "toDomain ?d row = Inr u" "usr_id u = dr_next d" "usr_email u = email"
      "usr_is_active u = ue_active row"
      using r key(2) by (simp add: toDomain_def findRole_def row_def new_user_def)
    have act: "ue_active row = (ui_active i \<noteq> Some False)"
      by (cases "ui_active i") (auto simp: row_def new_user_def opt_apply_def)
    obtain l where l: "default_allocations now (ue_id row) (ui_created_by i) ld = (l, Inr ())"
      "\<forall>x t. allowance l x t = allowance ld x t + (if x = ue_id row \<and> (t = Vacation \<or> t = Sick) then 10 else 0)"
      using default_allocations_eq by blast
    have id: "ue_id row = dr_next d" by (simp add: row_def)
    have eq: "createUser h now i d ld = (?d, l, Inr u)"
      using False r ins u(1) l(1) assms(3) by (simp add: createUser_def Let_def)
    have fresh: "\<forall>q \<in> set (dr_users d). ue_id q \<noteq> dr_next d"
      using inv by (auto simp: directory_inv_def serial_ok_def list_all_iff)
    have "findUserRow ?d (dr_next d) = Some row"
      unfolding findUserRow_def
      by (rule find_unique) (use fresh in \<open>auto simp: row_def ue_live_def new_user_def\<close>)
    then have "findUserById ?d (dr_next d) = Inr u"
      using u(1) by (simp add: findUserById_def toDomainOpt_def bindR_def)
    then show ?thesis
      using False eq assms(2) u l(2) id key(2) act by (auto simp: row_def new_user_def)
  qed
qed

text \<open>A password change is what the next comparison sees: after a reset, or after a change that was
  authorised by the current password, the stored hash of the user matches the new password, and no
  other user's hash has changed; with a wrong current password nothing changes.\<close>

theorem password_change_roundtrip:
  assumes "directory_step\<^sup>*\<^sup>* (empty_directory seed_roles perms) d" "hasher_ok h"
    and "changeMyPassword h i old pw d = (d', res)"
  shows "case res of
    Inl er \<Rightarrow> d' = d
  | Inr _ \<Rightarrow> (\<exists>u. findUserRow d i = Some u \<and> compare_hash h old (ue_hash u)) \<and>
      (\<exists>u. findUserRow d' i = Some u \<and> compare_hash h pw (ue_hash u)) \<and>
      (\<forall>j. j \<noteq> i \<longrightarrow> findUserRow d' j = findUserRow d j)"
proof (cases res)
  case (Inl er)
  then show ?thesis using assms(3) by (auto simp: changeMyPassword_def split: sum.splits if_splits)
next
  case (Inr x)
  have inv: "directory_inv d" by (rule directory_reachable_inv[OF assms(1)])
  obtain u where u: "findUserRow d i = Some u" "compare_hash h old (ue_hash u)"
    and d': "d' = updatePasswordHash i (hash_of h pw) (Some i) d"
    using assms(3) Inr
    by (auto simp: changeMyPassword_def withCredentials_def bindR_eq_Inr split: sum.splits if_splits option.splits)
  let ?f = "\<lambda>u. u\<lparr>ue_hash := hash_of h pw, ue_updated_by := Some i\<rparr>"
  have upd: "find (\<lambda>u. ue_id u = j \<and> ue_live u) (update_where (\<lambda>u. ue_id u = i) ?f us) =
      map_option (\<lambda>u. if j = i then ?f u else u) (find (\<lambda>u. ue_id u = j \<and> ue_live u) us)" for j us
    by (induction us) (auto simp: ue_live_def)
  have "findUserRow d' i = Some (?f u)" "\<And>j. j \<noteq> i \<Longrightarrow> findUserRow d' j = findUserRow d j"
    using u(1) upd by (simp_all add: d' updatePasswordHash_def findUserRow_def option.map_ident)
  then show ?thesis using u Inr assms(2) by (auto simp: hasher_ok_def)
qed

section \<open>A sample run\<close>

text \<open>A custom role and a user who has it; passwords are stored reversed.\<close>

definition sample_hasher :: hasher where
  "sample_hasher = \<lparr>hash_of = rev, compare_hash = (\<lambda>p h. h = rev p)\<rparr>"

definition sample_input :: "string \<Rightarrow> int \<Rightarrow> user_input" where
  "sample_input email role =
     \<lparr>ui_email = email, ui_password = ''Pw'', ui_first = ''jane'', ui_last = ''doe'', ui_title = None, ui_role = role,
      ui_admin = None, ui_active = None, ui_created_by = None\<rparr>"

definition dir_roles :: directory where
  "dir_roles = fst (createRole ''LEAD'' None [] None (empty_directory seed_roles []))"

definition dir_sample :: directory where
  "dir_sample = fst (createUser sample_hasher 5 (sample_input '' Jane@X.io'' 7) dir_roles empty_leave_db)"

lemma dir_roles_reachable: "directory_step\<^sup>*\<^sup>* (empty_directory seed_roles []) dir_roles"
  unfolding dir_roles_def by (rule r_into_rtranclp, rule directory_step.create_role)

lemma dir_sample_reachable: "directory_step\<^sup>*\<^sup>* (empty_directory seed_roles []) dir_sample"
  unfolding dir_sample_def
  by (rule rtranclp.rtrancl_into_rtrancl[OF dir_roles_reachable directory_step.create_user])

lemma dir_sample_user:
  obtains u where "dr_users dir_sample = [u]" "ue_live u" "ue_role_id u = 7" "ue_id u = 1" "ue_email u = ''jane@x.io''"
proof -
  have "map (\<lambda>u. (ue_deleted_at u, ue_role_id u, ue_id u, ue_email u)) (dr_users dir_sample) = [(None, 7, 1, ''jane@x.io'')]"
    by code_simp
  then obtain u where "dr_users dir_sample = [u]" "ue_deleted_at u = None" "ue_role_id u = 7" "ue_id u = 1"
    "ue_email u = ''jane@x.io''" by auto
  then show thesis by (intro that) (simp_all add: ue_live_def)
qed

theorem directory_reachable_contract_witness:
  "length (dr_users dir_sample) = 1 \<and>
   list_all (\<lambda>u. list_ex (\<lambda>r. rr_id r = ue_role_id u) (dr_roles dir_sample)) (dr_users dir_sample)"
proof
  show "length (dr_users dir_sample) = 1" by code_simp
  show "list_all (\<lambda>u. list_ex (\<lambda>r. rr_id r = ue_role_id u) (dr_roles dir_sample)) (dr_users dir_sample)"
    using directory_reachable_contract[OF dir_sample_reachable] unfolding list_all_iff list_ex_iff by blast
qed

theorem role_delete_locks_out_holders_witness:
  "okR (findUserById dir_sample 1) \<and> findUserById (fst (softDeleteRole 9 7 None dir_sample)) 1 = Inl PlainError"
proof
  show "okR (findUserById dir_sample 1)" by code_simp
  obtain u where u: "dr_users dir_sample = [u]" "ue_live u" "ue_role_id u = 7" "ue_id u = 1"
    by (rule dir_sample_user)
  have "okR (snd (softDeleteRole 9 7 None dir_sample))" by code_simp
  then have "softDeleteRole 9 7 None dir_sample = (fst (softDeleteRole 9 7 None dir_sample), Inr ())"
    by (cases "snd (softDeleteRole 9 7 None dir_sample)") (auto simp: prod_eq_iff)
  from role_delete_locks_out_holders[OF dir_sample_reachable this, of u] u
  show "findUserById (fst (softDeleteRole 9 7 None dir_sample)) 1 = Inl PlainError" by simp
qed

theorem protected_role_deletable_after_rename_witness:
  "snd (softDeleteRole 9 2 None dir_sample) = Inl ForbiddenPlain \<and>
   (\<exists>d1 r d2. updateRole 2 \<lparr>rp_name = Some ''OLD_HR'', rp_description = Undefined, rp_updated_by = Undefined\<rparr> dir_sample =
       (d1, Inr r) \<and> softDeleteRole 9 2 None d1 = (d2, Inr ()))"
proof
  show "snd (softDeleteRole 9 2 None dir_sample) = Inl ForbiddenPlain" by code_simp
  have "map_option rr_name (findRole dir_sample 2) = Some ''HR_ADMIN''" by code_simp
  then obtain r where r: "findRole dir_sample 2 = Some r" by auto
  have "''OLD_HR'' \<noteq> []" "''OLD_HR'' \<notin> set PROTECTED_ROLES" by (simp_all add: PROTECTED_ROLES_def ROLE_NAMES_def)
  moreover have "list_all (\<lambda>q. rr_name q \<noteq> ''OLD_HR'') (dr_roles dir_sample)" by code_simp
  then have "\<forall>q \<in> set (dr_roles dir_sample). rr_name q \<noteq> ''OLD_HR''" by (simp add: list_all_iff)
  ultimately show "\<exists>d1 r d2. updateRole 2 \<lparr>rp_name = Some ''OLD_HR'', rp_description = Undefined, rp_updated_by = Undefined\<rparr> dir_sample =
       (d1, Inr r) \<and> softDeleteRole 9 2 None d1 = (d2, Inr ())"
    using protected_role_deletable_after_rename[OF dir_sample_reachable r, of "''OLD_HR''"
        "\<lparr>rp_name = Some ''OLD_HR'', rp_description = Undefined, rp_updated_by = Undefined\<rparr>" 9 None]
    by auto
qed

definition dir_deleted :: directory where
  "dir_deleted = fst (softDeleteRole 9 7 None dir_roles)"

theorem deleted_role_name_unmapped_witness:
  "createRole ''LEAD'' None [] None dir_deleted = (dir_deleted, Inl UniqueViolation)"
proof -
  have reach: "directory_step\<^sup>*\<^sup>* (empty_directory seed_roles []) dir_deleted"
    unfolding dir_deleted_def
    by (rule rtranclp.rtrancl_into_rtrancl[OF dir_roles_reachable directory_step.delete_role])
  have "map (\<lambda>r. (rr_name r, rr_deleted_at r)) (drop 6 (dr_roles dir_deleted)) = [(''LEAD'', Some 9)]" by code_simp
  then obtain r where r: "drop 6 (dr_roles dir_deleted) = [r]" "rr_name r = ''LEAD''" "rr_deleted_at r = Some 9" by auto
  then have "r \<in> set (dr_roles dir_deleted)" using in_set_dropD[of r 6 "dr_roles dir_deleted"] by simp
  from deleted_role_name_unmapped[OF reach this, of None None] r(2,3) show ?thesis by (simp add: rr_live_def)
qed

theorem createUser_outcomes_witness:
  "snd (snd (createUser sample_hasher 5 (sample_input ''JANE@x.io'' 7) dir_sample empty_leave_db)) =
     Inl (unprocessable ''email'') \<and>
   okR (snd (snd (createUser sample_hasher 5 (sample_input ''joe@x.io'' 7) dir_sample empty_leave_db)))"
proof
  let ?c = "\<lambda>e. createUser sample_hasher 5 (sample_input e 7) dir_sample empty_leave_db"
  have ex: "existsByEmail dir_sample (toLowerCase (trim ''JANE@x.io''))"
    "\<not> existsByEmail dir_sample (toLowerCase (trim ''joe@x.io''))" by code_simp+
  have "\<not> Option.is_none (findRole dir_sample 7)" by code_simp
  then have role: "findRole dir_sample 7 \<noteq> None" by (simp add: Option.is_none_def)
  have split: "?c e = (fst (?c e), fst (snd (?c e)), snd (snd (?c e)))" for e by simp
  show "snd (snd (?c ''JANE@x.io'')) = Inl (unprocessable ''email'')"
    using createUser_outcomes[OF dir_sample_reachable split refl, of "''JANE@x.io''"] ex(1)
    by (simp add: sample_input_def)
  show "okR (snd (snd (?c ''joe@x.io'')))"
    using createUser_outcomes[OF dir_sample_reachable split refl, of "''joe@x.io''"] ex(2) role
    by (auto simp: sample_input_def)
qed

theorem password_change_roundtrip_witness:
  "\<exists>u. findUserRow (fst (changeMyPassword sample_hasher 1 ''Pw'' ''New'' dir_sample)) 1 = Some u \<and>
     compare_hash sample_hasher ''New'' (ue_hash u)"
proof -
  let ?c = "changeMyPassword sample_hasher 1 ''Pw'' ''New'' dir_sample"
  have "okR (snd ?c)" by code_simp
  then obtain x where x: "snd ?c = Inr x" by (cases "snd ?c") auto
  have "hasher_ok sample_hasher" by (simp add: hasher_ok_def sample_hasher_def)
  from password_change_roundtrip[OF dir_sample_reachable this prod.collapse[symmetric], of 1 "''Pw''" "''New''"] x
  show ?thesis by simp
qed

end
