(* ===== verification/ApprovalsInbox.thy ===== *)
theory ApprovalsInbox
  imports LeaveLifecycle CorrectionOutcomes Directory
begin

text \<open>
  The approvals inbox (\<open>src/src/approvals/approvals.service.ts\<close>): one page of the pending leave requests and
  time corrections a caller is the current approver of, or of all of them, merged by submission time.  It
  reads the leave and correction tables and the directory of users, and changes nothing.
\<close>

section \<open>The service\<close>

datatype pending_kind = Pending_leave | Pending_correction

record pending_times =
  pt_original_in :: "int option"
  pt_original_out :: "int option"
  pt_proposed_in :: int
  pt_proposed_out :: "int option"
  pt_is_new_log :: bool

record pending_approval =
  pa_id :: int
  pa_kind :: pending_kind
  pa_employee :: int
  pa_employee_name :: string
  pa_requested_at :: int
  pa_step :: int
  pa_approver :: int
  pa_approver_name :: string
  pa_summary :: string
  pa_times :: "pending_times option"

record inbox_query =
  iq_type :: "pending_kind option"
  iq_page :: "int option"
  iq_limit :: "int option"

definition canSeeAll :: "user \<Rightarrow> bool" where
  "canSeeAll u \<longleftrightarrow> usr_system_admin u \<or> hasPermission u ''APPROVAL:ApproveAny''"

definition resolveNames :: "directory \<Rightarrow> int list \<Rightarrow> http_error + (int \<rightharpoonup> string)" where
  "resolveNames d ids =
     (let uniq = remdups ids
      in if uniq = [] then Inr Map.empty
         else bindR (findByIds d uniq) (\<lambda>us.
           Inr (map_of (rev (map (\<lambda>u. (usr_id u, usr_first_name u @ '' '' @ usr_last_name u)) us)))))"

definition name_or_id :: "(int \<rightharpoonup> string) \<Rightarrow> int \<Rightarrow> string" where
  "name_or_id names i = (case names i of None \<Rightarrow> ''User #'' @ int_text i | Some n \<Rightarrow> n)"

definition leave_type_name :: "leave_type \<Rightarrow> string" where
  "leave_type_name t = (case t of Vacation \<Rightarrow> ''vacation'' | Sick \<Rightarrow> ''sick'' | Bereavement \<Rightarrow> ''bereavement''
     | Birthday \<Rightarrow> ''birthday'' | Emergency \<Rightarrow> ''emergency'')"

definition leave_approver :: "leave \<Rightarrow> int" where
  "leave_approver l = (case (if lr_status l = Pending_l1 then Some (lr_l1 l) else lr_l2 l) of
     None \<Rightarrow> lr_l1 l | Some a \<Rightarrow> a)"

definition mapLeaves :: "directory \<Rightarrow> leave list \<Rightarrow> http_error + pending_approval list" where
  "mapLeaves d ls =
     bindR (resolveNames d (map lr_employee ls @ map leave_approver ls)) (\<lambda>names.
       Inr (map (\<lambda>l. \<lparr>pa_id = lr_id l, pa_kind = Pending_leave, pa_employee = lr_employee l,
                  pa_employee_name = name_or_id names (lr_employee l), pa_requested_at = lr_submitted_at l,
                  pa_step = (if lr_status l = Pending_l1 then 1 else 2), pa_approver = leave_approver l,
                  pa_approver_name = name_or_id names (leave_approver l),
                  pa_summary = leave_type_name (lr_type l) @ '' leave, '' @ date_text (lr_start l) @ '' to '' @
                    date_text (lr_end l),
                  pa_times = None\<rparr>) ls))"

definition correction_approver :: "correction \<Rightarrow> int" where
  "correction_approver c = (case (if tc_status c = Pending_l1 then Some (tc_l1 c) else tc_l2 c) of
     None \<Rightarrow> tc_l1 c | Some a \<Rightarrow> a)"

text \<open>The join of the target entry leaves out a soft-deleted one.\<close>

definition target_entry :: "correction_db \<Rightarrow> correction \<Rightarrow> entry option" where
  "target_entry db c = (case tc_target c of None \<Rightarrow> None
     | Some t \<Rightarrow> find (\<lambda>e. te_id e = t \<and> te_live e) (te_rows (tc_entries db)))"

definition correction_times :: "correction_db \<Rightarrow> correction \<Rightarrow> pending_times" where
  "correction_times db c =
     \<lparr>pt_original_in = map_option te_in (target_entry db c),
      pt_original_out = (case target_entry db c of None \<Rightarrow> None | Some e \<Rightarrow> te_out e),
      pt_proposed_in = tc_in c, pt_proposed_out = tc_out c, pt_is_new_log = (tc_target c = None)\<rparr>"

definition mapCorrections :: "directory \<Rightarrow> correction_db \<Rightarrow> correction list \<Rightarrow> http_error + pending_approval list" where
  "mapCorrections d db cs =
     bindR (resolveNames d (map tc_employee cs @ map correction_approver cs)) (\<lambda>names.
       Inr (map (\<lambda>c. \<lparr>pa_id = tc_id c, pa_kind = Pending_correction, pa_employee = tc_employee c,
                  pa_employee_name = name_or_id names (tc_employee c), pa_requested_at = tc_submitted_at c,
                  pa_step = (if tc_status c = Pending_l1 then 1 else 2), pa_approver = correction_approver c,
                  pa_approver_name = name_or_id names (correction_approver c),
                  pa_summary = ''Time correction for '' @ date_text (tc_date c),
                  pa_times = Some (correction_times db c)\<rparr>) cs))"

text \<open>The merged list before it is cut to a page.  \<open>Array.sort\<close> is stable.\<close>

definition inbox_items ::
  "directory \<Rightarrow> leave_db \<Rightarrow> correction_db \<Rightarrow> user \<Rightarrow> pending_kind option \<Rightarrow> http_error + pending_approval list" where
  "inbox_items d ldb cdb u kind =
     bindR (if kind = None \<or> kind = Some Pending_leave
            then mapLeaves d (if canSeeAll u then findAllPendingLeave ldb else findPendingForApprover ldb (usr_id u))
            else Inr []) (\<lambda>ls.
     bindR (if kind = None \<or> kind = Some Pending_correction
            then mapCorrections d cdb
              (if canSeeAll u then findAllPendingCorrections cdb else findPendingCorrections cdb (usr_id u))
            else Inr []) (\<lambda>cs.
       Inr (sort_key pa_requested_at (ls @ cs))))"

definition findPending ::
  "directory \<Rightarrow> leave_db \<Rightarrow> correction_db \<Rightarrow> user \<Rightarrow> inbox_query \<Rightarrow> http_error + pending_approval page_of" where
  "findPending d ldb cdb u q =
     (let paging = resolvePaging (iq_page q) (iq_limit q)
      in bindR (inbox_items d ldb cdb u (iq_type q)) (\<lambda>items.
           Inr (paginate (Prelude.slice items (pg_skip paging) (pg_skip paging + pg_limit paging))
             (int (length items)) paging)))"

section \<open>What the inbox lists\<close>


definition lists_leave :: "user \<Rightarrow> leave \<Rightarrow> bool" where
  "lists_leave u l \<longleftrightarrow> lr_live l \<and> status_pending (lr_status l) \<and>
     (canSeeAll u \<or> currentStepApproverId l = Some (usr_id u))"


lemma leave_rows:
  "(if canSeeAll u then findAllPendingLeave db else findPendingForApprover db (usr_id u)) =
     sort_key lr_submitted_at (filter (lists_leave u) (ld_requests db))"
  unfolding findAllPendingLeave_def findPendingForApprover_def
  by (auto simp: lists_leave_def status_pending_def currentStepApproverId_def
      intro!: arg_cong[where f = "sort_key lr_submitted_at"] filter_cong)








section \<open>Properties\<close>


text \<open>Pages of any legal size, read in order, give the whole list without a gap or a repetition, and
  \<open>has_more\<close> is true exactly on the pages before the last.\<close>

lemma slices_concat:
  assumes "0 \<le> l"
  shows "concat (map (\<lambda>p. Prelude.slice xs ((int p - 1) * l) ((int p - 1) * l + l)) [1..<Suc n]) = take (n * nat l) xs"
proof (induction n)
  case (Suc n)
  have "nat (int n * l + l) - nat (int n * l) = nat l" "nat (int n * l) = n * nat l"
    using assms by (simp_all add: nat_add_distrib nat_mult_distrib)
  moreover have "take (Suc n * nat l) xs = take (n * nat l) xs @ take (nat l) (drop (n * nat l) xs)"
    by (metis add.commute mult_Suc take_add)
  ultimately show ?case using Suc by (simp add: Prelude.slice_def)
qed simp

theorem inbox_pages_cover:
  assumes "inbox_items d ldb cdb u kind = Inr items" "1 \<le> l" "l \<le> 100" "int (length items) \<le> int n * l"
  shows "concat (map (\<lambda>p. pg_data (projr (findPending d ldb cdb u
      \<lparr>iq_type = kind, iq_page = Some (int p), iq_limit = Some l\<rparr>))) [1..<Suc n]) = items \<and>
    (pg_has_more (projr (findPending d ldb cdb u \<lparr>iq_type = kind, iq_page = Some k, iq_limit = Some l\<rparr>)) \<longleftrightarrow>
      k * l < int (length items))"
proof -
  have lim: "resolvePaging (Some k) (Some l) = \<lparr>pg_page = k, pg_limit = l, pg_skip = (k - 1) * l\<rparr>" for k
    using assms(3) by (simp add: resolvePaging_def max_limit_def Let_def)
  have page: "findPending d ldb cdb u \<lparr>iq_type = kind, iq_page = Some k, iq_limit = Some l\<rparr> =
      Inr (paginate (Prelude.slice items ((k - 1) * l) ((k - 1) * l + l)) (int (length items))
        \<lparr>pg_page = k, pg_limit = l, pg_skip = (k - 1) * l\<rparr>)" for k
    by (simp add: findPending_def lim assms(1) Let_def)
  have "int (length items) \<le> int (n * nat l)" using assms(2,4) by simp
  then have "length items \<le> n * nat l" by linarith
  then show ?thesis
    using slices_concat[of l items n] assms(2) by (simp add: page paginate_def del: upt_Suc)
qed

text \<open>One user row is enough to close the inbox: when the role of an employee with a listed leave request
  was deleted, the resolution of the names throws and every caller who lists that request gets the error
  instead of a page.\<close>

lemma mapR_error:
  assumes "x \<in> set xs" "f x = Inl e" "\<And>y e'. f y = Inl e' \<Longrightarrow> e' = e"
  shows "mapR f xs = Inl e"
  using assms(1)
proof (induction xs)
  case (Cons y ys)
  show ?case
  proof (cases "f y")
    case (Inl e')
    then show ?thesis using assms(3)[OF Inl] by simp
  next
    case (Inr v)
    then have "mapR f ys = Inl e" using Cons assms(2) by (cases "x = y") auto
    then show ?thesis using Inr by simp
  qed
qed simp

theorem deleted_role_closes_inbox:
  assumes "l \<in> set (ld_requests ldb)" "lists_leave u l"
    and "e \<in> set (dr_users d)" "ue_live e" "ue_id e = lr_employee l" "findRole d (ue_role_id e) = None"
    and "iq_type q \<noteq> Some Pending_correction"
  shows "findPending d ldb cdb u q = Inl PlainError"
proof -
  let ?ls = "sort_key lr_submitted_at (filter (lists_leave u) (ld_requests ldb))"
  let ?ids = "map lr_employee ?ls @ map leave_approver ?ls"
  have mem: "ue_id e \<in> set (remdups ?ids)" using assms(1,2,5) by auto
  have err: "toDomain d e = Inl PlainError" using assms(6) by (simp add: toDomain_def)
  have "mapR (toDomain d) (filter (\<lambda>u. ue_id u \<in> set (remdups ?ids) \<and> ue_live u) (dr_users d)) = Inl PlainError"
    by (rule mapR_error[where x = e and f = "toDomain d", OF _ err])
      (use mem assms(3,4) in \<open>auto simp: toDomain_def split: option.splits\<close>)
  moreover have "remdups ?ids \<noteq> []" using mem by (metis empty_iff list.set(1))
  ultimately have "resolveNames d ?ids = Inl PlainError"
    unfolding resolveNames_def findByIds_def Let_def by (simp only: if_False bindR_simps)
  then have "mapLeaves d ?ls = Inl PlainError" by (simp add: mapLeaves_def)
  moreover have "iq_type q = None \<or> iq_type q = Some Pending_leave"
    using assms(7) by (cases "iq_type q"; cases "the (iq_type q)") auto
  ultimately show ?thesis
    by (simp add: findPending_def inbox_items_def leave_rows Let_def)
qed

section \<open>Witnesses\<close>

text \<open>User 1 of the sample directory asks for leave twice; approver 2 is not in the directory, so their name
  falls back to the id.\<close>

definition inbox_leave :: "int \<Rightarrow> int \<Rightarrow> leave" where
  "inbox_leave i at_ms =
     \<lparr>lr_id = i, lr_employee = 1, lr_type = Vacation, lr_start = Date 2026 7 6, lr_end = Date 2026 7 6, lr_days = 1,
      lr_portion = Full, lr_start_time = None, lr_end_time = None, lr_reason = None, lr_status = Pending_l1,
      lr_submitted_at = at_ms, lr_decided_at = None, lr_decided_by = None, lr_decision_note = None,
      lr_decision_path = None, lr_cancelled_at = None, lr_cancelled_by = None, lr_l1 = 2, lr_l2 = None,
      lr_attachment = None, lr_created_by = None, lr_updated_by = None, lr_deleted_at = None\<rparr>"

definition inbox_leaves :: leave_db where
  "inbox_leaves = empty_leave_db\<lparr>ld_requests := [inbox_leave 1 20, inbox_leave 2 10], ld_next := 3\<rparr>"

definition inbox_approver :: user where
  "inbox_approver = (sample_user 2)\<lparr>usr_role := sample_role\<lparr>role_permissions :=
     [\<lparr>perm_id = 1, perm_code = ''LEAVE:Approve'', perm_resource = ''LEAVE'', perm_action = ''Approve''\<rparr>,
      \<lparr>perm_id = 2, perm_code = ''TIME_CORRECTION:Approve'', perm_resource = ''TIME_CORRECTION'',
       perm_action = ''Approve''\<rparr>]\<rparr>\<rparr>"

lemma inbox_sample:
  obtains items where "inbox_items dir_sample inbox_leaves empty_correction_db inbox_approver None = Inr items"
    "length items = 2" "map pa_id items = [2, 1]" "map pa_employee_name items = [''Jane Doe'', ''Jane Doe'']"
    "map pa_approver_name items = [''User #2'', ''User #2'']"
proof -
  have "map_sum id (map (\<lambda>i. (pa_id i, pa_employee_name i, pa_approver_name i)))
      (inbox_items dir_sample inbox_leaves empty_correction_db inbox_approver None) =
    (Inr [(2, ''Jane Doe'', ''User #2''), (1, ''Jane Doe'', ''User #2'')] :: http_error + (int \<times> string \<times> string) list)"
    by code_simp
  then obtain items where "inbox_items dir_sample inbox_leaves empty_correction_db inbox_approver None = Inr items"
      "map (\<lambda>i. (pa_id i, pa_employee_name i, pa_approver_name i)) items =
        [(2, ''Jane Doe'', ''User #2''), (1, ''Jane Doe'', ''User #2'')]"
    by (cases "inbox_items dir_sample inbox_leaves empty_correction_db inbox_approver None") auto
  then show thesis by (intro that) auto
qed


theorem inbox_pages_cover_witness:
  "map pa_id (concat (map (\<lambda>p. pg_data (projr (findPending dir_sample inbox_leaves empty_correction_db inbox_approver
      \<lparr>iq_type = None, iq_page = Some (int p), iq_limit = Some 1\<rparr>))) [1..<3])) = [2, 1]"
proof -
  obtain items where items: "inbox_items dir_sample inbox_leaves empty_correction_db inbox_approver None = Inr items"
      "length items = 2" "map pa_id items = [2, 1]" by (rule inbox_sample)
  have "concat (map (\<lambda>p. pg_data (projr (findPending dir_sample inbox_leaves empty_correction_db inbox_approver
      \<lparr>iq_type = None, iq_page = Some (int p), iq_limit = Some 1\<rparr>))) [1..<Suc 2]) = items"
    using inbox_pages_cover[OF items(1), of 1 2] items(2) by (simp del: upt_Suc)
  moreover have "Suc 2 = 3" by simp
  ultimately show ?thesis using items(3) by (simp only:)
qed

theorem deleted_role_closes_inbox_witness:
  "findPending (fst (softDeleteRole 9 7 None dir_sample)) inbox_leaves empty_correction_db inbox_approver
     \<lparr>iq_type = None, iq_page = None, iq_limit = None\<rparr> = Inl PlainError"
proof -
  let ?d = "fst (softDeleteRole 9 7 None dir_sample)"
  have "map (\<lambda>e. (ue_deleted_at e, ue_id e, ue_role_id e)) (dr_users ?d) = [(None, 1, 7)]" by code_simp
  then obtain e where e: "dr_users ?d = [e]" "ue_deleted_at e = None" "ue_id e = 1" "ue_role_id e = 7" by auto
  have "Option.is_none (findRole ?d 7)" by code_simp
  then have none: "findRole ?d 7 = None" by (simp add: Option.is_none_def)
  have l: "inbox_leave 1 20 \<in> set (ld_requests inbox_leaves)" "lists_leave inbox_approver (inbox_leave 1 20)"
      "lr_employee (inbox_leave 1 20) = 1"
    by (simp add: inbox_leaves_def, code_simp, simp add: inbox_leave_def)
  show ?thesis
    using deleted_role_closes_inbox[OF l(1,2), of e ?d] e none l(3) by (simp add: ue_live_def)
qed

end
