(* ===== verification/Sessions.thy ===== *)
theory Sessions
  imports Directory
begin

text \<open>
  Authentication (\<open>src/src/auth\<close>): login, the access and refresh strategies, and the ledger of refresh
  tokens of ADR 0002.  A token is its verified payload: signatures, and the expiry the JWT library
  checks on its own, are the library's.  A refresh runs in three parts that other requests may
  separate: \<open>refresh_validate\<close> (the guard), \<open>refresh_rotate\<close> (the atomic revocation) and
  \<open>signTokens\<close> (the new pair).  The ledger row's uuid is an argument; its uniqueness is the unique
  constraint of the table.
\<close>

section \<open>The ledger\<close>

record token_row =
  tk_user :: int
  tk_jti :: string
  tk_expires :: int
  tk_revoked :: "int option"

definition tk_active :: "token_row \<Rightarrow> bool" where
  "tk_active t \<longleftrightarrow> tk_revoked t = None"

definition issueToken :: "int \<Rightarrow> string \<Rightarrow> int \<Rightarrow> token_row list \<Rightarrow> http_error + token_row list" where
  "issueToken u j ex l =
     (if list_ex (\<lambda>t. tk_jti t = j) l then Inl UniqueViolation
      else Inr (l @ [\<lparr>tk_user = u, tk_jti = j, tk_expires = ex, tk_revoked = None\<rparr>]))"

definition findByJti :: "token_row list \<Rightarrow> string \<Rightarrow> token_row option" where
  "findByJti l j = find (\<lambda>t. tk_jti t = j) l"

definition stamp :: "int \<Rightarrow> token_row \<Rightarrow> token_row" where
  "stamp now t = t\<lparr>tk_revoked := Some now\<rparr>"

definition revokeIfActive :: "int \<Rightarrow> string \<Rightarrow> token_row list \<Rightarrow> token_row list \<times> bool" where
  "revokeIfActive now j l =
     (update_where (\<lambda>t. tk_jti t = j \<and> tk_active t) (stamp now) l,
      list_ex (\<lambda>t. tk_jti t = j \<and> tk_active t) l)"

definition revokeAllForUser :: "int \<Rightarrow> int \<Rightarrow> token_row list \<Rightarrow> token_row list" where
  "revokeAllForUser now u l = update_where (\<lambda>t. tk_user t = u \<and> tk_active t) (stamp now) l"

definition deleteExpired :: "int \<Rightarrow> token_row list \<Rightarrow> token_row list" where
  "deleteExpired as_of l = filter (\<lambda>t. \<not> tk_expires t \<le> as_of) l"

section \<open>Token lifetimes\<close>

definition is_digit :: "char \<Rightarrow> bool" where
  "is_digit c \<longleftrightarrow> 48 \<le> (of_char c :: nat) \<and> (of_char c :: nat) \<le> 57"

definition digit_val :: "char \<Rightarrow> int" where
  "digit_val c = int (of_char c) - 48"

definition parse_int :: "string \<Rightarrow> int" where
  "parse_int ds = foldl (\<lambda>n c. 10 * n + digit_val c) 0 ds"

text \<open>The two regular expressions: the one of the environment validator and the one of the parser, which
  captures the digits and the unit.\<close>

definition EXPIRES_IN_FORMAT :: "string \<Rightarrow> bool" where
  "EXPIRES_IN_FORMAT s \<longleftrightarrow>
     (let ds = takeWhile is_digit s; unit = dropWhile is_space (dropWhile is_digit s)
      in ds \<noteq> [] \<and> (unit = [] \<or> unit \<in> set [''s'', ''m'', ''h'', ''d'']))"

definition match_expires :: "string \<Rightarrow> (string \<times> string) option" where
  "match_expires s =
     (let ds = takeWhile is_digit s; unit = dropWhile is_space (dropWhile is_digit s)
      in if ds = [] then None
         else if unit = [] \<or> unit \<in> set [''s'', ''m'', ''h'', ''d''] then Some (ds, unit) else None)"

definition parseExpiresIn :: "string \<Rightarrow> http_error + int" where
  "parseExpiresIn s =
     (case match_expires s of
        None \<Rightarrow> Inl PlainError
      | Some (ds, unit) \<Rightarrow>
          (let n = parse_int ds
           in Inr (if unit = ''d'' then n * 86400 else if unit = ''h'' then n * 3600
                   else if unit = ''m'' then n * 60 else n)))"

section \<open>The service and the strategies\<close>

record auth_config =
  ac_expires :: string
  ac_refresh_expires :: string

text \<open>The payload the verified token carries.\<close>

record payload =
  pl_id :: int
  pl_admin :: bool
  pl_jti :: "string option"

record token_pair =
  tp_access :: payload
  tp_refresh :: payload
  tp_expires_in :: int

definition signTokens ::
  "auth_config \<Rightarrow> int \<Rightarrow> string \<Rightarrow> user \<Rightarrow> token_row list \<Rightarrow> token_row list \<times> (http_error + token_pair)" where
  "signTokens cfg now jti u l =
     (case parseExpiresIn (ac_refresh_expires cfg) of
        Inl er \<Rightarrow> (l, Inl er)
      | Inr life \<Rightarrow>
          (case issueToken (usr_id u) jti (now + life * 1000) l of
             Inl er \<Rightarrow> (l, Inl er)
           | Inr l' \<Rightarrow>
               (l', bindR (parseExpiresIn (ac_expires cfg)) (\<lambda>n.
                      Inr \<lparr>tp_access = \<lparr>pl_id = usr_id u, pl_admin = usr_system_admin u, pl_jti = None\<rparr>,
                           tp_refresh = \<lparr>pl_id = usr_id u, pl_admin = usr_system_admin u, pl_jti = Some jti\<rparr>,
                           tp_expires_in = n\<rparr>))))"

definition login ::
  "auth_config \<Rightarrow> hasher \<Rightarrow> int \<Rightarrow> string \<Rightarrow> string \<Rightarrow> string \<Rightarrow> directory \<Rightarrow> token_row list
     \<Rightarrow> directory \<times> token_row list \<times> (http_error + token_pair)" where
  "login cfg h now jti email pw d l =
     (case withCredentials d (findRowByEmail d (toLowerCase (trim email))) of
        Inl er \<Rightarrow> (d, l, Inl er)
      | Inr None \<Rightarrow> (d, l, Inl Unauthorized)
      | Inr (Some (u, current)) \<Rightarrow>
          if \<not> compare_hash h pw current then (d, l, Inl Unauthorized)
          else if \<not> usr_is_active u then (d, l, Inl Unauthorized)
          else (case signTokens cfg now jti u l of
                  (l', Inl er) \<Rightarrow> (d, l', Inl er)
                | (l', Inr tokens) \<Rightarrow> (recordLogin (usr_id u) now d, l', Inr tokens)))"

text \<open>\<open>JwtStrategy.validate\<close>: every error of the lookup counts as no user.\<close>

definition active_user :: "directory \<Rightarrow> int \<Rightarrow> http_error + user" where
  "active_user d i =
     (case findUserById d i of
        Inl _ \<Rightarrow> Inl Unauthorized
      | Inr u \<Rightarrow> if usr_is_active u then Inr u else Inl Unauthorized)"

definition jwt_validate :: "directory \<Rightarrow> payload \<Rightarrow> http_error + user" where
  "jwt_validate d p = (if pl_id p = 0 then Inl Unauthorized else active_user d (pl_id p))"

text \<open>\<open>JwtRefreshStrategy.validate\<close>: the presented token's row decides.\<close>

definition refresh_validate ::
  "directory \<Rightarrow> int \<Rightarrow> payload \<Rightarrow> token_row list \<Rightarrow> token_row list \<times> (http_error + user \<times> string)" where
  "refresh_validate d now p l =
     (if pl_id p = 0 then (l, Inl Unauthorized)
      else case pl_jti p of
        None \<Rightarrow> (l, Inl Unauthorized)
      | Some j \<Rightarrow>
          (case findByJti l j of
             None \<Rightarrow> (l, Inl Unauthorized)
           | Some row \<Rightarrow>
               if tk_revoked row \<noteq> None then (revokeAllForUser now (tk_user row) l, Inl Unauthorized)
               else if tk_expires row \<le> now then (l, Inl Unauthorized)
               else (l, bindR (active_user d (pl_id p)) (\<lambda>u. Inr (u, j)))))"

definition refresh_rotate :: "int \<Rightarrow> user \<Rightarrow> string \<Rightarrow> token_row list \<Rightarrow> token_row list \<times> (http_error + unit)" where
  "refresh_rotate now u j l =
     (case revokeIfActive now j l of
        (l', True) \<Rightarrow> (l', Inr ())
      | (l', False) \<Rightarrow> (revokeAllForUser now (usr_id u) l', Inl Unauthorized))"

definition refresh ::
  "auth_config \<Rightarrow> int \<Rightarrow> string \<Rightarrow> user \<Rightarrow> string \<Rightarrow> token_row list \<Rightarrow> token_row list \<times> (http_error + token_pair)" where
  "refresh cfg now fresh u j l =
     (case refresh_rotate now u j l of
        (l', Inl er) \<Rightarrow> (l', Inl er)
      | (l', Inr _) \<Rightarrow> signTokens cfg now fresh u l')"

definition logout :: "int \<Rightarrow> int \<Rightarrow> token_row list \<Rightarrow> token_row list" where
  "logout now u l = revokeAllForUser now u l"

section \<open>Interleaved requests\<close>

text \<open>The ledger; the refreshes past the guard; those past the rotation; the log of the rotated tokens and
  of the uuids ever issued.\<close>

record session_state =
  ss_ledger :: "token_row list"
  ss_validated :: "(user \<times> string) list"
  ss_rotated :: "(user \<times> string) list"
  ss_log :: "string list"
  ss_issued :: "string list"

text \<open>\<open>randomUUID\<close> never repeats: an issue takes a uuid that was not issued before.\<close>

inductive session_step :: "auth_config \<Rightarrow> session_state \<Rightarrow> session_state \<Rightarrow> bool" for cfg where
  login: "login cfg h now j email pw d (ss_ledger s) = (d', l', res) \<Longrightarrow> j \<notin> set (ss_issued s) \<Longrightarrow>
    session_step cfg s (s\<lparr>ss_ledger := l', ss_issued := j # ss_issued s\<rparr>)"
| validate: "refresh_validate d now p (ss_ledger s) = (l', res) \<Longrightarrow>
    session_step cfg s (s\<lparr>ss_ledger := l',
      ss_validated := (case res of Inl _ \<Rightarrow> ss_validated s | Inr x \<Rightarrow> x # ss_validated s)\<rparr>)"
| rotate: "(u, j) \<in> set (ss_validated s) \<Longrightarrow> refresh_rotate now u j (ss_ledger s) = (l', res) \<Longrightarrow>
    session_step cfg s (s\<lparr>ss_ledger := l', ss_validated := remove1 (u, j) (ss_validated s),
      ss_rotated := (case res of Inl _ \<Rightarrow> ss_rotated s | Inr _ \<Rightarrow> (u, j) # ss_rotated s),
      ss_log := (case res of Inl _ \<Rightarrow> ss_log s | Inr _ \<Rightarrow> j # ss_log s)\<rparr>)"
| sign: "(u, j) \<in> set (ss_rotated s) \<Longrightarrow> fresh \<notin> set (ss_issued s) \<Longrightarrow>
    signTokens cfg now fresh u (ss_ledger s) = (l', res) \<Longrightarrow>
    session_step cfg s (s\<lparr>ss_ledger := l', ss_rotated := remove1 (u, j) (ss_rotated s), ss_issued := fresh # ss_issued s\<rparr>)"
| logout: "session_step cfg s (s\<lparr>ss_ledger := logout now u (ss_ledger s)\<rparr>)"
| prune: "session_step cfg s (s\<lparr>ss_ledger := deleteExpired as_of (ss_ledger s)\<rparr>)"

definition empty_sessions :: session_state where
  "empty_sessions = \<lparr>ss_ledger = [], ss_validated = [], ss_rotated = [], ss_log = [], ss_issued = []\<rparr>"

text \<open>Issued uuids cover the ledger, and a rotated token is not active any more.\<close>

definition session_inv :: "session_state \<Rightarrow> bool" where
  "session_inv s \<longleftrightarrow>
     tk_jti ` set (ss_ledger s) \<subseteq> set (ss_issued s) \<and> distinct (map tk_jti (ss_ledger s)) \<and>
     set (ss_log s) \<subseteq> set (ss_issued s) \<and> distinct (ss_log s) \<and>
     (\<forall>t \<in> set (ss_ledger s). tk_active t \<longrightarrow> tk_jti t \<notin> set (ss_log s))"

lemma map_jti_revoke: "map tk_jti (update_where p (stamp now) l) = map tk_jti l"
  by (simp add: update_where_def stamp_def)

lemma stamp_inactive [simp]: "\<not> tk_active (stamp now t)"
  by (simp add: stamp_def tk_active_def)

lemma revoke_active: "t \<in> set (update_where p (stamp now) l) \<Longrightarrow> tk_active t \<Longrightarrow> t \<in> set l \<and> \<not> p t"
  by (auto simp: table_simps split: if_splits) (metis stamp_inactive)

lemma revoke_inv:
  assumes "session_inv s"
  shows "session_inv (s\<lparr>ss_ledger := update_where p (stamp now) (ss_ledger s)\<rparr>)"
proof -
  have "tk_jti ` set (update_where p (stamp now) (ss_ledger s)) = tk_jti ` set (ss_ledger s)"
    by (metis list.set_map map_jti_revoke)
  then show ?thesis using assms revoke_active by (auto simp: session_inv_def map_jti_revoke)
qed

lemma signTokens_ledger:
  assumes "signTokens cfg now j u l = (l', res)"
  shows "l' = l \<or> (\<exists>ex. l' = l @ [\<lparr>tk_user = usr_id u, tk_jti = j, tk_expires = ex, tk_revoked = None\<rparr>] \<and> j \<notin> tk_jti ` set l)"
  using assms by (auto simp: signTokens_def issueToken_def list_ex_iff split: sum.splits if_splits)

lemma issue_inv:
  assumes "session_inv s" "signTokens cfg now j u (ss_ledger s) = (l', res)" "j \<notin> set (ss_issued s)"
  shows "session_inv (s\<lparr>ss_ledger := l', ss_issued := j # ss_issued s\<rparr>)"
proof -
  have inv: "tk_jti ` set (ss_ledger s) \<subseteq> set (ss_issued s)" "distinct (map tk_jti (ss_ledger s))"
    "set (ss_log s) \<subseteq> set (ss_issued s)" "distinct (ss_log s)"
    "\<forall>t \<in> set (ss_ledger s). tk_active t \<longrightarrow> tk_jti t \<notin> set (ss_log s)"
    using assms(1) by (simp_all add: session_inv_def)
  have "j \<notin> set (ss_log s)" using inv(3) assms(3) by blast
  then show ?thesis
    using signTokens_ledger[OF assms(2)] inv by (elim disjE exE) (simp_all add: session_inv_def subset_insertI2)
qed

lemma login_ledger:
  assumes "login cfg h now j email pw d l = (d', l', res)"
  shows "l' = l \<or> (\<exists>u r. signTokens cfg now j u l = (l', r))"
  using assms by (auto simp: login_def split: sum.splits option.splits prod.splits if_splits)

lemma session_step_inv: "session_step cfg s s' \<Longrightarrow> session_inv s \<Longrightarrow> session_inv s'"
proof (induction rule: session_step.induct)
  case (login h now j email pw d s d' l' res)
  show ?case
  proof (cases "l' = ss_ledger s")
    case True
    then show ?thesis using login(3) by (auto simp: session_inv_def)
  next
    case False
    then obtain u r where "signTokens cfg now j u (ss_ledger s) = (l', r)" using login_ledger[OF login(1)] by blast
    then show ?thesis by (rule issue_inv[OF login(3) _ login(2)])
  qed
next
  case (validate d now p s l' res)
  have "l' = ss_ledger s \<or> (\<exists>u. l' = revokeAllForUser now u (ss_ledger s))"
    using validate(1) by (auto simp: refresh_validate_def split: if_splits option.splits)
  then have "session_inv (s\<lparr>ss_ledger := l'\<rparr>)"
    using validate(2) revoke_inv by (auto simp: revokeAllForUser_def)
  then show ?case by (simp add: session_inv_def)
next
  case (rotate u j s now l' res)
  let ?p = "\<lambda>t. tk_jti t = j \<and> tk_active t"
  show ?case
  proof (cases "list_ex ?p (ss_ledger s)")
    case False
    then have r: "l' = update_where (\<lambda>t. tk_user t = usr_id u \<and> tk_active t) (stamp now)
        (update_where ?p (stamp now) (ss_ledger s))" "res = Inl Unauthorized"
      using rotate(2) by (auto simp: refresh_rotate_def revokeIfActive_def revokeAllForUser_def)
    have "session_inv (s\<lparr>ss_ledger := l'\<rparr>)"
      using revoke_inv[OF revoke_inv[OF rotate(3), of ?p now], of "\<lambda>t. tk_user t = usr_id u \<and> tk_active t" now] r(1)
      by simp
    then show ?thesis by (simp add: r(2) session_inv_def)
  next
    case True
    then have r: "l' = update_where ?p (stamp now) (ss_ledger s)" "res = Inr ()"
      using rotate(2) by (auto simp: refresh_rotate_def revokeIfActive_def)
    have inv: "session_inv (s\<lparr>ss_ledger := l'\<rparr>)" using revoke_inv[OF rotate(3)] r(1) by simp
    obtain t where t: "t \<in> set (ss_ledger s)" "tk_jti t = j" "tk_active t" using True by (auto simp: list_ex_iff)
    then have "j \<in> set (ss_issued s)" "j \<notin> set (ss_log s)" using rotate(3) by (auto simp: session_inv_def)
    moreover have "\<forall>q \<in> set l'. tk_active q \<longrightarrow> tk_jti q \<noteq> j" using revoke_active r(1) by blast
    ultimately show ?thesis using inv by (simp add: r(2) session_inv_def)
  qed
next
  case (sign u j s fresh now l' res)
  then show ?case using issue_inv[OF sign(4,3,2)] by (simp add: session_inv_def)
next
  case (logout s now u)
  then show ?case using revoke_inv by (simp add: logout_def revokeAllForUser_def)
next
  case (prune s as_of)
  then show ?case by (auto simp: session_inv_def deleteExpired_def distinct_map_filter)
qed

section \<open>Guarantees\<close>

text \<open>C5: A refresh token is good for one rotation.  However the requests of all clients interleave, no token
  is rotated twice, and a rotated token is never active again.\<close>

theorem refresh_token_single_use:
  assumes "(session_step cfg)\<^sup>*\<^sup>* empty_sessions s"
  shows "distinct (ss_log s) \<and> (\<forall>j \<in> set (ss_log s). \<forall>t \<in> set (ss_ledger s). tk_jti t = j \<longrightarrow> tk_revoked t \<noteq> None)"
proof -
  have "session_inv s"
    using assms
  proof (induction rule: rtranclp_induct)
    case base
    show ?case by (simp add: session_inv_def empty_sessions_def)
  next
    case (step x y)
    then show ?case using session_step_inv by blast
  qed
  then show ?thesis by (auto simp: session_inv_def tk_active_def)
qed

lemma findByJti_Some: "findByJti l j = Some t \<Longrightarrow> t \<in> set l \<and> tk_jti t = j"
  unfolding findByJti_def using find_Some_iff_mem by fastforce

lemma findByJti_revoke:
  assumes "\<And>t. tk_jti (f t) = tk_jti t"
  shows "findByJti (update_where p f l) j = map_option (\<lambda>t. if p t then f t else t) (findByJti l j)"
  using assms by (induction l) (auto simp: findByJti_def)

lemma stamp_jti [simp]: "tk_jti (stamp now t) = tk_jti t" "tk_user (stamp now t) = tk_user t"
  by (simp_all add: stamp_def)

lemma revokeAll_none_active:
  "t \<in> set (revokeAllForUser now u l) \<Longrightarrow> tk_user t = u \<Longrightarrow> \<not> tk_active t"
  unfolding revokeAllForUser_def using revoke_active by fastforce

lemma signTokens_Inr:
  assumes "signTokens cfg now j u l = (l', Inr tokens)"
  shows "\<exists>life. parseExpiresIn (ac_refresh_expires cfg) = Inr life \<and> j \<notin> tk_jti ` set l \<and>
    l' = l @ [\<lparr>tk_user = usr_id u, tk_jti = j, tk_expires = now + life * 1000, tk_revoked = None\<rparr>] \<and>
    tp_refresh tokens = \<lparr>pl_id = usr_id u, pl_admin = usr_system_admin u, pl_jti = Some j\<rparr> \<and>
    tp_access tokens = \<lparr>pl_id = usr_id u, pl_admin = usr_system_admin u, pl_jti = None\<rparr>"
  using assms by (auto simp: signTokens_def issueToken_def list_ex_iff bindR_eq_Inr split: sum.splits if_splits)

lemma findByJti_snoc:
  "tk_jti t \<notin> tk_jti ` set l \<Longrightarrow> findByJti (l @ [t]) j = (if j = tk_jti t then Some t else findByJti l j)"
  by (induction l) (auto simp: findByJti_def)

text \<open>C26: Presenting a token that was already rotated shuts its whole family out: the reuse is answered with
  401, afterwards no token of that user is active, and in particular the token that the first rotation
  had handed out is refused by every later validation.\<close>

theorem reuse_kills_successor:
  assumes "findByJti l j = Some row" "tk_user row = usr_id u" "usr_id u \<noteq> 0"
    and "refresh cfg now fresh u j l = (l1, Inr tokens)"
    and "pl_jti old = Some j" "pl_id old = usr_id u" "refresh_validate d now' old l1 = (l2, res)"
  shows "res = Inl Unauthorized \<and> (\<forall>t \<in> set l2. tk_user t = usr_id u \<longrightarrow> tk_revoked t \<noteq> None) \<and>
    snd (refresh_validate d' now'' (tp_refresh tokens) l2) = Inl Unauthorized"
proof -
  let ?p = "\<lambda>t. tk_jti t = j \<and> tk_active t"
  let ?l0 = "update_where ?p (stamp now) l"
  have rot: "refresh_rotate now u j l = (?l0, Inr ())" "signTokens cfg now fresh u ?l0 = (l1, Inr tokens)"
    using assms(4) by (auto simp: refresh_def refresh_rotate_def revokeIfActive_def split: if_splits bool.splits)
  obtain life where l1: "fresh \<notin> tk_jti ` set ?l0"
    "l1 = ?l0 @ [\<lparr>tk_user = usr_id u, tk_jti = fresh, tk_expires = now + life * 1000, tk_revoked = None\<rparr>]"
    "tp_refresh tokens = \<lparr>pl_id = usr_id u, pl_admin = usr_system_admin u, pl_jti = Some fresh\<rparr>"
    using signTokens_Inr[OF rot(2)] by blast
  have row0: "findByJti ?l0 j = Some (if tk_active row then stamp now row else row)"
    using assms(1) findByJti_Some[OF assms(1)] by (simp add: findByJti_revoke)
  have "fresh \<noteq> j" using l1(1) findByJti_Some[OF row0] by force
  then have row1: "findByJti l1 j = Some (if tk_active row then stamp now row else row)"
    using row0 l1(1,2) by (simp add: findByJti_snoc)
  have "tk_revoked (if tk_active row then stamp now row else row) \<noteq> None"
    by (simp add: stamp_def tk_active_def)
  moreover have "tk_user (if tk_active row then stamp now row else row) = usr_id u" using assms(2) by simp
  ultimately have val: "res = Inl Unauthorized" "l2 = revokeAllForUser now' (usr_id u) l1"
    using assms(3,5-7) row1 by (auto simp: refresh_validate_def)
  have none: "\<forall>t \<in> set l2. tk_user t = usr_id u \<longrightarrow> tk_revoked t \<noteq> None"
    using revokeAll_none_active val(2) by (auto simp: tk_active_def)
  have "findByJti l1 fresh = Some \<lparr>tk_user = usr_id u, tk_jti = fresh, tk_expires = now + life * 1000, tk_revoked = None\<rparr>"
    using l1(1,2) by (simp add: findByJti_snoc)
  then obtain t where t: "findByJti l2 fresh = Some t" "tk_user t = usr_id u"
    unfolding val(2) revokeAllForUser_def by (simp add: findByJti_revoke stamp_def)
  then have "tk_revoked t \<noteq> None" using none findByJti_Some by blast
  then have "snd (refresh_validate d' now'' (tp_refresh tokens) l2) = Inl Unauthorized"
    using t(1) l1(3) by (auto simp: refresh_validate_def)
  then show ?thesis using val(1) none by blast
qed

text \<open>A logout does not reach a refresh that is past its rotation.  If the logout falls between the
  revocation of the presented token and the issue of its successor, it leaves no active token of the
  user, and yet the refresh then hands out one that is valid for its whole lifetime.\<close>

theorem inflight_refresh_survives_logout:
  assumes "refresh_rotate now u j l = (l1, Inr ())" "l2 = logout now1 (usr_id u) l1"
    and "fresh \<notin> tk_jti ` set l" "usr_id u \<noteq> 0" "okR (parseExpiresIn (ac_expires cfg))"
    and "parseExpiresIn (ac_refresh_expires cfg) = Inr life" "now3 < now2 + life * 1000"
    and "active_user d (usr_id u) = Inr u"
  shows "(\<forall>t \<in> set l2. tk_user t = usr_id u \<longrightarrow> tk_revoked t \<noteq> None) \<and>
    (\<exists>l3 tokens. signTokens cfg now2 fresh u l2 = (l3, Inr tokens) \<and>
       refresh_validate d now3 (tp_refresh tokens) l3 = (l3, Inr (u, fresh)))"
proof
  show "\<forall>t \<in> set l2. tk_user t = usr_id u \<longrightarrow> tk_revoked t \<noteq> None"
    using revokeAll_none_active assms(2) by (auto simp: logout_def tk_active_def)
  have "map tk_jti l1 = map tk_jti l"
    using assms(1) by (auto simp: refresh_rotate_def revokeIfActive_def map_jti_revoke split: bool.splits)
  then have "map tk_jti l2 = map tk_jti l"
    by (simp add: assms(2) logout_def revokeAllForUser_def map_jti_revoke)
  then have fresh: "fresh \<notin> tk_jti ` set l2" using assms(3) by (metis list.set_map)
  obtain n where n: "parseExpiresIn (ac_expires cfg) = Inr n"
    using assms(5) by (cases "parseExpiresIn (ac_expires cfg)") auto
  let ?row = "\<lparr>tk_user = usr_id u, tk_jti = fresh, tk_expires = now2 + life * 1000, tk_revoked = None\<rparr>"
  have iss: "issueToken (usr_id u) fresh (now2 + life * 1000) l2 = Inr (l2 @ [?row])"
    using fresh by (auto simp: issueToken_def list_ex_iff)
  have "findByJti (l2 @ [?row]) fresh = Some ?row" using fresh by (simp add: findByJti_snoc)
  then show "\<exists>l3 tokens. signTokens cfg now2 fresh u l2 = (l3, Inr tokens) \<and>
       refresh_validate d now3 (tp_refresh tokens) l3 = (l3, Inr (u, fresh))"
    using iss n assms(4,6,7,8) by (simp add: signTokens_def refresh_validate_def bindR_def)
qed

text \<open>C25: Logging in and presenting the tokens: after a successful login the access token identifies the user
  who logged in, that user is active, the password matched, and the refresh token passes the guard
  until its lifetime is over.\<close>

theorem login_tokens_validate:
  assumes "directory_step\<^sup>*\<^sup>* (empty_directory seed_roles perms) d"
    and "login cfg h now jti email pw d l = (d', l', Inr tokens)" "\<forall>u \<in> set (dr_users d). ue_id u \<noteq> 0"
  shows "\<exists>u row life. jwt_validate d' (tp_access tokens) = Inr u \<and> usr_is_active u \<and>
    findRowByEmail d (toLowerCase (trim email)) = Some row \<and> ue_id row = usr_id u \<and>
    compare_hash h pw (ue_hash row) \<and> parseExpiresIn (ac_refresh_expires cfg) = Inr life \<and>
    (\<forall>t < now + life * 1000. refresh_validate d' t (tp_refresh tokens) l' = (l', Inr (u, jti)))"
proof -
  have inv: "directory_inv d" by (rule directory_reachable_inv[OF assms(1)])
  obtain row u where r: "findRowByEmail d (toLowerCase (trim email)) = Some row" "toDomain d row = Inr u"
    "compare_hash h pw (ue_hash row)" "usr_is_active u" "signTokens cfg now jti u l = (l', Inr tokens)"
    "d' = recordLogin (usr_id u) now d"
    using assms(2)
    by (auto simp: login_def withCredentials_def bindR_eq_Inr split: sum.splits option.splits prod.splits if_splits)
  have row: "row \<in> set (dr_users d)" "ue_live row"
    using r(1) find_Some_iff_mem unfolding findRowByEmail_def by fastforce+
  have id: "usr_id u = ue_id row" using r(2) by (auto simp: toDomain_def split: option.splits)
  then have nz: "usr_id u \<noteq> 0" using assms(3) row(1) by auto
  let ?f = "\<lambda>u. u\<lparr>ue_last_login := Some now\<rparr>"
  have "findUserRow d (usr_id u) = Some row"
    unfolding findUserRow_def id
    by (rule find_unique) (use row inv serial_ok_inj[of ue_id "dr_next d" "dr_users d"] in \<open>auto simp: directory_inv_def\<close>)
  moreover have "findUserRow d' i = map_option (\<lambda>v. if ue_id v = usr_id u then ?f v else v) (findUserRow d i)" for i
  proof -
    have "find (\<lambda>u. ue_id u = i \<and> ue_live u) (update_where (\<lambda>v. ue_id v = usr_id u) ?f us) =
      map_option (\<lambda>v. if ue_id v = usr_id u then ?f v else v) (find (\<lambda>u. ue_id u = i \<and> ue_live u) us)" for us
      by (induction us) (auto simp: ue_live_def)
    then show ?thesis by (simp add: r(6) recordLogin_def findUserRow_def)
  qed
  moreover have "toDomain d' (?f row) = Inr u"
    using r(2) by (simp add: toDomain_def r(6) recordLogin_def findRole_def roleToDomain_def load_permissions_def split: option.splits)
  ultimately have act: "active_user d' (usr_id u) = Inr u"
    using id r(4) by (simp add: active_user_def findUserById_def toDomainOpt_def bindR_def)
  obtain life where t: "parseExpiresIn (ac_refresh_expires cfg) = Inr life" "jti \<notin> tk_jti ` set l"
    "l' = l @ [\<lparr>tk_user = usr_id u, tk_jti = jti, tk_expires = now + life * 1000, tk_revoked = None\<rparr>]"
    "tp_refresh tokens = \<lparr>pl_id = usr_id u, pl_admin = usr_system_admin u, pl_jti = Some jti\<rparr>"
    "tp_access tokens = \<lparr>pl_id = usr_id u, pl_admin = usr_system_admin u, pl_jti = None\<rparr>"
    using signTokens_Inr[OF r(5)] by blast
  have "findByJti l' jti = Some \<lparr>tk_user = usr_id u, tk_jti = jti, tk_expires = now + life * 1000, tk_revoked = None\<rparr>"
    using t(2,3) by (simp add: findByJti_snoc)
  then have "\<forall>x < now + life * 1000. refresh_validate d' x (tp_refresh tokens) l' = (l', Inr (u, jti))"
    using act nz t(4) by (simp add: refresh_validate_def bindR_def)
  moreover have "jwt_validate d' (tp_access tokens) = Inr u" using act nz t(5) by (simp add: jwt_validate_def)
  ultimately show ?thesis using r(1,3,4) id t(1) by metis
qed

lemma softDeleted_gone:
  assumes "softDeleteUser now i actor d = (d', Inr ())"
  shows "findUserById d' i = Inl (NotFound ''User'' i)"
proof -
  have d': "d' = d\<lparr>dr_users := update_where (\<lambda>u. ue_id u = i) (retire_user (now, actor)) (dr_users d)\<rparr>"
    using assms by (simp add: softDeleteUser_def split: sum.splits)
  have "find (\<lambda>u. ue_id u = i \<and> ue_live u) (update_where (\<lambda>u. ue_id u = i) (retire_user (now, actor)) us) = None" for us
    by (induction us) (auto simp: retire_user_def ue_live_def)
  then show ?thesis by (simp add: d' findUserById_def toDomainOpt_def findUserRow_def bindR_def)
qed

lemma deactivated_not_active:
  assumes "directory_inv d" "updateUser i p d = (d', Inr v)" "pu_active p = Some False"
  shows "active_user d' i = Inl Unauthorized"
proof -
  obtain u where u: "findUserRow d i = Some u" "saveUser (patched_user p u) d = Inr d'"
    using assms(2) by (auto simp: updateUser_def split: if_splits sum.splits option.splits)
  let ?q = "patched_user p u"
  have q: "ue_id ?q = i" "ue_live ?q" "\<not> ue_active ?q" "u \<in> set (dr_users d)" "ue_id u = i"
    using findUserRow_Some[OF u(1)] assms(3) by (auto simp: patched_user_def ue_live_def)
  have d': "d' = d\<lparr>dr_users := update_where (\<lambda>r. ue_id r = i) (\<lambda>_. ?q) (dr_users d)\<rparr>"
    using saveUser_inv[OF u(2) assms(1)] q(1) by simp
  have "?q \<in> set (dr_users d')"
    using update_where_mem[OF q(4), of "\<lambda>r. ue_id r = i" "\<lambda>_. ?q"] q(5) by (simp add: d')
  then have "findUserRow d' i = Some ?q"
    unfolding findUserRow_def
    by (rule find_unique) (use q in \<open>auto simp: d' table_simps split: if_splits\<close>)
  moreover have "\<not> usr_is_active w" if w: "toDomain d' ?q = Inr w" for w
    using w q(3) by (auto simp: toDomain_def split: option.splits)
  ultimately show ?thesis
    by (auto simp: active_user_def findUserById_def toDomainOpt_def bindR_def split: sum.splits)
qed

text \<open>A user who is deactivated or soft-deleted is shut out at once: whatever tokens were issued before, no
  access token and no refresh token of the user passes its guard from then on.\<close>

theorem deactivated_user_shut_out:
  assumes "directory_step\<^sup>*\<^sup>* (empty_directory seed_roles perms) d" "pl_id p = i"
    and "(\<exists>pt v. updateUser i pt d = (d', Inr v) \<and> pu_active pt = Some False) \<or>
      (\<exists>now actor. softDeleteUser now i actor d = (d', Inr ()))"
  shows "jwt_validate d' p = Inl Unauthorized \<and> snd (refresh_validate d' t p l) = Inl Unauthorized"
proof -
  have inv: "directory_inv d" by (rule directory_reachable_inv[OF assms(1)])
  have "active_user d' i = Inl Unauthorized"
    using assms(3) deactivated_not_active[OF inv] softDeleted_gone by (auto simp: active_user_def)
  then show ?thesis
    using assms(2) by (auto simp: jwt_validate_def refresh_validate_def bindR_def split: option.splits)
qed

section \<open>Lifetimes\<close>

definition unit_seconds :: "string \<Rightarrow> int" where
  "unit_seconds u = (if u = ''d'' then 86400 else if u = ''h'' then 3600 else if u = ''m'' then 60 else 1)"

lemma parse_int_snoc: "parse_int (ds @ [c]) = 10 * parse_int ds + digit_val c"
  by (simp add: parse_int_def)

lemma parse_int_bounds:
  "list_all is_digit ds \<Longrightarrow> 0 \<le> parse_int ds \<and> parse_int ds < 10 ^ length ds"
proof (induction ds rule: rev_induct)
  case Nil
  then show ?case by (simp add: parse_int_def)
next
  case (snoc c ds)
  then have ih: "0 \<le> parse_int ds" "parse_int ds < 10 ^ length ds" "0 \<le> digit_val c" "digit_val c \<le> 9"
    by (auto simp: is_digit_def digit_val_def)
  have "10 * parse_int ds + 9 < 10 * 10 ^ length ds" using ih(2) by presburger
  then show ?case using ih by (simp add: parse_int_snoc)
qed

lemma takeWhile_digits:
  assumes "list_all is_digit ds" "list_all is_space sp" "u \<in> {[], ''s'', ''m'', ''h'', ''d''}"
  shows "takeWhile is_digit (ds @ sp @ u) = ds \<and> dropWhile is_space (dropWhile is_digit (ds @ sp @ u)) = u"
proof -
  have disj: "\<not> is_digit c" if c: "is_space c" for c
    using c by (auto simp: is_digit_def is_space_def)
  have u: "u = [] \<or> \<not> is_digit (hd u) \<and> \<not> is_space (hd u)"
    using assms(3) by (auto simp: is_digit_def is_space_def)
  have rest: "sp @ u = [] \<or> \<not> is_digit (hd (sp @ u))"
    using u assms(2) disj by (cases sp) auto
  have "takeWhile is_digit (ds @ r) = ds \<and> dropWhile is_digit (ds @ r) = r" if r: "r = [] \<or> \<not> is_digit (hd r)" for r
    using assms(1) r by (induction ds; cases r) auto
  moreover have "dropWhile is_space (sp @ u) = u"
    using assms(2) u by (induction sp; cases u) auto
  ultimately show ?thesis using rest by simp
qed

text \<open>The check at boot and the parser agree: exactly the lifetimes that pass \<open>EXPIRES_IN_FORMAT\<close> parse, so a
  booted service never throws here, and digits, white space and a unit parse to the number times the
  unit, which is never negative and is bounded by the number of digits.\<close>

theorem accepted_lifetimes_parse:
  "(EXPIRES_IN_FORMAT s = okR (parseExpiresIn s)) \<and>
   (ds \<noteq> [] \<and> list_all is_digit ds \<and> list_all is_space sp \<and> u \<in> {[], ''s'', ''m'', ''h'', ''d''} \<longrightarrow>
      parseExpiresIn (ds @ sp @ u) = Inr (parse_int ds * unit_seconds u) \<and>
      0 \<le> parse_int ds \<and> parse_int ds < 10 ^ length ds)"
proof
  show "EXPIRES_IN_FORMAT s = okR (parseExpiresIn s)"
    by (simp add: EXPIRES_IN_FORMAT_def parseExpiresIn_def match_expires_def Let_def)
  show "ds \<noteq> [] \<and> list_all is_digit ds \<and> list_all is_space sp \<and> u \<in> {[], ''s'', ''m'', ''h'', ''d''} \<longrightarrow>
      parseExpiresIn (ds @ sp @ u) = Inr (parse_int ds * unit_seconds u) \<and>
      0 \<le> parse_int ds \<and> parse_int ds < 10 ^ length ds"
  proof
    assume a: "ds \<noteq> [] \<and> list_all is_digit ds \<and> list_all is_space sp \<and> u \<in> {[], ''s'', ''m'', ''h'', ''d''}"
    then have tw: "takeWhile is_digit (ds @ sp @ u) = ds" "dropWhile is_space (dropWhile is_digit (ds @ sp @ u)) = u"
      using takeWhile_digits[of ds sp u] by blast+
    have "match_expires (ds @ sp @ u) = Some (ds, u)"
      using a unfolding match_expires_def tw Let_def by auto
    then have "parseExpiresIn (ds @ sp @ u) = Inr (parse_int ds * unit_seconds u)"
      by (simp add: parseExpiresIn_def unit_seconds_def)
    then show "parseExpiresIn (ds @ sp @ u) = Inr (parse_int ds * unit_seconds u) \<and>
      0 \<le> parse_int ds \<and> parse_int ds < 10 ^ length ds"
      using a parse_int_bounds[of ds] by blast
  qed
qed

theorem accepted_lifetimes_parse_witness: "parseExpiresIn ''15 m'' = Inr 900"
proof -
  have "''15'' \<noteq> [] \<and> list_all is_digit ''15'' \<and> list_all is_space '' '' \<and> ''m'' \<in> {[], ''s'', ''m'', ''h'', ''d''}"
    by (simp add: is_digit_def is_space_def)
  then have "parseExpiresIn (''15'' @ '' '' @ ''m'') = Inr (parse_int ''15'' * unit_seconds ''m'')"
    using accepted_lifetimes_parse[of "''15 m''" "''15''" "'' ''" "''m''"] by blast
  then show ?thesis by (simp add: parse_int_def digit_val_def unit_seconds_def)
qed

section \<open>A sample session\<close>

definition sample_cfg :: auth_config where
  "sample_cfg = \<lparr>ac_expires = ''15m'', ac_refresh_expires = ''7d''\<rparr>"

definition sample_login :: "directory \<times> token_row list \<times> (http_error + token_pair)" where
  "sample_login = login sample_cfg sample_hasher 100 ''j1'' ''jane@x.io'' ''Pw'' dir_sample []"

definition sample_ledger :: "token_row list" where
  "sample_ledger = [\<lparr>tk_user = 1, tk_jti = ''j1'', tk_expires = 604800100, tk_revoked = None\<rparr>]"

lemma sample_login_eq:
  obtains d tokens where "sample_login = (d, sample_ledger, Inr tokens)" "pl_id (tp_access tokens) = 1"
proof -
  have "okR (snd (snd sample_login))"
    "map (\<lambda>t. (tk_user t, tk_jti t, tk_expires t, tk_revoked t)) (fst (snd sample_login)) = [(1, ''j1'', 604800100, None)]"
    "map_sum id (\<lambda>t. pl_id (tp_access t)) (snd (snd sample_login)) = Inr 1"
    by code_simp+
  then obtain t tokens where t: "fst (snd sample_login) = [t]" "snd (snd sample_login) = Inr tokens"
    "pl_id (tp_access tokens) = 1" "(tk_user t, tk_jti t, tk_expires t, tk_revoked t) = (1, ''j1'', 604800100, None)"
    by (cases "snd (snd sample_login)") auto
  then have "[t] = sample_ledger" by (cases t) (simp add: sample_ledger_def)
  then show thesis using that[of "fst sample_login" tokens] t by (simp add: prod_eq_iff)
qed

lemma sample_active:
  obtains u where "active_user dir_sample 1 = Inr u" "usr_id u = 1"
proof -
  have "map_sum id usr_id (active_user dir_sample 1) = Inr 1" by code_simp
  then show thesis using that by (cases "active_user dir_sample 1") auto
qed

lemma sample_lives: "parseExpiresIn (ac_refresh_expires sample_cfg) = Inr 604800" "okR (parseExpiresIn (ac_expires sample_cfg))"
  by code_simp+

theorem login_tokens_validate_witness:
  "\<exists>u tokens. snd (snd sample_login) = Inr tokens \<and> jwt_validate (fst sample_login) (tp_access tokens) = Inr u \<and> usr_id u = 1"
proof -
  obtain d tokens where l: "sample_login = (d, sample_ledger, Inr tokens)" "pl_id (tp_access tokens) = 1"
    by (rule sample_login_eq)
  obtain u where u: "dr_users dir_sample = [u]" "ue_id u = 1" by (rule dir_sample_user)
  have run: "login sample_cfg sample_hasher 100 ''j1'' ''jane@x.io'' ''Pw'' dir_sample [] = (d, sample_ledger, Inr tokens)"
    using l(1) by (simp add: sample_login_def)
  obtain v row where v: "jwt_validate d (tp_access tokens) = Inr v"
    "findRowByEmail dir_sample (toLowerCase (trim ''jane@x.io'')) = Some row" "ue_id row = usr_id v"
    using login_tokens_validate[OF dir_sample_reachable run] u by auto
  have "row \<in> set (dr_users dir_sample)" using v(2) find_Some_iff_mem unfolding findRowByEmail_def by fastforce
  then have "usr_id v = 1" using v(3) u by simp
  then show ?thesis using v(1) unfolding l(1) by (intro exI[of _ v] exI[of _ tokens]) simp
qed

theorem refresh_token_single_use_witness:
  "\<exists>s :: session_state. ss_log s = [''j1''] \<and>
     filter (\<lambda>t. tk_jti t = ''j1'' \<and> tk_revoked t = None) (ss_ledger s) = []"
proof -
  obtain d tokens where l: "sample_login = (d, sample_ledger, Inr tokens)" by (rule sample_login_eq)
  obtain u where u: "active_user dir_sample 1 = Inr u" "usr_id u = 1" by (rule sample_active)
  let ?s1 = "\<lparr>ss_ledger = sample_ledger, ss_validated = [], ss_rotated = [], ss_log = [], ss_issued = [''j1'']\<rparr>"
  have run: "login sample_cfg sample_hasher 100 ''j1'' ''jane@x.io'' ''Pw'' dir_sample (ss_ledger empty_sessions) =
      (d, sample_ledger, Inr tokens)"
    using l by (simp add: sample_login_def empty_sessions_def)
  have 1: "session_step sample_cfg empty_sessions ?s1"
    using session_step.login[OF run] by (simp add: empty_sessions_def)
  let ?s2 = "?s1\<lparr>ss_validated := [(u, ''j1'')]\<rparr>"
  have "refresh_validate dir_sample 200 \<lparr>pl_id = 1, pl_admin = False, pl_jti = Some ''j1''\<rparr> (ss_ledger ?s1) =
      (sample_ledger, Inr (u, ''j1''))"
    using u(1) by (simp add: refresh_validate_def findByJti_def sample_ledger_def bindR_def)
  from session_step.validate[OF this, where cfg = sample_cfg] have 2: "session_step sample_cfg ?s1 ?s2" by simp
  let ?l3 = "update_where (\<lambda>t. tk_jti t = ''j1'' \<and> tk_active t) (stamp 300) sample_ledger"
  let ?s3 = "?s2\<lparr>ss_ledger := ?l3, ss_validated := [], ss_rotated := [(u, ''j1'')], ss_log := [''j1'']\<rparr>"
  have "refresh_rotate 300 u ''j1'' (ss_ledger ?s2) = (?l3, Inr ())"
    by (simp add: refresh_rotate_def revokeIfActive_def sample_ledger_def tk_active_def)
  from session_step.rotate[OF _ this, where cfg = sample_cfg] have 3: "session_step sample_cfg ?s2 ?s3" by simp
  have "(session_step sample_cfg)\<^sup>*\<^sup>* empty_sessions ?s3" using 1 2 3 by (meson rtranclp.rtrancl_into_rtrancl rtranclp.rtrancl_refl)
  from refresh_token_single_use[OF this] show ?thesis
    unfolding filter_empty_conv by (intro exI[of _ ?s3]) auto
qed

theorem reuse_kills_successor_witness:
  "\<exists>u l1 tokens l2. refresh sample_cfg 200 ''j2'' u ''j1'' sample_ledger = (l1, Inr tokens) \<and>
     refresh_validate dir_sample 300 \<lparr>pl_id = 1, pl_admin = False, pl_jti = Some ''j1''\<rparr> l1 = (l2, Inl Unauthorized) \<and>
     snd (refresh_validate dir_sample 400 (tp_refresh tokens) l2) = Inl Unauthorized"
proof -
  obtain u where u: "active_user dir_sample 1 = Inr u" "usr_id u = 1" by (rule sample_active)
  have row: "findByJti sample_ledger ''j1'' = Some \<lparr>tk_user = 1, tk_jti = ''j1'', tk_expires = 604800100, tk_revoked = None\<rparr>"
    by (simp add: findByJti_def sample_ledger_def)
  have "okR (snd (refresh sample_cfg 200 ''j2'' u ''j1'' sample_ledger))"
    using sample_lives
    by (cases "parseExpiresIn (ac_expires sample_cfg)")
      (simp_all add: refresh_def refresh_rotate_def revokeIfActive_def sample_ledger_def tk_active_def signTokens_def
        issueToken_def stamp_def)
  then obtain l1 tokens where r: "refresh sample_cfg 200 ''j2'' u ''j1'' sample_ledger = (l1, Inr tokens)"
    by (cases "refresh sample_cfg 200 ''j2'' u ''j1'' sample_ledger"; cases "snd (refresh sample_cfg 200 ''j2'' u ''j1'' sample_ledger)") auto
  let ?p = "\<lparr>pl_id = 1, pl_admin = False, pl_jti = Some ''j1''\<rparr>"
  obtain l2 res where v: "refresh_validate dir_sample 300 ?p l1 = (l2, res)" by (metis prod.exhaust)
  show ?thesis
    using reuse_kills_successor[OF row _ _ r _ _ v, where d' = dir_sample and now'' = 400] u(2) r v by auto
qed

theorem inflight_refresh_survives_logout_witness:
  "\<exists>u l1 l3 tokens. refresh_rotate 200 u ''j1'' sample_ledger = (l1, Inr ()) \<and>
     signTokens sample_cfg 210 ''j2'' u (logout 205 1 l1) = (l3, Inr tokens) \<and>
     refresh_validate dir_sample 300 (tp_refresh tokens) l3 = (l3, Inr (u, ''j2''))"
proof -
  obtain u where u: "active_user dir_sample 1 = Inr u" "usr_id u = 1" by (rule sample_active)
  let ?l1 = "update_where (\<lambda>t. tk_jti t = ''j1'' \<and> tk_active t) (stamp 200) sample_ledger"
  have rot: "refresh_rotate 200 u ''j1'' sample_ledger = (?l1, Inr ())"
    by (simp add: refresh_rotate_def revokeIfActive_def sample_ledger_def tk_active_def)
  have "''j2'' \<notin> tk_jti ` set sample_ledger" by (simp add: sample_ledger_def)
  from inflight_refresh_survives_logout[OF rot refl this _ sample_lives(2,1), of 300 210 dir_sample 205] u rot
  show ?thesis by auto
qed

theorem deactivated_user_shut_out_witness:
  "okR (jwt_validate dir_sample \<lparr>pl_id = 1, pl_admin = False, pl_jti = None\<rparr>) \<and>
   jwt_validate (fst (softDeleteUser 9 1 None dir_sample)) \<lparr>pl_id = 1, pl_admin = False, pl_jti = None\<rparr> = Inl Unauthorized"
proof
  show "okR (jwt_validate dir_sample \<lparr>pl_id = 1, pl_admin = False, pl_jti = None\<rparr>)" by code_simp
  have "okR (snd (softDeleteUser 9 1 None dir_sample))" by code_simp
  then have del: "softDeleteUser 9 1 None dir_sample = (fst (softDeleteUser 9 1 None dir_sample), Inr ())"
    by (cases "snd (softDeleteUser 9 1 None dir_sample)") (auto simp: prod_eq_iff)
  show "jwt_validate (fst (softDeleteUser 9 1 None dir_sample)) \<lparr>pl_id = 1, pl_admin = False, pl_jti = None\<rparr> = Inl Unauthorized"
    by (rule conjunct1[OF deactivated_user_shut_out[OF dir_sample_reachable refl disjI2]]) (use del in auto)
qed

end
