(* ===== verification/Routes.thy ===== *)
theory Routes
  imports Sessions
begin

text \<open>
  The HTTP surface: the routes of the 23 controllers and the pipeline in front of their handlers
  (\<open>src/src/app.module.ts\<close>: throttler, access token, permissions; then the handler's parameters).  A route is
  the data of its decorators with the service method its handler calls and where each argument of the call
  comes from; \<open>serve\<close> takes a request to that call or to the answer that refuses it.  Matching a path,
  counting requests, verifying signatures and parsing integers are the framework's: the matcher is written
  out, the others are arguments.  DTO validation and the mapping of results to response DTOs are left out.
\<close>

section \<open>Values and where arguments come from\<close>

text \<open>A value of a request: JSON data, the uploaded file, or the authenticated user.\<close>

datatype json =
    Absent
  | Jnull
  | Num int
  | Str string
  | Arr "json list"
  | Obj "(string \<times> json) list"
  | Person user
  | Upload

datatype origin =
    Caller
  | Caller_id
  | Refresh_jti
  | Body
  | Query
  | File
  | Today
  | Param_int string
  | Step_param string
  | Body_field string
  | Body_field_or_null string
  | Query_field string

text \<open>\<open>{ ...dto, created_by: actor.id }\<close> is \<open>Spread Body [(''created_by'', Caller_id)]\<close>: the fields after the
  spread win.\<close>

datatype argument =
    Plain origin
  | Spread origin "(string \<times> origin) list"
  | Object "(string \<times> origin) list"

definition member :: "string \<Rightarrow> json \<Rightarrow> json" where
  "member k v = (case v of Obj kvs \<Rightarrow> (case map_of kvs k of None \<Rightarrow> Absent | Some x \<Rightarrow> x) | _ \<Rightarrow> Absent)"

definition fields_of :: "json \<Rightarrow> (string \<times> json) list" where
  "fields_of v = (case v of Obj kvs \<Rightarrow> kvs | _ \<Rightarrow> [])"

text \<open>\<open>toIntent(dto)\<close>.\<close>

definition schedule_intent :: "(string \<times> origin) list" where
  "schedule_intent =
     [(''employee_id'', Body_field ''employee_id''), (''day_of_week'', Body_field ''day_of_week''),
      (''effective_from'', Body_field ''effective_from''), (''mode'', Body_field ''mode''),
      (''expected_in'', Body_field ''expected_in''), (''expected_out'', Body_field ''expected_out''),
      (''break_minutes'', Body_field ''break_minutes''), (''break_start'', Body_field_or_null ''break_start'')]"

section \<open>Routes\<close>

datatype verb = GET | POST | PATCH | DELETE

datatype segment = Lit string | Param string

datatype limit = Default_limit | Own_limit nat | No_limit

datatype gate = Access_token | No_token | Refresh_token

record route =
  rt_verb :: verb
  rt_path :: "segment list"
  rt_gate :: gate
  rt_required :: "required_permissions option"
  rt_limit :: limit
  rt_status :: int
  rt_call :: string
  rt_args :: "argument list"

definition route ::
  "verb \<Rightarrow> segment list \<Rightarrow> required_permissions option \<Rightarrow> limit \<Rightarrow> int \<Rightarrow> string \<Rightarrow> argument list \<Rightarrow> route" where
  "route v path required lmt status call args =
     \<lparr>rt_verb = v, rt_path = path, rt_gate = Access_token, rt_required = required, rt_limit = lmt,
      rt_status = status, rt_call = call, rt_args = args\<rparr>"

text \<open>\<open>@Public()\<close>, and \<open>@Public() @UseGuards(JwtRefreshGuard)\<close>.\<close>

definition public :: "route \<Rightarrow> route" where
  "public r = r\<lparr>rt_gate := No_token\<rparr>"

definition refresh_guarded :: "route \<Rightarrow> route" where
  "refresh_guarded r = r\<lparr>rt_gate := Refresh_token\<rparr>"

definition controller :: "segment list \<Rightarrow> route list \<Rightarrow> route list" where
  "controller base rs = map (\<lambda>r. r\<lparr>rt_path := base @ rt_path r\<rparr>) rs"

section \<open>The controllers\<close>

definition auth_routes :: "route list" where
  "auth_routes =
    controller [Lit ''auth'']
     [public (route POST [Lit ''login''] None (Own_limit 10) 200 ''AuthService.login''
        [Plain (Body_field ''email''), Plain (Body_field ''password'')]),
      route GET [Lit ''me''] None Default_limit 200 ''AuthUserDto.from''
        [Plain Caller],
      refresh_guarded (route POST [Lit ''refresh''] None (Own_limit 20) 200 ''AuthService.refresh''
        [Plain Caller, Plain Refresh_jti]),
      route POST [Lit ''logout''] None Default_limit 204 ''AuthService.logout''
        [Plain Caller_id]]"

definition health_routes :: "route list" where
  "health_routes =
    controller [Lit ''health'']
     [public (route GET [] None No_limit 200 ''HealthController.check''
        [])]"

definition admin_permissions_routes :: "route list" where
  "admin_permissions_routes =
    controller [Lit ''admin'', Lit ''permissions'']
     [route GET [] (Some [(''PERMISSION'', [''View''])]) Default_limit 200 ''PermissionsService.findAll''
        [Plain Query],
      route GET [Param ''id''] (Some [(''PERMISSION'', [''View''])]) Default_limit 200 ''PermissionsService.findById''
        [Plain (Param_int ''id'')],
      route PATCH [Param ''id''] (Some [(''PERMISSION'', [''Update''])]) Default_limit 200 ''PermissionsService.update''
        [Plain (Param_int ''id''), Plain Body]]"

definition admin_roles_routes :: "route list" where
  "admin_roles_routes =
    controller [Lit ''admin'', Lit ''roles'']
     [route GET [] (Some [(''ROLE'', [''View''])]) Default_limit 200 ''RolesService.findAll''
        [Plain Query],
      route GET [Param ''id''] (Some [(''ROLE'', [''View''])]) Default_limit 200 ''RolesService.findById''
        [Plain (Param_int ''id'')],
      route POST [] (Some [(''ROLE'', [''Create''])]) Default_limit 201 ''RolesService.create''
        [Spread Body [(''created_by'', Caller_id)]],
      route PATCH [Param ''id''] (Some [(''ROLE'', [''Update''])]) Default_limit 200 ''RolesService.update''
        [Plain (Param_int ''id''), Spread Body [(''updated_by'', Caller_id)]],
      route POST [Param ''id'', Lit ''permissions''] (Some [(''ROLE'', [''Update''])]) Default_limit 201 ''RolesService.assignPermissions''
        [Plain (Param_int ''id''), Plain (Body_field ''permission_ids'')],
      route DELETE [Param ''id''] (Some [(''ROLE'', [''Delete''])]) Default_limit 204 ''RolesService.softDelete''
        [Plain (Param_int ''id''), Plain Caller_id]]"

definition admin_users_routes :: "route list" where
  "admin_users_routes =
    controller [Lit ''admin'', Lit ''users'']
     [route GET [] (Some [(''USER'', [''View''])]) No_limit 200 ''UsersService.findAll''
        [Plain Query],
      route GET [Param ''id''] (Some [(''USER'', [''View''])]) Default_limit 200 ''UsersService.findById''
        [Plain (Param_int ''id'')],
      route POST [] (Some [(''USER'', [''Create''])]) Default_limit 201 ''UsersService.create''
        [Spread Body [(''created_by'', Caller_id)]],
      route PATCH [Param ''id''] (Some [(''USER'', [''Update''])]) Default_limit 200 ''UsersService.update''
        [Plain (Param_int ''id''), Spread Body [(''updated_by'', Caller_id)]],
      route POST [Param ''id'', Lit ''reset-password''] (Some [(''USER'', [''Update''])]) Default_limit 204 ''UsersService.changePassword''
        [Plain (Param_int ''id''), Plain (Body_field ''new_password''), Plain Caller_id],
      route DELETE [Param ''id''] (Some [(''USER'', [''Delete''])]) Default_limit 204 ''UsersService.softDelete''
        [Plain (Param_int ''id''), Plain Caller_id]]"

definition me_users_routes :: "route list" where
  "me_users_routes =
    controller [Lit ''users'', Lit ''me'']
     [route GET [] None Default_limit 200 ''UsersService.findById''
        [Plain Caller_id],
      route GET [Lit ''permissions''] None Default_limit 200 ''UsersService.findById''
        [Plain Caller_id],
      route PATCH [] None Default_limit 200 ''UsersService.update''
        [Plain Caller_id, Spread Body [(''updated_by'', Caller_id)]],
      route PATCH [Lit ''password''] None (Own_limit 5) 204 ''UsersService.changeMyPassword''
        [Plain Caller_id, Plain (Body_field ''current_password''), Plain (Body_field ''new_password'')]]"

definition admin_time_entries_routes :: "route list" where
  "admin_time_entries_routes =
    controller [Lit ''admin'', Lit ''time-entries'']
     [route GET [] (Some [(''TIME'', [''View''])]) Default_limit 200 ''TimeEntriesService.findAll''
        [Plain Query],
      route GET [Param ''id''] (Some [(''TIME'', [''View''])]) Default_limit 200 ''TimeEntriesService.findById''
        [Plain (Param_int ''id'')],
      route POST [] (Some [(''TIME'', [''Create''])]) Default_limit 201 ''TimeEntriesService.create''
        [Spread Body [(''created_by'', Caller_id)]],
      route PATCH [Param ''id''] (Some [(''TIME'', [''Update''])]) Default_limit 200 ''TimeEntriesService.update''
        [Plain (Param_int ''id''), Spread Body [(''updated_by'', Caller_id)]],
      route DELETE [Param ''id''] (Some [(''TIME'', [''Delete''])]) Default_limit 204 ''TimeEntriesService.softDelete''
        [Plain (Param_int ''id''), Plain Caller_id]]"

definition me_time_entries_routes :: "route list" where
  "me_time_entries_routes =
    controller [Lit ''users'', Lit ''me'', Lit ''time-entries'']
     [route POST [Lit ''punch''] None Default_limit 201 ''TimeEntriesService.punch''
        [Plain Caller],
      route GET [] None Default_limit 200 ''TimeEntriesService.findAll''
        [Spread Query [(''employee_id'', Caller_id)]],
      route GET [Lit ''today''] None Default_limit 200 ''TimeEntriesService.findAll''
        [Object [(''employee_id'', Caller_id), (''from'', Today), (''to'', Today)]]]"

definition admin_work_schedules_routes :: "route list" where
  "admin_work_schedules_routes =
    controller [Lit ''admin'', Lit ''work-schedules'']
     [route GET [] (Some [(''SCHEDULE'', [''View''])]) Default_limit 200 ''WorkSchedulesService.findAll''
        [Spread Query [(''day_of_week'', Query_field ''day_of_week'')]],
      route GET [Param ''id''] (Some [(''SCHEDULE'', [''View''])]) Default_limit 200 ''WorkSchedulesService.findById''
        [Plain (Param_int ''id'')],
      route POST [] (Some [(''SCHEDULE'', [''Create''])]) Default_limit 201 ''WorkSchedulesService.create''
        [Spread Body [(''day_of_week'', Body_field ''day_of_week''), (''created_by'', Caller_id)]],
      route PATCH [Param ''id''] (Some [(''SCHEDULE'', [''Update''])]) Default_limit 200 ''WorkSchedulesService.update''
        [Plain (Param_int ''id''), Spread Body [(''updated_by'', Caller_id)]],
      route DELETE [Param ''id''] (Some [(''SCHEDULE'', [''Delete''])]) Default_limit 200 ''WorkSchedulesService.endLogically''
        [Plain (Param_int ''id''), Plain Today, Plain Caller_id]]"

definition admin_schedule_changes_routes :: "route list" where
  "admin_schedule_changes_routes =
    controller [Lit ''admin'', Lit ''work-schedules'', Lit ''changes'']
     [route POST [Lit ''preview''] (Some [(''SCHEDULE'', [''Update''])]) Default_limit 201 ''ScheduleChangeService.preview''
        [Object schedule_intent, Plain Caller],
      route POST [] (Some [(''SCHEDULE'', [''Update''])]) Default_limit 200 ''ScheduleChangeService.apply''
        [Object schedule_intent, Plain Caller, Plain (Body_field ''previewed'')]]"

definition me_work_schedules_routes :: "route list" where
  "me_work_schedules_routes =
    controller [Lit ''users'', Lit ''me'', Lit ''work-schedule'']
     [route GET [] None Default_limit 200 ''WorkSchedulesService.findActiveForEmployee''
        [Plain Caller_id]]"

definition approvals_routes :: "route list" where
  "approvals_routes =
    controller [Lit ''approvals'']
     [route GET [Lit ''pending''] (Some [(''APPROVAL'', [''View''])]) Default_limit 200 ''ApprovalsService.findPending''
        [Plain Caller, Plain Query]]"

definition admin_approval_chains_routes :: "route list" where
  "admin_approval_chains_routes =
    controller [Lit ''admin'', Lit ''approvers'']
     [route GET [] (Some [(''APPROVAL_CHAIN'', [''View''])]) Default_limit 200 ''ApprovalChainsService.list''
        [Plain Query],
      route POST [Lit ''bulk-reassign''] (Some [(''APPROVAL_CHAIN'', [''Update''])]) Default_limit 200 ''ApprovalChainsService.bulkReassign''
        [Plain (Body_field ''from_approver_id''), Plain (Body_field ''to_approver_id''), Plain Caller_id],
      route POST [Lit ''bulk-assign''] (Some [(''APPROVAL_CHAIN'', [''Update''])]) Default_limit 200 ''ApprovalChainsService.bulkAssign''
        [Plain (Body_field ''employee_ids''), Object [(''l1_approver_id'', Body_field ''l1_approver_id''), (''l2_approver_id'', Body_field ''l2_approver_id'')], Plain Caller_id],
      route GET [Lit ''ids''] (Some [(''APPROVAL_CHAIN'', [''View''])]) Default_limit 200 ''ApprovalChainsService.listIds''
        [Plain Query],
      route GET [Param ''employee_id''] (Some [(''APPROVAL_CHAIN'', [''View''])]) Default_limit 200 ''ApprovalChainsService.getActiveRows''
        [Plain (Param_int ''employee_id'')],
      route PATCH [Param ''employee_id''] (Some [(''APPROVAL_CHAIN'', [''Update''])]) Default_limit 200 ''ApprovalChainsService.setChain''
        [Plain (Param_int ''employee_id''), Plain Body, Plain Caller_id],
      route DELETE [Param ''employee_id'', Param ''step''] (Some [(''APPROVAL_CHAIN'', [''Update''])]) Default_limit 200 ''ApprovalChainsService.endStep''
        [Plain (Param_int ''employee_id''), Plain (Step_param ''step''), Plain Caller_id]]"

definition admin_leave_requests_routes :: "route list" where
  "admin_leave_requests_routes =
    controller [Lit ''admin'', Lit ''leave-requests'']
     [route GET [] (Some [(''LEAVE'', [''ViewAll''])]) Default_limit 200 ''LeaveRequestsService.findAll''
        [Plain Query],
      route GET [Param ''id''] (Some [(''LEAVE'', [''ViewAll''])]) Default_limit 200 ''LeaveRequestsService.findById''
        [Plain (Param_int ''id'')],
      route PATCH [Param ''id''] (Some [(''LEAVE'', [''Update''])]) Default_limit 200 ''LeaveRequestsService.update''
        [Plain (Param_int ''id''), Plain Body, Plain Caller],
      route DELETE [Param ''id''] (Some [(''LEAVE'', [''Delete''])]) Default_limit 200 ''LeaveRequestsService.cancel''
        [Plain (Param_int ''id''), Plain Caller]]"

definition me_leave_requests_routes :: "route list" where
  "me_leave_requests_routes =
    controller [Lit ''users'', Lit ''me'', Lit ''leave-requests'']
     [route GET [] (Some [(''LEAVE'', [''ViewOwn''])]) Default_limit 200 ''LeaveRequestsService.findAll''
        [Spread Query [(''employee_id'', Caller_id)]],
      route POST [] (Some [(''LEAVE'', [''Create''])]) Default_limit 201 ''LeaveRequestsService.submit''
        [Spread Body [(''employee_id'', Caller_id)], Plain Caller, Plain File],
      route GET [Lit ''day-count''] (Some [(''LEAVE'', [''ViewOwn''])]) Default_limit 200 ''LeaveRequestsService.previewWorkingDays''
        [Plain Caller_id, Plain (Query_field ''start_date''), Plain (Query_field ''end_date''), Plain (Query_field ''day_portion''), Plain (Query_field ''leave_type'')],
      route GET [Param ''id''] (Some [(''LEAVE'', [''ViewOwn''])]) Default_limit 200 ''LeaveRequestsService.findByIdForViewer''
        [Plain (Param_int ''id''), Plain Caller],
      route POST [Param ''id'', Lit ''cancel''] (Some [(''LEAVE'', [''ViewOwn''])]) Default_limit 200 ''LeaveRequestsService.cancel''
        [Plain (Param_int ''id''), Plain Caller]]"

definition me_leave_balances_routes :: "route list" where
  "me_leave_balances_routes =
    controller [Lit ''users'', Lit ''me'', Lit ''leave-balances'']
     [route GET [] (Some [(''LEAVE'', [''ViewOwn''])]) Default_limit 200 ''LeaveBalanceService.forEmployee''
        [Plain Caller_id]]"

definition leave_requests_routes :: "route list" where
  "leave_requests_routes =
    controller [Lit ''leave-requests'']
     [route GET [Param ''id''] (Some [(''LEAVE'', [''ViewOwn''])]) Default_limit 200 ''LeaveRequestsService.findByIdForViewer''
        [Plain (Param_int ''id''), Plain Caller],
      route GET [Param ''id'', Lit ''attachment''] (Some [(''LEAVE'', [''ViewOwn''])]) Default_limit 200 ''LeaveRequestsService.getAttachmentDownload''
        [Plain (Param_int ''id''), Plain Caller, Plain (Query_field ''version'')],
      route POST [Param ''id'', Lit ''approve''] None Default_limit 200 ''LeaveRequestsService.approve''
        [Plain (Param_int ''id''), Plain Caller],
      route POST [Param ''id'', Lit ''reject''] None Default_limit 200 ''LeaveRequestsService.reject''
        [Plain (Param_int ''id''), Plain Caller, Plain (Body_field ''note'')]]"

definition admin_leave_allocations_routes :: "route list" where
  "admin_leave_allocations_routes =
    controller [Lit ''admin'', Lit ''users'', Param ''id'']
     [route POST [Lit ''leave-allocations''] (Some [(''LEAVE_ALLOCATION'', [''Create''])]) Default_limit 201 ''LeaveAllocationsService.grant''
        [Plain (Param_int ''id''), Plain Body, Plain Caller],
      route GET [Lit ''leave-allocations''] (Some [(''LEAVE_ALLOCATION'', [''View''])]) Default_limit 200 ''LeaveAllocationsService.history''
        [Plain (Param_int ''id'')],
      route GET [Lit ''leave-balances''] (Some [(''LEAVE_ALLOCATION'', [''View''])]) Default_limit 200 ''LeaveAllocationsService.balancesFor''
        [Plain (Param_int ''id'')]]"

definition admin_time_corrections_routes :: "route list" where
  "admin_time_corrections_routes =
    controller [Lit ''admin'', Lit ''time-correction-requests'']
     [route GET [] (Some [(''TIME_CORRECTION'', [''ViewAll''])]) Default_limit 200 ''TimeCorrectionRequestsService.findAll''
        [Plain Query],
      route GET [Param ''id''] (Some [(''TIME_CORRECTION'', [''ViewAll''])]) Default_limit 200 ''TimeCorrectionRequestsService.findById''
        [Plain (Param_int ''id'')],
      route PATCH [Param ''id''] (Some [(''TIME_CORRECTION'', [''Update''])]) Default_limit 200 ''TimeCorrectionRequestsService.update''
        [Plain (Param_int ''id''), Plain Body, Plain Caller],
      route DELETE [Param ''id''] (Some [(''TIME_CORRECTION'', [''Delete''])]) Default_limit 200 ''TimeCorrectionRequestsService.cancel''
        [Plain (Param_int ''id''), Plain Caller]]"

definition me_time_corrections_routes :: "route list" where
  "me_time_corrections_routes =
    controller [Lit ''users'', Lit ''me'', Lit ''time-correction-requests'']
     [route GET [] (Some [(''TIME_CORRECTION'', [''ViewOwn''])]) Default_limit 200 ''TimeCorrectionRequestsService.findAll''
        [Spread Query [(''employee_id'', Caller_id)]],
      route POST [] (Some [(''TIME_CORRECTION'', [''Create''])]) Default_limit 201 ''TimeCorrectionRequestsService.submit''
        [Spread Body [(''employee_id'', Caller_id)], Plain Caller],
      route GET [Param ''id''] (Some [(''TIME_CORRECTION'', [''ViewOwn''])]) Default_limit 200 ''TimeCorrectionRequestsService.findByIdForViewer''
        [Plain (Param_int ''id''), Plain Caller],
      route POST [Param ''id'', Lit ''cancel''] (Some [(''TIME_CORRECTION'', [''ViewOwn''])]) Default_limit 200 ''TimeCorrectionRequestsService.cancel''
        [Plain (Param_int ''id''), Plain Caller]]"

definition time_corrections_routes :: "route list" where
  "time_corrections_routes =
    controller [Lit ''time-correction-requests'']
     [route GET [Param ''id''] None Default_limit 200 ''TimeCorrectionRequestsService.findByIdForViewer''
        [Plain (Param_int ''id''), Plain Caller],
      route POST [Param ''id'', Lit ''approve''] None Default_limit 200 ''TimeCorrectionRequestsService.approve''
        [Plain (Param_int ''id''), Plain Caller],
      route POST [Param ''id'', Lit ''reject''] None Default_limit 200 ''TimeCorrectionRequestsService.reject''
        [Plain (Param_int ''id''), Plain Caller, Plain (Body_field ''note'')]]"

definition admin_compensation_routes :: "route list" where
  "admin_compensation_routes =
    controller [Lit ''admin'', Lit ''compensation'']
     [route GET [] (Some [(''COMPENSATION'', [''ViewAll''])]) Default_limit 200 ''CompensationService.findAll''
        [Plain Query],
      route GET [Lit ''employees'', Param ''employeeId''] (Some [(''COMPENSATION'', [''ViewAll''])]) Default_limit 200 ''CompensationService.findHistoryForEmployee''
        [Plain (Param_int ''employeeId'')],
      route GET [Param ''id''] (Some [(''COMPENSATION'', [''ViewAll''])]) Default_limit 200 ''CompensationService.findById''
        [Plain (Param_int ''id'')],
      route GET [Param ''id'', Lit ''audit''] (Some [(''COMPENSATION'', [''ViewAll''])]) Default_limit 200 ''CompensationService.findAuditTrail''
        [Plain (Param_int ''id'')],
      route POST [] (Some [(''COMPENSATION'', [''Create''])]) Default_limit 201 ''CompensationService.create''
        [Spread Body [(''created_by'', Caller_id)]],
      route POST [Lit ''bulk''] (Some [(''COMPENSATION'', [''Create''])]) Default_limit 201 ''CompensationService.createBulk''
        [Plain (Body_field ''items''), Plain Caller_id],
      route PATCH [Param ''id''] (Some [(''COMPENSATION'', [''Update''])]) Default_limit 200 ''CompensationService.update''
        [Plain (Param_int ''id''), Plain Body, Plain Caller_id],
      route DELETE [Param ''id''] (Some [(''COMPENSATION'', [''Delete''])]) Default_limit 204 ''CompensationService.softDelete''
        [Plain (Param_int ''id''), Plain Caller_id]]"

definition me_compensation_routes :: "route list" where
  "me_compensation_routes =
    controller [Lit ''users'', Lit ''me'', Lit ''compensation'']
     [route GET [] (Some [(''COMPENSATION'', [''ViewOwn''])]) Default_limit 200 ''CompensationService.findCurrentForEmployee''
        [Plain Caller_id]]"

definition all_routes :: "route list" where
  "all_routes =
     auth_routes @
     health_routes @
     admin_permissions_routes @
     admin_roles_routes @
     admin_users_routes @
     me_users_routes @
     admin_time_entries_routes @
     me_time_entries_routes @
     admin_work_schedules_routes @
     admin_schedule_changes_routes @
     me_work_schedules_routes @
     approvals_routes @
     admin_approval_chains_routes @
     admin_leave_requests_routes @
     me_leave_requests_routes @
     me_leave_balances_routes @
     leave_requests_routes @
     admin_leave_allocations_routes @
     admin_time_corrections_routes @
     me_time_corrections_routes @
     time_corrections_routes @
     admin_compensation_routes @
     me_compensation_routes"

section \<open>The pipeline\<close>

record request =
  rq_verb :: verb
  rq_path :: "string list"
  rq_access :: "payload option"
  rq_refresh :: "payload option"
  rq_body :: json
  rq_query :: json
  rq_file :: json

text \<open>What the framework and the environment answer: \<open>sv_within n\<close>, the throttler finds the client's
  requests of the last minute within \<open>n\<close>; \<open>sv_parse\<close>, \<open>ParseIntPipe\<close>.\<close>

record server =
  sv_directory :: directory
  sv_tokens :: "token_row list"
  sv_now :: int
  sv_today :: string
  sv_within :: "nat \<Rightarrow> bool"
  sv_throttle_disabled :: bool
  sv_parse :: "string \<Rightarrow> int option"

datatype answer =
    No_route
  | Throttled
  | Refused http_error
  | Bad_param string
  | Call string "json list"

fun seg_matches :: "segment list \<Rightarrow> string list \<Rightarrow> (string \<times> string) list option" where
  "seg_matches [] [] = Some []"
| "seg_matches (Lit s # segs) (t # texts) = (if toLowerCase s = toLowerCase t then seg_matches segs texts else None)"
| "seg_matches (Param p # segs) (t # texts) = map_option (\<lambda>ps. (p, t) # ps) (seg_matches segs texts)"
| "seg_matches _ _ = None"

definition serves :: "route \<Rightarrow> verb \<Rightarrow> string list \<Rightarrow> bool" where
  "serves r v path \<longleftrightarrow> rt_verb r = v \<and> seg_matches (rt_path r) path \<noteq> None"

definition find_route :: "route list \<Rightarrow> verb \<Rightarrow> string list \<Rightarrow> route option" where
  "find_route rs v path = find (\<lambda>r. serves r v path) rs"

text \<open>\<open>ThrottlerModule.forRoot\<close>: one global tier, which a route's \<open>@Throttle\<close> overrides and
  \<open>@SkipThrottle\<close> switches off.\<close>

definition limit_of :: "bool \<Rightarrow> limit \<Rightarrow> nat option" where
  "limit_of disabled l =
     (case l of No_limit \<Rightarrow> None | Own_limit n \<Rightarrow> Some n
      | Default_limit \<Rightarrow> Some (if disabled then 100000 else 300))"

definition throttle_ok :: "server \<Rightarrow> route \<Rightarrow> bool" where
  "throttle_ok sv r \<longleftrightarrow>
     (case limit_of (sv_throttle_disabled sv) (rt_limit r) of None \<Rightarrow> True | Some n \<Rightarrow> sv_within sv n)"

text \<open>\<open>JwtAuthGuard\<close> and, on its one route, \<open>JwtRefreshGuard\<close>: the user and the refresh token's \<open>jti\<close> the
  handler sees.\<close>

definition authenticate :: "server \<Rightarrow> route \<Rightarrow> request \<Rightarrow> http_error + (user option \<times> string)" where
  "authenticate sv r rq =
     (case rt_gate r of
        No_token \<Rightarrow> Inr (None, [])
      | Access_token \<Rightarrow>
          (case rq_access rq of
             None \<Rightarrow> Inl Unauthorized
           | Some p \<Rightarrow> bindR (jwt_validate (sv_directory sv) p) (\<lambda>u. Inr (Some u, [])))
      | Refresh_token \<Rightarrow>
          (case rq_refresh rq of
             None \<Rightarrow> Inl Unauthorized
           | Some p \<Rightarrow>
               bindR (snd (refresh_validate (sv_directory sv) (sv_now sv) p (sv_tokens sv)))
                 (\<lambda>(u, j). Inr (Some u, j))))"

definition int_param :: "server \<Rightarrow> (string \<times> string) list \<Rightarrow> string \<Rightarrow> int option" where
  "int_param sv ps k = (case map_of ps k of None \<Rightarrow> None | Some t \<Rightarrow> sv_parse sv t)"

definition origin_value ::
  "server \<Rightarrow> request \<Rightarrow> (string \<times> string) list \<Rightarrow> user option \<Rightarrow> string \<Rightarrow> origin \<Rightarrow> string + json" where
  "origin_value sv rq ps who jti src =
     (case src of
        Caller \<Rightarrow> Inr (case who of None \<Rightarrow> Absent | Some u \<Rightarrow> Person u)
      | Caller_id \<Rightarrow> Inr (case who of None \<Rightarrow> Absent | Some u \<Rightarrow> Num (usr_id u))
      | Refresh_jti \<Rightarrow> Inr (Str jti)
      | Body \<Rightarrow> Inr (rq_body rq)
      | Query \<Rightarrow> Inr (rq_query rq)
      | File \<Rightarrow> Inr (rq_file rq)
      | Today \<Rightarrow> Inr (Str (sv_today sv))
      | Param_int k \<Rightarrow> (case int_param sv ps k of None \<Rightarrow> Inl k | Some n \<Rightarrow> Inr (Num n))
      | Step_param k \<Rightarrow>
          (case int_param sv ps k of
             None \<Rightarrow> Inl k
           | Some n \<Rightarrow> if n = 1 \<or> n = 2 then Inr (Num n) else Inl k)
      | Body_field k \<Rightarrow> Inr (member k (rq_body rq))
      | Body_field_or_null k \<Rightarrow>
          Inr (case member k (rq_body rq) of Absent \<Rightarrow> Jnull | v \<Rightarrow> v)
      | Query_field k \<Rightarrow> Inr (member k (rq_query rq)))"

definition argument_value ::
  "server \<Rightarrow> request \<Rightarrow> (string \<times> string) list \<Rightarrow> user option \<Rightarrow> string \<Rightarrow> argument \<Rightarrow> string + json" where
  "argument_value sv rq ps who jti a =
     (let val = origin_value sv rq ps who jti;
          pick = mapR (\<lambda>(k, src). bindR (val src) (\<lambda>v. Inr (k, v)))
      in case a of
           Plain src \<Rightarrow> val src
         | Spread src fs \<Rightarrow> bindR (val src) (\<lambda>v. bindR (pick fs) (\<lambda>kvs. Inr (Obj (kvs @ fields_of v))))
         | Object fs \<Rightarrow> bindR (pick fs) (\<lambda>kvs. Inr (Obj kvs)))"

definition serve :: "server \<Rightarrow> request \<Rightarrow> answer" where
  "serve sv rq =
     (case find_route all_routes (rq_verb rq) (rq_path rq) of
        None \<Rightarrow> No_route
      | Some r \<Rightarrow>
          if \<not> throttle_ok sv r then Throttled
          else (case authenticate sv r rq of
                  Inl er \<Rightarrow> Refused er
                | Inr (who, jti) \<Rightarrow>
                    if \<not> canActivate (rt_required r) who then Refused ForbiddenPlain
                    else (case seg_matches (rt_path r) (rq_path rq) of
                            None \<Rightarrow> No_route
                          | Some ps \<Rightarrow>
                              (case mapR (argument_value sv rq ps who jti) (rt_args r) of
                                 Inl k \<Rightarrow> Bad_param k
                               | Inr vs \<Rightarrow> Call (rt_call r) vs))))"

section \<open>Answers\<close>

text \<open>The status of an exception: \<open>QueryFailedFilter\<close> turns every error of the database driver into a 400, an
  \<open>Error\<close> that is no HTTP exception becomes the framework's 500.\<close>

definition error_status :: "http_error \<Rightarrow> int" where
  "error_status er =
     (case er of
        Unprocessable _ \<Rightarrow> 422
      | Conflict _ \<Rightarrow> 409
      | ConflictPlain \<Rightarrow> 409
      | Forbidden _ \<Rightarrow> 403
      | ForbiddenPlain \<Rightarrow> 403
      | NotFound _ _ \<Rightarrow> 404
      | NotFoundPlain \<Rightarrow> 404
      | Unauthorized \<Rightarrow> 401
      | TooManyRequests _ \<Rightarrow> 429
      | PlainError \<Rightarrow> 500
      | _ \<Rightarrow> 400)"

text \<open>\<open>GET /health\<close>.\<close>

definition health_status :: "bool \<Rightarrow> bool \<Rightarrow> int" where
  "health_status initialized select_one_ok = (if initialized \<and> select_one_ok then 200 else 503)"

text \<open>\<open>GET /users/me/permissions\<close>.\<close>

definition me_permissions :: "directory \<Rightarrow> user \<Rightarrow> http_error + string list" where
  "me_permissions d caller = bindR (findUserById d (usr_id caller)) (\<lambda>me. Inr (permission_codes me))"

text \<open>What the role manifest \<open>roles.json\<close> grants; \<open>SUPER_ADMIN\<close> holds every permission.\<close>

definition approver_grants :: "string list" where
  "approver_grants =
     [''APPROVAL:View'', ''LEAVE:Approve'', ''LEAVE:ViewOwn'', ''TIME_CORRECTION:Approve'',
      ''TIME_CORRECTION:ViewOwn'', ''COMPENSATION:ViewOwn'']"

definition hr_grants :: "string list" where
  "hr_grants =
     [''USER:Create'', ''USER:View'', ''USER:Update'', ''USER:Delete'', ''ROLE:View'', ''PERMISSION:View'',
      ''TIME:Create'', ''TIME:View'', ''TIME:Update'', ''TIME:Delete'', ''SCHEDULE:Create'', ''SCHEDULE:View'',
      ''SCHEDULE:Update'', ''SCHEDULE:Delete'', ''APPROVAL:View'', ''APPROVAL:ApproveAny'', ''LEAVE:ViewOwn'',
      ''LEAVE:ViewAll'', ''LEAVE:Update'', ''LEAVE:Delete'', ''LEAVE:ApproveAny'', ''TIME_CORRECTION:ViewOwn'',
      ''TIME_CORRECTION:ViewAll'', ''TIME_CORRECTION:Update'', ''TIME_CORRECTION:Delete'',
      ''TIME_CORRECTION:ApproveAny'', ''APPROVAL_CHAIN:View'', ''APPROVAL_CHAIN:Update'',
      ''LEAVE_ALLOCATION:Create'', ''LEAVE_ALLOCATION:View'', ''COMPENSATION:Create'', ''COMPENSATION:ViewOwn'',
      ''COMPENSATION:ViewAll'', ''COMPENSATION:Update'', ''COMPENSATION:Delete'']"

definition operations_grants :: "string list" where
  "operations_grants =
     [''USER:View'', ''ROLE:View'', ''PERMISSION:View'', ''APPROVAL:View'', ''COMPENSATION:ViewOwn'']"

definition employee_grants :: "string list" where
  "employee_grants =
     [''LEAVE:Create'', ''LEAVE:ViewOwn'', ''TIME_CORRECTION:Create'', ''TIME_CORRECTION:ViewOwn'',
      ''COMPENSATION:ViewOwn'']"

definition seeded_grants :: "string \<Rightarrow> string list" where
  "seeded_grants n =
     (if n = ''HR_ADMIN'' then hr_grants
      else if n = ''OPERATIONS_MANAGER'' then operations_grants
      else if n \<in> {''PROJECT_MANAGER'', ''TECHNICAL_DIRECTOR''} then approver_grants
      else if n = ''EMPLOYEE'' then employee_grants
      else [])"

end
