(* ===== verification/RouteGuards.thy ===== *)
theory RouteGuards
  imports Routes LeaveLifecycle TimeCorrections
begin

text \<open>
  What the route table and its pipeline guarantee: which routes are open, which permission an administrative
  call needs, whose data a self-service call reaches, who is recorded as the author of a change, that no
  route hides another, and what the roles of the manifest can reach.
\<close>

section \<open>Checking the table\<close>

definition is_number :: "string \<Rightarrow> bool" where
  "is_number s \<longleftrightarrow> s \<noteq> [] \<and> list_all is_digit s"

fun words_of :: "segment list \<Rightarrow> string list" where
  "words_of [] = []"
| "words_of (Lit s # p) = s # words_of p"
| "words_of (Param _ # p) = words_of p"

definition route_words :: "string list" where
  "route_words =
     [''auth'', ''login'', ''me'', ''refresh'', ''logout'', ''health'', ''admin'', ''permissions'', ''roles'', ''users'',
      ''reset-password'', ''password'', ''time-entries'', ''punch'', ''today'', ''work-schedules'', ''changes'',
      ''preview'', ''work-schedule'', ''approvals'', ''pending'', ''approvers'', ''bulk-reassign'', ''bulk-assign'',
      ''ids'', ''leave-requests'', ''day-count'', ''cancel'', ''leave-balances'', ''attachment'', ''approve'',
      ''reject'', ''leave-allocations'', ''time-correction-requests'', ''compensation'', ''employees'', ''audit'',
      ''bulk'']"

text \<open>A path as numbers: the index of each literal among the words of the table, \<open>-1\<close> for a parameter.\<close>

primrec seg_code :: "segment \<Rightarrow> int" where
  "seg_code (Lit s) = int (length (takeWhile (\<lambda>w. w \<noteq> s) route_words))"
| "seg_code (Param p) = -1"

definition coded_routes :: "(verb \<times> int list) list" where
  "coded_routes =
     [(POST, [0, 1]), (GET, [0, 2]), (POST, [0, 3]), (POST, [0, 4]), (GET, [5]), (GET, [6, 7]),
      (GET, [6, 7, -1]), (PATCH, [6, 7, -1]), (GET, [6, 8]), (GET, [6, 8, -1]), (POST, [6, 8]),
      (PATCH, [6, 8, -1]), (POST, [6, 8, -1, 7]), (DELETE, [6, 8, -1]), (GET, [6, 9]), (GET, [6, 9, -1]),
      (POST, [6, 9]), (PATCH, [6, 9, -1]), (POST, [6, 9, -1, 10]), (DELETE, [6, 9, -1]), (GET, [9, 2]),
      (GET, [9, 2, 7]), (PATCH, [9, 2]), (PATCH, [9, 2, 11]), (GET, [6, 12]), (GET, [6, 12, -1]),
      (POST, [6, 12]), (PATCH, [6, 12, -1]), (DELETE, [6, 12, -1]), (POST, [9, 2, 12, 13]), (GET, [9, 2, 12]),
      (GET, [9, 2, 12, 14]), (GET, [6, 15]), (GET, [6, 15, -1]), (POST, [6, 15]), (PATCH, [6, 15, -1]),
      (DELETE, [6, 15, -1]), (POST, [6, 15, 16, 17]), (POST, [6, 15, 16]), (GET, [9, 2, 18]), (GET, [19, 20]),
      (GET, [6, 21]), (POST, [6, 21, 22]), (POST, [6, 21, 23]), (GET, [6, 21, 24]), (GET, [6, 21, -1]),
      (PATCH, [6, 21, -1]), (DELETE, [6, 21, -1, -1]), (GET, [6, 25]), (GET, [6, 25, -1]),
      (PATCH, [6, 25, -1]), (DELETE, [6, 25, -1]), (GET, [9, 2, 25]), (POST, [9, 2, 25]),
      (GET, [9, 2, 25, 26]), (GET, [9, 2, 25, -1]), (POST, [9, 2, 25, -1, 27]), (GET, [9, 2, 28]),
      (GET, [25, -1]), (GET, [25, -1, 29]), (POST, [25, -1, 30]), (POST, [25, -1, 31]), (POST, [6, 9, -1, 32]),
      (GET, [6, 9, -1, 32]), (GET, [6, 9, -1, 28]), (GET, [6, 33]), (GET, [6, 33, -1]), (PATCH, [6, 33, -1]),
      (DELETE, [6, 33, -1]), (GET, [9, 2, 33]), (POST, [9, 2, 33]), (GET, [9, 2, 33, -1]),
      (POST, [9, 2, 33, -1, 27]), (GET, [33, -1]), (POST, [33, -1, 30]), (POST, [33, -1, 31]), (GET, [6, 34]),
      (GET, [6, 34, 35, -1]), (GET, [6, 34, -1]), (GET, [6, 34, -1, 36]), (POST, [6, 34]), (POST, [6, 34, 37]),
      (PATCH, [6, 34, -1]), (DELETE, [6, 34, -1]), (GET, [9, 2, 34])]"

text \<open>No path whose parameters are numbers for the second is matched by the first.\<close>

fun apart :: "int list \<Rightarrow> int list \<Rightarrow> bool" where
  "apart [] [] \<longleftrightarrow> False"
| "apart (a # p) (b # q) \<longleftrightarrow> (a \<noteq> -1 \<and> a \<noteq> b) \<or> apart p q"
| "apart _ _ \<longleftrightarrow> True"

fun in_order :: "(verb \<times> int list) list \<Rightarrow> bool" where
  "in_order [] \<longleftrightarrow> True"
| "in_order (q # rs) \<longleftrightarrow> list_all (\<lambda>r. fst q = fst r \<longrightarrow> apart (snd q) (snd r)) rs \<and> in_order rs"

lemma route_words_plain: "list_all (\<lambda>s. toLowerCase s = s) route_words"
  by code_simp

lemmas route_table =
  all_routes_def auth_routes_def health_routes_def admin_permissions_routes_def admin_roles_routes_def
  admin_users_routes_def me_users_routes_def admin_time_entries_routes_def me_time_entries_routes_def
  admin_work_schedules_routes_def admin_schedule_changes_routes_def me_work_schedules_routes_def
  approvals_routes_def admin_approval_chains_routes_def admin_leave_requests_routes_def
  me_leave_requests_routes_def me_leave_balances_routes_def leave_requests_routes_def
  admin_leave_allocations_routes_def admin_time_corrections_routes_def me_time_corrections_routes_def
  time_corrections_routes_def admin_compensation_routes_def me_compensation_routes_def
  controller_def route_def public_def refresh_guarded_def

lemma routes_use_words: "list_all (\<lambda>r. list_all (\<lambda>s. List.member route_words s) (words_of (rt_path r))) all_routes"
  by (simp add: route_table route_words_def)

lemma words_not_numbers: "list_all (\<lambda>s. \<not> is_number s) route_words"
  by code_simp

lemma word_codes: "map seg_code (map Lit route_words) = map int [0..<38]"
  by code_simp

lemma seg_codes:
  "seg_code (Lit ''auth'') = 0"
  "seg_code (Lit ''login'') = 1"
  "seg_code (Lit ''me'') = 2"
  "seg_code (Lit ''refresh'') = 3"
  "seg_code (Lit ''logout'') = 4"
  "seg_code (Lit ''health'') = 5"
  "seg_code (Lit ''admin'') = 6"
  "seg_code (Lit ''permissions'') = 7"
  "seg_code (Lit ''roles'') = 8"
  "seg_code (Lit ''users'') = 9"
  "seg_code (Lit ''reset-password'') = 10"
  "seg_code (Lit ''password'') = 11"
  "seg_code (Lit ''time-entries'') = 12"
  "seg_code (Lit ''punch'') = 13"
  "seg_code (Lit ''today'') = 14"
  "seg_code (Lit ''work-schedules'') = 15"
  "seg_code (Lit ''changes'') = 16"
  "seg_code (Lit ''preview'') = 17"
  "seg_code (Lit ''work-schedule'') = 18"
  "seg_code (Lit ''approvals'') = 19"
  "seg_code (Lit ''pending'') = 20"
  "seg_code (Lit ''approvers'') = 21"
  "seg_code (Lit ''bulk-reassign'') = 22"
  "seg_code (Lit ''bulk-assign'') = 23"
  "seg_code (Lit ''ids'') = 24"
  "seg_code (Lit ''leave-requests'') = 25"
  "seg_code (Lit ''day-count'') = 26"
  "seg_code (Lit ''cancel'') = 27"
  "seg_code (Lit ''leave-balances'') = 28"
  "seg_code (Lit ''attachment'') = 29"
  "seg_code (Lit ''approve'') = 30"
  "seg_code (Lit ''reject'') = 31"
  "seg_code (Lit ''leave-allocations'') = 32"
  "seg_code (Lit ''time-correction-requests'') = 33"
  "seg_code (Lit ''compensation'') = 34"
  "seg_code (Lit ''employees'') = 35"
  "seg_code (Lit ''audit'') = 36"
  "seg_code (Lit ''bulk'') = 37"
  using word_codes by (simp_all add: route_words_def upt_rec del: seg_code.simps(1))

lemma routes_coded: "map (\<lambda>r. (rt_verb r, map seg_code (rt_path r))) all_routes = coded_routes"
  by (simp add: route_table coded_routes_def seg_codes del: seg_code.simps(1))

lemma coded_in_order: "in_order coded_routes"
  by code_simp

lemma number_lower: "is_number t \<Longrightarrow> toLowerCase t = t"
  by (auto simp: is_number_def toLowerCase_def lower_char_def is_digit_def list_all_iff intro!: map_idI)

lemma word_facts:
  assumes "s \<in> set route_words"
  shows "toLowerCase s = s" "\<not> is_number s"
  using assms route_words_plain words_not_numbers by (simp_all add: list_all_iff)

lemma matching_not_apart:
  assumes "seg_matches p path = Some xs" "seg_matches q path = Some ys" "list_all (\<lambda>kt. is_number (snd kt)) ys"
    and "set (words_of p) \<subseteq> set route_words" "set (words_of q) \<subseteq> set route_words"
  shows "\<not> apart (map seg_code p) (map seg_code q)"
  using assms
proof (induction p path arbitrary: q xs ys rule: seg_matches.induct)
  case 1
  then show ?case by (cases q) (auto elim: seg_matches.elims)
next
  case (2 s segs t texts)
  from "2.prems"(2) obtain g q' where q: "q = g # q'" by (cases q) auto
  show ?case
  proof (cases g)
    case (Lit s')
    then show ?thesis using 2 q word_facts by (auto split: if_splits simp del: seg_code.simps)
  next
    case (Param k)
    then show ?thesis using 2 q word_facts number_lower by (auto split: if_splits simp del: seg_code.simps)
  qed
next
  case (3 p' segs t texts)
  from "3.prems"(2) obtain g q' where q: "q = g # q'" by (cases q) auto
  obtain zs where zs: "seg_matches segs texts = Some zs" using "3.prems"(1) by auto
  obtain ws where ws: "seg_matches q' texts = Some ws" "list_all (\<lambda>kt. is_number (snd kt)) ws"
    using "3.prems"(2,3) q by (cases g) (auto split: if_splits)
  have "set (words_of q') \<subseteq> set route_words" using "3.prems"(5) q by (cases g) auto
  then show ?case using "3.IH"[OF zs ws] "3.prems"(4) q by simp
qed simp_all

lemma in_order_find:
  assumes "in_order (map (\<lambda>r. (rt_verb r, map seg_code (rt_path r))) rs)"
    and "\<forall>r \<in> set rs. set (words_of (rt_path r)) \<subseteq> set route_words"
    and "r \<in> set rs" "seg_matches (rt_path r) path = Some ps" "list_all (\<lambda>kt. is_number (snd kt)) ps"
  shows "find_route rs (rt_verb r) path = Some r"
  using assms(1-3)
proof (induction rs)
  case (Cons q rs)
  show ?case
  proof (cases "serves q (rt_verb r) path \<and> q \<noteq> r")
    case True
    then obtain xs where xs: "seg_matches (rt_path q) path = Some xs" "rt_verb q = rt_verb r"
      by (auto simp: serves_def)
    have "\<not> apart (map seg_code (rt_path q)) (map seg_code (rt_path r))"
      using matching_not_apart[OF xs(1) assms(4,5)] Cons.prems(2,3) by auto
    then show ?thesis using Cons.prems(1,3) True xs(2) by (auto simp: list_all_iff)
  next
    case False
    then show ?thesis using Cons assms(4) by (auto simp: find_route_def serves_def)
  qed
qed simp

lemma route_path_words: "r \<in> set all_routes \<Longrightarrow> set (words_of (rt_path r)) \<subseteq> set route_words"
  using routes_use_words by (auto simp: list_all_iff)

text \<open>No route hides another: a request whose path fits a route with numbers in the place of its
  parameters is dispatched to that route.\<close>

theorem no_route_hidden:
  assumes "r \<in> set all_routes" "seg_matches (rt_path r) path = Some ps" "list_all (\<lambda>kt. is_number (snd kt)) ps"
  shows "find_route all_routes (rt_verb r) path = Some r"
  using assms coded_in_order routes_coded route_path_words by (intro in_order_find[of all_routes]) auto

section \<open>From an answer back to its route\<close>

lemma serve_call:
  assumes "serve sv rq = Call f vs"
  obtains r who jti ps where "r \<in> set all_routes" "find_route all_routes (rq_verb rq) (rq_path rq) = Some r"
    "rt_verb r = rq_verb rq" "authenticate sv r rq = Inr (who, jti)" "canActivate (rt_required r) who"
    "seg_matches (rt_path r) (rq_path rq) = Some ps" "f = rt_call r"
    "list_all2 (\<lambda>a v. argument_value sv rq ps who jti a = Inr v) (rt_args r) vs"
proof -
  from assms obtain r who jti ps where 1: "find_route all_routes (rq_verb rq) (rq_path rq) = Some r"
    "authenticate sv r rq = Inr (who, jti)" "canActivate (rt_required r) who"
    "seg_matches (rt_path r) (rq_path rq) = Some ps" "f = rt_call r"
    "mapR (argument_value sv rq ps who jti) (rt_args r) = Inr vs"
    by (auto simp: serve_def split: option.splits if_splits sum.splits)
  have "r \<in> set all_routes" "rt_verb r = rq_verb rq"
    using 1(1) by (auto simp: find_route_def serves_def find_Some_iff)
  with 1 mapR_Inr[OF 1(6)] show thesis by (intro that)
qed

lemma authenticate_access:
  assumes "rt_gate r = Access_token" "authenticate sv r rq = Inr (who, jti)"
  obtains p u where "rq_access rq = Some p" "findUserById (sv_directory sv) (pl_id p) = Inr u" "usr_is_active u"
    "who = Some u"
  using assms
  by (auto simp: authenticate_def jwt_validate_def active_user_def bindR_eq_Inr split: option.splits if_splits sum.splits)

text \<open>The first segment of every route is a literal, which the path repeats up to case.\<close>

lemma routes_start_literal: "list_all (\<lambda>r. case rt_path r of Lit _ # _ \<Rightarrow> True | _ \<Rightarrow> False) all_routes"
  by (simp add: route_table)

lemma users_routes_literal:
  "list_all (\<lambda>r. case rt_path r of Lit a # b # _ \<Rightarrow> a = ''users'' \<longrightarrow> b = Lit ''me'' | _ \<Rightarrow> True) all_routes"
  by (simp add: route_table)

lemma path_first:
  assumes "r \<in> set all_routes" "seg_matches (rt_path r) (t # rest) = Some ps"
  obtains s p where "rt_path r = Lit s # p" "toLowerCase t = s" "seg_matches p rest = Some ps"
proof -
  have "case rt_path r of Lit _ # _ \<Rightarrow> True | _ \<Rightarrow> False"
    using assms(1) routes_start_literal by (auto simp: list_all_iff)
  then obtain s p where sp: "rt_path r = Lit s # p" by (auto split: list.splits segment.splits)
  have "s \<in> set route_words" using route_path_words[OF assms(1)] sp by simp
  then show thesis using assms(2) sp word_facts(1) by (intro that[of s p]) (auto split: if_splits)
qed

lemma path_users_me:
  assumes "r \<in> set all_routes" "seg_matches (rt_path r) (t # t' # rest) = Some ps"
    and "toLowerCase t = ''users''"
  obtains p where "rt_path r = Lit ''users'' # Lit ''me'' # p"
proof -
  obtain s p where sp: "rt_path r = Lit s # p" "toLowerCase t = s" "seg_matches p (t' # rest) = Some ps"
    using assms(1,2) by (rule path_first)
  then obtain b p' where p: "p = b # p'" by (cases p) auto
  have "b = Lit ''me''"
    using users_routes_literal assms(1,3) sp(1,2) p by (auto simp: list_all_iff)
  then show thesis using sp p assms(3) by (intro that[of p']) simp
qed

section \<open>Who may call what\<close>

definition gate_ok :: "route \<Rightarrow> bool" where
  "gate_ok r \<longleftrightarrow>
     rt_gate r = Access_token \<or> rt_gate r = Refresh_token \<and> rt_call r = ''AuthService.refresh'' \<or>
     rt_call r = ''AuthService.login'' \<or> rt_call r = ''HealthController.check''"

lemma gates_ok: "list_all gate_ok all_routes"
  by (simp add: route_table gate_ok_def)

text \<open>Apart from login, the health check and the refresh of a refresh token that its guard accepts, a handler
  runs only for an access token of a live, active user.\<close>

theorem calls_are_authenticated:
  assumes "serve sv rq = Call f vs"
  shows "f = ''AuthService.login'' \<or> f = ''HealthController.check'' \<or>
    (\<exists>p u j. f = ''AuthService.refresh'' \<and> rq_refresh rq = Some p \<and> vs = [Person u, Str j] \<and>
       snd (refresh_validate (sv_directory sv) (sv_now sv) p (sv_tokens sv)) = Inr (u, j)) \<or>
    (\<exists>p u. rq_access rq = Some p \<and> findUserById (sv_directory sv) (pl_id p) = Inr u \<and> usr_is_active u)"
proof -
  from assms obtain r who jti ps where r: "r \<in> set all_routes" "authenticate sv r rq = Inr (who, jti)" "f = rt_call r"
    and args: "list_all2 (\<lambda>a v. argument_value sv rq ps who jti a = Inr v) (rt_args r) vs"
    by (rule serve_call)
  consider "rt_gate r = Access_token" | "rt_gate r = Refresh_token" "rt_call r = ''AuthService.refresh''"
    | "rt_call r = ''AuthService.login'' \<or> rt_call r = ''HealthController.check''"
    using gates_ok r(1) by (auto simp: list_all_iff gate_ok_def)
  then show ?thesis
  proof cases
    case 1
    then show ?thesis using r(2) by (elim authenticate_access) auto
  next
    case 2
    have "list_all (\<lambda>r. rt_gate r = Refresh_token \<longrightarrow> rt_args r = [Plain Caller, Plain Refresh_jti]) all_routes"
      by (simp add: route_table)
    then have "rt_args r = [Plain Caller, Plain Refresh_jti]" using r(1) 2(1) by (simp add: list_all_iff)
    then show ?thesis using 2 r args
      by (auto simp: authenticate_def bindR_eq_Inr argument_value_def origin_value_def list_all2_Cons1
          split: option.splits)
  qed (use r(3) in auto)
qed

definition policy :: "verb \<Rightarrow> string list" where
  "policy v = (if v = GET then [''View'', ''ViewAll''] else [''Create'', ''Update'', ''Delete''])"

definition PERMISSION_RESOURCES :: "string list" where
  "PERMISSION_RESOURCES =
     [''USER'', ''ROLE'', ''PERMISSION'', ''TIME'', ''SCHEDULE'', ''APPROVAL'', ''LEAVE'', ''TIME_CORRECTION'', ''APPROVAL_CHAIN'',
      ''LEAVE_ALLOCATION'', ''COMPENSATION'']"

definition admin_ok :: "route \<Rightarrow> bool" where
  "admin_ok r \<longleftrightarrow>
     rt_gate r = Access_token \<and>
     list_ex (\<lambda>res. list_ex (\<lambda>act. rt_required r = Some [(res, [act])]) (policy (rt_verb r))) PERMISSION_RESOURCES"

lemma admin_routes_ok: "list_all (\<lambda>r. hd (rt_path r) = Lit ''admin'' \<longrightarrow> admin_ok r) all_routes"
  by (simp add: route_table admin_ok_def policy_def PERMISSION_RESOURCES_def)

lemma admin_route:
  assumes "r \<in> set all_routes" "hd (rt_path r) = Lit ''admin''"
  obtains res act where "rt_gate r = Access_token" "rt_required r = Some [(res, [act])]" "act \<in> set (policy (rt_verb r))"
proof -
  have "admin_ok r" using assms admin_routes_ok by (auto simp: list_all_iff)
  then show thesis by (auto simp: admin_ok_def list_ex_iff intro: that)
qed

text \<open>C6: Every call under \<open>admin/\<close> is made for a live, active user who is a system administrator or whose current
  role holds the one permission the route asks for: a view permission for a \<open>GET\<close>, a create, update or delete
  permission for anything else.\<close>

theorem admin_calls_need_permission:
  assumes "serve sv rq = Call f vs" "rq_path rq = t # rest" "toLowerCase t = ''admin''"
  shows "\<exists>p u r res act. rq_access rq = Some p \<and> findUserById (sv_directory sv) (pl_id p) = Inr u \<and>
    usr_is_active u \<and> find_route all_routes (rq_verb rq) (rq_path rq) = Some r \<and>
    rt_required r = Some [(res, [act])] \<and> act \<in> set (policy (rq_verb rq)) \<and>
    (usr_system_admin u \<or> code_of res act \<in> set (permission_codes u))"
proof -
  from assms(1) obtain r who jti ps where r: "r \<in> set all_routes"
    "find_route all_routes (rq_verb rq) (rq_path rq) = Some r" "rt_verb r = rq_verb rq"
    "authenticate sv r rq = Inr (who, jti)" "canActivate (rt_required r) who"
    "seg_matches (rt_path r) (rq_path rq) = Some ps" by (rule serve_call)
  have "hd (rt_path r) = Lit ''admin''"
    using r(1,6) assms(2,3) by (auto elim!: path_first)
  with r(1) obtain res act where a: "rt_gate r = Access_token" "rt_required r = Some [(res, [act])]"
    "act \<in> set (policy (rt_verb r))" by (rule admin_route)
  from a(1) r(4) obtain p u where "rq_access rq = Some p" "findUserById (sv_directory sv) (pl_id p) = Inr u"
    "usr_is_active u" "who = Some u" by (rule authenticate_access)
  then show ?thesis using r a by (intro exI[of _ p] exI[of _ u] exI[of _ r] exI[of _ res] exI[of _ act])
      (auto simp: canActivate_def expand_def list_all_iff)
qed

section \<open>Whose data, and who is recorded\<close>

lemma args_hd:
  assumes "list_all2 (\<lambda>a v. argument_value sv rq ps who jti a = Inr v) (a # as) vs"
  obtains v vs' where "vs = v # vs'" "argument_value sv rq ps who jti a = Inr v"
    "list_all2 (\<lambda>a v. argument_value sv rq ps who jti a = Inr v) as vs'"
  using assms by (auto simp: list_all2_Cons1)

lemma plain_value [simp]:
  "argument_value sv rq ps who jti (Plain src) = origin_value sv rq ps who jti src"
  by (simp add: argument_value_def)

lemma caller_values [simp]:
  "origin_value sv rq ps (Some u) jti Caller = Inr (Person u)"
  "origin_value sv rq ps (Some u) jti Caller_id = Inr (Num (usr_id u))"
  by (simp_all add: origin_value_def)

lemma spread_caller:
  assumes "argument_value sv rq ps (Some u) jti (Spread src fs) = Inr v" "find (\<lambda>kv. fst kv = k) fs = Some (k, Caller_id)"
  shows "member k v = Num (usr_id u)"
proof -
  let ?pick = "mapR (\<lambda>(k, src). bindR (origin_value sv rq ps (Some u) jti src) (\<lambda>v. Inr (k, v)))"
  from assms(1) obtain kvs w where v: "?pick fs = Inr kvs" "v = Obj (kvs @ fields_of w)"
    by (auto simp: argument_value_def Let_def bindR_eq_Inr)
  have "map_of kvs k = Some (Num (usr_id u))"
    using v(1) assms(2)
  proof (induction fs arbitrary: kvs)
    case (Cons kv fs)
    obtain k' src' where kv: "kv = (k', src')" by (cases kv)
    from Cons.prems(1) kv obtain w kvs' where w: "origin_value sv rq ps (Some u) jti src' = Inr w"
      "?pick fs = Inr kvs'" "kvs = (k', w) # kvs'" by (auto simp: bindR_eq_Inr)
    then show ?case using Cons.IH[OF w(2)] Cons.prems(2) kv by (auto split: if_splits)
  qed simp
  then show ?thesis using v(2) by (simp add: member_def map_add_def)
qed

text \<open>How a self-service handler passes the caller: as the first argument, as the employee of the first argument, or
  beside the id of a record, whose access the service then decides for that caller.\<close>

definition for_caller :: "user \<Rightarrow> json list \<Rightarrow> bool" where
  "for_caller u vs \<longleftrightarrow>
     (case vs of
        [] \<Rightarrow> False
      | v # rest \<Rightarrow>
          v = Person u \<or> v = Num (usr_id u) \<or> member ''employee_id'' v = Num (usr_id u) \<or> rest = [Person u])"

definition binds_caller :: "argument list \<Rightarrow> bool" where
  "binds_caller as \<longleftrightarrow>
     as \<noteq> [] \<and>
     (hd as \<in> {Plain Caller, Plain Caller_id, Spread Query [(''employee_id'', Caller_id)],
         Spread Body [(''employee_id'', Caller_id)],
         Object [(''employee_id'', Caller_id), (''from'', Today), (''to'', Today)]} \<or>
      tl as = [Plain Caller])"

definition self_ok :: "route \<Rightarrow> bool" where
  "self_ok r \<longleftrightarrow> rt_gate r = Access_token \<and> binds_caller (rt_args r)"

lemma self_routes_ok: "list_all (\<lambda>r. hd (rt_path r) = Lit ''users'' \<longrightarrow> self_ok r) all_routes"
  by (simp add: route_table self_ok_def binds_caller_def)

lemma binds_caller_value:
  assumes "binds_caller as" "list_all2 (\<lambda>a v. argument_value sv rq ps (Some u) jti a = Inr v) as vs"
  shows "for_caller u vs"
proof -
  obtain a as' where as: "as = a # as'" using assms(1) by (cases as) (auto simp: binds_caller_def)
  from assms(2) obtain v vs' where vs: "vs = v # vs'" "argument_value sv rq ps (Some u) jti a = Inr v"
    "list_all2 (\<lambda>a v. argument_value sv rq ps (Some u) jti a = Inr v) as' vs'"
    unfolding as by (rule args_hd)
  consider "a = Plain Caller" | "a = Plain Caller_id"
    | src where "a = Spread src [(''employee_id'', Caller_id)]"
    | "a = Object [(''employee_id'', Caller_id), (''from'', Today), (''to'', Today)]"
    | "as' = [Plain Caller]"
    using assms(1) as by (auto simp: binds_caller_def)
  then show ?thesis
  proof cases
    case (3 src)
    then show ?thesis using spread_caller[of sv rq ps u jti src _ v "''employee_id''"] vs(1,2) by (simp add: for_caller_def)
  next
    case 4
    then show ?thesis using vs(1,2)
      by (auto simp: for_caller_def argument_value_def Let_def bindR_eq_Inr origin_value_def member_def)
  qed (use vs in \<open>auto simp: for_caller_def list_all2_Cons1\<close>)
qed

text \<open>C22: A call under \<open>users/\<close> acts for the user of the access token whatever the body and the query say: the
  service gets that user or their id as the employee, or the user next to a record's id.\<close>

theorem self_service_acts_for_the_caller:
  assumes "serve sv rq = Call f vs" "rq_path rq = t # rest" "toLowerCase t = ''users''"
  shows "\<exists>p u. rq_access rq = Some p \<and> findUserById (sv_directory sv) (pl_id p) = Inr u \<and> usr_is_active u \<and>
    for_caller u vs"
proof -
  from assms(1) obtain r who jti ps where r: "r \<in> set all_routes" "authenticate sv r rq = Inr (who, jti)"
    "seg_matches (rt_path r) (rq_path rq) = Some ps"
    "list_all2 (\<lambda>a v. argument_value sv rq ps who jti a = Inr v) (rt_args r) vs" by (rule serve_call)
  have "hd (rt_path r) = Lit ''users''" using r(1,3) assms(2,3) by (auto elim!: path_first)
  then have s: "rt_gate r = Access_token" "binds_caller (rt_args r)"
    using self_routes_ok r(1) by (auto simp: list_all_iff self_ok_def)
  from s(1) r(2) obtain p u where "rq_access rq = Some p" "findUserById (sv_directory sv) (pl_id p) = Inr u"
    "usr_is_active u" "who = Some u" by (rule authenticate_access)
  then show ?thesis using binds_caller_value[OF s(2)] r(4) by blast
qed

definition records_caller :: "argument list \<Rightarrow> bool" where
  "records_caller as \<longleftrightarrow>
     list_ex (\<lambda>a. a = Plain Caller \<or> a = Plain Caller_id \<or>
        (case a of
           Spread _ fs \<Rightarrow> find (\<lambda>kv. fst kv = ''created_by'') fs = Some (''created_by'', Caller_id) \<or>
                          find (\<lambda>kv. fst kv = ''updated_by'') fs = Some (''updated_by'', Caller_id)
         | _ \<Rightarrow> False)) as"

definition recorded :: "user \<Rightarrow> json \<Rightarrow> bool" where
  "recorded u v \<longleftrightarrow>
     v = Person u \<or> v = Num (usr_id u) \<or> member ''created_by'' v = Num (usr_id u) \<or>
     member ''updated_by'' v = Num (usr_id u)"

definition unattributed :: "string list" where
  "unattributed = [''AuthService.login'', ''PermissionsService.update'', ''RolesService.assignPermissions'']"

definition write_ok :: "route \<Rightarrow> bool" where
  "write_ok r \<longleftrightarrow> rt_gate r \<noteq> No_token \<and> records_caller (rt_args r)"

lemma write_routes_ok:
  "list_all (\<lambda>r. rt_verb r \<noteq> GET \<longrightarrow> \<not> List.member unattributed (rt_call r) \<longrightarrow> write_ok r) all_routes"
  by (simp add: route_table write_ok_def records_caller_def unattributed_def)

lemma records_caller_value:
  assumes "records_caller as" "list_all2 (\<lambda>a v. argument_value sv rq ps (Some u) jti a = Inr v) as vs"
  shows "list_ex (recorded u) vs"
  using assms(2,1)
proof (induction rule: list_all2_induct)
  case (Cons a as v vs)
  show ?case
  proof (cases "records_caller as")
    case False
    then have "records_caller [a]" using Cons.prems by (simp add: records_caller_def)
    then have "recorded u v"
      using Cons.hyps(1) spread_caller[of sv rq ps u jti _ _ v]
      by (auto simp: records_caller_def recorded_def split: argument.splits)
    then show ?thesis by simp
  qed (use Cons.IH in simp)
qed (simp add: records_caller_def)

lemma authenticated_user:
  assumes "rt_gate r \<noteq> No_token" "authenticate sv r rq = Inr (who, jti)"
  obtains u where "who = Some u"
  using assms
  by (cases "rt_gate r") (auto simp: authenticate_def bindR_eq_Inr split: option.splits)

text \<open>Every other call that is no \<open>GET\<close> hands the service the caller it is made for (as the actor, the actor's
  id, or the author field, which the body cannot override), except the update of a permission and the assignment of a
  role's permissions, whose services never learn who changed what.\<close>

theorem writes_carry_their_author:
  assumes "serve sv rq = Call f vs" "rq_verb rq \<noteq> GET" "f \<notin> set unattributed"
  shows "\<exists>r u jti. find_route all_routes (rq_verb rq) (rq_path rq) = Some r \<and>
    authenticate sv r rq = Inr (Some u, jti) \<and> list_ex (recorded u) vs"
proof -
  from assms(1) obtain r who jti ps where r: "r \<in> set all_routes"
    "find_route all_routes (rq_verb rq) (rq_path rq) = Some r" "rt_verb r = rq_verb rq"
    "authenticate sv r rq = Inr (who, jti)" "f = rt_call r"
    "list_all2 (\<lambda>a v. argument_value sv rq ps who jti a = Inr v) (rt_args r) vs" by (rule serve_call)
  have w: "rt_gate r \<noteq> No_token" "records_caller (rt_args r)"
    using write_routes_ok r(1,3,5) assms(2,3) by (auto simp: list_all_iff write_ok_def)
  from w(1) r(4) obtain u where "who = Some u" by (rule authenticated_user)
  then show ?thesis using r records_caller_value[OF w(2)] by blast
qed

section \<open>What the seeded roles reach\<close>






lemmas grant_table =
  seeded_grants_def hr_grants_def operations_grants_def approver_grants_def employee_grants_def



section \<open>Deciding requests\<close>

text \<open>The two decision routes ask for no permission: the aggregates do.\<close>

lemma undecidable_leave:
  assumes "\<not> overrides (toLeaveActor u)" "\<not> act_can_approve (toLeaveActor u)"
  shows "fst (approveRequest env i u db) = db" "\<not> okR (snd (approveRequest env i u db))"
    "fst (rejectRequest env i u why db) = db" "\<not> okR (snd (rejectRequest env i u why db))"
proof -
  have n: "\<not> okR (assertApprovable q (toLeaveActor u))" "\<not> okR (rejectLeave now q (toLeaveActor u) why)" for q now
    using assms
    by (auto simp: assertApprovable_def rejectLeave_def assertPending_def assertCurrentApprover_def guardR_def
        isActionableBy_def overrides_def)
  have "fst (approveRequest env i u db) = db \<and> \<not> okR (snd (approveRequest env i u db)) \<and>
    fst (rejectRequest env i u why db) = db \<and> \<not> okR (snd (rejectRequest env i u why db))"
  proof (cases "loadAggregate db i")
    case (Inr q)
    then show ?thesis using n(1)[of q] n(2)[of "le_now env" q]
      by (cases "assertApprovable q (toLeaveActor u)"; cases "rejectLeave (le_now env) q (toLeaveActor u) why")
        (simp_all add: approveRequest_def rejectRequest_def domainR_def Let_def)
  qed (simp add: approveRequest_def rejectRequest_def)
  then show "fst (approveRequest env i u db) = db" "\<not> okR (snd (approveRequest env i u db))"
    "fst (rejectRequest env i u why db) = db" "\<not> okR (snd (rejectRequest env i u why db))" by simp_all
qed

lemma undecidable_correction:
  assumes "\<not> overrides (toCorrectionActor u)" "\<not> act_can_approve (toCorrectionActor u)"
  shows "fst (approveCorrection env i u db) = db" "\<not> okR (snd (approveCorrection env i u db))"
    "fst (rejectCorrection env i u why db) = db" "\<not> okR (snd (rejectCorrection env i u why db))"
proof -
  have n: "\<not> okR (assertApprovable_tc q (toCorrectionActor u))" "\<not> okR (reject_tc now q (toCorrectionActor u) why)" for q now
    using assms
    by (auto simp: assertApprovable_tc_def reject_tc_def assertPending_tc_def assertCurrentApprover_tc_def guardR_def
        isActionableBy_tc_def overrides_def)
  have "fst (approveCorrection env i u db) = db \<and> \<not> okR (snd (approveCorrection env i u db)) \<and>
    fst (rejectCorrection env i u why db) = db \<and> \<not> okR (snd (rejectCorrection env i u why db))"
  proof (cases "loadCorrection db i")
    case (Inr q)
    then show ?thesis using n(1)[of q] n(2)[of "ce_now env" q]
      by (cases "assertApprovable_tc q (toCorrectionActor u)"; cases "reject_tc (ce_now env) q (toCorrectionActor u) why")
        (simp_all add: approveCorrection_def approve_load_def rejectCorrection_def domainTC_def Let_def)
  qed (simp add: approveCorrection_def approve_load_def rejectCorrection_def)
  then show "fst (approveCorrection env i u db) = db" "\<not> okR (snd (approveCorrection env i u db))"
    "fst (rejectCorrection env i u why db) = db" "\<not> okR (snd (rejectCorrection env i u why db))" by simp_all
qed

text \<open>The approve and reject routes of leave requests let every authenticated user through to the service; there
  the holder of an employee's or operations manager's grants can decide nothing, not even as the request's current
  approver: each decision leaves the tables as they are and throws.  The same holds for corrections.\<close>

theorem chain_place_is_no_authority:
  assumes "\<not> usr_system_admin u" "n \<in> {''EMPLOYEE'', ''OPERATIONS_MANAGER''}"
    and "set (permission_codes u) = set (seeded_grants n)"
  shows "(\<forall>r \<in> set all_routes. hd (rt_path r) = Lit ''leave-requests'' \<longrightarrow> rt_verb r = POST \<longrightarrow>
      canActivate (rt_required r) (Some u)) \<and>
    fst (approveRequest env i u db) = db \<and> \<not> okR (snd (approveRequest env i u db)) \<and>
    fst (rejectRequest env i u why db) = db \<and> \<not> okR (snd (rejectRequest env i u why db)) \<and>
    fst (approveCorrection ce j u cdb) = cdb \<and> \<not> okR (snd (approveCorrection ce j u cdb)) \<and>
    fst (rejectCorrection ce j u why cdb) = cdb \<and> \<not> okR (snd (rejectCorrection ce j u why cdb))"
proof -
  have "list_all (\<lambda>r. hd (rt_path r) = Lit ''leave-requests'' \<longrightarrow> rt_verb r = POST \<longrightarrow> rt_required r = None) all_routes"
    by (simp add: route_table)
  then have "\<forall>r \<in> set all_routes. hd (rt_path r) = Lit ''leave-requests'' \<longrightarrow> rt_verb r = POST \<longrightarrow>
      canActivate (rt_required r) (Some u)"
    by (auto simp: list_all_iff canActivate_def)
  moreover have "\<not> overrides (toLeaveActor u)" "\<not> act_can_approve (toLeaveActor u)"
    "\<not> overrides (toCorrectionActor u)" "\<not> act_can_approve (toCorrectionActor u)"
    using assms by (auto simp: overrides_def toLeaveActor_def toCorrectionActor_def hasPermission_def grant_table)
  ultimately show ?thesis by (intro conjI) (simp_all add: undecidable_leave undecidable_correction)
qed

section \<open>Witnesses\<close>

definition grants_of :: "string list \<Rightarrow> permission list" where
  "grants_of codes = map (\<lambda>c. \<lparr>perm_id = 0, perm_code = c, perm_resource = [], perm_action = []\<rparr>) codes"

definition granted_user :: "int \<Rightarrow> string list \<Rightarrow> user" where
  "granted_user i codes = (sample_user i)\<lparr>usr_role := sample_role\<lparr>role_permissions := grants_of codes\<rparr>\<rparr>"

lemma granted_user_simps [simp]:
  "permission_codes (granted_user i codes) = codes" "usr_system_admin (granted_user i codes) \<longleftrightarrow> False"
  by (simp_all add: granted_user_def permission_codes_def grants_of_def sample_user_def comp_def)

text \<open>User 1 holds a role with one permission, \<open>USER:View\<close>.\<close>

definition http_directory :: directory where
  "http_directory =
     \<lparr>dr_users =
        [\<lparr>ue_id = 1, ue_email = ''u@asima.inc'', ue_hash = [], ue_first = ''U'', ue_last = ''V'', ue_title = None,
          ue_role_id = 1, ue_admin = False, ue_active = True, ue_last_login = None, ue_created_by = None,
          ue_updated_by = None, ue_deleted_by = None, ue_created_at = 0, ue_deleted_at = None\<rparr>],
      dr_next = 2,
      dr_roles =
        [\<lparr>rr_id = 1, rr_name = ''READER'', rr_description = None, rr_permissions = [7], rr_created_by = None,
          rr_updated_by = None, rr_deleted_by = None, rr_deleted_at = None\<rparr>],
      dr_role_next = 2,
      dr_permissions = [\<lparr>perm_id = 7, perm_code = ''USER:View'', perm_resource = ''USER'', perm_action = ''View''\<rparr>]\<rparr>"

definition http_server :: server where
  "http_server =
     \<lparr>sv_directory = http_directory, sv_tokens = [], sv_now = 0, sv_today = ''2026-06-01'', sv_within = (\<lambda>n. 3 \<le> n),
      sv_throttle_disabled = False, sv_parse = (\<lambda>t. if is_number t then Some (parse_int t) else None)\<rparr>"

lemma http_server_directory [simp]: "sv_directory http_server = http_directory"
  by (simp add: http_server_def)

definition http_request :: "verb \<Rightarrow> string list \<Rightarrow> json \<Rightarrow> json \<Rightarrow> request" where
  "http_request v path query body =
     \<lparr>rq_verb = v, rq_path = path, rq_access = Some \<lparr>pl_id = 1, pl_admin = False, pl_jti = None\<rparr>, rq_refresh = None,
      rq_body = body, rq_query = query, rq_file = Absent\<rparr>"

definition called :: "answer \<Rightarrow> string option" where
  "called a = (case a of Call f _ \<Rightarrow> Some f | _ \<Rightarrow> None)"

lemma called_Some: "called a = Some f \<longleftrightarrow> (\<exists>vs. a = Call f vs)"
  by (cases a) (simp_all add: called_def)

definition list_users :: request where
  "list_users = http_request GET [''Admin'', ''users''] (Obj []) Absent"

definition list_entries :: request where
  "list_entries = http_request GET [''users'', ''me'', ''time-entries''] (Obj [(''employee_id'', Num 9)]) Absent"

definition patch_me :: request where
  "patch_me = http_request PATCH [''users'', ''me''] (Obj []) (Obj [(''updated_by'', Num 9)])"

lemma sample_calls:
  "called (serve http_server list_users) = Some ''UsersService.findAll''"
  "called (serve http_server list_entries) = Some ''TimeEntriesService.findAll''"
  "called (serve http_server patch_me) = Some ''UsersService.update''"
  by code_simp+

theorem no_route_hidden_witness:
  "map_option rt_call (find_route all_routes GET [''admin'', ''approvers'', ''ids'']) = Some ''ApprovalChainsService.listIds'' \<and>
   map_option rt_call (find_route all_routes GET [''admin'', ''approvers'', ''12'']) = Some ''ApprovalChainsService.getActiveRows''"
proof -
  have "list_ex (\<lambda>r. rt_verb r = GET \<and> rt_call r = ''ApprovalChainsService.listIds'' \<and>
      seg_matches (rt_path r) [''admin'', ''approvers'', ''ids''] = Some []) admin_approval_chains_routes"
    "list_ex (\<lambda>r. rt_verb r = GET \<and> rt_call r = ''ApprovalChainsService.getActiveRows'' \<and>
      seg_matches (rt_path r) [''admin'', ''approvers'', ''12''] = Some [(''employee_id'', ''12'')]) admin_approval_chains_routes"
    by code_simp+
  then obtain r q where r: "r \<in> set all_routes" "rt_verb r = GET" "rt_call r = ''ApprovalChainsService.listIds''"
      "seg_matches (rt_path r) [''admin'', ''approvers'', ''ids''] = Some []"
    and q: "q \<in> set all_routes" "rt_verb q = GET" "rt_call q = ''ApprovalChainsService.getActiveRows''"
      "seg_matches (rt_path q) [''admin'', ''approvers'', ''12''] = Some [(''employee_id'', ''12'')]"
    by (auto simp: list_ex_iff all_routes_def)
  have "is_number ''12''" by code_simp
  then show ?thesis using no_route_hidden[OF r(1,4)] no_route_hidden[OF q(1,4)] r(2,3) q(2,3) by simp
qed

theorem calls_are_authenticated_witness:
  "\<exists>p u. rq_access list_users = Some p \<and> findUserById http_directory (pl_id p) = Inr u \<and> usr_is_active u"
proof -
  obtain vs where "serve http_server list_users = Call ''UsersService.findAll'' vs"
    using sample_calls(1) by (auto simp: called_Some)
  from calls_are_authenticated[OF this] show ?thesis by auto
qed

lemma lower_samples: "toLowerCase ''Admin'' = ''admin''" "toLowerCase ''users'' = ''users''"
  by code_simp+

theorem admin_calls_need_permission_witness:
  "\<exists>u. findUserById http_directory 1 = Inr u \<and> ''USER:View'' \<in> set (permission_codes u)"
proof -
  obtain vs where "serve http_server list_users = Call ''UsersService.findAll'' vs"
    using sample_calls(1) by (auto simp: called_Some)
  from admin_calls_need_permission[OF this, of "''Admin''" "[''users'']"]
  obtain p u r res act where a: "rq_access list_users = Some p" "findUserById http_directory (pl_id p) = Inr u"
    "find_route all_routes (rq_verb list_users) (rq_path list_users) = Some r" "rt_required r = Some [(res, [act])]"
    "usr_system_admin u \<or> code_of res act \<in> set (permission_codes u)"
    using lower_samples by (auto simp: list_users_def http_request_def)
  have "map_option rt_required (find_route all_routes GET [''Admin'', ''users'']) = Some (Some [(''USER'', [''View''])])"
    by code_simp
  then have "code_of res act = ''USER:View''" using a(3,4) by (auto simp: list_users_def http_request_def code_of_def)
  moreover have "pl_id p = 1" using a(1) by (auto simp: list_users_def http_request_def)
  moreover have "(case findUserById http_directory 1 of Inr v \<Rightarrow> \<not> usr_system_admin v | Inl _ \<Rightarrow> False)" by code_simp
  ultimately show ?thesis using a(2,5) by auto
qed

theorem self_service_acts_for_the_caller_witness:
  "\<exists>v. serve http_server list_entries = Call ''TimeEntriesService.findAll'' [v] \<and> member ''employee_id'' v = Num 1"
proof -
  obtain vs where vs: "serve http_server list_entries = Call ''TimeEntriesService.findAll'' vs"
    using sample_calls(2) by (auto simp: called_Some)
  from self_service_acts_for_the_caller[OF this, of "''users''" "[''me'', ''time-entries'']"]
  obtain p u where u: "rq_access list_entries = Some p" "findUserById http_directory (pl_id p) = Inr u"
    "for_caller u vs"
    using lower_samples by (auto simp: list_entries_def http_request_def)
  have "(case findUserById http_directory 1 of Inr v \<Rightarrow> usr_id v = 1 | Inl _ \<Rightarrow> False)" by code_simp
  then have "usr_id u = 1" using u(1,2) by (auto simp: list_entries_def http_request_def)
  moreover have "(case serve http_server list_entries of
      Call _ [Obj _] \<Rightarrow> True | _ \<Rightarrow> False)" by code_simp
  then obtain kvs where "vs = [Obj kvs]" using vs by (auto split: answer.splits list.splits json.splits)
  ultimately show ?thesis using vs u(3) by (auto simp: for_caller_def)
qed

theorem writes_carry_their_author_witness:
  "\<exists>u vs. serve http_server patch_me = Call ''UsersService.update'' vs \<and> list_ex (recorded u) vs"
proof -
  obtain vs where vs: "serve http_server patch_me = Call ''UsersService.update'' vs"
    using sample_calls(3) by (auto simp: called_Some)
  moreover have "rq_verb patch_me \<noteq> GET" by (simp add: patch_me_def http_request_def)
  moreover have "''UsersService.update'' \<notin> set unattributed" by (simp add: unattributed_def)
  ultimately show ?thesis using writes_carry_their_author by blast
qed


theorem chain_place_is_no_authority_witness:
  "map_option lr_l1 (findLeave sample_submitted 1) = Some 2 \<and>
   \<not> okR (snd (approveRequest sample_leave_env 1 (granted_user 2 operations_grants) sample_submitted))"
proof
  show "map_option lr_l1 (findLeave sample_submitted 1) = Some 2" by code_simp
  have "set (permission_codes (granted_user 2 operations_grants)) = set (seeded_grants ''OPERATIONS_MANAGER'')"
    by (simp add: seeded_grants_def)
  then show "\<not> okR (snd (approveRequest sample_leave_env 1 (granted_user 2 operations_grants) sample_submitted))"
    using chain_place_is_no_authority[of "granted_user 2 operations_grants" "''OPERATIONS_MANAGER''"] by simp
qed

end
