(* ===== verification/Compensation.thy ===== *)
theory Compensation
  imports Dates
begin

text \<open>
  Effective-dated pay (\<open>src/src/compensation\<close>): the \<open>PayRate\<close> value object with its derivation rule,
  the in-place correction of the aggregate, the table with its CHECK constraints and its partial
  unique index, the audit ledger, and the service.  Amounts are exact rationals: the rounding of the
  \<open>numeric\<close> columns is modelled, that of IEEE doubles is not.  The divisor of the derivation is the
  positive number of the environment, 208.67 by default.  A service call in a transaction that throws
  returns the tables it started from.
\<close>

section \<open>Rows\<close>

record comp_row =
  cm_id :: int
  cm_employee :: int
  cm_monthly :: rat
  cm_hourly :: rat
  cm_overridden :: bool
  cm_from :: date
  cm_to :: "date option"
  cm_created_by :: "int option"
  cm_updated_by :: "int option"
  cm_deleted_by :: "int option"
  cm_deleted_at :: "int option"

datatype audit_action = Audit_created | Audit_updated | Audit_deleted

record comp_audit =
  ca_comp :: int
  ca_employee :: int
  ca_action :: audit_action
  ca_before_monthly :: "rat option"
  ca_after_monthly :: "rat option"
  ca_before_hourly :: "rat option"
  ca_after_hourly :: "rat option"
  ca_before_from :: "date option"
  ca_after_from :: "date option"
  ca_actor :: "int option"

record comp_db =
  cd_rows :: "comp_row list"
  cd_next :: int
  cd_audits :: "comp_audit list"

text \<open>The clock, the divisor and the users a foreign key may name.\<close>

record comp_env =
  ce_now :: int
  ce_today :: date
  ce_divisor :: rat
  ce_users :: "int \<Rightarrow> bool"

definition cm_live :: "comp_row \<Rightarrow> bool" where
  "cm_live r \<longleftrightarrow> cm_deleted_at r = None"

definition cm_active :: "comp_row \<Rightarrow> bool" where
  "cm_active r \<longleftrightarrow> cm_to r = None \<and> cm_live r"

section \<open>Pay rates\<close>

definition HOURLY_RATE_SCALE :: nat where
  "HOURLY_RATE_SCALE = 4"

definition deriveHourlyRate :: "rat \<Rightarrow> rat \<Rightarrow> rat" where
  "deriveHourlyRate divisor monthly =
     (let factor = 10 ^ HOURLY_RATE_SCALE in of_int (math_round (monthly / divisor * factor)) / factor)"

record pay_rate =
  pr_monthly :: rat
  pr_hourly :: rat
  pr_overridden :: bool

definition mkPayRate :: "rat \<Rightarrow> rat \<Rightarrow> bool \<Rightarrow> http_error + pay_rate" where
  "mkPayRate m h o' =
     (if m < 0 then Inl (unprocessable ''monthly_salary'')
      else if h < 0 then Inl (unprocessable ''hourly_rate'')
      else Inr \<lparr>pr_monthly = m, pr_hourly = h, pr_overridden = o'\<rparr>)"

definition fromInput :: "rat \<Rightarrow> rat \<Rightarrow> rat option \<Rightarrow> http_error + pay_rate" where
  "fromInput divisor m h =
     (case h of None \<Rightarrow> mkPayRate m (deriveHourlyRate divisor m) False | Some x \<Rightarrow> mkPayRate m x True)"

section \<open>The aggregate\<close>

text \<open>A field of the correction may be absent, or \<open>null\<close>, which the DTO's \<open>@IsOptional\<close> lets through.\<close>

record correction_input =
  ci_monthly :: "rat tri"
  ci_hourly :: "rat tri"
  ci_from :: "date tri"

record comp_patch =
  pp_monthly :: "rat tri"
  pp_hourly :: "rat option"
  pp_overridden :: "bool option"
  pp_from :: "date tri"
  pp_to :: "date tri"
  pp_updated_by :: "int tri"

definition assertNotFuture :: "date \<Rightarrow> date \<Rightarrow> http_error + unit" where
  "assertNotFuture from today = guardR (\<not> today < from) (unprocessable ''effective_from'')"

definition tri_value :: "'a tri \<Rightarrow> 'a option" where
  "tri_value t = (case t of Val v \<Rightarrow> Some v | _ \<Rightarrow> None)"

definition opt_tri :: "int option \<Rightarrow> int tri" where
  "opt_tri v = (case v of None \<Rightarrow> Null | Some x \<Rightarrow> Val x)"

definition correct :: "comp_env \<Rightarrow> comp_row \<Rightarrow> correction_input \<Rightarrow> int option \<Rightarrow> http_error + comp_patch" where
  "correct env r p by =
     bindR (case ci_from p of Val d \<Rightarrow> assertNotFuture d (ce_today env) | _ \<Rightarrow> Inr ()) (\<lambda>_.
       let nxt = \<lparr>pp_monthly = ci_monthly p, pp_hourly = None, pp_overridden = None, pp_from = ci_from p,
                  pp_to = Undefined, pp_updated_by = opt_tri by\<rparr>
       in if ci_hourly p \<noteq> Undefined \<or> ci_monthly p \<noteq> Undefined
          then bindR (fromInput (ce_divisor env) (opt_apply (tri_value (ci_monthly p)) (cm_monthly r)) (tri_value (ci_hourly p)))
                 (\<lambda>rate. Inr (nxt\<lparr>pp_hourly := Some (pr_hourly rate), pp_overridden := Some (pr_overridden rate)\<rparr>))
          else Inr nxt)"

definition reconstitute_comp :: "comp_row \<Rightarrow> http_error + comp_row" where
  "reconstitute_comp r = bindR (mkPayRate (cm_monthly r) (cm_hourly r) (cm_overridden r)) (\<lambda>_. Inr r)"

section \<open>Repository\<close>

text \<open>A \<open>numeric(12, s)\<close> column: rounding half away from zero, twelve digits.\<close>

definition pg_numeric :: "nat \<Rightarrow> rat \<Rightarrow> http_error + rat" where
  "pg_numeric s x =
     (let n = x * 10 ^ s; q = (if 0 \<le> n then \<lfloor>n + 1 / 2\<rfloor> else - \<lfloor>1 / 2 - n\<rfloor>)
      in if 10 ^ 12 \<le> \<bar>q\<bar> then Inl NumericOverflow else Inr (of_int q / 10 ^ s))"

definition cm_stored :: "comp_row \<Rightarrow> http_error + comp_row" where
  "cm_stored r =
     bindR (pg_numeric 2 (cm_monthly r)) (\<lambda>m.
     bindR (pg_numeric 4 (cm_hourly r)) (\<lambda>h. Inr (r\<lparr>cm_monthly := m, cm_hourly := h\<rparr>)))"

definition cm_checks :: "comp_row \<Rightarrow> bool" where
  "cm_checks r \<longleftrightarrow> 0 \<le> cm_monthly r \<and> 0 \<le> cm_hourly r \<and>
     (case cm_to r of None \<Rightarrow> True | Some t \<Rightarrow> cm_from r \<le> t)"

definition cm_insert :: "(int \<Rightarrow> bool) \<Rightarrow> comp_row \<Rightarrow> comp_db \<Rightarrow> http_error + (comp_db \<times> comp_row)" where
  "cm_insert users r db =
     bindR (cm_stored (r\<lparr>cm_id := cd_next db\<rparr>)) (\<lambda>s.
       if \<not> cm_checks s then Inl CheckViolation
       else if cm_active s \<and> list_ex (\<lambda>q. cm_active q \<and> cm_employee q = cm_employee s) (cd_rows db)
       then Inl UniqueViolation
       else if \<not> users (cm_employee s) then Inl ForeignKeyViolation
       else Inr (db\<lparr>cd_rows := cd_rows db @ [s], cd_next := cd_next db + 1\<rparr>, s))"

definition cm_save :: "comp_row \<Rightarrow> comp_db \<Rightarrow> http_error + (comp_db \<times> comp_row)" where
  "cm_save r db =
     bindR (cm_stored r) (\<lambda>s.
       if \<not> cm_checks s then Inl CheckViolation
       else if cm_active s \<and>
         list_ex (\<lambda>q. cm_id q \<noteq> cm_id s \<and> cm_active q \<and> cm_employee q = cm_employee s) (cd_rows db)
       then Inl UniqueViolation
       else Inr (db\<lparr>cd_rows := update_where (\<lambda>q. cm_id q = cm_id s) (\<lambda>_. s) (cd_rows db)\<rparr>, s))"

definition findComp :: "comp_db \<Rightarrow> int \<Rightarrow> comp_row option" where
  "findComp db i = find (\<lambda>r. cm_id r = i \<and> cm_live r) (cd_rows db)"

definition findActiveComp :: "comp_db \<Rightarrow> int \<Rightarrow> comp_row option" where
  "findActiveComp db e = find (\<lambda>r. cm_employee r = e \<and> cm_live r \<and> cm_to r = None) (cd_rows db)"

text \<open>\<open>ORDER BY effective_from DESC\<close> and the first row of the answer.\<close>

definition newest_first :: "comp_row list \<Rightarrow> comp_row list" where
  "newest_first rows = rev (sort_key cm_from rows)"

definition first_row :: "'a list \<Rightarrow> 'a option" where
  "first_row xs = (case xs of [] \<Rightarrow> None | x # _ \<Rightarrow> Some x)"

definition findPrevious :: "comp_db \<Rightarrow> int \<Rightarrow> date \<Rightarrow> comp_row option" where
  "findPrevious db e before =
     first_row (newest_first (filter (\<lambda>r. cm_employee r = e \<and> cm_live r \<and> cm_from r < before) (cd_rows db)))"

definition findHistory :: "comp_db \<Rightarrow> int \<Rightarrow> comp_row list" where
  "findHistory db e = newest_first (filter (\<lambda>r. cm_employee r = e \<and> cm_live r) (cd_rows db))"

definition covers :: "date \<Rightarrow> comp_row \<Rightarrow> bool" where
  "covers d r \<longleftrightarrow> cm_from r \<le> d \<and> (case cm_to r of None \<Rightarrow> True | Some t \<Rightarrow> d \<le> t)"

definition findRateOnDate :: "comp_db \<Rightarrow> int \<Rightarrow> date \<Rightarrow> comp_row option" where
  "findRateOnDate db e d =
     first_row (newest_first (filter (\<lambda>r. cm_employee r = e \<and> cm_live r \<and> covers d r) (cd_rows db)))"

definition findRateRows :: "comp_db \<Rightarrow> int list \<Rightarrow> date \<Rightarrow> comp_row list" where
  "findRateRows db ids d =
     (if ids = [] then [] else filter (\<lambda>r. cm_employee r \<in> set ids \<and> cm_live r \<and> covers d r) (cd_rows db))"

text \<open>The service puts the rows into a \<open>Map\<close> by employee, where a later entry wins.\<close>

definition findRatesOnDate :: "comp_db \<Rightarrow> int list \<Rightarrow> date \<Rightarrow> int \<Rightarrow> comp_row option" where
  "findRatesOnDate db ids d = map_of (rev (map (\<lambda>r. (cm_employee r, r)) (findRateRows db ids d)))"

record comp_criteria =
  cc_employee :: "int option"
  cc_active_only :: bool
  cc_page :: "int option"
  cc_limit :: "int option"

definition findAllComp :: "comp_db \<Rightarrow> comp_criteria \<Rightarrow> comp_row page_of" where
  "findAllComp db c =
     find_page (sort_key cm_employee (newest_first (filter (\<lambda>r. cm_live r \<and>
         (case cc_employee c of None \<Rightarrow> True | Some e \<Rightarrow> cm_employee r = e) \<and>
         (cc_active_only c \<longrightarrow> cm_to r = None)) (cd_rows db))))
       (cc_page c) (cc_limit c)"

text \<open>Columns that are not nullable refuse \<open>null\<close>.\<close>

definition required :: "'a tri \<Rightarrow> 'a \<Rightarrow> http_error + 'a" where
  "required t old = (case t of Undefined \<Rightarrow> Inr old | Null \<Rightarrow> Inl NotNullViolation | Val v \<Rightarrow> Inr v)"

definition cm_patched :: "comp_patch \<Rightarrow> comp_row \<Rightarrow> http_error + comp_row" where
  "cm_patched p r =
     bindR (required (pp_monthly p) (cm_monthly r)) (\<lambda>m.
     bindR (required (pp_from p) (cm_from r)) (\<lambda>d.
       Inr (r\<lparr>cm_monthly := m, cm_hourly := opt_apply (pp_hourly p) (cm_hourly r),
              cm_overridden := opt_apply (pp_overridden p) (cm_overridden r), cm_from := d,
              cm_to := tri_apply (pp_to p) (cm_to r), cm_updated_by := tri_apply (pp_updated_by p) (cm_updated_by r)\<rparr>)))"

definition cm_update :: "int \<Rightarrow> comp_patch \<Rightarrow> comp_db \<Rightarrow> http_error + (comp_db \<times> comp_row)" where
  "cm_update i p db =
     (case findComp db i of
        None \<Rightarrow> Inl NotFoundPlain
      | Some r \<Rightarrow> bindR (cm_patched p r) (\<lambda>q. cm_save q db))"

definition cm_retire :: "int \<times> int option \<Rightarrow> comp_row \<Rightarrow> comp_row" where
  "cm_retire a r = r\<lparr>cm_deleted_by := snd a, cm_deleted_at := Some (fst a)\<rparr>"

definition cm_softDelete :: "int \<Rightarrow> int \<Rightarrow> int option \<Rightarrow> comp_db \<Rightarrow> comp_db" where
  "cm_softDelete now i by db =
     db\<lparr>cd_rows := update_where (\<lambda>r. cm_id r = i \<and> cm_live r) (cm_retire (now, by)) (cd_rows db)\<rparr>"

definition record_audit :: "comp_audit \<Rightarrow> comp_db \<Rightarrow> comp_db" where
  "record_audit a db = db\<lparr>cd_audits := cd_audits db @ [a]\<rparr>"

section \<open>Service\<close>

record set_pay =
  sp_employee :: int
  sp_monthly :: rat
  sp_hourly :: "rat option"
  sp_from :: date
  sp_created_by :: "int option"

definition end_date_patch :: "date tri \<Rightarrow> int option \<Rightarrow> comp_patch" where
  "end_date_patch t by =
     \<lparr>pp_monthly = Undefined, pp_hourly = None, pp_overridden = None, pp_from = Undefined, pp_to = t,
      pp_updated_by = opt_tri by\<rparr>"

definition cm_new :: "set_pay \<Rightarrow> pay_rate \<Rightarrow> comp_row" where
  "cm_new i rate =
     \<lparr>cm_id = 0, cm_employee = sp_employee i, cm_monthly = pr_monthly rate, cm_hourly = pr_hourly rate,
      cm_overridden = pr_overridden rate, cm_from = sp_from i, cm_to = None, cm_created_by = sp_created_by i,
      cm_updated_by = sp_created_by i, cm_deleted_by = None, cm_deleted_at = None\<rparr>"

definition created_audit :: "comp_row \<Rightarrow> int option \<Rightarrow> comp_audit" where
  "created_audit r by =
     \<lparr>ca_comp = cm_id r, ca_employee = cm_employee r, ca_action = Audit_created, ca_before_monthly = None,
      ca_after_monthly = Some (cm_monthly r), ca_before_hourly = None, ca_after_hourly = Some (cm_hourly r),
      ca_before_from = None, ca_after_from = Some (cm_from r), ca_actor = by\<rparr>"

definition updated_audit :: "comp_row \<Rightarrow> comp_row \<Rightarrow> int option \<Rightarrow> comp_audit" where
  "updated_audit old r by =
     \<lparr>ca_comp = cm_id old, ca_employee = cm_employee old, ca_action = Audit_updated,
      ca_before_monthly = Some (cm_monthly old), ca_after_monthly = Some (cm_monthly r),
      ca_before_hourly = Some (cm_hourly old), ca_after_hourly = Some (cm_hourly r),
      ca_before_from = Some (cm_from old), ca_after_from = Some (cm_from r), ca_actor = by\<rparr>"

definition deleted_audit :: "comp_row \<Rightarrow> int option \<Rightarrow> comp_audit" where
  "deleted_audit r by =
     \<lparr>ca_comp = cm_id r, ca_employee = cm_employee r, ca_action = Audit_deleted,
      ca_before_monthly = Some (cm_monthly r), ca_after_monthly = None, ca_before_hourly = Some (cm_hourly r),
      ca_after_hourly = None, ca_before_from = Some (cm_from r), ca_after_from = None, ca_actor = by\<rparr>"

text \<open>End-date the active row, insert the new one, append the audit row.\<close>

definition end_prior :: "set_pay \<Rightarrow> comp_db \<Rightarrow> http_error + comp_db" where
  "end_prior i db =
     (case findActiveComp db (sp_employee i) of
        None \<Rightarrow> Inr db
      | Some prior \<Rightarrow>
          if sp_from i \<le> cm_from prior then Inl (unprocessable ''effective_from'')
          else bindR (cm_update (cm_id prior) (end_date_patch (Val (dayBefore (sp_from i))) (sp_created_by i)) db)
                 (\<lambda>(db', _). Inr db'))"

definition insertWithin :: "comp_env \<Rightarrow> set_pay \<Rightarrow> comp_db \<Rightarrow> http_error + (comp_db \<times> comp_row)" where
  "insertWithin env i db =
     bindR (fromInput (ce_divisor env) (sp_monthly i) (sp_hourly i)) (\<lambda>rate.
     bindR (end_prior i db) (\<lambda>db1.
     bindR (cm_insert (ce_users env) (cm_new i rate) db1) (\<lambda>(db2, created).
       Inr (record_audit (created_audit created (sp_created_by i)) db2, created))))"

definition mapConflict :: "http_error \<Rightarrow> http_error" where
  "mapConflict er = (if isUniqueViolation er then conflict ''employee_id'' else er)"

definition setPay :: "comp_env \<Rightarrow> set_pay \<Rightarrow> comp_db \<Rightarrow> comp_db \<times> (http_error + comp_row)" where
  "setPay env i db =
     (case assertNotFuture (sp_from i) (ce_today env) of
        Inl er \<Rightarrow> (db, Inl er)
      | Inr _ \<Rightarrow>
          (case insertWithin env i db of
             Inl er \<Rightarrow> (db, Inl (mapConflict er))
           | Inr (db', r) \<Rightarrow> (db', Inr r)))"

primrec insert_all :: "comp_env \<Rightarrow> int option \<Rightarrow> set_pay list \<Rightarrow> comp_db \<Rightarrow> http_error + (comp_db \<times> comp_row list)" where
  "insert_all env actor [] db = Inr (db, [])"
| "insert_all env actor (i # items) db =
     bindR (insertWithin env (i\<lparr>sp_created_by := actor\<rparr>) db) (\<lambda>(db1, r).
     bindR (insert_all env actor items db1) (\<lambda>(db2, rs). Inr (db2, r # rs)))"

definition setPayBulk :: "comp_env \<Rightarrow> set_pay list \<Rightarrow> int option \<Rightarrow> comp_db \<Rightarrow> comp_db \<times> (http_error + comp_row list)" where
  "setPayBulk env items actor db =
     (if \<not> distinct (map sp_employee items) then (db, Inl (unprocessable ''employee_id''))
      else if list_ex (\<lambda>i. \<not> okR (assertNotFuture (sp_from i) (ce_today env))) items
      then (db, Inl (unprocessable ''effective_from''))
      else (case insert_all env actor items db of
              Inl er \<Rightarrow> (db, Inl (mapConflict er))
            | Inr (db', rs) \<Rightarrow> (db', Inr rs)))"

definition correctPay :: "comp_env \<Rightarrow> int \<Rightarrow> correction_input \<Rightarrow> int option \<Rightarrow> comp_db \<Rightarrow> comp_db \<times> (http_error + comp_row)" where
  "correctPay env i p by db =
     (case bindR (orNotFound (findComp db i) ''Compensation'' i) (\<lambda>existing.
             bindR (reconstitute_comp existing) (\<lambda>c.
             bindR (correct env c p by) (\<lambda>nxt.
             bindR (cm_update i nxt db) (\<lambda>(db', r).
               Inr (record_audit (updated_audit existing r by) db', r))))) of
        Inl er \<Rightarrow> (db, Inl er)
      | Inr (db', r) \<Rightarrow> (db', Inr r))"

definition softDeletePay :: "comp_env \<Rightarrow> int \<Rightarrow> int option \<Rightarrow> comp_db \<Rightarrow> comp_db \<times> (http_error + unit)" where
  "softDeletePay env i by db =
     (case orNotFound (findComp db i) ''Compensation'' i of
        Inl er \<Rightarrow> (db, Inl er)
      | Inr existing \<Rightarrow>
          if cm_to existing \<noteq> None then (db, Inl (conflict ''id''))
          else (let db1 = cm_softDelete (ce_now env) i by db
                in case (case findPrevious db1 (cm_employee existing) (cm_from existing) of
                           None \<Rightarrow> Inr db1
                         | Some prior \<Rightarrow> bindR (cm_update (cm_id prior) (end_date_patch Null by) db1) (\<lambda>(d, _). Inr d)) of
                     Inl er \<Rightarrow> (db, Inl er)
                   | Inr db2 \<Rightarrow> (record_audit (deleted_audit existing by) db2, Inr ())))"

definition findAuditTrail :: "comp_db \<Rightarrow> int \<Rightarrow> http_error + comp_audit list" where
  "findAuditTrail db i =
     bindR (orNotFound (findComp db i) ''Compensation'' i) (\<lambda>_.
       Inr (rev (filter (\<lambda>a. ca_comp a = i) (cd_audits db))))"

definition empty_comp_db :: comp_db where
  "empty_comp_db = \<lparr>cd_rows = [], cd_next = 1, cd_audits = []\<rparr>"

section \<open>The table contract\<close>

interpretation pay_index: partial_unique cm_id cm_active cm_employee cm_retire
  by unfold_locales (simp_all add: cm_retire_def cm_active_def cm_live_def)

text \<open>Ids are serial, the active row of an employee is unique, and every row is as the columns store it.\<close>

definition row_ok :: "comp_row \<Rightarrow> bool" where
  "row_ok r \<longleftrightarrow> cm_stored r = Inr r \<and> cm_checks r"

definition comp_inv :: "comp_db \<Rightarrow> bool" where
  "comp_inv db \<longleftrightarrow> serial_ok cm_id (cd_next db) (cd_rows db) \<and>
     unique_active cm_active cm_employee (cd_rows db) \<and> (\<forall>r \<in> set (cd_rows db). row_ok r)"

lemma pg_numeric_idem:
  assumes "pg_numeric s x = Inr y"
  shows "pg_numeric s y = Inr y"
proof -
  define q where "q = (if 0 \<le> x * 10 ^ s then \<lfloor>x * 10 ^ s + 1 / 2\<rfloor> else - \<lfloor>1 / 2 - x * 10 ^ s\<rfloor>)"
  have "(if 10 ^ 12 \<le> \<bar>q\<bar> then Inl NumericOverflow else Inr (of_int q / 10 ^ s)) = Inr y"
    using assms unfolding pg_numeric_def Let_def q_def .
  then have q: "y = of_int q / 10 ^ s" "\<bar>q\<bar> < 10 ^ 12" by (auto split: if_splits)
  have "y * 10 ^ s = of_int q" by (simp add: q(1))
  moreover have "\<lfloor>of_int q + 1 / 2 :: rat\<rfloor> = q" "\<lfloor>1 / 2 - of_int q :: rat\<rfloor> = - q" by linarith+
  moreover have "(if 0 \<le> (of_int q :: rat) then q else - (- q)) = q" by simp
  ultimately show ?thesis using q by (auto simp: pg_numeric_def Let_def)
qed

lemma cm_stored_Inr:
  assumes "cm_stored r = Inr s"
  shows "s = r\<lparr>cm_monthly := cm_monthly s, cm_hourly := cm_hourly s\<rparr> \<and> cm_stored s = Inr s"
proof -
  obtain m h where s: "s = r\<lparr>cm_monthly := m, cm_hourly := h\<rparr>" "pg_numeric 2 (cm_monthly r) = Inr m"
    "pg_numeric 4 (cm_hourly r) = Inr h"
    using assms by (auto simp: cm_stored_def bindR_eq_Inr)
  show ?thesis
    using pg_numeric_idem[OF s(2)] pg_numeric_idem[OF s(3)] by (simp add: s(1) cm_stored_def)
qed

lemma cm_stored_fix:
  "cm_stored r = Inr r \<longleftrightarrow> pg_numeric 2 (cm_monthly r) = Inr (cm_monthly r) \<and> pg_numeric 4 (cm_hourly r) = Inr (cm_hourly r)"
  by (cases r) (auto simp: cm_stored_def bindR_eq_Inr)

lemma cm_stored_fields:
  assumes "cm_stored r = Inr s"
  shows "cm_id s = cm_id r \<and> cm_employee s = cm_employee r \<and> cm_from s = cm_from r \<and> cm_to s = cm_to r \<and>
    cm_overridden s = cm_overridden r \<and> cm_deleted_at s = cm_deleted_at r \<and> cm_live s = cm_live r"
proof -
  have "s = r\<lparr>cm_monthly := cm_monthly s, cm_hourly := cm_hourly s\<rparr>" using cm_stored_Inr[OF assms] by blast
  then show ?thesis by (metis comp_row.ext_inject comp_row.surjective comp_row.update_convs(3,4) cm_live_def)
qed

lemma findComp_Some: "findComp db i = Some r \<Longrightarrow> r \<in> set (cd_rows db) \<and> cm_id r = i \<and> cm_live r"
  unfolding findComp_def using find_Some_iff_mem by fastforce

lemma cm_patched_fields:
  assumes "cm_patched p r = Inr q"
  shows "cm_id q = cm_id r \<and> cm_employee q = cm_employee r \<and> cm_deleted_at q = cm_deleted_at r \<and>
    cm_to q = tri_apply (pp_to p) (cm_to r)"
  using assms by (auto simp: cm_patched_def bindR_eq_Inr)

lemma cm_update_Inr:
  assumes "cm_update i p db = Inr (db', s)" "comp_inv db"
  shows "\<exists>r q. findComp db i = Some r \<and> cm_patched p r = Inr q \<and> cm_stored q = Inr s \<and> cm_checks s \<and>
    cm_id s = i \<and> cm_employee s = cm_employee r \<and> cm_live s \<and> cm_to s = tri_apply (pp_to p) (cm_to r) \<and>
    db' = db\<lparr>cd_rows := update_where (\<lambda>q. cm_id q = i) (\<lambda>_. s) (cd_rows db)\<rparr> \<and> comp_inv db'"
proof -
  obtain r q where r: "findComp db i = Some r" "cm_patched p r = Inr q" "cm_save q db = Inr (db', s)"
    using assms(1) by (auto simp: cm_update_def bindR_eq_Inr split: option.splits)
  have s: "cm_stored q = Inr s" "cm_checks s"
    "db' = db\<lparr>cd_rows := update_where (\<lambda>q. cm_id q = cm_id s) (\<lambda>_. s) (cd_rows db)\<rparr>"
    "cm_active s \<Longrightarrow> \<forall>q \<in> set (cd_rows db). cm_id q \<noteq> cm_id s \<longrightarrow> cm_active q \<longrightarrow> cm_employee q \<noteq> cm_employee s"
    using r(3) by (auto simp: cm_save_def bindR_eq_Inr list_ex_iff split: if_splits)
  have f: "cm_id s = i" "cm_employee s = cm_employee r" "cm_live s" "cm_to s = tri_apply (pp_to p) (cm_to r)"
    using cm_stored_fields[OF s(1)] cm_patched_fields[OF r(2)] findComp_Some[OF r(1)] by (auto simp: cm_live_def)
  have inv: "serial_ok cm_id (cd_next db) (cd_rows db)" "unique_active cm_active cm_employee (cd_rows db)"
    using assms(2) by (simp_all add: comp_inv_def)
  have "unique_active cm_active cm_employee (update_where (\<lambda>q. cm_id q = cm_id s) (\<lambda>_. s) (cd_rows db))"
    using inv(1) s(4) by (intro unique_active_replace[OF inv(2)]) (auto simp: serial_ok_def)
  moreover have "row_ok s" using s(2) cm_stored_Inr[OF s(1)] by (simp add: row_ok_def)
  ultimately have "comp_inv db'"
    using assms(2) s(3) serial_ok_replace[OF inv(1), of s "cm_id s"] by (auto simp: comp_inv_def table_simps)
  then show ?thesis using r(1,2) s(1-3) f by auto
qed

text \<open>The end-date writes change nothing but the end and the stamp.\<close>

lemma end_date_Inr:
  assumes "cm_update i (end_date_patch t by') db = Inr (db', s)" "comp_inv db"
  shows "\<exists>r. findComp db i = Some r \<and> s = r\<lparr>cm_to := tri_apply t (cm_to r), cm_updated_by := by'\<rparr> \<and> cm_checks s \<and>
    db' = db\<lparr>cd_rows := update_where (\<lambda>q. cm_id q = i) (\<lambda>_. s) (cd_rows db)\<rparr> \<and> comp_inv db'"
proof -
  obtain r q where r: "findComp db i = Some r" "cm_patched (end_date_patch t by') r = Inr q" "cm_stored q = Inr s"
    "cm_checks s" "db' = db\<lparr>cd_rows := update_where (\<lambda>q. cm_id q = i) (\<lambda>_. s) (cd_rows db)\<rparr>" "comp_inv db'"
    using cm_update_Inr[OF assms] by blast
  have q: "q = r\<lparr>cm_to := tri_apply t (cm_to r), cm_updated_by := by'\<rparr>"
    using r(2) by (cases by') (auto simp: cm_patched_def end_date_patch_def required_def opt_tri_def bindR_def)
  have "cm_stored r = Inr r" using assms(2) findComp_Some[OF r(1)] by (simp add: comp_inv_def row_ok_def)
  then have "cm_stored q = Inr q" by (simp add: q cm_stored_fix)
  then show ?thesis using r q by auto
qed

lemma cm_insert_Inr:
  assumes "cm_insert users r db = Inr (db', s)" "comp_inv db"
  shows "cm_stored (r\<lparr>cm_id := cd_next db\<rparr>) = Inr s \<and> cm_id s = cd_next db \<and>
    db' = db\<lparr>cd_rows := cd_rows db @ [s], cd_next := cd_next db + 1\<rparr> \<and> comp_inv db'"
proof -
  have s: "cm_stored (r\<lparr>cm_id := cd_next db\<rparr>) = Inr s" "cm_checks s"
    "db' = db\<lparr>cd_rows := cd_rows db @ [s], cd_next := cd_next db + 1\<rparr>"
    "cm_active s \<Longrightarrow> \<forall>q \<in> set (cd_rows db). cm_active q \<longrightarrow> cm_employee q \<noteq> cm_employee s"
    using assms(1) by (auto simp: cm_insert_def bindR_eq_Inr list_ex_iff split: if_splits)
  have id: "cm_id s = cd_next db" using cm_stored_fields[OF s(1)] by simp
  have "row_ok s" using s(2) cm_stored_Inr[OF s(1)] by (simp add: row_ok_def)
  then have "comp_inv db'"
    using assms(2) s(3,4) id serial_ok_snoc[of cm_id "cd_next db" "cd_rows db" s]
    by (auto simp: comp_inv_def unique_active_snoc)
  then show ?thesis using s(1,3) id by blast
qed

lemma record_audit_inv [simp]: "comp_inv (record_audit a db) = comp_inv db"
  by (simp add: comp_inv_def record_audit_def)

section \<open>The timeline of an employee\<close>

text \<open>The live rows of an employee in table order.  While no start date is corrected they form a chain: each
  starts after its predecessor, which ends the day before, and only the last is open.\<close>

definition hist :: "comp_row list \<Rightarrow> int \<Rightarrow> comp_row list" where
  "hist rows e = filter (\<lambda>r. cm_employee r = e \<and> cm_live r) rows"

fun chained :: "comp_row list \<Rightarrow> bool" where
  "chained [] = True"
| "chained [r] = (cm_to r = None)"
| "chained (r # s # rs) = (cm_to r = Some (dayBefore (cm_from s)) \<and> cm_from r < cm_from s \<and> chained (s # rs))"

definition timeline_inv :: "comp_db \<Rightarrow> bool" where
  "timeline_inv db \<longleftrightarrow> (\<forall>e. chained (hist (cd_rows db) e)) \<and> (\<forall>r \<in> set (cd_rows db). valid_date (cm_from r))"

lemma chained_two:
  "chained (xs @ [p, x]) \<longleftrightarrow>
     chained (xs @ [p\<lparr>cm_to := None\<rparr>]) \<and> cm_to p = Some (dayBefore (cm_from x)) \<and> cm_from p < cm_from x \<and> cm_to x = None"
  by (induction xs rule: chained.induct) auto

lemma chained_stamp: "chained (xs @ [x\<lparr>cm_updated_by := u\<rparr>]) = chained (xs @ [x])"
  by (induction xs rule: chained.induct) auto

lemma chained_same_end:
  assumes "cm_from y = cm_from x" "cm_to y = cm_to x"
  shows "chained (xs @ [y]) = chained (xs @ [x])"
  using assms by (induction xs rule: chained.induct) auto

lemma chained_last: "chained (xs @ [x]) \<Longrightarrow> cm_to x = None"
  by (induction xs rule: chained.induct) auto

lemma chained_front: "chained (xs @ [x]) \<Longrightarrow> r \<in> set xs \<Longrightarrow> cm_to r \<noteq> None"
  by (induction xs rule: chained.induct) auto

lemma chained_from_sorted: "chained xs \<Longrightarrow> sorted_wrt (\<lambda>r s. cm_from r < cm_from s) xs"
proof (induction xs rule: chained.induct)
  case (3 r s rs)
  then have "cm_from r < cm_from s" "\<forall>t \<in> set rs. cm_from s < cm_from t" by auto
  then have "\<forall>t \<in> set rs. cm_from r < cm_from t" using less_trans by blast
  then show ?case using 3 by auto
qed auto

lemma sorted_newest_first:
  assumes "sorted_wrt (\<lambda>r s. cm_from r < cm_from s) xs"
  shows "newest_first xs = rev xs"
proof -
  have "sorted_wrt (\<lambda>r s. cm_from r \<le> cm_from s) xs"
    by (rule sorted_wrt_mono_rel[OF _ assms]) simp
  then have "sorted (map cm_from xs)" by (simp add: sorted_map)
  then show ?thesis by (simp add: newest_first_def sort_key_id_if_sorted)
qed

lemma first_row_rev: "first_row (rev xs) = (if xs = [] then None else Some (last xs))"
  by (cases xs rule: rev_cases) (auto simp: first_row_def)

lemma newest_of_sorted:
  assumes "sorted_wrt (\<lambda>r s. cm_from r < cm_from s) xs"
  shows "first_row (newest_first (filter p xs)) = (if filter p xs = [] then None else Some (last (filter p xs)))"
proof -
  have "sorted_wrt (\<lambda>r s. cm_from r < cm_from s) (filter p xs)"
    using assms by (rule sorted_wrt_filter)
  then show ?thesis by (simp add: sorted_newest_first first_row_rev)
qed

lemmas newest_of_chained = newest_of_sorted[OF chained_from_sorted]

lemma find_filter: "find p (filter q xs) = find (\<lambda>x. q x \<and> p x) xs"
  by (induction xs) auto

lemma filter_hist: "filter (\<lambda>r. cm_employee r = e \<and> cm_live r \<and> p r) rows = filter p (hist rows e)"
  by (simp add: hist_def conj_ac)

lemma findActiveComp_hist:
  assumes "chained (hist (cd_rows db) e)"
  shows "findActiveComp db e = (if hist (cd_rows db) e = [] then None else Some (last (hist (cd_rows db) e)))"
proof -
  have *: "findActiveComp db e = find (\<lambda>r. cm_to r = None) (hist (cd_rows db) e)"
    by (simp add: findActiveComp_def hist_def find_filter conj_ac)
  show ?thesis
  proof (cases "hist (cd_rows db) e" rule: rev_cases)
    case (snoc xs x)
    then have "find (\<lambda>r. cm_to r = None) xs = None" "cm_to x = None"
      using assms chained_front[of xs x] chained_last[of xs x] by (auto simp: find_None_conv)
    then show ?thesis unfolding * snoc by (simp add: find_append_None)
  qed (simp add: *)
qed

text \<open>On a chain the rows in force on a date are the latest that has started, and no other.\<close>

lemma chained_covers:
  assumes "chained xs" "\<forall>r \<in> set xs. valid_date (cm_from r)" "valid_date d"
  shows "filter (covers d) xs =
    (let started = filter (\<lambda>r. cm_from r \<le> d) xs in if started = [] then [] else [last started])"
  using assms(1,2)
proof (induction xs rule: chained.induct)
  case (2 r)
  then show ?case by (auto simp: covers_def)
next
  case (3 r s rs)
  have lnk: "cm_to r = Some (dayBefore (cm_from s))" "cm_from r < cm_from s" "chained (s # rs)" using 3(2) by auto
  have cov: "covers d r \<longleftrightarrow> cm_from r \<le> d \<and> d < cm_from s"
    using less_iff_le_dayBefore[of d "cm_from s"] 3(3) assms(3) by (auto simp: covers_def lnk(1))
  show ?case
  proof (cases "cm_from s \<le> d")
    case True
    then have "\<not> covers d r" "cm_from r \<le> d" using cov lnk(2) by auto
    then show ?thesis using 3(1)[OF lnk(3)] 3(3) True by (simp add: Let_def)
  next
    case False
    have "\<forall>t \<in> set rs. cm_from s < cm_from t" using chained_from_sorted[OF lnk(3)] by simp
    then have none: "filter (\<lambda>t. cm_from t \<le> d) (s # rs) = []"
      unfolding filter_empty_conv using False by (metis less_le_not_le less_le_trans not_le set_ConsD)
    then have "filter (covers d) (s # rs) = []" unfolding filter_empty_conv covers_def by blast
    then show ?thesis using none cov False by (auto simp: Let_def)
  qed
qed simp

section \<open>What the writes do to the timelines\<close>

lemma hist_replace:
  assumes "\<forall>q \<in> set rows. cm_id q = i \<longrightarrow> cm_employee q = cm_employee s \<and> cm_live q" "cm_live s"
  shows "hist (update_where (\<lambda>q. cm_id q = i) (\<lambda>_. s) rows) e = map (\<lambda>q. if cm_id q = i then s else q) (hist rows e)"
  using assms by (induction rows) (auto simp: hist_def)

lemma hist_mem: "r \<in> set (hist rows e) \<longleftrightarrow> r \<in> set rows \<and> cm_employee r = e \<and> cm_live r"
  by (auto simp: hist_def)

lemma hist_ids: "serial_ok cm_id n rows \<Longrightarrow> distinct (map cm_id (hist rows e))"
  unfolding hist_def serial_ok_def by (simp add: distinct_map_filter)

lemma hist_replace_last:
  assumes "serial_ok cm_id n rows" "hist rows e = xs @ [x]" "cm_employee s = e" "cm_live s"
  shows "hist (update_where (\<lambda>q. cm_id q = cm_id x) (\<lambda>_. s) rows) e' = (if e' = e then xs @ [s] else hist rows e')"
proof -
  have x: "x \<in> set rows" "cm_employee x = e" "cm_live x" using assms(2) hist_mem[of x rows e] by auto
  have "q = x" if "q \<in> set rows" "cm_id q = cm_id x" for q using serial_ok_inj[OF assms(1)] that x(1) by blast
  then have h: "hist (update_where (\<lambda>q. cm_id q = cm_id x) (\<lambda>_. s) rows) f =
      map (\<lambda>q. if cm_id q = cm_id x then s else q) (hist rows f)" for f
    using x assms(3,4) by (intro hist_replace) auto
  have "\<forall>q \<in> set xs. cm_id q \<noteq> cm_id x"
    using hist_ids[OF assms(1), of e] assms(2) by (auto simp: image_iff)
  then have "map (\<lambda>q. if cm_id q = cm_id x then s else q) xs = xs" by (intro map_idI) auto
  moreover have "map (\<lambda>q. if cm_id q = cm_id x then s else q) (hist rows f) = hist rows f" if f: "f \<noteq> e" for f
    using f x(2) hist_mem \<open>\<And>q. q \<in> set rows \<Longrightarrow> cm_id q = cm_id x \<Longrightarrow> q = x\<close> by (intro map_idI) auto
  ultimately show ?thesis using h assms(2) by auto
qed

lemma timeline_inv_D:
  assumes "timeline_inv db"
  shows "chained (hist (cd_rows db) e)" "r \<in> set (cd_rows db) \<Longrightarrow> valid_date (cm_from r)"
    "\<forall>r \<in> set (hist (cd_rows db) e). valid_date (cm_from r)"
  using assms by (auto simp: timeline_inv_def hist_mem)

text \<open>The row the new one ends, and the row the deletion reopens.\<close>

definition ended :: "set_pay \<Rightarrow> comp_row \<Rightarrow> comp_row" where
  "ended i x = x\<lparr>cm_to := Some (dayBefore (sp_from i)), cm_updated_by := sp_created_by i\<rparr>"

definition reopened :: "int option \<Rightarrow> comp_row \<Rightarrow> comp_row" where
  "reopened by x = x\<lparr>cm_to := None, cm_updated_by := by\<rparr>"

definition end_last :: "set_pay \<Rightarrow> comp_row list \<Rightarrow> comp_row list" where
  "end_last i xs = (if xs = [] then [] else butlast xs @ [ended i (last xs)])"

lemma findComp_hist:
  assumes "serial_ok cm_id n (cd_rows db)" "x \<in> set (hist (cd_rows db) e)"
  shows "findComp db (cm_id x) = Some x"
  unfolding findComp_def using assms serial_ok_inj[OF assms(1)] by (intro find_unique) (auto simp: hist_mem)

lemma comp_inv_serial: "comp_inv db \<Longrightarrow> serial_ok cm_id (cd_next db) (cd_rows db)"
  by (simp add: comp_inv_def)

lemma end_prior_Inr:
  assumes "comp_inv db" "chained (hist (cd_rows db) (sp_employee i))" "end_prior i db = Inr db1"
  shows "comp_inv db1 \<and> cd_next db1 = cd_next db \<and> cd_audits db1 = cd_audits db \<and>
    cd_rows db1 = (case findActiveComp db (sp_employee i) of None \<Rightarrow> cd_rows db
      | Some p \<Rightarrow> update_where (\<lambda>q. cm_id q = cm_id p) (\<lambda>_. ended i p) (cd_rows db)) \<and>
    hist (cd_rows db1) e =
      (if e = sp_employee i then end_last i (hist (cd_rows db) e) else hist (cd_rows db) e) \<and>
    (\<forall>x \<in> set (hist (cd_rows db) (sp_employee i)). cm_from x < sp_from i)"
proof (cases "hist (cd_rows db) (sp_employee i)" rule: rev_cases)
  case Nil
  then have "findActiveComp db (sp_employee i) = None" using findActiveComp_hist[OF assms(2)] by simp
  then show ?thesis using assms(1,3) Nil by (auto simp: end_prior_def end_last_def)
next
  case (snoc xs x)
  then have act: "findActiveComp db (sp_employee i) = Some x" using findActiveComp_hist[OF assms(2)] by simp
  let ?patch = "end_date_patch (Val (dayBefore (sp_from i))) (sp_created_by i)"
  obtain s where u: "cm_update (cm_id x) ?patch db = Inr (db1, s)" "cm_from x < sp_from i"
    using assms(3) act by (auto simp: end_prior_def bindR_eq_Inr split: if_splits)
  have x: "x \<in> set (hist (cd_rows db) (sp_employee i))" using snoc by simp
  then have "findComp db (cm_id x) = Some x" by (rule findComp_hist[OF comp_inv_serial[OF assms(1)]])
  then have d: "db1 = db\<lparr>cd_rows := update_where (\<lambda>q. cm_id q = cm_id x) (\<lambda>_. ended i x) (cd_rows db)\<rparr>" "comp_inv db1"
    using end_date_Inr[OF u(1) assms(1)] by (auto simp: ended_def)
  have "cm_employee (ended i x) = sp_employee i" "cm_live (ended i x)"
    using x by (auto simp: ended_def hist_mem cm_live_def)
  then have "hist (cd_rows db1) e = (if e = sp_employee i then xs @ [ended i x] else hist (cd_rows db) e)"
    using hist_replace_last[OF comp_inv_serial[OF assms(1)] snoc] by (simp add: d(1))
  moreover have "\<forall>y \<in> set xs. cm_from y < cm_from x"
    using chained_from_sorted[OF assms(2)] snoc by (simp add: sorted_wrt_append)
  then have "\<forall>y \<in> set (xs @ [x]). cm_from y < sp_from i" using u(2) less_trans by auto
  ultimately show ?thesis using act d snoc by (auto simp: end_last_def)
qed

lemma insertWithin_Inr:
  assumes "comp_inv db" "chained (hist (cd_rows db) (sp_employee i))" "insertWithin env i db = Inr (db', r)"
  shows "\<exists>db1 rate. fromInput (ce_divisor env) (sp_monthly i) (sp_hourly i) = Inr rate \<and> end_prior i db = Inr db1 \<and>
    cm_stored ((cm_new i rate)\<lparr>cm_id := cd_next db\<rparr>) = Inr r \<and> comp_inv db' \<and>
    cd_rows db' = cd_rows db1 @ [r] \<and> cd_next db' = cd_next db + 1 \<and>
    cd_audits db' = cd_audits db @ [created_audit r (sp_created_by i)]"
proof -
  obtain rate db1 db2 where s: "fromInput (ce_divisor env) (sp_monthly i) (sp_hourly i) = Inr rate"
    "end_prior i db = Inr db1" "cm_insert (ce_users env) (cm_new i rate) db1 = Inr (db2, r)"
    "db' = record_audit (created_audit r (sp_created_by i)) db2"
    using assms(3) by (auto simp: insertWithin_def bindR_eq_Inr)
  have p: "comp_inv db1" "cd_next db1 = cd_next db" "cd_audits db1 = cd_audits db"
    using end_prior_Inr[OF assms(1,2) s(2)] by auto
  show ?thesis using cm_insert_Inr[OF s(3) p(1)] s p(2,3) by (auto simp: record_audit_def comp_inv_def)
qed

lemma new_row_fields:
  assumes "cm_stored ((cm_new i rate)\<lparr>cm_id := n\<rparr>) = Inr r"
  shows "cm_id r = n \<and> cm_employee r = sp_employee i \<and> cm_from r = sp_from i \<and> cm_to r = None \<and> cm_live r"
  using cm_stored_fields[OF assms] by (simp add: cm_new_def cm_live_def)

lemma insertWithin_hist:
  assumes "comp_inv db" "chained (hist (cd_rows db) (sp_employee i))" "insertWithin env i db = Inr (db', r)"
  shows "hist (cd_rows db') e =
    (if e = sp_employee i then end_last i (hist (cd_rows db) e) @ [r] else hist (cd_rows db) e) \<and>
    (\<forall>x \<in> set (hist (cd_rows db) (sp_employee i)). cm_from x < sp_from i) \<and> cm_employee r = sp_employee i \<and>
    cm_from r = sp_from i \<and> cm_to r = None \<and> cm_live r \<and> r \<in> set (cd_rows db')"
proof -
  obtain db1 rate where i: "end_prior i db = Inr db1" "cm_stored ((cm_new i rate)\<lparr>cm_id := cd_next db\<rparr>) = Inr r"
    "cd_rows db' = cd_rows db1 @ [r]"
    using insertWithin_Inr[OF assms] by blast
  have r: "cm_employee r = sp_employee i" "cm_from r = sp_from i" "cm_to r = None" "cm_live r"
    using new_row_fields[OF i(2)] by auto
  have "hist (cd_rows db') e = hist (cd_rows db1) e @ (if e = sp_employee i then [r] else [])"
    using r by (simp add: i(3) hist_def)
  then show ?thesis using end_prior_Inr[OF assms(1,2) i(1), of e] r i(3) by auto
qed

lemma end_last_chained:
  assumes "chained xs" "\<forall>x \<in> set xs. cm_from x < cm_from r" "cm_to r = None" "cm_from r = sp_from i"
  shows "chained (end_last i xs @ [r])"
proof (cases xs rule: rev_cases)
  case (snoc ys x)
  have "chained (ys @ [(ended i x)\<lparr>cm_to := None\<rparr>]) = chained (ys @ [x])"
    by (rule chained_same_end) (use assms(1) snoc chained_last in \<open>auto simp: ended_def\<close>)
  then have "chained (ys @ [ended i x, r])"
    using assms snoc unfolding chained_two by (simp add: ended_def)
  then show ?thesis by (simp add: end_last_def snoc)
qed (simp add: end_last_def assms(3))

lemma cm_softDelete_inv:
  assumes "comp_inv db"
  shows "comp_inv (cm_softDelete now i by' db)"
proof -
  have "row_ok (cm_retire a r)" if "row_ok r" for a r
    using that by (simp add: row_ok_def cm_stored_fix cm_retire_def cm_checks_def split: option.splits)
  then show ?thesis
    using assms pay_index.retire_preserves pay_index.retire_serial
    by (auto simp: comp_inv_def cm_softDelete_def table_simps)
qed

lemma retired_hist:
  "hist (update_where (\<lambda>r. cm_id r = i \<and> cm_live r) (cm_retire a) rows) e = filter (\<lambda>r. cm_id r \<noteq> i) (hist rows e)"
  by (induction rows) (auto simp: hist_def cm_retire_def cm_live_def)

definition reopen_last :: "int option \<Rightarrow> comp_row list \<Rightarrow> comp_row list" where
  "reopen_last by xs = (if xs = [] then [] else butlast xs @ [reopened by (last xs)])"

lemma reopen_last_chained: "chained (xs @ [x]) \<Longrightarrow> chained (reopen_last u xs)"
proof (cases xs rule: rev_cases)
  case (snoc ys p)
  moreover assume "chained (xs @ [x])"
  ultimately have "chained (ys @ [p\<lparr>cm_to := None\<rparr>])" using chained_two[of ys p x] by simp
  moreover have "chained (ys @ [reopened u p]) = chained (ys @ [p\<lparr>cm_to := None\<rparr>])"
    by (rule chained_same_end) (simp_all add: reopened_def)
  ultimately show ?thesis by (simp add: reopen_last_def snoc)
qed (simp add: reopen_last_def)

lemma open_row_is_last:
  assumes "chained (hist (cd_rows db) e)" "r \<in> set (hist (cd_rows db) e)" "cm_to r = None"
  shows "\<exists>xs. hist (cd_rows db) e = xs @ [r]"
proof (cases "hist (cd_rows db) e" rule: rev_cases)
  case (snoc xs x)
  then have "r \<notin> set xs" using assms(1,3) chained_front[of xs x r] by auto
  then show ?thesis using assms(2) snoc by auto
qed (use assms(2) in simp)

text \<open>After the active row is retired, the rest of the chain is its history and its last row is the one found.\<close>

lemma retired_setup:
  assumes "comp_inv db" "timeline_inv db" "findComp db i = Some r" "cm_to r = None"
  shows "\<exists>xs. hist (cd_rows db) (cm_employee r) = xs @ [r] \<and> comp_inv (cm_softDelete now i by' db) \<and>
    (\<forall>e. hist (cd_rows (cm_softDelete now i by' db)) e = (if e = cm_employee r then xs else hist (cd_rows db) e)) \<and>
    findPrevious (cm_softDelete now i by' db) (cm_employee r) (cm_from r) = (if xs = [] then None else Some (last xs))"
proof -
  have rr: "r \<in> set (cd_rows db)" "cm_id r = i" "cm_live r" using findComp_Some[OF assms(3)] by auto
  let ?e = "cm_employee r" let ?db1 = "cm_softDelete now i by' db"
  have ser: "serial_ok cm_id (cd_next db) (cd_rows db)" by (rule comp_inv_serial[OF assms(1)])
  obtain xs where xs: "hist (cd_rows db) ?e = xs @ [r]"
    using open_row_is_last[OF timeline_inv_D(1)[OF assms(2)], of r ?e] rr assms(4) by (auto simp: hist_mem)
  have "\<forall>q \<in> set xs. cm_id q \<noteq> i" using hist_ids[OF ser, of ?e] xs rr(2) by (auto simp: image_iff)
  then have h1: "hist (cd_rows ?db1) e = (if e = ?e then xs else hist (cd_rows db) e)" for e
  proof (cases "e = ?e")
    case False
    then have "\<forall>q \<in> set (hist (cd_rows db) e). cm_id q \<noteq> i"
      using serial_ok_inj[OF ser _ rr(1)] rr(2) by (metis hist_mem)
    then show ?thesis using False by (simp add: cm_softDelete_def retired_hist)
  qed (simp add: cm_softDelete_def retired_hist xs rr(2))
  have "sorted_wrt (\<lambda>r s. cm_from r < cm_from s) (xs @ [r])"
    using chained_from_sorted[OF timeline_inv_D(1)[OF assms(2)], of ?e] xs by simp
  then have "filter (\<lambda>q. cm_from q < cm_from r) xs = xs" "sorted_wrt (\<lambda>r s. cm_from r < cm_from s) xs"
    by (simp_all add: sorted_wrt_append)
  then have "findPrevious ?db1 ?e (cm_from r) = (if xs = [] then None else Some (last xs))"
    unfolding findPrevious_def filter_hist h1 using newest_of_sorted[of xs "\<lambda>q. cm_from q < cm_from r"] by simp
  then show ?thesis using xs h1 cm_softDelete_inv[OF assms(1)] by blast
qed

lemma softDeletePay_Inr:
  assumes "comp_inv db" "timeline_inv db" "softDeletePay env i by' db = (db', Inr ())"
  shows "\<exists>r xs. findComp db i = Some r \<and> hist (cd_rows db) (cm_employee r) = xs @ [r] \<and> comp_inv db' \<and>
    cd_audits db' = cd_audits db @ [deleted_audit r by'] \<and> cd_next db' = cd_next db \<and>
    cd_rows db' = (let rows = update_where (\<lambda>q. cm_id q = i \<and> cm_live q) (cm_retire (ce_now env, by')) (cd_rows db)
      in if xs = [] then rows else update_where (\<lambda>q. cm_id q = cm_id (last xs)) (\<lambda>_. reopened by' (last xs)) rows) \<and>
    (\<forall>e. hist (cd_rows db') e = (if e = cm_employee r then reopen_last by' xs else hist (cd_rows db) e))"
proof -
  obtain r where r: "findComp db i = Some r" "cm_to r = None"
    using assms(3) by (auto simp: softDeletePay_def split: sum.splits if_splits)
  let ?e = "cm_employee r" let ?db1 = "cm_softDelete (ce_now env) i by' db"
  obtain xs where xs: "hist (cd_rows db) ?e = xs @ [r]" and inv1: "comp_inv ?db1"
    and h1: "\<And>e. hist (cd_rows ?db1) e = (if e = ?e then xs else hist (cd_rows db) e)"
    and prev: "findPrevious ?db1 ?e (cm_from r) = (if xs = [] then None else Some (last xs))"
    using retired_setup[OF assms(1,2) r] by metis
  show ?thesis
  proof (cases xs rule: rev_cases)
    case Nil
    then have "db' = record_audit (deleted_audit r by') ?db1"
      using assms(3) r prev by (simp add: softDeletePay_def Let_def)
    then show ?thesis using r xs Nil inv1 h1 by (auto simp: record_audit_def cm_softDelete_def reopen_last_def comp_inv_def)
  next
    case (snoc ys p)
    then obtain d s where u: "cm_update (cm_id p) (end_date_patch Null by') ?db1 = Inr (d, s)"
      "db' = record_audit (deleted_audit r by') d"
      using assms(3) r prev by (auto simp: softDeletePay_def Let_def bindR_eq_Inr split: sum.splits)
    have p: "p \<in> set (hist (cd_rows ?db1) ?e)" using h1[of ?e] snoc by simp
    then have "findComp ?db1 (cm_id p) = Some p" by (rule findComp_hist[OF comp_inv_serial[OF inv1]])
    then have d: "d = ?db1\<lparr>cd_rows := update_where (\<lambda>q. cm_id q = cm_id p) (\<lambda>_. reopened by' p) (cd_rows ?db1)\<rparr>" "comp_inv d"
      using end_date_Inr[OF u(1) inv1] by (auto simp: reopened_def)
    have s: "cm_employee (reopened by' p) = ?e" "cm_live (reopened by' p)"
      using p by (auto simp: reopened_def hist_mem cm_live_def)
    have "hist (cd_rows ?db1) ?e = ys @ [p]" using h1 snoc by simp
    from hist_replace_last[OF comp_inv_serial[OF inv1] this s]
    have "hist (cd_rows d) e = (if e = ?e then ys @ [reopened by' p] else hist (cd_rows db) e)" for e
      using h1[of e] by (simp add: d(1))
    then show ?thesis
      using r xs u(2) d snoc by (auto simp: record_audit_def cm_softDelete_def reopen_last_def comp_inv_def)
  qed
qed

text \<open>Deleting the active row always goes through.\<close>

lemma softDeletePay_succeeds:
  assumes "comp_inv db" "timeline_inv db" "findComp db i = Some r" "cm_to r = None"
  shows "snd (softDeletePay env i by' db) = Inr ()"
proof -
  let ?e = "cm_employee r" let ?db1 = "cm_softDelete (ce_now env) i by' db"
  obtain xs where xs: "hist (cd_rows db) ?e = xs @ [r]" and inv1: "comp_inv ?db1"
    and h1: "\<And>e. hist (cd_rows ?db1) e = (if e = ?e then xs else hist (cd_rows db) e)"
    and prev: "findPrevious ?db1 ?e (cm_from r) = (if xs = [] then None else Some (last xs))"
    using retired_setup[OF assms] by metis
  show ?thesis
  proof (cases xs rule: rev_cases)
    case Nil
    then show ?thesis using assms(3,4) prev by (simp add: softDeletePay_def Let_def)
  next
    case (snoc ys p)
    have p: "p \<in> set (hist (cd_rows ?db1) ?e)" using h1[of ?e] snoc by simp
    then have pf: "findComp ?db1 (cm_id p) = Some p" "p \<in> set (cd_rows ?db1)"
      using findComp_hist[OF comp_inv_serial[OF inv1]] by (auto simp: hist_mem)
    have ok: "row_ok p" using inv1 pf(2) by (simp add: comp_inv_def)
    have closed: "\<forall>q \<in> set (ys @ [p]). cm_to q \<noteq> None"
      using chained_front[of "ys @ [p]" r] timeline_inv_D(1)[OF assms(2), of ?e] xs snoc by auto
    have "\<not> cm_active q" if "q \<in> set (cd_rows ?db1)" "cm_employee q = ?e" for q
      using closed h1[of ?e] snoc that hist_mem[of q "cd_rows ?db1" ?e] by (auto simp: cm_active_def)
    then have "\<not> list_ex (\<lambda>q. cm_id q \<noteq> cm_id p \<and> cm_active q \<and> cm_employee q = cm_employee p) (cd_rows ?db1)"
      using p by (auto simp: list_ex_iff hist_mem)
    moreover have "cm_patched (end_date_patch Null by') p = Inr (reopened by' p)"
      by (cases by') (auto simp: cm_patched_def end_date_patch_def required_def opt_tri_def bindR_def reopened_def)
    moreover have "cm_stored (reopened by' p) = Inr (reopened by' p)" "cm_checks (reopened by' p)"
      using ok by (simp_all add: row_ok_def cm_stored_fix reopened_def cm_checks_def)
    moreover have "cm_id (reopened by' p) = cm_id p" "cm_employee (reopened by' p) = cm_employee p"
      by (simp_all add: reopened_def)
    ultimately have "okR (cm_update (cm_id p) (end_date_patch Null by') ?db1)"
      using pf(1) by (auto simp: cm_update_def cm_save_def bindR_def)
    then show ?thesis
      using assms(3,4) prev snoc by (cases "cm_update (cm_id p) (end_date_patch Null by') ?db1")
        (auto simp: softDeletePay_def Let_def bindR_def)
  qed
qed

lemma softDeletePay_cases: "softDeletePay env i by' db = (db', res) \<Longrightarrow> db' = db \<or> res = Inr ()"
  by (auto simp: softDeletePay_def Let_def split: sum.splits if_splits)

lemma correctPay_Inr:
  assumes "comp_inv db" "correctPay env i p by' db = (db', Inr s)"
  shows "\<exists>r nxt. findComp db i = Some r \<and> correct env r p by' = Inr nxt \<and> comp_inv db' \<and>
    cd_audits db' = cd_audits db @ [updated_audit r s by'] \<and> cd_next db' = cd_next db \<and>
    cd_rows db' = update_where (\<lambda>q. cm_id q = i) (\<lambda>_. s) (cd_rows db) \<and> cm_id s = i \<and>
    cm_employee s = cm_employee r \<and> cm_live s \<and> cm_to s = cm_to r \<and>
    (case ci_from p of Undefined \<Rightarrow> cm_from s = cm_from r | Null \<Rightarrow> False | Val d \<Rightarrow> cm_from s = d)"
proof -
  obtain r nxt d where r: "findComp db i = Some r" "correct env r p by' = Inr nxt" "cm_update i nxt db = Inr (d, s)"
    "db' = record_audit (updated_audit r s by') d"
    using assms(2) by (auto simp: correctPay_def reconstitute_comp_def bindR_eq_Inr bindR_eq_Inl split: sum.splits)
  obtain q where u: "cm_patched nxt r = Inr q" "cm_stored q = Inr s" "cm_id s = i" "cm_employee s = cm_employee r" "cm_live s"
    "cm_to s = tri_apply (pp_to nxt) (cm_to r)" "d = db\<lparr>cd_rows := update_where (\<lambda>q. cm_id q = i) (\<lambda>_. s) (cd_rows db)\<rparr>"
    "comp_inv d"
    using cm_update_Inr[OF r(3) assms(1)] r(1) by auto
  have n: "pp_to nxt = Undefined" "pp_from nxt = ci_from p"
    using r(2) by (auto simp: correct_def Let_def bindR_eq_Inr split: if_splits)
  have "required (ci_from p) (cm_from r) = Inr (cm_from q)"
    using u(1) n(2) by (auto simp: cm_patched_def bindR_eq_Inr)
  then have "case ci_from p of Undefined \<Rightarrow> cm_from s = cm_from r | Null \<Rightarrow> False | Val d \<Rightarrow> cm_from s = d"
    using cm_stored_fields[OF u(2)] by (auto simp: required_def split: tri.splits)
  then show ?thesis using r u n by (auto simp: record_audit_def comp_inv_def)
qed

lemma correctPay_cases: "correctPay env i p by' db = (db', res) \<Longrightarrow> db' = db \<or> (\<exists>s. res = Inr s)"
  by (auto simp: correctPay_def split: sum.splits)

lemma chained_map:
  "(\<And>r. r \<in> set xs \<Longrightarrow> cm_from (f r) = cm_from r \<and> cm_to (f r) = cm_to r) \<Longrightarrow> chained (map f xs) = chained xs"
  by (induction xs rule: chained.induct) auto

lemma setPay_cases:
  assumes "setPay env i db = (db', res)"
  shows "(db' = db \<and> \<not> okR res) \<or> (\<exists>r. res = Inr r \<and> insertWithin env i db = Inr (db', r) \<and> \<not> ce_today env < sp_from i)"
  using assms by (auto simp: setPay_def assertNotFuture_def guardR_def split: sum.splits if_splits)

lemma setPayBulk_cases:
  assumes "setPayBulk env items actor db = (db', res)"
  shows "(db' = db \<and> \<not> okR res) \<or> (\<exists>rs. res = Inr rs \<and> insert_all env actor items db = Inr (db', rs) \<and>
    distinct (map sp_employee items) \<and> (\<forall>i \<in> set items. \<not> ce_today env < sp_from i))"
  using assms
  by (auto simp: setPayBulk_def assertNotFuture_def guardR_def list_ex_iff split: sum.splits if_splits)

section \<open>Reachable tables\<close>

text \<open>One call at a time; \<open>moves\<close> says whether corrections of the start date are among the calls.\<close>

inductive comp_step :: "bool \<Rightarrow> comp_db \<Rightarrow> comp_db \<Rightarrow> bool" for moves where
  set_pay: "valid_date (sp_from i) \<Longrightarrow> comp_step moves db (fst (setPay env i db))"
| bulk: "\<forall>i \<in> set items. valid_date (sp_from i) \<Longrightarrow> comp_step moves db (fst (setPayBulk env items actor db))"
| correction: "\<forall>d. ci_from p = Val d \<longrightarrow> moves \<and> valid_date d \<Longrightarrow> comp_step moves db (fst (correctPay env j p u db))"
| delete: "comp_step moves db (fst (softDeletePay env j u db))"

lemma findActiveComp_mem: "findActiveComp db e = Some p \<Longrightarrow> p \<in> set (cd_rows db)"
  unfolding findActiveComp_def using find_Some_iff_mem by fastforce

lemma insertWithin_timeline:
  assumes "comp_inv db" "timeline_inv db" "insertWithin env i db = Inr (db', r)" "valid_date (sp_from i)"
  shows "comp_inv db' \<and> timeline_inv db'"
proof -
  note ch = timeline_inv_D(1)[OF assms(2)]
  obtain db1 where i: "end_prior i db = Inr db1" "comp_inv db'" "cd_rows db' = cd_rows db1 @ [r]"
    using insertWithin_Inr[OF assms(1) ch assms(3)] by blast
  note h = insertWithin_hist[OF assms(1) ch assms(3)]
  have "chained (hist (cd_rows db') e)" for e
    using ch[of e] h[of e] end_last_chained[OF ch[of "sp_employee i"], of r i] by auto
  moreover have "valid_date (cm_from q)" if q: "q \<in> set (cd_rows db')" for q
  proof (cases "q = r")
    case False
    then have "q \<in> set (cd_rows db1)" using q i(3) by simp
    moreover have "cd_rows db1 = (case findActiveComp db (sp_employee i) of None \<Rightarrow> cd_rows db
        | Some p \<Rightarrow> update_where (\<lambda>q. cm_id q = cm_id p) (\<lambda>_. ended i p) (cd_rows db))"
      using end_prior_Inr[OF assms(1) ch i(1)] by blast
    ultimately show ?thesis
      using timeline_inv_D(2)[OF assms(2)] findActiveComp_mem
      by (cases "findActiveComp db (sp_employee i)") (auto simp: in_set_update_where ended_def)
  qed (use h assms(4) in simp)
  ultimately show ?thesis using i(2) by (simp add: timeline_inv_def)
qed

lemma insert_all_timeline:
  assumes "comp_inv db" "timeline_inv db" "insert_all env actor items db = Inr (db', rs)"
    and "\<forall>i \<in> set items. valid_date (sp_from i)"
  shows "comp_inv db' \<and> timeline_inv db'"
  using assms
proof (induction items arbitrary: db db' rs)
  case (Cons i items)
  obtain db1 r rs' where s: "insertWithin env (i\<lparr>sp_created_by := actor\<rparr>) db = Inr (db1, r)"
    "insert_all env actor items db1 = Inr (db', rs')"
    using Cons.prems(3) by (auto simp: bindR_eq_Inr)
  have "comp_inv db1 \<and> timeline_inv db1" by (rule insertWithin_timeline[OF Cons.prems(1,2) s(1)]) (use Cons.prems(4) in simp)
  then show ?case using Cons.IH[OF _ _ s(2)] Cons.prems(4) by simp
qed simp

lemma softDeletePay_timeline:
  assumes "comp_inv db" "timeline_inv db" "softDeletePay env i u db = (db', Inr ())"
  shows "comp_inv db' \<and> timeline_inv db'"
proof -
  obtain r xs where r: "hist (cd_rows db) (cm_employee r) = xs @ [r]" "comp_inv db'"
    "cd_rows db' = (let rows = update_where (\<lambda>q. cm_id q = i \<and> cm_live q) (cm_retire (ce_now env, u)) (cd_rows db)
      in if xs = [] then rows else update_where (\<lambda>q. cm_id q = cm_id (last xs)) (\<lambda>_. reopened u (last xs)) rows)"
    "\<forall>e. hist (cd_rows db') e = (if e = cm_employee r then reopen_last u xs else hist (cd_rows db) e)"
    using softDeletePay_Inr[OF assms] by blast
  have ch: "chained (hist (cd_rows db) e)" for e using timeline_inv_D(1)[OF assms(2)] .
  have "chained (reopen_last u xs)" using reopen_last_chained[of xs r u] ch[of "cm_employee r"] r(1) by simp
  then have "chained (hist (cd_rows db') e)" for e using r(4) ch by simp
  moreover have "last xs \<in> set (cd_rows db)" if "xs \<noteq> []"
    using that last_in_set[of xs] r(1) hist_mem[of "last xs" "cd_rows db" "cm_employee r"] by auto
  then have "\<forall>q \<in> set (cd_rows db'). valid_date (cm_from q)"
    using timeline_inv_D(2)[OF assms(2)]
    unfolding r(3) Let_def by (auto simp: table_simps reopened_def cm_retire_def)
  ultimately show ?thesis using r(2) by (simp add: timeline_inv_def)
qed

lemma correctPay_timeline:
  assumes "comp_inv db" "timeline_inv db" "correctPay env j p u db = (db', Inr s)" "ci_from p = Undefined"
  shows "comp_inv db' \<and> timeline_inv db' \<and>
    (\<exists>r. findComp db j = Some r \<and> (\<forall>e. hist (cd_rows db') e = map (\<lambda>q. if cm_id q = j then s else q) (hist (cd_rows db) e)))"
proof -
  obtain r where r: "findComp db j = Some r" "comp_inv db'" "cd_rows db' = update_where (\<lambda>q. cm_id q = j) (\<lambda>_. s) (cd_rows db)"
    "cm_employee s = cm_employee r" "cm_live s" "cm_to s = cm_to r" "cm_from s = cm_from r"
    using correctPay_Inr[OF assms(1,3)] assms(4) by auto
  have same: "q = r" if "q \<in> set (cd_rows db)" "cm_id q = j" for q
    using serial_ok_inj[OF comp_inv_serial[OF assms(1)]] that findComp_Some[OF r(1)] by blast
  have h: "hist (cd_rows db') e = map (\<lambda>q. if cm_id q = j then s else q) (hist (cd_rows db) e)" for e
    unfolding r(3) by (rule hist_replace) (use same findComp_Some[OF r(1)] r(4,5) in auto)
  have "chained (map (\<lambda>q. if cm_id q = j then s else q) (hist (cd_rows db) e)) = chained (hist (cd_rows db) e)" for e
    by (rule chained_map) (use same r(6,7) in \<open>auto simp: hist_mem\<close>)
  moreover have "\<forall>q \<in> set (cd_rows db'). valid_date (cm_from q)"
    using timeline_inv_D(2)[OF assms(2)] r(7) findComp_Some[OF r(1)] unfolding r(3) by (auto simp: table_simps)
  ultimately show ?thesis using r(1,2) h timeline_inv_D(1)[OF assms(2)] by (auto simp: timeline_inv_def)
qed

lemma comp_step_timeline: "comp_step False db db' \<Longrightarrow> comp_inv db \<and> timeline_inv db \<Longrightarrow> comp_inv db' \<and> timeline_inv db'"
proof (induction rule: comp_step.induct)
  case (set_pay i db env)
  obtain d res where s: "setPay env i db = (d, res)" by fastforce
  then show ?case using setPay_cases[OF s] insertWithin_timeline[of db env i d] set_pay by auto
next
  case (bulk items db env actor)
  obtain d res where s: "setPayBulk env items actor db = (d, res)" by fastforce
  then show ?case using setPayBulk_cases[OF s] insert_all_timeline[of db env actor items d] bulk by auto
next
  case (correction p db env j u)
  obtain d res where s: "correctPay env j p u db = (d, res)" by fastforce
  have "ci_from p \<noteq> Null" if "res = Inr x" for x using that correctPay_Inr[of db env j p u d x] s correction by (auto split: tri.splits)
  then have "ci_from p = Undefined" if "res = Inr x" for x using that correction(1) by (cases "ci_from p") auto
  then show ?case using correctPay_cases[OF s] correctPay_timeline[of db env j p u d] s correction(2) by auto
next
  case (delete db env j u)
  obtain d res where s: "softDeletePay env j u db = (d, res)" by fastforce
  then show ?case using softDeletePay_cases[OF s] softDeletePay_timeline[of db env j u d] s delete by auto
qed

lemma empty_comp_inv: "comp_inv empty_comp_db \<and> timeline_inv empty_comp_db"
  by (simp add: comp_inv_def timeline_inv_def empty_comp_db_def hist_def)

lemma comp_reachable_timeline:
  assumes "(comp_step False)\<^sup>*\<^sup>* empty_comp_db db"
  shows "comp_inv db \<and> timeline_inv db"
  using assms
proof (induction rule: rtranclp_induct)
  case (step x y)
  then show ?case using comp_step_timeline by blast
qed (rule empty_comp_inv)

end
