(* ===== verification/PayTimeline.thy ===== *)
theory PayTimeline
  imports Compensation
begin

text \<open>
  What the compensation service guarantees: the tables refine a timeline of rates per employee, setting
  pay and deleting it is a round trip, a bulk call is the sequence of its single calls or nothing, and the
  audit ledger replays to the rows.  Corrections of a start date are the exception to the timeline.
\<close>

section \<open>Refinement of a pay timeline\<close>

text \<open>The contract: per employee a list of rates in the order of their start dates; the rate on a date is the
  latest that has started.\<close>

record pay =
  py_id :: int
  py_monthly :: rat
  py_hourly :: rat
  py_overridden :: bool
  py_from :: date

definition pay_of :: "comp_row \<Rightarrow> pay" where
  "pay_of r = \<lparr>py_id = cm_id r, py_monthly = cm_monthly r, py_hourly = cm_hourly r, py_overridden = cm_overridden r,
     py_from = cm_from r\<rparr>"

definition pay_timeline :: "comp_db \<Rightarrow> int \<Rightarrow> pay list" where
  "pay_timeline db e = map pay_of (hist (cd_rows db) e)"

definition pay_on :: "pay list \<Rightarrow> date \<Rightarrow> pay option" where
  "pay_on ts d = (let started = filter (\<lambda>p. py_from p \<le> d) ts in if started = [] then None else Some (last started))"

lemma pay_of_simps [simp]: "py_from (pay_of r) = cm_from r" "py_id (pay_of r) = cm_id r"
  by (simp_all add: pay_of_def)



lemma findRateOnDate_hist:
  assumes "timeline_inv db" "valid_date d"
  shows "findRateOnDate db e d = first_row (filter (covers d) (hist (cd_rows db) e)) \<and>
    filter (covers d) (hist (cd_rows db) e) = (case pay_on (pay_timeline db e) d of None \<Rightarrow> []
      | Some _ \<Rightarrow> [last (filter (\<lambda>r. cm_from r \<le> d) (hist (cd_rows db) e))]) \<and>
    map_option pay_of (findRateOnDate db e d) = pay_on (pay_timeline db e) d"
proof -
  let ?h = "hist (cd_rows db) e" let ?s = "filter (\<lambda>r. cm_from r \<le> d) ?h"
  note ch = timeline_inv_D(1,3)[OF assms(1), of e]
  have cov: "filter (covers d) ?h = (if ?s = [] then [] else [last ?s])"
    using chained_covers[OF ch assms(2)] by (simp add: Let_def)
  have "findRateOnDate db e d = first_row (newest_first (filter (covers d) ?h))"
    by (simp add: findRateOnDate_def filter_hist)
  then have fr: "findRateOnDate db e d = first_row (filter (covers d) ?h)"
    unfolding newest_of_chained[OF ch(1)] by (simp add: cov first_row_def)
  have "filter (\<lambda>p. py_from p \<le> d) (pay_timeline db e) = map pay_of ?s"
    by (simp add: pay_timeline_def filter_map comp_def)
  then have "pay_on (pay_timeline db e) d = (if ?s = [] then None else Some (pay_of (last ?s)))"
    by (simp add: pay_on_def last_map)
  then show ?thesis using cov fr by (auto simp: first_row_def)
qed

lemma find_first_filter: "find p xs = first_row (filter p xs)"
  by (induction xs) (auto simp: first_row_def)

lemma map_of_find: "map_of (map (\<lambda>r. (f r, r)) xs) e = find (\<lambda>r. f r = e) xs"
  by (induction xs) auto

text \<open>C14: The lookups implement the timeline.  While no start date is corrected, on every date the single and
  the batched lookup agree and return the latest rate that has started, the current rate is the last one,
  and the history is the timeline from new to old.\<close>

theorem rates_refine_timeline:
  assumes "(comp_step False)\<^sup>*\<^sup>* empty_comp_db db" "valid_date d"
  shows "map_option pay_of (findRateOnDate db e d) = pay_on (pay_timeline db e) d \<and>
    (e \<in> set ids \<longrightarrow> findRatesOnDate db ids d e = findRateOnDate db e d) \<and>
    map_option pay_of (findActiveComp db e) = (if pay_timeline db e = [] then None else Some (last (pay_timeline db e))) \<and>
    map pay_of (findHistory db e) = rev (pay_timeline db e)"
proof (intro conjI impI)
  have inv: "timeline_inv db" using comp_reachable_timeline[OF assms(1)] by blast
  note ch = timeline_inv_D(1)[OF inv, of e]
  show "map_option pay_of (findRateOnDate db e d) = pay_on (pay_timeline db e) d"
    using findRateOnDate_hist[OF inv assms(2)] by blast
  show "map_option pay_of (findActiveComp db e) = (if pay_timeline db e = [] then None else Some (last (pay_timeline db e)))"
    using findActiveComp_hist[OF ch] by (simp add: pay_timeline_def last_map)
  have "findHistory db e = newest_first (hist (cd_rows db) e)"
    by (simp add: findHistory_def hist_def)
  then show "map pay_of (findHistory db e) = rev (pay_timeline db e)"
    using sorted_newest_first[OF chained_from_sorted[OF ch]] by (simp add: pay_timeline_def rev_map)
  assume e: "e \<in> set ids"
  have "filter (\<lambda>r. cm_employee r = e) (findRateRows db ids d) = filter (covers d) (hist (cd_rows db) e)"
    using e by (auto simp: findRateRows_def hist_def intro!: filter_cong)
  then have "findRatesOnDate db ids d e = first_row (rev (filter (covers d) (hist (cd_rows db) e)))"
    by (simp add: findRatesOnDate_def rev_map map_of_find find_first_filter flip: rev_filter)
  moreover have "rev (filter (covers d) (hist (cd_rows db) e)) = filter (covers d) (hist (cd_rows db) e)"
    using findRateOnDate_hist[OF inv assms(2), of e] by (auto split: option.splits)
  ultimately show "findRatesOnDate db ids d e = findRateOnDate db e d"
    using findRateOnDate_hist[OF inv assms(2), of e] by simp
qed





section \<open>The audit ledger\<close>

text \<open>Reading a trail from old to new: each entry must start from the values the previous one left.\<close>

datatype trail = Fresh | Current "rat \<times> rat \<times> date" | Gone "rat \<times> rat \<times> date" | Broken

definition audit_values :: "rat option \<Rightarrow> rat option \<Rightarrow> date option \<Rightarrow> (rat \<times> rat \<times> date) option" where
  "audit_values m h d = (case (m, h, d) of (Some x, Some y, Some z) \<Rightarrow> Some (x, y, z) | _ \<Rightarrow> None)"

definition replay_one :: "trail \<Rightarrow> comp_audit \<Rightarrow> trail" where
  "replay_one st a =
     (let before = audit_values (ca_before_monthly a) (ca_before_hourly a) (ca_before_from a);
          after = audit_values (ca_after_monthly a) (ca_after_hourly a) (ca_after_from a)
      in case (st, ca_action a, before, after) of
           (Fresh, Audit_created, None, Some v) \<Rightarrow> Current v
         | (Current u, Audit_updated, Some w, Some v) \<Rightarrow> if w = u then Current v else Broken
         | (Current u, Audit_deleted, Some w, None) \<Rightarrow> if w = u then Gone u else Broken
         | _ \<Rightarrow> Broken)"

definition replay :: "comp_audit list \<Rightarrow> trail" where
  "replay as = foldl replay_one Fresh as"

definition values_of :: "comp_row \<Rightarrow> rat \<times> rat \<times> date" where
  "values_of r = (cm_monthly r, cm_hourly r, cm_from r)"

definition aview :: "comp_row \<Rightarrow> int \<times> bool \<times> (rat \<times> rat \<times> date)" where
  "aview r = (cm_id r, cm_live r, values_of r)"

definition audit_ok :: "(int \<times> bool \<times> (rat \<times> rat \<times> date)) list \<Rightarrow> comp_audit list \<Rightarrow> bool" where
  "audit_ok views as \<longleftrightarrow>
     (\<forall>(i, l, v) \<in> set views. replay (filter (\<lambda>a. ca_comp a = i) as) = (if l then Current v else Gone v)) \<and>
     (\<forall>a \<in> set as. ca_comp a \<in> fst ` set views)"

definition audit_inv :: "comp_db \<Rightarrow> bool" where
  "audit_inv db \<longleftrightarrow> audit_ok (map aview (cd_rows db)) (cd_audits db)"

lemma replay_snoc: "replay (as @ [a]) = replay_one (replay as) a"
  by (simp add: replay_def)

lemma audit_ok_created:
  assumes "audit_ok views as" "cm_id r \<notin> fst ` set views"
  shows "audit_ok (views @ [(cm_id r, True, values_of r)]) (as @ [created_audit r u])"
proof -
  have "filter (\<lambda>a. ca_comp a = cm_id r) as = []"
    using assms unfolding audit_ok_def filter_empty_conv by metis
  then have "replay (filter (\<lambda>a. ca_comp a = cm_id r) (as @ [created_audit r u])) = Current (values_of r)"
    by (simp add: replay_def replay_one_def created_audit_def audit_values_def values_of_def)
  moreover have "replay (filter (\<lambda>a. ca_comp a = i) (as @ [created_audit r u])) = (if l then Current v else Gone v)"
    if v: "(i, l, v) \<in> set views" for i l v
  proof -
    have "i \<noteq> cm_id r" using v assms(2) by force
    then have "filter (\<lambda>a. ca_comp a = i) (as @ [created_audit r u]) = filter (\<lambda>a. ca_comp a = i) as"
      by (simp add: created_audit_def)
    then show ?thesis using assms(1) v unfolding audit_ok_def by fastforce
  qed
  ultimately show ?thesis using assms(1) by (auto simp: audit_ok_def created_audit_def)
qed

text \<open>An entry about a live row that starts from its values and ends in the new ones.\<close>

lemma audit_ok_changed:
  assumes "audit_ok views as" "(i, True, w) \<in> set views" "ca_comp a = i"
    and "replay_one (Current w) a = (if l' then Current v' else Gone v')"
  shows "audit_ok (map (\<lambda>x. if fst x = i then (i, l', v') else x) views) (as @ [a])"
proof -
  have "replay (filter (\<lambda>b. ca_comp b = i) as) = Current w" using assms(1,2) unfolding audit_ok_def by fastforce
  then have own: "replay (filter (\<lambda>b. ca_comp b = i) (as @ [a])) = (if l' then Current v' else Gone v')"
    using assms(3,4) by (simp add: replay_snoc)
  have "replay (filter (\<lambda>b. ca_comp b = j) (as @ [a])) = (if l then Current v else Gone v)"
    if v: "(j, l, v) \<in> set views" "j \<noteq> i" for j l v
    using assms(1,3) v unfolding audit_ok_def by fastforce
  moreover have "fst ` set (map (\<lambda>x. if fst x = i then (i, l', v') else x) views) = fst ` set views"
    by (induction views) auto
  ultimately show ?thesis
    using own assms(1-3) unfolding audit_ok_def by (auto split: if_splits intro: rev_image_eqI)
qed

text \<open>What each write leaves of the audited values; the end-date writes leave all of them.\<close>

lemma aview_replace:
  assumes "serial_ok cm_id n rows" "r \<in> set rows" "cm_id s = cm_id r"
  shows "map aview (update_where (\<lambda>q. cm_id q = cm_id r) (\<lambda>_. s) rows) =
    map (\<lambda>x. if fst x = cm_id r then aview s else x) (map aview rows)"
  using assms(3) by (auto simp: update_where_def aview_def)

lemma end_date_views:
  assumes "comp_inv db" "cm_update i (end_date_patch t u) db = Inr (db', s)"
  shows "comp_inv db' \<and> map aview (cd_rows db') = map aview (cd_rows db) \<and> cd_next db' = cd_next db \<and> cd_audits db' = cd_audits db"
proof -
  obtain r where r: "findComp db i = Some r" "s = r\<lparr>cm_to := tri_apply t (cm_to r), cm_updated_by := u\<rparr>"
    "db' = db\<lparr>cd_rows := update_where (\<lambda>q. cm_id q = i) (\<lambda>_. s) (cd_rows db)\<rparr>" "comp_inv db'"
    using end_date_Inr[OF assms(2,1)] by blast
  have "aview s = aview r" by (simp add: r(2) aview_def values_of_def cm_live_def)
  moreover have "q = r" if "q \<in> set (cd_rows db)" "cm_id q = i" for q
    using serial_ok_inj[OF comp_inv_serial[OF assms(1)]] that findComp_Some[OF r(1)] by blast
  ultimately have "map aview (update_where (\<lambda>q. cm_id q = i) (\<lambda>_. s) (cd_rows db)) = map aview (cd_rows db)"
    by (auto simp: update_where_def)
  then show ?thesis using r(3,4) by simp
qed

lemma audit_fresh: "comp_inv db \<Longrightarrow> cd_next db \<notin> fst ` set (map aview (cd_rows db))"
  by (auto simp: comp_inv_def serial_ok_def list_all_iff aview_def)

lemma insertWithin_audit:
  assumes "comp_inv db" "audit_inv db" "insertWithin env i db = Inr (db', r)"
  shows "comp_inv db' \<and> audit_inv db'"
proof -
  obtain rate db1 db2 where s: "end_prior i db = Inr db1" "cm_insert (ce_users env) (cm_new i rate) db1 = Inr (db2, r)"
    "db' = record_audit (created_audit r (sp_created_by i)) db2"
    using assms(3) by (auto simp: insertWithin_def bindR_eq_Inr)
  have p: "comp_inv db1" "map aview (cd_rows db1) = map aview (cd_rows db)" "cd_next db1 = cd_next db" "cd_audits db1 = cd_audits db"
    using s(1) assms(1) end_date_views[OF assms(1)]
    by (auto simp: end_prior_def bindR_eq_Inr split: option.splits if_splits)
  have r: "cm_id r = cd_next db" "db2 = db1\<lparr>cd_rows := cd_rows db1 @ [r], cd_next := cd_next db1 + 1\<rparr>" "comp_inv db2"
    "cm_live r"
    using cm_insert_Inr[OF s(2) p(1)] p(3) new_row_fields by auto
  have "audit_ok (map aview (cd_rows db) @ [(cm_id r, True, values_of r)]) (cd_audits db @ [created_audit r (sp_created_by i)])"
    by (rule audit_ok_created) (use assms(2) audit_fresh[OF assms(1)] r(1) in \<open>simp_all add: audit_inv_def\<close>)
  then show ?thesis
    using s(3) r p by (simp add: audit_inv_def record_audit_def aview_def comp_inv_def)
qed

lemma softDeletePay_audit:
  assumes "comp_inv db" "audit_inv db" "softDeletePay env i u db = (db', Inr ())"
  shows "comp_inv db' \<and> audit_inv db'"
proof -
  let ?db1 = "cm_softDelete (ce_now env) i u db"
  obtain r where r1: "findComp db i = Some r" "cm_to r = None"
    using assms(3) by (auto simp: softDeletePay_def split: sum.splits if_splits)
  have "\<exists>db2. db' = record_audit (deleted_audit r u) db2 \<and>
    (db2 = ?db1 \<or> (\<exists>k s. cm_update k (end_date_patch Null u) ?db1 = Inr (db2, s)))"
  proof (cases "findPrevious ?db1 (cm_employee r) (cm_from r)")
    case None
    then show ?thesis using assms(3) r1 by (auto simp: softDeletePay_def Let_def)
  next
    case (Some p)
    then obtain d s where d: "cm_update (cm_id p) (end_date_patch Null u) ?db1 = Inr (d, s)"
      using assms(3) r1 by (cases "cm_update (cm_id p) (end_date_patch Null u) ?db1")
        (auto simp: softDeletePay_def Let_def bindR_def)
    then have "db' = record_audit (deleted_audit r u) d"
      using assms(3) r1 Some by (simp add: softDeletePay_def Let_def bindR_def)
    then show ?thesis using d by blast
  qed
  then obtain db2 where r: "findComp db i = Some r" "db' = record_audit (deleted_audit r u) db2"
    "db2 = ?db1 \<or> (\<exists>k s. cm_update k (end_date_patch Null u) ?db1 = Inr (db2, s))"
    using r1(1) by blast
  have rr: "r \<in> set (cd_rows db)" "cm_id r = i" "cm_live r" using findComp_Some[OF r(1)] by auto
  have d2: "comp_inv db2" "map aview (cd_rows db2) = map aview (cd_rows ?db1)" "cd_audits db2 = cd_audits db"
  proof -
    have inv1: "comp_inv ?db1" and au: "cd_audits ?db1 = cd_audits db"
      using cm_softDelete_inv[OF assms(1)] by (simp_all add: cm_softDelete_def)
    consider (same) "db2 = ?db1" | (touched) k s where "cm_update k (end_date_patch Null u) ?db1 = Inr (db2, s)"
      using r(3) by blast
    then have "comp_inv db2 \<and> map aview (cd_rows db2) = map aview (cd_rows ?db1) \<and> cd_audits db2 = cd_audits db"
    proof cases
      case touched
      then show ?thesis using end_date_views[OF inv1 touched] au by simp
    qed (use inv1 au in simp)
    then show "comp_inv db2" "map aview (cd_rows db2) = map aview (cd_rows ?db1)" "cd_audits db2 = cd_audits db"
      by simp_all
  qed
  have "aview (if cm_id q = i \<and> cm_live q then cm_retire (ce_now env, u) q else q) =
      (if fst (aview q) = i then (i, False, values_of r) else aview q)" if q: "q \<in> set (cd_rows db)" for q
  proof (cases "cm_id q = i")
    case True
    then have "q = r" using serial_ok_inj[OF comp_inv_serial[OF assms(1)]] q rr by blast
    then show ?thesis using rr by (simp add: aview_def cm_retire_def cm_live_def values_of_def)
  qed (simp add: aview_def)
  then have "map aview (cd_rows ?db1) = map (\<lambda>x. if fst x = i then (i, False, values_of r) else x) (map aview (cd_rows db))"
    by (simp add: cm_softDelete_def update_where_def)
  moreover have "audit_ok (map (\<lambda>x. if fst x = i then (i, False, values_of r) else x) (map aview (cd_rows db)))
      (cd_audits db @ [deleted_audit r u])"
  proof (rule audit_ok_changed)
    show "audit_ok (map aview (cd_rows db)) (cd_audits db)" using assms(2) by (simp add: audit_inv_def)
    show "(i, True, values_of r) \<in> set (map aview (cd_rows db))" using rr by (force simp: aview_def)
    show "ca_comp (deleted_audit r u) = i" using rr by (simp add: deleted_audit_def)
    show "replay_one (Current (values_of r)) (deleted_audit r u) = (if False then Current (values_of r) else Gone (values_of r))"
      by (simp add: replay_one_def deleted_audit_def audit_values_def values_of_def)
  qed
  ultimately show ?thesis using r(2) d2 by (simp add: audit_inv_def record_audit_def comp_inv_def)
qed

lemma correctPay_audit:
  assumes "comp_inv db" "audit_inv db" "correctPay env i p u db = (db', Inr s)"
  shows "comp_inv db' \<and> audit_inv db'"
proof -
  obtain r where r: "findComp db i = Some r" "comp_inv db'" "cd_audits db' = cd_audits db @ [updated_audit r s u]"
    "cd_rows db' = update_where (\<lambda>q. cm_id q = i) (\<lambda>_. s) (cd_rows db)" "cm_id s = i" "cm_live s"
    using correctPay_Inr[OF assms(1,3)] by blast
  have rr: "r \<in> set (cd_rows db)" "cm_id r = i" "cm_live r" using findComp_Some[OF r(1)] by auto
  have "map aview (cd_rows db') = map (\<lambda>x. if fst x = i then (i, True, values_of s) else x) (map aview (cd_rows db))"
    using r(4-6) by (auto simp: update_where_def aview_def)
  moreover have "audit_ok (map (\<lambda>x. if fst x = i then (i, True, values_of s) else x) (map aview (cd_rows db)))
      (cd_audits db @ [updated_audit r s u])"
  proof (rule audit_ok_changed)
    show "audit_ok (map aview (cd_rows db)) (cd_audits db)" using assms(2) by (simp add: audit_inv_def)
    show "(i, True, values_of r) \<in> set (map aview (cd_rows db))" using rr by (force simp: aview_def)
    show "ca_comp (updated_audit r s u) = i" using rr by (simp add: updated_audit_def)
    show "replay_one (Current (values_of r)) (updated_audit r s u) = (if True then Current (values_of s) else Gone (values_of s))"
      by (simp add: replay_one_def updated_audit_def audit_values_def values_of_def)
  qed
  ultimately show ?thesis using r(2,3) by (simp add: audit_inv_def)
qed

lemma insert_all_audit:
  "comp_inv db \<and> audit_inv db \<Longrightarrow> insert_all env actor items db = Inr (db', rs) \<Longrightarrow> comp_inv db' \<and> audit_inv db'"
proof (induction items arbitrary: db db' rs)
  case (Cons i items)
  obtain db1 r rs' where s: "insertWithin env (i\<lparr>sp_created_by := actor\<rparr>) db = Inr (db1, r)"
    "insert_all env actor items db1 = Inr (db', rs')"
    using Cons.prems(2) by (auto simp: bindR_eq_Inr)
  have "comp_inv db1 \<and> audit_inv db1" using insertWithin_audit[OF _ _ s(1)] Cons.prems(1) by blast
  then show ?case by (rule Cons.IH[OF _ s(2)])
qed simp

lemma comp_step_audit: "comp_step m db db' \<Longrightarrow> comp_inv db \<and> audit_inv db \<Longrightarrow> comp_inv db' \<and> audit_inv db'"
proof (induction rule: comp_step.induct)
  case (set_pay i db env)
  obtain d res where s: "setPay env i db = (d, res)" by fastforce
  then show ?case using setPay_cases[OF s] insertWithin_audit[of db env i d] set_pay by auto
next
  case (bulk items db env actor)
  obtain d res where s: "setPayBulk env items actor db = (d, res)" by fastforce
  then show ?case using setPayBulk_cases[OF s] insert_all_audit[of db env actor items d] bulk by auto
next
  case (correction p db env j u)
  obtain d res where s: "correctPay env j p u db = (d, res)" by fastforce
  then show ?case using correctPay_cases[OF s] correctPay_audit[of db env j p u d] s correction(2) by auto
next
  case (delete db env j u)
  obtain d res where s: "softDeletePay env j u db = (d, res)" by fastforce
  then show ?case using softDeletePay_cases[OF s] softDeletePay_audit[of db env j u d] s delete by auto
qed

lemma comp_reachable_audit:
  assumes "(comp_step m)\<^sup>*\<^sup>* empty_comp_db db"
  shows "comp_inv db \<and> audit_inv db"
  using assms
proof (induction rule: rtranclp_induct)
  case (step x y)
  then show ?case using comp_step_audit by blast
qed (simp add: comp_inv_def audit_inv_def audit_ok_def empty_comp_db_def)

text \<open>C16: The trail cannot drift.  In every reachable table, corrections of start dates included, at most one
  live row of an employee is open, and the audit entries of every row replay without a gap to exactly the
  amounts and the start date the row holds, ending in a deletion exactly when the row is deleted.\<close>

theorem audit_trail_replays:
  assumes "(comp_step m)\<^sup>*\<^sup>* empty_comp_db db" "r \<in> set (cd_rows db)"
  shows "replay (filter (\<lambda>a. ca_comp a = cm_id r) (cd_audits db)) =
      (if cm_live r then Current (values_of r) else Gone (values_of r)) \<and>
    (cm_live r \<longrightarrow> findAuditTrail db (cm_id r) = Inr (rev (filter (\<lambda>a. ca_comp a = cm_id r) (cd_audits db)))) \<and>
    (\<forall>q \<in> set (cd_rows db). cm_active q \<longrightarrow> cm_active r \<longrightarrow> cm_employee q = cm_employee r \<longrightarrow> q = r)"
proof -
  have inv: "comp_inv db" "audit_inv db" using comp_reachable_audit[OF assms(1)] by auto
  have "aview r \<in> set (map aview (cd_rows db))" using assms(2) by simp
  then have "replay (filter (\<lambda>a. ca_comp a = cm_id r) (cd_audits db)) =
      (if cm_live r then Current (values_of r) else Gone (values_of r))"
    using inv(2) unfolding audit_inv_def audit_ok_def aview_def by blast
  moreover have "findComp db (cm_id r) = Some r" if "cm_live r"
    using findComp_hist[OF comp_inv_serial[OF inv(1)], of r "cm_employee r"] assms(2) that by (simp add: hist_mem)
  ultimately show ?thesis
    using inv(1) assms(2) unique_active_inj[of cm_active cm_employee "cd_rows db" _ r]
    by (simp add: findAuditTrail_def comp_inv_def)
qed

section \<open>Bulk pay, corrections of the start date, and raw errors\<close>

text \<open>The items one by one, as single calls.\<close>

primrec one_by_one :: "comp_env \<Rightarrow> int option \<Rightarrow> set_pay list \<Rightarrow> comp_db \<Rightarrow> (comp_db \<times> comp_row list) option" where
  "one_by_one env actor [] db = Some (db, [])"
| "one_by_one env actor (i # items) db =
     (case setPay env (i\<lparr>sp_created_by := actor\<rparr>) db of
        (_, Inl _) \<Rightarrow> None
      | (db1, Inr r) \<Rightarrow> map_option (\<lambda>(db2, rs). (db2, r # rs)) (one_by_one env actor items db1))"

lemma setPay_future: "ce_today env < sp_from i \<Longrightarrow> setPay env i db = (db, Inl (unprocessable ''effective_from''))"
  by (simp add: setPay_def assertNotFuture_def guardR_def)

lemma setPay_not_future:
  "\<not> ce_today env < sp_from i \<Longrightarrow> setPay env i db = (case insertWithin env i db of
     Inl er \<Rightarrow> (db, Inl (mapConflict er)) | Inr (db', r) \<Rightarrow> (db', Inr r))"
  by (simp add: setPay_def assertNotFuture_def guardR_def)

lemma one_by_one_future:
  "i \<in> set items \<Longrightarrow> ce_today env < sp_from i \<Longrightarrow> one_by_one env actor items db = None"
proof (induction items arbitrary: db)
  case (Cons j items)
  then show ?case
    by (cases "ce_today env < sp_from j")
      (auto simp: setPay_future setPay_not_future split: sum.splits prod.splits)
qed simp

lemma one_by_one_insert_all:
  "\<forall>i \<in> set items. \<not> ce_today env < sp_from i \<Longrightarrow>
   one_by_one env actor items db = (case insert_all env actor items db of Inl _ \<Rightarrow> None | Inr x \<Rightarrow> Some x)"
proof (induction items arbitrary: db)
  case (Cons i items)
  then have "setPay env (i\<lparr>sp_created_by := actor\<rparr>) db = (case insertWithin env (i\<lparr>sp_created_by := actor\<rparr>) db of
     Inl er \<Rightarrow> (db, Inl (mapConflict er)) | Inr (db', r) \<Rightarrow> (db', Inr r))"
    by (simp add: setPay_not_future)
  then show ?case using Cons by (auto simp: bindR_def split: sum.splits prod.splits)
qed simp

text \<open>A bulk call is all or nothing, and no different from single calls: for distinct employees it succeeds
  exactly when every single call in turn would, with the same tables and the same rows; otherwise, and
  always when an employee appears twice, no row and no audit entry is written.\<close>

theorem bulk_is_all_or_nothing:
  assumes "setPayBulk env items actor db = (db', res)"
  shows "if distinct (map sp_employee items)
    then (case one_by_one env actor items db of
        None \<Rightarrow> db' = db \<and> \<not> okR res
      | Some (db2, rs) \<Rightarrow> db' = db2 \<and> res = Inr rs)
    else db' = db \<and> res = Inl (unprocessable ''employee_id'')"
proof (cases "\<exists>i \<in> set items. ce_today env < sp_from i")
  case True
  then have "one_by_one env actor items db = None" using one_by_one_future by blast
  moreover have "list_ex (\<lambda>i. \<not> okR (assertNotFuture (sp_from i) (ce_today env))) items"
    using True by (auto simp: list_ex_iff assertNotFuture_def guardR_def)
  ultimately show ?thesis using assms by (auto simp: setPayBulk_def)
next
  case False
  then have "\<not> list_ex (\<lambda>i. \<not> okR (assertNotFuture (sp_from i) (ce_today env))) items"
    by (auto simp: list_ex_iff assertNotFuture_def guardR_def)
  then show ?thesis
    using assms one_by_one_insert_all[of items env actor db] False
    by (auto simp: setPayBulk_def split: sum.splits prod.splits)
qed

text \<open>A correction of the start date of the current rate moves that row only.  Moved back, the row overlaps
  its predecessor, and the batched lookup finds two rates for one employee and day; moved forward, the
  days in between have no rate at all.\<close>

theorem start_correction_breaks_timeline:
  assumes "(comp_step False)\<^sup>*\<^sup>* empty_comp_db db" "findActiveComp db e = Some x"
    and "correctPay env (cm_id x) c u db = (db', Inr s)" "ci_from c = Val d" "valid_date d"
  shows "(d < cm_from x \<and> findPrevious db e (cm_from x) = Some p \<longrightarrow>
      findRateRows db' [e] (dayBefore (cm_from x)) = [p, s] \<and> p \<noteq> s) \<and>
    (cm_from x < d \<longrightarrow> findRateOnDate db' e (cm_from x) = None)"
proof -
  have inv: "comp_inv db" "timeline_inv db" using comp_reachable_timeline[OF assms(1)] by auto
  note ch = timeline_inv_D(1,3)[OF inv(2), of e]
  obtain xs where xs: "hist (cd_rows db) e = xs @ [x]"
    using findActiveComp_hist[OF ch(1)] assms(2) by (cases "hist (cd_rows db) e" rule: rev_cases) auto
  have xm: "x \<in> set (hist (cd_rows db) e)" "cm_employee x = e" using xs hist_mem[of x "cd_rows db" e] by auto
  have x: "findComp db (cm_id x) = Some x" by (rule findComp_hist[OF comp_inv_serial[OF inv(1)] xm(1)])
  have s: "cd_rows db' = update_where (\<lambda>q. cm_id q = cm_id x) (\<lambda>_. s) (cd_rows db)" "cm_employee s = e" "cm_live s"
    "cm_to s = None" "cm_from s = d" "cm_id s = cm_id x"
    using correctPay_Inr[OF inv(1) assms(3)] x xm(2) assms(4) chained_last[of xs x] ch(1) xs by auto
  have h: "hist (cd_rows db') e = xs @ [s]"
    using hist_replace_last[OF comp_inv_serial[OF inv(1)] xs s(2,3)] by (simp add: s(1))
  have rows: "findRateRows db' [e] t = filter (covers t) (hist (cd_rows db') e)" for t
    by (simp add: findRateRows_def hist_def conj_ac)
  have vx: "valid_date (cm_from x)" using ch(2) xm(1) by blast
  have cov: "filter (covers t) (xs @ [x]) =
      (let st = filter (\<lambda>r. cm_from r \<le> t) (xs @ [x]) in if st = [] then [] else [last st])" if "valid_date t" for t
    using chained_covers[OF ch that] xs by simp
  have srt: "\<forall>q \<in> set xs. cm_from q < cm_from x"
    using chained_from_sorted[OF ch(1)] xs by (simp add: sorted_wrt_append)
  have "findRateRows db' [e] (dayBefore (cm_from x)) = [p, s] \<and> p \<noteq> s"
    if earlier: "d < cm_from x" and prev: "findPrevious db e (cm_from x) = Some p"
  proof -
    let ?t = "dayBefore (cm_from x)"
    have st: "\<forall>q \<in> set xs. cm_from q \<le> ?t" "d \<le> ?t" "\<not> cm_from x \<le> ?t"
      using srt ch(2) xs vx earlier assms(5) less_iff_le_dayBefore[OF _ vx] by auto
    have "filter (\<lambda>q. cm_from q < cm_from x) (xs @ [x]) = xs" using srt by simp
    then have p: "xs \<noteq> []" "p = last xs"
      using prev newest_of_chained[OF ch(1), of "\<lambda>q. cm_from q < cm_from x"]
      by (auto simp: findPrevious_def filter_hist xs split: if_splits)
    have "filter (\<lambda>r. cm_from r \<le> ?t) (xs @ [x]) = xs" using st by simp
    then have "filter (covers ?t) (xs @ [x]) = [p]" using cov[of ?t] p by simp
    moreover have "\<not> covers ?t x" "covers ?t s" using st s(4,5) by (simp_all add: covers_def)
    moreover have "p \<in> set xs" using p by simp
    then have "cm_id p \<noteq> cm_id x"
      using hist_ids[OF comp_inv_serial[OF inv(1)], of e] xs by (auto simp: image_iff)
    then have "p \<noteq> s" using s(6) by auto
    ultimately show ?thesis using rows h by simp
  qed
  moreover have "findRateOnDate db' e (cm_from x) = None" if fwd: "cm_from x < d"
  proof -
    have "filter (\<lambda>r. cm_from r \<le> cm_from x) (xs @ [x]) = xs @ [x]" using srt by (auto simp: less_imp_le)
    then have "filter (covers (cm_from x)) (xs @ [x]) = [x]" using cov[OF vx] by simp
    moreover have "covers (cm_from x) x" "\<not> covers (cm_from x) s"
      using fwd s(4,5) chained_last[of xs x] ch(1) xs by (auto simp: covers_def)
    ultimately have "filter (covers (cm_from x)) (xs @ [s]) = []" by simp
    then show ?thesis unfolding findRateOnDate_def filter_hist h by (simp add: newest_first_def first_row_def)
  qed
  ultimately show ?thesis by blast
qed

text \<open>Three inputs that pass validation end in a raw database error without a change: a salary or a
  start date of \<open>null\<close> in a correction, a correction that moves the start of an ended row behind its end,
  and pay for an employee who does not exist.\<close>

theorem pay_errors_unmapped:
  assumes "(comp_step m)\<^sup>*\<^sup>* empty_comp_db db" "findComp db j = Some r" "ci_hourly c = Undefined"
  shows "(ci_monthly c = Null \<and> ci_from c = Undefined \<or> ci_monthly c = Undefined \<and> ci_from c = Null \<longrightarrow>
      0 < ce_divisor env \<longrightarrow> correctPay env j c u db = (db, Inl NotNullViolation)) \<and>
    (ci_monthly c = Undefined \<and> ci_from c = Val d \<and> \<not> ce_today env < d \<and> cm_to r = Some t \<and> t < d \<longrightarrow>
      correctPay env j c u db = (db, Inl CheckViolation)) \<and>
    (\<not> ce_users env (sp_employee i) \<and> hist (cd_rows db) (sp_employee i) = [] \<and> sp_hourly i = Some 0 \<and>
       sp_monthly i = 0 \<and> \<not> ce_today env < sp_from i \<longrightarrow> setPay env i db = (db, Inl ForeignKeyViolation))"
proof -
  have inv: "comp_inv db" using comp_reachable_audit[OF assms(1)] by blast
  have ok: "row_ok r" using inv findComp_Some[OF assms(2)] by (simp add: comp_inv_def)
  then have pos: "0 \<le> cm_monthly r" "0 \<le> cm_hourly r" by (auto simp: row_ok_def cm_checks_def)
  then have rec: "reconstitute_comp r = Inr r" by (simp add: reconstitute_comp_def mkPayRate_def bindR_def)
  have der: "0 \<le> deriveHourlyRate (ce_divisor env) (cm_monthly r)" if "0 < ce_divisor env"
    using that pos(1) by (simp add: deriveHourlyRate_def Let_def math_round_def)
  have 1: "correctPay env j c u db = (db, Inl NotNullViolation)"
    if "ci_monthly c = Null \<and> ci_from c = Undefined \<or> ci_monthly c = Undefined \<and> ci_from c = Null" "0 < ce_divisor env"
    using that(1) der[OF that(2)] assms(2,3) rec pos
    by (elim disjE conjE) (simp_all add: correctPay_def correct_def fromInput_def mkPayRate_def tri_value_def cm_update_def
        cm_patched_def required_def bindR_def Let_def)
  have 2: "correctPay env j c u db = (db, Inl CheckViolation)"
    if "ci_monthly c = Undefined" "ci_from c = Val d" "\<not> ce_today env < d" "cm_to r = Some t" "t < d"
  proof -
    let ?n = "\<lparr>pp_monthly = Undefined, pp_hourly = None, pp_overridden = None, pp_from = Val d, pp_to = Undefined,
      pp_updated_by = opt_tri u\<rparr>"
    let ?q = "r\<lparr>cm_from := d, cm_updated_by := u\<rparr>"
    have "correct env r c u = Inr ?n"
      using that(1-3) assms(3) by (simp add: correct_def assertNotFuture_def Let_def bindR_def)
    moreover have "cm_patched ?n r = Inr ?q"
      by (cases u) (simp_all add: cm_patched_def required_def opt_tri_def bindR_def)
    moreover have "cm_stored ?q = Inr ?q" "\<not> cm_checks ?q"
      using ok that(4,5) by (simp_all add: row_ok_def cm_stored_fix cm_checks_def not_le)
    ultimately show ?thesis
      using assms(2) rec by (simp add: correctPay_def cm_update_def cm_save_def bindR_def)
  qed
  have 3: "setPay env i db = (db, Inl ForeignKeyViolation)"
    if "\<not> ce_users env (sp_employee i)" "hist (cd_rows db) (sp_employee i) = []" "sp_hourly i = Some 0" "sp_monthly i = 0"
      "\<not> ce_today env < sp_from i"
  proof -
    have none: "\<forall>q \<in> set (cd_rows db). \<not> (cm_employee q = sp_employee i \<and> cm_live q)"
      using that(2) by (auto simp: hist_def filter_empty_conv)
    then have "findActiveComp db (sp_employee i) = None" by (auto simp: findActiveComp_def find_None_conv)
    moreover have "\<not> list_ex (\<lambda>q. cm_active q \<and> cm_employee q = sp_employee i) (cd_rows db)"
      using none by (auto simp: list_ex_iff cm_active_def)
    moreover have "pg_numeric s 0 = Inr 0" for s by (simp add: pg_numeric_def floor_eq_iff)
    moreover have "\<lfloor>1 / 2 :: rat\<rfloor> = 0" by (simp add: floor_eq_iff)
    ultimately have "insertWithin env i db = Inl ForeignKeyViolation"
      using that(1,3,4)
      by (simp add: insertWithin_def fromInput_def mkPayRate_def bindR_def end_prior_def cm_insert_def cm_new_def cm_stored_def
          cm_checks_def cm_active_def)
    then show ?thesis using that(5) by (simp add: setPay_not_future mapConflict_def isUniqueViolation_def)
  qed
  show ?thesis using 1 2 3 by blast
qed

section \<open>A sample history\<close>

text \<open>Employee 5 is hired at 20000 and raised to 30000 from the first of June.\<close>

definition sample_pay_env :: comp_env where
  "sample_pay_env = \<lparr>ce_now = 0, ce_today = Date 2026 7 1, ce_divisor = 20867 / 100, ce_users = (\<lambda>e. e = 5 \<or> e = 6)\<rparr>"

definition sample_pay :: "int \<Rightarrow> rat \<Rightarrow> date \<Rightarrow> set_pay" where
  "sample_pay e m d = \<lparr>sp_employee = e, sp_monthly = m, sp_hourly = None, sp_from = d, sp_created_by = Some 1\<rparr>"

definition pay_db1 :: comp_db where
  "pay_db1 = fst (setPay sample_pay_env (sample_pay 5 20000 (Date 2026 1 1)) empty_comp_db)"

definition pay_db2 :: comp_db where
  "pay_db2 = fst (setPay sample_pay_env (sample_pay 5 30000 (Date 2026 6 1)) pay_db1)"

definition move_start :: "date \<Rightarrow> correction_input" where
  "move_start d = \<lparr>ci_monthly = Undefined, ci_hourly = Undefined, ci_from = Val d\<rparr>"

lemma sample_dates: "valid_date (Date 2026 1 1)" "valid_date (Date 2026 6 1)" "valid_date (Date 2026 3 1)"
  "valid_date (Date 2026 5 1)"
  by code_simp+

lemma pay_db1_reachable: "(comp_step False)\<^sup>*\<^sup>* empty_comp_db pay_db1"
  unfolding pay_db1_def
  by (rule r_into_rtranclp, rule comp_step.set_pay) (simp add: sample_pay_def sample_dates)

lemma pay_db2_reachable: "(comp_step False)\<^sup>*\<^sup>* empty_comp_db pay_db2"
  unfolding pay_db2_def
  by (rule rtranclp.rtrancl_into_rtrancl[OF pay_db1_reachable comp_step.set_pay]) (simp add: sample_pay_def sample_dates)

lemma pay_db2_rows:
  obtains p x where "cd_rows pay_db2 = [p, x]" "cm_id p = 1" "cm_id x = 2" "cm_live p" "cm_live x" "cm_from x = Date 2026 6 1"
    "cm_to p = Some (Date 2026 5 31)" "findActiveComp pay_db2 5 = Some x" "findPrevious pay_db2 5 (cm_from x) = Some p"
proof -
  have rows: "map (\<lambda>r. (cm_id r, cm_employee r, cm_from r, cm_to r, cm_deleted_at r)) (cd_rows pay_db2) =
      [(1, 5, Date 2026 1 1, Some (Date 2026 5 31), None), (2, 5, Date 2026 6 1, None, None)]"
    by code_simp
  then obtain p x where r: "cd_rows pay_db2 = [p, x]" by (auto simp: map_eq_Cons_conv)
  then have f: "cm_id p = 1" "cm_id x = 2" "cm_employee p = 5" "cm_employee x = 5" "cm_live p" "cm_live x"
    "cm_from p = Date 2026 1 1" "cm_from x = Date 2026 6 1" "cm_to p = Some (Date 2026 5 31)" "cm_to x = None"
    using rows by (simp_all add: cm_live_def)
  have "findActiveComp pay_db2 5 = Some x" using f by (simp add: findActiveComp_def r)
  moreover have "findPrevious pay_db2 5 (cm_from x) = Some p"
    using f by (simp add: findPrevious_def r newest_first_def first_row_def less_date_def)
  ultimately show thesis using that r f by blast
qed

theorem rates_refine_timeline_witness:
  "pay_on (pay_timeline pay_db2 5) (Date 2026 3 1) \<noteq> None \<and>
   findRatesOnDate pay_db2 [5] (Date 2026 3 1) 5 = findRateOnDate pay_db2 5 (Date 2026 3 1)"
proof
  have "\<not> Option.is_none (pay_on (pay_timeline pay_db2 5) (Date 2026 3 1))" by code_simp
  then show "pay_on (pay_timeline pay_db2 5) (Date 2026 3 1) \<noteq> None" by (simp add: Option.is_none_def)
  show "findRatesOnDate pay_db2 [5] (Date 2026 3 1) 5 = findRateOnDate pay_db2 5 (Date 2026 3 1)"
    using rates_refine_timeline[OF pay_db2_reachable sample_dates(3), of 5 "[5]"] by simp
qed



theorem audit_trail_replays_witness:
  "\<exists>r. cd_rows pay_db1 = [r] \<and> replay (filter (\<lambda>a. ca_comp a = 1) (cd_audits pay_db1)) = Current (values_of r)"
proof -
  have rows: "map (\<lambda>r. (cm_id r, cm_deleted_at r)) (cd_rows pay_db1) = [(1, None)]" by code_simp
  then obtain r where r: "cd_rows pay_db1 = [r]" "cm_id r = 1" "cm_live r" by (auto simp: cm_live_def)
  then show ?thesis using audit_trail_replays[OF pay_db1_reachable, of r] by simp
qed

theorem bulk_is_all_or_nothing_witness:
  "fst (setPayBulk sample_pay_env [sample_pay 5 1 (Date 2026 1 1), sample_pay 7 1 (Date 2026 1 1)] None empty_comp_db) = empty_comp_db"
proof -
  let ?items = "[sample_pay 5 1 (Date 2026 1 1), sample_pay 7 1 (Date 2026 1 1)]"
  have "Option.is_none (one_by_one sample_pay_env None ?items empty_comp_db)" by code_simp
  then have "one_by_one sample_pay_env None ?items empty_comp_db = None" by (simp add: Option.is_none_def)
  moreover have "distinct (map sp_employee ?items)" by (simp add: sample_pay_def)
  ultimately show ?thesis
    using bulk_is_all_or_nothing[OF prod.collapse[symmetric], where env = sample_pay_env and items = ?items and actor = None and db = empty_comp_db] by simp
qed

theorem start_correction_breaks_timeline_witness:
  "\<exists>p s. findRateRows (fst (correctPay sample_pay_env 2 (move_start (Date 2026 5 1)) None pay_db2)) [5] (Date 2026 5 31) = [p, s] \<and> p \<noteq> s"
proof -
  let ?c = "correctPay sample_pay_env 2 (move_start (Date 2026 5 1)) None pay_db2"
  have "okR (snd ?c)" by code_simp
  then obtain s where s: "snd ?c = Inr s" by (cases "snd ?c") auto
  obtain p x where x: "cm_id x = 2" "cm_from x = Date 2026 6 1" "findActiveComp pay_db2 5 = Some x"
    "findPrevious pay_db2 5 (cm_from x) = Some p"
    by (rule pay_db2_rows)
  have run: "correctPay sample_pay_env (cm_id x) (move_start (Date 2026 5 1)) None pay_db2 = (fst ?c, Inr s)"
    using s x(1) by (simp add: prod_eq_iff)
  have "dayBefore (Date 2026 6 1) = Date 2026 5 31" by code_simp
  moreover have "Date 2026 5 1 < cm_from x" using x(2) by (simp add: less_date_def)
  ultimately show ?thesis
    using start_correction_breaks_timeline[OF pay_db2_reachable x(3) run _ sample_dates(4), of p] x(2,4)
    by (auto simp: move_start_def)
qed

theorem pay_errors_unmapped_witness:
  "snd (correctPay sample_pay_env 1 (move_start (Date 2026 6 1)) None pay_db2) = Inl CheckViolation"
proof -
  obtain p x where p: "cd_rows pay_db2 = [p, x]" "cm_id p = 1" "cm_live p" "cm_to p = Some (Date 2026 5 31)"
    by (rule pay_db2_rows)
  have find: "findComp pay_db2 1 = Some p" using p by (simp add: findComp_def)
  have "Date 2026 5 31 < Date 2026 6 1" "\<not> ce_today sample_pay_env < Date 2026 6 1"
    by (simp_all add: less_date_def sample_pay_env_def)
  then show ?thesis
    using pay_errors_unmapped[OF pay_db2_reachable find, of "move_start (Date 2026 6 1)" sample_pay_env None "Date 2026 6 1" "Date 2026 5 31"] p(4)
    by (simp add: move_start_def)
qed

end
