(* ===== verification/SeedLoop.thy ===== *)
theory SeedLoop
  imports Prelude
begin

text \<open>
  The loop every seeder of \<open>src/src/database/seeds\<close> runs: look a row up by its natural key, skip it when it
  is there, insert it otherwise, each insert on its own, the first error ending the run.  The locale
  \<open>seed_table\<close> states what a seeder's lookup and insert must promise for the run to keep the contract of its
  table and to be repeatable, its extension \<open>repeatable_seed\<close> what it takes to say when the run succeeds; the seeders
  interpret them.
\<close>

fun seed_loop ::
  "('k \<Rightarrow> 's \<Rightarrow> bool) \<Rightarrow> ('k \<Rightarrow> 's \<Rightarrow> http_error + 's) \<Rightarrow> 'k list \<Rightarrow> nat \<times> nat \<Rightarrow> 's
     \<Rightarrow> 's \<times> (http_error + nat \<times> nat)" where
  "seed_loop present ins [] (n, m) s = (s, Inr (n, m))"
| "seed_loop present ins (k # ks) (n, m) s =
     (if present k s then seed_loop present ins ks (n, m + 1) s
      else (case ins k s of
              Inl er \<Rightarrow> (s, Inl er)
            | Inr s' \<Rightarrow> seed_loop present ins ks (n + 1, m) s'))"

lemma okR_ex: "okR r \<longleftrightarrow> (\<exists>x. r = Inr x)"
  by (cases r) simp_all

lemma loop_preserves:
  assumes "P s" "\<forall>k \<in> set ks. \<forall>t t'. P t \<longrightarrow> \<not> present k t \<longrightarrow> ins k t = Inr t' \<longrightarrow> P t'"
  shows "P (fst (seed_loop present ins ks c s))"
  using assms
proof (induction ks arbitrary: c s)
  case Nil
  then show ?case by (cases c) simp
next
  case (Cons k ks)
  obtain n m where c: "c = (n, m)" by (cases c)
  have IH: "P (fst (seed_loop present ins ks c t))" if "P t" for t c
    by (rule Cons.IH[OF that]; rule ballI; rule bspec[OF Cons.prems(2)]; simp)
  show ?case
  proof (cases "ins k s")
    case (Inl er)
    then show ?thesis using IH[OF Cons.prems(1)] Cons.prems(1) c by simp
  next
    case (Inr t)
    then have "\<not> present k s \<Longrightarrow> P t" using Cons.prems(1) bspec[OF Cons.prems(2), of k] by simp
    then show ?thesis using IH Cons.prems(1) Inr c by simp
  qed
qed

text \<open>Where no insert of a missing key fails, the run does not either.\<close>

lemma loop_total:
  assumes "P s" "\<forall>k \<in> set ks. \<forall>t t'. P t \<longrightarrow> \<not> present k t \<longrightarrow> ins k t = Inr t' \<longrightarrow> P t'"
    and "\<forall>k \<in> set ks. \<forall>t. P t \<longrightarrow> \<not> present k t \<longrightarrow> okR (ins k t)"
  shows "\<exists>s' n m. seed_loop present ins ks c s = (s', Inr (n, m))"
  using assms
proof (induction ks arbitrary: c s)
  case Nil
  then show ?case by (cases c) simp
next
  case (Cons k ks)
  obtain n m where c: "c = (n, m)" by (cases c)
  have IH: "\<exists>s' n m. seed_loop present ins ks c t = (s', Inr (n, m))" if "P t" for t c
    by (rule Cons.IH[OF that]; rule ballI; (rule bspec[OF Cons.prems(2)] | rule bspec[OF Cons.prems(3)]); simp)
  show ?case
  proof (cases "present k s")
    case True
    then show ?thesis using IH[OF Cons.prems(1), of "(n, m + 1)"] c by simp
  next
    case False
    then obtain t where t: "ins k s = Inr t" using Cons.prems(1) bspec[OF Cons.prems(3), of k] by (auto simp: okR_ex)
    then have "P t" using Cons.prems(1) bspec[OF Cons.prems(2), of k] False by simp
    then show ?thesis using IH[of t "(n + 1, m)"] t False c by simp
  qed
qed

lemma seed_loop_append:
  "seed_loop present ins (xs @ ys) c s =
     (case seed_loop present ins xs c s of
        (s', Inl er) \<Rightarrow> (s', Inl er)
      | (s', Inr c') \<Rightarrow> seed_loop present ins ys c' s')"
proof (induction xs arbitrary: c s)
  case Nil
  then show ?case by (cases c) simp
next
  case (Cons x xs)
  then show ?case by (cases c) (auto split: sum.splits)
qed

locale seed_table =
  fixes present :: "'k \<Rightarrow> 's \<Rightarrow> bool"
    and ins :: "'k \<Rightarrow> 's \<Rightarrow> http_error + 's"
    and inv :: "'s \<Rightarrow> bool"
  assumes insert_inv: "ins k s = Inr s' \<Longrightarrow> inv s \<Longrightarrow> inv s'"
    and insert_present: "ins k s = Inr s' \<Longrightarrow> inv s \<Longrightarrow> present k s'"
    and insert_keeps: "ins k s = Inr s' \<Longrightarrow> inv s \<Longrightarrow> present j s \<Longrightarrow> present j s'"
begin

lemma loop_inv: "inv s \<Longrightarrow> inv (fst (seed_loop present ins ks c s))"
  by (rule loop_preserves[where P = inv]) (auto intro: insert_inv)

lemma loop_result:
  assumes "inv s" "seed_loop present ins ks (n, m) s = (s', Inr (n', m'))"
  shows "n' + m' = n + m + length ks \<and> (\<forall>k \<in> set ks. present k s') \<and> (\<forall>k. present k s \<longrightarrow> present k s')"
  using assms
proof (induction ks arbitrary: n m s)
  case (Cons k ks)
  show ?case
  proof (cases "present k s")
    case True
    then show ?thesis using Cons.IH[OF Cons.prems(1)] Cons.prems(2) by fastforce
  next
    case False
    then obtain t where t: "ins k s = Inr t" "seed_loop present ins ks (n + 1, m) t = (s', Inr (n', m'))"
      using Cons.prems(2) by (auto split: sum.splits)
    then show ?thesis
      using Cons.IH[OF insert_inv[OF t(1) Cons.prems(1)] t(2)] insert_present[OF t(1) Cons.prems(1)]
        insert_keeps[OF t(1) Cons.prems(1)] by auto
  qed
qed simp

lemma loop_skip:
  "\<forall>k \<in> set ks. present k s \<Longrightarrow> seed_loop present ins ks (n, m) s = (s, Inr (n, m + length ks))"
  by (induction ks arbitrary: m) simp_all

text \<open>A run after a run that succeeded does nothing.\<close>

lemma loop_repeat:
  assumes "inv s" "seed_loop present ins ks (0, 0) s = (s', Inr (n, m))"
  shows "seed_loop present ins ks (0, 0) s' = (s', Inr (0, n + m))"
  using loop_skip[of ks s' 0 0] loop_result[OF assms] by simp

end

locale repeatable_seed = seed_table present ins inv
  for present :: "'k \<Rightarrow> 's \<Rightarrow> bool" and ins :: "'k \<Rightarrow> 's \<Rightarrow> http_error + 's" and inv :: "'s \<Rightarrow> bool" +
  fixes free :: "'k \<Rightarrow> 's \<Rightarrow> bool"
  assumes insert_ok: "inv s \<Longrightarrow> \<not> present k s \<Longrightarrow> okR (ins k s) \<longleftrightarrow> free k s"
    and present_free: "inv s \<Longrightarrow> present k s \<Longrightarrow> free k s"
    and insert_free: "ins k s = Inr s' \<Longrightarrow> inv s \<Longrightarrow> \<not> present k s \<Longrightarrow> free j s' \<longleftrightarrow> free j s"
begin

lemma loop_ok_iff:
  assumes "inv s"
  shows "okR (snd (seed_loop present ins ks c s)) \<longleftrightarrow> (\<forall>k \<in> set ks. free k s)"
  using assms
proof (induction ks arbitrary: c s)
  case Nil
  then show ?case by (cases c) simp
next
  case (Cons k ks)
  obtain n m where c: "c = (n, m)" by (cases c)
  show ?case
  proof (cases "present k s")
    case True
    then show ?thesis using Cons c present_free by simp
  next
    case False
    note ok = insert_ok[OF Cons.prems False]
    show ?thesis
    proof (cases "ins k s")
      case (Inl er)
      then show ?thesis using ok False c by simp
    next
      case (Inr t)
      then show ?thesis
        using ok False c Cons.IH[OF insert_inv[OF Inr Cons.prems]] insert_free[OF Inr Cons.prems False] by simp
    qed
  qed
qed

lemma loop_succeeds:
  assumes "inv s" "\<forall>k \<in> set ks. free k s"
  shows "\<exists>s' n m. seed_loop present ins ks (0, 0) s = (s', Inr (n, m)) \<and> inv s' \<and>
    (\<forall>k \<in> set ks. present k s') \<and> n + m = length ks"
proof -
  have "okR (snd (seed_loop present ins ks (0, 0) s))" using loop_ok_iff[OF assms(1)] assms(2) by simp
  then obtain s' n m where r: "seed_loop present ins ks (0, 0) s = (s', Inr (n, m))"
    by (cases "seed_loop present ins ks (0, 0) s"; cases "snd (seed_loop present ins ks (0, 0) s)") auto
  show ?thesis
    using loop_inv[OF assms(1), of ks "(0, 0)"] loop_result[OF assms(1) r] r by simp
qed

end

end
