(* ===== verification/ManifestMerge.thy ===== *)
theory ManifestMerge
  imports Prelude
begin

text \<open>
  Bringing a table in line with a manifest: the seeders of permissions and of roles look every entry of a JSON
  file up by its key, overwrite the fields of the row they find and insert a row where they find none.  What such a
  run amounts to is one definition, \<open>merge_rows\<close>: the rows of the manifest's keys are overwritten in place, the
  missing keys appended under the next ids.  The locale states what overwriting and creating a row must promise.
\<close>

definition overlay :: "('m \<Rightarrow> 'k) \<Rightarrow> ('r \<Rightarrow> 'k) \<Rightarrow> ('m \<Rightarrow> 'r \<Rightarrow> 'r) \<Rightarrow> 'm list \<Rightarrow> 'r \<Rightarrow> 'r" where
  "overlay mkey rkey put ms r = (case find (\<lambda>m. mkey m = rkey r) ms of None \<Rightarrow> r | Some m \<Rightarrow> put m r)"

fun numbered :: "(int \<Rightarrow> 'm \<Rightarrow> 'r) \<Rightarrow> int \<Rightarrow> 'm list \<Rightarrow> 'r list" where
  "numbered new i [] = []"
| "numbered new i (m # ms) = new i m # numbered new (i + 1) ms"

definition missing_from :: "('m \<Rightarrow> 'k) \<Rightarrow> ('r \<Rightarrow> 'k) \<Rightarrow> 'm list \<Rightarrow> 'r list \<Rightarrow> 'm list" where
  "missing_from mkey rkey ms rows = filter (\<lambda>m. mkey m \<notin> rkey ` set rows) ms"

definition merge_rows ::
  "('m \<Rightarrow> 'k) \<Rightarrow> ('r \<Rightarrow> 'k) \<Rightarrow> ('m \<Rightarrow> 'r \<Rightarrow> 'r) \<Rightarrow> (int \<Rightarrow> 'm \<Rightarrow> 'r) \<Rightarrow> 'm list \<Rightarrow> int \<Rightarrow> 'r list \<Rightarrow> 'r list" where
  "merge_rows mkey rkey put new ms n rows =
     map (overlay mkey rkey put ms) rows @ numbered new n (missing_from mkey rkey ms rows)"

lemma overlay_Nil [simp]: "overlay mkey rkey put [] r = r"
  by (simp add: overlay_def)

lemma overlay_Cons:
  "overlay mkey rkey put (m # ms) r = (if mkey m = rkey r then put m r else overlay mkey rkey put ms r)"
  by (simp add: overlay_def)

lemma overlay_other: "rkey r \<notin> mkey ` set ms \<Longrightarrow> overlay mkey rkey put ms r = r"
  by (induction ms) (auto simp: overlay_Cons)

lemma overlay_own:
  "distinct (map mkey ms) \<Longrightarrow> m \<in> set ms \<Longrightarrow> rkey r = mkey m \<Longrightarrow> overlay mkey rkey put ms r = put m r"
  by (induction ms) (auto simp: overlay_Cons)

lemma merge_rows_Nil [simp]: "merge_rows mkey rkey put new [] n rows = rows"
  by (simp add: merge_rows_def missing_from_def map_idI)

lemma missing_from_nth:
  "missing_from mkey rkey (m # ms) rows =
     (if mkey m \<in> rkey ` set rows then missing_from mkey rkey ms rows else m # missing_from mkey rkey ms rows)"
  by (simp add: missing_from_def)

locale manifest_merge =
  fixes rid :: "'r \<Rightarrow> int"
    and rkey :: "'r \<Rightarrow> 'k"
    and mkey :: "'m \<Rightarrow> 'k"
    and put :: "'m \<Rightarrow> 'r \<Rightarrow> 'r"
    and new :: "int \<Rightarrow> 'm \<Rightarrow> 'r"
  assumes put_id: "rid (put m r) = rid r"
    and put_key: "rkey (put m r) = rkey r"
    and put_put: "put m (put m r) = put m r"
    and new_id: "rid (new i m) = i"
    and new_key: "rkey (new i m) = mkey m"
    and put_new: "put m (new i m) = new i m"
begin

lemma overlay_id: "rid (overlay mkey rkey put ms r) = rid r"
  by (auto simp: overlay_def put_id split: option.splits)

lemma overlay_key: "rkey (overlay mkey rkey put ms r) = rkey r"
  by (auto simp: overlay_def put_key split: option.splits)

text \<open>The two steps of a run.\<close>

lemma merge_put:
  assumes "mkey m \<in> rkey ` set rows" "mkey m \<notin> mkey ` set ms"
  shows "merge_rows mkey rkey put new ms n (map (\<lambda>r. if rkey r = mkey m then put m r else r) rows) =
      merge_rows mkey rkey put new (m # ms) n rows" (is ?A)
    and "missing_from mkey rkey ms (map (\<lambda>r. if rkey r = mkey m then put m r else r) rows) =
      missing_from mkey rkey (m # ms) rows" (is ?B)
proof -
  have "map rkey (map (\<lambda>r. if rkey r = mkey m then put m r else r) rows) = map rkey rows" by (simp add: put_key)
  then have "rkey ` set (map (\<lambda>r. if rkey r = mkey m then put m r else r) rows) = rkey ` set rows"
    by (metis list.set_map)
  then show B: ?B using assms(1) by (simp only: missing_from_def) simp
  have "overlay mkey rkey put ms (if rkey r = mkey m then put m r else r) = overlay mkey rkey put (m # ms) r" for r
    using assms(2) by (auto simp: overlay_Cons put_key intro!: overlay_other)
  then show ?A by (simp add: merge_rows_def B comp_def)
qed

lemma merge_new:
  assumes "mkey m \<notin> rkey ` set rows" "mkey m \<notin> mkey ` set ms"
  shows "merge_rows mkey rkey put new ms (n + 1) (rows @ [new n m]) = merge_rows mkey rkey put new (m # ms) n rows"
    and "m # missing_from mkey rkey ms (rows @ [new n m]) = missing_from mkey rkey (m # ms) rows"
proof -
  have miss: "missing_from mkey rkey ms (rows @ [new n m]) = missing_from mkey rkey ms rows"
    unfolding missing_from_def
  proof (rule filter_cong[OF refl])
    fix x assume "x \<in> set ms"
    then have "mkey x \<noteq> mkey m" using assms(2) by (metis imageI)
    then show "(mkey x \<notin> rkey ` set (rows @ [new n m])) = (mkey x \<notin> rkey ` set rows)" by (simp add: new_key)
  qed
  then show "m # missing_from mkey rkey ms (rows @ [new n m]) = missing_from mkey rkey (m # ms) rows"
    using assms(1) by (simp add: missing_from_nth)
  have "overlay mkey rkey put ms r = overlay mkey rkey put (m # ms) r" if "r \<in> set rows" for r
    using assms(1) that by (auto simp: overlay_Cons)
  then show "merge_rows mkey rkey put new ms (n + 1) (rows @ [new n m]) = merge_rows mkey rkey put new (m # ms) n rows"
    using assms by (simp add: merge_rows_def miss missing_from_nth overlay_other new_key)
qed

lemma numbered_keys: "map rkey (numbered new i ms) = map mkey ms"
  by (induction ms arbitrary: i) (simp_all add: new_key)

lemma numbered_row: "r \<in> set (numbered new i ms) \<Longrightarrow> \<exists>m \<in> set ms. rkey r = mkey m \<and> put m r = r"
proof (induction ms arbitrary: i)
  case (Cons q qs)
  then show ?case
  proof (cases "r = new i q")
    case False
    then show ?thesis using Cons.IH[of "i + 1"] Cons.prems by fastforce
  qed (simp add: new_key put_new)
qed simp

lemma merge_keys: "rkey ` set (merge_rows mkey rkey put new ms n rows) = rkey ` set rows \<union> mkey ` set ms"
proof -
  have "rkey ` set (numbered new n (missing_from mkey rkey ms rows)) = mkey ` set (missing_from mkey rkey ms rows)"
    using numbered_keys by (metis list.set_map)
  then show ?thesis
    by (auto simp: merge_rows_def image_Un image_image overlay_key missing_from_def)
qed

text \<open>A row of the merge has taken the fields of its entry.\<close>

lemma merged_row:
  assumes "distinct (map mkey ms)" "r \<in> set (merge_rows mkey rkey put new ms n rows)" "m \<in> set ms" "rkey r = mkey m"
  shows "put m r = r"
proof -
  consider q where "q \<in> set rows" "r = overlay mkey rkey put ms q"
    | "r \<in> set (numbered new n (missing_from mkey rkey ms rows))"
    using assms(2) by (auto simp: merge_rows_def)
  then show ?thesis
  proof cases
    case 1
    then show ?thesis
      using overlay_own[OF assms(1,3), of rkey q put] assms(4) by (simp add: overlay_key put_put)
  next
    case 2
    then obtain q where "q \<in> set ms" "rkey r = mkey q" "put q r = r"
      using numbered_row by (fastforce simp: missing_from_def)
    then show ?thesis using assms by (auto simp: distinct_map inj_on_def)
  qed
qed

lemma merge_again:
  assumes "distinct (map mkey ms)"
  shows "missing_from mkey rkey ms (merge_rows mkey rkey put new ms n rows) = []"
    and "merge_rows mkey rkey put new ms i (merge_rows mkey rkey put new ms n rows) = merge_rows mkey rkey put new ms n rows"
proof -
  let ?rows = "merge_rows mkey rkey put new ms n rows"
  show m: "missing_from mkey rkey ms ?rows = []"
    by (auto simp: missing_from_def merge_keys filter_empty_conv)
  have "overlay mkey rkey put ms r = r" if "r \<in> set ?rows" for r
  proof (cases "find (\<lambda>m. mkey m = rkey r) ms")
    case (Some m)
    then have "m \<in> set ms" "mkey m = rkey r" using find_Some_iff_mem[OF Some] by auto
    then show ?thesis using Some merged_row[OF assms that, of m] by (simp add: overlay_def)
  qed (simp add: overlay_def)
  then have "map (overlay mkey rkey put ms) ?rows = ?rows" by (rule map_idI)
  then show "merge_rows mkey rkey put new ms i ?rows = ?rows"
    by (subst (1) merge_rows_def) (simp add: m)
qed

lemma numbered_serial: "serial_ok rid i rows \<Longrightarrow> serial_ok rid (i + int (length ms)) (rows @ numbered new i ms)"
proof (induction ms arbitrary: i rows)
  case (Cons m ms)
  have "serial_ok rid (i + 1) (rows @ [new i m])" by (rule serial_ok_snoc[OF Cons.prems]) (simp add: new_id)
  from Cons.IH[OF this] show ?case by (simp add: algebra_simps)
qed simp

lemma merge_serial:
  assumes "serial_ok rid n rows"
  shows "serial_ok rid (n + int (length (missing_from mkey rkey ms rows))) (merge_rows mkey rkey put new ms n rows)"
proof -
  have "serial_ok rid n (map (overlay mkey rkey put ms) rows)"
    using assms serial_ok_map[of rid "map (overlay mkey rkey put ms) rows" rows n] by (simp add: comp_def overlay_id)
  then show ?thesis using numbered_serial by (simp add: merge_rows_def)
qed

lemma merge_unique:
  assumes "distinct (map rkey rows)" "distinct (map mkey ms)"
  shows "distinct (map rkey (merge_rows mkey rkey put new ms n rows))"
proof -
  have "distinct (map mkey (missing_from mkey rkey ms rows))"
    using assms(2) by (simp add: missing_from_def distinct_map_filter)
  moreover have "map rkey (map (overlay mkey rkey put ms) rows) = map rkey rows" by (simp add: comp_def overlay_key)
  moreover have "set (map mkey (missing_from mkey rkey ms rows)) \<inter> set (map rkey rows) = {}"
    by (auto simp: missing_from_def)
  ultimately show ?thesis
    using assms(1) by (simp only: merge_rows_def map_append distinct_append numbered_keys) blast
qed

lemma merge_others:
  assumes "r \<in> set rows" "rkey r \<notin> mkey ` set ms"
  shows "r \<in> set (merge_rows mkey rkey put new ms n rows)"
  using assms overlay_other[of rkey r mkey ms put] by (force simp: merge_rows_def)

end

end
