(* ===== verification/Catalog.thy ===== *)
theory Catalog
  imports ManifestMerge Directory
begin

text \<open>
  The permission catalogue (\<open>src/src/permissions\<close>): its table, the repository, the service, the seeder that
  brings the table in line with \<open>permissions.json\<close>, and the lists of permissions and of roles the
  administration shows.  The columns are stored whole: their lengths are not modelled.  The order of texts is that
  of the database collation, the parameter \<open>collate\<close>, a key into a linear order.
\<close>

section \<open>Table and repository\<close>

record permission_row =
  pm_id :: int
  pm_code :: string
  pm_resource :: string
  pm_action :: string
  pm_description :: "string option"

record catalog =
  ct_rows :: "permission_row list"
  ct_next :: int

record permission_input =
  pi_code :: string
  pi_resource :: string
  pi_action :: string
  pi_description :: "string option"

record permission_criteria =
  pq_search :: string
  pq_resource :: string
  pq_action :: string
  pq_page :: "int option"
  pq_limit :: "int option"

definition to_permission :: "permission_row \<Rightarrow> permission" where
  "to_permission r =
     \<lparr>perm_id = pm_id r, perm_code = pm_code r, perm_resource = pm_resource r, perm_action = pm_action r\<rparr>"

definition contains_text :: "string \<Rightarrow> string \<Rightarrow> bool" where
  "contains_text s t = ilike t (''%'' @ s @ ''%'')"

text \<open>The conditions are added for the criteria that are not empty; a \<open>null\<close> description does not match.\<close>

definition permission_matches :: "permission_criteria \<Rightarrow> permission_row \<Rightarrow> bool" where
  "permission_matches c r \<longleftrightarrow>
     (pq_search c = [] \<or> contains_text (pq_search c) (pm_code r) \<or>
        (case pm_description r of None \<Rightarrow> False | Some t \<Rightarrow> contains_text (pq_search c) t)) \<and>
     (pq_resource c = [] \<or> pm_resource r = pq_resource c) \<and>
     (pq_action c = [] \<or> pm_action r = pq_action c)"

definition listed_permissions :: "(string \<Rightarrow> rat) \<Rightarrow> permission_criteria \<Rightarrow> catalog \<Rightarrow> permission_row list" where
  "listed_permissions collate c ct =
     sort_key (\<lambda>r. collate (pm_resource r)) (sort_key (\<lambda>r. collate (pm_action r))
       (filter (permission_matches c) (ct_rows ct)))"

definition findAllPermissions :: "(string \<Rightarrow> rat) \<Rightarrow> permission_criteria \<Rightarrow> catalog \<Rightarrow> permission_row page_of" where
  "findAllPermissions collate c ct = find_page (listed_permissions collate c ct) (pq_page c) (pq_limit c)"

definition findPermission :: "catalog \<Rightarrow> int \<Rightarrow> permission_row option" where
  "findPermission ct i = find (\<lambda>r. pm_id r = i) (ct_rows ct)"

definition findByCode :: "catalog \<Rightarrow> string \<Rightarrow> permission_row option" where
  "findByCode ct c = find (\<lambda>r. pm_code r = c) (ct_rows ct)"

definition findByCodes :: "catalog \<Rightarrow> string list \<Rightarrow> permission_row list" where
  "findByCodes ct cs = (if cs = [] then [] else filter (\<lambda>r. pm_code r \<in> set cs) (ct_rows ct))"

definition with_input :: "permission_input \<Rightarrow> permission_row \<Rightarrow> permission_row" where
  "with_input i r = r\<lparr>pm_resource := pi_resource i, pm_action := pi_action i, pm_description := pi_description i\<rparr>"

definition new_permission :: "int \<Rightarrow> permission_input \<Rightarrow> permission_row" where
  "new_permission i p =
     \<lparr>pm_id = i, pm_code = pi_code p, pm_resource = pi_resource p, pm_action = pi_action p,
      pm_description = pi_description p\<rparr>"

definition save_permission :: "permission_row \<Rightarrow> catalog \<Rightarrow> catalog" where
  "save_permission r ct = ct\<lparr>ct_rows := update_where (\<lambda>q. pm_id q = pm_id r) (\<lambda>_. r) (ct_rows ct)\<rparr>"

definition insert_permission :: "permission_input \<Rightarrow> catalog \<Rightarrow> catalog" where
  "insert_permission p ct =
     ct\<lparr>ct_rows := ct_rows ct @ [new_permission (ct_next ct) p], ct_next := ct_next ct + 1\<rparr>"

definition upsertByCode :: "permission_input \<Rightarrow> catalog \<Rightarrow> catalog \<times> permission_row" where
  "upsertByCode p ct =
     (case findByCode ct (pi_code p) of
        Some r \<Rightarrow> (save_permission (with_input p r) ct, with_input p r)
      | None \<Rightarrow> (insert_permission p ct, new_permission (ct_next ct) p))"

definition describe :: "string tri \<Rightarrow> permission_row \<Rightarrow> permission_row" where
  "describe t r = r\<lparr>pm_description := tri_apply t (pm_description r)\<rparr>"

section \<open>Service\<close>

definition updatePermission :: "int \<Rightarrow> string tri \<Rightarrow> catalog \<Rightarrow> catalog \<times> (http_error + permission_row)" where
  "updatePermission i t ct =
     (case orNotFound (findPermission ct i) ''Permission'' i of
        Inl er \<Rightarrow> (ct, Inl er)
      | Inr r \<Rightarrow> (save_permission (describe t r) ct, Inr (describe t r)))"

section \<open>Seeder\<close>

definition drifted :: "permission_input \<Rightarrow> permission_row \<Rightarrow> bool" where
  "drifted p r \<longleftrightarrow> pm_resource r \<noteq> pi_resource p \<or> pm_action r \<noteq> pi_action p \<or> pm_description r \<noteq> pi_description p"

text \<open>The loop over the manifest, with the numbers of inserted and of updated rows.\<close>

fun seedPermissions :: "permission_input list \<Rightarrow> nat \<times> nat \<Rightarrow> catalog \<Rightarrow> catalog \<times> nat \<times> nat" where
  "seedPermissions [] c ct = (ct, c)"
| "seedPermissions (p # ps) (n, m) ct =
     (case findByCode ct (pi_code p) of
        Some r \<Rightarrow>
          if drifted p r then seedPermissions ps (n, m + 1) (save_permission (with_input p r) ct)
          else seedPermissions ps (n, m) ct
      | None \<Rightarrow> seedPermissions ps (n + 1, m) (insert_permission p ct))"

section \<open>Roles\<close>

record role_criteria =
  rq_search :: string
  rq_deleted :: bool
  rq_page :: "int option"
  rq_limit :: "int option"

definition role_matches :: "role_criteria \<Rightarrow> role_row \<Rightarrow> bool" where
  "role_matches c r \<longleftrightarrow>
     (rq_deleted c \<or> rr_live r) \<and> (rq_search c = [] \<or> contains_text (rq_search c) (rr_name r))"

text \<open>The query builder of TypeORM adds the condition \<open>deleted_at IS NULL\<close> to the main table by itself unless it is
  told \<open>withDeleted\<close>, which this query is not.\<close>

definition listed_roles :: "(string \<Rightarrow> rat) \<Rightarrow> role_criteria \<Rightarrow> directory \<Rightarrow> role_row list" where
  "listed_roles collate c d =
     sort_key (\<lambda>r. collate (rr_name r)) (filter (\<lambda>r. rr_live r \<and> role_matches c r) (dr_roles d))"

definition findAllRoles :: "(string \<Rightarrow> rat) \<Rightarrow> role_criteria \<Rightarrow> directory \<Rightarrow> role page_of" where
  "findAllRoles collate c d =
     find_page (map (roleToDomain d) (listed_roles collate c d)) (rq_page c) (rq_limit c)"

section \<open>The contract of the catalogue\<close>

definition catalog_inv :: "catalog \<Rightarrow> bool" where
  "catalog_inv ct \<longleftrightarrow> serial_ok pm_id (ct_next ct) (ct_rows ct) \<and> unique_active (\<lambda>_. True) pm_code (ct_rows ct)"

lemma with_input_simps [simp]:
  "pm_id (with_input p r) = pm_id r" "pm_code (with_input p r) = pm_code r"
  by (simp_all add: with_input_def)

lemma with_input_fix: "with_input p r = r \<longleftrightarrow> \<not> drifted p r"
  by (cases r) (auto simp: with_input_def drifted_def)

interpretation permission_manifest: manifest_merge pm_id pm_code pi_code with_input new_permission
  by unfold_locales (simp_all add: with_input_def new_permission_def)

lemma findByCode_Some: "findByCode ct c = Some r \<Longrightarrow> r \<in> set (ct_rows ct) \<and> pm_code r = c"
  unfolding findByCode_def using find_Some_iff_mem by fastforce

lemma findByCode_None: "findByCode ct c = None \<longleftrightarrow> c \<notin> pm_code ` set (ct_rows ct)"
  by (auto simp: findByCode_def find_None_conv)

lemma catalog_code_inj:
  "catalog_inv ct \<Longrightarrow> r \<in> set (ct_rows ct) \<Longrightarrow> s \<in> set (ct_rows ct) \<Longrightarrow> pm_code r = pm_code s \<Longrightarrow> r = s"
  using unique_active_inj[of "\<lambda>_. True" pm_code "ct_rows ct" r s] by (simp add: catalog_inv_def)

lemma catalog_id_inj:
  "catalog_inv ct \<Longrightarrow> r \<in> set (ct_rows ct) \<Longrightarrow> s \<in> set (ct_rows ct) \<Longrightarrow> pm_id r = pm_id s \<Longrightarrow> r = s"
  using serial_ok_inj[of pm_id "ct_next ct" "ct_rows ct" r s] by (simp add: catalog_inv_def)

lemma save_permission_inv:
  assumes "catalog_inv ct" "r \<in> set (ct_rows ct)" "pm_id s = pm_id r" "pm_code s = pm_code r"
  shows "catalog_inv (save_permission s ct) \<and> map pm_code (ct_rows (save_permission s ct)) = map pm_code (ct_rows ct)"
proof -
  let ?rows = "update_where (\<lambda>q. pm_id q = pm_id s) (\<lambda>_. s) (ct_rows ct)"
  have "pm_code (if pm_id q = pm_id s then s else q) = pm_code q" if "q \<in> set (ct_rows ct)" for q
    using catalog_id_inj[OF assms(1) that assms(2)] assms(3,4) by auto
  then have "map pm_code ?rows = map pm_code (ct_rows ct)" by (simp add: update_where_def)
  moreover have "serial_ok pm_id (ct_next ct) ?rows"
    by (rule serial_ok_replace) (use assms(1) in \<open>simp_all add: catalog_inv_def\<close>)
  ultimately show ?thesis using assms(1) by (simp add: catalog_inv_def save_permission_def unique_active_def)
qed

lemma insert_permission_inv:
  "catalog_inv ct \<Longrightarrow> findByCode ct (pi_code p) = None \<Longrightarrow> catalog_inv (insert_permission p ct)"
  using serial_ok_snoc[of pm_id "ct_next ct" "ct_rows ct" "new_permission (ct_next ct) p"]
  by (auto simp: catalog_inv_def insert_permission_def findByCode_None unique_active_snoc
      permission_manifest.new_id permission_manifest.new_key)

lemma upsertByCode_inv: "catalog_inv ct \<Longrightarrow> catalog_inv (fst (upsertByCode p ct))"
  by (auto simp: upsertByCode_def insert_permission_inv save_permission_inv dest: findByCode_Some split: option.splits)

lemma findPermission_Some: "findPermission ct i = Some r \<Longrightarrow> r \<in> set (ct_rows ct) \<and> pm_id r = i"
  unfolding findPermission_def using find_Some_iff_mem by fastforce

lemma describe_simps [simp]: "pm_id (describe t r) = pm_id r" "pm_code (describe t r) = pm_code r"
  by (simp_all add: describe_def)

lemma updatePermission_cases:
  "updatePermission i t ct = (ct', res) \<Longrightarrow>
     ct' = ct \<or> (\<exists>q. findPermission ct i = Some q \<and> res = Inr (describe t q) \<and> ct' = save_permission (describe t q) ct)"
  by (cases "findPermission ct i") (auto simp: updatePermission_def)

lemma updatePermission_inv: "catalog_inv ct \<Longrightarrow> catalog_inv (fst (updatePermission i t ct))"
  using updatePermission_cases[OF prod.collapse[symmetric], of i t ct] save_permission_inv findPermission_Some
  by fastforce

section \<open>The seeder merges the manifest into the table\<close>

definition merge_manifest :: "permission_input list \<Rightarrow> catalog \<Rightarrow> catalog" where
  "merge_manifest ps ct =
     \<lparr>ct_rows = merge_rows pi_code pm_code with_input new_permission ps (ct_next ct) (ct_rows ct),
      ct_next = ct_next ct + int (length (missing_from pi_code pm_code ps (ct_rows ct)))\<rparr>"

definition drifted_from :: "permission_input list \<Rightarrow> permission_row list \<Rightarrow> permission_input list" where
  "drifted_from ps rows = filter (\<lambda>p. list_ex (\<lambda>r. pm_code r = pi_code p \<and> drifted p r) rows) ps"

lemma drifted_from_cong:
  assumes "\<And>q. pm_code q \<in> pi_code ` set ps \<Longrightarrow> q \<in> set rows \<longleftrightarrow> q \<in> set rows'"
  shows "drifted_from ps rows = drifted_from ps rows'"
  unfolding drifted_from_def
proof (rule filter_cong[OF refl])
  fix x assume "x \<in> set ps"
  then have "q \<in> set rows \<longleftrightarrow> q \<in> set rows'" if "pm_code q = pi_code x" for q :: permission_row using assms[of q] that by simp
  then show "list_ex (\<lambda>r :: permission_row. pm_code r = pi_code x \<and> drifted x r) rows =
      list_ex (\<lambda>r :: permission_row. pm_code r = pi_code x \<and> drifted x r) rows'"
    unfolding list_ex_iff by blast
qed

lemma put_other:
  "pm_code q \<noteq> c \<Longrightarrow> q \<in> set (map (\<lambda>r. if pm_code r = c then with_input p r else r) rows) \<longleftrightarrow> q \<in> set rows"
proof (induction rows)
  case (Cons r rows)
  have "q \<noteq> with_input p r" if "pm_code r = c" using Cons.prems that by (metis with_input_simps(2))
  moreover have "q \<noteq> r" if "pm_code r = c" using Cons.prems that by metis
  ultimately show ?case using Cons.IH[OF Cons.prems] by (simp del: set_map)
qed simp

text \<open>One step of the loop on a code that is there, drifted or not.\<close>

lemma save_is_put:
  assumes "catalog_inv ct" "findByCode ct (pi_code p) = Some r"
  shows "ct_rows (save_permission (with_input p r) ct) =
      map (\<lambda>q. if pm_code q = pi_code p then with_input p q else q) (ct_rows ct)" (is ?A)
    and "\<not> drifted p r \<Longrightarrow> map (\<lambda>q. if pm_code q = pi_code p then with_input p q else q) (ct_rows ct) = ct_rows ct"
      (is "_ \<Longrightarrow> ?B")
proof -
  have r: "r \<in> set (ct_rows ct)" "pm_code r = pi_code p" using findByCode_Some[OF assms(2)] by auto
  have same: "pm_code q = pi_code p \<longleftrightarrow> q = r" "pm_id q = pm_id r \<longleftrightarrow> q = r" if "q \<in> set (ct_rows ct)" for q
    using catalog_id_inj[OF assms(1) that r(1)] catalog_code_inj[OF assms(1) that r(1)] r(2) by auto
  then show ?A by (simp add: save_permission_def update_where_def)
  show ?B if "\<not> drifted p r"
    by (rule map_idI) (use same(1) that in \<open>auto simp: with_input_fix\<close>)
qed

lemma seed_spec:
  assumes "catalog_inv ct" "distinct (map pi_code ps)"
  shows "seedPermissions ps (n, m) ct =
    (merge_manifest ps ct, n + length (missing_from pi_code pm_code ps (ct_rows ct)),
     m + length (drifted_from ps (ct_rows ct)))"
  using assms
proof (induction ps arbitrary: ct n m)
  case Nil
  then show ?case by (simp add: merge_manifest_def missing_from_def drifted_from_def)
next
  case (Cons p ps)
  have p: "pi_code p \<notin> pi_code ` set ps" "distinct (map pi_code ps)" using Cons.prems(2) by auto
  show ?case
  proof (cases "findByCode ct (pi_code p)")
    case None
    let ?ct = "insert_permission p ct"
    have no: "pi_code p \<notin> pm_code ` set (ct_rows ct)" using None by (simp add: findByCode_None)
    have rows: "ct_rows ?ct = ct_rows ct @ [new_permission (ct_next ct) p]" "ct_next ?ct = ct_next ct + 1"
      by (simp_all add: insert_permission_def)
    have "drifted_from ps (ct_rows ?ct) = drifted_from ps (ct_rows ct)"
    proof (rule drifted_from_cong)
      fix q :: permission_row assume "pm_code q \<in> pi_code ` set ps"
      then have "q \<noteq> new_permission (ct_next ct) p" using p(1) by (metis permission_manifest.new_key)
      then show "q \<in> set (ct_rows ?ct) \<longleftrightarrow> q \<in> set (ct_rows ct)" by (simp add: rows)
    qed
    moreover have "drifted_from (p # ps) (ct_rows ct) = drifted_from ps (ct_rows ct)"
      using no by (force simp: drifted_from_def list_ex_iff)
    moreover note merge = permission_manifest.merge_new[OF no p(1), of "ct_next ct"]
    ultimately show ?thesis
      using None Cons.IH[OF insert_permission_inv[OF Cons.prems(1) None] p(2), of "n + 1" m] merge(1)
      by (simp add: rows merge_manifest_def merge(2)[symmetric])
  next
    case (Some r)
    have r: "r \<in> set (ct_rows ct)" "pm_code r = pi_code p" using findByCode_Some[OF Some] by auto
    have has: "pi_code p \<in> pm_code ` set (ct_rows ct)" using r by force
    let ?put = "map (\<lambda>q. if pm_code q = pi_code p then with_input p q else q) (ct_rows ct)"
    define ct1 where "ct1 = (if drifted p r then save_permission (with_input p r) ct else ct)"
    note put = save_is_put[OF Cons.prems(1) Some]
    have ct1: "ct_rows ct1 = ?put" "ct_next ct1 = ct_next ct"
      using put unfolding ct1_def by (cases "drifted p r"; simp add: save_permission_def)+
    have "catalog_inv (save_permission (with_input p r) ct)"
      using save_permission_inv[OF Cons.prems(1) r(1), of "with_input p r"] by simp
    then have inv1: "catalog_inv ct1" using Cons.prems(1) by (simp add: ct1_def)
    have "drifted_from ps ?put = drifted_from ps (ct_rows ct)"
    proof (rule drifted_from_cong)
      fix q :: permission_row assume "pm_code q \<in> pi_code ` set ps"
      then have "pm_code q \<noteq> pi_code p" using p(1) by metis
      then show "q \<in> set ?put \<longleftrightarrow> q \<in> set (ct_rows ct)" by (rule put_other)
    qed
    moreover have "q \<in> set (ct_rows ct) \<and> pm_code q = pi_code p \<longleftrightarrow> q = r" for q
      using r catalog_code_inj[OF Cons.prems(1) _ r(1)] by metis
    then have "list_ex (\<lambda>q. pm_code q = pi_code p \<and> drifted p q) (ct_rows ct) \<longleftrightarrow> drifted p r"
      unfolding list_ex_iff by metis
    then have "length (drifted_from (p # ps) (ct_rows ct)) =
        (if drifted p r then 1 else 0) + length (drifted_from ps (ct_rows ct))"
      by (simp add: drifted_from_def)
    moreover have "seedPermissions (p # ps) (n, m) ct = seedPermissions ps (n, if drifted p r then m + 1 else m) ct1"
      using Some by (simp add: ct1_def)
    moreover note merge = permission_manifest.merge_put[OF has p(1)]
    ultimately show ?thesis
      using Cons.IH[OF inv1 p(2)] merge(1)[of "ct_next ct"]
      by (simp add: ct1(1,2) merge_manifest_def merge(2))
  qed
qed

lemma merge_inv:
  assumes "catalog_inv ct" "distinct (map pi_code ps)"
  shows "catalog_inv (merge_manifest ps ct)"
  using assms permission_manifest.merge_serial[of "ct_next ct" "ct_rows ct" ps]
    permission_manifest.merge_unique[of "ct_rows ct" ps "ct_next ct"]
  by (simp add: catalog_inv_def merge_manifest_def unique_active_def)

inductive catalog_step :: "catalog \<Rightarrow> catalog \<Rightarrow> bool" where
  upsert: "catalog_step ct (fst (upsertByCode p ct))"
| describe: "catalog_step ct (fst (updatePermission i t ct))"
| seed: "distinct (map pi_code ps) \<Longrightarrow> catalog_step ct (fst (seedPermissions ps (0, 0) ct))"

definition empty_catalog :: catalog where
  "empty_catalog = \<lparr>ct_rows = [], ct_next = 1\<rparr>"

lemma catalog_step_inv: "catalog_step ct ct' \<Longrightarrow> catalog_inv ct \<Longrightarrow> catalog_inv ct'"
  by (induction rule: catalog_step.induct) (simp_all add: upsertByCode_inv updatePermission_inv seed_spec merge_inv)

lemma catalog_reachable_inv: "catalog_step\<^sup>*\<^sup>* empty_catalog ct \<Longrightarrow> catalog_inv ct"
proof (induction rule: rtranclp_induct)
  case base
  then show ?case by (simp add: catalog_inv_def empty_catalog_def)
qed (rule catalog_step_inv)

lemma permission_seed_settled:
  assumes "catalog_inv ct" "distinct (map pi_code ps)"
  shows "seedPermissions ps (0, 0) (merge_manifest ps ct) = (merge_manifest ps ct, 0, 0)"
proof -
  note merged = permission_manifest.merged_row[OF assms(2), of _ "ct_next ct" "ct_rows ct"]
  have "drifted_from ps (ct_rows (merge_manifest ps ct)) = []"
    using merged by (auto simp: drifted_from_def filter_empty_conv list_ex_iff merge_manifest_def with_input_fix)
  moreover have "merge_manifest ps (merge_manifest ps ct) = merge_manifest ps ct"
    using permission_manifest.merge_again[OF assms(2)] by (simp add: merge_manifest_def)
  ultimately show ?thesis
    using seed_spec[OF merge_inv[OF assms] assms(2), of 0 0] permission_manifest.merge_again(1)[OF assms(2)]
    by (simp add: merge_manifest_def)
qed

text \<open>Seeding a manifest of distinct codes is the merge of the manifest into the table: rows of its codes take its
  fields and keep their ids, other rows stay, missing codes are appended under the next ids.  The counts are those of
  the missing and of the drifted codes, and a second run changes and counts nothing.\<close>

theorem permission_seed_merges:
  assumes "catalog_step\<^sup>*\<^sup>* empty_catalog ct" "distinct (map pi_code ps)"
  shows "seedPermissions ps (0, 0) ct =
      (merge_manifest ps ct, length (missing_from pi_code pm_code ps (ct_rows ct)),
       length (drifted_from ps (ct_rows ct))) \<and>
    seedPermissions ps (0, 0) (merge_manifest ps ct) = (merge_manifest ps ct, 0, 0) \<and>
    (\<forall>p \<in> set ps. \<exists>r. findByCode (merge_manifest ps ct) (pi_code p) = Some r \<and> \<not> drifted p r)"
proof (intro conjI ballI)
  let ?ct = "merge_manifest ps ct"
  have inv: "catalog_inv ct" by (rule catalog_reachable_inv[OF assms(1)])
  show "seedPermissions ps (0, 0) ct =
      (?ct, length (missing_from pi_code pm_code ps (ct_rows ct)), length (drifted_from ps (ct_rows ct)))"
    using seed_spec[OF inv assms(2), of 0 0] by simp
  show "seedPermissions ps (0, 0) ?ct = (?ct, 0, 0)" by (rule permission_seed_settled[OF inv assms(2)])
  note merged = permission_manifest.merged_row[OF assms(2), of _ "ct_next ct" "ct_rows ct"]
  fix p assume p: "p \<in> set ps"
  then have "findByCode ?ct (pi_code p) \<noteq> None"
    by (auto simp: findByCode_None merge_manifest_def permission_manifest.merge_keys)
  then obtain r where r: "findByCode ?ct (pi_code p) = Some r" by blast
  then show "\<exists>r. findByCode ?ct (pi_code p) = Some r \<and> \<not> drifted p r"
    using merged[of r p] p findByCode_Some[OF r] by (simp add: merge_manifest_def with_input_fix)
qed

text \<open>An administrator's edit of a seeded permission's description does not outlive the next seed: the catalogue is
  the one that seeding without the edit gives.\<close>

theorem permission_edit_undone:
  assumes "catalog_step\<^sup>*\<^sup>* empty_catalog ct" "distinct (map pi_code ps)"
    and "updatePermission i t ct = (ct', Inr r)" "pm_code r \<in> pi_code ` set ps"
  shows "fst (seedPermissions ps (0, 0) ct') = fst (seedPermissions ps (0, 0) ct)"
proof -
  have inv: "catalog_inv ct" by (rule catalog_reachable_inv[OF assms(1)])
  obtain q where q: "findPermission ct i = Some q" "r = describe t q" "ct' = save_permission (describe t q) ct"
    using assms(3) by (cases "findPermission ct i") (auto simp: updatePermission_def)
  have mem: "q \<in> set (ct_rows ct)" using findPermission_Some[OF q(1)] by simp
  obtain p where p: "p \<in> set ps" "pm_code q = pi_code p" using assms(4) q(2) by auto
  have inv': "catalog_inv ct'" "map pm_code (ct_rows ct') = map pm_code (ct_rows ct)"
    using save_permission_inv[OF inv mem, of "describe t q"] q(3) by simp_all
  let ?o = "overlay pi_code pm_code with_input ps"
  have "?o (if pm_id s = pm_id q then describe t q else s) = ?o s" if "s \<in> set (ct_rows ct)" for s
  proof -
    have "?o q = with_input p q" "?o (describe t q) = with_input p (describe t q)"
      by (rule overlay_own[OF assms(2) p(1)], simp add: p(2))+
    then have "?o (describe t q) = ?o q" by (simp add: describe_def with_input_def)
    then show ?thesis using catalog_id_inj[OF inv that mem] by auto
  qed
  then have "map ?o (ct_rows ct') = map ?o (ct_rows ct)"
    by (simp add: q(3) save_permission_def update_where_def)
  moreover have "missing_from pi_code pm_code ps (ct_rows ct') = missing_from pi_code pm_code ps (ct_rows ct)"
    using inv'(2) by (metis missing_from_def list.set_map)
  moreover have "ct_next ct' = ct_next ct" by (simp add: q(3) save_permission_def)
  ultimately show ?thesis
    by (simp add: seed_spec[OF inv assms(2)] seed_spec[OF inv'(1) assms(2)] merge_manifest_def merge_rows_def)
qed

section \<open>Witnesses\<close>

definition sample_manifest :: "permission_input list" where
  "sample_manifest =
     [\<lparr>pi_code = ''USER:View'', pi_resource = ''USER'', pi_action = ''View'', pi_description = Some ''See users''\<rparr>,
      \<lparr>pi_code = ''LEAVE:Approve'', pi_resource = ''LEAVE'', pi_action = ''Approve'', pi_description = None\<rparr>]"

definition seeded_catalog :: catalog where
  "seeded_catalog = fst (seedPermissions sample_manifest (0, 0) empty_catalog)"

lemma sample_manifest_distinct: "distinct (map pi_code sample_manifest)"
  by (simp add: sample_manifest_def)

lemma seeded_catalog_reachable: "catalog_step\<^sup>*\<^sup>* empty_catalog seeded_catalog"
  unfolding seeded_catalog_def by (rule r_into_rtranclp, rule catalog_step.seed, rule sample_manifest_distinct)

theorem permission_seed_merges_witness:
  "snd (seedPermissions sample_manifest (0, 0) empty_catalog) = (2, 0) \<and>
   snd (seedPermissions sample_manifest (0, 0) (merge_manifest sample_manifest empty_catalog)) = (0, 0)"
proof -
  have "length (missing_from pi_code pm_code sample_manifest (ct_rows empty_catalog)) = 2"
    "length (drifted_from sample_manifest (ct_rows empty_catalog)) = 0" by code_simp+
  then show ?thesis using permission_seed_merges[OF rtranclp.rtrancl_refl sample_manifest_distinct] by simp
qed

theorem permission_edit_undone_witness:
  "okR (snd (updatePermission 2 (Val ''edited'') seeded_catalog)) \<and>
   fst (seedPermissions sample_manifest (0, 0) (fst (updatePermission 2 (Val ''edited'') seeded_catalog))) =
   fst (seedPermissions sample_manifest (0, 0) seeded_catalog)"
proof -
  have "map_option pm_code (findPermission seeded_catalog 2) = Some ''LEAVE:Approve''" by code_simp
  then obtain q where q: "findPermission seeded_catalog 2 = Some q" "pm_code q = ''LEAVE:Approve''" by auto
  let ?up = "updatePermission 2 (Val ''edited'') seeded_catalog"
  have up: "?up = (save_permission (describe (Val ''edited'') q) seeded_catalog, Inr (describe (Val ''edited'') q))"
    using q(1) by (simp add: updatePermission_def)
  have "pm_code (describe (Val ''edited'') q) \<in> pi_code ` set sample_manifest"
    using q(2) by (simp add: sample_manifest_def)
  from permission_edit_undone[OF seeded_catalog_reachable sample_manifest_distinct up this] show ?thesis
    using up by simp
qed

end
