(* ===== verification/SeedPeople.thy ===== *)
theory SeedPeople
  imports SeedLoop Catalog
begin

text \<open>
  The seeders of roles and of users (\<open>src/src/database/seeds/role\<close>, \<open>src/src/database/seeds/user\<close>) over the tables of
  \<open>Directory\<close>, \<open>Catalog\<close> and \<open>LeaveLedger\<close>.  The manifests are parameters; a role's codes are \<open>None\<close> for the
  wildcard.  The user seeder looks an email up with the deleted users included; where a deleted and a live user
  share it the query leaves open which is found, and the model takes the older.  The password is hashed once per
  account here and once per run there.
\<close>

section \<open>Roles\<close>

record role_manifest =
  rm_name :: string
  rm_description :: "string option"
  rm_codes :: "string list option"

definition granted :: "permission list \<Rightarrow> role_manifest \<Rightarrow> permission list" where
  "granted perms m = (case rm_codes m of None \<Rightarrow> perms | Some cs \<Rightarrow> filter (\<lambda>p. perm_code p \<in> set cs) perms)"

definition grant_row :: "permission list \<Rightarrow> role_manifest \<Rightarrow> role_row \<Rightarrow> role_row" where
  "grant_row perms m r = r\<lparr>rr_description := rm_description m, rr_permissions := map perm_id (granted perms m)\<rparr>"

definition new_seed_role :: "permission list \<Rightarrow> int \<Rightarrow> role_manifest \<Rightarrow> role_row" where
  "new_seed_role perms i m =
     \<lparr>rr_id = i, rr_name = rm_name m, rr_description = rm_description m, rr_permissions = map perm_id (granted perms m),
      rr_created_by = None, rr_updated_by = None, rr_deleted_by = None, rr_deleted_at = None\<rparr>"

definition insert_seed_role :: "permission list \<Rightarrow> role_manifest \<Rightarrow> directory \<Rightarrow> http_error + directory" where
  "insert_seed_role perms m d =
     (if role_name_taken d (dr_role_next d) (rm_name m) then Inl UniqueViolation
      else Inr (d\<lparr>dr_roles := dr_roles d @ [new_seed_role perms (dr_role_next d) m], dr_role_next := dr_role_next d + 1\<rparr>))"

text \<open>The loop over the manifest, with the numbers of inserted and of updated roles or the error that ends it.\<close>

fun role_loop ::
  "permission list \<Rightarrow> role_manifest list \<Rightarrow> nat \<times> nat \<Rightarrow> directory \<Rightarrow> directory \<times> (http_error + nat \<times> nat)" where
  "role_loop perms [] c d = (d, Inr c)"
| "role_loop perms (m # ms) (n, k) d =
     (case findRoleByName d (rm_name m) of
        Some r \<Rightarrow>
          (case saveRole (grant_row perms m r) d of
             Inl er \<Rightarrow> (d, Inl er)
           | Inr (d', _) \<Rightarrow> role_loop perms ms (n, k + 1) d')
      | None \<Rightarrow>
          (case insert_seed_role perms m d of
             Inl er \<Rightarrow> (d, Inl er)
           | Inr d' \<Rightarrow> role_loop perms ms (n + 1, k) d'))"

definition seedRoles :: "role_manifest list \<Rightarrow> directory \<Rightarrow> directory \<times> (http_error + nat \<times> nat)" where
  "seedRoles ms d = role_loop (dr_permissions d) ms (0, 0) d"

section \<open>Users\<close>

record user_manifest =
  um_email :: string
  um_first :: string
  um_last :: string
  um_title :: "string option"
  um_role :: string
  um_admin :: "bool option"
  um_active :: "bool option"

record seed_env =
  sn_hasher :: hasher
  sn_password :: string
  sn_now :: int

definition manifest_email :: "user_manifest \<Rightarrow> string" where
  "manifest_email m = toLowerCase (trim (um_email m))"

definition seed_user_row :: "seed_env \<Rightarrow> user_manifest \<Rightarrow> int \<Rightarrow> user_entity" where
  "seed_user_row env m role =
     \<lparr>ue_id = 0, ue_email = manifest_email m, ue_hash = hash_of (sn_hasher env) (sn_password env),
      ue_first = um_first m, ue_last = um_last m, ue_title = um_title m, ue_role_id = role,
      ue_admin = opt_apply (um_admin m) False, ue_active = opt_apply (um_active m) True, ue_last_login = None,
      ue_created_by = None, ue_updated_by = None, ue_deleted_by = None, ue_created_at = sn_now env,
      ue_deleted_at = None\<rparr>"

definition find_seeded :: "user_manifest \<Rightarrow> directory \<Rightarrow> user_entity option" where
  "find_seeded m d = find (\<lambda>u. ue_email u = manifest_email m) (dr_users d)"

definition default_present :: "int \<times> leave_type \<times> int \<Rightarrow> leave_db \<Rightarrow> bool" where
  "default_present k ld =
     (case k of (e, t, _) \<Rightarrow>
        list_ex (\<lambda>a. al_employee a = e \<and> al_type a = t \<and> al_source a = Default_grant) (ld_allocs ld))"

definition insert_default :: "int \<Rightarrow> int \<times> leave_type \<times> int \<Rightarrow> leave_db \<Rightarrow> http_error + leave_db" where
  "insert_default now k ld =
     (case k of (e, t, amount) \<Rightarrow>
        bindR (al_create now (new_allocation e t amount Default_grant None None None) ld) (\<lambda>(ld', _). Inr ld'))"

definition ensureDefaultAllocations :: "int \<Rightarrow> int \<Rightarrow> leave_db \<Rightarrow> leave_db \<times> (http_error + nat \<times> nat)" where
  "ensureDefaultAllocations now e ld =
     seed_loop default_present (insert_default now) (map (Pair e) DEFAULT_LEAVE_ALLOCATIONS) (0, 0) ld"

text \<open>The loop over the users, with the numbers of inserted users, of users found and of allocations added.\<close>

fun user_loop ::
  "seed_env \<Rightarrow> (string \<Rightarrow> role_row option) \<Rightarrow> user_manifest list \<Rightarrow> nat \<times> nat \<times> nat \<Rightarrow> directory \<times> leave_db
     \<Rightarrow> (directory \<times> leave_db) \<times> (http_error + nat \<times> nat \<times> nat)" where
  "user_loop env roleByName [] c s = (s, Inr c)"
| "user_loop env roleByName (m # ms) (n, k, a) (d, ld) =
     (case roleByName (um_role m) of
        None \<Rightarrow> user_loop env roleByName ms (n, k, a) (d, ld)
      | Some role \<Rightarrow>
          (case find_seeded m d of
             Some u \<Rightarrow>
               if \<not> ue_live u then user_loop env roleByName ms (n, k + 1, a) (d, ld)
               else (case ensureDefaultAllocations (sn_now env) (ue_id u) ld of
                       (ld', Inl er) \<Rightarrow> ((d, ld'), Inl er)
                     | (ld', Inr (added, _)) \<Rightarrow> user_loop env roleByName ms (n, k + 1, a + added) (d, ld'))
           | None \<Rightarrow>
               (case insertUser (seed_user_row env m (rr_id role)) d of
                  Inl er \<Rightarrow> ((d, ld), Inl er)
                | Inr (d', u) \<Rightarrow>
                    (case ensureDefaultAllocations (sn_now env) (ue_id u) ld of
                       (ld', Inl er) \<Rightarrow> ((d', ld'), Inl er)
                     | (ld', Inr (added, _)) \<Rightarrow> user_loop env roleByName ms (n + 1, k, a + added) (d', ld')))))"

definition seedUsers ::
  "seed_env \<Rightarrow> user_manifest list \<Rightarrow> directory \<times> leave_db \<Rightarrow> (directory \<times> leave_db) \<times> (http_error + nat \<times> nat \<times> nat)" where
  "seedUsers env ms s = user_loop env (findRoleByName (fst s)) ms (0, 0, 0) s"

section \<open>What the role seeder does\<close>

interpretation role_manifest: manifest_merge rr_id rr_name rm_name "grant_row perms" "new_seed_role perms" for perms
  by unfold_locales (simp_all add: grant_row_def new_seed_role_def)

text \<open>No entry of the manifest names a deleted role.\<close>

definition names_free :: "role_manifest list \<Rightarrow> directory \<Rightarrow> bool" where
  "names_free ms d \<longleftrightarrow> list_all (\<lambda>m. list_all (\<lambda>r. rr_name r = rm_name m \<longrightarrow> rr_live r) (dr_roles d)) ms"

lemma names_free_iff:
  "names_free ms d \<longleftrightarrow> (\<forall>m \<in> set ms. \<forall>r \<in> set (dr_roles d). rr_name r = rm_name m \<longrightarrow> rr_live r)"
  by (simp add: names_free_def list_all_iff)

lemma findRoleByName_Some:
  "findRoleByName d n = Some r \<Longrightarrow> r \<in> set (dr_roles d) \<and> rr_name r = n \<and> rr_live r"
  unfolding findRoleByName_def using find_Some_iff_mem by fastforce

lemma role_name_inj:
  "directory_inv d \<Longrightarrow> q \<in> set (dr_roles d) \<Longrightarrow> r \<in> set (dr_roles d) \<Longrightarrow> rr_name q = rr_name r \<Longrightarrow> q = r"
  using unique_active_inj[of "\<lambda>_. True" rr_name "dr_roles d" q r] by (simp add: directory_inv_def)

lemma role_id_inj:
  "directory_inv d \<Longrightarrow> q \<in> set (dr_roles d) \<Longrightarrow> r \<in> set (dr_roles d) \<Longrightarrow> rr_id q = rr_id r \<Longrightarrow> q = r"
  using serial_ok_inj[of rr_id "dr_role_next d" "dr_roles d" q r] by (simp add: directory_inv_def)

lemma role_taken_iff:
  assumes "directory_inv d"
  shows "role_name_taken d (dr_role_next d) n \<longleftrightarrow> n \<in> rr_name ` set (dr_roles d)"
proof -
  have "\<forall>r \<in> set (dr_roles d). rr_id r \<noteq> dr_role_next d"
    using assms by (auto simp: directory_inv_def serial_ok_def list_all_iff)
  then show ?thesis unfolding role_name_taken_def list_ex_iff image_iff by metis
qed

text \<open>The step on a live role: the save succeeds and overwrites it in place.\<close>

lemma regrant_step:
  assumes "directory_inv d" "findRoleByName d (rm_name m) = Some r"
  shows "saveRole (grant_row perms m r) d =
      Inr (d\<lparr>dr_roles := map (\<lambda>q. if rr_name q = rm_name m then grant_row perms m q else q) (dr_roles d)\<rparr>, grant_row perms m r)"
    and "directory_inv (d\<lparr>dr_roles := map (\<lambda>q. if rr_name q = rm_name m then grant_row perms m q else q) (dr_roles d)\<rparr>)"
proof -
  have r: "r \<in> set (dr_roles d)" "rr_name r = rm_name m" using findRoleByName_Some[OF assms(2)] by auto
  have same: "rr_name q = rm_name m \<longleftrightarrow> q = r" "rr_id q = rr_id r \<longleftrightarrow> q = r" if "q \<in> set (dr_roles d)" for q
    using role_name_inj[OF assms(1) that r(1)] role_id_inj[OF assms(1) that r(1)] r(2) by auto
  have "\<not> role_name_taken d (rr_id r) (rm_name m)"
    unfolding role_name_taken_def list_ex_iff using same by metis
  moreover have "update_where (\<lambda>q. rr_id q = rr_id r) (\<lambda>_. grant_row perms m r) (dr_roles d) =
      map (\<lambda>q. if rr_name q = rm_name m then grant_row perms m q else q) (dr_roles d)"
    using same by (simp add: update_where_def)
  ultimately show save: "saveRole (grant_row perms m r) d =
      Inr (d\<lparr>dr_roles := map (\<lambda>q. if rr_name q = rm_name m then grant_row perms m q else q) (dr_roles d)\<rparr>, grant_row perms m r)"
    using r(2) by (simp add: saveRole_def role_manifest.put_id role_manifest.put_key)
  show "directory_inv (d\<lparr>dr_roles := map (\<lambda>q. if rr_name q = rm_name m then grant_row perms m q else q) (dr_roles d)\<rparr>)"
    using saveRole_inv[OF save assms(1)] r(1) by (simp add: role_manifest.put_id)
qed

lemma new_role_step:
  assumes "directory_inv d" "insert_seed_role perms m d = Inr d'"
  shows "d' = d\<lparr>dr_roles := dr_roles d @ [new_seed_role perms (dr_role_next d) m], dr_role_next := dr_role_next d + 1\<rparr>"
    and "directory_inv d'" "rm_name m \<notin> rr_name ` set (dr_roles d)"
proof -
  show d': "d' = d\<lparr>dr_roles := dr_roles d @ [new_seed_role perms (dr_role_next d) m], dr_role_next := dr_role_next d + 1\<rparr>"
    and no: "rm_name m \<notin> rr_name ` set (dr_roles d)"
    using assms by (auto simp: insert_seed_role_def role_taken_iff split: if_splits)
  have "serial_ok rr_id (dr_role_next d + 1) (dr_roles d @ [new_seed_role perms (dr_role_next d) m])"
    by (rule serial_ok_snoc) (use assms(1) in \<open>simp_all add: directory_inv_def role_manifest.new_id\<close>)
  then show "directory_inv d'"
    using assms(1) no by (auto simp: d' directory_inv_def unique_active_snoc role_manifest.new_key)
qed

text \<open>The run keeps the contract, and succeeds exactly when no name of the manifest belongs to a deleted role.\<close>

lemma role_loop_ok:
  assumes "directory_inv d"
  shows "directory_inv (fst (role_loop perms ms c d)) \<and>
    dr_permissions (fst (role_loop perms ms c d)) = dr_permissions d \<and>
    dr_users (fst (role_loop perms ms c d)) = dr_users d \<and>
    (okR (snd (role_loop perms ms c d)) \<longleftrightarrow> names_free ms d)"
  using assms
proof (induction ms arbitrary: c d)
  case Nil
  then show ?case by (simp add: names_free_def)
next
  case (Cons m ms)
  obtain n k where c: "c = (n, k)" by (cases c)
  show ?case
  proof (cases "findRoleByName d (rm_name m)")
    case (Some r)
    note step = regrant_step[OF Cons.prems Some, of perms]
    have r: "r \<in> set (dr_roles d)" "rr_name r = rm_name m" "rr_live r" using findRoleByName_Some[OF Some] by auto
    have "\<forall>q \<in> set (dr_roles d). rr_name q = rm_name m \<longrightarrow> rr_live q"
      using role_name_inj[OF Cons.prems _ r(1)] r(2,3) by metis
    moreover have "rr_live (grant_row perms m q) = rr_live q" for q by (simp add: grant_row_def rr_live_def)
    then have "names_free ms (d\<lparr>dr_roles := map (\<lambda>q. if rr_name q = rm_name m then grant_row perms m q else q) (dr_roles d)\<rparr>)
        \<longleftrightarrow> names_free ms d"
      by (simp add: names_free_def list.pred_map comp_def role_manifest.put_key if_distrib[of rr_name] if_distrib[of rr_live]
          cong: if_cong)
    ultimately show ?thesis
      using Cons.IH[OF step(2), of "(n, k + 1)"] Some step(1) c by (simp add: names_free_def list_all_iff)
  next
    case None
    then have dead: "\<forall>r \<in> set (dr_roles d). rr_name r = rm_name m \<longrightarrow> \<not> rr_live r"
      by (auto simp: findRoleByName_def find_None_conv)
    show ?thesis
    proof (cases "insert_seed_role perms m d")
      case (Inl er)
      then have "rm_name m \<in> rr_name ` set (dr_roles d)"
        using Cons.prems by (simp add: insert_seed_role_def role_taken_iff split: if_splits)
      then have "\<not> names_free (m # ms) d" using dead by (auto simp: names_free_iff)
      then show ?thesis using None Inl Cons.prems c by simp
    next
      case (Inr d')
      note step = new_role_step[OF Cons.prems Inr]
      have "rr_live (new_seed_role perms i m)" for i by (simp add: new_seed_role_def rr_live_def)
      then have "names_free ms d' \<longleftrightarrow> names_free ms d" by (simp add: step(1) names_free_def)
      moreover have "\<forall>r \<in> set (dr_roles d). rr_name r = rm_name m \<longrightarrow> rr_live r" using step(3) by force
      ultimately show ?thesis
        using Cons.IH[OF step(2), of "(n + 1, k)"] None Inr c step(1) by (simp add: names_free_def list_all_iff)
    qed
  qed
qed

text \<open>What a run that succeeds has done is the merge of the manifest into the table of roles.\<close>

lemma role_loop_merge:
  assumes "directory_inv d" "distinct (map rm_name ms)" "role_loop perms ms (n, k) d = (d', Inr (n', k'))"
  shows "d' = d\<lparr>dr_roles := merge_rows rm_name rr_name (grant_row perms) (new_seed_role perms) ms (dr_role_next d) (dr_roles d),
        dr_role_next := dr_role_next d + int (length (missing_from rm_name rr_name ms (dr_roles d)))\<rparr> \<and>
    n' = n + length (missing_from rm_name rr_name ms (dr_roles d)) \<and> n' + k' = n + k + length ms"
  using assms
proof (induction ms arbitrary: n k d)
  case Nil
  then show ?case by (simp add: missing_from_def)
next
  case (Cons m ms)
  have m: "rm_name m \<notin> rm_name ` set ms" "distinct (map rm_name ms)" using Cons.prems(2) by auto
  show ?case
  proof (cases "findRoleByName d (rm_name m)")
    case (Some r)
    note step = regrant_step[OF Cons.prems(1) Some, of perms]
    have has: "rm_name m \<in> rr_name ` set (dr_roles d)" using findRoleByName_Some[OF Some] by force
    note merge = role_manifest.merge_put[OF has m(1), of perms]
    show ?thesis
      using Cons.IH[OF step(2) m(2), of n "k + 1"] Cons.prems(3) Some step(1) merge(1)[of "dr_role_next d"]
      by (simp add: merge(2))
  next
    case None
    then obtain d1 where i: "insert_seed_role perms m d = Inr d1" using Cons.prems(3) by (auto split: sum.splits)
    note step = new_role_step[OF Cons.prems(1) i]
    note merge = role_manifest.merge_new[OF step(3) m(1), of perms "dr_role_next d"]
    have "role_loop perms ms (n + 1, k) d1 = (d', Inr (n', k'))" using Cons.prems(3) None i by simp
    from Cons.IH[OF step(2) m(2) this] show ?thesis
      by (simp add: step(1) merge(1) merge(2)[symmetric])
  qed
qed

section \<open>Seeding roles\<close>

text \<open>A directory whose roles are those a run left is left alone by the next run.\<close>

lemma role_seed_settled:
  assumes "directory_inv d" "distinct (map rm_name ms)" "seedRoles ms d = (d', Inr c)"
    and "directory_inv e" "dr_roles e = dr_roles d'" "dr_permissions e = dr_permissions d"
  shows "seedRoles ms e = (e, Inr (0, length ms))"
proof -
  let ?put = "grant_row (dr_permissions d)" and ?new = "new_seed_role (dr_permissions d)"
  obtain n k where c: "c = (n, k)" by (cases c)
  have rows: "dr_roles e = merge_rows rm_name rr_name ?put ?new ms (dr_role_next d) (dr_roles d)"
    using role_loop_merge[OF assms(1,2), of "dr_permissions d" 0 0 d' n k] assms(3,5) c by (simp add: seedRoles_def)
  have free: "names_free ms d"
    using role_loop_ok[OF assms(1), of "dr_permissions d" ms "(0, 0)"] assms(3) by (simp add: seedRoles_def)
  note again = role_manifest.merge_again[OF assms(2), of "dr_permissions d"]
  have "names_free ms e"
    unfolding names_free_iff
  proof (intro ballI impI)
    fix m r assume m: "m \<in> set ms" "r \<in> set (dr_roles e)" "rr_name r = rm_name m"
    consider q where "q \<in> set (dr_roles d)" "r = overlay rm_name rr_name ?put ms q"
      | "r \<in> set (numbered ?new (dr_role_next d) (missing_from rm_name rr_name ms (dr_roles d)))"
      using m(2) by (auto simp: rows merge_rows_def)
    then show "rr_live r"
    proof cases
      case 1
      then have "rr_name q = rm_name m" using m(3) by (simp add: role_manifest.overlay_key)
      then have "rr_live q" using free m(1) 1(1) by (simp add: names_free_iff)
      moreover have "r = ?put m q"
        unfolding 1(2) by (rule overlay_own[OF assms(2) m(1)]) (rule \<open>rr_name q = rm_name m\<close>)
      ultimately show ?thesis by (simp add: grant_row_def rr_live_def)
    next
      case 2
      have "\<forall>r \<in> set (numbered ?new i xs). rr_live r" for i xs
        by (induction xs arbitrary: i) (simp_all add: new_seed_role_def rr_live_def)
      then show ?thesis using 2 by blast
    qed
  qed
  then have "okR (snd (seedRoles ms e))" using role_loop_ok[OF assms(4)] by (simp add: seedRoles_def)
  then obtain d2 n2 k2 where s2: "seedRoles ms e = (d2, Inr (n2, k2))"
    by (cases "seedRoles ms e"; cases "snd (seedRoles ms e)") auto
  have m: "missing_from rm_name rr_name ms (dr_roles e) = []"
    "merge_rows rm_name rr_name ?put ?new ms (dr_role_next e) (dr_roles e) = dr_roles e"
    unfolding rows by (rule again)+
  have "d2 = e" "n2 = 0" "n2 + k2 = length ms"
    using role_loop_merge[OF assms(4,2), of "dr_permissions e" 0 0 d2 n2 k2] s2 m
    by (simp_all add: seedRoles_def assms(6))
  then show ?thesis using s2 by simp
qed

text \<open>Seeding a manifest of distinct names succeeds exactly when none of them belongs to a deleted role, and keeps
  the contract and the users.  A run that succeeds is the merge of the manifest into the table: the roles of its
  names get the granted codes that the catalogue has and lose all others, the other roles stay.  A second run gives
  the same directory.\<close>

theorem role_seed_outcomes:
  assumes "directory_inv d" "distinct (map rm_name ms)"
  shows "(okR (snd (seedRoles ms d)) \<longleftrightarrow> names_free ms d) \<and>
    directory_inv (fst (seedRoles ms d)) \<and> dr_users (fst (seedRoles ms d)) = dr_users d \<and>
    (\<forall>d' c. seedRoles ms d = (d', Inr c) \<longrightarrow>
       dr_roles d' = merge_rows rm_name rr_name (grant_row (dr_permissions d)) (new_seed_role (dr_permissions d)) ms
         (dr_role_next d) (dr_roles d) \<and>
       seedRoles ms d' = (d', Inr (0, length ms)))"
proof (intro conjI allI impI)
  note run = role_loop_ok[OF assms(1), of "dr_permissions d" ms "(0, 0)"]
  show "okR (snd (seedRoles ms d)) \<longleftrightarrow> names_free ms d" "directory_inv (fst (seedRoles ms d))"
    "dr_users (fst (seedRoles ms d)) = dr_users d"
    using run by (simp_all add: seedRoles_def)
  fix d' c assume s: "seedRoles ms d = (d', Inr c)"
  obtain n k where c: "c = (n, k)" by (cases c)
  show "dr_roles d' = merge_rows rm_name rr_name (grant_row (dr_permissions d)) (new_seed_role (dr_permissions d)) ms
      (dr_role_next d) (dr_roles d)"
    using role_loop_merge[OF assms, of "dr_permissions d" 0 0 d' n k] s c by (simp add: seedRoles_def)
  have "directory_inv d'" "dr_permissions d' = dr_permissions d" using run s by (simp_all add: seedRoles_def)
  then show "seedRoles ms d' = (d', Inr (0, length ms))" using role_seed_settled[OF assms s] by simp
qed

text \<open>C36: After the seed the manifest and the catalogue alone decide what the holders of a seeded role may do: the guard
  lets them pass exactly when every code it asks for is in the catalogue and in the role's list (the wildcard lists
  all), whatever an administrator had granted to the role before.  System administrators pass always.\<close>

theorem role_seed_decides_access:
  assumes "directory_inv d" "distinct (map rm_name ms)" "seedRoles ms d = (d', Inr c)"
    and "catalog_step\<^sup>*\<^sup>* empty_catalog ct" "dr_permissions d = map to_permission (ct_rows ct)"
    and "m \<in> set ms" "findUserById d' i = Inr u" "role_name (usr_role u) = rm_name m"
  shows "canActivate (Some req) (Some u) \<longleftrightarrow>
    usr_system_admin u \<or>
    (\<forall>code \<in> set (expand req). findByCode ct code \<noteq> None \<and>
       (case rm_codes m of None \<Rightarrow> True | Some cs \<Rightarrow> code \<in> set cs))"
proof -
  let ?perms = "dr_permissions d"
  have d': "dr_roles d' = merge_rows rm_name rr_name (grant_row ?perms) (new_seed_role ?perms) ms (dr_role_next d) (dr_roles d)"
    "dr_permissions d' = ?perms"
    using role_seed_outcomes[OF assms(1,2)] role_loop_ok[OF assms(1), of ?perms ms "(0, 0)"] assms(3)
    by (simp_all add: seedRoles_def)
  obtain w where w: "findUserRow d' i = Some w" "toDomain d' w = Inr u"
    using assms(7) by (cases "findUserRow d' i") (auto simp: findUserById_def toDomainOpt_def bindR_eq_Inr)
  then obtain r where r: "findRole d' (ue_role_id w) = Some r" "usr_role u = roleToDomain d' r"
    by (auto simp: toDomain_def split: option.splits)
  have "r \<in> set (dr_roles d')" "rr_name r = rm_name m"
    using findRole_Some[OF r(1)] r(2) assms(8) by (simp_all add: roleToDomain_def)
  then have "grant_row ?perms m r = r"
    using role_manifest.merged_row[OF assms(2) _ assms(6)] by (simp add: d'(1))
  then have ids: "rr_permissions r = map perm_id (granted ?perms m)" by (simp add: grant_row_def) (metis role_row.select_convs(4) role_row.surjective role_row.update_convs(4))
  have "inj_on perm_id (set ?perms)"
    using catalog_id_inj[OF catalog_reachable_inv[OF assms(4)]] by (auto simp: assms(5) inj_on_def to_permission_def)
  moreover have "set (granted ?perms m) \<subseteq> set ?perms" by (auto simp: granted_def split: option.splits)
  ultimately have "p \<in> set ?perms \<and> perm_id p \<in> perm_id ` set (granted ?perms m) \<longleftrightarrow> p \<in> set (granted ?perms m)" for p
    using inj_on_image_mem_iff[of perm_id "set ?perms" p "set (granted ?perms m)"] by blast
  then have "set (load_permissions d' (rr_permissions r)) = set (granted ?perms m)"
    unfolding load_permissions_def ids d'(2) by auto
  then have "set (permission_codes u) = perm_code ` set (granted ?perms m)"
    by (simp add: permission_codes_def r(2) roleToDomain_def)
  moreover have "code \<in> perm_code ` set (granted ?perms m) \<longleftrightarrow> findByCode ct code \<noteq> None \<and>
      (case rm_codes m of None \<Rightarrow> True | Some cs \<Rightarrow> code \<in> set cs)" for code
    by (auto simp: granted_def findByCode_None assms(5) to_permission_def image_iff split: option.splits)
  ultimately show ?thesis by (auto simp: canActivate_def list_all_iff)
qed

section \<open>Default balances\<close>

definition emails_lower :: "directory \<Rightarrow> bool" where
  "emails_lower d \<longleftrightarrow> (\<forall>u \<in> set (dr_users d). toLowerCase (ue_email u) = ue_email u)"

lemma step_emails_lower: "directory_step d d' \<Longrightarrow> emails_lower d \<Longrightarrow> emails_lower d'"
proof (induction rule: directory_step.induct)
  case (create_user d h now i ld)
  obtain d' ld' res where "createUser h now i d ld = (d', ld', res)" by (metis prod.exhaust)
  then show ?case
    using create_user createUser_directory[of h now i d ld d' ld' res]
    by (auto simp: emails_lower_def insertUser_def Let_def new_user_def toLowerCase_idem split: if_splits)
next
  case (update_user d i p)
  obtain d' res where up: "updateUser i p d = (d', res)" by (cases "updateUser i p d")
  then consider "d' = d" | u where "findUserRow d i = Some u" "saveUser (patched_user p u) d = Inr d'"
    by (auto simp: updateUser_def split: if_splits sum.splits prod.splits option.splits)
  then show ?case
  proof cases
    case 2
    then have "u \<in> set (dr_users d)" "ue_email (patched_user p u) = ue_email u"
      "dr_users d' = update_where (\<lambda>q. ue_id q = ue_id (patched_user p u)) (\<lambda>_. patched_user p u) (dr_users d)"
      using findUserRow_Some[of d i u] by (auto simp: patched_user_def saveUser_def split: if_splits)
    then show ?thesis using update_user up by (auto simp: emails_lower_def table_simps)
  qed (use update_user up in simp)
next
  case (update_role d i rp)
  then show ?case
    by (auto simp: updateRole_def emails_lower_def saveRole_def split: sum.splits prod.splits if_splits)
next
  case (create_role d n description ids by')
  then show ?case
    by (auto simp: createRole_def insertRole_def emails_lower_def bindR_eq_Inr Let_def split: sum.splits prod.splits if_splits)
next
  case (permissions d i ids)
  then show ?case
    by (auto simp: assignPermissions_def emails_lower_def saveRole_def bindR_eq_Inr split: sum.splits prod.splits if_splits)
qed (auto simp: emails_lower_def changePassword_def changeMyPassword_def softDeleteUser_def softDeleteRole_def recordLogin_def
    updatePasswordHash_def retire_user_def table_simps split: sum.splits prod.splits)

lemma reachable_emails_lower: "directory_step\<^sup>*\<^sup>* (empty_directory seed_roles perms) d \<Longrightarrow> emails_lower d"
proof (induction rule: rtranclp_induct)
  case base
  then show ?case by (simp add: emails_lower_def empty_directory_def)
qed (rule step_emails_lower)

definition default_types :: "leave_type set" where
  "default_types = {Vacation, Sick}"

text \<open>Whether the default row of an employee and a type is there, whatever its amount.\<close>

abbreviation has_default :: "leave_db \<Rightarrow> int \<Rightarrow> leave_type \<Rightarrow> bool" where
  "has_default ld e t \<equiv> default_present (e, t, 0) ld"

lemma default_present_amount: "default_present (e, t, n) ld = has_default ld e t"
  by (simp add: default_present_def)

lemma insert_default_Inr:
  assumes "0 < n"
  shows "\<exists>ld'. insert_default now (e, t, n) ld = Inr ld' \<and>
    (\<forall>x s. has_default ld' x s \<longleftrightarrow> has_default ld x s \<or> x = e \<and> s = t) \<and>
    (\<forall>x s. allowance ld' x s = allowance ld x s + (if x = e \<and> s = t then n else 0))"
  using assms
  by (auto simp: insert_default_def al_create_def bindR_def Let_def default_present_def new_allocation_def allowance_def
      al_live_def)

text \<open>Ensuring the defaults never fails and adds exactly the missing rows.\<close>

lemma ensure_defaults:
  "\<exists>ld' a b. ensureDefaultAllocations now e ld = (ld', Inr (a, b)) \<and>
     (\<forall>x t. has_default ld' x t \<longleftrightarrow> has_default ld x t \<or> x = e \<and> t \<in> default_types) \<and>
     (\<forall>x t. allowance ld' x t =
        allowance ld x t + (if x = e \<and> t \<in> default_types \<and> \<not> has_default ld x t then 10 else 0)) \<and>
     ((\<forall>t \<in> default_types. has_default ld e t) \<longrightarrow> ld' = ld \<and> a = 0)"
proof -
  obtain l1 where l1: "insert_default now (e, Vacation, 10) ld = Inr l1"
    "\<forall>x s. has_default l1 x s \<longleftrightarrow> has_default ld x s \<or> x = e \<and> s = Vacation"
    "\<forall>x s. allowance l1 x s = allowance ld x s + (if x = e \<and> s = Vacation then 10 else 0)"
    using insert_default_Inr[of 10 now e Vacation ld] by auto
  define la where "la = (if has_default ld e Vacation then ld else l1)"
  obtain l2 where l2: "insert_default now (e, Sick, 10) la = Inr l2"
    "\<forall>x s. has_default l2 x s \<longleftrightarrow> has_default la x s \<or> x = e \<and> s = Sick"
    "\<forall>x s. allowance l2 x s = allowance la x s + (if x = e \<and> s = Sick then 10 else 0)"
    using insert_default_Inr[of 10 now e Sick la] by auto
  define lb where "lb = (if has_default la e Sick then la else l2)"
  have la: "has_default la x s \<longleftrightarrow> has_default ld x s \<or> x = e \<and> s = Vacation"
    "allowance la x s = allowance ld x s + (if x = e \<and> s = Vacation \<and> \<not> has_default ld x s then 10 else 0)" for x s
    using l1(2,3) by (auto simp: la_def)
  have lb: "has_default lb x s \<longleftrightarrow> has_default la x s \<or> x = e \<and> s = Sick"
    "allowance lb x s = allowance la x s + (if x = e \<and> s = Sick \<and> \<not> has_default la x s then 10 else 0)" for x s
    using l2(2,3) by (auto simp: lb_def)
  have keys: "map (Pair e) DEFAULT_LEAVE_ALLOCATIONS = [(e, Vacation, 10), (e, Sick, 10)]"
    by (simp add: DEFAULT_LEAVE_ALLOCATIONS_def)
  have run: "\<exists>a b. ensureDefaultAllocations now e ld = (lb, Inr (a, b)) \<and> (lb = ld \<or> True) \<and>
      (has_default ld e Vacation \<longrightarrow> has_default ld e Sick \<longrightarrow> lb = ld \<and> a = 0)"
    using l1(1) l2(1) unfolding ensureDefaultAllocations_def keys
    by (cases "has_default ld e Vacation"; cases "has_default la e Sick")
      (simp_all add: default_present_amount[of e _ 10] la_def lb_def)
  then show ?thesis using la lb by (fastforce simp: default_types_def)
qed

section \<open>What the user seeder does\<close>

text \<open>The accounts a manifest stands for: those of its rows with a known role whose user is live.\<close>

definition seed_targets :: "(string \<Rightarrow> role_row option) \<Rightarrow> user_manifest list \<Rightarrow> directory \<Rightarrow> int list" where
  "seed_targets roleByName ms d =
     concat (map (\<lambda>m. if roleByName (um_role m) = None then []
                     else case find_seeded m d of
                            None \<Rightarrow> [] | Some u \<Rightarrow> if ue_live u then [ue_id u] else []) ms)"

definition known_rows :: "(string \<Rightarrow> role_row option) \<Rightarrow> user_manifest list \<Rightarrow> user_manifest list" where
  "known_rows roleByName ms = filter (\<lambda>m. roleByName (um_role m) \<noteq> None) ms"

lemma find_seeded_append:
  "find_seeded m d = Some u \<Longrightarrow> dr_users d' = dr_users d @ new \<Longrightarrow> find_seeded m d' = Some u"
proof -
  have "find P (xs @ ys) = Some u" if "find P xs = Some u" for P :: "user_entity \<Rightarrow> bool" and xs ys
    using that by (induction xs) auto
  then show "find_seeded m d = Some u \<Longrightarrow> dr_users d' = dr_users d @ new \<Longrightarrow> find_seeded m d' = Some u"
    by (simp add: find_seeded_def)
qed

lemma find_seeded_Some: "find_seeded m d = Some u \<Longrightarrow> u \<in> set (dr_users d) \<and> ue_email u = manifest_email m"
  unfolding find_seeded_def using find_Some_iff_mem by fastforce

text \<open>Creating a missing account succeeds: the unique index is on the lower-case email, which is how emails are
  stored.\<close>

lemma insert_seed_user:
  assumes "directory_inv d" "emails_lower d" "find_seeded m d = None" "i \<in> rr_id ` set (dr_roles d)"
  shows "\<exists>d' u. insertUser (seed_user_row env m i) d = Inr (d', u) \<and> directory_inv d' \<and> emails_lower d' \<and>
    d' = d\<lparr>dr_users := dr_users d @ [u], dr_next := dr_next d + 1\<rparr> \<and>
    u = (seed_user_row env m i)\<lparr>ue_id := dr_next d\<rparr> \<and> find_seeded m d' = Some u"
proof -
  let ?u = "(seed_user_row env m i)\<lparr>ue_id := dr_next d\<rparr>"
  have low: "toLowerCase (manifest_email m) = manifest_email m" by (simp add: manifest_email_def toLowerCase_idem)
  then have key: "ue_key (seed_user_row env m i) = manifest_email m" by (simp add: ue_key_def seed_user_row_def)
  have no: "\<forall>q \<in> set (dr_users d). ue_email q \<noteq> manifest_email m"
    using assms(3) by (simp add: find_seeded_def find_None_conv)
  then have "\<not> list_ex (\<lambda>q. ue_live q \<and> ue_key q = ue_key (seed_user_row env m i)) (dr_users d)"
    using assms(2) unfolding key by (auto simp: list_ex_iff emails_lower_def ue_key_def)
  moreover have "list_ex (\<lambda>r. rr_id r = ue_role_id (seed_user_row env m i)) (dr_roles d)"
    using assms(4) by (simp add: role_row_iff seed_user_row_def)
  ultimately have ins: "insertUser (seed_user_row env m i) d =
      Inr (d\<lparr>dr_users := dr_users d @ [?u], dr_next := dr_next d + 1\<rparr>, ?u)"
    by (simp add: insertUser_def Let_def)
  let ?d = "d\<lparr>dr_users := dr_users d @ [?u], dr_next := dr_next d + 1\<rparr>"
  have "find (\<lambda>u. ue_email u = manifest_email m) (us @ [?u]) = Some ?u"
    if "\<forall>q \<in> set us. ue_email q \<noteq> manifest_email m" for us
    using that by (induction us) (auto simp: seed_user_row_def)
  then have "find_seeded m ?d = Some ?u" using no by (simp add: find_seeded_def)
  moreover have "emails_lower ?d" using assms(2) low by (auto simp: emails_lower_def seed_user_row_def)
  ultimately show ?thesis using ins insertUser_inv[OF ins assms(1)] by blast
qed

definition seed_effect ::
  "(string \<Rightarrow> role_row option) \<Rightarrow> user_manifest list \<Rightarrow> directory \<Rightarrow> leave_db \<Rightarrow> directory \<Rightarrow> leave_db \<Rightarrow> bool" where
  "seed_effect roleByName ms d ld d' ld' \<longleftrightarrow>
     directory_inv d' \<and> emails_lower d' \<and> dr_roles d' = dr_roles d \<and> dr_permissions d' = dr_permissions d \<and>
     (\<exists>new. dr_users d' = dr_users d @ new) \<and>
     (\<forall>m \<in> set (known_rows roleByName ms). find_seeded m d' \<noteq> None) \<and>
     (\<forall>x t. has_default ld' x t \<longleftrightarrow>
        has_default ld x t \<or> x \<in> set (seed_targets roleByName ms d') \<and> t \<in> default_types) \<and>
     (\<forall>x t. allowance ld' x t = allowance ld x t +
        (if x \<in> set (seed_targets roleByName ms d') \<and> t \<in> default_types \<and> \<not> has_default ld x t then 10 else 0))"

text \<open>One row: the account is found or made, and its defaults ensured.\<close>

lemma seed_effect_Cons:
  assumes "roleByName (um_role m) = Some role" "find_seeded m d1 = Some u"
    and "dr_users d1 = dr_users d @ new1" "dr_roles d1 = dr_roles d" "dr_permissions d1 = dr_permissions d"
    and "if ue_live u then (\<forall>x t. has_default ld1 x t \<longleftrightarrow> has_default ld x t \<or> x = ue_id u \<and> t \<in> default_types) \<and>
        (\<forall>x t. allowance ld1 x t = allowance ld x t +
           (if x = ue_id u \<and> t \<in> default_types \<and> \<not> has_default ld x t then 10 else 0)) else ld1 = ld"
    and "seed_effect roleByName ms d1 ld1 d' ld'"
  shows "seed_effect roleByName (m # ms) d ld d' ld'"
proof -
  obtain new where new: "dr_users d' = dr_users d1 @ new" using assms(7) by (auto simp: seed_effect_def)
  have f: "find_seeded m d' = Some u" by (rule find_seeded_append[OF assms(2) new])
  have tg: "set (seed_targets roleByName (m # ms) d') =
      (if ue_live u then {ue_id u} else {}) \<union> set (seed_targets roleByName ms d')"
    using assms(1) f by (simp add: seed_targets_def)
  show ?thesis
  proof (cases "ue_live u")
    case True
    then show ?thesis
      using assms(1,3-7) new f unfolding seed_effect_def tg known_rows_def by auto
  next
    case False
    then show ?thesis
      using assms(1,3-7) new f unfolding seed_effect_def tg known_rows_def by auto
  qed
qed

lemma user_loop_effect:
  assumes "directory_inv d" "emails_lower d" "\<forall>n r. roleByName n = Some r \<longrightarrow> rr_id r \<in> rr_id ` set (dr_roles d)"
  shows "\<exists>d' ld' n' k' a'. user_loop env roleByName ms (n, k, a) (d, ld) = ((d', ld'), Inr (n', k', a')) \<and>
    n' + k' = n + k + length (known_rows roleByName ms) \<and> seed_effect roleByName ms d ld d' ld'"
  using assms
proof (induction ms arbitrary: n k a d ld)
  case Nil
  then show ?case by (simp add: seed_effect_def known_rows_def seed_targets_def)
next
  case (Cons m ms)
  show ?case
  proof (cases "roleByName (um_role m)")
    case None
    then have "seed_effect roleByName (m # ms) = seed_effect roleByName ms"
      "known_rows roleByName (m # ms) = known_rows roleByName ms"
      by (simp_all add: seed_effect_def known_rows_def seed_targets_def fun_eq_iff)
    moreover have "\<exists>d' ld' n' k' a'. user_loop env roleByName ms (n, k, a) (d, ld) = ((d', ld'), Inr (n', k', a')) \<and>
        n' + k' = n + k + length (known_rows roleByName ms) \<and> seed_effect roleByName ms d ld d' ld'"
      by (rule Cons.IH[OF Cons.prems])
    ultimately show ?thesis using None by simp
  next
    case (Some role)
    note role_found = Some
    have len: "length (known_rows roleByName (m # ms)) = 1 + length (known_rows roleByName ms)"
      using Some by (simp add: known_rows_def)
    have role: "rr_id role \<in> rr_id ` set (dr_roles d)" using Cons.prems(3) Some by blast
    show ?thesis
    proof (cases "find_seeded m d")
      case None
      obtain d1 u where u: "insertUser (seed_user_row env m (rr_id role)) d = Inr (d1, u)" "directory_inv d1"
        "emails_lower d1" "d1 = d\<lparr>dr_users := dr_users d @ [u], dr_next := dr_next d + 1\<rparr>"
        "u = (seed_user_row env m (rr_id role))\<lparr>ue_id := dr_next d\<rparr>" "find_seeded m d1 = Some u"
        using insert_seed_user[OF Cons.prems(1,2) None role] by blast
      obtain ld1 x y where e: "ensureDefaultAllocations (sn_now env) (ue_id u) ld = (ld1, Inr (x, y))"
        "\<forall>x t. has_default ld1 x t \<longleftrightarrow> has_default ld x t \<or> x = ue_id u \<and> t \<in> default_types"
        "\<forall>x t. allowance ld1 x t =
           allowance ld x t + (if x = ue_id u \<and> t \<in> default_types \<and> \<not> has_default ld x t then 10 else 0)"
        using ensure_defaults[of "sn_now env" "ue_id u" ld] by blast
      have roles: "\<forall>n r. roleByName n = Some r \<longrightarrow> rr_id r \<in> rr_id ` set (dr_roles d1)" using Cons.prems(3) u(4) by simp
      obtain d' ld' n' k' a' where IH: "user_loop env roleByName ms (n + 1, k, a + x) (d1, ld1) = ((d', ld'), Inr (n', k', a'))"
        "n' + k' = n + 1 + k + length (known_rows roleByName ms)" "seed_effect roleByName ms d1 ld1 d' ld'"
        using Cons.IH[OF u(2,3) roles] by blast
      have "ue_live u" by (simp add: u(5) seed_user_row_def ue_live_def)
      then have "seed_effect roleByName (m # ms) d ld d' ld'"
        using u(4) e(2,3) by (intro seed_effect_Cons[OF Some u(6) _ _ _ _ IH(3)]) simp_all
      then show ?thesis using Some None u(1) e(1) IH(1,2) len by simp
    next
      case (Some u)
      note found = Some
      show ?thesis
      proof (cases "ue_live u")
        case True
        obtain ld1 x y where e: "ensureDefaultAllocations (sn_now env) (ue_id u) ld = (ld1, Inr (x, y))"
          "\<forall>x t. has_default ld1 x t \<longleftrightarrow> has_default ld x t \<or> x = ue_id u \<and> t \<in> default_types"
          "\<forall>x t. allowance ld1 x t =
             allowance ld x t + (if x = ue_id u \<and> t \<in> default_types \<and> \<not> has_default ld x t then 10 else 0)"
          using ensure_defaults[of "sn_now env" "ue_id u" ld] by blast
        obtain d' ld' n' k' a' where IH: "user_loop env roleByName ms (n, k + 1, a + x) (d, ld1) = ((d', ld'), Inr (n', k', a'))"
          "n' + k' = n + (k + 1) + length (known_rows roleByName ms)" "seed_effect roleByName ms d ld1 d' ld'"
          using Cons.IH[OF Cons.prems] by blast
        have "seed_effect roleByName (m # ms) d ld d' ld'"
          using e(2,3) True by (intro seed_effect_Cons[OF role_found found _ _ _ _ IH(3)]) simp_all
        then show ?thesis using role_found found True e(1) IH(1,2) len by simp
      next
        case False
        obtain d' ld' n' k' a' where IH: "user_loop env roleByName ms (n, k + 1, a) (d, ld) = ((d', ld'), Inr (n', k', a'))"
          "n' + k' = n + (k + 1) + length (known_rows roleByName ms)" "seed_effect roleByName ms d ld d' ld'"
          using Cons.IH[OF Cons.prems] by blast
        have "seed_effect roleByName (m # ms) d ld d' ld'"
          using False by (intro seed_effect_Cons[OF role_found found _ _ _ _ IH(3)]) simp_all
        then show ?thesis using role_found found False IH(1,2) len by simp
      qed
    qed
  qed
qed

text \<open>A row that is there with its defaults is skipped.\<close>

lemma user_loop_skip:
  assumes "\<forall>m \<in> set (known_rows roleByName ms). \<exists>u. find_seeded m d = Some u \<and>
      (ue_live u \<longrightarrow> (\<forall>t \<in> default_types. has_default ld (ue_id u) t))"
  shows "user_loop env roleByName ms (n, k, a) (d, ld) = ((d, ld), Inr (n, k + length (known_rows roleByName ms), a))"
  using assms
proof (induction ms arbitrary: n k a)
  case Nil
  then show ?case by (simp add: known_rows_def)
next
  case (Cons m ms)
  have IH: "user_loop env roleByName ms (n, k, a) (d, ld) = ((d, ld), Inr (n, k + length (known_rows roleByName ms), a))" for k
    by (rule Cons.IH) (use Cons.prems in \<open>auto simp: known_rows_def\<close>)
  show ?case
  proof (cases "roleByName (um_role m)")
    case None
    then show ?thesis using IH by (simp add: known_rows_def)
  next
    case (Some role)
    then obtain u where u: "find_seeded m d = Some u" "ue_live u \<longrightarrow> (\<forall>t \<in> default_types. has_default ld (ue_id u) t)"
      using Cons.prems by (auto simp: known_rows_def)
    obtain ld' x y where e: "ensureDefaultAllocations (sn_now env) (ue_id u) ld = (ld', Inr (x, y))"
      "(\<forall>t \<in> default_types. has_default ld (ue_id u) t) \<longrightarrow> ld' = ld \<and> x = 0"
      using ensure_defaults[of "sn_now env" "ue_id u" ld] by blast
    then show ?thesis using Some u IH[of "k + 1"] by (auto simp: known_rows_def)
  qed
qed

text \<open>After a run the accounts are settled: the next run, with whatever password and over whatever else has become of
  the leave tables, does nothing as long as the allocations are those the run left.\<close>

lemma user_seed_settled:
  assumes "directory_inv d" "emails_lower d"
  shows "\<exists>d' ld' n k a. seedUsers env ms (d, ld) = ((d', ld'), Inr (n, k, a)) \<and>
    seed_effect (findRoleByName d) ms d ld d' ld' \<and>
    (\<forall>env' ld2. ld_allocs ld2 = ld_allocs ld' \<longrightarrow> seedUsers env' ms (d', ld2) = ((d', ld2), Inr (0, n + k, 0)))"
proof -
  let ?f = "findRoleByName d"
  have roles: "\<forall>n r. ?f n = Some r \<longrightarrow> rr_id r \<in> rr_id ` set (dr_roles d)" using findRoleByName_Some by fast
  obtain d' ld' n k a where r: "user_loop env ?f ms (0, 0, 0) (d, ld) = ((d', ld'), Inr (n, k, a))"
    "n + k = 0 + 0 + length (known_rows ?f ms)" "seed_effect ?f ms d ld d' ld'"
    using user_loop_effect[OF assms roles] by blast
  have ef: "dr_roles d' = dr_roles d" "\<forall>m \<in> set (known_rows ?f ms). find_seeded m d' \<noteq> None"
    "\<forall>x t. has_default ld' x t \<longleftrightarrow> has_default ld x t \<or> x \<in> set (seed_targets ?f ms d') \<and> t \<in> default_types"
    using r(3) unfolding seed_effect_def by blast+
  have f': "findRoleByName d' = ?f" by (simp add: findRoleByName_def ef(1) fun_eq_iff)
  have "seedUsers env' ms (d', ld2) = ((d', ld2), Inr (0, n + k, 0))" if "ld_allocs ld2 = ld_allocs ld'" for env' ld2
  proof -
    have "has_default ld2 x t \<longleftrightarrow> has_default ld' x t" for x t by (simp add: default_present_def that)
    note def = ef(3)[folded this]
    have "\<forall>m \<in> set (known_rows ?f ms). \<exists>u. find_seeded m d' = Some u \<and>
        (ue_live u \<longrightarrow> (\<forall>t \<in> default_types. has_default ld2 (ue_id u) t))"
    proof
      fix m assume m: "m \<in> set (known_rows ?f ms)"
      then obtain u where u: "find_seeded m d' = Some u" using ef(2) by blast
      have "ue_id u \<in> set (seed_targets ?f ms d')" if "ue_live u"
        using m u that by (force simp: seed_targets_def known_rows_def)
      then show "\<exists>u. find_seeded m d' = Some u \<and> (ue_live u \<longrightarrow> (\<forall>t \<in> default_types. has_default ld2 (ue_id u) t))"
        using u def by blast
    qed
    from user_loop_skip[OF this, of env' 0 0 0] show ?thesis by (simp add: seedUsers_def f' r(2))
  qed
  then show ?thesis using r(1,3) unfolding seedUsers_def by (intro exI[of _ d'] exI[of _ ld'] exI[of _ n] exI[of _ k] exI[of _ a]) simp
qed

text \<open>Seeding users never fails: it keeps the contract and the accounts that were there, makes the missing accounts of
  the rows with a known role, and gives each live account of the manifest the default balances it has no row for,
  ten days of vacation and of sick leave; nobody else's allowance changes, nor that of an account that had both
  rows, from the seed or from the service.  A second run does nothing.\<close>

theorem user_seed_outcome:
  assumes "directory_inv d" "emails_lower d"
  shows "\<exists>d' ld' n k a. seedUsers env ms (d, ld) = ((d', ld'), Inr (n, k, a)) \<and>
    directory_inv d' \<and> (\<exists>new. dr_users d' = dr_users d @ new) \<and>
    (\<forall>m \<in> set ms. findRoleByName d (um_role m) \<noteq> None \<longrightarrow> find_seeded m d' \<noteq> None) \<and>
    (\<forall>e t. allowance ld' e t = allowance ld e t +
       (if e \<in> set (seed_targets (findRoleByName d) ms d') \<and> (t = Vacation \<or> t = Sick) \<and> \<not> has_default ld e t
        then 10 else 0)) \<and>
    seedUsers env ms (d', ld') = ((d', ld'), Inr (0, n + k, 0))"
proof -
  let ?f = "findRoleByName d"
  obtain d' ld' n k a where r: "seedUsers env ms (d, ld) = ((d', ld'), Inr (n, k, a))" "seed_effect ?f ms d ld d' ld'"
    "seedUsers env ms (d', ld') = ((d', ld'), Inr (0, n + k, 0))"
    using user_seed_settled[OF assms, of env ms ld] by blast
  have dt: "t \<in> default_types \<longleftrightarrow> t = Vacation \<or> t = Sick" for t by (auto simp: default_types_def)
  have ef: "directory_inv d'" "\<exists>new. dr_users d' = dr_users d @ new"
    "\<forall>m \<in> set (known_rows ?f ms). find_seeded m d' \<noteq> None"
    "\<forall>x t. allowance ld' x t = allowance ld x t +
       (if x \<in> set (seed_targets ?f ms d') \<and> (t = Vacation \<or> t = Sick) \<and> \<not> has_default ld x t then 10 else 0)"
    using r(2) unfolding seed_effect_def dt by blast+
  have "\<forall>m \<in> set ms. ?f (um_role m) \<noteq> None \<longrightarrow> find_seeded m d' \<noteq> None"
    using ef(3) by (simp add: known_rows_def)
  then show ?thesis using ef(1,2,4) r(1,3) by blast
qed

text \<open>The account the service makes and the account the seed makes hold the same balances: after \<open>createUser\<close> the
  seed adds nothing to the new user's allowance, whatever the manifest.\<close>

lemma service_grants_defaults:
  assumes "createUser h now i d ld = (d1, ld1, Inr u)" "t = Vacation \<or> t = Sick"
  shows "has_default ld1 (usr_id u) t"
proof -
  obtain row where row: "insertUser (new_user h now i (toLowerCase (trim (ui_email i)))) d = Inr (d1, row)"
    "toDomain d1 row = Inr u" "default_allocations now (ue_id row) (ui_created_by i) ld = (ld1, Inr ())"
    using assms(1) by (auto simp: createUser_def Let_def split: if_splits sum.splits prod.splits)
  have "usr_id u = ue_id row" using row(2) by (auto simp: toDomain_def split: option.splits)
  then show ?thesis
    using row(3) assms(2)
    by (auto simp: default_allocations_def DEFAULT_LEAVE_ALLOCATIONS_def al_create_def new_allocation_def Let_def
        default_present_def)
qed

theorem seed_after_service_adds_nothing:
  assumes "directory_step\<^sup>*\<^sup>* (empty_directory seed_roles perms) d"
    and "createUser h now i d ld = (d1, ld1, Inr u)"
    and "seedUsers env ms (d1, ld1) = ((d2, ld2), res)"
  shows "allowance ld2 (usr_id u) t = allowance ld1 (usr_id u) t"
proof -
  have "directory_step d d1" using directory_step.create_user[of d h now i ld] assms(2) by simp
  then have d1: "directory_inv d1" "emails_lower d1"
    using directory_step_inv step_emails_lower directory_reachable_inv[OF assms(1)] reachable_emails_lower[OF assms(1)]
    by blast+
  obtain d' ld' n k a where r: "seedUsers env ms (d1, ld1) = ((d', ld'), Inr (n, k, a))"
    "\<forall>e t. allowance ld' e t = allowance ld1 e t +
       (if e \<in> set (seed_targets (findRoleByName d1) ms d') \<and> (t = Vacation \<or> t = Sick) \<and> \<not> has_default ld1 e t
        then 10 else 0)"
    using user_seed_outcome[OF d1, of env ms ld1] by blast
  then show ?thesis using assms(3) service_grants_defaults[OF assms(2)] by auto
qed

section \<open>Witnesses\<close>

definition sample_roles :: "role_manifest list" where
  "sample_roles =
     [\<lparr>rm_name = ''SUPER_ADMIN'', rm_description = None, rm_codes = None\<rparr>,
      \<lparr>rm_name = ''LEAD'', rm_description = Some ''Approves leave'', rm_codes = Some [''LEAVE:Approve'', ''LEAVE:Gone'']\<rparr>]"

text \<open>A directory with a custom role and one with that role deleted, over the seeded catalogue.\<close>

definition people_before :: directory where
  "people_before =
     fst (createRole ''LEAD'' None [1, 2] None (empty_directory seed_roles (map to_permission (ct_rows seeded_catalog))))"

definition people_deleted :: directory where
  "people_deleted = fst (softDeleteRole 9 7 None people_before)"

lemma people_inv: "directory_inv people_before" "emails_lower people_before" "directory_inv people_deleted"
proof -
  have s: "directory_step (empty_directory seed_roles (map to_permission (ct_rows seeded_catalog))) people_before"
    "directory_step people_before people_deleted"
    unfolding people_before_def people_deleted_def by (rule directory_step.create_role, rule directory_step.delete_role)
  show i: "directory_inv people_before" by (rule directory_step_inv[OF s(1) directory_seed_inv])
  show "directory_inv people_deleted" by (rule directory_step_inv[OF s(2) i])
  show "emails_lower people_before"
    by (rule step_emails_lower[OF s(1)]) (simp add: emails_lower_def empty_directory_def)
qed

lemma sample_roles_distinct: "distinct (map rm_name sample_roles)"
  by (simp add: sample_roles_def)

definition people_roles :: directory where
  "people_roles = fst (seedRoles sample_roles people_before)"

lemma people_roles_seeded: "\<exists>c. seedRoles sample_roles people_before = (people_roles, Inr c)"
proof -
  have "okR (snd (seedRoles sample_roles people_before))" by code_simp
  then show ?thesis unfolding people_roles_def by (metis okR_ex prod.collapse)
qed

theorem role_seed_outcomes_witness:
  "seedRoles sample_roles people_roles = (people_roles, Inr (0, 2)) \<and>
   map rr_permissions (filter (\<lambda>r. rr_name r = ''LEAD'') (dr_roles people_roles)) = [[2]] \<and>
   \<not> okR (snd (seedRoles sample_roles people_deleted))"
proof (intro conjI)
  obtain c where "seedRoles sample_roles people_before = (people_roles, Inr c)" using people_roles_seeded by blast
  then show "seedRoles sample_roles people_roles = (people_roles, Inr (0, 2))"
    using role_seed_outcomes[OF people_inv(1) sample_roles_distinct] by (simp add: sample_roles_def)
  show "map rr_permissions (filter (\<lambda>r. rr_name r = ''LEAD'') (dr_roles people_roles)) = [[2]]" by code_simp
  have "\<not> names_free sample_roles people_deleted" by code_simp
  then show "\<not> okR (snd (seedRoles sample_roles people_deleted))"
    using role_seed_outcomes[OF people_inv(3) sample_roles_distinct] by blast
qed

definition sample_account :: seed_env where
  "sample_account = \<lparr>sn_hasher = sample_hasher, sn_password = ''Asima@1234'', sn_now = 5\<rparr>"

definition sample_people :: "user_manifest list" where
  "sample_people =
     [\<lparr>um_email = '' Lea@Asima.inc'', um_first = ''Lea'', um_last = ''D'', um_title = None, um_role = ''LEAD'',
       um_admin = None, um_active = None\<rparr>,
      \<lparr>um_email = ''x@asima.inc'', um_first = ''X'', um_last = ''Y'', um_title = None, um_role = ''GONE'',
       um_admin = None, um_active = None\<rparr>]"

theorem user_seed_outcome_witness:
  "\<exists>d' ld' n k a. seedUsers sample_account sample_people (people_before, empty_leave_db) = ((d', ld'), Inr (n, k, a)) \<and>
     seedUsers sample_account sample_people (d', ld') = ((d', ld'), Inr (0, n + k, 0)) \<and> directory_inv d'"
  using user_seed_outcome[OF people_inv(1,2), of sample_account sample_people empty_leave_db] by blast

definition people_lead :: directory where
  "people_lead = fst (fst (seedUsers sample_account sample_people (people_before, empty_leave_db)))"

lemma people_lead_inv: "directory_inv people_lead"
  unfolding people_lead_def
  using user_seed_outcome[OF people_inv(1,2), of sample_account sample_people empty_leave_db] by fastforce

theorem role_seed_decides_access_witness:
  "\<exists>u. findUserById (fst (seedRoles sample_roles people_lead)) 1 = Inr u \<and>
     canActivate (Some [(''LEAVE'', [''Approve''])]) (Some u) \<and> \<not> canActivate (Some [(''USER'', [''View''])]) (Some u)"
proof -
  let ?d = "fst (seedRoles sample_roles people_lead)"
  let ?m = "\<lparr>rm_name = ''LEAD'', rm_description = Some ''Approves leave'', rm_codes = Some [''LEAVE:Approve'', ''LEAVE:Gone'']\<rparr>"
  have "okR (snd (seedRoles sample_roles people_lead))" by code_simp
  then obtain c where s: "seedRoles sample_roles people_lead = (?d, Inr c)" by (metis okR_ex prod.collapse)
  have perms: "dr_permissions people_lead = map to_permission (ct_rows seeded_catalog)" by code_simp
  have m: "?m \<in> set sample_roles" by (simp add: sample_roles_def)
  have "(case findUserById ?d 1 of Inl _ \<Rightarrow> None | Inr u \<Rightarrow> Some (role_name (usr_role u), usr_system_admin u)) =
      Some (''LEAD'', False)" by code_simp
  then obtain u where u: "findUserById ?d 1 = Inr u" "role_name (usr_role u) = ''LEAD''" "\<not> usr_system_admin u"
    by (auto split: sum.splits)
  then have name: "role_name (usr_role u) = rm_name ?m" by simp
  have codes: "findByCode seeded_catalog ''LEAVE:Approve'' \<noteq> None" by code_simp
  note access = role_seed_decides_access[OF people_lead_inv sample_roles_distinct s seeded_catalog_reachable perms m u(1) name]
  have "canActivate (Some [(''LEAVE'', [''Approve''])]) (Some u)"
    unfolding access using codes by (simp add: expand_def code_of_def)
  moreover have "\<not> canActivate (Some [(''USER'', [''View''])]) (Some u)"
    unfolding access using u(3) by (simp add: expand_def code_of_def)
  ultimately show ?thesis using u(1) by blast
qed

theorem seed_after_service_adds_nothing_witness:
  "allowance (snd (fst (seedUsers sample_account sample_people (dir_sample,
      fst (snd (createUser sample_hasher 5 (sample_input '' Jane@X.io'' 7) dir_roles empty_leave_db)))))) 1 Vacation =
   allowance (fst (snd (createUser sample_hasher 5 (sample_input '' Jane@X.io'' 7) dir_roles empty_leave_db))) 1 Vacation"
proof -
  let ?c = "createUser sample_hasher 5 (sample_input '' Jane@X.io'' 7) dir_roles empty_leave_db"
  have "okR (snd (snd ?c)) \<and> (case snd (snd ?c) of Inr u \<Rightarrow> usr_id u = 1 | _ \<Rightarrow> False)" by code_simp
  then obtain u where u: "?c = (dir_sample, fst (snd ?c), Inr u)" "usr_id u = 1"
    unfolding dir_sample_def by (cases ?c) (auto split: sum.splits)
  show ?thesis
    using seed_after_service_adds_nothing[OF dir_roles_reachable u(1), of sample_account sample_people] u(2)
    by (metis prod.collapse)
qed

end
