(* ===== verification/SeedChains.thy ===== *)
theory SeedChains
  imports ApprovalChains Directory
begin

text \<open>
  The seeder of the approval chains (\<open>src/src/database/seeds/approval-chain\<close>): the pure assignment of
  approvers from the organisation's roles, and the run that inserts the missing rows into the table of
  \<open>ApprovalChains\<close>.  Each insert is a transaction of its own, so a run that throws keeps what it inserted.
\<close>

section \<open>The assignment\<close>

record seed_employee =
  se_id :: int
  se_role :: string
  se_admin :: bool

record chain_row =
  cr_employee :: int
  cr_step :: int
  cr_approver :: int

text \<open>One pool as the loop over \<open>k\<close> visits it.\<close>

definition rotated :: "nat \<Rightarrow> int list \<Rightarrow> int list" where
  "rotated i pool = map (\<lambda>k. pool ! ((i + k) mod length pool)) [0..<length pool]"

definition pick :: "int \<Rightarrow> nat \<Rightarrow> int list list \<Rightarrow> int option \<Rightarrow> http_error + int" where
  "pick self i pools avoid =
     (let cands = concat (map (rotated i) pools);
          scan = (\<lambda>allow_avoid. find (\<lambda>c. c \<noteq> self \<and> (allow_avoid \<or> Some c \<noteq> avoid)) cands)
      in case scan False of
           Some c \<Rightarrow> Inr c
         | None \<Rightarrow> (case scan True of Some c \<Rightarrow> Inr c | None \<Rightarrow> Inl PlainError))"

definition PM :: string where "PM = ''PROJECT_MANAGER''"
definition TD :: string where "TD = ''TECHNICAL_DIRECTOR''"
definition HR :: string where "HR = ''HR_ADMIN''"
definition OPS :: string where "OPS = ''OPERATIONS_MANAGER''"
definition EMP :: string where "EMP = ''EMPLOYEE''"

definition active_employees :: "seed_employee list \<Rightarrow> seed_employee list" where
  "active_employees es = sort_key se_id (filter (\<lambda>e. \<not> se_admin e) es)"

definition ids_of :: "seed_employee list \<Rightarrow> string \<Rightarrow> int list" where
  "ids_of active role = map se_id (filter (\<lambda>e. se_role e = role) active)"

fun index_in_role :: "seed_employee list \<Rightarrow> (string \<Rightarrow> nat) \<Rightarrow> (int \<Rightarrow> nat) \<Rightarrow> (int \<Rightarrow> nat)" where
  "index_in_role [] counters out = out"
| "index_in_role (e # es) counters out =
     (let n = counters (se_role e)
      in index_in_role es (counters(se_role e := n + 1)) (out(se_id e := n)))"

definition levels_of :: "seed_employee list \<Rightarrow> seed_employee \<Rightarrow> nat \<Rightarrow> http_error + (int \<times> int option)" where
  "levels_of active e i =
     (let pm = ids_of active PM; td = ids_of active TD; hr = ids_of active HR;
          one = (\<lambda>pools. bindR (pick (se_id e) i pools None) (\<lambda>l1. Inr (l1, None)));
          two = (\<lambda>pools pools'.
            bindR (pick (se_id e) i pools None) (\<lambda>l1.
            bindR (pick (se_id e) i pools' (Some l1)) (\<lambda>l2. Inr (l1, Some l2))))
      in if se_role e = EMP then two [pm, td, hr] [td, pm, hr]
         else if se_role e = PM then two [td, hr, pm] [hr, td]
         else if se_role e = TD \<or> se_role e = OPS then one [hr, td, pm]
         else if se_role e = HR then one [hr, td, pm]
         else one [pm, td, hr])"

definition rows_of :: "seed_employee \<Rightarrow> int \<times> int option \<Rightarrow> chain_row list" where
  "rows_of e ls =
     \<lparr>cr_employee = se_id e, cr_step = 1, cr_approver = fst ls\<rparr> #
     (case snd ls of None \<Rightarrow> [] | Some l2 \<Rightarrow> [\<lparr>cr_employee = se_id e, cr_step = 2, cr_approver = l2\<rparr>])"

definition assignApprovers :: "seed_employee list \<Rightarrow> http_error + chain_row list" where
  "assignApprovers es =
     (let active = active_employees es;
          index = index_in_role active (\<lambda>_. 0) (\<lambda>_. 0)
      in bindR (mapR (\<lambda>e. bindR (levels_of active e (index (se_id e))) (\<lambda>ls. Inr (rows_of e ls))) active)
           (\<lambda>rss. Inr (concat rss)))"

section \<open>The run\<close>

definition seed_employees :: "directory \<Rightarrow> seed_employee list" where
  "seed_employees d =
     map (\<lambda>u. \<lparr>se_id = ue_id u,
                se_role = (case find (\<lambda>r. rr_id r = ue_role_id u \<and> rr_live r) (dr_roles d) of
                             None \<Rightarrow> [] | Some r \<Rightarrow> rr_name r),
                se_admin = ue_admin u\<rparr>)
       (filter ue_live (dr_users d))"

definition seed_author :: "directory \<Rightarrow> int option" where
  "seed_author d = map_option ue_id (find (\<lambda>u. ue_live u \<and> ue_admin u) (dr_users d))"

text \<open>The loop over the rows: the table so far, and the counts of inserted and skipped rows or the error.\<close>

fun seed_chain_rows ::
  "user_port \<Rightarrow> int \<Rightarrow> int option \<Rightarrow> chain_row list \<Rightarrow> nat \<times> nat \<Rightarrow> chain_db
     \<Rightarrow> chain_db \<times> (http_error + nat \<times> nat)" where
  "seed_chain_rows up now by [] (ins, skip) db = (db, Inr (ins, skip))"
| "seed_chain_rows up now by (row # rows) (ins, skip) db =
     (if cr_approver row = cr_employee row then seed_chain_rows up now by rows (ins, skip) db
      else if list_ex (\<lambda>r. chain_active r \<and> chain_key r = (cr_employee row, cr_step row)) (ch_rows db)
      then seed_chain_rows up now by rows (ins, skip + 1) db
      else (case insert_chain up now
                   \<lparr>ci_employee = cr_employee row, ci_step = cr_step row, ci_approver = cr_approver row,
                    ci_created_by = by\<rparr> db of
              Inl er \<Rightarrow> (db, Inl er)
            | Inr db' \<Rightarrow> seed_chain_rows up now by rows (ins + 1, skip) db'))"

definition seedChains :: "int \<Rightarrow> directory \<Rightarrow> chain_db \<Rightarrow> chain_db \<times> (http_error + nat \<times> nat)" where
  "seedChains now d db =
     (case assignApprovers (seed_employees d) of
        Inl er \<Rightarrow> (db, Inl er)
      | Inr rows \<Rightarrow> seed_chain_rows (directory_port d) now (seed_author d) rows (0, 0) db)"

section \<open>Who is picked\<close>

lemma set_rotated [simp]: "set (rotated i pool) = set pool"
proof (cases "pool = []")
  case False
  then have n: "0 < length pool" by simp
  show ?thesis
  proof
    show "set (rotated i pool) \<subseteq> set pool" using n by (auto simp: rotated_def)
    show "set pool \<subseteq> set (rotated i pool)"
    proof
      fix x assume "x \<in> set pool"
      then obtain j where j: "j < length pool" "x = pool ! j" by (auto simp: in_set_conv_nth)
      let ?n = "length pool"
      let ?k = "(j + (?n - i mod ?n)) mod ?n"
      have "(i + ?k) mod ?n = (i mod ?n + (j + (?n - i mod ?n))) mod ?n"
        by (metis mod_add_eq mod_add_right_eq mod_mod_trivial)
      also have "\<dots> = (j + ?n) mod ?n"
        using n by (metis add.assoc add.commute le_add_diff_inverse mod_le_divisor)
      finally have "(i + ?k) mod ?n = j" using j by simp
      moreover have "?k < ?n" using n by simp
      ultimately show "x \<in> set (rotated i pool)"
        using j unfolding rotated_def by (auto intro!: image_eqI[of _ _ ?k])
    qed
  qed
qed (simp add: rotated_def)

lemma pick_Inr:
  assumes "pick self i pools avoid = Inr c"
  shows "c \<in> \<Union> (set ` set pools)" "c \<noteq> self"
    "Some c = avoid \<Longrightarrow> b \<in> \<Union> (set ` set pools) \<Longrightarrow> b \<noteq> self \<Longrightarrow> b = c"
proof -
  let ?cands = "concat (map (rotated i) pools)"
  have s: "set ?cands = \<Union> (set ` set pools)" by auto
  from assms consider "find (\<lambda>c. c \<noteq> self \<and> Some c \<noteq> avoid) ?cands = Some c"
    | "find (\<lambda>c. c \<noteq> self \<and> Some c \<noteq> avoid) ?cands = None" "find (\<lambda>c. c \<noteq> self) ?cands = Some c"
    by (auto simp: pick_def Let_def split: option.splits)
  then have "c \<in> set ?cands \<and> c \<noteq> self \<and>
      (Some c = avoid \<longrightarrow> (\<forall>b \<in> set ?cands. b \<noteq> self \<longrightarrow> b = c))"
  proof cases
    case 1
    then show ?thesis using find_Some_iff_mem[OF 1] by auto
  next
    case 2
    then show ?thesis using find_Some_iff_mem[OF 2(2)] by (auto simp: find_None_conv)
  qed
  then show "c \<in> \<Union> (set ` set pools)" "c \<noteq> self"
    "Some c = avoid \<Longrightarrow> b \<in> \<Union> (set ` set pools) \<Longrightarrow> b \<noteq> self \<Longrightarrow> b = c"
    unfolding s by blast+
qed

lemma pick_ok_iff:
  "okR (pick self i pools avoid) \<longleftrightarrow> (\<exists>c \<in> \<Union> (set ` set pools). c \<noteq> self)"
proof -
  let ?cands = "concat (map (rotated i) pools)"
  have s: "set ?cands = \<Union> (set ` set pools)" by auto
  show ?thesis
  proof (cases "\<exists>c \<in> set ?cands. c \<noteq> self")
    case True
    then obtain b where b: "b \<in> set ?cands" "b \<noteq> self" by blast
    obtain c where "find (\<lambda>c. c \<noteq> self) ?cands = Some c"
      using find_Some_ex[of b ?cands "\<lambda>c. c \<noteq> self"] b by blast
    then have "okR (pick self i pools avoid)" by (simp add: pick_def Let_def split: option.split)
    then show ?thesis using True unfolding s by blast
  next
    case False
    then have "find (\<lambda>c. c \<noteq> self \<and> Some c \<noteq> avoid) ?cands = None" "find (\<lambda>c. c \<noteq> self) ?cands = None"
      by (auto simp: find_None_conv)
    then have "\<not> okR (pick self i pools avoid)" by (simp add: pick_def Let_def)
    then show ?thesis using False unfolding s by blast
  qed
qed

section \<open>The rows\<close>

definition approver_role :: "string \<Rightarrow> bool" where
  "approver_role n \<longleftrightarrow> n = PM \<or> n = TD \<or> n = HR"

definition two_levels :: "seed_employee \<Rightarrow> bool" where
  "two_levels e \<longleftrightarrow> se_role e = EMP \<or> se_role e = PM"

lemma ids_of_iff:
  "a \<in> set (ids_of (active_employees es) n) \<longleftrightarrow> (\<exists>q \<in> set es. \<not> se_admin q \<and> se_id q = a \<and> se_role q = n)"
  by (auto simp: ids_of_def active_employees_def)

lemma role_consts: "PM \<noteq> TD" "PM \<noteq> HR" "TD \<noteq> HR" "PM \<noteq> EMP" "TD \<noteq> EMP" "HR \<noteq> EMP" "OPS \<noteq> PM" "OPS \<noteq> EMP"
  "TD \<noteq> PM" "HR \<noteq> PM"
  by (simp_all add: PM_def TD_def HR_def EMP_def OPS_def)

definition eligible :: "seed_employee list \<Rightarrow> int \<Rightarrow> bool" where
  "eligible es a \<longleftrightarrow> (\<exists>q \<in> set es. \<not> se_admin q \<and> se_id q = a \<and> approver_role (se_role q))"

lemma eligible_pools:
  "eligible es a \<longleftrightarrow> a \<in> set (ids_of (active_employees es) PM) \<union> set (ids_of (active_employees es) TD) \<union>
     set (ids_of (active_employees es) HR)"
  by (auto simp: eligible_def ids_of_iff approver_role_def)

text \<open>The pools of the two levels of an employee.\<close>

definition pools1 :: "seed_employee list \<Rightarrow> seed_employee \<Rightarrow> int list list" where
  "pools1 active e =
     (let pm = ids_of active PM; td = ids_of active TD; hr = ids_of active HR
      in if se_role e = PM then [td, hr, pm]
         else if se_role e = TD \<or> se_role e = OPS \<or> se_role e = HR then [hr, td, pm]
         else [pm, td, hr])"

definition pools2 :: "seed_employee list \<Rightarrow> seed_employee \<Rightarrow> int list list" where
  "pools2 active e =
     (let pm = ids_of active PM; td = ids_of active TD; hr = ids_of active HR
      in if se_role e = PM then [hr, td] else [td, pm, hr])"

lemma levels_of_pools:
  "levels_of active e i =
     bindR (pick (se_id e) i (pools1 active e) None) (\<lambda>l1.
       if two_levels e then bindR (pick (se_id e) i (pools2 active e) (Some l1)) (\<lambda>l2. Inr (l1, Some l2))
       else Inr (l1, None))"
  using role_consts by (simp add: levels_of_def pools1_def pools2_def two_levels_def Let_def)

lemma pools1_set: "c \<in> \<Union> (set ` set (pools1 (active_employees es) e)) \<longleftrightarrow> eligible es c"
  by (auto simp: pools1_def Let_def eligible_pools)

lemma pools2_eligible: "c \<in> \<Union> (set ` set (pools2 (active_employees es) e)) \<Longrightarrow> eligible es c"
  by (auto simp: pools2_def Let_def eligible_pools split: if_splits)

lemma pools2_lead:
  "q \<in> set es \<Longrightarrow> \<not> se_admin q \<Longrightarrow> se_role q \<in> {TD, HR} \<Longrightarrow>
     se_id q \<in> \<Union> (set ` set (pools2 (active_employees es) e))"
  by (auto simp: pools2_def Let_def ids_of_iff)

lemma levels_Inr:
  assumes "levels_of (active_employees es) e i = Inr (l1, l2)"
  shows "eligible es l1" "l1 \<noteq> se_id e" "l2 \<noteq> None \<longleftrightarrow> two_levels e"
    "l2 = Some b \<Longrightarrow> eligible es b \<and> b \<noteq> se_id e"
    "l2 = Some l1 \<Longrightarrow> q \<in> set es \<Longrightarrow> \<not> se_admin q \<Longrightarrow> se_role q \<in> {TD, HR} \<Longrightarrow> se_id q \<noteq> se_id e \<Longrightarrow> se_id q = l1"
proof -
  let ?p1 = "pools1 (active_employees es) e" and ?p2 = "pools2 (active_employees es) e"
  from assms have 1: "pick (se_id e) i ?p1 None = Inr l1"
    and 2: "if two_levels e then \<exists>m. pick (se_id e) i ?p2 (Some l1) = Inr m \<and> l2 = Some m else l2 = None"
    by (auto simp: levels_of_pools bindR_eq_Inr split: if_splits)
  show "eligible es l1" "l1 \<noteq> se_id e"
    using pick_Inr(1,2)[OF 1] pools1_set by blast+
  show "l2 \<noteq> None \<longleftrightarrow> two_levels e" using 2 by (auto split: if_splits)
  show "eligible es b \<and> b \<noteq> se_id e" if "l2 = Some b"
  proof -
    have "pick (se_id e) i ?p2 (Some l1) = Inr b" using 2 that by (auto split: if_splits)
    then show ?thesis using pick_Inr(1,2) pools2_eligible by blast
  qed
  show "se_id q = l1" if "l2 = Some l1" "q \<in> set es" "\<not> se_admin q" "se_role q \<in> {TD, HR}" "se_id q \<noteq> se_id e"
  proof -
    have "pick (se_id e) i ?p2 (Some l1) = Inr l1" using 2 that(1) by (auto split: if_splits)
    from pick_Inr(3)[OF this refl pools2_lead[OF that(2-4)] that(5)] show ?thesis .
  qed
qed

lemma okR_bindR: "(\<And>x. okR (f x)) \<Longrightarrow> okR (bindR r f) \<longleftrightarrow> okR r"
  by (cases r) simp_all

lemma assign_Inr:
  assumes "assignApprovers es = Inr rows"
  obtains f where "rows = concat (map (\<lambda>e. rows_of e (f e)) (active_employees es))"
    "\<And>e. e \<in> set (active_employees es) \<Longrightarrow> \<exists>i. levels_of (active_employees es) e i = Inr (f e)"
proof -
  let ?act = "active_employees es"
  let ?lev = "\<lambda>e. levels_of ?act e (index_in_role ?act (\<lambda>_. 0) (\<lambda>_. 0) (se_id e))"
  from assms obtain rss where rss: "mapR (\<lambda>e. bindR (?lev e) (\<lambda>ls. Inr (rows_of e ls))) ?act = Inr rss" "rows = concat rss"
    by (auto simp: assignApprovers_def Let_def bindR_eq_Inr)
  from rss(1) obtain g where g: "rss = map g ?act"
    "\<forall>e \<in> set ?act. bindR (?lev e) (\<lambda>ls. Inr (rows_of e ls)) = Inr (g e)" by (rule mapR_Inr_map)
  have lev: "?lev e = Inr (projr (?lev e)) \<and> g e = rows_of e (projr (?lev e))" if "e \<in> set ?act" for e
    using g(2) that by (cases "?lev e") auto
  show thesis
  proof (rule that)
    show "rows = concat (map (\<lambda>e. rows_of e (projr (?lev e))) ?act)"
      using rss(2) g(1) lev by (simp cong: map_cong)
    show "\<exists>i. levels_of ?act e i = Inr (projr (?lev e))" if "e \<in> set ?act" for e
      using lev[OF that] by blast
  qed
qed

lemma active_employees_iff: "e \<in> set (active_employees es) \<longleftrightarrow> e \<in> set es \<and> \<not> se_admin e"
  by (auto simp: active_employees_def)

lemma distinct_active: "distinct (map se_id es) \<Longrightarrow> distinct (map se_id (active_employees es))"
  by (drule distinct_map_filter[of _ _ "\<lambda>e. \<not> se_admin e"]) (simp add: active_employees_def distinct_map)

lemma rows_of_keys:
  "r \<in> set (rows_of e ls) \<Longrightarrow> cr_employee r = se_id e \<and> cr_step r \<in> {1, 2}"
  "distinct (map (\<lambda>r. (cr_employee r, cr_step r)) (rows_of e ls))"
  by (auto simp: rows_of_def split: option.splits)

lemma distinct_rows:
  assumes "distinct (map se_id es)"
  shows "distinct (map (\<lambda>r. (cr_employee r, cr_step r)) (concat (map (\<lambda>e. rows_of e (f e)) es)))"
  using assms
proof (induction es)
  case (Cons e es)
  have "cr_employee r \<noteq> se_id e" if "r \<in> set (concat (map (\<lambda>e. rows_of e (f e)) es))" for r
  proof -
    from that obtain e' where e': "e' \<in> set es" "r \<in> set (rows_of e' (f e'))" by auto
    then have "cr_employee r = se_id e'" using rows_of_keys(1) by blast
    moreover have "se_id e' \<in> se_id ` set es" using e'(1) by (rule imageI)
    ultimately show ?thesis using Cons.prems by auto
  qed
  moreover have "distinct (map (\<lambda>r. (cr_employee r, cr_step r)) (concat (map (\<lambda>e. rows_of e (f e)) es)))"
    using Cons by simp
  moreover have "cr_employee r = se_id e" if "r \<in> set (rows_of e (f e))" for r
    using rows_of_keys(1)[OF that] by simp
  ultimately show ?case using rows_of_keys(2)[of e "f e"] by (fastforce simp del: set_concat)
qed simp

text \<open>A successful assignment has one row for each employee that is no system administrator and a second for
  exactly the employees and project managers; every approver is another person who is project manager, technical
  director or HR, and the two approvers of a person differ unless the first is the only other director or HR.\<close>

theorem seeded_assignments_sound:
  assumes "assignApprovers es = Inr rows" "distinct (map se_id es)"
  shows "distinct (map (\<lambda>r. (cr_employee r, cr_step r)) rows) \<and>
    (\<forall>r \<in> set rows. cr_step r \<in> {1, 2} \<and> eligible es (cr_approver r) \<and> cr_approver r \<noteq> cr_employee r \<and>
       (\<exists>e \<in> set es. \<not> se_admin e \<and> se_id e = cr_employee r)) \<and>
    (\<forall>e \<in> set es. \<not> se_admin e \<longrightarrow>
       (\<exists>a. \<lparr>cr_employee = se_id e, cr_step = 1, cr_approver = a\<rparr> \<in> set rows) \<and>
       ((\<exists>b. \<lparr>cr_employee = se_id e, cr_step = 2, cr_approver = b\<rparr> \<in> set rows) \<longleftrightarrow> two_levels e)) \<and>
    (\<forall>i a. \<lparr>cr_employee = i, cr_step = 1, cr_approver = a\<rparr> \<in> set rows \<longrightarrow>
       \<lparr>cr_employee = i, cr_step = 2, cr_approver = a\<rparr> \<in> set rows \<longrightarrow>
       (\<forall>q \<in> set es. \<not> se_admin q \<longrightarrow> se_role q \<in> {TD, HR} \<longrightarrow> se_id q \<noteq> i \<longrightarrow> se_id q = a))"
proof -
  let ?act = "active_employees es"
  from assms(1) obtain f where f: "rows = concat (map (\<lambda>e. rows_of e (f e)) ?act)"
    "\<And>e. e \<in> set ?act \<Longrightarrow> \<exists>i. levels_of ?act e i = Inr (f e)" by (rule assign_Inr) blast
  have lev: "eligible es (fst (f e))" "fst (f e) \<noteq> se_id e" "snd (f e) \<noteq> None \<longleftrightarrow> two_levels e"
      "snd (f e) = Some b \<Longrightarrow> eligible es b \<and> b \<noteq> se_id e"
      "snd (f e) = Some (fst (f e)) \<Longrightarrow> q \<in> set es \<Longrightarrow> \<not> se_admin q \<Longrightarrow> se_role q \<in> {TD, HR} \<Longrightarrow>
         se_id q \<noteq> se_id e \<Longrightarrow> se_id q = fst (f e)"
    if mem: "e \<in> set ?act" for e b q
  proof -
    obtain i where "levels_of ?act e i = Inr (fst (f e), snd (f e))" using f(2)[OF mem] by auto
    note l = levels_Inr[OF this]
    show "eligible es (fst (f e))" "fst (f e) \<noteq> se_id e" "snd (f e) \<noteq> None \<longleftrightarrow> two_levels e" by (rule l)+
    show "snd (f e) = Some b \<Longrightarrow> eligible es b \<and> b \<noteq> se_id e" by (rule l(4))
    show "snd (f e) = Some (fst (f e)) \<Longrightarrow> q \<in> set es \<Longrightarrow> \<not> se_admin q \<Longrightarrow> se_role q \<in> {TD, HR} \<Longrightarrow>
         se_id q \<noteq> se_id e \<Longrightarrow> se_id q = fst (f e)" by (rule l(5))
  qed
  have row: "r \<in> set rows \<longleftrightarrow> (\<exists>e \<in> set ?act. r \<in> set (rows_of e (f e)))" for r
    using f(1) by auto
  have mem: "r \<in> set (rows_of e (f e)) \<longleftrightarrow>
      cr_employee r = se_id e \<and> (cr_step r = 1 \<and> cr_approver r = fst (f e) \<or> cr_step r = 2 \<and> snd (f e) = Some (cr_approver r))"
    for r e by (cases r) (auto simp: rows_of_def split: option.splits)
  have one: "e = e'" if "e \<in> set ?act" "e' \<in> set ?act" "se_id e = se_id e'" for e e'
    using distinct_active[OF assms(2)] that by (meson distinct_map inj_onD)
  show ?thesis
  proof (intro conjI ballI allI impI)
    show "distinct (map (\<lambda>r. (cr_employee r, cr_step r)) rows)"
      unfolding f(1) by (rule distinct_rows[OF distinct_active[OF assms(2)]])
  next
    fix r assume "r \<in> set rows"
    then obtain e where e: "e \<in> set ?act" "r \<in> set (rows_of e (f e))" using row by blast
    then show "cr_step r \<in> {1, 2}" "eligible es (cr_approver r)" "cr_approver r \<noteq> cr_employee r"
      using mem[of r e] lev[OF e(1)] by auto
    show "\<exists>e \<in> set es. \<not> se_admin e \<and> se_id e = cr_employee r"
      using e mem[of r e] active_employees_iff by auto
  next
    fix e assume e: "e \<in> set es" "\<not> se_admin e"
    then have a: "e \<in> set ?act" by (simp add: active_employees_iff)
    then show "\<exists>a. \<lparr>cr_employee = se_id e, cr_step = 1, cr_approver = a\<rparr> \<in> set rows"
      using row mem by fastforce
    show "(\<exists>b. \<lparr>cr_employee = se_id e, cr_step = 2, cr_approver = b\<rparr> \<in> set rows) \<longleftrightarrow> two_levels e"
      using lev(3)[OF a] a row mem one by fastforce
  next
    fix i a q
    assume r: "\<lparr>cr_employee = i, cr_step = 1, cr_approver = a\<rparr> \<in> set rows"
        "\<lparr>cr_employee = i, cr_step = 2, cr_approver = a\<rparr> \<in> set rows"
      and q: "q \<in> set es" "\<not> se_admin q" "se_role q \<in> {TD, HR}" "se_id q \<noteq> i"
    then obtain e where e: "e \<in> set ?act" "se_id e = i" "fst (f e) = a" "snd (f e) = Some a"
      using row mem one by fastforce
    then show "se_id q = a" using lev(5)[OF e(1)] q by auto
  qed
qed

text \<open>The assignment throws exactly when some employee finds no other project manager, director or HR, or some
  project manager no other director or HR: another project manager is enough for the first level only.\<close>

theorem assignment_succeeds_iff:
  "okR (assignApprovers es) \<longleftrightarrow>
     (\<forall>e \<in> set es. \<not> se_admin e \<longrightarrow>
        (\<exists>a. eligible es a \<and> a \<noteq> se_id e) \<and>
        (se_role e = PM \<longrightarrow> (\<exists>q \<in> set es. \<not> se_admin q \<and> se_role q \<in> {TD, HR} \<and> se_id q \<noteq> se_id e)))"
proof -
  let ?act = "active_employees es"
  have ok: "okR (levels_of ?act e i) \<longleftrightarrow>
      (\<exists>a. eligible es a \<and> a \<noteq> se_id e) \<and>
      (se_role e = PM \<longrightarrow> (\<exists>q \<in> set es. \<not> se_admin q \<and> se_role q \<in> {TD, HR} \<and> se_id q \<noteq> se_id e))" for e i
  proof -
    have p1: "okR (pick (se_id e) i (pools1 ?act e) None) \<longleftrightarrow> (\<exists>a. eligible es a \<and> a \<noteq> se_id e)"
      by (simp only: pick_ok_iff Bex_def pools1_set)
    have pm: "okR (pick (se_id e) i (pools2 ?act e) av) \<longleftrightarrow>
        (\<exists>q \<in> set es. \<not> se_admin q \<and> se_role q \<in> {TD, HR} \<and> se_id q \<noteq> se_id e)" if "se_role e = PM" for av
    proof -
      have "c \<in> \<Union> (set ` set (pools2 ?act e)) \<longleftrightarrow>
          (\<exists>q \<in> set es. \<not> se_admin q \<and> se_id q = c \<and> (se_role q = TD \<or> se_role q = HR))" for c
        using that by (auto simp: pools2_def Let_def ids_of_iff)
      then show ?thesis by (simp only: pick_ok_iff Bex_def) blast
    qed
    have emp: "okR (pick (se_id e) i (pools2 ?act e) av) \<longleftrightarrow> (\<exists>a. eligible es a \<and> a \<noteq> se_id e)"
      if "se_role e = EMP" for av
      unfolding pick_ok_iff using that role_consts by (auto simp: pools2_def Let_def eligible_pools)
    show ?thesis
    proof (cases "pick (se_id e) i (pools1 ?act e) None")
      case (Inl er)
      then show ?thesis using p1 by (simp add: levels_of_pools)
    next
      case (Inr l1)
      then have "okR (levels_of ?act e i) \<longleftrightarrow>
          (two_levels e \<longrightarrow> okR (pick (se_id e) i (pools2 ?act e) (Some l1)))"
        by (simp add: levels_of_pools okR_bindR)
      then show ?thesis using p1 Inr pm[of "Some l1"] emp[of "Some l1"] role_consts(4)
        by (cases "se_role e = PM"; cases "se_role e = EMP") (simp_all add: two_levels_def)
    qed
  qed
  have "okR (assignApprovers es) \<longleftrightarrow>
      (\<forall>e \<in> set ?act. okR (levels_of ?act e (index_in_role ?act (\<lambda>_. 0) (\<lambda>_. 0) (se_id e))))"
    by (simp add: assignApprovers_def Let_def okR_bindR mapR_ok)
  then show ?thesis unfolding ok by (auto simp: active_employees_iff)
qed

section \<open>The run keeps the contract and is repeatable\<close>

definition row_key :: "chain_row \<Rightarrow> int \<times> int" where
  "row_key r = (cr_employee r, cr_step r)"

definition has_active :: "chain_db \<Rightarrow> int \<times> int \<Rightarrow> bool" where
  "has_active db k \<longleftrightarrow> list_ex (\<lambda>r. chain_active r \<and> chain_key r = k) (ch_rows db)"

text \<open>Each second level comes after the first level of its employee.\<close>

fun levels_first :: "chain_row list \<Rightarrow> int set \<Rightarrow> bool" where
  "levels_first [] seen \<longleftrightarrow> True"
| "levels_first (r # rs) seen \<longleftrightarrow>
     cr_approver r \<noteq> cr_employee r \<and>
     (cr_step r = 1 \<and> levels_first rs (insert (cr_employee r) seen) \<or>
      cr_step r = 2 \<and> cr_employee r \<in> seen \<and> levels_first rs seen)"

lemma levels_first_mono: "levels_first rs seen \<Longrightarrow> seen \<subseteq> seen' \<Longrightarrow> levels_first rs seen'"
  by (induction rs arbitrary: seen seen') (auto, blast+)

lemma levels_first_rows:
  assumes "\<forall>e \<in> set es. fst (f e) \<noteq> se_id e \<and> snd (f e) \<noteq> Some (se_id e)"
  shows "levels_first (concat (map (\<lambda>e. rows_of e (f e)) es)) seen"
  using assms
  by (induction es arbitrary: seen) (auto simp: rows_of_def split: option.splits)

lemma insert_chain_keeps:
  assumes "insert_chain up now i db = Inr db'" "chain_inv db"
    and "ci_step i = 1 \<or> ci_step i = 2 \<and> has_active db (ci_employee i, 1)"
  shows "chain_inv db'" "has_active db' (ci_employee i, ci_step i)" "has_active db k \<Longrightarrow> has_active db' k"
    "\<exists>r. ch_rows db' = ch_rows db @ [r] \<and> chain_key r = (ci_employee i, ci_step i)"
proof -
  let ?r = "\<lparr>ch_id = ch_next db, ch_employee = ci_employee i, ch_step = ci_step i,
            ch_approver = ci_approver i, ch_effective_at = now, ch_ended_at = None,
            ch_created_by = ci_created_by i, ch_updated_by = ci_created_by i\<rparr>"
  have rows: "ch_rows db' = ch_rows db @ [?r]" and r: "chain_active ?r" "chain_key ?r = (ci_employee i, ci_step i)"
    using assms(1) by (auto simp: insert_chain_def chain_active_def chain_key_def split: if_splits)
  then show "has_active db' (ci_employee i, ci_step i)" "has_active db k \<Longrightarrow> has_active db' k"
    "\<exists>r. ch_rows db' = ch_rows db @ [r] \<and> chain_key r = (ci_employee i, ci_step i)"
    by (auto simp: has_active_def)
  have "l2_has_l1 (ch_rows db')"
    using assms(2,3) r unfolding rows
    by (auto simp: chain_inv_def l2_has_l1_def list_all_iff list_ex_iff has_active_def chain_key_def)
  then show "chain_inv db'"
    using insert_chain_basic(1)[OF assms(1)] assms(2) by (simp add: chain_inv_basic)
qed

text \<open>What the loop has done after a prefix: the contract holds, whether or not it threw.\<close>

lemma seed_rows_inv:
  assumes "chain_inv db" "levels_first rows seen" "\<forall>e \<in> seen. has_active db (e, 1)"
  shows "chain_inv (fst (seed_chain_rows up now by rows c db))"
  using assms
proof (induction rows arbitrary: db c seen)
  case Nil
  then show ?case by (cases c) simp
next
  case (Cons r rs)
  obtain ins skip where c: "c = (ins, skip)" by (cases c)
  let ?i = "\<lparr>ci_employee = cr_employee r, ci_step = cr_step r, ci_approver = cr_approver r, ci_created_by = by\<rparr>"
  have step: "\<exists>seen'. levels_first rs seen' \<and> (\<forall>e \<in> seen'. has_active d (e, 1))"
    if "has_active d (cr_employee r, cr_step r)" "\<And>k. has_active db k \<Longrightarrow> has_active d k" for d
    using Cons.prems(2,3) that
    by (auto intro!: exI[of _ "if cr_step r = 1 then insert (cr_employee r) seen else seen"])
  show ?case
  proof (cases "has_active db (cr_employee r, cr_step r)")
    case True
    then obtain seen' where "levels_first rs seen'" "\<forall>e \<in> seen'. has_active db (e, 1)" using step[of db] by blast
    then show ?thesis using Cons.IH[OF Cons.prems(1)] Cons.prems(2) True c by (simp add: has_active_def)
  next
    case False
    have l1: "ci_step ?i = 1 \<or> ci_step ?i = 2 \<and> has_active db (ci_employee ?i, 1)"
      using Cons.prems(2,3) by auto
    show ?thesis
    proof (cases "insert_chain up now ?i db")
      case (Inl er)
      then show ?thesis using Cons.prems(1,2) False c by (simp add: has_active_def)
    next
      case (Inr d)
      note k = insert_chain_keeps[OF Inr Cons.prems(1) l1]
      obtain seen' where "levels_first rs seen'" "\<forall>e \<in> seen'. has_active d (e, 1)"
        using step[of d] k(2,3) by auto
      then show ?thesis using Cons.IH[OF k(1)] Cons.prems(2) False Inr c by (simp add: has_active_def)
    qed
  qed
qed

lemma seed_rows_ok:
  assumes "chain_inv db" "levels_first rows seen" "\<forall>e \<in> seen. has_active db (e, 1)"
    and "distinct (map row_key rows)"
    and "\<forall>r \<in> set rows. user_row up (cr_employee r) \<and> user_row up (cr_approver r)"
    and "\<forall>r \<in> set rows. \<forall>q \<in> set (ch_rows db). chain_key q = row_key r \<longrightarrow> ch_effective_at q < now"
  shows "\<exists>db' n m. seed_chain_rows up now by rows (ins, skip) db = (db', Inr (ins + n, skip + m)) \<and>
    n + m = length rows \<and> (\<forall>r \<in> set rows. has_active db' (row_key r)) \<and> (\<forall>k. has_active db k \<longrightarrow> has_active db' k)"
  using assms
proof (induction rows arbitrary: db ins skip seen)
  case (Cons r rs)
  let ?i = "\<lparr>ci_employee = cr_employee r, ci_step = cr_step r, ci_approver = cr_approver r, ci_created_by = by\<rparr>"
  let ?seen = "if cr_step r = 1 then insert (cr_employee r) seen else seen"
  have lf: "levels_first rs ?seen" "cr_approver r \<noteq> cr_employee r" using Cons.prems(2) by auto
  show ?case
  proof (cases "has_active db (row_key r)")
    case True
    then have s: "\<forall>e \<in> ?seen. has_active db (e, 1)" using Cons.prems(3) by (auto simp: row_key_def)
    obtain db' n m where "seed_chain_rows up now by rs (ins, skip + 1) db = (db', Inr (ins + n, skip + 1 + m))"
      "n + m = length rs" "\<forall>r \<in> set rs. has_active db' (row_key r)" "\<forall>k. has_active db k \<longrightarrow> has_active db' k"
      using Cons.IH[OF Cons.prems(1) lf(1) s, of ins "skip + 1"] Cons.prems(4-6) by auto
    then show ?thesis using True lf(2)
      by (intro exI[of _ db'] exI[of _ n] exI[of _ "Suc m"]) (simp add: has_active_def row_key_def)
  next
    case False
    have l1: "ci_step ?i = 1 \<or> ci_step ?i = 2 \<and> has_active db (ci_employee ?i, 1)"
      using Cons.prems(2,3) by auto
    have free: "\<forall>q \<in> set (ch_rows db). chain_key q = ins_key ?i \<longrightarrow> \<not> chain_active q \<and> ch_effective_at q < now"
      using False Cons.prems(6) by (auto simp: has_active_def list_ex_iff ins_key_def row_key_def)
    have "1 \<le> ci_step ?i" "ci_approver ?i \<noteq> ci_employee ?i" "user_row up (ci_employee ?i)" "user_row up (ci_approver ?i)"
      using l1 lf(2) Cons.prems(5) by auto
    from insert_chain_ok[OF this free] obtain d where d: "insert_chain up now ?i db = Inr d" by blast
    note k = insert_chain_keeps[OF d Cons.prems(1) l1]
    then have s: "\<forall>e \<in> ?seen. has_active d (e, 1)" using Cons.prems(3) by auto
    obtain q where q: "ch_rows d = ch_rows db @ [q]" "chain_key q = row_key r"
      using k(4) by (auto simp: row_key_def)
    then have "\<forall>r \<in> set rs. \<forall>q \<in> set (ch_rows d). chain_key q = row_key r \<longrightarrow> ch_effective_at q < now"
      using Cons.prems(4,6) by auto
    then obtain db' n m where "seed_chain_rows up now by rs (ins + 1, skip) d = (db', Inr (ins + 1 + n, skip + m))"
      "n + m = length rs" "\<forall>r \<in> set rs. has_active db' (row_key r)" "\<forall>k. has_active d k \<longrightarrow> has_active db' k"
      using Cons.IH[OF k(1) lf(1) s, of "ins + 1" skip] Cons.prems(4,5) by auto
    then show ?thesis using False lf(2) d k(2,3)
      by (intro exI[of _ db'] exI[of _ "Suc n"] exI[of _ m]) (simp add: has_active_def row_key_def)
  qed
qed simp

lemma seed_rows_skip:
  assumes "\<forall>r \<in> set rows. has_active db (row_key r) \<and> cr_approver r \<noteq> cr_employee r"
  shows "seed_chain_rows up now by rows (ins, skip) db = (db, Inr (ins, skip + length rows))"
  using assms by (induction rows arbitrary: skip) (auto simp: has_active_def row_key_def)

lemma assign_levels_first:
  assumes "assignApprovers es = Inr rows"
  shows "levels_first rows {}"
proof -
  obtain f where f: "rows = concat (map (\<lambda>e. rows_of e (f e)) (active_employees es))"
    "\<And>e. e \<in> set (active_employees es) \<Longrightarrow> \<exists>i. levels_of (active_employees es) e i = Inr (f e)"
    using assms by (rule assign_Inr) blast
  have "fst (f e) \<noteq> se_id e \<and> snd (f e) \<noteq> Some (se_id e)" if mem: "e \<in> set (active_employees es)" for e
  proof -
    obtain i where "levels_of (active_employees es) e i = Inr (fst (f e), snd (f e))" using f(2)[OF mem] by auto
    note l = levels_Inr(2,4)[OF this]
    show ?thesis using l(1) l(2)[of "se_id e"] by auto
  qed
  then show ?thesis unfolding f(1) by (intro levels_first_rows) blast
qed

lemma seed_employees_distinct:
  "directory_inv d \<Longrightarrow> distinct (map se_id (seed_employees d))"
  by (simp add: seed_employees_def directory_inv_def serial_ok_def comp_def distinct_map_filter)

lemma seed_employees_rows:
  "e \<in> set (seed_employees d) \<Longrightarrow> user_row (directory_port d) (se_id e)"
  by (auto simp: seed_employees_def directory_port_def list_ex_iff)

text \<open>Seeding the chains of a directory whose roles allow an assignment succeeds on every table of the contract,
  keeps the contract, leaves everybody but the system administrators with a first approver, and a second run
  changes nothing, at any later time.\<close>

theorem chain_seed_repeatable:
  assumes "directory_inv d" "chain_inv db" "later now db" "okR (assignApprovers (seed_employees d))"
  shows "\<exists>db' n m. seedChains now d db = (db', Inr (n, m)) \<and> chain_inv db' \<and>
    (\<forall>e \<in> set (seed_employees d). \<not> se_admin e \<longrightarrow> has_active db' (se_id e, 1)) \<and>
    seedChains now' d db' = (db', Inr (0, n + m))"
proof -
  let ?up = "directory_port d"
  obtain rows where rows: "assignApprovers (seed_employees d) = Inr rows"
    using assms(4) by (auto simp: okR_def split: sum.splits)
  note s = seeded_assignments_sound[OF rows seed_employees_distinct[OF assms(1)]]
  have users: "\<forall>r \<in> set rows. user_row ?up (cr_employee r) \<and> user_row ?up (cr_approver r)"
  proof
    fix r assume "r \<in> set rows"
    then obtain e q where "e \<in> set (seed_employees d)" "se_id e = cr_employee r"
      "q \<in> set (seed_employees d)" "se_id q = cr_approver r" using s by (auto simp: eligible_def)
    then show "user_row ?up (cr_employee r) \<and> user_row ?up (cr_approver r)"
      using seed_employees_rows by metis
  qed
  have "distinct (map row_key rows)" using s by (simp add: row_key_def[abs_def])
  moreover have "\<forall>r \<in> set rows. \<forall>q \<in> set (ch_rows db). chain_key q = row_key r \<longrightarrow> ch_effective_at q < now"
    using assms(3) by (auto simp: later_def list_all_iff)
  ultimately obtain db' n m where db': "seed_chain_rows ?up now (seed_author d) rows (0, 0) db = (db', Inr (n, m))"
    "n + m = length rows" "\<forall>r \<in> set rows. has_active db' (row_key r)"
    using seed_rows_ok[OF assms(2) assign_levels_first[OF rows] _ _ users, of now "seed_author d" 0 0] by auto
  have "chain_inv db'"
    using seed_rows_inv[OF assms(2) assign_levels_first[OF rows], of ?up now "seed_author d" "(0, 0)"] db'(1) by simp
  moreover have "has_active db' (se_id e, 1)" if "e \<in> set (seed_employees d)" "\<not> se_admin e" for e
    using s db'(3) that by (fastforce simp: row_key_def)
  moreover have "seedChains now' d db' = (db', Inr (0, n + m))"
    using seed_rows_skip[of rows db' ?up now' "seed_author d" 0 0] db'(2,3) s rows by (simp add: seedChains_def)
  moreover have "seedChains now d db = (db', Inr (n, m))" using rows db'(1) by (simp add: seedChains_def)
  ultimately show ?thesis by (intro exI[of _ db'] exI[of _ n] exI[of _ m]) blast
qed

section \<open>Witnesses\<close>

definition org_user :: "int \<Rightarrow> int \<Rightarrow> bool \<Rightarrow> user_entity" where
  "org_user i role admin =
     \<lparr>ue_id = i, ue_email = CHR ''a'' # replicate (nat i) (CHR ''b''), ue_hash = [], ue_first = ''U'', ue_last = ''V'',
      ue_title = None, ue_role_id = role, ue_admin = admin, ue_active = True, ue_last_login = None,
      ue_created_by = None, ue_updated_by = None, ue_deleted_by = None, ue_created_at = 0, ue_deleted_at = None\<rparr>"

text \<open>A system administrator, two people of HR, a project manager, a director and an employee.\<close>

definition org_directory :: directory where
  "org_directory =
     (empty_directory seed_roles [])\<lparr>dr_users :=
        [org_user 1 1 True, org_user 2 2 False, org_user 3 2 False, org_user 4 4 False, org_user 5 5 False,
         org_user 6 6 False], dr_next := 7\<rparr>"

lemma org_directory_inv: "directory_inv org_directory"
proof -
  have "map ue_key (dr_users org_directory) = map (\<lambda>i. CHR ''a'' # replicate i (CHR ''b'')) [1, 2, 3, 4, 5, 6]"
    by code_simp
  then have "distinct (map ue_key (dr_users org_directory))"
    by (simp add: numeral_eq_Suc)
  then have "unique_active ue_live ue_key (dr_users org_directory)"
    by (simp add: unique_active_def distinct_map_filter)
  moreover have "serial_ok ue_id (dr_next org_directory) (dr_users org_directory)"
    by (simp add: org_directory_def org_user_def serial_ok_def)
  moreover have "\<forall>u \<in> set (dr_users org_directory). ue_role_id u \<in> rr_id ` set (dr_roles org_directory)"
    by (simp add: org_directory_def org_user_def empty_directory_def seed_roles_def ROLE_NAMES_def upt_rec)
  ultimately show ?thesis
    using directory_seed_inv[of "[]"] by (simp add: directory_inv_def org_directory_def)
qed

definition assigned :: "seed_employee list \<Rightarrow> (int \<times> int \<times> int) list" where
  "assigned es =
     (case assignApprovers es of
        Inl _ \<Rightarrow> [] | Inr rows \<Rightarrow> map (\<lambda>r. (cr_employee r, cr_step r, cr_approver r)) rows)"

lemma org_assigned:
  "assigned (seed_employees org_directory) =
     [(2, 1, 3), (3, 1, 2), (4, 1, 5), (4, 2, 2), (5, 1, 2), (6, 1, 4), (6, 2, 5)]"
  by code_simp

theorem seeded_assignments_sound_witness:
  "\<exists>rows. assignApprovers (seed_employees org_directory) = Inr rows \<and> length rows = 7 \<and>
     distinct (map (\<lambda>r. (cr_employee r, cr_step r)) rows)"
proof -
  obtain rows where rows: "assignApprovers (seed_employees org_directory) = Inr rows"
    using org_assigned by (auto simp: assigned_def split: sum.splits)
  then have "length (assigned (seed_employees org_directory)) = length rows" by (simp add: assigned_def)
  then show ?thesis
    using rows org_assigned seeded_assignments_sound[OF rows seed_employees_distinct[OF org_directory_inv]] by auto
qed

theorem assignment_succeeds_iff_witness:
  "\<not> okR (assignApprovers [\<lparr>se_id = 1, se_role = PM, se_admin = False\<rparr>, \<lparr>se_id = 2, se_role = PM, se_admin = False\<rparr>])"
  unfolding assignment_succeeds_iff using role_consts by auto

theorem chain_seed_repeatable_witness:
  "\<exists>db' n m. seedChains 5 org_directory empty_chains = (db', Inr (n, m)) \<and>
     seedChains 9 org_directory db' = (db', Inr (0, n + m)) \<and> getActive db' 6 \<noteq> getActive empty_chains 6"
proof -
  have ok: "okR (assignApprovers (seed_employees org_directory))" by code_simp
  have e: "later 5 empty_chains" by (simp add: later_def empty_chains_def)
  obtain db' n m where s: "seedChains 5 org_directory empty_chains = (db', Inr (n, m))"
    "seedChains 9 org_directory db' = (db', Inr (0, n + m))"
    using chain_seed_repeatable[OF org_directory_inv empty_chains_inv e ok, of 9] by blast
  have "l1_approver_id (getActive (fst (seedChains 5 org_directory empty_chains)) 6) = Some 4"
    "l1_approver_id (getActive empty_chains 6) = None" by code_simp+
  then have "getActive db' 6 \<noteq> getActive empty_chains 6" using s(1) by auto
  then show ?thesis using s by blast
qed

end
