(* ===== verification/SeedPay.thy ===== *)
theory SeedPay
  imports SeedLoop SeedChains PayTimeline
begin

text \<open>
  The seeder of compensation (\<open>src/src/database/seeds/compensation\<close>) over the tables of \<open>Compensation\<close>.  The rows of
  the manifest are matched with live accounts by email; the rates are inserted one by one, without the service and
  its audit rows.
\<close>

section \<open>The seeder\<close>

record pay_manifest =
  mp_email :: string
  mp_monthly :: rat
  mp_hourly :: "rat option"
  mp_from :: date
  mp_to :: "date option"

text \<open>\<open>new Map(users.map((u) => [u.email.toLowerCase(), u]))\<close>: a later user replaces an earlier one.\<close>

definition userByEmail :: "directory \<Rightarrow> string \<Rightarrow> user_entity option" where
  "userByEmail d e = find (\<lambda>u. toLowerCase (ue_email u) = e) (rev (filter ue_live (dr_users d)))"

definition pay_keys :: "directory \<Rightarrow> pay_manifest list \<Rightarrow> (int \<times> pay_manifest) list" where
  "pay_keys d ms =
     concat (map (\<lambda>m. case userByEmail d (toLowerCase (trim (mp_email m))) of
                       None \<Rightarrow> [] | Some u \<Rightarrow> [(ue_id u, m)]) ms)"

definition pay_present :: "int \<times> pay_manifest \<Rightarrow> comp_db \<Rightarrow> bool" where
  "pay_present k db \<longleftrightarrow> list_ex (\<lambda>r. cm_employee r = fst k \<and> cm_from r = mp_from (snd k)) (cd_rows db)"

definition seed_pay :: "comp_env \<Rightarrow> int option \<Rightarrow> int \<times> pay_manifest \<Rightarrow> comp_row" where
  "seed_pay env by k =
     (let m = snd k
      in \<lparr>cm_id = 0, cm_employee = fst k, cm_monthly = mp_monthly m,
          cm_hourly = (case mp_hourly m of Some h \<Rightarrow> h | None \<Rightarrow> deriveHourlyRate (ce_divisor env) (mp_monthly m)),
          cm_overridden = (mp_hourly m \<noteq> None), cm_from = mp_from m, cm_to = mp_to m, cm_created_by = by,
          cm_updated_by = by, cm_deleted_by = None, cm_deleted_at = None\<rparr>)"

definition insert_seed_pay :: "comp_env \<Rightarrow> int option \<Rightarrow> int \<times> pay_manifest \<Rightarrow> comp_db \<Rightarrow> http_error + comp_db" where
  "insert_seed_pay env by k db = bindR (cm_insert (ce_users env) (seed_pay env by k) db) (\<lambda>(db', _). Inr db')"

definition seedPay :: "comp_env \<Rightarrow> directory \<Rightarrow> pay_manifest list \<Rightarrow> comp_db \<Rightarrow> comp_db \<times> (http_error + nat \<times> nat)" where
  "seedPay env d ms db = seed_loop pay_present (insert_seed_pay env (seed_author d)) (pay_keys d ms) (0, 0) db"

section \<open>The contract of the table\<close>

lemma insert_seed_pay_Inr:
  assumes "insert_seed_pay env by' k db = Inr db'" "comp_inv db"
  shows "\<exists>s. db' = db\<lparr>cd_rows := cd_rows db @ [s], cd_next := cd_next db + 1\<rparr> \<and> cm_id s = cd_next db \<and>
    cm_employee s = fst k \<and> cm_from s = mp_from (snd k) \<and> cm_to s = mp_to (snd k) \<and> cm_live s \<and> comp_inv db'"
proof -
  obtain s where s: "cm_insert (ce_users env) (seed_pay env by' k) db = Inr (db', s)"
    using assms(1) by (auto simp: insert_seed_pay_def bindR_eq_Inr)
  note ins = cm_insert_Inr[OF s assms(2)]
  then show ?thesis
    using cm_stored_fields[of "(seed_pay env by' k)\<lparr>cm_id := cd_next db\<rparr>" s]
    by (auto simp: seed_pay_def Let_def cm_live_def)
qed

interpretation pay_seed: seed_table pay_present "insert_seed_pay env by" comp_inv for env "by"
proof
  fix k j :: "int \<times> pay_manifest" and s s' :: comp_db
  assume i: "insert_seed_pay env by k s = Inr s'" "comp_inv s"
  from insert_seed_pay_Inr[OF this] show "comp_inv s'" "pay_present k s'" "pay_present j s \<Longrightarrow> pay_present j s'"
    by (auto simp: pay_present_def)
qed

text \<open>A run only appends live rows under new ids, whatever its end.\<close>

definition pay_appended :: "(int \<times> pay_manifest) list \<Rightarrow> comp_db \<Rightarrow> comp_db \<Rightarrow> bool" where
  "pay_appended ks db db' \<longleftrightarrow> comp_inv db' \<and> cd_audits db' = cd_audits db \<and> cd_next db \<le> cd_next db' \<and>
     (\<exists>new. cd_rows db' = cd_rows db @ new \<and> (\<forall>r \<in> set new. cm_live r \<and> cd_next db \<le> cm_id r \<and>
        (\<exists>j \<in> set ks. cm_employee r = fst j \<and> cm_from r = mp_from (snd j) \<and> cm_to r = mp_to (snd j))))"

lemma pay_appended_run: "comp_inv db \<Longrightarrow> pay_appended (pay_keys d ms) db (fst (seedPay env d ms db))"
  unfolding seedPay_def
proof (rule loop_preserves)
  show "\<forall>k \<in> set (pay_keys d ms). \<forall>t t'. pay_appended (pay_keys d ms) db t \<longrightarrow> \<not> pay_present k t \<longrightarrow>
      insert_seed_pay env (seed_author d) k t = Inr t' \<longrightarrow> pay_appended (pay_keys d ms) db t'"
  proof (intro ballI allI impI)
    fix k t t' assume k: "k \<in> set (pay_keys d ms)" and t: "pay_appended (pay_keys d ms) db t" "insert_seed_pay env (seed_author d) k t = Inr t'"
    obtain s where s: "t' = t\<lparr>cd_rows := cd_rows t @ [s], cd_next := cd_next t + 1\<rparr>" "cm_id s = cd_next t" "cm_live s"
      "cm_employee s = fst k" "cm_from s = mp_from (snd k)" "cm_to s = mp_to (snd k)" "comp_inv t'"
      using insert_seed_pay_Inr[OF t(2)] t(1) by (auto simp: pay_appended_def)
    then show "pay_appended (pay_keys d ms) db t'" using t(1) k by (auto simp: pay_appended_def)
  qed
qed (simp add: pay_appended_def)

section \<open>Seeding pay\<close>

text \<open>The seeder keeps the contract of the table and the rows that were there.  After a run that succeeds every row of
  the manifest with an account is there and a second run does nothing.  But it writes no audit rows: whatever the end
  of the run, the trail of every rate it inserted is empty, while every rate of the service begins with its
  creation.\<close>

theorem pay_seed_unaudited:
  assumes "(comp_step m)\<^sup>*\<^sup>* empty_comp_db db" "seedPay env d ms db = (db', res)"
  shows "comp_inv db' \<and> cd_audits db' = cd_audits db \<and>
    (\<exists>new. cd_rows db' = cd_rows db @ new \<and> (\<forall>r \<in> set new. findAuditTrail db' (cm_id r) = Inr [])) \<and>
    (\<forall>n k. res = Inr (n, k) \<longrightarrow>
       (\<forall>x \<in> set (pay_keys d ms). pay_present x db') \<and> seedPay env d ms db' = (db', Inr (0, n + k)))"
proof -
  have inv: "comp_inv db" "audit_inv db" using comp_reachable_audit[OF assms(1)] by auto
  obtain new where new: "comp_inv db'" "cd_audits db' = cd_audits db" "cd_rows db' = cd_rows db @ new"
    "\<forall>r \<in> set new. cm_live r \<and> cd_next db \<le> cm_id r"
    using pay_appended_run[OF inv(1), of d ms env] assms(2) by (auto simp: pay_appended_def)
  have "findAuditTrail db' (cm_id r) = Inr []" if r: "r \<in> set new" for r
  proof -
    have "findComp db' (cm_id r) = Some r"
      unfolding findComp_def new(3)
      by (rule find_unique)
        (use r new serial_ok_inj[OF comp_inv_serial[OF new(1)], of _ r] in \<open>auto simp: new(3)\<close>)
    moreover have "ca_comp a < cd_next db" if "a \<in> set (cd_audits db)" for a
      using inv that by (force simp: audit_inv_def audit_ok_def aview_def comp_inv_def serial_ok_def list_all_iff)
    then have "filter (\<lambda>a. ca_comp a = cm_id r) (cd_audits db) = []" using new(4) r by (force simp: filter_empty_conv)
    ultimately show ?thesis by (simp add: findAuditTrail_def bindR_def new(2))
  qed
  moreover have "(\<forall>x \<in> set (pay_keys d ms). pay_present x db') \<and> seedPay env d ms db' = (db', Inr (0, n + k))"
    if "res = Inr (n, k)" for n k
  proof -
    have r: "seed_loop pay_present (insert_seed_pay env (seed_author d)) (pay_keys d ms) (0, 0) db = (db', Inr (n, k))"
      using assms(2) that by (simp add: seedPay_def)
    show ?thesis
      using pay_seed.loop_result[OF inv(1) r] pay_seed.loop_repeat[OF inv(1) r] by (simp add: seedPay_def)
  qed
  ultimately show ?thesis using new(1-3) by blast
qed

text \<open>An employee whose current rate starts on another day than the manifest's open row ends the run: the rows before
  it stay, the raw violation of the unique index is the result, and the seeders after this one do not run.\<close>

theorem pay_seed_conflict:
  assumes "comp_inv db" "pay_keys d ms = before @ k # after" "mp_to (snd k) = None"
    and "seed_loop pay_present (insert_seed_pay env (seed_author d)) before (0, 0) db = (db1, Inr c)"
    and "\<not> pay_present k db1" "findActiveComp db1 (fst k) \<noteq> None" "row_ok (seed_pay env (seed_author d) k)"
  shows "seedPay env d ms db = (db1, Inl UniqueViolation)"
proof -
  obtain n m where c: "c = (n, m)" by (cases c)
  let ?r = "(seed_pay env (seed_author d) k)\<lparr>cm_id := cd_next db1\<rparr>"
  have "cm_checks ?r = cm_checks (seed_pay env (seed_author d) k)" by (simp add: cm_checks_def cong: option.case_cong)
  then have ok: "cm_stored ?r = Inr ?r" "cm_checks ?r"
    using assms(7) by (simp_all add: row_ok_def cm_stored_fix)
  have act: "cm_active ?r" "cm_employee ?r = fst k"
    using assms(3) by (simp_all add: cm_active_def cm_live_def seed_pay_def Let_def)
  obtain q where "findActiveComp db1 (fst k) = Some q" using assms(6) by blast
  then have "q \<in> set (cd_rows db1)" "cm_active q" "cm_employee q = fst k"
    unfolding findActiveComp_def cm_active_def using find_Some_iff_mem by fastforce+
  then have "list_ex (\<lambda>q. cm_active q \<and> cm_employee q = cm_employee ?r) (cd_rows db1)"
    unfolding list_ex_iff act(2) by blast
  then have "insert_seed_pay env (seed_author d) k db1 = Inl UniqueViolation"
    using act ok by (simp add: insert_seed_pay_def cm_insert_def bindR_def)
  then show ?thesis
    using assms(4,5) c by (simp add: seedPay_def assms(2) seed_loop_append)
qed

text \<open>A closed row of the manifest is inserted beside the rates that administrators set, with no look at their days:
  where the current rate began before the row's end, both hold on its last day.\<close>

theorem pay_seed_overlaps:
  assumes "comp_inv db" "seedPay env d ms db = (db', Inr c)"
    and "k \<in> set (pay_keys d ms)" "mp_to (snd k) = Some t" "mp_from (snd k) \<le> t" "\<not> pay_present k db"
    and "\<forall>j \<in> set (pay_keys d ms). fst j = fst k \<longrightarrow> mp_from (snd j) = mp_from (snd k) \<longrightarrow> j = k"
    and "findActiveComp db (fst k) = Some q" "cm_from q \<le> t"
  shows "\<exists>r. cm_from r = mp_from (snd k) \<and> cm_to r = Some t \<and> r \<noteq> q \<and> {q, r} \<subseteq> set (findRateRows db' [fst k] t)"
proof -
  obtain n m where c: "c = (n, m)" by (cases c)
  obtain new where new: "cd_rows db' = cd_rows db @ new" "\<forall>r \<in> set new. cm_live r \<and> (\<exists>j \<in> set (pay_keys d ms).
      cm_employee r = fst j \<and> cm_from r = mp_from (snd j) \<and> cm_to r = mp_to (snd j))"
    using pay_appended_run[OF assms(1), of d ms env] assms(2) by (auto simp: pay_appended_def)
  have "seed_loop pay_present (insert_seed_pay env (seed_author d)) (pay_keys d ms) (0, 0) db = (db', Inr (n, m))"
    using assms(2) c by (simp add: seedPay_def)
  from pay_seed.loop_result[OF assms(1) this] have "pay_present k db'" using assms(3) by blast
  then obtain r where r: "r \<in> set (cd_rows db')" "cm_employee r = fst k" "cm_from r = mp_from (snd k)"
    by (auto simp: pay_present_def list_ex_iff)
  have fresh: "r \<notin> set (cd_rows db)" using assms(6) r(2,3) by (auto simp: pay_present_def list_ex_iff)
  then have "r \<in> set new" using r(1) new(1) by simp
  then obtain j where j: "cm_live r" "j \<in> set (pay_keys d ms)" "cm_employee r = fst j" "cm_from r = mp_from (snd j)"
    "cm_to r = mp_to (snd j)" using new(2) by blast
  then have "j = k" using assms(7) r(2,3) by simp
  have q: "q \<in> set (cd_rows db)" "cm_employee q = fst k" "cm_live q" "cm_to q = None"
    using assms(8) unfolding findActiveComp_def using find_Some_iff_mem by fastforce+
  have "r \<in> set (findRateRows db' [fst k] t)"
    using r j(1,5) \<open>j = k\<close> assms(4,5) by (simp add: findRateRows_def covers_def)
  moreover have "q \<in> set (findRateRows db' [fst k] t)"
    using q assms(9) new(1) by (simp add: findRateRows_def covers_def)
  moreover have "r \<noteq> q" using fresh q(1) by blast
  ultimately show ?thesis using r(3) j(5) \<open>j = k\<close> assms(4) by auto
qed

section \<open>Witnesses\<close>

text \<open>An account with a rate from 2025-03-01; the manifest has a closed row for 2025 and an open one for 2026.\<close>

definition pay_people :: directory where
  "pay_people = (empty_directory seed_roles [])\<lparr>dr_users := [\<lparr>ue_id = 5, ue_email = ''liam@asima.inc'', ue_hash = ''h'',
     ue_first = ''Liam'', ue_last = ''G'', ue_title = None, ue_role_id = 6, ue_admin = False, ue_active = True,
     ue_last_login = None, ue_created_by = None, ue_updated_by = None, ue_deleted_by = None, ue_created_at = 0,
     ue_deleted_at = None\<rparr>], dr_next := 6\<rparr>"

definition closed_pay :: pay_manifest where
  "closed_pay = \<lparr>mp_email = ''Liam@asima.inc'', mp_monthly = 20000, mp_hourly = Some 100, mp_from = Date 2025 1 1,
     mp_to = Some (Date 2025 12 31)\<rparr>"

definition open_pay :: pay_manifest where
  "open_pay = \<lparr>mp_email = ''liam@asima.inc'', mp_monthly = 30000, mp_hourly = Some 150, mp_from = Date 2026 1 1,
     mp_to = None\<rparr>"

definition paid_db :: comp_db where
  "paid_db = fst (setPay sample_pay_env (sample_pay 5 20000 (Date 2025 3 1)) empty_comp_db)"

lemma paid_db_reachable: "(comp_step True)\<^sup>*\<^sup>* empty_comp_db paid_db"
  unfolding paid_db_def
  by (rule r_into_rtranclp, rule comp_step.set_pay) code_simp

lemma paid_db_inv: "comp_inv paid_db"
  using comp_reachable_audit[OF paid_db_reachable] by blast

lemma pay_witness_keys: "pay_keys pay_people [closed_pay, open_pay] = [(5, closed_pay), (5, open_pay)]"
  "pay_keys pay_people [closed_pay] = [(5, closed_pay)]"
proof -
  have "map_option ue_id (userByEmail pay_people (toLowerCase (trim (mp_email closed_pay)))) = Some 5"
    "map_option ue_id (userByEmail pay_people (toLowerCase (trim (mp_email open_pay)))) = Some 5" by code_simp+
  then show "pay_keys pay_people [closed_pay, open_pay] = [(5, closed_pay), (5, open_pay)]"
    "pay_keys pay_people [closed_pay] = [(5, closed_pay)]" by (auto simp: pay_keys_def)
qed

definition closed_run :: "comp_db \<times> (http_error + nat \<times> nat)" where
  "closed_run = seedPay sample_pay_env pay_people [closed_pay] paid_db"

lemma closed_run_ok: "\<exists>c. closed_run = (fst closed_run, Inr c)"
proof -
  have "okR (snd closed_run)" by code_simp
  then show ?thesis by (metis okR_ex prod.collapse)
qed

theorem pay_seed_unaudited_witness: "findAuditTrail (fst closed_run) 2 = Inr []"
proof -
  obtain new where new: "cd_rows (fst closed_run) = cd_rows paid_db @ new"
    "\<forall>r \<in> set new. findAuditTrail (fst closed_run) (cm_id r) = Inr []"
    using pay_seed_unaudited[OF paid_db_reachable prod.collapse[symmetric], of sample_pay_env pay_people "[closed_pay]"]
    unfolding closed_run_def by blast
  have "map cm_id (cd_rows (fst closed_run)) = [1, 2]" "map cm_id (cd_rows paid_db) = [1]" by code_simp+
  then have "map cm_id new = [2]" by (simp add: new(1))
  then show ?thesis using new(2) by auto
qed

theorem pay_seed_conflict_witness:
  "seedPay sample_pay_env pay_people [closed_pay, open_pay] paid_db = (fst closed_run, Inl UniqueViolation)"
proof -
  obtain c where "closed_run = (fst closed_run, Inr c)" using closed_run_ok by blast
  then have run: "seed_loop pay_present (insert_seed_pay sample_pay_env (seed_author pay_people)) [(5, closed_pay)] (0, 0) paid_db =
      (fst closed_run, Inr c)"
    by (simp add: closed_run_def seedPay_def pay_witness_keys(2))
  have keys: "pay_keys pay_people [closed_pay, open_pay] = [(5, closed_pay)] @ (5, open_pay) # []"
    by (simp add: pay_witness_keys)
  have "\<not> pay_present (5, open_pay) (fst closed_run)" by code_simp
  moreover have "\<not> Option.is_none (findActiveComp (fst closed_run) 5)" by code_simp
  moreover have "row_ok (seed_pay sample_pay_env (seed_author pay_people) (5, open_pay))"
    by code_simp
  ultimately show ?thesis
    using pay_seed_conflict[OF paid_db_inv keys _ run] by (simp add: open_pay_def Option.is_none_def)
qed

theorem pay_seed_overlaps_witness:
  "\<exists>q r. r \<noteq> q \<and> {q, r} \<subseteq> set (findRateRows (fst closed_run) [5] (Date 2025 12 31))"
proof -
  obtain c where c: "seedPay sample_pay_env pay_people [closed_pay] paid_db = (fst closed_run, Inr c)"
    using closed_run_ok unfolding closed_run_def by blast
  have "map_option cm_from (findActiveComp paid_db 5) = Some (Date 2025 3 1)" by code_simp
  then obtain q where q: "findActiveComp paid_db (fst (5 :: int, closed_pay)) = Some q" "cm_from q = Date 2025 3 1" by auto
  have k: "(5, closed_pay) \<in> set (pay_keys pay_people [closed_pay])" by (simp add: pay_witness_keys)
  have "\<not> pay_present (5, closed_pay) paid_db" by code_simp
  moreover have "cm_from q \<le> Date 2025 12 31" unfolding q(2) by code_simp
  moreover have "mp_from (snd (5 :: int, closed_pay)) \<le> Date 2025 12 31" by code_simp
  moreover have "mp_to (snd (5 :: int, closed_pay)) = Some (Date 2025 12 31)" by (simp add: closed_pay_def)
  ultimately show ?thesis
    using pay_seed_overlaps[OF paid_db_inv c k _ _ _ _ q(1)] by (auto simp: pay_witness_keys)
qed

end
