(* ===== verification/SeedWork.thy ===== *)
theory SeedWork
  imports SeedLoop SeedChains WorkSchedules TimeEntries
begin

text \<open>
  The seeders of work schedules and time entries (\<open>src/src/database/seeds/work-schedule\<close>,
  \<open>src/src/database/seeds/time-entry\<close>) over the tables of \<open>WorkSchedules\<close> and \<open>TimeEntries\<close>.
\<close>

section \<open>The seeders\<close>

definition seeded_people :: "directory \<Rightarrow> int list" where
  "seeded_people d = map ue_id (filter (\<lambda>u. ue_live u \<and> \<not> ue_admin u) (dr_users d))"

definition SEED_EFFECTIVE_FROM :: date where "SEED_EFFECTIVE_FROM = Date 2026 5 23"
definition PUNCH_IN :: clock where "PUNCH_IN = Clock 9 0 (Some 0)"
definition PUNCH_OUT :: clock where "PUNCH_OUT = Clock 18 0 (Some 0)"
definition BREAK_MINUTES :: int where "BREAK_MINUTES = 60"
definition BREAK_START :: clock where "BREAK_START = Clock 12 0 (Some 0)"

definition WORK_DAYS :: "int list" where "WORK_DAYS = [1, 2, 3, 4, 5]"

definition seed_schedule :: "int option \<Rightarrow> int \<times> int \<Rightarrow> schedule" where
  "seed_schedule by k =
     \<lparr>ws_id = 0, ws_employee = fst k, ws_dow = snd k, ws_in = PUNCH_IN, ws_out = PUNCH_OUT,
      ws_break_minutes = BREAK_MINUTES, ws_break_start = Some BREAK_START, ws_from = SEED_EFFECTIVE_FROM,
      ws_to = None, ws_created_by = by, ws_updated_by = by, ws_deleted_by = None, ws_deleted_at = None\<rparr>"

definition schedule_present :: "int \<times> int \<Rightarrow> schedule_db \<Rightarrow> bool" where
  "schedule_present k db \<longleftrightarrow>
     list_ex (\<lambda>r. ws_employee r = fst k \<and> ws_dow r = snd k \<and> ws_from r = SEED_EFFECTIVE_FROM \<and> ws_to r = None \<and>
        ws_live r) (ws_rows db)"

definition insert_seed_schedule :: "int option \<Rightarrow> int \<times> int \<Rightarrow> schedule_db \<Rightarrow> http_error + schedule_db" where
  "insert_seed_schedule by k db = bindR (ws_insert (seed_schedule by k) db) (\<lambda>(db', _). Inr db')"

definition seedSchedules :: "directory \<Rightarrow> schedule_db \<Rightarrow> schedule_db \<times> (http_error + nat \<times> nat)" where
  "seedSchedules d db =
     seed_loop schedule_present (insert_seed_schedule (seed_author d))
       (concat (map (\<lambda>e. map (Pair e) WORK_DAYS) (seeded_people d))) (0, 0) db"

definition SEED_WORK_DATES :: "date list" where
  "SEED_WORK_DATES = [Date 2026 4 27, Date 2026 4 28, Date 2026 4 29]"

definition buildPunch :: "date \<Rightarrow> int \<Rightarrow> int" where
  "buildPunch d hour = utc_day d * ms_per_day + hour * 3600000"

definition seed_entry :: "int option \<Rightarrow> int \<times> date \<Rightarrow> entry" where
  "seed_entry by k =
     \<lparr>te_id = 0, te_employee = fst k, te_date = snd k, te_in = buildPunch (snd k) 9,
      te_out = Some (buildPunch (snd k) 18), te_source = Admin, te_status = Confirmed, te_notes = None,
      te_created_by = by, te_updated_by = by, te_deleted_by = None, te_deleted_at = None\<rparr>"

definition entry_present :: "int \<times> date \<Rightarrow> entry_db \<Rightarrow> bool" where
  "entry_present k db \<longleftrightarrow> list_ex (\<lambda>r. te_employee r = fst k \<and> te_date r = snd k \<and> te_live r) (te_rows db)"

definition insert_seed_entry :: "int option \<Rightarrow> int \<times> date \<Rightarrow> entry_db \<Rightarrow> http_error + entry_db" where
  "insert_seed_entry by k db = bindR (te_insert (seed_entry by k) db) (\<lambda>(db', _). Inr db')"

definition seedEntries :: "directory \<Rightarrow> entry_db \<Rightarrow> entry_db \<times> (http_error + nat \<times> nat)" where
  "seedEntries d db =
     seed_loop entry_present (insert_seed_entry (seed_author d))
       (concat (map (\<lambda>e. map (Pair e) SEED_WORK_DATES) (seeded_people d))) (0, 0) db"

section \<open>Contracts\<close>

text \<open>No active row of the key starts on another day.\<close>

definition schedule_free :: "int \<times> int \<Rightarrow> schedule_db \<Rightarrow> bool" where
  "schedule_free k db \<longleftrightarrow>
     0 \<le> snd k \<and> snd k \<le> 6 \<and>
     (\<forall>r \<in> set (ws_rows db). ws_active r \<longrightarrow> ws_key r = k \<longrightarrow> ws_from r = SEED_EFFECTIVE_FROM)"

lemma seed_schedule_simps [simp]:
  "ws_active (seed_schedule by k)" "ws_key (seed_schedule by k) = k" "ws_from (seed_schedule by k) = SEED_EFFECTIVE_FROM"
  by (simp_all add: seed_schedule_def ws_active_def ws_live_def ws_key_def)

lemma seed_schedule_checks: "ws_checks (seed_schedule by k) \<longleftrightarrow> 0 \<le> snd k \<and> snd k \<le> 6"
  by (simp add: seed_schedule_def ws_checks_def PUNCH_IN_def PUNCH_OUT_def BREAK_MINUTES_def BREAK_START_def
      toSeconds_def)

lemma seed_schedule_valid:
  "assertSchedule (ws_in (seed_schedule by k)) (ws_out (seed_schedule by k)) (ws_break_minutes (seed_schedule by k))
     (ws_break_start (seed_schedule by k)) = Inr ()"
  "schedule_clocks (seed_schedule by k)"
  by (simp_all add: seed_schedule_def assertSchedule_iff PUNCH_IN_def PUNCH_OUT_def BREAK_MINUTES_def BREAK_START_def
      clock_less_def toSeconds_def sec_key_def schedule_clocks_def wf_clock_def)

lemma schedule_present_iff:
  "schedule_present k db \<longleftrightarrow>
     (\<exists>r \<in> set (ws_rows db). ws_active r \<and> ws_key r = k \<and> ws_from r = SEED_EFFECTIVE_FROM)"
  by (cases k) (auto simp: schedule_present_def list_ex_iff ws_active_def ws_key_def)

lemma insert_seed_schedule_Inr:
  "insert_seed_schedule by k db = Inr db' \<longleftrightarrow>
     0 \<le> snd k \<and> snd k \<le> 6 \<and> (\<forall>r \<in> set (ws_rows db). ws_active r \<longrightarrow> ws_key r \<noteq> k) \<and>
     db' = db\<lparr>ws_rows := ws_rows db @ [ws_stored ((seed_schedule by k)\<lparr>ws_id := ws_next db\<rparr>)], ws_next := ws_next db + 1\<rparr>"
  by (auto simp: insert_seed_schedule_def bindR_eq_Inr ws_insert_def Let_def list_ex_iff seed_schedule_checks
      split: if_splits)

lemma stored_seed_from [simp]: "ws_from (ws_stored (r\<lparr>ws_id := i\<rparr>)) = ws_from r"
  by (simp add: ws_stored_def)

interpretation schedule_seed: repeatable_seed schedule_present "insert_seed_schedule by" schedule_inv schedule_free for "by"
proof
  fix k j :: "int \<times> int" and s s' :: schedule_db
  show "insert_seed_schedule by k s = Inr s' \<Longrightarrow> schedule_inv s \<Longrightarrow> schedule_inv s'"
    using ws_insert_inv[OF _ _ seed_schedule_valid]
    by (cases k) (auto simp: insert_seed_schedule_def bindR_eq_Inr)
  show "insert_seed_schedule by k s = Inr s' \<Longrightarrow> schedule_present k s'"
    by (auto simp: insert_seed_schedule_Inr schedule_present_iff)
  show "insert_seed_schedule by k s = Inr s' \<Longrightarrow> schedule_present j s \<Longrightarrow> schedule_present j s'"
    by (auto simp: insert_seed_schedule_Inr schedule_present_iff)
  show "\<not> schedule_present k s \<Longrightarrow> okR (insert_seed_schedule by k s) \<longleftrightarrow> schedule_free k s"
    by (auto simp: okR_ex insert_seed_schedule_Inr schedule_free_def schedule_present_iff)
  show "insert_seed_schedule by k s = Inr s' \<Longrightarrow> \<not> schedule_present k s \<Longrightarrow> schedule_free j s' \<longleftrightarrow> schedule_free j s"
    by (auto simp: insert_seed_schedule_Inr schedule_free_def)
  show "schedule_inv s \<Longrightarrow> schedule_present k s \<Longrightarrow> schedule_free k s"
  proof -
    assume inv: "schedule_inv s" and p: "schedule_present k s"
    from p obtain r where r: "r \<in> set (ws_rows s)" "ws_active r" "ws_key r = k" "ws_from r = SEED_EFFECTIVE_FROM"
      by (auto simp: schedule_present_iff)
    have "q = r" if "q \<in> set (ws_rows s)" "ws_active q" "ws_key q = k" for q
      using inv unique_active_inj[of ws_active ws_key "ws_rows s" q r] r that by (simp add: schedule_inv_def)
    moreover have "0 \<le> snd k" "snd k \<le> 6"
      using inv r by (auto simp: schedule_inv_def list_all_iff schedule_ok_def ws_key_def)
    ultimately show "schedule_free k s" using r(4) by (auto simp: schedule_free_def)
  qed
qed

lemma insert_seed_entry_Inr:
  "insert_seed_entry by k db =
     Inr (db\<lparr>te_rows := te_rows db @ [(seed_entry by k)\<lparr>te_id := te_next db\<rparr>], te_next := te_next db + 1\<rparr>)"
  by (simp add: insert_seed_entry_def te_insert_def te_checks_def te_open_def seed_entry_def buildPunch_def Let_def)

interpretation entry_seed: repeatable_seed entry_present "insert_seed_entry by" entry_inv "\<lambda>_ _. True" for "by"
proof
  fix k j :: "int \<times> date" and s s' :: entry_db
  assume i: "insert_seed_entry by k s = Inr s'"
  then have s': "te_rows s' = te_rows s @ [(seed_entry by k)\<lparr>te_id := te_next s\<rparr>]" "te_next s' = te_next s + 1"
    by (auto simp: insert_seed_entry_Inr)
  show "entry_present k s'" "entry_present j s \<Longrightarrow> entry_present j s'"
    by (auto simp: s' entry_present_def seed_entry_def te_live_def)
  assume inv: "entry_inv s"
  have "serial_ok te_id (te_next s + 1) (te_rows s @ [(seed_entry by k)\<lparr>te_id := te_next s\<rparr>])"
    using inv by (intro serial_ok_snoc) (simp_all add: entry_inv_def)
  then show "entry_inv s'"
    using inv by (auto simp: s' entry_inv_def unique_active_snoc te_open_def seed_entry_def entry_ok_def te_checks_def
        buildPunch_def)
qed (simp_all add: insert_seed_entry_Inr)

section \<open>The runs\<close>

lemma schedule_keys: "k \<in> set (concat (map (\<lambda>e. map (Pair e) WORK_DAYS) (seeded_people d))) \<longleftrightarrow>
    fst k \<in> set (seeded_people d) \<and> 1 \<le> snd k \<and> snd k \<le> 5"
  by (cases k) (auto simp: WORK_DAYS_def)

lemma schedule_seed_inv: "schedule_inv db \<Longrightarrow> schedule_inv (fst (seedSchedules d db))"
  unfolding seedSchedules_def by (rule schedule_seed.loop_inv)

text \<open>The schedule seeder succeeds exactly when every schedule that is active for a seeded person on a weekday
  starts on the seed's own date.  Then it keeps the contract of the table, everybody has an active schedule from that
  date on each weekday, and a second run does nothing; one schedule changed since ends the run with the raw violation
  of the unique index.\<close>

theorem schedule_seed_succeeds_iff:
  assumes "schedule_inv db"
  shows "(okR (snd (seedSchedules d db)) \<longleftrightarrow>
      (\<forall>r \<in> set (ws_rows db). ws_active r \<longrightarrow> ws_employee r \<in> set (seeded_people d) \<longrightarrow> 1 \<le> ws_dow r \<longrightarrow>
         ws_dow r \<le> 5 \<longrightarrow> ws_from r = SEED_EFFECTIVE_FROM)) \<and>
    schedule_inv (fst (seedSchedules d db)) \<and>
    (\<forall>db' n m. seedSchedules d db = (db', Inr (n, m)) \<longrightarrow>
       seedSchedules d db' = (db', Inr (0, n + m)) \<and>
       (\<forall>e \<in> set (seeded_people d). \<forall>day. 1 \<le> day \<longrightarrow> day \<le> 5 \<longrightarrow> schedule_present (e, day) db'))"
proof (intro conjI allI impI)
  let ?ks = "concat (map (\<lambda>e. map (Pair e) WORK_DAYS) (seeded_people d))"
  have "okR (snd (seedSchedules d db)) \<longleftrightarrow> (\<forall>k \<in> set ?ks. schedule_free k db)"
    unfolding seedSchedules_def by (rule schedule_seed.loop_ok_iff[OF assms])
  also have "\<dots> \<longleftrightarrow> (\<forall>k. fst k \<in> set (seeded_people d) \<and> 1 \<le> snd k \<and> snd k \<le> 5 \<longrightarrow> schedule_free k db)"
    unfolding Ball_def schedule_keys ..
  finally show "okR (snd (seedSchedules d db)) \<longleftrightarrow>
      (\<forall>r \<in> set (ws_rows db). ws_active r \<longrightarrow> ws_employee r \<in> set (seeded_people d) \<longrightarrow> 1 \<le> ws_dow r \<longrightarrow>
         ws_dow r \<le> 5 \<longrightarrow> ws_from r = SEED_EFFECTIVE_FROM)"
    by (auto simp: schedule_free_def ws_key_def)
  show "schedule_inv (fst (seedSchedules d db))"
    by (rule schedule_seed_inv[OF assms])
  fix db' n m assume r: "seedSchedules d db = (db', Inr (n, m))"
  then show "seedSchedules d db' = (db', Inr (0, n + m))"
    unfolding seedSchedules_def by (rule schedule_seed.loop_repeat[OF assms])
  from schedule_seed.loop_result[OF assms r[unfolded seedSchedules_def]]
  have "\<forall>k \<in> set ?ks. schedule_present k db'" by simp
  then show "\<forall>e \<in> set (seeded_people d). \<forall>day. 1 \<le> day \<longrightarrow> day \<le> 5 \<longrightarrow> schedule_present (e, day) db'"
    unfolding Ball_def schedule_keys by simp
qed

text \<open>Ending a seeded schedule and seeding again brings it back: the ended row is not found, an active row from the
  seed's date is inserted beside it.\<close>

theorem schedule_seed_resurrects:
  assumes "schedule_inv db" "findScheduleById db i = Some r" "ws_active r" "ws_from r = SEED_EFFECTIVE_FROM"
    and "ws_employee r \<in> set (seeded_people d)" "1 \<le> ws_dow r" "ws_dow r \<le> 5"
    and "endScheduleLogically i t actor db = (db1, Inr ended)"
    and "seedSchedules d db1 = (db2, Inr counts)"
  shows "\<not> schedule_present (ws_key r) db1 \<and> schedule_present (ws_key r) db2"
proof
  obtain n m where c: "counts = (n, m)" by (cases counts)
  have r: "r \<in> set (ws_rows db)" "ws_id r = i" using assms(2) find_Some_iff_mem unfolding findScheduleById_def by fastforce+
  have inv1: "schedule_inv db1" using endScheduleLogically_preserves[OF assms(1), of i t actor] assms(8) by simp
  have "ws_key r \<in> set (concat (map (\<lambda>e. map (Pair e) WORK_DAYS) (seeded_people d)))"
    unfolding schedule_keys using assms(5-7) by (simp add: ws_key_def)
  then show "schedule_present (ws_key r) db2"
    using schedule_seed.loop_result[OF inv1 assms(9)[unfolded seedSchedules_def c]] by blast
  obtain s where s: "ws_rows db1 = update_where (\<lambda>q. ws_id q = i) (\<lambda>_. s) (ws_rows db)" "ws_to s = Some t"
    using assms(8)
  proof (cases rule: endScheduleLogically_cases[of i t actor db])
    case (ended q d q')
    have "ws_rows d = update_where (\<lambda>q. ws_id q = i) (\<lambda>_. ws_stored (ws_patched (end_patch t actor) r)) (ws_rows db)"
      using ended(1,3) assms(2) r(2)
      by (auto simp: ws_update_def ws_save_def bindR_eq_Inr ws_patched_def end_patch_def no_patch_def split: if_splits)
    moreover have "ws_to (ws_stored (ws_patched (end_patch t actor) r)) = Some t"
      by (simp add: ws_stored_def ws_patched_def end_patch_def no_patch_def)
    ultimately show ?thesis using ended(4) assms(8) by (intro that) (auto simp: publish_ws_def)
  qed simp
  have "\<not> (ws_active q \<and> ws_key q = ws_key r)" if q: "q \<in> set (ws_rows db1)" for q
  proof
    assume a: "ws_active q \<and> ws_key q = ws_key r"
    then have "q \<noteq> s" using s(2) by (auto simp: ws_active_def)
    then have m: "q \<in> set (ws_rows db)" "ws_id q \<noteq> i" using q s(1) by (auto simp: table_simps split: if_splits)
    have "unique_active ws_active ws_key (ws_rows db)" using assms(1) by (simp add: schedule_inv_def)
    from unique_active_inj[OF this m(1) r(1)] show False using a assms(3) r(2) m(2) by auto
  qed
  then show "\<not> schedule_present (ws_key r) db1" by (auto simp: schedule_present_iff)
qed

text \<open>The timesheet seeder never fails, keeps the contract of the table, leaves everybody with an entry on each of
  its dates, and a second run does nothing.\<close>

theorem entry_seed_repeatable:
  assumes "entry_inv db"
  shows "\<exists>db' n m. seedEntries d db = (db', Inr (n, m)) \<and> entry_inv db' \<and>
    (\<forall>e \<in> set (seeded_people d). \<forall>dt \<in> set SEED_WORK_DATES. existsForEmployeeDate db' e dt) \<and>
    seedEntries d db' = (db', Inr (0, n + m))"
proof -
  let ?ks = "concat (map (\<lambda>e. map (Pair e) SEED_WORK_DATES) (seeded_people d))"
  have free: "\<forall>k \<in> set ?ks. True" by simp
  obtain db' n m where r: "seed_loop entry_present (insert_seed_entry (seed_author d)) ?ks (0, 0) db = (db', Inr (n, m))"
    "entry_inv db'" "\<forall>k \<in> set ?ks. entry_present k db'"
    using entry_seed.loop_succeeds[OF assms free, of "seed_author d"] by (elim exE conjE) (rule that)
  have "\<forall>e \<in> set (seeded_people d). \<forall>dt \<in> set SEED_WORK_DATES. existsForEmployeeDate db' e dt"
    using r(3) by (auto simp: entry_present_def existsForEmployeeDate_def)
  then show ?thesis
    using r(1,2) entry_seed.loop_repeat[OF assms r(1)] unfolding seedEntries_def by blast
qed

section \<open>Witnesses\<close>

definition no_schedules :: schedule_db where
  "no_schedules = \<lparr>ws_rows = [], ws_next = 1, ws_events = []\<rparr>"

definition no_entries :: entry_db where
  "no_entries = \<lparr>te_rows = [], te_next = 1, te_events = []\<rparr>"

lemma empty_tables: "schedule_inv no_schedules" "entry_inv no_entries"
  by (simp_all add: schedule_inv_def no_schedules_def entry_inv_def no_entries_def)

definition seeded_schedules :: schedule_db where
  "seeded_schedules = fst (seedSchedules org_directory no_schedules)"

lemma seeded_schedules_inv: "schedule_inv seeded_schedules"
  unfolding seeded_schedules_def using schedule_seed_inv[OF empty_tables(1)] .

text \<open>The second employee's Monday ends, and starts anew with other hours.\<close>

definition ended_schedules :: schedule_db where
  "ended_schedules = fst (endScheduleLogically 1 (Date 2026 7 31) None seeded_schedules)"

definition changed_schedules :: schedule_db where
  "changed_schedules = fst (createSchedule \<lparr>wi_employee = 2, wi_dow = 1, wi_in = Clock 8 0 None, wi_out = Clock 17 0 None,
     wi_break_minutes = 60, wi_break_start = Some (Clock 12 0 None), wi_from = Date 2026 8 1, wi_to = None,
     wi_created_by = None\<rparr> ended_schedules)"

theorem schedule_seed_succeeds_iff_witness:
  "length (ws_rows seeded_schedules) = 25 \<and> length (ws_rows changed_schedules) = 26 \<and>
   \<not> okR (snd (seedSchedules org_directory changed_schedules))"
proof (intro conjI)
  show "length (ws_rows seeded_schedules) = 25" "length (ws_rows changed_schedules) = 26" by code_simp+
  have inv: "schedule_inv changed_schedules"
    unfolding changed_schedules_def ended_schedules_def
    by (intro createSchedule_preserves endScheduleLogically_preserves seeded_schedules_inv)
      (simp_all add: input_clocks_def wf_clock_def)
  have "list_ex (\<lambda>r. ws_active r \<and> ws_employee r \<in> set (seeded_people org_directory) \<and> 1 \<le> ws_dow r \<and> ws_dow r \<le> 5 \<and>
      ws_from r \<noteq> SEED_EFFECTIVE_FROM) (ws_rows changed_schedules)" by code_simp
  then show "\<not> okR (snd (seedSchedules org_directory changed_schedules))"
    using schedule_seed_succeeds_iff[OF inv, of org_directory] by (auto simp: list_ex_iff)
qed

theorem schedule_seed_resurrects_witness:
  "\<not> schedule_present (2, 1) ended_schedules \<and> schedule_present (2, 1) (fst (seedSchedules org_directory ended_schedules))"
proof -
  have "map_option (\<lambda>r. (ws_active r, ws_from r = SEED_EFFECTIVE_FROM, ws_key r, ws_employee r, ws_dow r))
      (findScheduleById seeded_schedules 1) = Some (True, True, (2, 1), 2, 1)" by code_simp
  then obtain r where r: "findScheduleById seeded_schedules 1 = Some r" "ws_active r" "ws_from r = SEED_EFFECTIVE_FROM"
    "ws_key r = (2, 1)" "ws_employee r = 2" "ws_dow r = 1" by auto
  have "2 \<in> set (seeded_people org_directory)" by code_simp
  moreover have "okR (snd (endScheduleLogically 1 (Date 2026 7 31) None seeded_schedules))" by code_simp
  then obtain q where "endScheduleLogically 1 (Date 2026 7 31) None seeded_schedules = (ended_schedules, Inr q)"
    unfolding ended_schedules_def by (metis okR_ex prod.collapse)
  moreover have "okR (snd (seedSchedules org_directory ended_schedules))" by code_simp
  then obtain c where "seedSchedules org_directory ended_schedules =
      (fst (seedSchedules org_directory ended_schedules), Inr c)" by (metis okR_ex prod.collapse)
  ultimately show ?thesis
    using schedule_seed_resurrects[OF seeded_schedules_inv r(1-3), of org_directory "Date 2026 7 31" None ended_schedules q]
      r(4-6) by simp
qed

theorem entry_seed_repeatable_witness:
  "\<exists>db' n m. seedEntries org_directory no_entries = (db', Inr (n, m)) \<and> existsForEmployeeDate db' 6 (Date 2026 4 27)"
proof -
  obtain db' n m where "seedEntries org_directory no_entries = (db', Inr (n, m))"
    "\<forall>e \<in> set (seeded_people org_directory). \<forall>dt \<in> set SEED_WORK_DATES. existsForEmployeeDate db' e dt"
    using entry_seed_repeatable[OF empty_tables(2), of org_directory] by blast
  moreover have "6 \<in> set (seeded_people org_directory)" by code_simp
  ultimately show ?thesis by (auto simp: SEED_WORK_DATES_def)
qed

end
