(* ===== verification/SeedLeave.thy ===== *)
theory SeedLeave
  imports SeedChains LeaveService
begin

text \<open>
  The seeder of leave requests (\<open>src/src/database/seeds/leave-request\<close>): the pure generator of an employee's
  rows (\<open>leave-rows.ts\<close>) and the run that inserts them (\<open>leave-request-seed.service.ts\<close>).  The long dash of
  the texts is written as a hyphen.
\<close>

section \<open>Weekdays\<close>

definition weekend :: "int \<Rightarrow> bool" where
  "weekend n \<longleftrightarrow> (n + 4) mod 7 = 0 \<or> (n + 4) mod 7 = 6"

text \<open>The first loop of \<open>nthWeekday\<close>.\<close>

function skip_weekend :: "int \<Rightarrow> int" where
  "skip_weekend n = (if weekend n then skip_weekend (n + 1) else n)"
  by pat_completeness auto
termination
proof (relation "measure (\<lambda>n. if (n + 4) mod 7 = 6 then 2 else if (n + 4) mod 7 = 0 then 1 else 0)")
  show "(n + 1, n) \<in> measure (\<lambda>n. if (n + 4) mod 7 = 6 then 2 else if (n + 4) mod 7 = 0 then 1 else 0)"
    if "weekend n" for n :: int
  proof -
    have "(n + 1 + 4) mod 7 = ((n + 4) mod 7 + 1) mod 7" by presburger
    then show ?thesis using that by (auto simp: weekend_def)
  qed
qed simp

text \<open>The second loop.\<close>

function weekday_loop :: "int \<Rightarrow> int \<Rightarrow> int \<Rightarrow> int" where
  "weekday_loop added offset n =
     (if added < offset
      then (if weekend (n + 1) then weekday_loop added offset (n + 1) else weekday_loop (added + 1) offset (n + 1))
      else n)"
  by pat_completeness auto
termination
proof (relation "measures [\<lambda>(added, offset, n). nat (offset - added),
    \<lambda>(added, offset, n). if (n + 5) mod 7 = 6 then 2 else if (n + 5) mod 7 = 0 then 1 else 0]")
  fix added offset n :: int
  assume "added < offset" "weekend (n + 1)"
  moreover have "(n + 1 + 5) mod 7 = ((n + 5) mod 7 + 1) mod 7" by presburger
  ultimately show "((added, offset, n + 1), added, offset, n) \<in> measures [\<lambda>(added, offset, n). nat (offset - added),
    \<lambda>(added, offset, n). if (n + 5) mod 7 = 6 then 2 else if (n + 5) mod 7 = 0 then 1 else 0]"
    by (auto simp: weekend_def add.assoc)
qed auto

declare skip_weekend.simps [simp del] weekday_loop.simps [simp del]

definition nthWeekday :: "date \<Rightarrow> int \<Rightarrow> date" where
  "nthWeekday base offset = iso_date (weekday_loop 0 offset (skip_weekend (utc_day base)))"

definition at_hour :: "date \<Rightarrow> int \<Rightarrow> int" where
  "at_hour d hour = utc_day d * ms_per_day + hour * 3600000"

section \<open>The rows of an employee\<close>

record leave_seed_input =
  li_employee :: int
  li_l1 :: int
  li_l2 :: "int option"
  li_admin :: "int option"
  li_base :: date
  li_attach :: bool
  li_index :: int

record leave_spec =
  ls_employee :: int
  ls_type :: leave_type
  ls_start :: date
  ls_end :: date
  ls_days :: rat
  ls_portion :: day_portion
  ls_status :: request_status
  ls_reason :: string
  ls_submitted_at :: int
  ls_decided_at :: "int option"
  ls_decided_by :: "int option"
  ls_note :: "string option"
  ls_path :: "decision_path option"
  ls_cancelled_at :: "int option"
  ls_cancelled_by :: "int option"
  ls_l1 :: int
  ls_l2 :: "int option"
  ls_requires :: bool
  ls_created_by :: "int option"

definition NON_ATTACH_TYPES :: "leave_type list" where
  "NON_ATTACH_TYPES = [Vacation, Birthday, Vacation, Emergency]"

definition HALF_DAY_OK :: "leave_type list" where
  "HALF_DAY_OK = [Vacation, Sick, Emergency]"

definition MULTI_DAY_OK :: "leave_type list" where
  "MULTI_DAY_OK = [Vacation, Sick]"

definition L1_REASON :: "leave_type \<Rightarrow> string" where
  "L1_REASON t =
     (case t of
        Vacation \<Rightarrow> ''Annual leave''
      | Sick \<Rightarrow> ''Sick - medical certificate attached''
      | Birthday \<Rightarrow> ''Birthday leave''
      | Emergency \<Rightarrow> ''Family emergency''
      | Bereavement \<Rightarrow> ''Bereavement'')"

definition leave_spec_row ::
  "leave_seed_input \<Rightarrow> leave_type \<Rightarrow> int \<Rightarrow> int \<Rightarrow> rat \<Rightarrow> day_portion \<Rightarrow> request_status \<Rightarrow> string \<Rightarrow> leave_spec" where
  "leave_spec_row i t start_offset end_offset days portion status reason =
     (let start = nthWeekday (li_base i) start_offset
      in \<lparr>ls_employee = li_employee i, ls_type = t, ls_start = start,
          ls_end = nthWeekday (li_base i) end_offset, ls_days = days, ls_portion = portion, ls_status = status,
          ls_reason = reason, ls_submitted_at = at_hour start 8, ls_decided_at = None, ls_decided_by = None,
          ls_note = None, ls_path = None, ls_cancelled_at = None, ls_cancelled_by = None, ls_l1 = li_l1 i,
          ls_l2 = li_l2 i, ls_requires = (t = Sick \<or> t = Bereavement), ls_created_by = li_admin i\<rparr>)"

definition decided_spec :: "leave_seed_input \<Rightarrow> leave_spec \<Rightarrow> string \<Rightarrow> leave_spec" where
  "decided_spec i r why =
     r\<lparr>ls_decided_at := Some (at_hour (ls_start r) 9),
       ls_decided_by := Some (case li_l2 i of Some l2 \<Rightarrow> l2 | None \<Rightarrow> li_l1 i),
       ls_path := Some Chain, ls_note := Some why\<rparr>"

definition pending_type :: "leave_seed_input \<Rightarrow> leave_type" where
  "pending_type i = (if li_attach i then Sick else NON_ATTACH_TYPES ! nat (li_index i mod 4))"

text \<open>Days, portion and the offset of the end of the pending row.\<close>

definition pending_shape :: "leave_seed_input \<Rightarrow> rat \<times> day_portion \<times> int" where
  "pending_shape i =
     (let base = li_index i mod 8; slot = li_index i mod 5; t = pending_type i
      in if slot = 0 \<and> t \<in> set HALF_DAY_OK then (1 / 2, First_half, base)
         else if slot = 1 \<and> t \<in> set MULTI_DAY_OK then (2, Full, base + 1)
         else (1, Full, base))"

definition resolved_row :: "leave_seed_input \<Rightarrow> leave_spec" where
  "resolved_row i =
     (let off = li_index i mod 8 + 6
      in if li_attach i
         then decided_spec i
                (leave_spec_row i Bereavement off off 1 Full Rejected ''Bereavement - documentation incomplete'')
                ''Rejected - please resubmit with documents.''
         else if li_employee i mod 2 = 0
         then (let r = leave_spec_row i Emergency off off 1 Full Cancelled ''Emergency - no longer needed''
               in r\<lparr>ls_cancelled_at := Some (at_hour (ls_start r) 7), ls_cancelled_by := Some (li_employee i)\<rparr>)
         else decided_spec i (leave_spec_row i Birthday off off 1 Full Rejected ''Birthday leave'') ''Rejected.'')"

definition buildLeaveRows :: "leave_seed_input \<Rightarrow> leave_spec list" where
  "buildLeaveRows i =
     (let base = li_index i mod 8; (days, portion, fin) = pending_shape i
      in [leave_spec_row i (pending_type i) base fin days portion Pending_l1 (L1_REASON (pending_type i))] @
         (if li_l2 i = None then []
          else [leave_spec_row i Vacation (base + 2) (base + 2) 1 Full Pending_l2
                  ''Vacation - awaiting final approval'']) @
         [decided_spec i
            (leave_spec_row i (if li_attach i then Sick else Vacation) (base + 4) (base + 4) 1 Full Approved
               ''Approved leave'') ''Approved.''] @
         [resolved_row i])"

section \<open>The weekday loops\<close>

text \<open>The working days from \<open>a\<close> to \<open>b\<close>.\<close>

definition weekdays :: "int \<Rightarrow> int \<Rightarrow> int set" where
  "weekdays a b = {n \<in> {a..b}. \<not> weekend n}"

lemma finite_weekdays [simp]: "finite (weekdays a b)"
  by (rule finite_subset[of _ "{a..b}"]) (auto simp: weekdays_def)

lemma weekdays_snoc:
  assumes "a \<le> b + 1"
  shows "weekdays a (b + 1) = (if weekend (b + 1) then weekdays a b else insert (b + 1) (weekdays a b))"
proof -
  have "{a..b + 1} = insert (b + 1) {a..b}" using assms by auto
  then show ?thesis by (auto simp: weekdays_def)
qed

lemma card_weekdays_snoc:
  assumes "a \<le> b + 1"
  shows "int (card (weekdays a (b + 1))) = int (card (weekdays a b)) + (if weekend (b + 1) then 0 else 1)"
proof -
  have "b + 1 \<notin> weekdays a b" by (simp add: weekdays_def)
  then show ?thesis using weekdays_snoc[OF assms] by simp
qed

lemma skip_weekend_spec:
  "\<not> weekend (skip_weekend n) \<and> n \<le> skip_weekend n \<and> weekdays n (skip_weekend n) = {skip_weekend n}"
proof (induction n rule: skip_weekend.induct)
  case (1 n)
  show ?case
  proof (cases "weekend n")
    case True
    then have s: "skip_weekend n = skip_weekend (n + 1)" by (subst skip_weekend.simps) simp
    have "weekdays n (skip_weekend (n + 1)) = weekdays (n + 1) (skip_weekend (n + 1))"
      using True by (auto simp: weekdays_def order_le_less)
    then show ?thesis using "1.IH"[OF True] s by simp
  next
    case False
    then have "skip_weekend n = n" by (subst skip_weekend.simps) simp
    then show ?thesis using False by (auto simp: weekdays_def)
  qed
qed

lemma weekday_loop_spec:
  assumes "a \<le> n" "int (card (weekdays a n)) = added + 1" "added \<le> offset" "\<not> weekend n \<or> added < offset"
  shows "\<not> weekend (weekday_loop added offset n) \<and> n \<le> weekday_loop added offset n \<and>
    int (card (weekdays a (weekday_loop added offset n))) = offset + 1"
  using assms
proof (induction added offset n rule: weekday_loop.induct)
  case (1 added offset n)
  show ?case
  proof (cases "added < offset")
    case True
    have c: "int (card (weekdays a (n + 1))) = added + 1 + (if weekend (n + 1) then 0 else 1)"
      using card_weekdays_snoc[of a n] "1.prems"(1,2) by simp
    show ?thesis
    proof (cases "weekend (n + 1)")
      case wk: True
      then have "weekday_loop added offset n = weekday_loop added offset (n + 1)"
        using True by (subst weekday_loop.simps) simp
      then show ?thesis using "1.IH"(1)[OF True wk] c wk True "1.prems"(1) by simp
    next
      case wk: False
      then have "weekday_loop added offset n = weekday_loop (added + 1) offset (n + 1)"
        using True by (subst weekday_loop.simps) simp
      then show ?thesis using "1.IH"(2)[OF True wk] c wk True "1.prems"(1) by simp
    qed
  next
    case False
    then have "weekday_loop added offset n = n" by (subst weekday_loop.simps) simp
    then show ?thesis using False "1.prems" by simp
  qed
qed

definition nth_day :: "date \<Rightarrow> int \<Rightarrow> int" where
  "nth_day base offset = weekday_loop 0 offset (skip_weekend (utc_day base))"

lemma nthWeekday_day: "nthWeekday base offset = iso_date (nth_day base offset)"
  by (simp add: nthWeekday_def nth_day_def)

lemma nth_day_spec:
  assumes "0 \<le> offset"
  shows "\<not> weekend (nth_day base offset)" "utc_day base \<le> nth_day base offset"
    "int (card (weekdays (utc_day base) (nth_day base offset))) = offset + 1"
proof -
  let ?s = "skip_weekend (utc_day base)"
  note s = skip_weekend_spec[of "utc_day base"]
  have "int (card (weekdays (utc_day base) ?s)) = 0 + 1" using s by simp
  from weekday_loop_spec[OF _ this assms] s
  show "\<not> weekend (nth_day base offset)" "utc_day base \<le> nth_day base offset"
    "int (card (weekdays (utc_day base) (nth_day base offset))) = offset + 1"
    by (auto simp: nth_day_def)
qed

lemma card_weekdays_mono: "b \<le> c \<Longrightarrow> card (weekdays a b) \<le> card (weekdays a c)"
  by (rule card_mono[OF finite_weekdays]) (auto simp: weekdays_def)

lemma card_weekdays_strict:
  assumes "b < c" "\<not> weekend c" "a \<le> c"
  shows "card (weekdays a b) < card (weekdays a c)"
proof (rule psubset_card_mono[OF finite_weekdays])
  have "c \<in> weekdays a c - weekdays a b" "weekdays a b \<subseteq> weekdays a c" using assms by (auto simp: weekdays_def)
  then show "weekdays a b \<subset> weekdays a c" by blast
qed

lemma nth_day_mono:
  assumes "0 \<le> o1" "o1 < o2"
  shows "nth_day base o1 < nth_day base o2"
proof (rule ccontr)
  assume "\<not> nth_day base o1 < nth_day base o2"
  then have "card (weekdays (utc_day base) (nth_day base o2)) \<le> card (weekdays (utc_day base) (nth_day base o1))"
    by (intro card_weekdays_mono) simp
  then show False using nth_day_spec(3)[of o1 base] nth_day_spec(3)[of o2 base] assms by simp
qed

text \<open>C35: The two loops return, and the \<open>n\<close>-th weekday of a date is the one weekday up to which, from that date on,
  there are \<open>n + 1\<close>.\<close>

theorem nthWeekday_is_nth:
  assumes "0 \<le> offset" "valid_date d"
  shows "nthWeekday base offset = d \<longleftrightarrow>
    weekdayOf d \<in> {1, 2, 3, 4, 5} \<and> int (card (weekdays (utc_day base) (utc_day d))) = offset + 1"
proof
  note s = nth_day_spec[OF assms(1), of base]
  have wk: "weekdayOf q \<in> {1, 2, 3, 4, 5} \<longleftrightarrow> \<not> weekend (utc_day q)" for q
    using weekdayOf_range[of q] by (auto simp: weekdayOf_def weekend_def)
  show "weekdayOf d \<in> {1, 2, 3, 4, 5} \<and> int (card (weekdays (utc_day base) (utc_day d))) = offset + 1"
    if "nthWeekday base offset = d"
    using that s wk[of d] by (auto simp: nthWeekday_day)
  assume d: "weekdayOf d \<in> {1, 2, 3, 4, 5} \<and> int (card (weekdays (utc_day base) (utc_day d))) = offset + 1"
  let ?n = "nth_day base offset" and ?d = "utc_day d"
  have "?d = ?n"
  proof (cases "?d < ?n")
    case True
    then show ?thesis using card_weekdays_strict[OF True s(1,2)] s(3) d by simp
  next
    case False
    have "utc_day base \<le> ?d" using False s(2) by simp
    then show ?thesis using card_weekdays_strict[of ?n ?d "utc_day base"] False s(3) d wk[of d]
      by (cases "?n < ?d") auto
  qed
  then show "nthWeekday base offset = d" using assms(2) by (metis iso_date_utc_day nthWeekday_day)
qed

theorem nthWeekday_is_nth_witness:
  "weekdayOf (Date 2025 3 10) \<in> {1, 2, 3, 4, 5} \<and>
   int (card (weekdays (utc_day (Date 2025 3 1)) (utc_day (Date 2025 3 10)))) = 5 + 1"
proof -
  have "nthWeekday (Date 2025 3 1) 5 = Date 2025 3 10" "valid_date (Date 2025 3 10)" by code_simp+
  then show ?thesis using nthWeekday_is_nth[of 5 "Date 2025 3 10" "Date 2025 3 1"] by simp
qed

section \<open>What is generated\<close>

text \<open>The rows the table takes and the lifecycle could have produced: status and decision agree.\<close>

definition decision_consistent :: "leave_spec \<Rightarrow> bool" where
  "decision_consistent r \<longleftrightarrow>
     (ls_decided_at r \<noteq> None \<longleftrightarrow> ls_status r \<in> {Approved, Rejected}) \<and>
     (ls_decided_by r \<noteq> None \<longleftrightarrow> ls_status r \<in> {Approved, Rejected}) \<and>
     (ls_path r = Some Chain \<longleftrightarrow> ls_status r \<in> {Approved, Rejected}) \<and>
     (ls_note r \<noteq> None \<longleftrightarrow> ls_status r \<in> {Approved, Rejected}) \<and>
     (ls_cancelled_at r \<noteq> None \<longleftrightarrow> ls_status r = Cancelled) \<and>
     (ls_cancelled_by r \<noteq> None \<longleftrightarrow> ls_status r = Cancelled) \<and>
     (ls_status r = Pending_l2 \<longrightarrow> ls_l2 r \<noteq> None)"

lemma weekday_iff: "weekdayOf d \<in> {1, 2, 3, 4, 5} \<longleftrightarrow> \<not> weekend (utc_day d)"
  using weekdayOf_range[of d] by (auto simp: weekdayOf_def weekend_def)

lemma card_weekdays_from:
  assumes "0 \<le> a" "a \<le> n"
  shows "int (card (weekdays (nth_day base a) (nth_day base n))) = n - a + 1"
proof -
  let ?x = "nth_day base a" and ?y = "nth_day base n" and ?b = "utc_day base"
  note x = nth_day_spec[OF assms(1), of base]
  have y: "int (card (weekdays ?b ?y)) = n + 1" using nth_day_spec(3)[of n base] assms by simp
  have xy: "?x \<le> ?y" using nth_day_mono[of a n base] assms by (cases "a = n") auto
  have before: "int (card (weekdays ?b ?x)) = int (card (weekdays ?b (?x - 1))) + 1"
    using card_weekdays_snoc[of ?b "?x - 1"] x(1,2) by simp
  have "weekdays ?b ?y = weekdays ?b (?x - 1) \<union> weekdays ?x ?y"
    using x(2) xy by (auto simp: weekdays_def)
  moreover have "weekdays ?b (?x - 1) \<inter> weekdays ?x ?y = {}" by (auto simp: weekdays_def)
  ultimately have "card (weekdays ?b ?y) = card (weekdays ?b (?x - 1)) + card (weekdays ?x ?y)"
    by (metis card_Un_disjoint finite_weekdays)
  then show ?thesis using x(3) y before by simp
qed

definition dates_ok :: "leave_spec \<Rightarrow> bool" where
  "dates_ok r \<longleftrightarrow>
     weekdayOf (ls_start r) \<in> {1, 2, 3, 4, 5} \<and> weekdayOf (ls_end r) \<in> {1, 2, 3, 4, 5} \<and>
     ls_start r \<le> ls_end r \<and> 1 / 2 \<le> ls_days r \<and> ls_days r \<le> 2 \<and>
     (if ls_portion r = Full
      then ls_days r = of_nat (card (weekdays (utc_day (ls_start r)) (utc_day (ls_end r))))
      else ls_days r = 1 / 2 \<and> ls_start r = ls_end r \<and> ls_type r \<in> set HALF_DAY_LEAVE_TYPES)"

lemma spec_row_dates:
  assumes "0 \<le> a" "n = a \<and> portion = Full \<and> days = 1 \<or> n = a + 1 \<and> portion = Full \<and> days = 2 \<or>
    n = a \<and> portion = First_half \<and> days = 1 / 2 \<and> t \<in> set HALF_DAY_LEAVE_TYPES"
  shows "dates_ok (leave_spec_row i t a n days portion st why)"
proof -
  have n: "a \<le> n" using assms(2) by auto
  have "nth_day (li_base i) a \<le> nth_day (li_base i) n"
    using nth_day_mono[of a n "li_base i"] assms(1) n by (cases "a = n") auto
  then have le: "iso_date (nth_day (li_base i) a) \<le> iso_date (nth_day (li_base i) n)"
    by (simp add: linorder_not_less[symmetric])
  have wk: "weekdayOf (iso_date (nth_day (li_base i) m)) \<in> {1, 2, 3, 4, 5}" if "0 \<le> m" for m
    using nth_day_spec(1)[OF that] unfolding weekday_iff by simp
  have "portion = Full \<Longrightarrow> (of_nat (card (weekdays (nth_day (li_base i) a) (nth_day (li_base i) n))) :: rat) = of_int (n - a + 1)"
    using card_weekdays_from[OF assms(1) n, of "li_base i"] by (metis of_int_of_nat_eq)
  then show ?thesis
    using assms(2) le wk[OF assms(1)] wk[of n] assms(1) n
    by (simp add: dates_ok_def leave_spec_row_def Let_def nthWeekday_day del: insert_iff) auto
qed

lemma resolved_row_simps [simp]:
  "ls_start (resolved_row i) = nthWeekday (li_base i) (li_index i mod 8 + 6)"
  "ls_end (resolved_row i) = nthWeekday (li_base i) (li_index i mod 8 + 6)"
  "ls_type (resolved_row i) = (if li_attach i then Bereavement else if li_employee i mod 2 = 0 then Emergency else Birthday)"
  "ls_requires (resolved_row i) = li_attach i"
  "ls_status (resolved_row i) = (if \<not> li_attach i \<and> li_employee i mod 2 = 0 then Cancelled else Rejected)"
  by (simp_all add: resolved_row_def decided_spec_def leave_spec_row_def Let_def)

lemma resolved_row_dates: "0 \<le> li_index i \<Longrightarrow> dates_ok (resolved_row i)"
  using spec_row_dates[of "li_index i mod 8 + 6" "li_index i mod 8 + 6" Full 1 Vacation i Approved "[]"]
  by (simp add: dates_ok_def resolved_row_def decided_spec_def leave_spec_row_def Let_def)

lemma pending_shape_cases:
  assumes "pending_shape i = (days, portion, fin)"
  shows "fin = li_index i mod 8 \<and> portion = Full \<and> days = 1 \<or> fin = li_index i mod 8 + 1 \<and> portion = Full \<and> days = 2 \<or>
    fin = li_index i mod 8 \<and> portion = First_half \<and> days = 1 / 2 \<and> pending_type i \<in> set HALF_DAY_OK"
  using assms by (auto simp: pending_shape_def Let_def split: if_splits)

lemma half_day_types: "set HALF_DAY_OK \<subseteq> set HALF_DAY_LEAVE_TYPES"
  by (auto simp: HALF_DAY_OK_def HALF_DAY_LEAVE_TYPES_def)

lemma pending_type_no_file: "pending_type i \<in> {Sick, Bereavement} \<Longrightarrow> li_attach i \<and> pending_type i = Sick"
proof -
  have "set NON_ATTACH_TYPES \<inter> {Sick, Bereavement} = {}" by (simp add: NON_ATTACH_TYPES_def)
  moreover have "nat (li_index i mod 4) < length NON_ATTACH_TYPES" by (simp add: NON_ATTACH_TYPES_def nat_less_iff)
  ultimately show "pending_type i \<in> {Sick, Bereavement} \<Longrightarrow> li_attach i \<and> pending_type i = Sick"
    unfolding pending_type_def by (metis disjoint_iff nth_mem)
qed

text \<open>The four rows with their columns.\<close>

lemma generated_rows:
  assumes "pending_shape i = (days, portion, fin)" "r \<in> set (buildLeaveRows i)"
  obtains "r = leave_spec_row i (pending_type i) (li_index i mod 8) fin days portion Pending_l1 (L1_REASON (pending_type i))"
  | "li_l2 i \<noteq> None" "r = leave_spec_row i Vacation (li_index i mod 8 + 2) (li_index i mod 8 + 2) 1 Full Pending_l2
       ''Vacation - awaiting final approval''"
  | "r = decided_spec i (leave_spec_row i (if li_attach i then Sick else Vacation) (li_index i mod 8 + 4)
       (li_index i mod 8 + 4) 1 Full Approved ''Approved leave'') ''Approved.''"
  | "r = resolved_row i"
  using assms by (auto simp: buildLeaveRows_def Let_def split: if_splits)

lemma decided_dates [simp]: "dates_ok (decided_spec i r v) \<longleftrightarrow> dates_ok r"
  by (simp add: dates_ok_def decided_spec_def)

lemma generated_dates:
  assumes "0 \<le> li_index i" "r \<in> set (buildLeaveRows i)"
  shows "dates_ok r"
proof -
  obtain days portion fin where p: "pending_shape i = (days, portion, fin)" by (cases "pending_shape i")
  let ?b = "li_index i mod 8"
  have b: "0 \<le> ?b" "0 \<le> ?b + 2" "0 \<le> ?b + 4" by simp_all
  from generated_rows[OF p assms(2)] show ?thesis
  proof cases
    case 1
    then show ?thesis
      using half_day_types pending_shape_cases[OF p] unfolding 1 by (intro spec_row_dates[OF b(1)]) blast
  next
    case 2
    then show ?thesis using spec_row_dates[OF b(2)] by simp
  next
    case 3
    then show ?thesis using spec_row_dates[OF b(3)] by simp
  next
    case 4
    then show ?thesis using resolved_row_dates[OF assms(1)] by simp
  qed
qed

lemma generated_decisions:
  assumes "r \<in> set (buildLeaveRows i)"
  shows "decision_consistent r \<and> (ls_status r = Approved \<longrightarrow> ls_type r \<in> fst ` set DEFAULT_LEAVE_ALLOCATIONS) \<and>
      (ls_requires r \<longleftrightarrow> ls_type r \<in> set ATTACHMENT_REQUIRED_LEAVE_TYPES) \<and> (ls_requires r \<longrightarrow> li_attach i)"
proof -
  obtain days portion fin where p: "pending_shape i = (days, portion, fin)" by (cases "pending_shape i")
  note spec = decision_consistent_def leave_spec_row_def decided_spec_def Let_def ATTACHMENT_REQUIRED_LEAVE_TYPES_def
    DEFAULT_LEAVE_ALLOCATIONS_def
  from generated_rows[OF p assms] show ?thesis
  proof cases
    case 1
    then show ?thesis using pending_type_no_file[of i] by (auto simp: spec)
  next
    case 4
    then show ?thesis by (auto simp: spec resolved_row_def)
  qed (auto simp: spec)
qed

lemma generated_sorted:
  assumes "0 \<le> li_index i"
  shows "sorted_wrt (\<lambda>p q. ls_end p < ls_start q) (buildLeaveRows i)"
proof -
  obtain days portion fin where p: "pending_shape i = (days, portion, fin)" by (cases "pending_shape i")
  let ?b = "li_index i mod 8"
  have fin: "0 \<le> fin" "fin \<le> ?b + 1" using pending_shape_cases[OF p] by auto
  have lt: "nthWeekday (li_base i) a < nthWeekday (li_base i) c" if "0 \<le> a" "a < c" for a c
    using that by (simp add: nthWeekday_day nth_day_mono)
  show ?thesis
    using fin by (auto simp: buildLeaveRows_def p Let_def leave_spec_row_def decided_spec_def intro!: lt)
qed

text \<open>The rows generated for an employee: each starts and ends on weekdays and charges the weekdays it covers or half
  a day, the ranges follow each other without meeting, the decision columns agree with the status, an approved row is
  of a type that has a grant, and only rows of an employee with a file need one.\<close>

theorem generated_leave_sound:
  assumes "0 \<le> li_index i"
  shows "(\<forall>r \<in> set (buildLeaveRows i).
      weekdayOf (ls_start r) \<in> {1, 2, 3, 4, 5} \<and> weekdayOf (ls_end r) \<in> {1, 2, 3, 4, 5} \<and>
      ls_start r \<le> ls_end r \<and> 1 / 2 \<le> ls_days r \<and> ls_days r \<le> 2 \<and>
      (if ls_portion r = Full
       then ls_days r = of_nat (card (weekdays (utc_day (ls_start r)) (utc_day (ls_end r))))
       else ls_days r = 1 / 2 \<and> ls_start r = ls_end r \<and> ls_type r \<in> set HALF_DAY_LEAVE_TYPES) \<and>
      decision_consistent r \<and> (ls_status r = Approved \<longrightarrow> ls_type r \<in> fst ` set DEFAULT_LEAVE_ALLOCATIONS) \<and>
      (ls_requires r \<longleftrightarrow> ls_type r \<in> set ATTACHMENT_REQUIRED_LEAVE_TYPES) \<and> (ls_requires r \<longrightarrow> li_attach i)) \<and>
    sorted_wrt (\<lambda>p q. ls_end p < ls_start q) (buildLeaveRows i)"
  using generated_dates[OF assms, unfolded dates_ok_def] generated_decisions generated_sorted[OF assms] by blast

definition sample_leave_input :: leave_seed_input where
  "sample_leave_input = \<lparr>li_employee = 6, li_l1 = 4, li_l2 = Some 5, li_admin = Some 1, li_base = Date 2025 3 3,
     li_attach = True, li_index = 6\<rparr>"


lemma sample_days: "map (\<lambda>k. nthWeekday (Date 2025 3 3) k) [6, 7, 8, 10, 12] =
    [Date 2025 3 11, Date 2025 3 12, Date 2025 3 13, Date 2025 3 17, Date 2025 3 19]"
  by code_simp

theorem generated_leave_sound_witness:
  "map (\<lambda>r. (ls_type r, ls_start r, ls_end r, ls_days r, ls_status r)) (buildLeaveRows sample_leave_input) =
     [(Sick, Date 2025 3 11, Date 2025 3 12, 2, Pending_l1), (Vacation, Date 2025 3 13, Date 2025 3 13, 1, Pending_l2),
      (Sick, Date 2025 3 17, Date 2025 3 17, 1, Approved), (Bereavement, Date 2025 3 19, Date 2025 3 19, 1, Rejected)] \<and>
   sorted_wrt (\<lambda>p q. ls_end p < ls_start q) (buildLeaveRows sample_leave_input)"
proof
  show "map (\<lambda>r. (ls_type r, ls_start r, ls_end r, ls_days r, ls_status r)) (buildLeaveRows sample_leave_input) =
     [(Sick, Date 2025 3 11, Date 2025 3 12, 2, Pending_l1), (Vacation, Date 2025 3 13, Date 2025 3 13, 1, Pending_l2),
      (Sick, Date 2025 3 17, Date 2025 3 17, 1, Approved), (Bereavement, Date 2025 3 19, Date 2025 3 19, 1, Rejected)]"
    using sample_days
    by (simp add: sample_leave_input_def buildLeaveRows_def pending_shape_def pending_type_def resolved_row_def
        leave_spec_row_def decided_spec_def Let_def HALF_DAY_OK_def MULTI_DAY_OK_def)
  show "sorted_wrt (\<lambda>p q. ls_end p < ls_start q) (buildLeaveRows sample_leave_input)"
    using generated_leave_sound[of sample_leave_input] by (simp add: sample_leave_input_def)
qed

end
