(* ===== verification/SeedLeaveRun.thy ===== *)
theory SeedLeaveRun
  imports SeedLeave LeaveLifecycle
begin

text \<open>
  The run of the leave seeder (\<open>src/src/database/seeds/leave-request/leave-request-seed.service.ts\<close>) over the leave
  tables: approvers from the chains, half-day times from the schedules, a placeholder file uploaded per employee.  The
  objects' names (uuids), the storage and the placeholder's bytes are parameters.
\<close>

section \<open>Sources\<close>

record schedule_window =
  sw_in :: clock
  sw_out :: clock
  sw_break_start :: clock
  sw_break_end :: clock

definition addMinutesToTime :: "clock \<Rightarrow> int \<Rightarrow> clock" where
  "addMinutesToTime t mins =
     (let total = hh t * 60 + mi t + mins
      in Clock ((total div 60) mod 24) (total mod 60) (Some (case ss t of None \<Rightarrow> 0 | Some s \<Rightarrow> s)))"

definition chainByEmp :: "chain list \<Rightarrow> int \<Rightarrow> (int option \<times> int option) option" where
  "chainByEmp rows =
     fold (\<lambda>c m.
         let e = (case m (ch_employee c) of None \<Rightarrow> (None, None) | Some e \<Rightarrow> e);
             e1 = (if ch_step c = 1 then (Some (ch_approver c), snd e) else e);
             e2 = (if ch_step c = 2 then (fst e1, Some (ch_approver c)) else e1)
         in m(ch_employee c \<mapsto> e2))
       (filter chain_active rows) (\<lambda>_. None)"

definition windowByEmp :: "schedule list \<Rightarrow> int \<Rightarrow> schedule_window option" where
  "windowByEmp rows =
     fold (\<lambda>s m.
         if m (ws_employee s) \<noteq> None then m
         else (case ws_break_start s of
                 None \<Rightarrow> m
               | Some b \<Rightarrow> m(ws_employee s \<mapsto>
                   \<lparr>sw_in = ws_in s, sw_out = ws_out s, sw_break_start = b,
                    sw_break_end = addMinutesToTime b (ws_break_minutes s)\<rparr>)))
       (filter ws_active rows) (\<lambda>_. None)"

record half_day_slot =
  hs_portion :: day_portion
  hs_start :: "clock option"
  hs_end :: "clock option"
  hs_days :: "rat option"

definition halfDaySlot :: "day_portion \<Rightarrow> schedule_window option \<Rightarrow> half_day_slot" where
  "halfDaySlot portion w =
     (if portion = Full then \<lparr>hs_portion = Full, hs_start = None, hs_end = None, hs_days = None\<rparr>
      else case w of
        None \<Rightarrow> \<lparr>hs_portion = Full, hs_start = None, hs_end = None, hs_days = Some 1\<rparr>
      | Some v \<Rightarrow>
          if portion = First_half
          then \<lparr>hs_portion = portion, hs_start = Some (sw_in v), hs_end = Some (sw_break_start v), hs_days = None\<rparr>
          else \<lparr>hs_portion = portion, hs_start = Some (sw_break_end v), hs_end = Some (sw_out v), hs_days = None\<rparr>)"

section \<open>The run\<close>

record leave_seed_env =
  lq_directory :: directory
  lq_chains :: chain_db
  lq_schedules :: schedule_db
  lq_storage :: storage_env
  lq_placeholder :: "bytes option"
  lq_uuid :: "int \<Rightarrow> string"

definition BASE_DATE :: date where "BASE_DATE = Date 2025 3 3"

definition uploadPlaceholder ::
  "leave_seed_env \<Rightarrow> int \<Rightarrow> bytes \<Rightarrow> int option \<Rightarrow> leave_db \<Rightarrow> leave_db \<times> (http_error + int)" where
  "uploadPlaceholder env owner buffer actor db =
     (case uploadForOwner (lq_storage env) (lq_uuid env owner) buffer ''seed-attachment-placeholder.png'' owner
             (case actor of None \<Rightarrow> owner | Some a \<Rightarrow> a) (ld_store db) of
        (os, Inl er) \<Rightarrow> (db\<lparr>ld_store := os\<rparr>, Inl er)
      | (os, Inr p) \<Rightarrow>
          (case at_insert (directory_port (lq_directory env)) p (db\<lparr>ld_store := os\<rparr>) of
             Inl er \<Rightarrow> (db\<lparr>ld_store := cleanup (lq_storage env) p os\<rparr>, Inl er)
           | Inr (db', a) \<Rightarrow> (db', Inr (at_id a))))"

definition seeded_leave :: "leave_spec \<Rightarrow> half_day_slot \<Rightarrow> int option \<Rightarrow> leave" where
  "seeded_leave r slot att =
     \<lparr>lr_id = 0, lr_employee = ls_employee r, lr_type = ls_type r, lr_start = ls_start r, lr_end = ls_end r,
      lr_days = (case hs_days slot of None \<Rightarrow> ls_days r | Some x \<Rightarrow> x), lr_portion = hs_portion slot,
      lr_start_time = hs_start slot, lr_end_time = hs_end slot, lr_reason = Some (ls_reason r),
      lr_status = ls_status r, lr_submitted_at = ls_submitted_at r, lr_decided_at = ls_decided_at r,
      lr_decided_by = ls_decided_by r, lr_decision_note = ls_note r, lr_decision_path = ls_path r,
      lr_cancelled_at = ls_cancelled_at r, lr_cancelled_by = ls_cancelled_by r, lr_l1 = ls_l1 r, lr_l2 = ls_l2 r,
      lr_attachment = (if ls_requires r then att else None), lr_created_by = ls_created_by r,
      lr_updated_by = ls_created_by r, lr_deleted_at = None\<rparr>"

definition leave_present :: "leave_db \<Rightarrow> leave_spec \<Rightarrow> bool" where
  "leave_present db r \<longleftrightarrow>
     list_ex (\<lambda>q. lr_live q \<and> lr_employee q = ls_employee r \<and> lr_type q = ls_type r \<and> lr_start q = ls_start r)
       (ld_requests db)"

text \<open>The inner loop; the counts are the rows inserted and the rows left out for want of a file.\<close>

fun insert_missing ::
  "leave_seed_env \<Rightarrow> int option \<Rightarrow> schedule_window option \<Rightarrow> leave_spec list \<Rightarrow> nat \<times> nat \<Rightarrow> leave_db
     \<Rightarrow> leave_db \<times> (http_error + nat \<times> nat)" where
  "insert_missing env att w [] (n, k) db = (db, Inr (n, k))"
| "insert_missing env att w (r # rs) (n, k) db =
     (if ls_requires r \<and> att = None then insert_missing env att w rs (n, k + 1) db
      else (case lr_insert (directory_port (lq_directory env))
                   (seeded_leave r (halfDaySlot (ls_portion r) w) att) db of
              Inl er \<Rightarrow> (db, Inl er)
            | Inr (db', _) \<Rightarrow> insert_missing env att w rs (n + 1, k) db'))"

definition seed_upload :: "leave_seed_env \<Rightarrow> int \<Rightarrow> leave_spec list \<Rightarrow> leave_db \<Rightarrow> leave_db \<times> int option" where
  "seed_upload env e missing db =
     (case lq_placeholder env of
        None \<Rightarrow> (db, None)
      | Some b \<Rightarrow>
          if \<not> list_ex ls_requires missing then (db, None)
          else (case uploadPlaceholder env e b (seed_author (lq_directory env)) db of
                  (db', Inl _) \<Rightarrow> (db', None)
                | (db', Inr i) \<Rightarrow> (db', Some i)))"

definition leave_input :: "leave_seed_env \<Rightarrow> int \<Rightarrow> int \<Rightarrow> int option \<Rightarrow> int \<Rightarrow> leave_seed_input" where
  "leave_input env e l1 l2 index =
     \<lparr>li_employee = e, li_l1 = l1, li_l2 = l2, li_admin = seed_author (lq_directory env), li_base = BASE_DATE,
      li_attach = (lq_placeholder env \<noteq> None \<and> index mod 3 = 0), li_index = index\<rparr>"

text \<open>The outer loop, with the index of the next employee and the counts inserted, skipped and without file.\<close>

fun leave_seed_loop ::
  "leave_seed_env \<Rightarrow> int list \<Rightarrow> int \<Rightarrow> nat \<times> nat \<times> nat \<Rightarrow> leave_db \<Rightarrow> leave_db \<times> (http_error + nat \<times> nat \<times> nat)" where
  "leave_seed_loop env [] index c db = (db, Inr c)"
| "leave_seed_loop env (e # es) index (n, m, k) db =
     (case chainByEmp (ch_rows (lq_chains env)) e of
        Some (Some l1, l2) \<Rightarrow>
          (let rows = buildLeaveRows (leave_input env e l1 l2 index);
               missing = filter (\<lambda>r. \<not> leave_present db r) rows
           in if missing = [] then leave_seed_loop env es (index + 1) (n, m + length rows, k) db
              else (let (db1, att) = seed_upload env e missing db
                    in case insert_missing env att (windowByEmp (ws_rows (lq_schedules env)) e) missing (n, k) db1 of
                         (db2, Inl er) \<Rightarrow> (db2, Inl er)
                       | (db2, Inr (n', k')) \<Rightarrow> leave_seed_loop env es (index + 1) (n', m, k') db2))
      | _ \<Rightarrow> leave_seed_loop env es index (n, m, k) db)"

definition leave_seed_people :: "leave_seed_env \<Rightarrow> int list" where
  "leave_seed_people env =
     sort (map ue_id (filter (\<lambda>u. ue_live u \<and> chainByEmp (ch_rows (lq_chains env)) (ue_id u) \<noteq> None)
       (dr_users (lq_directory env))))"

definition seedLeave :: "leave_seed_env \<Rightarrow> leave_db \<Rightarrow> leave_db \<times> (http_error + nat \<times> nat \<times> nat)" where
  "seedLeave env db = leave_seed_loop env (leave_seed_people env) 0 (0, 0, 0) db"

section \<open>The inner loop\<close>

definition spec_ok :: "user_port \<Rightarrow> leave_spec \<Rightarrow> bool" where
  "spec_ok up r \<longleftrightarrow>
     ls_start r \<le> ls_end r \<and> 1 / 2 \<le> ls_days r \<and> ls_days r \<le> 2 \<and> (ls_portion r = Full \<or> ls_start r = ls_end r) \<and>
     user_row up (ls_employee r) \<and> user_row up (ls_l1 r) \<and>
     list_all (\<lambda>c. case c of None \<Rightarrow> True | Some u \<Rightarrow> user_row up u) [ls_l2 r, ls_decided_by r, ls_cancelled_by r]"

lemma slot_cases: "hs_portion (halfDaySlot p w) \<in> {Full, p}" "hs_days (halfDaySlot p w) \<in> {None, Some 1}"
  by (simp_all add: halfDaySlot_def split: option.split)

lemma seeded_leave_simps [simp]:
  "lr_employee (seeded_leave r s att) = ls_employee r" "lr_type (seeded_leave r s att) = ls_type r"
  "lr_start (seeded_leave r s att) = ls_start r" "lr_end (seeded_leave r s att) = ls_end r"
  "lr_status (seeded_leave r s att) = ls_status r" "lr_live (seeded_leave r s att)"
  "lr_l1 (seeded_leave r s att) = ls_l1 r" "lr_l2 (seeded_leave r s att) = ls_l2 r"
  "lr_attachment (seeded_leave r s att) = (if ls_requires r then att else None)"
  by (simp_all add: seeded_leave_def lr_live_def)

lemma seeded_checks:
  assumes "spec_ok up r"
  shows "lr_checks ((seeded_leave r (halfDaySlot (ls_portion r) w) att)\<lparr>lr_id := i\<rparr>)"
    "lr_checks (seeded_leave r (halfDaySlot (ls_portion r) w) att)"
    "lr_fks up (seeded_leave r (halfDaySlot (ls_portion r) w) att)"
  using assms slot_cases[of "ls_portion r" w]
  by (auto simp: spec_ok_def lr_checks_def lr_fks_def seeded_leave_def)

text \<open>A table row made from a generated row.\<close>

definition seeded_row :: "schedule_window option \<Rightarrow> int option \<Rightarrow> leave_spec \<Rightarrow> leave \<Rightarrow> bool" where
  "seeded_row w att r q \<longleftrightarrow>
     (ls_requires r \<longrightarrow> att \<noteq> None) \<and>
     (\<exists>i. q = lr_stored ((seeded_leave r (halfDaySlot (ls_portion r) w) att)\<lparr>lr_id := i\<rparr>))"

lemma seeded_row_fields:
  assumes "seeded_row w att r q"
  shows "lr_employee q = ls_employee r" "lr_type q = ls_type r" "lr_start q = ls_start r" "lr_end q = ls_end r"
    "lr_status q = ls_status r" "lr_live q" "lr_l1 q = ls_l1 r" "lr_l2 q = ls_l2 r"
    "lr_attachment q = (if ls_requires r then att else None)"
  using assms by (auto simp: seeded_row_def lr_live_def)
    (simp_all add: seeded_leave_def)

lemma insert_missing_ok:
  assumes "\<forall>r \<in> set rs. spec_ok (directory_port (lq_directory env)) r"
  shows "\<exists>new. insert_missing env att w rs (n, k) db =
      (db\<lparr>ld_requests := ld_requests db @ new, ld_next := ld_next db + int (length new)\<rparr>,
       Inr (n + length new, k + length (filter (\<lambda>r. ls_requires r \<and> att = None) rs))) \<and>
    (\<forall>q \<in> set new. \<exists>r \<in> set rs. seeded_row w att r q \<and> lr_checks q) \<and>
    (\<forall>r \<in> set rs. (ls_requires r \<longrightarrow> att \<noteq> None) \<longrightarrow> (\<exists>q \<in> set new. seeded_row w att r q)) \<and>
    (serial_ok lr_id (ld_next db) (ld_requests db) \<longrightarrow>
       serial_ok lr_id (ld_next db + int (length new)) (ld_requests db @ new))"
  using assms
proof (induction rs arbitrary: n k db)
  case Nil
  then show ?case by (intro exI[of _ "[]"]) simp
next
  case (Cons r rs)
  let ?up = "directory_port (lq_directory env)" and ?s = "seeded_leave r (halfDaySlot (ls_portion r) w) att"
  have rest: "\<forall>r \<in> set rs. spec_ok ?up r" using Cons.prems by simp
  show ?case
  proof (cases "ls_requires r \<and> att = None")
    case True
    obtain new where "insert_missing env att w rs (n, k + 1) db =
      (db\<lparr>ld_requests := ld_requests db @ new, ld_next := ld_next db + int (length new)\<rparr>,
       Inr (n + length new, k + 1 + length (filter (\<lambda>r. ls_requires r \<and> att = None) rs)))"
      "\<forall>q \<in> set new. \<exists>r \<in> set rs. seeded_row w att r q \<and> lr_checks q"
      "\<forall>r \<in> set rs. (ls_requires r \<longrightarrow> att \<noteq> None) \<longrightarrow> (\<exists>q \<in> set new. seeded_row w att r q)"
      "serial_ok lr_id (ld_next db) (ld_requests db) \<longrightarrow>
         serial_ok lr_id (ld_next db + int (length new)) (ld_requests db @ new)"
      using Cons.IH[OF rest, of n "k + 1" db] by (elim exE conjE) (rule that)
    then show ?thesis using True by (intro exI[of _ new]) auto
  next
    case False
    define q where "q = lr_stored (?s\<lparr>lr_id := ld_next db\<rparr>)"
    define db1 where "db1 = db\<lparr>ld_requests := ld_requests db @ [q], ld_next := ld_next db + 1\<rparr>"
    have ok: "spec_ok ?up r" using Cons.prems by simp
    have q: "seeded_row w att r q" "lr_checks q"
      using False seeded_checks(1)[OF ok, where w = w and att = att and i = "ld_next db"] by (auto simp: seeded_row_def q_def)
    have ins: "lr_insert ?up ?s db = Inr (db1, q)"
      using seeded_checks(2,3)[OF ok] by (simp add: lr_insert_def Let_def q_def db1_def)
    have step: "insert_missing env att w (r # rs) (n, k) db = insert_missing env att w rs (n + 1, k) db1"
      using False ins by auto
    obtain new where new: "insert_missing env att w rs (n + 1, k) db1 =
      (db1\<lparr>ld_requests := ld_requests db1 @ new, ld_next := ld_next db1 + int (length new)\<rparr>,
       Inr (n + 1 + length new, k + length (filter (\<lambda>r. ls_requires r \<and> att = None) rs)))"
      "\<forall>q \<in> set new. \<exists>r \<in> set rs. seeded_row w att r q \<and> lr_checks q"
      "\<forall>r \<in> set rs. (ls_requires r \<longrightarrow> att \<noteq> None) \<longrightarrow> (\<exists>q \<in> set new. seeded_row w att r q)"
      "serial_ok lr_id (ld_next db1) (ld_requests db1) \<longrightarrow>
         serial_ok lr_id (ld_next db1 + int (length new)) (ld_requests db1 @ new)"
      using Cons.IH[OF rest, of "n + 1" k db1] by (elim exE conjE) (rule that)
    have "serial_ok lr_id (ld_next db) (ld_requests db) \<longrightarrow> serial_ok lr_id (ld_next db1) (ld_requests db1)"
      using serial_ok_snoc[of lr_id "ld_next db" "ld_requests db" q] by (simp add: db1_def q_def)
    then have "serial_ok lr_id (ld_next db) (ld_requests db) \<longrightarrow>
        serial_ok lr_id (ld_next db + int (length (q # new))) (ld_requests db @ q # new)"
      using new(4) by (simp add: db1_def algebra_simps)
    then show ?thesis
      unfolding step new(1) using False q new(2,3) by (intro exI[of _ "q # new"]) (auto simp: db1_def)
  qed
qed

section \<open>The upload\<close>

lemma seed_upload_frame:
  assumes "seed_upload env e rs db = (db', att)"
  shows "ld_requests db' = ld_requests db \<and> ld_next db' = ld_next db" "\<exists>fs. ld_files db' = ld_files db @ fs"
    "att = Some i \<Longrightarrow> \<exists>a \<in> set (ld_files db'). at_id a = i \<and> at_owner a = e"
    "lq_placeholder env = None \<Longrightarrow> db' = db \<and> att = None"
proof -
  have owner: "pa_owner p = e" if "uploadForOwner senv u b f e c os = (os', Inr p)" for senv u b f c os os' p
    using upload_success[OF that] by auto
  have "(ld_requests db' = ld_requests db \<and> ld_next db' = ld_next db) \<and> (\<exists>fs. ld_files db' = ld_files db @ fs) \<and>
      (\<forall>i. att = Some i \<longrightarrow> (\<exists>a \<in> set (ld_files db'). at_id a = i \<and> at_owner a = e)) \<and>
      (lq_placeholder env = None \<longrightarrow> db' = db \<and> att = None)"
  proof (cases "lq_placeholder env")
    case None
    then show ?thesis using assms by (auto simp: seed_upload_def)
  next
    case (Some b)
    obtain os r where u: "uploadForOwner (lq_storage env) (lq_uuid env e) b ''seed-attachment-placeholder.png'' e
        (case seed_author (lq_directory env) of None \<Rightarrow> e | Some a \<Rightarrow> a) (ld_store db) = (os, r)"
      by (cases "uploadForOwner (lq_storage env) (lq_uuid env e) b ''seed-attachment-placeholder.png'' e
        (case seed_author (lq_directory env) of None \<Rightarrow> e | Some a \<Rightarrow> a) (ld_store db)")
    show ?thesis
    proof (cases r)
      case (Inl er)
      then show ?thesis using assms Some u by (auto simp: seed_upload_def uploadPlaceholder_def split: if_splits)
    next
      case (Inr p)
      show ?thesis
        using assms Some u owner[OF u[unfolded Inr]]
        by (cases "at_insert (directory_port (lq_directory env)) p (db\<lparr>ld_store := os\<rparr>)")
          (auto simp: seed_upload_def uploadPlaceholder_def Inr at_insert_def Let_def persist_attachment_def
            split: if_splits)
    qed
  qed
  then show "ld_requests db' = ld_requests db \<and> ld_next db' = ld_next db" "\<exists>fs. ld_files db' = ld_files db @ fs"
    "att = Some i \<Longrightarrow> \<exists>a \<in> set (ld_files db'). at_id a = i \<and> at_owner a = e"
    "lq_placeholder env = None \<Longrightarrow> db' = db \<and> att = None" by auto
qed

section \<open>The plan\<close>

text \<open>The inputs the outer loop hands to the generator, in its order.\<close>

fun leave_plan :: "leave_seed_env \<Rightarrow> int list \<Rightarrow> int \<Rightarrow> leave_seed_input list" where
  "leave_plan env [] index = []"
| "leave_plan env (e # es) index =
     (case chainByEmp (ch_rows (lq_chains env)) e of
        Some (Some l1, l2) \<Rightarrow> leave_input env e l1 l2 index # leave_plan env es (index + 1)
      | _ \<Rightarrow> leave_plan env es index)"

definition window_of :: "leave_seed_env \<Rightarrow> leave_seed_input \<Rightarrow> schedule_window option" where
  "window_of env i = windowByEmp (ws_rows (lq_schedules env)) (li_employee i)"

lemma plan_inputs:
  assumes "i \<in> set (leave_plan env es index)" "0 \<le> index"
  shows "li_employee i \<in> set es" "chainByEmp (ch_rows (lq_chains env)) (li_employee i) = Some (Some (li_l1 i), li_l2 i)"
    "0 \<le> li_index i" "li_attach i \<Longrightarrow> lq_placeholder env \<noteq> None"
proof -
  have "li_employee i \<in> set es \<and>
      chainByEmp (ch_rows (lq_chains env)) (li_employee i) = Some (Some (li_l1 i), li_l2 i) \<and>
      0 \<le> li_index i \<and> (li_attach i \<longrightarrow> lq_placeholder env \<noteq> None)"
    using assms
  proof (induction es arbitrary: index)
    case (Cons e es)
    show ?case
    proof (cases "\<exists>l1 l2. chainByEmp (ch_rows (lq_chains env)) e = Some (Some l1, l2)")
      case True
      then obtain l1 l2 where c: "chainByEmp (ch_rows (lq_chains env)) e = Some (Some l1, l2)" by blast
      show ?thesis
      proof (cases "i \<in> set (leave_plan env es (index + 1))")
        case later: True
        then show ?thesis using Cons.IH[OF later] Cons.prems(2) by simp
      next
        case False
        then have "i = leave_input env e l1 l2 index" using Cons.prems(1) c by simp
        then show ?thesis using c Cons.prems(2) by (simp add: leave_input_def)
      qed
    next
      case False
      then have "leave_plan env (e # es) index = leave_plan env es index" by (auto split: option.splits)
      then show ?thesis using Cons.IH[of index] Cons.prems by simp
    qed
  qed simp
  then show "li_employee i \<in> set es" "chainByEmp (ch_rows (lq_chains env)) (li_employee i) = Some (Some (li_l1 i), li_l2 i)"
    "0 \<le> li_index i" "li_attach i \<Longrightarrow> lq_placeholder env \<noteq> None" by simp_all
qed

lemma rows_people:
  assumes "r \<in> set (buildLeaveRows i)"
  shows "ls_employee r = li_employee i" "ls_l1 r = li_l1 i" "ls_l2 r = li_l2 i"
    "ls_decided_by r = Some u \<Longrightarrow> u = li_l1 i \<or> Some u = li_l2 i"
    "ls_cancelled_by r = Some u \<Longrightarrow> u = li_employee i"
proof -
  obtain days portion fin where p: "pending_shape i = (days, portion, fin)" by (cases "pending_shape i")
  have "ls_employee r = li_employee i \<and> ls_l1 r = li_l1 i \<and> ls_l2 r = li_l2 i \<and>
      (\<forall>u. ls_decided_by r = Some u \<longrightarrow> u = li_l1 i \<or> Some u = li_l2 i) \<and>
      (\<forall>u. ls_cancelled_by r = Some u \<longrightarrow> u = li_employee i)"
    using generated_rows[OF p assms]
    by cases (auto simp: leave_spec_row_def decided_spec_def resolved_row_def Let_def split: option.splits)
  then show "ls_employee r = li_employee i" "ls_l1 r = li_l1 i" "ls_l2 r = li_l2 i"
    "ls_decided_by r = Some u \<Longrightarrow> u = li_l1 i \<or> Some u = li_l2 i"
    "ls_cancelled_by r = Some u \<Longrightarrow> u = li_employee i" by simp_all
qed

lemma chainByEmp_snoc:
  "chainByEmp (rows @ [c]) =
     (if chain_active c
      then (chainByEmp rows)(ch_employee c \<mapsto>
             (let e = (case chainByEmp rows (ch_employee c) of None \<Rightarrow> (None, None) | Some e \<Rightarrow> e);
                  e1 = (if ch_step c = 1 then (Some (ch_approver c), snd e) else e)
              in if ch_step c = 2 then (fst e1, Some (ch_approver c)) else e1))
      else chainByEmp rows)"
  by (simp add: chainByEmp_def Let_def)

lemma chainByEmp_rows:
  assumes "chainByEmp rows e = Some (a, b)"
  shows "a = Some x \<Longrightarrow> \<exists>c \<in> set rows. chain_active c \<and> chain_key c = (e, 1) \<and> ch_approver c = x"
    "b = Some x \<Longrightarrow> \<exists>c \<in> set rows. chain_active c \<and> chain_key c = (e, 2) \<and> ch_approver c = x"
proof -
  have "(\<forall>x. a = Some x \<longrightarrow> (\<exists>c \<in> set rows. chain_active c \<and> chain_key c = (e, 1) \<and> ch_approver c = x)) \<and>
      (\<forall>x. b = Some x \<longrightarrow> (\<exists>c \<in> set rows. chain_active c \<and> chain_key c = (e, 2) \<and> ch_approver c = x))"
    using assms
  proof (induction rows arbitrary: a b rule: rev_induct)
    case Nil
    then show ?case by (simp add: chainByEmp_def)
  next
    case (snoc c rows)
    show ?case
    proof (cases "chain_active c \<and> ch_employee c = e")
      case True
      obtain p q where pq: "(case chainByEmp rows e of None \<Rightarrow> (None, None) | Some e \<Rightarrow> e) = (p, q)" by fastforce
      have IH: "\<forall>x. p = Some x \<longrightarrow> (\<exists>c \<in> set rows. chain_active c \<and> chain_key c = (e, 1) \<and> ch_approver c = x)"
        "\<forall>x. q = Some x \<longrightarrow> (\<exists>c \<in> set rows. chain_active c \<and> chain_key c = (e, 2) \<and> ch_approver c = x)"
        using pq snoc.IH[of p q] by (auto split: option.splits)
      have ab: "a = (if ch_step c = 1 then Some (ch_approver c) else p)"
        "b = (if ch_step c = 2 then Some (ch_approver c) else q)"
        using snoc.prems True pq by (auto simp: chainByEmp_snoc Let_def split: if_splits)
      show ?thesis using IH True by (auto simp: ab chain_key_def)
    next
      case False
      then have "chainByEmp rows e = Some (a, b)"
        using snoc.prems by (auto simp: chainByEmp_snoc split: if_splits)
      from snoc.IH[OF this] show ?thesis by auto
    qed
  qed
  then show "a = Some x \<Longrightarrow> \<exists>c \<in> set rows. chain_active c \<and> chain_key c = (e, 1) \<and> ch_approver c = x"
    "b = Some x \<Longrightarrow> \<exists>c \<in> set rows. chain_active c \<and> chain_key c = (e, 2) \<and> ch_approver c = x" by blast+
qed

text \<open>The foreign keys of the chain table.\<close>

definition approvers_exist :: "leave_seed_env \<Rightarrow> bool" where
  "approvers_exist env \<longleftrightarrow>
     list_all (\<lambda>c. user_row (directory_port (lq_directory env)) (ch_approver c)) (ch_rows (lq_chains env))"

lemma people_distinct: "directory_inv (lq_directory env) \<Longrightarrow> distinct (leave_seed_people env)"
  by (simp add: leave_seed_people_def directory_inv_def serial_ok_def distinct_map_filter)

lemma people_rows: "e \<in> set (leave_seed_people env) \<Longrightarrow> user_row (directory_port (lq_directory env)) e"
  by (auto simp: leave_seed_people_def directory_port_def list_ex_iff)

lemma plan_spec_ok:
  assumes "approvers_exist env" "i \<in> set (leave_plan env (leave_seed_people env) 0)" "r \<in> set (buildLeaveRows i)"
  shows "spec_ok (directory_port (lq_directory env)) r"
proof -
  let ?up = "directory_port (lq_directory env)"
  note i = plan_inputs[OF assms(2) order_refl]
  note c = chainByEmp_rows[OF i(2)]
  have row: "user_row ?up (ch_approver c)" if "c \<in> set (ch_rows (lq_chains env))" for c
    using assms(1) that by (simp add: approvers_exist_def list_all_iff)
  have "user_row ?up (li_employee i)" using people_rows i(1) by simp
  moreover have "user_row ?up (li_l1 i)" using c(1)[OF refl] row by metis
  moreover have "user_row ?up u" if "li_l2 i = Some u" for u using c(2)[OF that] row by metis
  moreover have "dates_ok r" using generated_dates[OF i(3) assms(3)] .
  ultimately show ?thesis
    using rows_people[OF assms(3)]
    by (auto simp: spec_ok_def dates_ok_def split: option.split if_splits)
qed

section \<open>The outer loop\<close>

text \<open>What a part of the run has done: only rows were appended, each made from a generated row with a file of its
  own employee, and every generated row that needs no file, or had one, is in the table.\<close>

definition seeded :: "leave_seed_env \<Rightarrow> leave_seed_input list \<Rightarrow> leave_db \<Rightarrow> leave_db \<Rightarrow> leave list \<Rightarrow> nat \<Rightarrow> bool" where
  "seeded env plan db db' new k \<longleftrightarrow>
     ld_requests db' = ld_requests db @ new \<and> (\<exists>fs. ld_files db' = ld_files db @ fs) \<and>
     (serial_ok lr_id (ld_next db) (ld_requests db) \<longrightarrow> serial_ok lr_id (ld_next db') (ld_requests db')) \<and>
     (\<forall>q \<in> set new. lr_checks q \<and> (\<exists>i \<in> set plan. \<exists>r \<in> set (buildLeaveRows i). \<exists>att.
        seeded_row (window_of env i) att r q \<and>
        (\<forall>a. att = Some a \<longrightarrow> (\<exists>f \<in> set (ld_files db'). at_id f = a \<and> at_owner f = li_employee i)))) \<and>
     (\<forall>i \<in> set plan. \<forall>r \<in> set (buildLeaveRows i). (ls_requires r \<longrightarrow> k = 0) \<longrightarrow>
        leave_present db r \<or> (\<exists>q \<in> set new. \<exists>att. seeded_row (window_of env i) att r q)) \<and>
     (lq_placeholder env = None \<longrightarrow> ld_files db' = ld_files db \<and> ld_store db' = ld_store db)"

lemma leave_present_append:
  assumes "ld_requests db' = ld_requests db @ new"
  shows "leave_present db' r \<longleftrightarrow> leave_present db r \<or>
    (\<exists>q \<in> set new. lr_live q \<and> lr_employee q = ls_employee r \<and> lr_type q = ls_type r \<and> lr_start q = ls_start r)"
  by (auto simp: leave_present_def assms list_ex_iff)

lemma seeded_Nil: "seeded env [] db db [] 0"
  by (simp add: seeded_def)

lemma seeded_Cons:
  assumes 1: "seeded env [i] db db1 new1 k1" and 2: "seeded env js db1 db2 new2 k2"
    and "li_employee i \<notin> li_employee ` set js"
  shows "seeded env (i # js) db db2 (new1 @ new2) (k1 + k2)"
proof -
  obtain fs where fs: "ld_files db2 = ld_files db1 @ fs" using 2 by (auto simp: seeded_def)
  have old: "leave_present db r" if j: "j \<in> set js" and r: "r \<in> set (buildLeaveRows j)" and p: "leave_present db1 r" for j r
  proof -
    have "lr_employee q \<noteq> ls_employee r" if q: "q \<in> set new1" for q
    proof -
      obtain p att w where "p \<in> set (buildLeaveRows i)" "seeded_row w att p q"
        using 1 q by (auto simp: seeded_def)
      then have "lr_employee q = li_employee i" using seeded_row_fields(1) rows_people(1) by metis
      moreover have "ls_employee r = li_employee j" using rows_people(1)[OF r] .
      moreover have "li_employee j \<noteq> li_employee i" using assms(3) j by (metis imageI)
      ultimately show ?thesis by simp
    qed
    then show "leave_present db r"
      using p leave_present_append[of db1 db new1 r] 1 by (auto simp: seeded_def)
  qed
  have rows: "\<forall>q \<in> set (new1 @ new2). lr_checks q \<and> (\<exists>j \<in> set (i # js). \<exists>r \<in> set (buildLeaveRows j). \<exists>att.
        seeded_row (window_of env j) att r q \<and>
        (\<forall>a. att = Some a \<longrightarrow> (\<exists>f \<in> set (ld_files db2). at_id f = a \<and> at_owner f = li_employee j)))"
  proof
    fix q assume "q \<in> set (new1 @ new2)"
    then consider "q \<in> set new1" | "q \<in> set new2" by auto
    then show "lr_checks q \<and> (\<exists>j \<in> set (i # js). \<exists>r \<in> set (buildLeaveRows j). \<exists>att.
        seeded_row (window_of env j) att r q \<and>
        (\<forall>a. att = Some a \<longrightarrow> (\<exists>f \<in> set (ld_files db2). at_id f = a \<and> at_owner f = li_employee j)))"
    proof cases
      case first: 1
      then obtain r att where "lr_checks q" "r \<in> set (buildLeaveRows i)" "seeded_row (window_of env i) att r q"
        "\<forall>a. att = Some a \<longrightarrow> (\<exists>f \<in> set (ld_files db1). at_id f = a \<and> at_owner f = li_employee i)"
        using 1 by (auto simp: seeded_def)
      then show ?thesis
        unfolding fs by (intro conjI bexI[of _ i] bexI[of _ r] exI[of _ att]) auto
    next
      case second: 2
      have "\<forall>q \<in> set new2. lr_checks q \<and> (\<exists>j \<in> set js. \<exists>r \<in> set (buildLeaveRows j). \<exists>att.
        seeded_row (window_of env j) att r q \<and>
        (\<forall>a. att = Some a \<longrightarrow> (\<exists>f \<in> set (ld_files db2). at_id f = a \<and> at_owner f = li_employee j)))"
        using 2 unfolding seeded_def by blast
      from this[rule_format, OF second] show ?thesis by (meson list.set_intros(2))
    qed
  qed
  have present: "leave_present db r \<or> (\<exists>q \<in> set (new1 @ new2). \<exists>att. seeded_row (window_of env j) att r q)"
    if j: "j \<in> set (i # js)" and r: "r \<in> set (buildLeaveRows j)" and k: "ls_requires r \<longrightarrow> k1 + k2 = 0" for j r
  proof (cases "j = i")
    case True
    have "\<forall>r \<in> set (buildLeaveRows i). (ls_requires r \<longrightarrow> k1 = 0) \<longrightarrow>
        leave_present db r \<or> (\<exists>q \<in> set new1. \<exists>att. seeded_row (window_of env i) att r q)"
      using 1 unfolding seeded_def by auto
    then have "leave_present db r \<or> (\<exists>q \<in> set new1. \<exists>att. seeded_row (window_of env i) att r q)"
      using r k True by simp
    then show ?thesis unfolding True by auto
  next
    case False
    then have js: "j \<in> set js" using j by simp
    have "\<forall>j \<in> set js. \<forall>r \<in> set (buildLeaveRows j). (ls_requires r \<longrightarrow> k2 = 0) \<longrightarrow>
        leave_present db1 r \<or> (\<exists>q \<in> set new2. \<exists>att. seeded_row (window_of env j) att r q)"
      using 2 unfolding seeded_def by blast
    then have "leave_present db1 r \<or> (\<exists>q \<in> set new2. \<exists>att. seeded_row (window_of env j) att r q)"
      using js r k by simp
    then show ?thesis using old[OF js r] by auto
  qed
  show ?thesis
    using 1 2 rows present unfolding seeded_def by auto
qed

text \<open>One employee of the loop.\<close>

lemma seed_employee:
  assumes "\<forall>r \<in> set (buildLeaveRows i). spec_ok (directory_port (lq_directory env)) r"
    and "seed_upload env (li_employee i) (filter (\<lambda>r. \<not> leave_present db r) (buildLeaveRows i)) db = (db1, att)"
  shows "\<exists>db2 new k'. insert_missing env att (window_of env i) (filter (\<lambda>r. \<not> leave_present db r) (buildLeaveRows i)) (n, k) db1 =
      (db2, Inr (n + length new, k + k')) \<and> seeded env [i] db db2 new k' \<and> (att \<noteq> None \<longrightarrow> k' = 0)"
proof -
  let ?miss = "filter (\<lambda>r. \<not> leave_present db r) (buildLeaveRows i)" and ?w = "window_of env i"
  let ?k = "length (filter (\<lambda>r. ls_requires r \<and> att = None) ?miss)"
  note u = seed_upload_frame[OF assms(2)]
  have ok: "\<forall>r \<in> set ?miss. spec_ok (directory_port (lq_directory env)) r" using assms(1) by simp
  obtain new where new: "insert_missing env att ?w ?miss (n, k) db1 =
      (db1\<lparr>ld_requests := ld_requests db1 @ new, ld_next := ld_next db1 + int (length new)\<rparr>, Inr (n + length new, k + ?k))"
    "\<forall>q \<in> set new. \<exists>r \<in> set ?miss. seeded_row ?w att r q \<and> lr_checks q"
    "\<forall>r \<in> set ?miss. (ls_requires r \<longrightarrow> att \<noteq> None) \<longrightarrow> (\<exists>q \<in> set new. seeded_row ?w att r q)"
    "serial_ok lr_id (ld_next db1) (ld_requests db1) \<longrightarrow>
       serial_ok lr_id (ld_next db1 + int (length new)) (ld_requests db1 @ new)"
    using insert_missing_ok[OF ok, of att ?w n k db1] by (elim exE conjE) (rule that)
  let ?db2 = "db1\<lparr>ld_requests := ld_requests db1 @ new, ld_next := ld_next db1 + int (length new)\<rparr>"
  have files: "\<forall>a. att = Some a \<longrightarrow> (\<exists>f \<in> set (ld_files ?db2). at_id f = a \<and> at_owner f = li_employee i)"
    using u(3) by simp
  have rows: "\<forall>q \<in> set new. lr_checks q \<and> (\<exists>j \<in> set [i]. \<exists>r \<in> set (buildLeaveRows j). \<exists>att.
        seeded_row (window_of env j) att r q \<and>
        (\<forall>a. att = Some a \<longrightarrow> (\<exists>f \<in> set (ld_files ?db2). at_id f = a \<and> at_owner f = li_employee j)))"
  proof
    fix q assume "q \<in> set new"
    then obtain r where "r \<in> set (buildLeaveRows i)" "seeded_row ?w att r q" "lr_checks q" using new(2) by auto
    then show "lr_checks q \<and> (\<exists>j \<in> set [i]. \<exists>r \<in> set (buildLeaveRows j). \<exists>att.
        seeded_row (window_of env j) att r q \<and>
        (\<forall>a. att = Some a \<longrightarrow> (\<exists>f \<in> set (ld_files ?db2). at_id f = a \<and> at_owner f = li_employee j)))"
      using files by auto
  qed
  have present: "leave_present db r \<or> (\<exists>q \<in> set new. \<exists>att. seeded_row ?w att r q)"
    if r: "r \<in> set (buildLeaveRows i)" and k: "ls_requires r \<longrightarrow> ?k = 0" for r
  proof (cases "leave_present db r")
    case False
    then have m: "r \<in> set ?miss" using r by simp
    have "ls_requires r \<longrightarrow> att \<noteq> None"
      using k m by (auto simp: filter_empty_conv)
    then show ?thesis using new(3) m by blast
  qed simp
  have "seeded env [i] db ?db2 new ?k"
    using u(1,2,4) new(4) rows present unfolding seeded_def by auto
  then show ?thesis using new(1) by (intro exI[of _ ?db2] exI[of _ new] exI[of _ ?k]) auto
qed

lemma leave_seed_result:
  assumes "distinct es" "0 \<le> index"
    and "\<forall>i \<in> set (leave_plan env es index). \<forall>r \<in> set (buildLeaveRows i). spec_ok (directory_port (lq_directory env)) r"
  shows "\<exists>db' new m' k'. leave_seed_loop env es index (n, m, k) db = (db', Inr (n + length new, m', k + k')) \<and>
    seeded env (leave_plan env es index) db db' new k'"
  using assms
proof (induction es arbitrary: index n m k db)
  case Nil
  show ?case using seeded_Nil[of env db] by (intro exI[of _ db] exI[of _ "[]"] exI[of _ m] exI[of _ 0]) simp
next
  case (Cons e es)
  show ?case
  proof (cases "\<exists>l1 l2. chainByEmp (ch_rows (lq_chains env)) e = Some (Some l1, l2)")
    case False
    then have "leave_seed_loop env (e # es) index (n, m, k) db = leave_seed_loop env es index (n, m, k) db"
      "leave_plan env (e # es) index = leave_plan env es index"
      by (auto split: option.splits)
    then show ?thesis using Cons.IH[of index n m k db] Cons.prems by simp
  next
    case True
    then obtain l1 l2 where c: "chainByEmp (ch_rows (lq_chains env)) e = Some (Some l1, l2)" by blast
    let ?i = "leave_input env e l1 l2 index"
    let ?miss = "filter (\<lambda>r. \<not> leave_present db r) (buildLeaveRows ?i)"
    have i: "li_employee ?i = e" by (simp add: leave_input_def)
    have plan: "leave_plan env (e # es) index = ?i # leave_plan env es (index + 1)" using c by simp
    have fresh: "li_employee ?i \<notin> li_employee ` set (leave_plan env es (index + 1))"
      using plan_inputs(1)[of _ env es "index + 1"] Cons.prems(1,2) i by auto
    have ok: "\<forall>r \<in> set (buildLeaveRows ?i). spec_ok (directory_port (lq_directory env)) r"
      "\<forall>i \<in> set (leave_plan env es (index + 1)). \<forall>r \<in> set (buildLeaveRows i). spec_ok (directory_port (lq_directory env)) r"
      using Cons.prems(3) unfolding plan by simp_all
    note IH = Cons.IH[OF _ _ ok(2)]
    show ?thesis
    proof (cases "?miss = []")
      case miss: True
      have "seeded env [?i] db db [] 0"
        using miss by (auto simp: seeded_def filter_empty_conv)
      moreover obtain db' new m' k' where r: "leave_seed_loop env es (index + 1) (n, m + length (buildLeaveRows ?i), k) db =
          (db', Inr (n + length new, m', k + k'))" "seeded env (leave_plan env es (index + 1)) db db' new k'"
        using IH[of n "m + length (buildLeaveRows ?i)" k db] Cons.prems(1,2) by auto
      ultimately have "seeded env (leave_plan env (e # es) index) db db' ([] @ new) (0 + k')"
        unfolding plan by (intro seeded_Cons[OF _ _ fresh])
      moreover have "leave_seed_loop env (e # es) index (n, m, k) db = (db', Inr (n + length new, m', k + k'))"
        using c miss r(1) by (simp add: Let_def)
      ultimately show ?thesis by auto
    next
      case miss: False
      obtain db1 att where u: "seed_upload env e ?miss db = (db1, att)" by (cases "seed_upload env e ?miss db")
      then have u': "seed_upload env (li_employee ?i) ?miss db = (db1, att)" by (simp only: i)
      obtain db2 new1 k1 where e: "insert_missing env att (window_of env ?i) ?miss (n, k) db1 =
          (db2, Inr (n + length new1, k + k1))" "seeded env [?i] db db2 new1 k1"
        using seed_employee[OF ok(1) u', of n k] by (elim exE conjE) (rule that)
      obtain db' new m' k' where r: "leave_seed_loop env es (index + 1) (n + length new1, m, k + k1) db2 =
          (db', Inr (n + length new1 + length new, m', k + k1 + k'))" "seeded env (leave_plan env es (index + 1)) db2 db' new k'"
        using IH[of "n + length new1" m "k + k1" db2] Cons.prems(1,2) by auto
      have "seeded env (leave_plan env (e # es) index) db db' (new1 @ new) (k1 + k')"
        unfolding plan by (rule seeded_Cons[OF e(2) r(2) fresh])
      moreover have "leave_seed_loop env (e # es) index (n, m, k) db = (db', Inr (n + length (new1 @ new), m', k + (k1 + k')))"
        using c miss u e(1) r(1) by (simp add: Let_def add.assoc window_of_def i)
      ultimately show ?thesis by blast
    qed
  qed
qed

section \<open>Properties\<close>

lemma seedLeave_result:
  assumes "directory_inv (lq_directory env)" "approvers_exist env"
  shows "\<exists>db' new m k. seedLeave env db = (db', Inr (length new, m, k)) \<and>
    seeded env (leave_plan env (leave_seed_people env) 0) db db' new k"
  using leave_seed_result[OF people_distinct[OF assms(1)] order_refl, of env 0 0 0 db] plan_spec_ok[OF assms(2)]
  unfolding seedLeave_def by simp

text \<open>The leave seeder never ends the seed run, whatever the storage and the placeholder do: it appends rows the table
  accepts, with a file exactly for the types that need one, that file being the employee's own, and with the active
  first approver of the employee's chain; without a placeholder no file is touched.\<close>

theorem leave_seed_best_effort:
  assumes "directory_inv (lq_directory env)" "approvers_exist env"
  shows "\<exists>db' new m k. seedLeave env db = (db', Inr (length new, m, k)) \<and> ld_requests db' = ld_requests db @ new \<and>
    (\<forall>q \<in> set new. lr_checks q \<and>
       (lr_attachment q \<noteq> None \<longleftrightarrow> lr_type q \<in> set ATTACHMENT_REQUIRED_LEAVE_TYPES) \<and>
       (\<forall>a. lr_attachment q = Some a \<longrightarrow> (\<exists>f \<in> set (ld_files db'). at_id f = a \<and> at_owner f = lr_employee q)) \<and>
       (\<exists>c \<in> set (ch_rows (lq_chains env)). chain_active c \<and> chain_key c = (lr_employee q, 1) \<and> ch_approver c = lr_l1 q)) \<and>
    (lq_placeholder env = None \<longrightarrow> ld_files db' = ld_files db \<and> ld_store db' = ld_store db)"
proof -
  let ?plan = "leave_plan env (leave_seed_people env) 0"
  obtain db' new m k where run: "seedLeave env db = (db', Inr (length new, m, k))" and s: "seeded env ?plan db db' new k"
    using seedLeave_result[OF assms, of db] by (elim exE conjE) (rule that)
  have "lr_checks q \<and> (lr_attachment q \<noteq> None \<longleftrightarrow> lr_type q \<in> set ATTACHMENT_REQUIRED_LEAVE_TYPES) \<and>
       (\<forall>a. lr_attachment q = Some a \<longrightarrow> (\<exists>f \<in> set (ld_files db'). at_id f = a \<and> at_owner f = lr_employee q)) \<and>
       (\<exists>c \<in> set (ch_rows (lq_chains env)). chain_active c \<and> chain_key c = (lr_employee q, 1) \<and> ch_approver c = lr_l1 q)"
    if q: "q \<in> set new" for q
  proof -
    obtain i r att where i: "i \<in> set ?plan" "r \<in> set (buildLeaveRows i)" and row: "seeded_row (window_of env i) att r q"
      and own: "\<forall>a. att = Some a \<longrightarrow> (\<exists>f \<in> set (ld_files db'). at_id f = a \<and> at_owner f = li_employee i)"
      and chk: "lr_checks q"
      using s q by (auto simp: seeded_def)
    note f = seeded_row_fields[OF row] and p = rows_people[OF i(2)] and c = plan_inputs[OF i(1) order_refl]
    have "ls_requires r \<longleftrightarrow> ls_type r \<in> set ATTACHMENT_REQUIRED_LEAVE_TYPES" using generated_decisions[OF i(2)] by simp
    moreover have "ls_requires r \<longrightarrow> att \<noteq> None" using row by (simp add: seeded_row_def)
    ultimately show ?thesis
      using chk own f p chainByEmp_rows(1)[OF c(2) refl] by auto
  qed
  then show ?thesis
    using run s by (intro exI[of _ db'] exI[of _ new] exI[of _ m] exI[of _ k]) (auto simp: seeded_def)
qed

lemma leave_seed_skip:
  assumes "\<forall>i \<in> set (leave_plan env es index). \<forall>r \<in> set (buildLeaveRows i). leave_present db r"
  shows "\<exists>m'. leave_seed_loop env es index (n, m, k) db = (db, Inr (n, m', k))"
  using assms
proof (induction es arbitrary: index m)
  case (Cons e es)
  show ?case
  proof (cases "\<exists>l1 l2. chainByEmp (ch_rows (lq_chains env)) e = Some (Some l1, l2)")
    case True
    then obtain l1 l2 where c: "chainByEmp (ch_rows (lq_chains env)) e = Some (Some l1, l2)" by blast
    have "filter (\<lambda>r. \<not> leave_present db r) (buildLeaveRows (leave_input env e l1 l2 index)) = []"
      using Cons.prems c by (simp add: filter_empty_conv)
    then show ?thesis
      using Cons.IH[of "index + 1" "m + length (buildLeaveRows (leave_input env e l1 l2 index))"] Cons.prems c
      by (simp add: Let_def)
  next
    case False
    then have "leave_seed_loop env (e # es) index (n, m, k) db = leave_seed_loop env es index (n, m, k) db"
      "leave_plan env (e # es) index = leave_plan env es index"
      by (auto split: option.splits)
    then show ?thesis using Cons.IH[of index m] Cons.prems by simp
  qed
qed simp

lemma leave_plan_cong:
  "leave_plan (env\<lparr>lq_storage := st, lq_uuid := uu\<rparr>) es index = leave_plan env es index"
  by (induction es arbitrary: index) (auto simp: leave_input_def split: option.split)

lemma seeded_present:
  assumes "seeded env plan db db' new 0" "i \<in> set plan" "r \<in> set (buildLeaveRows i)"
  shows "leave_present db' r"
proof -
  have app: "ld_requests db' = ld_requests db @ new" using assms(1) by (simp add: seeded_def)
  have "leave_present db r \<or> (\<exists>q \<in> set new. \<exists>att. seeded_row (window_of env i) att r q)"
    using assms unfolding seeded_def by blast
  then show ?thesis
    unfolding leave_present_append[OF app] using seeded_row_fields(1-3,6) by metis
qed

text \<open>A run that left no row out is not repeated: the next one, with any storage and any new object names, inserts
  and uploads nothing.\<close>

theorem leave_seed_repeatable:
  assumes "directory_inv (lq_directory env)" "approvers_exist env" "seedLeave env db = (db', Inr (n, m, 0))"
  shows "\<exists>m'. seedLeave (env\<lparr>lq_storage := st, lq_uuid := uu\<rparr>) db' = (db', Inr (0, m', 0))"
proof -
  let ?env = "env\<lparr>lq_storage := st, lq_uuid := uu\<rparr>"
  obtain new where s: "seeded env (leave_plan env (leave_seed_people env) 0) db db' new 0"
    using seedLeave_result[OF assms(1,2), of db] assms(3) by auto
  have "leave_seed_people ?env = leave_seed_people env" by (simp add: leave_seed_people_def)
  moreover have "\<exists>m'. leave_seed_loop ?env (leave_seed_people env) 0 (0, 0, 0) db' = (db', Inr (0, m', 0))"
    using seeded_present[OF s] by (intro leave_seed_skip) (simp add: leave_plan_cong)
  ultimately show ?thesis by (simp add: seedLeave_def)
qed

lemma approved_row:
  "\<exists>r \<in> set (buildLeaveRows i). ls_type r = (if li_attach i then Sick else Vacation) \<and> ls_status r = Approved \<and>
     ls_employee r = li_employee i \<and> (ls_requires r \<longleftrightarrow> li_attach i) \<and>
     ls_start r = nthWeekday (li_base i) (li_index i mod 8 + 4) \<and> ls_end r = nthWeekday (li_base i) (li_index i mod 8 + 4)"
  by (cases "pending_shape i")
    (auto simp: buildLeaveRows_def Let_def decided_spec_def leave_spec_row_def intro!: bexI[rotated])

text \<open>The rows an employee gets depend on whether the placeholder file is there.  When it is added after a first run,
  the second run does not find the first employee's rows again and books them twice: their approved vacation and a
  new approved sick leave fall on the same day.\<close>

theorem leave_seed_double_books:
  assumes "directory_inv (lq_directory env)" "approvers_exist env" "serial_ok lr_id (ld_next db) (ld_requests db)"
    and "lq_placeholder env = None" "leave_seed_people env = e # es"
    and "chainByEmp (ch_rows (lq_chains env)) e = Some (Some l1, l2)" "\<forall>q \<in> set (ld_requests db). lr_employee q \<noteq> e"
    and "seedLeave env db = (db1, Inr c)" "seedLeave (env\<lparr>lq_placeholder := Some b\<rparr>) db1 = (db2, Inr (n, m, 0))"
  shows "\<not> no_double_booking (ld_requests db2)"
proof -
  let ?env = "env\<lparr>lq_placeholder := Some b\<rparr>"
  let ?i = "leave_input env e l1 l2 0" and ?j = "leave_input ?env e l1 l2 0"
  let ?plan = "leave_plan env (leave_seed_people env) 0" and ?plan2 = "leave_plan ?env (leave_seed_people ?env) 0"
  have people: "leave_seed_people ?env = e # es" using assms(5) by (simp add: leave_seed_people_def)
  have i: "?i \<in> set ?plan" "\<not> li_attach ?i" "li_employee ?i = e"
    using assms(4-6) by (simp_all add: leave_input_def)
  have j: "?j \<in> set ?plan2" "li_attach ?j" "li_employee ?j = e" "li_base ?j = li_base ?i" "li_index ?j = li_index ?i"
    using assms(6) people by (simp_all add: leave_input_def)
  obtain new k where s: "seeded env ?plan db db1 new k"
    using seedLeave_result[OF assms(1,2), of db] assms(8) by auto
  have "approvers_exist ?env" "directory_inv (lq_directory ?env)" using assms(1,2) by (simp_all add: approvers_exist_def)
  then obtain new2 where s2: "seeded ?env ?plan2 db1 db2 new2 0"
    using seedLeave_result[of ?env db1] assms(9) by auto
  obtain r where r: "r \<in> set (buildLeaveRows ?i)" "ls_type r = Vacation" "ls_status r = Approved" "ls_employee r = e"
    "\<not> ls_requires r" "ls_start r = nthWeekday (li_base ?i) (li_index ?i mod 8 + 4)"
    "ls_end r = nthWeekday (li_base ?i) (li_index ?i mod 8 + 4)"
    using approved_row[of ?i] i(2,3) by auto
  have absent: "\<not> leave_present db r" using assms(7) r(4) by (auto simp: leave_present_def list_ex_iff)
  have "leave_present db r \<or> (\<exists>q \<in> set new. \<exists>att. seeded_row (window_of env ?i) att r q)"
    using s i(1) r(1,5) unfolding seeded_def by blast
  then obtain q w att where q: "q \<in> set new" "seeded_row w att r q" using absent by blast
  obtain p where p: "p \<in> set (buildLeaveRows ?j)" "ls_type p = Sick" "ls_status p = Approved" "ls_employee p = e"
    "ls_start p = nthWeekday (li_base ?i) (li_index ?i mod 8 + 4)"
    "ls_end p = nthWeekday (li_base ?i) (li_index ?i mod 8 + 4)"
    using approved_row[of ?j] j by auto
  have no_sick: "lr_type x \<noteq> Sick" if x: "x \<in> set new" "lr_employee x = e" for x
  proof
    assume sick: "lr_type x = Sick"
    obtain k t af w where k: "k \<in> set ?plan" "t \<in> set (buildLeaveRows k)" "seeded_row w af t x"
      using s x(1) unfolding seeded_def by blast
    have "ls_type t = Sick" using seeded_row_fields(2)[OF k(3)] sick by simp
    then have "li_attach k" using generated_decisions[OF k(2)] by (simp add: ATTACHMENT_REQUIRED_LEAVE_TYPES_def)
    then show False using plan_inputs(4)[OF k(1)] assms(4) by simp
  qed
  have app: "ld_requests db1 = ld_requests db @ new" "ld_requests db2 = ld_requests db1 @ new2"
    using s s2 by (simp_all add: seeded_def)
  have "\<not> leave_present db1 p"
    using assms(7) p(2,4) no_sick by (auto simp: leave_present_def list_ex_iff app(1))
  moreover have "leave_present db1 p \<or> (\<exists>q \<in> set new2. \<exists>att. seeded_row (window_of ?env ?j) att p q)"
    using s2 j(1) p(1) unfolding seeded_def by blast
  ultimately obtain x v af where x: "x \<in> set new2" "seeded_row v af p x" by blast
  have "serial_ok lr_id (ld_next db1) (ld_requests db1)" using s assms(3) unfolding seeded_def by blast
  then have ids: "serial_ok lr_id (ld_next db2) (ld_requests db2)" using s2 unfolding seeded_def by blast
  note qf = seeded_row_fields[OF q(2)] and xf = seeded_row_fields[OF x(2)]
  have mem: "q \<in> set (ld_requests db2)" "x \<in> set (ld_requests db2)" using q(1) x(1) by (auto simp: app)
  have "q \<noteq> x" using qf(2) xf(2) r(2) p(2) by auto
  then have "lr_id q \<noteq> lr_id x" using serial_ok_inj[OF ids mem] by blast
  moreover have "lr_active q" "lr_active x" using qf xf r p by (simp_all add: lr_active_def status_active_def)
  moreover have "ranges_meet q x" using qf xf r p by (simp add: ranges_meet_def)
  moreover have "lr_employee q = lr_employee x" using qf xf r p by simp
  ultimately show ?thesis using mem unfolding no_double_booking_def by blast
qed

section \<open>Witnesses\<close>

text \<open>One employee under one approver, without schedules.\<close>

definition org_leave_env :: "bytes option \<Rightarrow> leave_seed_env" where
  "org_leave_env p =
     \<lparr>lq_directory = org_directory,
      lq_chains = \<lparr>ch_rows = [\<lparr>ch_id = 1, ch_employee = 6, ch_step = 1, ch_approver = 4, ch_effective_at = 0,
        ch_ended_at = None, ch_created_by = None, ch_updated_by = None\<rparr>], ch_next = 2\<rparr>,
      lq_schedules = \<lparr>ws_rows = [], ws_next = 1, ws_events = []\<rparr>,
      lq_storage = sample_env, lq_placeholder = p, lq_uuid = (\<lambda>_. ''u'')\<rparr>"

lemma org_leave_ok: "directory_inv (lq_directory (org_leave_env p))" "approvers_exist (org_leave_env p)"
  using org_directory_inv
  by (simp_all add: org_leave_env_def approvers_exist_def directory_port_def org_directory_def org_user_def)

lemma org_leave_first: "snd (seedLeave (org_leave_env None) empty_leave_db) = Inr (3, 0, 0)"
  by code_simp

definition first_leave_db :: leave_db where
  "first_leave_db = fst (seedLeave (org_leave_env None) empty_leave_db)"

lemma first_leave: "seedLeave (org_leave_env None) empty_leave_db = (first_leave_db, Inr (3, 0, 0))"
  using org_leave_first by (metis first_leave_db_def prod.collapse)

theorem leave_seed_best_effort_witness:
  "length (ld_requests first_leave_db) = 3 \<and> ld_files first_leave_db = []"
proof -
  obtain new where "ld_requests first_leave_db = ld_requests empty_leave_db @ new" "length new = 3"
    "lq_placeholder (org_leave_env None) = None \<longrightarrow> ld_files first_leave_db = ld_files empty_leave_db"
    using leave_seed_best_effort[OF org_leave_ok[of None], of empty_leave_db] unfolding first_leave by auto
  then show ?thesis by (simp add: empty_leave_db_def org_leave_env_def)
qed

theorem leave_seed_repeatable_witness:
  "\<exists>m'. seedLeave (org_leave_env None) first_leave_db = (first_leave_db, Inr (0, m', 0))"
  using leave_seed_repeatable[OF org_leave_ok first_leave, where st = sample_env and uu = "\<lambda>_. ''u''"]
  by (simp add: org_leave_env_def)

lemma second_leave:
  "\<exists>db2 n m. seedLeave (org_leave_env (Some sample_jpeg)) first_leave_db = (db2, Inr (n, m, 0))"
proof -
  let ?env = "org_leave_env (Some sample_jpeg)" and ?i = "leave_input (org_leave_env (Some sample_jpeg)) 6 4 None 0"
  let ?miss = "filter (\<lambda>r. \<not> leave_present first_leave_db r) (buildLeaveRows ?i)"
  have people: "leave_seed_people ?env = [6]"
    by (simp add: leave_seed_people_def org_leave_env_def org_directory_def org_user_def chainByEmp_def chain_active_def
        empty_directory_def ue_live_def)
  have chain: "chainByEmp (ch_rows (lq_chains ?env)) 6 = Some (Some 4, None)"
    by (simp add: org_leave_env_def chainByEmp_def chain_active_def)
  have plan: "leave_plan ?env (leave_seed_people ?env) 0 = [?i]" using chain by (simp add: people)
  have need: "list_ex ls_requires ?miss" by code_simp
  then have miss: "?miss \<noteq> []" by auto
  have users: "user_row (directory_port org_directory) 6" "user_row (directory_port org_directory) 1" by code_simp+
  have author: "seed_author org_directory = Some 1" by code_simp
  have files: "ld_files first_leave_db = []" using leave_seed_best_effort_witness by simp
  obtain db1 where u: "seed_upload ?env 6 ?miss first_leave_db = (db1, Some (ld_file_next first_leave_db))"
    using need files users author sample_jpeg_upload[of "''u''" "''seed-attachment-placeholder.png''" 6 1 "ld_store first_leave_db"]
    by (simp add: seed_upload_def uploadPlaceholder_def org_leave_env_def at_insert_def persist_attachment_def Let_def)
  have ok: "\<forall>r \<in> set (buildLeaveRows ?i). spec_ok (directory_port (lq_directory ?env)) r"
    using plan_spec_ok[OF org_leave_ok(2), of ?i] plan by simp
  have e: "li_employee ?i = 6" by (simp add: leave_input_def)
  then have u': "seed_upload ?env (li_employee ?i) ?miss first_leave_db = (db1, Some (ld_file_next first_leave_db))"
    using u by simp
  obtain db2 and new :: "leave list" and k where r: "insert_missing ?env (Some (ld_file_next first_leave_db)) (window_of ?env ?i) ?miss (0, 0) db1 =
      (db2, Inr (0 + length new, 0 + k))" "Some (ld_file_next first_leave_db) \<noteq> None \<longrightarrow> k = 0"
    using seed_employee[OF ok u', of 0 0] by blast
  have "seedLeave ?env first_leave_db = (db2, Inr (length new, 0, 0))"
    unfolding seedLeave_def people using chain miss u r by (simp add: Let_def window_of_def e)
  then show ?thesis by blast
qed

theorem leave_seed_double_books_witness:
  "\<exists>db2 n m. seedLeave (org_leave_env (Some sample_jpeg)) first_leave_db = (db2, Inr (n, m, 0)) \<and>
     \<not> no_double_booking (ld_requests db2)"
proof -
  obtain db2 n m where s: "seedLeave (org_leave_env (Some sample_jpeg)) first_leave_db = (db2, Inr (n, m, 0))"
    using second_leave by blast
  have e: "org_leave_env (Some sample_jpeg) = (org_leave_env None)\<lparr>lq_placeholder := Some sample_jpeg\<rparr>"
    by (simp add: org_leave_env_def)
  have "leave_seed_people (org_leave_env None) = [6]" "lq_placeholder (org_leave_env None) = None"
    "chainByEmp (ch_rows (lq_chains (org_leave_env None))) 6 = Some (Some 4, None)"
    by (simp_all add: leave_seed_people_def org_leave_env_def org_directory_def org_user_def chainByEmp_def
        chain_active_def empty_directory_def ue_live_def)
  moreover have "serial_ok lr_id (ld_next empty_leave_db) (ld_requests empty_leave_db)"
    "\<forall>q \<in> set (ld_requests empty_leave_db). lr_employee q \<noteq> 6"
    by (simp_all add: empty_leave_db_def)
  ultimately show ?thesis
    using leave_seed_double_books[OF org_leave_ok(1,2)[of None], of empty_leave_db 6 "[]" 4 None first_leave_db "(3, 0, 0)"
        sample_jpeg db2 n m] s first_leave unfolding e by auto
qed

end
