(* ===== verification/SeedCorrections.thy ===== *)
theory SeedCorrections
  imports SeedLoop SeedLeaveRun CorrectionOutcomes
begin

text \<open>
  The seeder of time corrections (\<open>src/src/database/seeds/time-correction\<close>): the pure generator of an employee's rows
  from their first time entries, and the run that inserts the rows whose employee and date have none.  The long dash
  of the texts is written as a hyphen.
\<close>

section \<open>The rows of an employee\<close>

record seed_punch =
  sp_id :: int
  sp_date :: date
  sp_in :: int
  sp_out :: "int option"

record correction_seed_input =
  gi_employee :: int
  gi_l1 :: int
  gi_l2 :: "int option"
  gi_admin :: "int option"
  gi_entries :: "seed_punch list"

record correction_spec =
  cp_employee :: int
  cp_target :: "int option"
  cp_date :: date
  cp_in :: int
  cp_out :: "int option"
  cp_reason :: string
  cp_status :: request_status
  cp_submitted_at :: int
  cp_decided_at :: "int option"
  cp_decided_by :: "int option"
  cp_note :: "string option"
  cp_path :: "decision_path option"
  cp_cancelled_at :: "int option"
  cp_cancelled_by :: "int option"
  cp_l1 :: int
  cp_l2 :: "int option"
  cp_created_by :: "int option"

definition plus_minutes :: "int \<Rightarrow> int \<Rightarrow> int" where
  "plus_minutes t m = t + m * 60000"

definition correction_base ::
  "correction_seed_input \<Rightarrow> seed_punch option \<Rightarrow> date \<Rightarrow> int \<Rightarrow> int option \<Rightarrow> request_status \<Rightarrow> string \<Rightarrow> correction_spec" where
  "correction_base i e d tin tout status reason =
     \<lparr>cp_employee = gi_employee i, cp_target = map_option sp_id e, cp_date = d, cp_in = tin, cp_out = tout,
      cp_reason = reason, cp_status = status, cp_submitted_at = plus_minutes tin 600, cp_decided_at = None,
      cp_decided_by = None, cp_note = None, cp_path = None, cp_cancelled_at = None, cp_cancelled_by = None,
      cp_l1 = gi_l1 i, cp_l2 = gi_l2 i, cp_created_by = gi_admin i\<rparr>"

definition decided_correction :: "correction_seed_input \<Rightarrow> correction_spec \<Rightarrow> string \<Rightarrow> correction_spec" where
  "decided_correction i r why =
     r\<lparr>cp_decided_at := Some (plus_minutes (cp_in r) 660),
       cp_decided_by := Some (case gi_l2 i of Some l2 \<Rightarrow> l2 | None \<Rightarrow> gi_l1 i),
       cp_path := Some Chain, cp_note := Some why\<rparr>"

definition punch_end :: "seed_punch \<Rightarrow> int" where
  "punch_end e = (case sp_out e of Some t \<Rightarrow> t | None \<Rightarrow> plus_minutes (sp_in e) (8 * 60))"

definition late_in_row :: "correction_seed_input \<Rightarrow> seed_punch \<Rightarrow> correction_spec" where
  "late_in_row i e =
     correction_base i (Some e) (sp_date e) (plus_minutes (sp_in e) (-15)) (Some (punch_end e)) Pending_l1
       ''Clocked in late by mistake - actual start was 15 minutes earlier.''"

definition late_out_row :: "correction_seed_input \<Rightarrow> seed_punch \<Rightarrow> correction_spec" where
  "late_out_row i e =
     decided_correction i
       (correction_base i (Some e) (sp_date e) (sp_in e) (Some (plus_minutes (punch_end e) 30)) Approved
          ''Forgot to clock out; left 30 minutes later.'') ''Approved.''"

definition missing_punch_row :: "correction_seed_input \<Rightarrow> seed_punch \<Rightarrow> correction_spec" where
  "missing_punch_row i e =
     decided_correction i
       (correction_base i None (sp_date e) (at_hour (sp_date e) 9) None Rejected
          ''No punch recorded for this day - please file with your manager.'') ''Rejected - insufficient evidence.''"

definition buildCorrectionRows :: "correction_seed_input \<Rightarrow> correction_spec list" where
  "buildCorrectionRows i =
     (case gi_entries i of
        [] \<Rightarrow> []
      | e0 # es \<Rightarrow>
          late_in_row i e0 #
          (case es of
             [] \<Rightarrow> []
           | e1 # es' \<Rightarrow>
               late_out_row i e1 # (case es' of [] \<Rightarrow> [] | e2 # _ \<Rightarrow> [missing_punch_row i e2])))"

section \<open>The run\<close>

definition entriesByEmp :: "entry list \<Rightarrow> int \<Rightarrow> seed_punch list" where
  "entriesByEmp rows e =
     map (\<lambda>r. \<lparr>sp_id = te_id r, sp_date = te_date r, sp_in = te_in r, sp_out = te_out r\<rparr>)
       (filter (\<lambda>r. te_employee r = e) (sort_key te_date (filter te_live rows)))"

definition correction_seed_people :: "directory \<Rightarrow> chain_db \<Rightarrow> int list" where
  "correction_seed_people d ch =
     sort (map ue_id (filter (\<lambda>u. ue_live u \<and> chainByEmp (ch_rows ch) (ue_id u) \<noteq> None) (dr_users d)))"

definition correction_rows_of :: "directory \<Rightarrow> chain_db \<Rightarrow> entry_db \<Rightarrow> int \<Rightarrow> correction_spec list" where
  "correction_rows_of d ch es e =
     (case chainByEmp (ch_rows ch) e of
        Some (Some l1, l2) \<Rightarrow>
          (let entries = take 3 (entriesByEmp (te_rows es) e)
           in if entries = [] then []
              else buildCorrectionRows
                     \<lparr>gi_employee = e, gi_l1 = l1, gi_l2 = l2, gi_admin = seed_author d, gi_entries = entries\<rparr>)
      | _ \<Rightarrow> [])"

definition seeded_correction :: "correction_spec \<Rightarrow> correction" where
  "seeded_correction r =
     \<lparr>tc_id = 0, tc_employee = cp_employee r, tc_target = cp_target r, tc_date = cp_date r, tc_in = cp_in r,
      tc_out = cp_out r, tc_reason = cp_reason r, tc_status = cp_status r, tc_submitted_at = cp_submitted_at r,
      tc_decided_at = cp_decided_at r, tc_decided_by = cp_decided_by r, tc_decision_note = cp_note r,
      tc_decision_path = cp_path r, tc_cancelled_at = cp_cancelled_at r, tc_cancelled_by = cp_cancelled_by r,
      tc_l1 = cp_l1 r, tc_l2 = cp_l2 r, tc_created_by = cp_created_by r, tc_updated_by = cp_created_by r,
      tc_deleted_at = None\<rparr>"

definition correction_present :: "correction_spec \<Rightarrow> correction_db \<Rightarrow> bool" where
  "correction_present r db \<longleftrightarrow>
     list_ex (\<lambda>q. tc_live q \<and> tc_employee q = cp_employee r \<and> tc_date q = cp_date r) (tc_rows db)"

definition insert_seed_correction :: "user_port \<Rightarrow> correction_spec \<Rightarrow> correction_db \<Rightarrow> http_error + correction_db" where
  "insert_seed_correction up r db = bindR (tc_insert up (seeded_correction r) db) (\<lambda>(db', _). Inr db')"

definition seed_corrections_list :: "directory \<Rightarrow> chain_db \<Rightarrow> entry_db \<Rightarrow> correction_spec list" where
  "seed_corrections_list d ch es = concat (map (correction_rows_of d ch es) (correction_seed_people d ch))"

definition seedCorrections :: "directory \<Rightarrow> chain_db \<Rightarrow> correction_db \<Rightarrow> correction_db \<times> (http_error + nat \<times> nat)" where
  "seedCorrections d ch db =
     seed_loop correction_present (insert_seed_correction (directory_port d))
       (seed_corrections_list d ch (tc_entries db)) (0, 0) db"

section \<open>What is generated\<close>

lemma punch_end_later:
  assumes "case sp_out e of None \<Rightarrow> True | Some t \<Rightarrow> sp_in e < t"
  shows "sp_in e < punch_end e"
  using assms by (simp add: punch_end_def plus_minutes_def split: option.splits)

lemma correction_rows_cases:
  assumes "r \<in> set (buildCorrectionRows i)"
  obtains e where "e \<in> set (gi_entries i)" "r = late_in_row i e"
  | e where "e \<in> set (gi_entries i)" "r = late_out_row i e"
  | e where "e \<in> set (gi_entries i)" "r = missing_punch_row i e"
proof (cases "gi_entries i")
  case (Cons e0 es)
  then show thesis using assms that by (cases es; cases "tl es") (auto simp: buildCorrectionRows_def)
qed (use assms in \<open>simp add: buildCorrectionRows_def\<close>)

lemmas correction_row_defs = late_in_row_def late_out_row_def missing_punch_row_def correction_base_def decided_correction_def

text \<open>The corrections generated from entries that end after they begin: a window that ends after it begins, the
  employee's own entry of the same date as the target of all but the rejected row, and decision columns that agree with
  the status.\<close>

theorem generated_corrections_sound:
  assumes "\<forall>e \<in> set (gi_entries i). case sp_out e of None \<Rightarrow> True | Some t \<Rightarrow> sp_in e < t"
  shows "length (buildCorrectionRows i) = min 3 (length (gi_entries i)) \<and>
    (\<forall>r \<in> set (buildCorrectionRows i).
      proposedPunch (cp_in r) (cp_out r) = Inr (cp_in r, cp_out r) \<and>
      (\<exists>e \<in> set (gi_entries i). cp_date r = sp_date e \<and>
         cp_target r = (if cp_status r = Rejected then None else Some (sp_id e))) \<and>
      (cp_decided_at r \<noteq> None \<longleftrightarrow> cp_status r \<noteq> Pending_l1) \<and> (cp_path r = Some Chain \<longleftrightarrow> cp_status r \<noteq> Pending_l1) \<and>
      (\<forall>u. cp_decided_by r = Some u \<longrightarrow> u = gi_l1 i \<or> Some u = gi_l2 i) \<and>
      (\<forall>t. cp_decided_at r = Some t \<longrightarrow> cp_submitted_at r < t))"
proof (intro conjI ballI)
  show "length (buildCorrectionRows i) = min 3 (length (gi_entries i))"
    by (auto simp: buildCorrectionRows_def split: list.splits)
  fix r assume r: "r \<in> set (buildCorrectionRows i)"
  have window: "sp_in e < punch_end e" if "e \<in> set (gi_entries i)" for e
    using punch_end_later assms that by blast
  show "proposedPunch (cp_in r) (cp_out r) = Inr (cp_in r, cp_out r)"
    using r by (cases rule: correction_rows_cases)
      (use window in \<open>fastforce simp: correction_row_defs proposedPunch_def plus_minutes_def\<close>)+
  show "\<exists>e \<in> set (gi_entries i). cp_date r = sp_date e \<and>
      cp_target r = (if cp_status r = Rejected then None else Some (sp_id e))"
    using r by (cases rule: correction_rows_cases) (auto simp: correction_row_defs)
  show "cp_decided_at r \<noteq> None \<longleftrightarrow> cp_status r \<noteq> Pending_l1" "cp_path r = Some Chain \<longleftrightarrow> cp_status r \<noteq> Pending_l1"
    "\<forall>u. cp_decided_by r = Some u \<longrightarrow> u = gi_l1 i \<or> Some u = gi_l2 i"
    "\<forall>t. cp_decided_at r = Some t \<longrightarrow> cp_submitted_at r < t"
    using r by (cases rule: correction_rows_cases;
        auto simp: correction_row_defs plus_minutes_def split: option.splits)+
qed

section \<open>The table\<close>

lemma insert_seed_correction_Inr:
  "insert_seed_correction up r db = Inr db' \<longleftrightarrow>
     tc_checks (seeded_correction r) \<and> user_row up (cp_employee r) \<and> user_row up (cp_l1 r) \<and>
     (case cp_l2 r of None \<Rightarrow> True | Some u \<Rightarrow> user_row up u) \<and>
     (case cp_target r of None \<Rightarrow> True | Some t \<Rightarrow> list_ex (\<lambda>e. te_id e = t) (te_rows (tc_entries db))) \<and>
     db' = db\<lparr>tc_rows := tc_rows db @ [(seeded_correction r)\<lparr>tc_id := tc_next db\<rparr>], tc_next := tc_next db + 1\<rparr>"
  by (auto simp: insert_seed_correction_def bindR_eq_Inr tc_insert_def Let_def seeded_correction_def)

interpretation correction_seed: seed_table correction_present "insert_seed_correction up"
  "\<lambda>db. serial_ok tc_id (tc_next db) (tc_rows db)" for up
proof
  fix k j :: correction_spec and s s' :: correction_db
  assume i: "insert_seed_correction up k s = Inr s'"
  then have s': "tc_rows s' = tc_rows s @ [(seeded_correction k)\<lparr>tc_id := tc_next s\<rparr>]" "tc_next s' = tc_next s + 1"
    by (auto simp: insert_seed_correction_Inr)
  show "correction_present k s'" "correction_present j s \<Longrightarrow> correction_present j s'"
    by (auto simp: s' correction_present_def seeded_correction_def tc_live_def)
  show "serial_ok tc_id (tc_next s) (tc_rows s) \<Longrightarrow> serial_ok tc_id (tc_next s') (tc_rows s')"
    unfolding s' by (rule serial_ok_snoc) simp_all
qed

section \<open>The run\<close>

definition chain_users :: "directory \<Rightarrow> chain_db \<Rightarrow> bool" where
  "chain_users d ch \<longleftrightarrow> list_all (\<lambda>c. user_row (directory_port d) (ch_approver c)) (ch_rows ch)"

lemma entriesByEmp_mem:
  "p \<in> set (entriesByEmp rows e) \<Longrightarrow>
     \<exists>r \<in> set rows. te_live r \<and> te_employee r = e \<and> p = \<lparr>sp_id = te_id r, sp_date = te_date r, sp_in = te_in r, sp_out = te_out r\<rparr>"
  by (auto simp: entriesByEmp_def)

lemma correction_rows_of_input:
  assumes "k \<in> set (correction_rows_of d ch es e)"
  obtains l1 l2 where "chainByEmp (ch_rows ch) e = Some (Some l1, l2)"
    "k \<in> set (buildCorrectionRows \<lparr>gi_employee = e, gi_l1 = l1, gi_l2 = l2, gi_admin = seed_author d,
       gi_entries = take 3 (entriesByEmp (te_rows es) e)\<rparr>)"
    "cp_employee k = e" "cp_l1 k = l1" "cp_l2 k = l2"
proof -
  obtain l1 l2 where c: "chainByEmp (ch_rows ch) e = Some (Some l1, l2)"
    "k \<in> set (buildCorrectionRows \<lparr>gi_employee = e, gi_l1 = l1, gi_l2 = l2, gi_admin = seed_author d,
       gi_entries = take 3 (entriesByEmp (te_rows es) e)\<rparr>)"
  proof (cases "\<exists>l1 l2. chainByEmp (ch_rows ch) e = Some (Some l1, l2)")
    case True
    then show ?thesis using assms that by (auto simp: correction_rows_of_def Let_def split: if_splits)
  next
    case False
    then have "correction_rows_of d ch es e = []" by (auto simp: correction_rows_of_def split: option.split)
    then show ?thesis using assms by simp
  qed
  moreover have "cp_employee k = e" "cp_l1 k = l1" "cp_l2 k = l2"
    using c(2) by (cases rule: correction_rows_cases; simp add: correction_row_defs)+
  ultimately show thesis by (rule that)
qed

text \<open>Every row of the run satisfies the contract of the request table.\<close>

lemma correction_key_ok:
  assumes "chain_users d ch" "chain_inv ch" "entry_inv es" "k \<in> set (seed_corrections_list d ch es)"
  shows "request_ok es (seeded_correction k)" "\<And>db. tc_entries db = es \<Longrightarrow> okR (insert_seed_correction (directory_port d) k db)"
proof -
  obtain e where e: "e \<in> set (correction_seed_people d ch)" "k \<in> set (correction_rows_of d ch es e)"
    using assms(4) by (auto simp: seed_corrections_list_def)
  obtain l1 l2 where c: "chainByEmp (ch_rows ch) e = Some (Some l1, l2)"
    and k: "k \<in> set (buildCorrectionRows \<lparr>gi_employee = e, gi_l1 = l1, gi_l2 = l2, gi_admin = seed_author d,
       gi_entries = take 3 (entriesByEmp (te_rows es) e)\<rparr>)"
    and p: "cp_employee k = e" "cp_l1 k = l1" "cp_l2 k = l2"
    using e(2) by (rule correction_rows_of_input)
  have up: "user_row (directory_port d) (ch_approver c) \<and> ch_approver c \<noteq> ch_employee c" if "c \<in> set (ch_rows ch)" for c
    using assms(1,2) that by (simp add: chain_users_def chain_inv_def list_all_iff)
  have own: "user_row (directory_port d) e" using e(1) by (auto simp: correction_seed_people_def directory_port_def list_ex_iff)
  have l1: "user_row (directory_port d) l1 \<and> l1 \<noteq> e"
    using chainByEmp_rows(1)[OF c refl] up by (auto simp: chain_key_def)
  have l2: "user_row (directory_port d) u \<and> u \<noteq> e" if "l2 = Some u" for u
    using chainByEmp_rows(2)[OF c that] up by (auto simp: chain_key_def)
  let ?i = "\<lparr>gi_employee = e, gi_l1 = l1, gi_l2 = l2, gi_admin = seed_author d,
       gi_entries = take 3 (entriesByEmp (te_rows es) e)\<rparr>"
  have mem: "\<exists>r \<in> set (te_rows es). te_live r \<and> te_employee r = e \<and>
      p = \<lparr>sp_id = te_id r, sp_date = te_date r, sp_in = te_in r, sp_out = te_out r\<rparr>"
    if "p \<in> set (gi_entries ?i)" for p
    using that entriesByEmp_mem in_set_takeD by fastforce
  have "\<forall>e \<in> set (gi_entries ?i). case sp_out e of None \<Rightarrow> True | Some t \<Rightarrow> sp_in e < t"
  proof
    fix p assume "p \<in> set (gi_entries ?i)"
    then obtain r where "r \<in> set (te_rows es)" "sp_out p = te_out r" "sp_in p = te_in r" using mem by force
    then show "case sp_out p of None \<Rightarrow> True | Some t \<Rightarrow> sp_in p < t"
      using assms(3) by (auto simp: entry_inv_def list_all_iff entry_ok_def te_checks_def)
  qed
  note g = generated_corrections_sound[OF this]
  have "proposedPunch (cp_in k) (cp_out k) = Inr (cp_in k, cp_out k)" using g k by blast
  then have chk: "tc_checks (seeded_correction k)"
    by (auto simp: tc_checks_def seeded_correction_def proposedPunch_def split: option.splits if_splits)
  have target: "\<exists>r \<in> set (te_rows es). te_id r = t \<and> te_employee r = e" if "cp_target k = Some t" for t
  proof -
    have "\<forall>r \<in> set (buildCorrectionRows ?i). \<exists>p \<in> set (gi_entries ?i). cp_date r = sp_date p \<and>
        cp_target r = (if cp_status r = Rejected then None else Some (sp_id p))" using g by blast
    then obtain p where "p \<in> set (gi_entries ?i)" "cp_target k = (if cp_status k = Rejected then None else Some (sp_id p))"
      using k by blast
    then show ?thesis using mem[of p] that by (force split: if_splits)
  qed
  show "request_ok es (seeded_correction k)"
    using chk l1 l2 p target
    by (auto simp: request_ok_def others_decide_tc_def target_owned_def seeded_correction_def split: option.splits)
  show "okR (insert_seed_correction (directory_port d) k db)" if "tc_entries db = es" for db
    using chk l1 l2 p own target that
    by (auto simp: okR_ex insert_seed_correction_Inr list_ex_iff split: option.splits)
qed

lemma correction_seed_frame:
  assumes "chain_users d ch" "chain_inv ch" "correction_inv db"
  shows "correction_inv (fst (seedCorrections d ch db)) \<and> tc_entries (fst (seedCorrections d ch db)) = tc_entries db \<and>
    (\<forall>q \<in> set (tc_rows (fst (seedCorrections d ch db))). q \<in> set (tc_rows db) \<or>
       (\<exists>k \<in> set (seed_corrections_list d ch (tc_entries db)). \<exists>i. q = (seeded_correction k)\<lparr>tc_id := i\<rparr>))"
  unfolding seedCorrections_def
proof (rule loop_preserves, goal_cases)
  case 1
  show ?case using assms(3) by auto
next
  case 2
  have inv: "entry_inv (tc_entries db)" using assms(3) by (simp add: correction_inv_def)
  show ?case
  proof (intro ballI allI impI)
  fix k t t'
  assume k: "k \<in> set (seed_corrections_list d ch (tc_entries db))" and ins: "insert_seed_correction (directory_port d) k t = Inr t'"
    and t: "correction_inv t \<and> tc_entries t = tc_entries db \<and> (\<forall>q \<in> set (tc_rows t). q \<in> set (tc_rows db) \<or>
       (\<exists>k \<in> set (seed_corrections_list d ch (tc_entries db)). \<exists>i. q = (seeded_correction k)\<lparr>tc_id := i\<rparr>))"
  have ok: "request_ok (tc_entries db) (seeded_correction k)" by (rule correction_key_ok(1)[OF assms(1,2) inv k])
  then have "request_ok (tc_entries db) ((seeded_correction k)\<lparr>tc_id := tc_next t\<rparr>)"
    by (auto simp: request_ok_def tc_checks_def others_decide_tc_def target_owned_def split: option.splits)
  then show "correction_inv t' \<and> tc_entries t' = tc_entries db \<and> (\<forall>q \<in> set (tc_rows t'). q \<in> set (tc_rows db) \<or>
       (\<exists>k \<in> set (seed_corrections_list d ch (tc_entries db)). \<exists>i. q = (seeded_correction k)\<lparr>tc_id := i\<rparr>))"
    using ins t k serial_ok_snoc[of tc_id "tc_next t" "tc_rows t" "(seeded_correction k)\<lparr>tc_id := tc_next t\<rparr>"]
    by (auto simp: insert_seed_correction_Inr correction_inv_def)
  qed
qed

text \<open>The correction seeder never fails on tables of the contracts, keeps the contract of the requests, leaves the
  timesheet alone, and a second run does nothing.\<close>

theorem correction_seed_repeatable:
  assumes "chain_users d ch" "chain_inv ch" "correction_inv db"
  shows "\<exists>db' n m. seedCorrections d ch db = (db', Inr (n, m)) \<and> correction_inv db' \<and> tc_entries db' = tc_entries db \<and>
    seedCorrections d ch db' = (db', Inr (0, n + m))"
proof -
  let ?ks = "seed_corrections_list d ch (tc_entries db)" and ?up = "directory_port d"
  have inv: "entry_inv (tc_entries db)" "serial_ok tc_id (tc_next db) (tc_rows db)"
    using assms(3) by (simp_all add: correction_inv_def)
  obtain db' n m where r: "seed_loop correction_present (insert_seed_correction ?up) ?ks (0, 0) db = (db', Inr (n, m))"
    using loop_total[of "\<lambda>t. tc_entries t = tc_entries db" db ?ks correction_present "insert_seed_correction ?up" "(0, 0)"]
      correction_key_ok(2)[OF assms(1,2) inv(1)] by (simp add: insert_seed_correction_Inr) blast
  note frame = correction_seed_frame[OF assms, unfolded seedCorrections_def r fst_conv]
  show ?thesis
    using r frame correction_seed.loop_repeat[OF inv(2) r] by (auto simp: seedCorrections_def)
qed

text \<open>What an approval by the service always does, the seeder does not: the approved correction of an employee with
  at least two entries proposes another end than their entry has, and the timesheet is left as it was.\<close>

theorem seeded_approval_not_on_timesheet:
  assumes "chain_users d ch" "chain_inv ch" "correction_inv db" "seedCorrections d ch db = (db', Inr c)"
    and "e \<in> set (correction_seed_people d ch)" "chainByEmp (ch_rows ch) e = Some (Some l1, l2)"
    and "entriesByEmp (te_rows (tc_entries db)) e = e0 # e1 # es" "distinct (map sp_date (take 3 (e0 # e1 # es)))"
    and "sp_out e1 \<noteq> None" "\<forall>q \<in> set (tc_rows db). tc_employee q \<noteq> e"
  shows "\<exists>q \<in> set (tc_rows db'). tc_employee q = e \<and> tc_status q = Approved \<and> tc_target q = Some (sp_id e1) \<and>
    tc_out q \<noteq> sp_out e1 \<and> (\<exists>x \<in> set (te_rows (tc_entries db')). te_id x = sp_id e1 \<and> te_out x = sp_out e1)"
proof -
  let ?ks = "seed_corrections_list d ch (tc_entries db)"
  let ?i = "\<lparr>gi_employee = e, gi_l1 = l1, gi_l2 = l2, gi_admin = seed_author d, gi_entries = take 3 (e0 # e1 # es)\<rparr>"
  have rows: "correction_rows_of d ch (tc_entries db) e = buildCorrectionRows ?i"
    using assms(6,7) by (simp add: correction_rows_of_def Let_def)
  have build: "buildCorrectionRows ?i = late_in_row ?i e0 # late_out_row ?i e1 #
      (case es of [] \<Rightarrow> [] | e2 # _ \<Rightarrow> [missing_punch_row ?i e2])"
    by (cases es) (simp_all add: buildCorrectionRows_def numeral_3_eq_3)
  have inv: "serial_ok tc_id (tc_next db) (tc_rows db)" using assms(3) by (simp add: correction_inv_def)
  obtain n m where c: "c = (n, m)" by (cases c)
  have "late_out_row ?i e1 \<in> set (correction_rows_of d ch (tc_entries db) e)" unfolding rows build by simp
  then have "late_out_row ?i e1 \<in> set ?ks" unfolding seed_corrections_list_def set_concat set_map using assms(5) by blast
  then have "correction_present (late_out_row ?i e1) db'"
    using correction_seed.loop_result[OF inv assms(4)[unfolded seedCorrections_def c]] by blast
  then obtain q where q: "q \<in> set (tc_rows db')" "tc_employee q = e" "tc_date q = sp_date e1"
    by (auto simp: correction_present_def list_ex_iff correction_row_defs)
  note frame = correction_seed_frame[OF assms(1-3), unfolded assms(4) fst_conv]
  obtain k i where k: "k \<in> set ?ks" "q = (seeded_correction k)\<lparr>tc_id := i\<rparr>"
    using frame q(1,2) assms(10) by blast
  then obtain f where f: "f \<in> set (correction_seed_people d ch)" "k \<in> set (correction_rows_of d ch (tc_entries db) f)"
    by (auto simp: seed_corrections_list_def)
  have "cp_employee k = f" using f(2) by (rule correction_rows_of_input)
  then have "k \<in> set (buildCorrectionRows ?i)" using f(2) k(2) q(2) rows by (simp add: seeded_correction_def)
  moreover have "cp_date k = sp_date e1" using k(2) q(3) by (simp add: seeded_correction_def)
  ultimately have "k = late_out_row ?i e1"
    using assms(8) unfolding build by (cases es) (auto simp: correction_row_defs numeral_3_eq_3)
  then have "tc_status q = Approved" "tc_target q = Some (sp_id e1)" "tc_out q \<noteq> sp_out e1"
    using k(2) assms(9) by (auto simp: seeded_correction_def correction_row_defs punch_end_def plus_minutes_def)
  moreover have "e1 \<in> set (entriesByEmp (te_rows (tc_entries db)) e)" using assms(7) by simp
  from entriesByEmp_mem[OF this] have "\<exists>x \<in> set (te_rows (tc_entries db')). te_id x = sp_id e1 \<and> te_out x = sp_out e1"
    using frame by auto
  ultimately show ?thesis using q(1,2) by blast
qed

section \<open>Witnesses\<close>

definition org_chain :: chain_db where
  "org_chain = lq_chains (org_leave_env None)"

lemma org_chain_ok: "chain_inv org_chain" "chain_users org_directory org_chain"
  by (simp_all add: org_chain_def org_leave_env_def chain_inv_def serial_ok_def unique_active_def l2_has_l1_def
      chain_users_def directory_port_def org_directory_def org_user_def)

text \<open>Two entries of the employee and no correction.\<close>

definition org_corrections :: correction_db where
  "org_corrections =
     \<lparr>tc_rows = [], tc_next = 1, tc_events = [], tc_entries =
        \<lparr>te_rows = map (\<lambda>(i, d). \<lparr>te_id = i, te_employee = 6, te_date = d, te_in = at_hour d 9,
             te_out = Some (at_hour d 18), te_source = Admin, te_status = Confirmed, te_notes = None,
             te_created_by = None, te_updated_by = None, te_deleted_by = None, te_deleted_at = None\<rparr>)
           [(1, Date 2026 4 27), (2, Date 2026 4 28)],
         te_next = 3, te_events = []\<rparr>\<rparr>"

lemma org_corrections_inv: "correction_inv org_corrections"
  by (simp add: org_corrections_def correction_inv_def entry_inv_def serial_ok_def unique_active_def te_open_def
      entry_ok_def te_checks_def at_hour_def)

lemma org_entries:
  "entriesByEmp (te_rows (tc_entries org_corrections)) 6 =
     [\<lparr>sp_id = 1, sp_date = Date 2026 4 27, sp_in = at_hour (Date 2026 4 27) 9, sp_out = Some (at_hour (Date 2026 4 27) 18)\<rparr>,
      \<lparr>sp_id = 2, sp_date = Date 2026 4 28, sp_in = at_hour (Date 2026 4 28) 9, sp_out = Some (at_hour (Date 2026 4 28) 18)\<rparr>]"
  by (simp add: org_corrections_def entriesByEmp_def te_live_def less_eq_date_def)

definition org_correction_input :: correction_seed_input where
  "org_correction_input = \<lparr>gi_employee = 6, gi_l1 = 4, gi_l2 = None, gi_admin = None,
     gi_entries = entriesByEmp (te_rows (tc_entries org_corrections)) 6\<rparr>"

theorem generated_corrections_sound_witness:
  "length (buildCorrectionRows org_correction_input) = 2"
  using generated_corrections_sound[of org_correction_input]
  by (simp add: org_correction_input_def org_entries at_hour_def)

lemma org_correction_run: "snd (seedCorrections org_directory org_chain org_corrections) = Inr (2, 0)"
  by code_simp

theorem correction_seed_repeatable_witness:
  "\<exists>db'. seedCorrections org_directory org_chain org_corrections = (db', Inr (2, 0)) \<and>
     seedCorrections org_directory org_chain db' = (db', Inr (0, 2))"
  using correction_seed_repeatable[OF org_chain_ok(2,1) org_corrections_inv] org_correction_run by auto

theorem seeded_approval_not_on_timesheet_witness:
  "\<exists>q \<in> set (tc_rows (fst (seedCorrections org_directory org_chain org_corrections))).
     tc_status q = Approved \<and> tc_target q = Some 2 \<and> tc_out q \<noteq> Some (at_hour (Date 2026 4 28) 18)"
proof -
  have "6 \<in> set (correction_seed_people org_directory org_chain)"
    "chainByEmp (ch_rows org_chain) 6 = Some (Some 4, None)"
    by (simp_all add: correction_seed_people_def org_chain_def org_leave_env_def org_directory_def org_user_def
        chainByEmp_def chain_active_def empty_directory_def ue_live_def)
  moreover have "seedCorrections org_directory org_chain org_corrections =
      (fst (seedCorrections org_directory org_chain org_corrections), Inr (2, 0))"
    using org_correction_run by (metis prod.collapse)
  moreover have "\<forall>q \<in> set (tc_rows org_corrections). tc_employee q \<noteq> 6" by (simp add: org_corrections_def)
  ultimately show ?thesis
    using seeded_approval_not_on_timesheet[OF org_chain_ok(2,1) org_corrections_inv _ _ _ org_entries] by fastforce
qed

end
