(* ===== verification/SeedRun.thy ===== *)
theory SeedRun
  imports SeedPeople SeedPay SeedWork SeedCorrections
begin

text \<open>
  The whole seed run (\<open>src/src/database/seeds/run-seed.ts\<close>): the nine seeders one after the other over one database,
  the first error ending the run with what was written before it.  The result lists the counts that each seeder
  logs.
\<close>

section \<open>The run\<close>

record seed_config =
  sf_permissions :: "permission_input list"
  sf_roles :: "role_manifest list"
  sf_users :: "user_manifest list"
  sf_pay :: "pay_manifest list"
  sf_account :: seed_env
  sf_pay_env :: comp_env
  sf_storage :: storage_env
  sf_placeholder :: "bytes option"
  sf_uuid :: "int \<Rightarrow> string"

record seed_world =
  sw_catalog :: catalog
  sw_people :: directory
  sw_leave :: leave_db
  sw_schedules :: schedule_db
  sw_pay :: comp_db
  sw_chains :: chain_db
  sw_corrections :: correction_db

type_synonym seed_log = "nat list"

definition log2 :: "http_error + nat \<times> nat \<Rightarrow> http_error + seed_log" where
  "log2 r = (case r of Inl er \<Rightarrow> Inl er | Inr (n, m) \<Rightarrow> Inr [n, m])"

definition log3 :: "http_error + nat \<times> nat \<times> nat \<Rightarrow> http_error + seed_log" where
  "log3 r = (case r of Inl er \<Rightarrow> Inl er | Inr (n, m, k) \<Rightarrow> Inr [n, m, k])"

text \<open>The directory reads the catalogue's rows.\<close>

definition permission_step :: "seed_config \<Rightarrow> seed_world \<Rightarrow> seed_world \<times> (http_error + seed_log)" where
  "permission_step cfg w =
     (case seedPermissions (sf_permissions cfg) (0, 0) (sw_catalog w) of
        (ct, c) \<Rightarrow> (w\<lparr>sw_catalog := ct, sw_people := (sw_people w)\<lparr>dr_permissions := map to_permission (ct_rows ct)\<rparr>\<rparr>,
                    log2 (Inr c)))"

definition role_step :: "seed_config \<Rightarrow> seed_world \<Rightarrow> seed_world \<times> (http_error + seed_log)" where
  "role_step cfg w = (case seedRoles (sf_roles cfg) (sw_people w) of (d, r) \<Rightarrow> (w\<lparr>sw_people := d\<rparr>, log2 r))"

definition user_step :: "seed_config \<Rightarrow> seed_world \<Rightarrow> seed_world \<times> (http_error + seed_log)" where
  "user_step cfg w =
     (case seedUsers (sf_account cfg) (sf_users cfg) (sw_people w, sw_leave w) of
        ((d, ld), r) \<Rightarrow> (w\<lparr>sw_people := d, sw_leave := ld\<rparr>, log3 r))"

definition entry_step :: "seed_config \<Rightarrow> seed_world \<Rightarrow> seed_world \<times> (http_error + seed_log)" where
  "entry_step cfg w =
     (case seedEntries (sw_people w) (tc_entries (sw_corrections w)) of
        (es, r) \<Rightarrow> (w\<lparr>sw_corrections := (sw_corrections w)\<lparr>tc_entries := es\<rparr>\<rparr>, log2 r))"

definition schedule_step :: "seed_config \<Rightarrow> seed_world \<Rightarrow> seed_world \<times> (http_error + seed_log)" where
  "schedule_step cfg w =
     (case seedSchedules (sw_people w) (sw_schedules w) of (s, r) \<Rightarrow> (w\<lparr>sw_schedules := s\<rparr>, log2 r))"

definition pay_env_of :: "seed_config \<Rightarrow> directory \<Rightarrow> comp_env" where
  "pay_env_of cfg d = (sf_pay_env cfg)\<lparr>comp_env.ce_users := user_row (directory_port d)\<rparr>"

definition pay_step :: "seed_config \<Rightarrow> seed_world \<Rightarrow> seed_world \<times> (http_error + seed_log)" where
  "pay_step cfg w =
     (case seedPay (pay_env_of cfg (sw_people w)) (sw_people w) (sf_pay cfg) (sw_pay w) of
        (p, r) \<Rightarrow> (w\<lparr>sw_pay := p\<rparr>, log2 r))"

definition chain_step_of :: "seed_config \<Rightarrow> seed_world \<Rightarrow> seed_world \<times> (http_error + seed_log)" where
  "chain_step_of cfg w =
     (case seedChains (sn_now (sf_account cfg)) (sw_people w) (sw_chains w) of
        (c, r) \<Rightarrow> (w\<lparr>sw_chains := c\<rparr>, log2 r))"

definition leave_env_of :: "seed_config \<Rightarrow> seed_world \<Rightarrow> leave_seed_env" where
  "leave_env_of cfg w =
     \<lparr>lq_directory = sw_people w, lq_chains = sw_chains w, lq_schedules = sw_schedules w, lq_storage = sf_storage cfg,
      lq_placeholder = sf_placeholder cfg, lq_uuid = sf_uuid cfg\<rparr>"

definition leave_step_of :: "seed_config \<Rightarrow> seed_world \<Rightarrow> seed_world \<times> (http_error + seed_log)" where
  "leave_step_of cfg w =
     (case seedLeave (leave_env_of cfg w) (sw_leave w) of (ld, r) \<Rightarrow> (w\<lparr>sw_leave := ld\<rparr>, log3 r))"

definition correction_step_of :: "seed_config \<Rightarrow> seed_world \<Rightarrow> seed_world \<times> (http_error + seed_log)" where
  "correction_step_of cfg w =
     (case seedCorrections (sw_people w) (sw_chains w) (sw_corrections w) of
        (c, r) \<Rightarrow> (w\<lparr>sw_corrections := c\<rparr>, log2 r))"

fun run_steps ::
  "('w \<Rightarrow> 'w \<times> (http_error + seed_log)) list \<Rightarrow> 'w \<Rightarrow> 'w \<times> (http_error + seed_log list)" where
  "run_steps [] w = (w, Inr [])"
| "run_steps (f # fs) w =
     (case f w of
        (w1, Inl er) \<Rightarrow> (w1, Inl er)
      | (w1, Inr l) \<Rightarrow>
          (case run_steps fs w1 of (w2, Inl er) \<Rightarrow> (w2, Inl er) | (w2, Inr ls) \<Rightarrow> (w2, Inr (l # ls))))"

definition seed_steps :: "seed_config \<Rightarrow> (seed_world \<Rightarrow> seed_world \<times> (http_error + seed_log)) list" where
  "seed_steps cfg =
     [permission_step cfg, role_step cfg, user_step cfg, entry_step cfg, schedule_step cfg, pay_step cfg,
      chain_step_of cfg, leave_step_of cfg, correction_step_of cfg]"

definition runSeed :: "seed_config \<Rightarrow> seed_world \<Rightarrow> seed_world \<times> (http_error + seed_log list)" where
  "runSeed cfg w = run_steps (seed_steps cfg) w"

section \<open>What the steps keep of each other's tables\<close>

lemma run_steps_Cons:
  "run_steps (f # fs) w = (w', Inr ls) \<longleftrightarrow>
     (\<exists>w1 l ls'. f w = (w1, Inr l) \<and> run_steps fs w1 = (w', Inr ls') \<and> ls = l # ls')"
  by (auto split: prod.splits sum.splits)

lemma log_Inr: "log2 r = Inr l \<longleftrightarrow> (\<exists>n m. r = Inr (n, m) \<and> l = [n, m])" "log3 s = Inr l \<longleftrightarrow> (\<exists>n m k. s = Inr (n, m, k) \<and> l = [n, m, k])"
  by (auto simp: log2_def log3_def split: sum.splits)

text \<open>The leave seeder does not touch the allocations.\<close>

lemma insert_missing_allocs: "ld_allocs (fst (insert_missing env att w rs c db)) = ld_allocs db"
proof (induction rs arbitrary: c db)
  case Nil
  then show ?case by (cases c) simp
next
  case (Cons r rs)
  obtain n k where "c = (n, k)" by (cases c)
  then show ?case
    using Cons.IH by (auto simp: lr_insert_def Let_def split: sum.splits)
qed

lemma seed_upload_allocs: "ld_allocs (fst (seed_upload env e missing db)) = ld_allocs db"
  by (auto simp: seed_upload_def uploadPlaceholder_def at_insert_def Let_def split: option.splits sum.splits prod.splits if_splits)

lemma leave_loop_allocs: "ld_allocs (fst (leave_seed_loop env es index c db)) = ld_allocs db"
proof (induction es arbitrary: index c db)
  case (Cons e es)
  obtain n m k where c: "c = (n, m, k)" by (cases c)
  show ?case
  proof (cases "\<exists>l1 l2. chainByEmp (ch_rows (lq_chains env)) e = Some (Some l1, l2)")
    case True
    then obtain l1 l2 where l: "chainByEmp (ch_rows (lq_chains env)) e = Some (Some l1, l2)" by blast
    let ?rows = "buildLeaveRows (leave_input env e l1 l2 index)"
    let ?miss = "filter (\<lambda>r. \<not> leave_present db r) ?rows"
    obtain db1 att where u: "seed_upload env e ?miss db = (db1, att)" by fastforce
    obtain db2 res where i: "insert_missing env att (windowByEmp (ws_rows (lq_schedules env)) e) ?miss (n, k) db1 = (db2, res)"
      by fastforce
    have "ld_allocs db1 = ld_allocs db" "ld_allocs db2 = ld_allocs db1"
      using seed_upload_allocs[of env e ?miss db]
        insert_missing_allocs[of env att "windowByEmp (ws_rows (lq_schedules env)) e" ?miss "(n, k)" db1] u i by simp_all
    then show ?thesis
      using Cons.IH by (simp add: c l u i Let_def split: sum.splits)
  next
    case False
    then have "leave_seed_loop env (e # es) index c db = leave_seed_loop env es index c db"
      by (auto simp: c split: option.splits)
    then show ?thesis using Cons.IH by simp
  qed
qed simp

lemma seedLeave_allocs: "ld_allocs (fst (seedLeave env db)) = ld_allocs db"
  by (simp add: seedLeave_def leave_loop_allocs)

text \<open>The chain seeder names accounts only, and the timesheet seeder keeps the targets of the requests.\<close>

lemma seed_chain_rows_users:
  assumes "list_all (\<lambda>c. user_row up (ch_approver c)) (ch_rows db)"
  shows "list_all (\<lambda>c. user_row up (ch_approver c)) (ch_rows (fst (seed_chain_rows up now by' rows c db)))"
  using assms
proof (induction rows arbitrary: c db)
  case Nil
  then show ?case by (cases c) simp
next
  case (Cons r rows)
  obtain n m where "c = (n, m)" by (cases c)
  then show ?case
    using Cons by (auto simp: insert_chain_def split: sum.splits if_splits)
qed

lemma seedChains_users: "chain_users d db \<Longrightarrow> chain_users d (fst (seedChains now d db))"
  using seed_chain_rows_users by (simp add: chain_users_def seedChains_def split: sum.splits)

lemma seedEntries_rows: "\<exists>new. te_rows (fst (seedEntries d es)) = te_rows es @ new"
  unfolding seedEntries_def
  by (rule loop_preserves[where P = "\<lambda>t. \<exists>new. te_rows t = te_rows es @ new"]) (auto simp: insert_seed_entry_Inr)

lemma seedEntries_corrections:
  assumes "correction_inv c"
  shows "correction_inv (c\<lparr>tc_entries := fst (seedEntries d (tc_entries c))\<rparr>)"
proof -
  obtain new where new: "te_rows (fst (seedEntries d (tc_entries c))) = te_rows (tc_entries c) @ new"
    using seedEntries_rows by blast
  have "entry_inv (fst (seedEntries d (tc_entries c)))"
    unfolding seedEntries_def by (rule entry_seed.loop_inv) (use assms in \<open>simp add: correction_inv_def\<close>)
  moreover have "request_ok (fst (seedEntries d (tc_entries c))) r" if "request_ok (tc_entries c) r" for r
    using that by (auto simp: request_ok_def target_owned_def new split: option.splits)
  ultimately show ?thesis using assms by (simp add: correction_inv_def)
qed

lemma chain_users_grow:
  assumes "chain_users d ch" "\<exists>new. dr_users d' = dr_users d @ new"
  shows "chain_users d' ch"
  using assms by (auto simp: chain_users_def directory_port_def list_all_iff)

lemma directory_perms_inv: "directory_inv (d\<lparr>dr_permissions := ps\<rparr>) = directory_inv d"
  by (simp add: directory_inv_def)

section \<open>Seeding twice is seeding once\<close>

definition world_ok :: "seed_world \<Rightarrow> bool" where
  "world_ok w \<longleftrightarrow>
     catalog_inv (sw_catalog w) \<and> directory_inv (sw_people w) \<and> emails_lower (sw_people w) \<and>
     schedule_inv (sw_schedules w) \<and> comp_inv (sw_pay w) \<and> chain_inv (sw_chains w) \<and>
     chain_users (sw_people w) (sw_chains w) \<and> correction_inv (sw_corrections w)"

text \<open>The manifests name every permission and every role once.\<close>

definition manifests_ok :: "seed_config \<Rightarrow> bool" where
  "manifests_ok cfg \<longleftrightarrow> distinct (map pi_code (sf_permissions cfg)) \<and> distinct (map rm_name (sf_roles cfg))"

text \<open>What a first run reached and a second run reads, component by component.\<close>

lemma first_run:
  assumes "world_ok w" "manifests_ok cfg" "later (sn_now (sf_account cfg)) (sw_chains w)"
    and "runSeed cfg w = (w', Inr logs)" "logs ! 7 = [n, m, 0]"
  shows "world_ok w'"
    and "dr_permissions (sw_people w') = map to_permission (ct_rows (sw_catalog w'))"
    and "seedPermissions (sf_permissions cfg) (0, 0) (sw_catalog w') = (sw_catalog w', 0, 0)"
    and "\<exists>k. seedRoles (sf_roles cfg) (sw_people w') = (sw_people w', Inr (0, k))"
    and "\<exists>k. seedUsers a (sf_users cfg) (sw_people w', sw_leave w') = ((sw_people w', sw_leave w'), Inr (0, k, 0))"
    and "\<exists>k. seedEntries (sw_people w') (tc_entries (sw_corrections w')) = (tc_entries (sw_corrections w'), Inr (0, k))"
    and "\<exists>k. seedSchedules (sw_people w') (sw_schedules w') = (sw_schedules w', Inr (0, k))"
    and "\<exists>k. seedPay (pay_env_of cfg (sw_people w')) (sw_people w') (sf_pay cfg) (sw_pay w') = (sw_pay w', Inr (0, k))"
    and "\<exists>k. seedChains now (sw_people w') (sw_chains w') = (sw_chains w', Inr (0, k))"
    and "\<exists>k. seedLeave (leave_env_of (cfg\<lparr>sf_storage := st, sf_uuid := uu\<rparr>) w') (sw_leave w') = (sw_leave w', Inr (0, k, 0))"
    and "\<exists>k. seedCorrections (sw_people w') (sw_chains w') (sw_corrections w') = (sw_corrections w', Inr (0, k))"
proof -
  have ok: "catalog_inv (sw_catalog w)" "directory_inv (sw_people w)" "emails_lower (sw_people w)"
    "schedule_inv (sw_schedules w)" "comp_inv (sw_pay w)" "chain_inv (sw_chains w)"
    "chain_users (sw_people w) (sw_chains w)" "correction_inv (sw_corrections w)"
    using assms(1) by (simp_all add: world_ok_def)
  have man: "distinct (map pi_code (sf_permissions cfg))" "distinct (map rm_name (sf_roles cfg))"
    using assms(2) by (simp_all add: manifests_ok_def)
  obtain w1 w2 w3 w4 w5 w6 w7 w8 l1 l2 l3 l4 l5 l6 l7 l8 l9 where
    s: "permission_step cfg w = (w1, Inr l1)" "role_step cfg w1 = (w2, Inr l2)" "user_step cfg w2 = (w3, Inr l3)"
      "entry_step cfg w3 = (w4, Inr l4)" "schedule_step cfg w4 = (w5, Inr l5)" "pay_step cfg w5 = (w6, Inr l6)"
      "chain_step_of cfg w6 = (w7, Inr l7)" "leave_step_of cfg w7 = (w8, Inr l8)" "correction_step_of cfg w8 = (w', Inr l9)"
    and logs: "logs = [l1, l2, l3, l4, l5, l6, l7, l8, l9]"
    using assms(4) unfolding runSeed_def seed_steps_def run_steps_Cons by auto
  define ct where "ct = merge_manifest (sf_permissions cfg) (sw_catalog w)"
  define d0 where "d0 = (sw_people w)\<lparr>dr_permissions := map to_permission (ct_rows ct)\<rparr>"
  have ct: "catalog_inv ct" unfolding ct_def by (rule merge_inv[OF ok(1) man(1)])
  have w1: "w1 = w\<lparr>sw_catalog := ct, sw_people := d0\<rparr>"
    using s(1) by (simp add: permission_step_def seed_spec[OF ok(1) man(1)] ct_def d0_def)
  have d0: "directory_inv d0" "emails_lower d0" "dr_users d0 = dr_users (sw_people w)"
    using ok(2,3) by (simp_all add: d0_def directory_perms_inv emails_lower_def)
  obtain d1 rc where d1: "seedRoles (sf_roles cfg) d0 = (d1, Inr rc)" "w2 = w1\<lparr>sw_people := d1\<rparr>"
    using s(2) by (auto simp: role_step_def w1 log_Inr split: prod.splits)
  note role = role_seed_outcomes[OF d0(1) man(2)]
  have d1ok: "directory_inv d1" "emails_lower d1" "dr_users d1 = dr_users d0" "dr_permissions d1 = dr_permissions d0"
    using role role_loop_ok[OF d0(1), of "dr_permissions d0" "sf_roles cfg" "(0, 0)"] d1(1) d0(2)
    by (simp_all add: emails_lower_def seedRoles_def)
  obtain d2 ld2 x y z where u: "seedUsers (sf_account cfg) (sf_users cfg) (d1, sw_leave w) = ((d2, ld2), Inr (x, y, z))"
    and ef: "seed_effect (findRoleByName d1) (sf_users cfg) d1 (sw_leave w) d2 ld2"
    and settled: "\<forall>env' l. ld_allocs l = ld_allocs ld2 \<longrightarrow> seedUsers env' (sf_users cfg) (d2, l) = ((d2, l), Inr (0, x + y, 0))"
    using user_seed_settled[OF d1ok(1,2), of "sf_account cfg" "sf_users cfg" "sw_leave w"] by blast
  have w3: "w3 = w2\<lparr>sw_people := d2, sw_leave := ld2\<rparr>"
    using s(3) u by (simp add: user_step_def d1(2) w1)
  have d2: "directory_inv d2" "emails_lower d2" "dr_roles d2 = dr_roles d1" "dr_permissions d2 = dr_permissions d0"
    "\<exists>new. dr_users d2 = dr_users d1 @ new"
    using ef d1ok(4) by (simp_all add: seed_effect_def)
  have roles: "seedRoles (sf_roles cfg) d2 = (d2, Inr (0, length (sf_roles cfg)))"
    by (rule role_seed_settled[OF d0(1) man(2) d1(1) d2(1,3,4)])
  have users: "chain_users d2 (sw_chains w)"
    by (rule chain_users_grow[OF ok(7)]) (use d2(5) d1ok(3) d0(3) in simp)
  let ?es = "tc_entries (sw_corrections w)"
  have einv: "entry_inv ?es" using ok(8) by (simp add: correction_inv_def)
  obtain es e1 e2 where es: "seedEntries d2 ?es = (es, Inr (e1, e2))" "seedEntries d2 es = (es, Inr (0, e1 + e2))"
    using entry_seed_repeatable[OF einv, of d2] by blast
  define c4 where "c4 = (sw_corrections w)\<lparr>tc_entries := es\<rparr>"
  have w4: "w4 = w3\<lparr>sw_corrections := c4\<rparr>" using s(4) es(1) by (simp add: entry_step_def w3 d1(2) w1 c4_def)
  have c4: "correction_inv c4" using seedEntries_corrections[OF ok(8), of d2] es(1) by (simp add: c4_def)
  obtain sch s1 s2 where sch: "seedSchedules d2 (sw_schedules w) = (sch, Inr (s1, s2))" "w5 = w4\<lparr>sw_schedules := sch\<rparr>"
    using s(5) by (auto simp: schedule_step_def w4 w3 d1(2) w1 log_Inr split: prod.splits)
  have sch': "schedule_inv sch" "seedSchedules d2 sch = (sch, Inr (0, s1 + s2))"
    using schedule_seed_succeeds_iff[OF ok(4), of d2] sch(1) by simp_all
  let ?pe = "pay_env_of cfg d2"
  obtain pay p1 p2 where pay: "seedPay ?pe d2 (sf_pay cfg) (sw_pay w) = (pay, Inr (p1, p2))" "w6 = w5\<lparr>sw_pay := pay\<rparr>"
    using s(6) by (auto simp: pay_step_def sch(2) w4 w3 d1(2) w1 log_Inr split: prod.splits)
  have pay': "comp_inv pay" "seedPay ?pe d2 (sf_pay cfg) pay = (pay, Inr (0, p1 + p2))"
    using pay_seed.loop_repeat[OF ok(5) pay(1)[unfolded seedPay_def]]
      pay_seed.loop_inv[OF ok(5), of ?pe "seed_author d2" "pay_keys d2 (sf_pay cfg)" "(0, 0)"] pay(1)
    by (simp_all add: seedPay_def)
  let ?now = "sn_now (sf_account cfg)"
  obtain ch h1 h2 where ch: "seedChains ?now d2 (sw_chains w) = (ch, Inr (h1, h2))" "w7 = w6\<lparr>sw_chains := ch\<rparr>"
    using s(7) by (auto simp: chain_step_of_def pay(2) sch(2) w4 w3 d1(2) w1 log_Inr split: prod.splits)
  then have "okR (assignApprovers (seed_employees d2))"
    by (cases "assignApprovers (seed_employees d2)") (simp_all add: seedChains_def)
  from chain_seed_repeatable[OF d2(1) ok(6) assms(3) this, of now] ch(1)
  have ch': "chain_inv ch" "seedChains now d2 ch = (ch, Inr (0, h1 + h2))" by auto
  have chu: "chain_users d2 ch" using seedChains_users[OF users, of ?now] ch(1) by simp
  let ?le = "\<lparr>lq_directory = d2, lq_chains = ch, lq_schedules = sch, lq_storage = sf_storage cfg,
      lq_placeholder = sf_placeholder cfg, lq_uuid = sf_uuid cfg\<rparr>"
  have le: "directory_inv (lq_directory ?le)" "approvers_exist ?le"
    using d2(1) chu by (simp_all add: approvers_exist_def chain_users_def)
  obtain ld8 where ld8: "seedLeave ?le ld2 = (ld8, Inr (n, m, 0))" "w8 = w7\<lparr>sw_leave := ld8\<rparr>"
    using s(8) assms(5) logs
    by (auto simp: leave_step_of_def leave_env_of_def ch(2) pay(2) sch(2) w4 w3 d1(2) w1 log_Inr split: prod.splits)
  obtain k8 where k8: "seedLeave (?le\<lparr>lq_storage := st, lq_uuid := uu\<rparr>) ld8 = (ld8, Inr (0, k8, 0))"
    using leave_seed_repeatable[OF le ld8(1), where st = st and uu = uu] by blast
  have allocs: "ld_allocs ld8 = ld_allocs ld2" using seedLeave_allocs[of ?le ld2] ld8(1) by simp
  obtain c9 g1 g2 where c9: "seedCorrections d2 ch c4 = (c9, Inr (g1, g2))" "correction_inv c9" "tc_entries c9 = tc_entries c4"
    "seedCorrections d2 ch c9 = (c9, Inr (0, g1 + g2))"
    using correction_seed_repeatable[OF chu ch'(1) c4] by blast
  have w': "w' = w8\<lparr>sw_corrections := c9\<rparr>"
    using s(9) c9(1) by (simp add: correction_step_of_def ld8(2) ch(2) pay(2) sch(2) w4 w3 d1(2) w1)
  have parts: "sw_catalog w' = ct" "sw_people w' = d2" "sw_leave w' = ld8" "sw_schedules w' = sch" "sw_pay w' = pay"
    "sw_chains w' = ch" "sw_corrections w' = c9"
    by (simp_all add: w' ld8(2) ch(2) pay(2) sch(2) w4 w3 d1(2) w1)
  show "world_ok w'"
    using ct d2(1,2) sch'(1) pay'(1) ch'(1) chu c9(2) by (simp add: world_ok_def parts)
  show "dr_permissions (sw_people w') = map to_permission (ct_rows (sw_catalog w'))"
    by (simp add: parts d2(4) d0_def)
  show "seedPermissions (sf_permissions cfg) (0, 0) (sw_catalog w') = (sw_catalog w', 0, 0)"
    unfolding parts ct_def by (rule permission_seed_settled[OF ok(1) man(1)])
  show "\<exists>k. seedRoles (sf_roles cfg) (sw_people w') = (sw_people w', Inr (0, k))" using roles by (simp add: parts)
  show "\<exists>k. seedUsers a (sf_users cfg) (sw_people w', sw_leave w') = ((sw_people w', sw_leave w'), Inr (0, k, 0))"
    using settled allocs by (simp add: parts)
  show "\<exists>k. seedEntries (sw_people w') (tc_entries (sw_corrections w')) = (tc_entries (sw_corrections w'), Inr (0, k))"
    using es(2) c9(3) by (simp add: parts c4_def)
  show "\<exists>k. seedSchedules (sw_people w') (sw_schedules w') = (sw_schedules w', Inr (0, k))" using sch'(2) by (simp add: parts)
  show "\<exists>k. seedPay (pay_env_of cfg (sw_people w')) (sw_people w') (sf_pay cfg) (sw_pay w') = (sw_pay w', Inr (0, k))"
    using pay'(2) by (simp add: parts)
  show "\<exists>k. seedChains now (sw_people w') (sw_chains w') = (sw_chains w', Inr (0, k))" using ch'(2) by (simp add: parts)
  show "\<exists>k. seedLeave (leave_env_of (cfg\<lparr>sf_storage := st, sf_uuid := uu\<rparr>) w') (sw_leave w') = (sw_leave w', Inr (0, k, 0))"
    using k8 by (simp add: parts leave_env_of_def)
  show "\<exists>k. seedCorrections (sw_people w') (sw_chains w') (sw_corrections w') = (sw_corrections w', Inr (0, k))"
    using c9(4) by (simp add: parts)
qed

text \<open>C37: Over a database that keeps the contracts of its modules, a second seed run after one that succeeded and left no
  leave row out for want of a file succeeds too, changes nothing at all, and every seeder logs that it inserted
  nothing: with the same manifests and placeholder, but at any later time, with any password, and whatever the
  storage does.\<close>

theorem run_seed_repeatable:
  assumes "world_ok w" "manifests_ok cfg" "later (sn_now (sf_account cfg)) (sw_chains w)"
    and "runSeed cfg w = (w', Inr logs)" "logs ! 7 = [n, m, 0]"
  shows "world_ok w' \<and> (\<exists>logs'. runSeed (cfg\<lparr>sf_account := a, sf_storage := st, sf_uuid := uu\<rparr>) w' = (w', Inr logs') \<and>
    length logs' = 9 \<and> (\<forall>l \<in> set logs'. hd l = 0))"
proof
  let ?cfg = "cfg\<lparr>sf_account := a, sf_storage := st, sf_uuid := uu\<rparr>"
  note f = first_run[OF assms]
  show "world_ok w'" by (rule f(1))
  obtain k2 k3 k4 k5 k6 k7 k8 k9 where
    k: "seedRoles (sf_roles cfg) (sw_people w') = (sw_people w', Inr (0, k2))"
      "seedUsers a (sf_users cfg) (sw_people w', sw_leave w') = ((sw_people w', sw_leave w'), Inr (0, k3, 0))"
      "seedEntries (sw_people w') (tc_entries (sw_corrections w')) = (tc_entries (sw_corrections w'), Inr (0, k4))"
      "seedSchedules (sw_people w') (sw_schedules w') = (sw_schedules w', Inr (0, k5))"
      "seedPay (pay_env_of cfg (sw_people w')) (sw_people w') (sf_pay cfg) (sw_pay w') = (sw_pay w', Inr (0, k6))"
      "seedChains (sn_now a) (sw_people w') (sw_chains w') = (sw_chains w', Inr (0, k7))"
      "seedLeave (leave_env_of (cfg\<lparr>sf_storage := st, sf_uuid := uu\<rparr>) w') (sw_leave w') = (sw_leave w', Inr (0, k8, 0))"
      "seedCorrections (sw_people w') (sw_chains w') (sw_corrections w') = (sw_corrections w', Inr (0, k9))"
    using f(4) f(5)[where a = a] f(6-8) f(9)[where now = "sn_now a"] f(10)[where st = st and uu = uu] f(11) by blast
  have env: "leave_env_of ?cfg w' = leave_env_of (cfg\<lparr>sf_storage := st, sf_uuid := uu\<rparr>) w'" "pay_env_of ?cfg = pay_env_of cfg"
    by (simp_all add: leave_env_of_def pay_env_of_def fun_eq_iff)
  have "permission_step ?cfg w' = (w', Inr [0, 0])"
    using f(2,3) by (simp add: permission_step_def log2_def)
  moreover have "role_step ?cfg w' = (w', Inr [0, k2])" using k(1) by (simp add: role_step_def log2_def)
  moreover have "user_step ?cfg w' = (w', Inr [0, k3, 0])" using k(2) by (simp add: user_step_def log3_def)
  moreover have "entry_step ?cfg w' = (w', Inr [0, k4])" using k(3) by (simp add: entry_step_def log2_def)
  moreover have "schedule_step ?cfg w' = (w', Inr [0, k5])" using k(4) by (simp add: schedule_step_def log2_def)
  moreover have "pay_step ?cfg w' = (w', Inr [0, k6])" using k(5) by (simp add: pay_step_def env log2_def)
  moreover have "chain_step_of ?cfg w' = (w', Inr [0, k7])" using k(6) by (simp add: chain_step_of_def log2_def)
  moreover have "leave_step_of ?cfg w' = (w', Inr [0, k8, 0])" using k(7) by (simp add: leave_step_of_def env log3_def)
  moreover have "correction_step_of ?cfg w' = (w', Inr [0, k9])" using k(8) by (simp add: correction_step_of_def log2_def)
  ultimately have "runSeed ?cfg w' =
      (w', Inr [[0, 0], [0, k2], [0, k3, 0], [0, k4], [0, k5], [0, k6], [0, k7], [0, k8, 0], [0, k9]])"
    by (simp add: runSeed_def seed_steps_def)
  then show "\<exists>logs'. runSeed ?cfg w' = (w', Inr logs') \<and> length logs' = 9 \<and> (\<forall>l \<in> set logs'. hd l = 0)" by simp
qed

section \<open>Where a run can end\<close>




lemma permission_step_ok:
  assumes "world_ok w" "manifests_ok cfg"
  shows "\<exists>w' l. permission_step cfg w = (w', Inr l) \<and> world_ok w' \<and> sw_chains w' = sw_chains w"
  using assms merge_inv[of "sw_catalog w" "sf_permissions cfg"]
  by (auto simp: permission_step_def seed_spec world_ok_def manifests_ok_def log2_def directory_perms_inv emails_lower_def
      chain_users_def directory_port_def)

lemma user_step_ok:
  assumes "world_ok w"
  shows "\<exists>w' l. user_step cfg w = (w', Inr l) \<and> world_ok w' \<and> sw_chains w' = sw_chains w"
proof -
  have ok: "directory_inv (sw_people w)" "emails_lower (sw_people w)" using assms by (simp_all add: world_ok_def)
  obtain d ld n k a where u: "seedUsers (sf_account cfg) (sf_users cfg) (sw_people w, sw_leave w) = ((d, ld), Inr (n, k, a))"
    "seed_effect (findRoleByName (sw_people w)) (sf_users cfg) (sw_people w) (sw_leave w) d ld"
    using user_seed_settled[OF ok, of "sf_account cfg" "sf_users cfg" "sw_leave w"] by blast
  then show ?thesis
    using assms chain_users_grow[of "sw_people w" "sw_chains w" d]
    by (auto simp: user_step_def seed_effect_def world_ok_def log3_def)
qed

lemma entry_step_ok:
  assumes "world_ok w"
  shows "\<exists>w' l. entry_step cfg w = (w', Inr l) \<and> world_ok w' \<and> sw_chains w' = sw_chains w"
proof -
  have c: "correction_inv (sw_corrections w)" using assms by (simp add: world_ok_def)
  then have "entry_inv (tc_entries (sw_corrections w))" by (simp add: correction_inv_def)
  then obtain es n m where "seedEntries (sw_people w) (tc_entries (sw_corrections w)) = (es, Inr (n, m))"
    using entry_seed_repeatable by blast
  then show ?thesis
    using assms seedEntries_corrections[OF c, of "sw_people w"] by (simp add: entry_step_def world_ok_def log2_def)
qed




lemma leave_step_ok:
  assumes "world_ok w"
  shows "\<exists>w' l. leave_step_of cfg w = (w', Inr l) \<and> world_ok w'"
proof -
  have "directory_inv (lq_directory (leave_env_of cfg w))" "approvers_exist (leave_env_of cfg w)"
    using assms by (simp_all add: world_ok_def leave_env_of_def approvers_exist_def chain_users_def)
  from seedLeave_result[OF this, of "sw_leave w"] obtain ld n m k
    where "seedLeave (leave_env_of cfg w) (sw_leave w) = (ld, Inr (n, m, k))" by blast
  then show ?thesis using assms by (simp add: leave_step_of_def log3_def world_ok_def)
qed

lemma correction_step_ok:
  assumes "world_ok w"
  shows "\<exists>w' l. correction_step_of cfg w = (w', Inr l) \<and> world_ok w'"
proof -
  have "chain_users (sw_people w) (sw_chains w)" "chain_inv (sw_chains w)" "correction_inv (sw_corrections w)"
    using assms by (simp_all add: world_ok_def)
  from correction_seed_repeatable[OF this] obtain c n m
    where "seedCorrections (sw_people w) (sw_chains w) (sw_corrections w) = (c, Inr (n, m))" "correction_inv c" by blast
  then show ?thesis using assms by (auto simp: correction_step_of_def log2_def world_ok_def)
qed

lemmas seed_steps_ok = permission_step_ok user_step_ok entry_step_ok leave_step_ok correction_step_ok


section \<open>Witnesses\<close>

text \<open>A director and somebody of HR, seeded into empty tables without a placeholder file.\<close>

definition sample_person :: "string \<Rightarrow> string \<Rightarrow> user_manifest" where
  "sample_person email role =
     \<lparr>um_email = email, um_first = ''A'', um_last = ''B'', um_title = None, um_role = role, um_admin = None, um_active = None\<rparr>"

definition sample_config :: seed_config where
  "sample_config =
     \<lparr>sf_permissions = sample_manifest,
      sf_roles = [\<lparr>rm_name = HR, rm_description = None, rm_codes = None\<rparr>,
                  \<lparr>rm_name = TD, rm_description = None, rm_codes = Some [''LEAVE:Approve'']\<rparr>],
      sf_users = [sample_person ''h@asima.inc'' HR, sample_person ''t@asima.inc'' TD],
      sf_pay = [\<lparr>mp_email = ''h@asima.inc'', mp_monthly = 20000, mp_hourly = Some 100, mp_from = Date 2026 1 1, mp_to = None\<rparr>],
      sf_account = sample_account, sf_pay_env = sample_pay_env, sf_storage = sample_env, sf_placeholder = None,
      sf_uuid = (\<lambda>_. ''u'')\<rparr>"

definition empty_world :: seed_world where
  "empty_world =
     \<lparr>sw_catalog = empty_catalog, sw_people = empty_directory [] [], sw_leave = empty_leave_db, sw_schedules = no_schedules,
      sw_pay = empty_comp_db, sw_chains = empty_chains,
      sw_corrections = \<lparr>tc_rows = [], tc_next = 1, tc_events = [], tc_entries = no_entries\<rparr>\<rparr>"

lemma empty_world_ok: "world_ok empty_world"
  using empty_tables empty_chains_inv empty_comp_inv
  by (simp add: world_ok_def empty_world_def catalog_inv_def empty_catalog_def directory_inv_def empty_directory_def
      emails_lower_def chain_users_def correction_inv_def) (simp add: empty_chains_def)

lemma sample_config_ok: "manifests_ok sample_config"
  by (simp add: manifests_ok_def sample_config_def sample_manifest_distinct HR_def TD_def)

lemma empty_world_later: "later (sn_now (sf_account cfg)) (sw_chains empty_world)"
  by (simp add: later_def empty_world_def empty_chains_def)

definition seeded_world :: seed_world where
  "seeded_world = fst (runSeed sample_config empty_world)"

lemma sample_run: "snd (runSeed sample_config empty_world) = Inr [[2, 0], [2, 0], [2, 0, 4], [6, 0], [10, 0], [1, 0], [2, 0], [6, 0, 0], [6, 0]]"
  by code_simp

theorem run_seed_repeatable_witness:
  "world_ok seeded_world \<and> okR (snd (runSeed sample_config seeded_world))"
proof -
  have run: "runSeed sample_config empty_world =
      (seeded_world, Inr [[2, 0], [2, 0], [2, 0, 4], [6, 0], [10, 0], [1, 0], [2, 0], [6, 0, 0], [6, 0]])"
    using sample_run by (metis prod.collapse seeded_world_def)
  have "sample_config\<lparr>sf_account := sample_account, sf_storage := sample_env, sf_uuid := \<lambda>_. ''u''\<rparr> = sample_config"
    by (simp add: sample_config_def)
  then show ?thesis
    using run_seed_repeatable[OF empty_world_ok sample_config_ok empty_world_later run, of 6 0,
        where a = sample_account and st = sample_env and uu = "\<lambda>_. ''u''"] by auto
qed




end
