(* ===== verification/Spec2Isabelle.thy ===== *)
theory Spec2Isabelle
  imports LeaveOutcomes CascadeOutcomes ApprovalsInbox RouteGuards PayTimeline SeedRun
begin

text \<open>
  Verification library of the asima HR backend (\<open>src/src\<close>, a NestJS service over PostgreSQL).

  \<^bold>\<open>The program.\<close>  Employees punch a timesheet (\<open>time-entries\<close>), ask for leave (\<open>leave-requests\<close>) and
  for corrections of their timesheet (\<open>time-correction-requests\<close>).  Each request is decided in one or two
  steps by the approvers that \<open>approval-chains\<close> assigns to the employee at the time of the request; the
  inbox (\<open>approvals\<close>) lists what a caller can decide.  Leave is paid for by grants (\<open>leave-allocations\<close>)
  and counted on the days of the employee's \<open>work-schedules\<close>; changing a schedule cascades over the
  requests on the days it governs.  \<open>compensation\<close> keeps the timeline of each employee's pay with an
  audit trail, \<open>storage\<close> the files of sick leave.  \<open>users\<close>, \<open>roles\<close> and \<open>permissions\<close> are the directory;
  \<open>auth\<close> issues tokens, and the routes of the controllers stand behind a throttler, the access token and the
  permission guard.  \<open>database/seeds\<close> fills an empty installation.

  \<^bold>\<open>How code becomes definitions.\<close>  A table is the list of its rows in the order of their serial ids with the
  next id, an entity a record, an enum a datatype.  The constraints of the migrations (CHECK, unique and
  partial unique indexes, foreign keys) are conditions of the insert and update functions and answer with
  constructors of \<open>http_error\<close>, beside the exceptions the services throw.  A service operation maps the state
  (and the instant, where it reads the clock) to the new state and a value of \<open>http_error + 'a\<close>, so that
  whatever was written before a throw stays visible; a transaction returns the old state.  Where two requests
  can run between the reads and the writes of a call, the call is split there (\<open>submit_prepare\<close> and
  \<open>submit_commit\<close>, \<open>approve_load\<close> and \<open>approve_finish\<close>, \<open>apply_load\<close> and \<open>finish_tx\<close>, \<open>refresh_validate\<close>,
  \<open>refresh_rotate\<close> and \<open>signTokens\<close>), and the step relations interleave the parts.  Instants are milliseconds
  as \<open>int\<close>, dates and clocks records, day counts \<open>rat\<close>, bytes of files 8-bit words, money cents as \<open>int\<close>.

  \<^bold>\<open>The theories.\<close>

  \<^item> \<open>Prelude\<close>: results, tri-state patch fields, strings, tables, paging (\<open>utils/helpers\<close>), and the locale
    \<open>partial_unique\<close> of the partial unique indexes, interpreted for every table that has one.
  \<^item> \<open>Dates\<close>: calendar dates, day numbers, weekdays, clock strings, and their texts (\<open>utils/helpers/dates.ts\<close>,
    \<open>clock.ts\<close>).
  \<^item> \<open>Access\<close>: users, roles, permissions and \<open>PermissionsGuard\<close>.
  \<^item> \<open>ApprovalChains\<close>: the chain table, \<open>setChain\<close>, \<open>endStep\<close>, \<open>bulkReassign\<close>, \<open>bulkAssign\<close>; they refine
    patches of a map from (employee, step) to the approver and keep the contract of the table.
  \<^item> \<open>WorkSchedules\<close>, \<open>LeaveDayCount\<close>: schedules and the days a request costs; the loop over days counts
    exactly the scheduled dates.
  \<^item> \<open>TwoStep\<close>: the two-step approval machine as the locale \<open>two_step_approval\<close>, interpreted on the leave and
    the correction aggregate.
  \<^item> \<open>LeaveAggregate\<close>, \<open>Storage\<close>, \<open>LeaveLedger\<close>, \<open>LeaveService\<close>: aggregate, files, grants and balances, and
    the leave service; \<open>LeaveLifecycle\<close> has the interleaved steps and the invariant (never overdrawn),
    \<open>LeaveOutcomes\<close> what each call leaves behind.
  \<^item> \<open>TimeEntries\<close>, \<open>TimeCorrections\<close>, \<open>CorrectionOutcomes\<close>: the timesheet, the correction requests that
    rewrite it, and their interleaving.
  \<^item> \<open>ScheduleChange\<close>, \<open>CascadeOutcomes\<close>: preview and apply of a schedule change over schedules, leave and
    corrections together.
  \<^item> \<open>Directory\<close>, \<open>Sessions\<close>: users, roles and passwords; login, refresh, logout and the token ledger.
  \<^item> \<open>Compensation\<close>, \<open>PayTimeline\<close>: pay rows, their audit, and their refinement of a timeline of rates.
  \<^item> \<open>ApprovalsInbox\<close>: the merged inbox, compared with what the decision calls accept.
  \<^item> \<open>Routes\<close>, \<open>RouteGuards\<close>: the table of all routes, the pipeline in front of the handlers, who can reach
    what, and whose identity the handlers pass on.
  \<^item> \<open>ManifestMerge\<close>, \<open>Catalog\<close>: the permission catalogue with its seeder and the list of roles; \<open>ManifestMerge\<close> has the
    locale \<open>manifest_merge\<close> of the seeders that bring a table in line with a file, interpreted for permissions and roles.
  \<^item> \<open>SeedPeople\<close>, \<open>SeedPay\<close>: the seeders of roles, users with their default balances, and compensation.
  \<^item> \<open>SeedRun\<close>: the whole seed run over one database, where it can end, and that running it again changes nothing.
  \<^item> \<open>SeedChains\<close>, \<open>SeedLoop\<close>, \<open>SeedWork\<close>, \<open>SeedLeave\<close>, \<open>SeedLeaveRun\<close>, \<open>SeedCorrections\<close>: the seeders of approval chains, schedules,
    time entries, leave requests and corrections; \<open>SeedLoop\<close> has the loop they share with the locale \<open>repeatable_seed\<close>.

  \<^bold>\<open>The lemmas.\<close>  Each theory proves an invariant of its tables and that every operation keeps it, lifts it to
  the reachable states of a step relation, and then states per operation what it does on every branch.  The
  theorems numbered C are the claims; each is followed by, or collected at the end with, a witness at a
  concrete state.  Several show behaviour that the comments or documents of the code do not expect; they are
  stated as the code behaves.

  \<^bold>\<open>Loops and bounds.\<close>  Every recursion is total: the loops over days recurse on the distance to the end of
  the range, which the range check bounds; there is no fuel.  Numbers are unbounded where JavaScript's exact
  range and PostgreSQL's \<open>integer\<close> are not exceeded by the validated inputs; \<open>numeric(p,s)\<close> overflow is an error
  of the insert.

  \<^bold>\<open>Not modelled.\<close>  DTO validation by \<open>class-validator\<close>, Swagger decorators and response assemblers (field
  renaming), module wiring and \<open>main.ts\<close>, configuration, the S3 client and the image library (parameters of
  \<open>Storage\<close>), bcrypt and JWT signatures (parameters of \<open>Directory\<close> and tokens as verified payloads), the
  throttler's counters and \<open>ParseIntPipe\<close> (parameters of \<open>Routes\<close>), the purge script and request-id
  middleware.  A call reads the clock once where the code may read it twice; foreign keys of \<open>work_schedules\<close>
  are checked only where a schedule change can meet them; the rounding of a derived hourly rate is exact where
  the code rounds a double.  The interleaved leave steps leave out the edit by HR, whose effects are stated on
  their own.
\<close>

end
